(* ===== verification/Prelude.thy ===== *)
theory Prelude
  imports Main "HOL-Library.AList" "HOL-Library.Multiset" "HOL-Library.Char_ord"
    "HOL-Library.List_Lexorder" "HOL-Library.Product_Lexorder" "HOL-Library.Sublist"
begin

text \<open>
  What the component theories share: the Python values the library passes around, results
  that are either an error or a value, Python dictionaries as association lists in insertion
  order, and the generic lemmas the component proofs use.

  Python strings are modelled as \<^typ>\<open>string\<close> (lists of characters); an object whose class
  compares by identity carries a natural number that stands for its \<open>id()\<close>.
\<close>

named_theorems result_simps \<open>evaluation of the result combinators\<close>
named_theorems dict_simps \<open>lookups and key sets after dictionary updates\<close>

section \<open>Python values\<close>

datatype pyval =
    PNone
  | PBool bool
  | PInt int
  | PStr string
  | PBytes string
  | PTuple "pyval list"
  | PList "pyval list"
  | PDict "(string \<times> pyval) list"

text \<open>
  \<open>isinstance(x, Sequence) and not isinstance(x, str | bytes | bytearray)\<close>: the items of a
  value that counts as a group of values.
\<close>

fun seq_items :: "pyval \<Rightarrow> pyval list option" where
  "seq_items (PTuple xs) = Some xs"
| "seq_items (PList xs) = Some xs"
| "seq_items _ = None"

section \<open>Results: an error or a value\<close>

definition bindE :: "'e + 'a \<Rightarrow> ('a \<Rightarrow> 'e + 'b) \<Rightarrow> 'e + 'b" where
  "bindE m f = (case m of Inl e \<Rightarrow> Inl e | Inr x \<Rightarrow> f x)"

lemma bindE_simps [simp, result_simps]:
  "bindE (Inl e) f = Inl e"
  "bindE (Inr x) f = f x"
  by (simp_all add: bindE_def)

lemma bindE_Inr_iff: "bindE m f = Inr y \<longleftrightarrow> (\<exists>x. m = Inr x \<and> f x = Inr y)"
  by (cases m) auto

lemma bindE_Inl_iff: "bindE m f = Inl e \<longleftrightarrow> m = Inl e \<or> (\<exists>x. m = Inr x \<and> f x = Inl e)"
  by (cases m) auto

text \<open>A comprehension whose body may raise: the first error stops it.\<close>

fun mapE :: "('a \<Rightarrow> 'e + 'b) \<Rightarrow> 'a list \<Rightarrow> 'e + 'b list" where
  "mapE f [] = Inr []"
| "mapE f (x # xs) = bindE (f x) (\<lambda>y. bindE (mapE f xs) (\<lambda>ys. Inr (y # ys)))"

lemma mapE_Inr_iff: "mapE f xs = Inr ys \<longleftrightarrow> list_all2 (\<lambda>x y. f x = Inr y) xs ys"
  by (induction xs arbitrary: ys) (auto simp: bindE_Inr_iff list_all2_Cons1)

lemma mapE_length: "mapE f xs = Inr ys \<Longrightarrow> length ys = length xs"
  by (auto simp: mapE_Inr_iff dest: list_all2_lengthD)

text \<open>A loop over a list whose body may raise.\<close>

fun foldE :: "('s \<Rightarrow> 'a \<Rightarrow> 'e + 's) \<Rightarrow> 's \<Rightarrow> 'a list \<Rightarrow> 'e + 's" where
  "foldE f s [] = Inr s"
| "foldE f s (x # xs) = bindE (f s x) (\<lambda>s'. foldE f s' xs)"

lemma foldE_append: "foldE f s (xs @ ys) = bindE (foldE f s xs) (\<lambda>s'. foldE f s' ys)"
  by (induction xs arbitrary: s) (auto simp: bindE_def split: sum.splits)

text \<open>What every step keeps, the whole loop keeps.\<close>

lemma foldE_invariant:
  assumes "foldE f s xs = Inr t" and "P s"
    and "\<And>s x s'. x \<in> set xs \<Longrightarrow> P s \<Longrightarrow> f s x = Inr s' \<Longrightarrow> P s'"
  shows "P t"
  using assms
proof (induction xs arbitrary: s)
  case Nil
  then show ?case by simp
next
  case (Cons x xs)
  from Cons.prems(1) obtain s' where s': "f s x = Inr s'" "foldE f s' xs = Inr t"
    by (auto simp: bindE_Inr_iff)
  have "P s'" using Cons.prems(2,3) s'(1) by auto
  then show ?case using Cons.IH [OF s'(2)] Cons.prems(3) by auto
qed

text \<open>The same, for a property that also names the part of the list already consumed.\<close>

lemma foldE_prefix_invariant:
  assumes "foldE f s xs = Inr t" and "P [] s"
    and "\<And>ys x zs s s'. xs = ys @ x # zs \<Longrightarrow> P ys s \<Longrightarrow> f s x = Inr s' \<Longrightarrow> P (ys @ [x]) s'"
  shows "P xs t"
  using assms
proof (induction xs arbitrary: t rule: rev_induct)
  case Nil
  then show ?case by simp
next
  case (snoc x xs)
  from snoc.prems(1) obtain u where u: "foldE f s xs = Inr u" "f u x = Inr t"
    by (auto simp: foldE_append bindE_Inr_iff)
  have "P xs u"
    using snoc.IH [OF u(1) snoc.prems(2)] snoc.prems(3) by simp
  then show ?case using snoc.prems(3) [of xs x "[]"] u(2) by simp
qed

text \<open>A loop whose body only checks its element and updates the state.\<close>

lemma foldE_guard:
  assumes "\<And>s x. g s x = (if bad x then Inl (e s x) else Inr (f x s))"
  shows "foldE g s xs = Inr t \<longleftrightarrow> (\<forall>x \<in> set xs. \<not> bad x) \<and> t = fold f xs s"
  by (induction xs arbitrary: s) (auto simp: assms)

text \<open>A loop in a loop is a loop over the pairs.\<close>

lemma foldE_concat:
  "foldE (\<lambda>s r. foldE (g r) s (f r)) s rs =
     foldE (\<lambda>s p. g (fst p) s (snd p)) s (concat (map (\<lambda>r. map (Pair r) (f r)) rs))"
proof -
  have "foldE (g r) s xs = foldE (\<lambda>s p. g (fst p) s (snd p)) s (map (Pair r) xs)" for r s xs
    by (induction xs arbitrary: s) auto
  then show ?thesis
    by (induction rs arbitrary: s) (auto simp: foldE_append)
qed

lemma foldE_total:
  assumes "P [] s"
    and "\<And>ys x zs s. xs = ys @ x # zs \<Longrightarrow> P ys s \<Longrightarrow> \<exists>s'. f s x = Inr s' \<and> P (ys @ [x]) s'"
  shows "\<exists>t. foldE f s xs = Inr t \<and> P xs t"
  using assms
proof (induction xs rule: rev_induct)
  case Nil
  then show ?case by simp
next
  case (snoc x xs)
  have "\<exists>u. foldE f s xs = Inr u \<and> P xs u"
    using snoc.IH [OF snoc.prems(1)] snoc.prems(2) by simp
  then obtain u where u: "foldE f s xs = Inr u" "P xs u" by blast
  show ?case using snoc.prems(2) [of xs x "[]" u] u by (auto simp: foldE_append)
qed

section \<open>Results of operations that also change a state\<close>

text \<open>
  A Python method that may raise half way: the error or the value, and the state it leaves in both
  cases.
\<close>

type_synonym ('e, 'a, 's) run = "('e + 'a) \<times> 's"

definition bindS :: "('e, 'a, 's) run \<Rightarrow> ('a \<Rightarrow> 's \<Rightarrow> ('e, 'b, 's) run) \<Rightarrow> ('e, 'b, 's) run" where
  "bindS m f = (case m of (Inl e, s) \<Rightarrow> (Inl e, s) | (Inr x, s) \<Rightarrow> f x s)"

lemma bindS_simps [simp, result_simps]:
  "bindS (Inl e, s) f = (Inl e, s)"
  "bindS (Inr x, s) f = f x s"
  by (simp_all add: bindS_def)

lemma bindS_cases:
  assumes "bindS m f = (r, s')"
  obtains (error) e where "m = (Inl e, s')" "r = Inl e"
    | (ok) x s where "m = (Inr x, s)" "f x s = (r, s')"
  using assms by (auto simp: bindS_def split: prod.splits sum.splits)

lemma bindS_Inr_iff:
  "bindS m f = (Inr y, t) \<longleftrightarrow> (\<exists>x s. m = (Inr x, s) \<and> f x s = (Inr y, t))"
  by (auto simp: bindS_def split: prod.splits sum.splits)

section \<open>Dictionaries in insertion order\<close>

text \<open>
  A Python \<open>dict\<close> is an association list with distinct keys: assigning to a key that is there
  keeps its place, a new key goes last. \<open>AList.update\<close> and \<open>AList.delete\<close> do exactly that.
\<close>

type_synonym ('k, 'v) dict = "('k \<times> 'v) list"

abbreviation keys :: "('k, 'v) dict \<Rightarrow> 'k list" where
  "keys d \<equiv> map fst d"

abbreviation dict_ok :: "('k, 'v) dict \<Rightarrow> bool" where
  "dict_ok d \<equiv> distinct (map fst d)"

lemma dict_get_update [simp, dict_simps]:
  "map_of (AList.update k v d) j = (if j = k then Some v else map_of d j)"
  by (simp add: update_conv)

lemma dict_get_delete [simp, dict_simps]:
  "map_of (AList.delete k d) j = (if j = k then None else map_of d j)"
  by (simp add: delete_conv)

lemma dict_ok_update [simp]: "dict_ok (AList.update k v d) \<longleftrightarrow> dict_ok d"
  by (simp add: update_keys)

lemma dict_ok_delete [simp]: "dict_ok d \<Longrightarrow> dict_ok (AList.delete k d)"
  by (simp add: distinct_delete)

lemma set_keys_update [simp, dict_simps]:
  "fst ` set (AList.update k v d) = insert k (fst ` set d)"
  by (simp add: dom_update)

lemma set_keys_delete [simp, dict_simps]:
  "fst ` set (AList.delete k d) = fst ` set d - {k}"
  by (induction d) auto

lemma keys_update_present: "k \<in> fst ` set d \<Longrightarrow> keys (AList.update k v d) = keys d"
  by (induction d) auto

lemma keys_update_absent: "k \<notin> fst ` set d \<Longrightarrow> AList.update k v d = d @ [(k, v)]"
  by (induction d) auto

lemma fold_update_fresh:
  "distinct (keys d @ map f xs) \<Longrightarrow>
     fold (\<lambda>x d. AList.update (f x) (g x) d) xs d = d @ map (\<lambda>x. (f x, g x)) xs"
proof (induction xs arbitrary: d)
  case (Cons x xs)
  then have "AList.update (f x) (g x) d = d @ [(f x, g x)]"
    by (intro keys_update_absent) auto
  then show ?case using Cons.IH [of "d @ [(f x, g x)]"] Cons.prems by simp
qed simp

lemma set_dict_update:
  "dict_ok d \<Longrightarrow> set (AList.update k v d) = insert (k, v) {p \<in> set d. fst p \<noteq> k}"
  by (induction d) (auto simp: image_iff)

lemma set_dict_delete: "set (AList.delete k d) = {p \<in> set d. fst p \<noteq> k}"
  by (induction d) auto

lemma map_of_Some_iff: "dict_ok d \<Longrightarrow> map_of d k = Some v \<longleftrightarrow> (k, v) \<in> set d"
  by simp

section \<open>Strings\<close>

text \<open>\<open>sep.join(parts)\<close>, and \<open>repr\<close> of a text that needs no escape.\<close>

fun join :: "string \<Rightarrow> string list \<Rightarrow> string" where
  "join sep [] = []"
| "join sep [x] = x"
| "join sep (x # y # ys) = x @ sep @ join sep (y # ys)"

definition py_repr :: "string \<Rightarrow> string" where
  "py_repr s = CHR 39 # s @ [CHR 39]"

text \<open>\<open>s.partition(sep)\<close>: what stands before and after the first occurrence.\<close>

fun find_sub :: "string \<Rightarrow> string \<Rightarrow> (string \<times> string) option" where
  "find_sub pat [] = (if pat = [] then Some ([], []) else None)"
| "find_sub pat (c # cs) =
     (if prefix pat (c # cs) then Some ([], drop (length pat) (c # cs))
      else map_option (\<lambda>(a, b). (c # a, b)) (find_sub pat cs))"

definition py_partition :: "string \<Rightarrow> string \<Rightarrow> string \<times> string \<times> string" where
  "py_partition s sep = (case find_sub sep s of None \<Rightarrow> (s, [], []) | Some (a, b) \<Rightarrow> (a, sep, b))"

lemma find_sub_Some: "find_sub pat s = Some (a, b) \<Longrightarrow> s = a @ pat @ b"
proof (induction s arbitrary: a)
  case Nil
  then show ?case by (auto split: if_splits)
next
  case (Cons c s)
  then show ?case by (auto split: if_splits simp: prefix_def)
qed

lemma find_sub_None: "find_sub pat s = None \<Longrightarrow> s \<noteq> a @ pat @ b"
proof (induction s arbitrary: a)
  case Nil
  then show ?case by (auto split: if_splits)
next
  case (Cons c s)
  then show ?case by (cases a) (auto split: if_splits simp: prefix_def)
qed

text \<open>\<open>str.strip\<close>, \<open>str.lower\<close> on ASCII, and \<open>str.split\<close> on one character.\<close>

definition is_space :: "char \<Rightarrow> bool" where
  "is_space c \<longleftrightarrow> (of_char c :: nat) \<in> {9, 10, 11, 12, 13, 28, 29, 30, 31, 32, 133, 160}"

definition lstrip_if :: "(char \<Rightarrow> bool) \<Rightarrow> string \<Rightarrow> string" where
  "lstrip_if p s = dropWhile p s"

definition rstrip_if :: "(char \<Rightarrow> bool) \<Rightarrow> string \<Rightarrow> string" where
  "rstrip_if p s = rev (dropWhile p (rev s))"

definition strip :: "string \<Rightarrow> string" where
  "strip s = rstrip_if is_space (lstrip_if is_space s)"

definition lower_char :: "char \<Rightarrow> char" where
  "lower_char c =
     (let n = of_char c :: nat in if 65 \<le> n \<and> n \<le> 90 then char_of (n + 32) else c)"

definition upper_char :: "char \<Rightarrow> char" where
  "upper_char c = (let n = of_char c :: nat in if 97 \<le> n \<and> n \<le> 122 then char_of (n - 32) else c)"

definition lower :: "string \<Rightarrow> string" where
  "lower s = map lower_char s"

fun split_on :: "char \<Rightarrow> string \<Rightarrow> string list" where
  "split_on d [] = [[]]"
| "split_on d (c # cs) =
     (if c = d then [] # split_on d cs
      else case split_on d cs of (w # ws) \<Rightarrow> (c # w) # ws | [] \<Rightarrow> [[c]])"

text \<open>\<open>str\<close> of a number.\<close>

fun digits_of :: "nat \<Rightarrow> string" where
  "digits_of n = (if n < 10 then [char_of (48 + n)] else digits_of (n div 10) @ [char_of (48 + n mod 10)])"

declare digits_of.simps [simp del]

definition str_int :: "int \<Rightarrow> string" where
  "str_int i = (if i < 0 then CHR ''-'' # digits_of (nat (- i)) else digits_of (nat i))"

section \<open>Lists\<close>

lemma sort_key_sorted [simp]: "sorted (map f (sort_key f xs))"
  by simp

text \<open>An element stands before another one in a list.\<close>

definition before :: "'a list \<Rightarrow> 'a \<Rightarrow> 'a \<Rightarrow> bool" where
  "before xs a b \<longleftrightarrow> (\<exists>us vs. xs = us @ b # vs \<and> a \<in> set us)"

lemma before_append: "before xs a b \<Longrightarrow> before (xs @ ys) a b"
  unfolding before_def by (metis append.assoc append_Cons)

lemma before_snoc: "a \<in> set xs \<Longrightarrow> before (xs @ [b]) a b"
  unfolding before_def by blast

lemma before_in: "before xs a b \<Longrightarrow> a \<in> set xs \<and> b \<in> set xs"
  unfolding before_def by auto

lemma before_nth:
  assumes "distinct xs" and "before xs a b"
  shows "\<exists>i j. i < j \<and> j < length xs \<and> xs ! i = a \<and> xs ! j = b"
proof -
  from assms(2) obtain us vs where xs: "xs = us @ b # vs" and a: "a \<in> set us"
    unfolding before_def by blast
  from a obtain i where "i < length us" "us ! i = a"
    by (auto simp: in_set_conv_nth)
  then have "i < length us \<and> length us < length xs \<and> xs ! i = a \<and> xs ! length us = b"
    using xs by (auto simp: nth_append)
  then show ?thesis by blast
qed

lemma filter_eq_single:
  assumes "distinct xs" and "a \<in> set xs" and "\<And>x. x \<in> set xs \<Longrightarrow> P x \<longleftrightarrow> x = a"
  shows "filter P xs = [a]"
proof -
  have "filter P xs = filter (\<lambda>x. x = a) xs"
    using assms(3) by (auto intro: filter_cong)
  also have "\<dots> = [a]"
    using assms(1,2) by (induction xs) (auto simp: filter_empty_conv)
  finally show ?thesis .
qed

end
