(* ===== verification/Errors.thy ===== *)
theory Errors
  imports Prelude
begin

text \<open>
  The exceptions of \<open>eazy_sdk/core/errors.py\<close> and the built-in ones the compiled execution path
  distinguishes, as one datatype: every \<open>raise\<close> of a modelled function is a value of it. The
  class hierarchy, which \<open>except\<close> clauses read, is the predicates \<open>is_binding_error\<close>,
  \<open>is_graph_error\<close> and \<open>is_plan_error\<close>.
\<close>

datatype binding_phase = BindPhase | ProjectionPhase | PreparePhase

datatype sdk_error =
    PlanError string
  | BindingError string
  | OperationBindingError string string "string option" binding_phase string
  | SlotBindingError nat string
  | SlotValueError nat string "string option"
  | PatchError string
  | GraphError string
  | WriterConflictError string
  | PyTypeError string
  | PyValueError string
  | PyError string

text \<open>\<open>isinstance\<close> along the class hierarchy.\<close>

fun is_binding_error :: "sdk_error \<Rightarrow> bool" where
  "is_binding_error (BindingError _) = True"
| "is_binding_error (OperationBindingError _ _ _ _ _) = True"
| "is_binding_error (SlotBindingError _ _) = True"
| "is_binding_error _ = False"

fun is_graph_error :: "sdk_error \<Rightarrow> bool" where
  "is_graph_error (GraphError _) = True"
| "is_graph_error (WriterConflictError _) = True"
| "is_graph_error _ = False"

fun is_plan_error :: "sdk_error \<Rightarrow> bool" where
  "is_plan_error (PlanError _) = True"
| "is_plan_error (PatchError _) = True"
| "is_plan_error e = (is_binding_error e \<or> is_graph_error e)"

text \<open>\<open>SlotValueError\<close> is a \<open>TypeError\<close>, not a \<open>PlanError\<close>.\<close>

fun is_type_error :: "sdk_error \<Rightarrow> bool" where
  "is_type_error (PyTypeError _) = True"
| "is_type_error (SlotValueError _ _ _) = True"
| "is_type_error _ = False"

fun is_value_error :: "sdk_error \<Rightarrow> bool" where
  "is_value_error (PyValueError _) = True"
| "is_value_error _ = False"

text \<open>\<open>OperationBindingError.__init__\<close>: the three texts it needs must not be empty.\<close>

definition operation_binding_error ::
  "string \<Rightarrow> string \<Rightarrow> string option \<Rightarrow> binding_phase \<Rightarrow> string \<Rightarrow> sdk_error" where
  "operation_binding_error code operation_id fld phase detail =
     (if code = [] then PyValueError ''operation binding error code must not be empty''
      else if operation_id = []
        then PyValueError ''operation binding error operation_id must not be empty''
      else if detail = [] then PyValueError ''operation binding error detail must not be empty''
      else OperationBindingError code operation_id fld phase detail)"

text \<open>\<open>OperationBindingError.as_dict\<close>: the detail, which may quote a value, is left out.\<close>

fun phase_name :: "binding_phase \<Rightarrow> string" where
  "phase_name BindPhase = ''bind''"
| "phase_name ProjectionPhase = ''projection''"
| "phase_name PreparePhase = ''prepare''"

fun error_as_dict :: "sdk_error \<Rightarrow> (string, string option) dict" where
  "error_as_dict (OperationBindingError code operation_id fld phase detail) =
     [(''code'', Some code), (''operation_id'', Some operation_id), (''field'', fld),
      (''phase'', Some (phase_name phase))]"
| "error_as_dict _ = []"

lemma binding_is_plan_error: "is_binding_error e \<Longrightarrow> is_plan_error e"
  by (cases e) auto

lemma graph_is_plan_error: "is_graph_error e \<Longrightarrow> is_plan_error e"
  by (cases e) auto

end
