(* ===== verification/Kernel.thy ===== *)
theory Kernel
  imports Errors
begin

text \<open>
  Operation values (\<open>eazy_sdk/core/kernel.py\<close>): slots, the shape they form, binding a call's
  arguments to it, patches applied all at once, and the arbitration of parsed cases.

  A slot compares by identity (\<open>eq=False\<close>), so \<open>slot_id\<close> stands for \<open>id(slot)\<close>; its validator is
  the callable the declaration supplies, which returns the stored value or raises.
\<close>

section \<open>Slots and shapes\<close>

datatype slot_cardinality = ONE | MANY

datatype patch_conflict = CONFLICT_ERROR | REPLACE_LOWER_PRIORITY | PRESERVE_EXISTING

type_synonym validator = "pyval \<Rightarrow> sdk_error + pyval"

record value_slot =
  slot_id :: nat
  diagnostic_name :: string
  slot_validator :: validator
  slot_required :: bool
  slot_secret :: bool
  slot_card :: slot_cardinality

type_synonym shape = "value_slot list"

text \<open>
  \<open>_validate_annotation\<close>, the check behind \<open>PythonTypeValidator\<close>, for annotations made of the
  built-in classes. \<open>bool\<close> is a subclass of \<open>int\<close>; a sequence annotation checks every item
  against its first argument. Typed dictionaries and model classes, which go to the model
  adapters, are not modelled; the message keeps no \<open>repr\<close> of the annotation.
\<close>

datatype annotation =
    AnyAnn
  | IntAnn
  | BoolAnn
  | StrAnn
  | BytesAnn
  | NoneAnn
  | UnionAnn "annotation list"
  | LiteralAnn "pyval list"
  | ListAnn "annotation list"
  | TupleAnn "annotation list"
  | DictAnn "annotation list"

definition is_instance :: "pyval \<Rightarrow> annotation \<Rightarrow> bool" where
  "is_instance v a =
     (case a of
        IntAnn \<Rightarrow> (case v of PInt _ \<Rightarrow> True | PBool _ \<Rightarrow> True | _ \<Rightarrow> False)
      | BoolAnn \<Rightarrow> (case v of PBool _ \<Rightarrow> True | _ \<Rightarrow> False)
      | StrAnn \<Rightarrow> (case v of PStr _ \<Rightarrow> True | _ \<Rightarrow> False)
      | BytesAnn \<Rightarrow> (case v of PBytes _ \<Rightarrow> True | _ \<Rightarrow> False)
      | NoneAnn \<Rightarrow> v = PNone
      | _ \<Rightarrow> False)"

fun validate_annotation :: "annotation \<Rightarrow> pyval \<Rightarrow> sdk_error + unit" where
  "validate_annotation AnyAnn v = Inr ()"
| "validate_annotation (UnionAnn options) v =
     (if list_ex (\<lambda>a. validate_annotation a v = Inr ()) options then Inr ()
      else Inl (PyTypeError ''expected the annotation''))"
| "validate_annotation (LiteralAnn options) v =
     (if v \<in> set options then Inr () else Inl (PyTypeError ''expected one of the options''))"
| "validate_annotation (ListAnn args) v =
     (case v of
        PList xs \<Rightarrow> (case args of [] \<Rightarrow> Inr ()
                    | a # _ \<Rightarrow> bindE (mapE (validate_annotation a) xs) (\<lambda>_. Inr ()))
      | _ \<Rightarrow> Inl (PyTypeError ''expected the annotation''))"
| "validate_annotation (TupleAnn args) v =
     (case v of
        PTuple xs \<Rightarrow> (case args of [] \<Rightarrow> Inr ()
                     | a # _ \<Rightarrow> bindE (mapE (validate_annotation a) xs) (\<lambda>_. Inr ()))
      | _ \<Rightarrow> Inl (PyTypeError ''expected the annotation''))"
| "validate_annotation (DictAnn args) v =
     (case v of
        PDict kvs \<Rightarrow>
          (case args of
             [ka, va] \<Rightarrow> bindE (mapE (\<lambda>(k, x).
                 bindE (validate_annotation ka (PStr k)) (\<lambda>_. validate_annotation va x)) kvs)
               (\<lambda>_. Inr ())
           | _ \<Rightarrow> Inr ())
      | _ \<Rightarrow> Inl (PyTypeError ''expected the annotation''))"
| "validate_annotation a v =
     (if is_instance v a then Inr () else Inl (PyTypeError ''expected the annotation''))"

definition python_type_validator :: "annotation \<Rightarrow> validator" where
  "python_type_validator a v = bindE (validate_annotation a v) (\<lambda>_. Inr v)"

text \<open>\<open>OperationShape.__post_init__\<close>: no slot twice.\<close>

fun check_shape :: "nat list \<Rightarrow> shape \<Rightarrow> sdk_error + unit" where
  "check_shape seen [] = Inr ()"
| "check_shape seen (s # ss) =
     (if slot_id s \<in> set seen
      then Inl (BindingError (''duplicate slot identity in shape: '' @ diagnostic_name s))
      else check_shape (slot_id s # seen) ss)"

definition operation_shape :: "value_slot list \<Rightarrow> sdk_error + shape" where
  "operation_shape ss = bindE (check_shape [] ss) (\<lambda>_. Inr ss)"

abbreviation shape_ok :: "shape \<Rightarrow> bool" where
  "shape_ok sh \<equiv> distinct (map slot_id sh)"

text \<open>\<open>OperationShape.index\<close>: the first position whose slot \<^emph>\<open>is\<close> the target.\<close>

fun slot_index_from :: "nat \<Rightarrow> shape \<Rightarrow> value_slot \<Rightarrow> sdk_error + nat" where
  "slot_index_from k [] target =
     Inl (BindingError (''slot does not belong to shape: '' @ diagnostic_name target))"
| "slot_index_from k (s # ss) target =
     (if slot_id s = slot_id target then Inr k else slot_index_from (Suc k) ss target)"

abbreviation slot_index :: "shape \<Rightarrow> value_slot \<Rightarrow> sdk_error + nat" where
  "slot_index sh target \<equiv> slot_index_from 0 sh target"

section \<open>Operation values\<close>

text \<open>\<open>None\<close> in \<open>vals\<close> is the sentinel \<open>_MISSING\<close>.\<close>

record op_values =
  val_shape :: shape
  vals :: "pyval option list"

definition operation_values :: "shape \<Rightarrow> pyval option list \<Rightarrow> sdk_error + op_values" where
  "operation_values sh vs =
     (if length vs \<noteq> length sh
      then Inl (BindingError ''request values length does not match request shape'')
      else Inr \<lparr>val_shape = sh, vals = vs\<rparr>)"

definition empty_values :: "shape \<Rightarrow> sdk_error + op_values" where
  "empty_values sh = operation_values sh (replicate (length sh) None)"

definition contains_slot :: "op_values \<Rightarrow> value_slot \<Rightarrow> sdk_error + bool" where
  "contains_slot ov s = bindE (slot_index (val_shape ov) s) (\<lambda>i. Inr (vals ov ! i \<noteq> None))"

definition get_slot :: "op_values \<Rightarrow> value_slot \<Rightarrow> pyval option \<Rightarrow> sdk_error + pyval option" where
  "get_slot ov s dflt =
     bindE (slot_index (val_shape ov) s)
       (\<lambda>i. Inr (case vals ov ! i of None \<Rightarrow> dflt | Some v \<Rightarrow> Some v))"

definition require_slot :: "op_values \<Rightarrow> value_slot \<Rightarrow> sdk_error + pyval" where
  "require_slot ov s =
     bindE (slot_index (val_shape ov) s)
       (\<lambda>i. case vals ov ! i of
              None \<Rightarrow> Inl (BindingError (''slot has no value: '' @ diagnostic_name s))
            | Some v \<Rightarrow> Inr v)"

definition ordered_items :: "op_values \<Rightarrow> (value_slot \<times> pyval) list" where
  "ordered_items ov =
     concat (map (\<lambda>(s, v). case v of None \<Rightarrow> [] | Some x \<Rightarrow> [(s, x)])
       (zip (val_shape ov) (vals ov)))"

section \<open>Binding the arguments of a call\<close>

text \<open>\<open>str(exc)\<close>, for the errors a validator raises.\<close>

fun error_message :: "sdk_error \<Rightarrow> string" where
  "error_message (PlanError m) = m"
| "error_message (BindingError m) = m"
| "error_message (OperationBindingError _ _ _ _ m) = m"
| "error_message (SlotBindingError _ m) = m"
| "error_message (SlotValueError _ m _) = m"
| "error_message (PatchError m) = m"
| "error_message (GraphError m) = m"
| "error_message (WriterConflictError m) = m"
| "error_message (PyTypeError m) = m"
| "error_message (PyValueError m) = m"
| "error_message (PyError m) = m"

text \<open>The nested path a validator's message names, without the model's own name.\<close>

definition validation_error_path :: "string \<Rightarrow> string option" where
  "validation_error_path message =
     (case find_sub ''missing required field '' message of
        None \<Rightarrow> None
      | Some (_, path) \<Rightarrow>
          (case py_partition path ''.'' of (_, separator, nested) \<Rightarrow>
             Some (if separator \<noteq> [] then nested else path)))"

text \<open>\<open>except (TypeError, ValueError) as exc: raise SlotValueError(...)\<close>; any other error passes.\<close>

definition lower_value_error :: "value_slot \<Rightarrow> sdk_error \<Rightarrow> sdk_error" where
  "lower_value_error s e =
     (if is_type_error e \<or> is_value_error e
      then SlotValueError (slot_id s) (error_message e) (validation_error_path (error_message e))
      else e)"

definition bind_value :: "value_slot \<Rightarrow> pyval \<Rightarrow> sdk_error + pyval" where
  "bind_value s v =
     (case slot_card s of
        MANY \<Rightarrow>
          (case seq_items v of
             None \<Rightarrow> Inl (SlotValueError (slot_id s)
                       (''expected a sequence for multi-value slot '' @ diagnostic_name s) None)
           | Some xs \<Rightarrow> map_sum (lower_value_error s) PTuple (mapE (slot_validator s) xs))
      | ONE \<Rightarrow> map_sum (lower_value_error s) id (slot_validator s v))"

text \<open>One binding; the state is the values so far and the positions already bound.\<close>

fun bind_step ::
  "shape \<Rightarrow> pyval option list \<times> nat list \<Rightarrow> value_slot \<times> pyval
     \<Rightarrow> sdk_error + pyval option list \<times> nat list" where
  "bind_step sh (vs, occupied) (s, v) =
     bindE (slot_index sh s) (\<lambda>i.
       if i \<in> set occupied
       then Inl (BindingError (''duplicate binding for slot: '' @ diagnostic_name s))
       else bindE (bind_value s v) (\<lambda>x. Inr (vs[i := Some x], i # occupied)))"

text \<open>The first required slot with no value.\<close>

definition missing_required :: "shape \<Rightarrow> pyval option list \<Rightarrow> value_slot option" where
  "missing_required sh vs =
     map_option fst (find (\<lambda>p. slot_required (fst p) \<and> snd p = None) (zip sh vs))"

definition from_bound :: "shape \<Rightarrow> (value_slot \<times> pyval) list \<Rightarrow> sdk_error + op_values" where
  "from_bound sh bindings =
     bindE (foldE (bind_step sh) (replicate (length sh) None, []) bindings) (\<lambda>(vs, _).
       case missing_required sh vs of
         Some s \<Rightarrow> Inl (SlotBindingError (slot_id s) ''missing_required'')
       | None \<Rightarrow> operation_values sh vs)"

section \<open>Patches\<close>

datatype patch_op =
    SetOp (op_slot: value_slot) pyval (op_conflict: patch_conflict)
  | AppendOp (op_slot: value_slot) pyval (op_conflict: patch_conflict)
  | ReplaceAllOp (op_slot: value_slot) "pyval list" (op_conflict: patch_conflict)

type_synonym value_patch = "patch_op list"

text \<open>What one operation stores at its slot, given what is there.\<close>

fun patched_value :: "patch_op \<Rightarrow> pyval option \<Rightarrow> sdk_error + pyval" where
  "patched_value (AppendOp s v c) previous =
     (if slot_card s \<noteq> MANY
      then Inl (PatchError (''append requires a multi-value slot: '' @ diagnostic_name s))
      else bindE (slot_validator s v) (\<lambda>item.
        case previous of
          None \<Rightarrow> Inr (PTuple [item])
        | Some (PTuple xs) \<Rightarrow> Inr (PTuple (xs @ [item]))
        | Some _ \<Rightarrow> Inl (PatchError (''invalid stored group for slot: '' @ diagnostic_name s))))"
| "patched_value (ReplaceAllOp s vs c) previous =
     (if slot_card s \<noteq> MANY
      then Inl (PatchError (''replace-all requires a multi-value slot: '' @ diagnostic_name s))
      else map_sum id PTuple (mapE (slot_validator s) vs))"
| "patched_value (SetOp s v c) previous = slot_validator s v"

fun patch_step ::
  "shape \<Rightarrow> pyval option list \<times> (nat, patch_conflict) dict \<Rightarrow> patch_op
     \<Rightarrow> sdk_error + pyval option list \<times> (nat, patch_conflict) dict" where
  "patch_step sh (candidate, writes) operation =
     (case slot_index sh (op_slot operation) of
        Inl e \<Rightarrow> Inl (PatchError (error_message e))
      | Inr i \<Rightarrow>
          if i \<in> set (keys writes) \<and> op_conflict operation = CONFLICT_ERROR
          then Inl (PatchError (''multiple writes in one patch: ''
                 @ diagnostic_name (op_slot operation)))
          else let writes' = AList.update i (op_conflict operation) writes in
            if op_conflict operation = PRESERVE_EXISTING \<and> candidate ! i \<noteq> None
            then Inr (candidate, writes')
            else bindE (patched_value operation (candidate ! i))
                   (\<lambda>x. Inr (candidate[i := Some x], writes')))"

definition apply_patch_atomic :: "op_values \<Rightarrow> value_patch \<Rightarrow> sdk_error + op_values" where
  "apply_patch_atomic ov patch =
     bindE (foldE (patch_step (val_shape ov)) (vals ov, []) patch)
       (\<lambda>(candidate, _). operation_values (val_shape ov) candidate)"

section \<open>Arbitration of parsed cases\<close>

datatype ('case, 'v, 'f) arbitration =
    SelectedCase 'case 'v
  | AmbiguousCases "'case list"
  | MalformedCase 'case 'f
  | NoCaseMatch

definition arbitrate_cases ::
  "('case \<times> 'v) list \<Rightarrow> ('case \<times> 'f) list \<Rightarrow> ('case, 'v, 'f) arbitration" where
  "arbitrate_cases matches malformed =
     (if length matches > 1 then AmbiguousCases (map fst matches)
      else case matches of
             (c, v) # _ \<Rightarrow> SelectedCase c v
           | [] \<Rightarrow> (case malformed of
                      (c, failure) # _ \<Rightarrow> MalformedCase c failure
                    | [] \<Rightarrow> NoCaseMatch))"

section \<open>Slots: lemmas\<close>

lemma slot_index_from_Inr:
  "slot_index_from k sh s = Inr i \<Longrightarrow>
     k \<le> i \<and> i < k + length sh \<and> slot_id (sh ! (i - k)) = slot_id s"
proof (induction sh arbitrary: k)
  case (Cons a sh)
  then show ?case
    by (force split: if_splits simp: nth_Cons' Suc_diff_le not_less_eq_eq)
qed simp

lemma slot_index_Inr:
  "slot_index sh s = Inr i \<Longrightarrow> i < length sh \<and> slot_id (sh ! i) = slot_id s"
  using slot_index_from_Inr [of 0 sh s i] by simp

lemma slot_index_from_Inl:
  "slot_index_from k sh s = Inl e \<Longrightarrow>
     e = BindingError (''slot does not belong to shape: '' @ diagnostic_name s)
     \<and> slot_id s \<notin> slot_id ` set sh"
  by (induction sh arbitrary: k) (auto split: if_splits)

lemma slot_index_from_nth:
  "distinct (map slot_id sh) \<Longrightarrow> i < length sh \<Longrightarrow> slot_id (sh ! i) = slot_id s
     \<Longrightarrow> slot_index_from k sh s = Inr (k + i)"
proof (induction sh arbitrary: k i)
  case (Cons a sh)
  show ?case
  proof (cases i)
    case 0
    with Cons.prems show ?thesis by simp
  next
    case (Suc j)
    then have j: "j < length sh" "slot_id (sh ! j) = slot_id s"
      using Cons.prems(2,3) by auto
    then have "slot_id s \<in> slot_id ` set sh"
      by (metis imageI nth_mem)
    then have "slot_id a \<noteq> slot_id s"
      using Cons.prems(1) by auto
    moreover have "slot_index_from (Suc k) sh s = Inr (Suc k + j)"
      using Cons.IH [of j "Suc k"] Cons.prems(1) j by simp
    ultimately show ?thesis using Suc by simp
  qed
qed simp

lemma slot_index_nth:
  "shape_ok sh \<Longrightarrow> i < length sh \<Longrightarrow> slot_index sh (sh ! i) = Inr i"
  using slot_index_from_nth [of sh i "sh ! i" 0] by simp

lemma check_shape_Inr:
  "check_shape seen ss = Inr () \<longleftrightarrow> distinct (map slot_id ss) \<and> slot_id ` set ss \<inter> set seen = {}"
  by (induction ss arbitrary: seen) auto

lemma operation_shape_ok: "operation_shape ss = Inr sh \<Longrightarrow> sh = ss \<and> shape_ok sh"
  by (auto simp: operation_shape_def bindE_Inr_iff check_shape_Inr)

lemma operation_values_Inr [simp]:
  "operation_values sh vs = Inr ov \<longleftrightarrow> length vs = length sh \<and> ov = \<lparr>val_shape = sh, vals = vs\<rparr>"
  by (auto simp: operation_values_def)

lemma shape_id_inj:
  "shape_ok sh \<Longrightarrow> i < length sh \<Longrightarrow> j < length sh \<Longrightarrow> slot_id (sh ! i) = slot_id (sh ! j)
     \<Longrightarrow> i = j"
  by (metis distinct_conv_nth length_map nth_map)

text \<open>
  What a slot may hold: a value its validator returned, or for a multi-value slot a tuple of
  them.
\<close>

definition produced :: "value_slot \<Rightarrow> pyval \<Rightarrow> bool" where
  "produced s y \<longleftrightarrow> (\<exists>v. slot_validator s v = Inr y)"

definition slot_holds :: "value_slot \<Rightarrow> pyval \<Rightarrow> bool" where
  "slot_holds s x \<longleftrightarrow>
     (case slot_card s of
        ONE \<Rightarrow> produced s x
      | MANY \<Rightarrow> (\<exists>ys. x = PTuple ys \<and> (\<forall>y \<in> set ys. produced s y)))"

definition values_typed :: "op_values \<Rightarrow> bool" where
  "values_typed ov \<longleftrightarrow>
     length (vals ov) = length (val_shape ov) \<and>
     (\<forall>i < length (vals ov). \<forall>x. vals ov ! i = Some x \<longrightarrow> slot_holds (val_shape ov ! i) x)"

text \<open>Two slots with one identity are one slot.\<close>

definition coherent :: "shape \<Rightarrow> value_slot set \<Rightarrow> bool" where
  "coherent sh S \<longleftrightarrow> (\<forall>s \<in> S. \<forall>t \<in> set sh. slot_id t = slot_id s \<longrightarrow> t = s)"

lemma coherent_index:
  "coherent sh S \<Longrightarrow> s \<in> S \<Longrightarrow> slot_index sh s = Inr i \<Longrightarrow> i < length sh \<and> sh ! i = s"
  using slot_index_Inr [of sh s i] by (auto simp: coherent_def)

lemma mapE_produced: "mapE (slot_validator s) xs = Inr ys \<Longrightarrow> y \<in> set ys \<Longrightarrow> produced s y"
  by (fastforce simp: mapE_Inr_iff produced_def in_set_conv_nth list_all2_conv_all_nth)

lemma map_sum_Inr_iff: "map_sum f g r = Inr y \<longleftrightarrow> (\<exists>x. r = Inr x \<and> y = g x)"
  by (cases r) auto

lemma bind_value_holds: "bind_value s v = Inr x \<Longrightarrow> slot_holds s x"
  by (auto simp: bind_value_def slot_holds_def map_sum_Inr_iff produced_def
      split: slot_cardinality.splits option.splits dest: mapE_produced [unfolded produced_def])

section \<open>Binding: lemmas and properties\<close>

text \<open>What the binding loop knows after the bindings \<open>bs\<close>.\<close>

definition bound_so_far ::
  "shape \<Rightarrow> (value_slot \<times> pyval) list \<Rightarrow> pyval option list \<times> nat list \<Rightarrow> bool" where
  "bound_so_far sh bs st \<longleftrightarrow>
     (case st of (vs, occupied) \<Rightarrow>
        length vs = length sh \<and>
        distinct (map (slot_id \<circ> fst) bs) \<and>
        fst ` set bs \<subseteq> set sh \<and>
        (\<forall>i < length sh. i \<in> set occupied \<longleftrightarrow> sh ! i \<in> fst ` set bs) \<and>
        (\<forall>i < length sh. \<forall>x. vs ! i = Some x \<longleftrightarrow>
           (\<exists>v. (sh ! i, v) \<in> set bs \<and> bind_value (sh ! i) v = Inr x)))"

lemma bound_so_far_Nil: "bound_so_far sh [] (replicate (length sh) None, [])"
  by (simp add: bound_so_far_def)

lemma bound_so_far_step:
  assumes inv: "bound_so_far sh bs (vs, occ)" and sh: "shape_ok sh"
    and i: "i < length sh" "sh ! i = s" "i \<notin> set occ" and x: "bind_value s v = Inr x"
  shows "bound_so_far sh (bs @ [(s, v)]) (vs[i := Some x], i # occ)"
proof -
  have other: "sh ! j \<noteq> s \<and> slot_id (sh ! j) \<noteq> slot_id s" if "j < length sh" "j \<noteq> i" for j
    using that i sh by (metis distinct_conv_nth length_map nth_map)
  have fresh: "s \<notin> fst ` set bs"
    using inv i by (auto simp: bound_so_far_def)
  have "slot_id s \<notin> (slot_id \<circ> fst) ` set bs"
  proof
    assume "slot_id s \<in> (slot_id \<circ> fst) ` set bs"
    then obtain t w where tw: "(t, w) \<in> set bs" "slot_id t = slot_id s" by auto
    then have t: "t \<in> fst ` set bs" "slot_id t = slot_id s" by force+
    then have "t \<in> set sh" using inv by (auto simp: bound_so_far_def)
    then obtain j where "j < length sh" "sh ! j = t" by (auto simp: in_set_conv_nth)
    with t other fresh i show False by metis
  qed
  moreover have "s \<in> set sh" using i by auto
  ultimately show ?thesis
    using inv i x other fresh
    by (auto simp: bound_so_far_def nth_list_update image_iff split: if_splits)
qed

lemma bind_step_Inr:
  assumes "bind_step sh (vs, occ) (s, v) = Inr st"
  shows "\<exists>i x. slot_index sh s = Inr i \<and> i \<notin> set occ \<and> bind_value s v = Inr x
           \<and> st = (vs[i := Some x], i # occ)"
  using assms by (auto simp: bindE_Inr_iff split: if_splits)

lemma bind_loop_bound:
  assumes "foldE (bind_step sh) (replicate (length sh) None, []) bs = Inr st"
    and sh: "shape_ok sh" and co: "coherent sh (fst ` set bs)"
  shows "bound_so_far sh bs st"
  using assms(1)
proof (rule foldE_prefix_invariant [where P = "bound_so_far sh"])
  show "bound_so_far sh [] (replicate (length sh) None, [])"
    by (rule bound_so_far_Nil)
next
  fix ys b zs s s'
  assume bs: "bs = ys @ b # zs" and inv: "bound_so_far sh ys s" and st: "bind_step sh s b = Inr s'"
  obtain vs occ where s: "s = (vs, occ)" by fastforce
  obtain sl v where b: "b = (sl, v)" by fastforce
  from st obtain i x where i: "slot_index sh sl = Inr i" "i \<notin> set occ" "bind_value sl v = Inr x"
    and s': "s' = (vs[i := Some x], i # occ)"
    unfolding s b using bind_step_Inr by blast
  have "i < length sh \<and> sh ! i = sl"
    using coherent_index [OF co _ i(1)] bs b by auto
  then show "bound_so_far sh (ys @ [b]) s'"
    using bound_so_far_step [OF inv [unfolded s] sh _ _ i(2,3)] b s' by simp
qed

lemma missing_required_None:
  assumes "length vs = length sh"
  shows "missing_required sh vs = None \<longleftrightarrow>
    (\<forall>i < length sh. slot_required (sh ! i) \<longrightarrow> vs ! i \<noteq> None)"
proof -
  have "missing_required sh vs = None \<longleftrightarrow>
      (\<forall>p \<in> set (zip sh vs). \<not> (slot_required (fst p) \<and> snd p = None))"
    unfolding missing_required_def map_option_is_None find_None_iff by blast
  also have "\<dots> \<longleftrightarrow> (\<forall>i < length (zip sh vs).
      \<not> (slot_required (fst (zip sh vs ! i)) \<and> snd (zip sh vs ! i) = None))"
    by (rule all_set_conv_all_nth)
  also have "\<dots> \<longleftrightarrow> (\<forall>i < length sh. \<not> (slot_required (sh ! i) \<and> vs ! i = None))"
    using assms by simp
  finally show ?thesis by simp
qed

text \<open>What a call may bind: slots of the shape, none twice, valid values, no required slot left.\<close>

definition bindable :: "shape \<Rightarrow> (value_slot \<times> pyval) list \<Rightarrow> bool" where
  "bindable sh bs \<longleftrightarrow>
     (\<forall>(s, v) \<in> set bs. s \<in> set sh \<and> (\<exists>x. bind_value s v = Inr x)) \<and>
     distinct (map (slot_id \<circ> fst) bs) \<and>
     (\<forall>s \<in> set sh. slot_required s \<longrightarrow> s \<in> fst ` set bs)"

lemma bind_loop_total:
  assumes "bindable sh bs" and sh: "shape_ok sh"
  shows "\<exists>st. foldE (bind_step sh) (replicate (length sh) None, []) bs = Inr st
           \<and> bound_so_far sh bs st"
proof (rule foldE_total)
  show "bound_so_far sh [] (replicate (length sh) None, [])"
    by (rule bound_so_far_Nil)
next
  fix ys b zs st
  assume bs: "bs = ys @ b # zs" and inv: "bound_so_far sh ys st"
  obtain vs occ where st: "st = (vs, occ)" by fastforce
  obtain s v where b: "b = (s, v)" by fastforce
  obtain x where s: "s \<in> set sh" "bind_value s v = Inr x"
    using assms(1) bs b by (auto simp: bindable_def)
  then obtain i where i: "i < length sh" "sh ! i = s" by (auto simp: in_set_conv_nth)
  have "s \<notin> fst ` set ys"
    using assms(1) bs b by (auto simp: bindable_def)
  then have "i \<notin> set occ" using inv i st by (auto simp: bound_so_far_def)
  moreover have "slot_index sh s = Inr i" using slot_index_nth [OF sh i(1)] i(2) by simp
  ultimately show "\<exists>st'. bind_step sh st b = Inr st' \<and> bound_so_far sh (ys @ [b]) st'"
    using bound_so_far_step [OF inv [unfolded st] sh i _ s(2)] st b s(2) by auto
qed

lemma from_bound_Inr:
  "from_bound sh bs = Inr ov \<longleftrightarrow>
     (\<exists>vs occ. foldE (bind_step sh) (replicate (length sh) None, []) bs = Inr (vs, occ)
        \<and> missing_required sh vs = None \<and> length vs = length sh
        \<and> ov = \<lparr>val_shape = sh, vals = vs\<rparr>)"
  by (auto simp: from_bound_def bindE_Inr_iff split: option.splits)

text \<open>
  Binding a call (\<open>OperationValues.from_bound\<close>) succeeds exactly when every bound slot
  belongs to the shape, no slot is bound twice, every value passes its slot's validator and
  every required slot has a binding.
\<close>

lemma from_bound_succeeds_iff:
  assumes sh: "shape_ok sh" and co: "coherent sh (fst ` set bs)"
  shows "(\<exists>ov. from_bound sh bs = Inr ov) \<longleftrightarrow> bindable sh bs"
proof
  assume "\<exists>ov. from_bound sh bs = Inr ov"
  then obtain vs occ where loop: "foldE (bind_step sh) (replicate (length sh) None, []) bs = Inr (vs, occ)"
    and req: "missing_required sh vs = None" "length vs = length sh"
    by (auto simp: from_bound_Inr)
  have inv: "bound_so_far sh bs (vs, occ)" by (rule bind_loop_bound [OF loop sh co])
  have valid: "\<exists>x. bind_value s v = Inr x" if "(s, v) \<in> set bs" for s v
  proof -
    from that obtain ys zs where bs: "bs = ys @ (s, v) # zs" by (auto dest: split_list)
    then show ?thesis using loop
      by (auto simp: foldE_append bindE_Inr_iff split: if_splits)
  qed
  have "s \<in> fst ` set bs" if "s \<in> set sh" "slot_required s" for s
  proof -
    from that obtain i where i: "i < length sh" "sh ! i = s" by (auto simp: in_set_conv_nth)
    with that req obtain x where "vs ! i = Some x"
      by (auto simp: missing_required_None)
    with inv i show ?thesis by (auto simp: bound_so_far_def image_iff) (metis fst_conv)
  qed
  with inv valid show "bindable sh bs" by (auto simp: bindable_def bound_so_far_def)
next
  assume ok: "bindable sh bs"
  from bind_loop_total [OF ok sh] obtain vs occ
    where loop: "foldE (bind_step sh) (replicate (length sh) None, []) bs = Inr (vs, occ)"
      and inv: "bound_so_far sh bs (vs, occ)" by auto
  have "vs ! i \<noteq> None" if i: "i < length sh" "slot_required (sh ! i)" for i
  proof -
    obtain v where v: "(sh ! i, v) \<in> set bs"
      using ok i by (auto simp: bindable_def)
    then obtain x where "bind_value (sh ! i) v = Inr x"
      using ok by (auto simp: bindable_def)
    with v inv i show ?thesis by (auto simp: bound_so_far_def)
  qed
  then have "missing_required sh vs = None"
    using inv by (auto simp: missing_required_None bound_so_far_def)
  with loop inv show "\<exists>ov. from_bound sh bs = Inr ov"
    by (auto simp: from_bound_Inr bound_so_far_def)
qed

text \<open>
  A bound call holds exactly the validated values of its bindings, each at its own slot and
  of its slot's kind (one validated value, or a tuple of them for a multi-value slot); every
  other slot is missing.
\<close>

lemma from_bound_values:
  assumes "from_bound sh bs = Inr ov" and sh: "shape_ok sh" and co: "coherent sh (fst ` set bs)"
  shows "val_shape ov = sh \<and> values_typed ov \<and>
    (\<forall>i < length sh. \<forall>x. vals ov ! i = Some x \<longleftrightarrow>
       (\<exists>v. (sh ! i, v) \<in> set bs \<and> bind_value (sh ! i) v = Inr x))"
proof -
  from assms(1) obtain vs occ
    where loop: "foldE (bind_step sh) (replicate (length sh) None, []) bs = Inr (vs, occ)"
      and ov: "ov = \<lparr>val_shape = sh, vals = vs\<rparr>" "length vs = length sh"
    by (auto simp: from_bound_Inr)
  have "bound_so_far sh bs (vs, occ)" by (rule bind_loop_bound [OF loop sh co])
  then show ?thesis
    using ov by (auto simp: bound_so_far_def values_typed_def dest!: bind_value_holds)
qed

text \<open>A shape to apply the properties to: a required number and a group of strings.\<close>

definition page_slot :: value_slot where
  "page_slot = \<lparr>slot_id = 1, diagnostic_name = ''page'',
     slot_validator = python_type_validator IntAnn, slot_required = True, slot_secret = False,
     slot_card = ONE\<rparr>"

definition tags_slot :: value_slot where
  "tags_slot = \<lparr>slot_id = 2, diagnostic_name = ''tags'',
     slot_validator = python_type_validator StrAnn, slot_required = False, slot_secret = False,
     slot_card = MANY\<rparr>"

definition page_call :: "(value_slot \<times> pyval) list" where
  "page_call = [(page_slot, PInt 3), (tags_slot, PList [PStr ''a''])]"

definition page_values :: op_values where
  "page_values = \<lparr>val_shape = [page_slot, tags_slot],
     vals = [Some (PInt 3), Some (PTuple [PStr ''a''])]\<rparr>"

lemmas page_defs = page_slot_def tags_slot_def page_call_def page_values_def

lemma page_shape_ok: "shape_ok [page_slot, tags_slot]"
  by (simp add: page_defs)

lemma page_coherent: "coherent [page_slot, tags_slot] {page_slot, tags_slot}"
  by (simp add: coherent_def page_defs)

lemma page_from_bound: "from_bound [page_slot, tags_slot] page_call = Inr page_values"
  by (simp add: from_bound_def page_defs bind_value_def python_type_validator_def is_instance_def
      missing_required_def)

lemma page_values_typed: "values_typed page_values"
  using from_bound_values [OF page_from_bound page_shape_ok] page_coherent
  by (simp add: page_call_def)

theorem from_bound_succeeds_witness:
  "(\<exists>ov. from_bound [page_slot, tags_slot] page_call = Inr ov)
     \<longleftrightarrow> bindable [page_slot, tags_slot] page_call"
  by (rule from_bound_succeeds_iff)
    (use page_shape_ok page_coherent in \<open>simp_all add: page_call_def\<close>)

lemma from_bound_values_witness:
  "val_shape page_values = [page_slot, tags_slot] \<and> values_typed page_values \<and>
   vals page_values ! 0 = Some (PInt 3)"
  using from_bound_values [OF page_from_bound page_shape_ok] page_coherent
  by (simp add: page_call_def page_values_def)

section \<open>Patches: lemmas and properties\<close>

text \<open>What a patch does to one slot, stated for that slot alone.\<close>

definition slot_patch :: "pyval option \<Rightarrow> patch_op \<Rightarrow> sdk_error + pyval option" where
  "slot_patch old operation =
     (if op_conflict operation = PRESERVE_EXISTING \<and> old \<noteq> None then Inr old
      else map_sum id Some (patched_value operation old))"

definition on_slot :: "shape \<Rightarrow> nat \<Rightarrow> patch_op \<Rightarrow> bool" where
  "on_slot sh i operation \<longleftrightarrow> slot_id (op_slot operation) = slot_id (sh ! i)"

definition patched_so_far ::
  "shape \<Rightarrow> pyval option list \<Rightarrow> patch_op list
     \<Rightarrow> pyval option list \<times> (nat, patch_conflict) dict \<Rightarrow> bool" where
  "patched_so_far sh old ops st \<longleftrightarrow>
     (case st of (cand, writes) \<Rightarrow>
        length cand = length old \<and>
        (\<forall>i < length sh. i \<in> set (keys writes) \<longleftrightarrow> (\<exists>p \<in> set ops. on_slot sh i p)) \<and>
        (\<forall>i < length sh. foldE slot_patch (old ! i) (filter (on_slot sh i) ops) = Inr (cand ! i)) \<and>
        (\<forall>k < length ops. \<forall>j < k.
           slot_id (op_slot (ops ! j)) = slot_id (op_slot (ops ! k))
             \<longrightarrow> op_conflict (ops ! k) \<noteq> CONFLICT_ERROR))"

lemma patch_step_Inr:
  assumes "patch_step sh (cand, writes) p = Inr st"
  shows "\<exists>i x. slot_index sh (op_slot p) = Inr i
    \<and> \<not> (i \<in> set (keys writes) \<and> op_conflict p = CONFLICT_ERROR)
    \<and> slot_patch (cand ! i) p = Inr x
    \<and> st = (cand[i := x], AList.update i (op_conflict p) writes)"
  using assms
  by (auto simp: Let_def slot_patch_def bindE_Inr_iff map_sum_Inr_iff
      split: sum.splits if_splits)

lemma patched_so_far_step:
  assumes inv: "patched_so_far sh old ops (cand, writes)" and sh: "shape_ok sh"
    and len: "length old = length sh"
    and st: "patch_step sh (cand, writes) p = Inr st"
  shows "patched_so_far sh old (ops @ [p]) st"
proof -
  obtain i x where i: "slot_index sh (op_slot p) = Inr i"
    and free: "\<not> (i \<in> set (keys writes) \<and> op_conflict p = CONFLICT_ERROR)"
    and x: "slot_patch (cand ! i) p = Inr x"
    and st': "st = (cand[i := x], AList.update i (op_conflict p) writes)"
    using patch_step_Inr [OF st] by blast
  have i': "i < length sh" "slot_id (sh ! i) = slot_id (op_slot p)"
    using slot_index_Inr [OF i] by auto
  have on: "on_slot sh j p \<longleftrightarrow> j = i" if "j < length sh" for j
    using that i' shape_id_inj [OF sh that i'(1)] by (auto simp: on_slot_def)
  have later: "op_conflict p \<noteq> CONFLICT_ERROR"
    if "j < length ops" "slot_id (op_slot (ops ! j)) = slot_id (op_slot p)" for j
  proof -
    have "on_slot sh i (ops ! j)" using that i' by (simp add: on_slot_def)
    then have "i \<in> set (keys writes)"
      using inv i' that(1) nth_mem by (fastforce simp: patched_so_far_def)
    with free show ?thesis by blast
  qed
  show ?thesis
    using inv on later i' x len
    by (auto simp: patched_so_far_def st' foldE_append nth_append nth_list_update less_Suc_eq)
qed

lemma patch_loop_inv:
  assumes "foldE (patch_step (val_shape ov)) (vals ov, []) ops = Inr st"
    and "shape_ok (val_shape ov)" and "length (vals ov) = length (val_shape ov)"
  shows "patched_so_far (val_shape ov) (vals ov) ops st"
  using assms(1)
proof (rule foldE_prefix_invariant)
  show "patched_so_far (val_shape ov) (vals ov) [] (vals ov, [])"
    by (simp add: patched_so_far_def)
next
  fix ys p zs s s'
  assume "patched_so_far (val_shape ov) (vals ov) ys s" "patch_step (val_shape ov) s p = Inr s'"
  then show "patched_so_far (val_shape ov) (vals ov) (ys @ [p]) s'"
    by (cases s) (metis patched_so_far_step assms(2,3))
qed

text \<open>
  A committed patch acts on every slot on its own: the value of a slot is what its own
  operations, in order, make of its old value (so a slot no operation names keeps its value, and
  a value that is there survives a preserving write), and no operation with the default conflict
  rule writes a slot an earlier operation of the patch wrote.
\<close>

lemma apply_patch_slotwise:
  assumes "apply_patch_atomic ov patch = Inr ov'"
    and "shape_ok (val_shape ov)" and "length (vals ov) = length (val_shape ov)"
  shows "val_shape ov' = val_shape ov \<and> length (vals ov') = length (vals ov) \<and>
    (\<forall>i < length (vals ov).
       foldE slot_patch (vals ov ! i) (filter (on_slot (val_shape ov) i) patch)
         = Inr (vals ov' ! i)) \<and>
    (\<forall>k < length patch. \<forall>j < k.
       slot_id (op_slot (patch ! j)) = slot_id (op_slot (patch ! k))
         \<longrightarrow> op_conflict (patch ! k) \<noteq> CONFLICT_ERROR)"
proof -
  from assms(1) obtain cand writes
    where loop: "foldE (patch_step (val_shape ov)) (vals ov, []) patch = Inr (cand, writes)"
      and ov': "ov' = \<lparr>val_shape = val_shape ov, vals = cand\<rparr>"
    by (auto simp: apply_patch_atomic_def bindE_Inr_iff)
  show ?thesis
    using patch_loop_inv [OF loop assms(2,3)] assms(3) ov' by (auto simp: patched_so_far_def)
qed

text \<open>An operation that stores a value of its slot's kind: \<open>Set\<close> is for single-value slots.\<close>

fun op_fits :: "patch_op \<Rightarrow> bool" where
  "op_fits (SetOp s _ _) \<longleftrightarrow> slot_card s = ONE"
| "op_fits _ \<longleftrightarrow> True"

lemma patched_value_holds:
  assumes "patched_value p old = Inr y" and "op_fits p"
    and old: "\<forall>x. old = Some x \<longrightarrow> slot_holds (op_slot p) x"
  shows "slot_holds (op_slot p) y"
proof (cases p)
  case (SetOp s v c)
  with assms show ?thesis by (auto simp: slot_holds_def produced_def)
next
  case (ReplaceAllOp s vs c)
  with assms(1) show ?thesis
    by (auto simp: slot_holds_def map_sum_Inr_iff split: if_splits dest: mapE_produced)
next
  case (AppendOp s v c)
  then have many: "slot_card s = MANY" and p: "op_slot p = s"
    using assms(1) by (auto split: if_splits)
  obtain item where item: "slot_validator s v = Inr item"
    and y: "(case old of None \<Rightarrow> Inr (PTuple [item])
             | Some (PTuple xs) \<Rightarrow> Inr (PTuple (xs @ [item]))
             | Some _ \<Rightarrow> Inl (PatchError (''invalid stored group for slot: '' @ diagnostic_name s)))
            = Inr y"
    using assms(1) AppendOp many by (auto simp: bindE_Inr_iff)
  have "y = PTuple [item]" if "old = None"
    using y that by simp
  moreover have "\<exists>xs. x = PTuple xs \<and> y = PTuple (xs @ [item])" if "old = Some x" for x
    using y that by (cases x) simp_all
  moreover have "produced s item" using item by (auto simp: produced_def)
  ultimately show ?thesis
    using old many p by (cases old) (auto simp: slot_holds_def)
qed

lemma slot_patch_holds:
  assumes "slot_patch old p = Inr new" and "op_fits p"
    and "\<forall>x. old = Some x \<longrightarrow> slot_holds (op_slot p) x"
  shows "\<forall>x. new = Some x \<longrightarrow> slot_holds (op_slot p) x"
  using assms patched_value_holds [of p old]
  by (auto simp: slot_patch_def map_sum_Inr_iff split: if_splits)

text \<open>
  A patch keeps every stored value of its slot's kind, as long as it uses \<open>Set\<close> on
  single-value slots only (the code does not check that).
\<close>

lemma apply_patch_typed:
  assumes patch: "apply_patch_atomic ov patch = Inr ov'" and typed: "values_typed ov"
    and sh: "shape_ok (val_shape ov)" and co: "coherent (val_shape ov) (op_slot ` set patch)"
    and fits: "\<forall>p \<in> set patch. op_fits p"
  shows "values_typed ov'"
proof -
  let ?sh = "val_shape ov"
  note slots = apply_patch_slotwise [OF patch sh]
  have len: "length (vals ov) = length ?sh" using typed by (simp add: values_typed_def)
  have "\<forall>x. vals ov' ! i = Some x \<longrightarrow> slot_holds (?sh ! i) x" if i: "i < length (vals ov)" for i
  proof (rule foldE_invariant [where P = "\<lambda>v. \<forall>x. v = Some x \<longrightarrow> slot_holds (?sh ! i) x"])
    show "foldE slot_patch (vals ov ! i) (filter (on_slot ?sh i) patch) = Inr (vals ov' ! i)"
      using slots len i by blast
    show "\<forall>x. vals ov ! i = Some x \<longrightarrow> slot_holds (?sh ! i) x"
      using typed i by (auto simp: values_typed_def)
    fix v p v'
    assume p: "p \<in> set (filter (on_slot ?sh i) patch)"
      and v: "\<forall>x. v = Some x \<longrightarrow> slot_holds (?sh ! i) x" and step: "slot_patch v p = Inr v'"
    have "?sh ! i \<in> set ?sh" using i len by simp
    then have "op_slot p = ?sh ! i"
      using p co by (auto simp: coherent_def on_slot_def)
    then show "\<forall>x. v' = Some x \<longrightarrow> slot_holds (?sh ! i) x"
      using slot_patch_holds [OF step] v fits p by auto
  qed
  then show ?thesis using slots len by (auto simp: values_typed_def)
qed

definition page_patch :: value_patch where
  "page_patch = [SetOp page_slot (PInt 4) CONFLICT_ERROR,
     AppendOp tags_slot (PStr ''b'') CONFLICT_ERROR,
     SetOp page_slot (PInt 9) PRESERVE_EXISTING]"

lemma page_patch_applied:
  "apply_patch_atomic page_values page_patch =
     Inr (page_values\<lparr>vals := [Some (PInt 4), Some (PTuple [PStr ''a'', PStr ''b''])]\<rparr>)"
  by (simp add: apply_patch_atomic_def page_patch_def page_defs python_type_validator_def is_instance_def
      Let_def operation_values_def)

lemma apply_patch_slotwise_witness:
  "foldE slot_patch (Some (PInt 3)) (filter (on_slot [page_slot, tags_slot] 0) page_patch)
     = Inr (Some (PInt 4))"
proof -
  have "shape_ok (val_shape page_values)" "length (vals page_values) = length (val_shape page_values)"
    using page_shape_ok by (simp_all add: page_values_def)
  from apply_patch_slotwise [OF page_patch_applied this] show ?thesis
    by (simp add: page_values_def All_less_Suc)
qed

lemma apply_patch_typed_witness:
  "values_typed (page_values\<lparr>vals := [Some (PInt 4), Some (PTuple [PStr ''a'', PStr ''b''])]\<rparr>)"
proof (rule apply_patch_typed [OF page_patch_applied page_values_typed])
  show "shape_ok (val_shape page_values)"
    using page_shape_ok by (simp add: page_values_def)
  show "coherent (val_shape page_values) (op_slot ` set page_patch)"
    using page_coherent by (simp add: page_values_def page_patch_def insert_commute)
  show "\<forall>p \<in> set page_patch. op_fits p"
    by (simp add: page_patch_def page_defs)
qed

text \<open>
  The check the code leaves out: a \<open>Set\<close> on a multi-value slot stores a bare value, and the next
  \<open>Append\<close> to that slot fails on it.
\<close>

lemma set_on_group_breaks_append:
  "\<exists>ov. apply_patch_atomic page_values [SetOp tags_slot (PStr ''x'') CONFLICT_ERROR] = Inr ov
     \<and> apply_patch_atomic ov [AppendOp tags_slot (PStr ''y'') CONFLICT_ERROR]
        = Inl (PatchError ''invalid stored group for slot: tags'')"
  by (simp add: apply_patch_atomic_def page_defs python_type_validator_def is_instance_def Let_def operation_values_def)

section \<open>Arbitration: properties\<close>

text \<open>
  Arbitration selects a case exactly when it is the only one that parsed; several parsed
  cases are all reported, a malformed case is reported only when nothing parsed, and the first
  one is.
\<close>

lemma arbitrate_cases_spec:
  "(arbitrate_cases matches malformed = SelectedCase c v \<longleftrightarrow> matches = [(c, v)]) \<and>
   (arbitrate_cases matches malformed = AmbiguousCases cs
      \<longleftrightarrow> 1 < length matches \<and> cs = map fst matches) \<and>
   (arbitrate_cases matches malformed = MalformedCase c e
      \<longleftrightarrow> matches = [] \<and> (\<exists>rest. malformed = (c, e) # rest)) \<and>
   (arbitrate_cases matches malformed = NoCaseMatch \<longleftrightarrow> matches = [] \<and> malformed = [])"
  by (cases matches; cases malformed) (auto simp: arbitrate_cases_def split: prod.splits)

end
