(* ===== verification/Graph.thy ===== *)
theory Graph
  imports Kernel
begin

text \<open>
  The two schedulers of the library share one shape: count the incoming edges of every node,
  keep a queue of nodes with none left, take the first, release its targets. Here is that shape:
  the release step, the queue loop with its termination proof, and a locale \<open>kahn\<close> whose lemmas
  say what any such loop returns. \<open>Plan\<close> (\<open>compile_graph\<close>) and \<open>Dependencies\<close>
  (\<open>_compile_dependency_order\<close>) interpret it.

  Edges are a list of pairs without duplicates, for a dictionary of sets; \<open>arrange\<close> is what the
  code does to the queue after an append (sort it, or nothing).
\<close>

section \<open>The loop\<close>

type_synonym 'a edges = "('a \<times> 'a) list"

definition add_edge :: "'a \<Rightarrow> 'a \<Rightarrow> 'a edges \<Rightarrow> 'a edges" where
  "add_edge a b es = (if (a, b) \<in> set es then es else es @ [(a, b)])"

definition targets :: "'a edges \<Rightarrow> 'a \<Rightarrow> 'a list" where
  "targets es a = map snd (filter (\<lambda>e. fst e = a) es)"

definition decrement :: "'a \<Rightarrow> ('a, int) dict \<Rightarrow> ('a, int) dict" where
  "decrement t d = map (\<lambda>(k, c). (k, if k = t then c - 1 else c)) d"

text \<open>\<open>indegree[target] -= 1; if indegree[target] == 0: ready.append(target)\<close>, for each target.\<close>

fun release ::
  "('a list \<Rightarrow> 'a list) \<Rightarrow> 'a list \<Rightarrow> ('a, int) dict \<Rightarrow> 'a list \<Rightarrow> ('a, int) dict \<times> 'a list" where
  "release arrange [] d ready = (d, ready)"
| "release arrange (t # ts) d ready =
     (let d' = decrement t d in
      if map_of d' t = Some 0 then release arrange ts d' (arrange (ready @ [t]))
      else release arrange ts d' ready)"

definition waiting :: "('a, int) dict \<Rightarrow> nat" where
  "waiting d = length (filter (\<lambda>p. 0 < snd p) d)"

lemma waiting_decrement_le: "waiting (decrement t d) \<le> waiting d"
  by (induction d) (auto simp: waiting_def decrement_def split: if_splits)

lemma waiting_decrement_less:
  assumes "map_of (decrement t d) t = Some 0"
  shows "waiting (decrement t d) < waiting d"
  using assms
proof (induction d)
  case (Cons p d)
  obtain k c where p: "p = (k, c)" by fastforce
  show ?case
  proof (cases "k = t")
    case True
    with Cons.prems p have "c = 1" by (simp add: decrement_def)
    with True p show ?thesis
      using waiting_decrement_le [of t d] by (simp add: waiting_def decrement_def)
  next
    case False
    with Cons p show ?thesis by (auto simp: waiting_def decrement_def)
  qed
qed (simp add: decrement_def)

lemma release_measure:
  assumes "\<And>xs. length (arrange xs) = length xs"
  shows "release arrange ts d ready = (d', ready') \<Longrightarrow>
    length ready' + waiting d' \<le> length ready + waiting d"
proof (induction ts arbitrary: d ready)
  case (Cons t ts)
  show ?case
  proof (cases "map_of (decrement t d) t = Some 0")
    case True
    with Cons.prems have "release arrange ts (decrement t d) (arrange (ready @ [t])) = (d', ready')"
      by (simp add: Let_def)
    then have "length ready' + waiting d' \<le> Suc (length ready) + waiting (decrement t d)"
      using Cons.IH assms by fastforce
    then show ?thesis using waiting_decrement_less [OF True] by simp
  next
    case False
    with Cons.prems have "release arrange ts (decrement t d) ready = (d', ready')"
      by (simp add: Let_def)
    then show ?thesis using Cons.IH waiting_decrement_le [of t d] by fastforce
  qed
qed simp

lemma release_decreases:
  "(d', ready') = release arrange ts d ready \<Longrightarrow> (\<And>xs. length (arrange xs) = length xs) \<Longrightarrow>
     length ready' + waiting d' < Suc (length ready + waiting d)"
  using release_measure [of arrange ts d ready d' ready'] by (simp add: less_Suc_eq_le)

text \<open>
  \<open>while ready: node = ready.pop(0); result.append(node); ...\<close> with the queue kept sorted by
  \<open>rank\<close> (\<open>sorted_loop\<close>) or in arrival order (\<open>fifo_loop\<close>). Both end: a node joins the queue
  only when its count falls to zero.
\<close>

function sorted_loop ::
  "('a \<Rightarrow> 'k::linorder) \<Rightarrow> ('a \<Rightarrow> 'a list) \<Rightarrow> ('a, int) dict \<Rightarrow> 'a list \<Rightarrow> 'a list
     \<Rightarrow> ('a, int) dict \<times> 'a list" where
  "sorted_loop rank tgt d [] out = (d, out)"
| "sorted_loop rank tgt d (n # ready) out =
     (case release (sort_key rank) (tgt n) d ready of
        (d', ready') \<Rightarrow> sorted_loop rank tgt d' ready' (out @ [n]))"
  by pat_completeness auto
termination
  by (relation "measure (\<lambda>(rank, tgt, d, ready, out). length ready + waiting d)")
    (auto intro: release_decreases)

function fifo_loop ::
  "('a \<Rightarrow> 'a list) \<Rightarrow> ('a, int) dict \<Rightarrow> 'a list \<Rightarrow> 'a list \<Rightarrow> ('a, int) dict \<times> 'a list" where
  "fifo_loop tgt d [] out = (d, out)"
| "fifo_loop tgt d (n # ready) out =
     (case release (\<lambda>r. r) (tgt n) d ready of
        (d', ready') \<Rightarrow> fifo_loop tgt d' ready' (out @ [n]))"
  by pat_completeness auto
termination
  by (relation "measure (\<lambda>(tgt, d, ready, out). length ready + waiting d)")
    (auto intro: release_decreases)

section \<open>What a release does\<close>

lemma keys_decrement [simp]: "keys (decrement t d) = keys d"
  by (induction d) (auto simp: decrement_def)

lemma map_of_decrement:
  "map_of (decrement t d) k = map_option (\<lambda>c. if k = t then c - 1 else c) (map_of d k)"
  by (induction d) (auto simp: decrement_def)

lemma release_spec:
  assumes arrange: "\<And>xs. mset (arrange xs) = mset xs"
  shows "release arrange ts d ready = (d', ready') \<Longrightarrow> distinct ts \<Longrightarrow>
    keys d' = keys d \<and>
    (\<forall>k. map_of d' k = map_option (\<lambda>c. if k \<in> set ts then c - 1 else c) (map_of d k)) \<and>
    mset ready' = mset ready + mset (filter (\<lambda>t. map_of d t = Some 1) ts)"
proof (induction ts arbitrary: d ready)
  case Nil
  then show ?case by (auto simp: option.map_ident)
next
  case (Cons t ts)
  let ?d = "decrement t d"
  have zero: "map_of ?d t = Some 0 \<longleftrightarrow> map_of d t = Some 1"
    by (cases "map_of d t") (auto simp: map_of_decrement)
  have rest: "filter (\<lambda>u. map_of ?d u = Some 1) ts = filter (\<lambda>u. map_of d u = Some 1) ts"
    using Cons.prems(2) by (intro filter_cong) (auto simp: map_of_decrement split: if_splits)
  let ?ready = "if map_of ?d t = Some 0 then arrange (ready @ [t]) else ready"
  have "release arrange ts ?d ?ready = (d', ready')"
    using Cons.prems(1) by (simp add: Let_def split: if_splits)
  from Cons.IH [OF this] Cons.prems(2) have IH:
    "keys d' = keys ?d"
    "\<And>k. map_of d' k = map_option (\<lambda>c. if k \<in> set ts then c - 1 else c) (map_of ?d k)"
    "mset ready' = mset ?ready + mset (filter (\<lambda>u. map_of ?d u = Some 1) ts)"
    by auto
  have "map_of d' k = map_option (\<lambda>c. if k \<in> set (t # ts) then c - 1 else c) (map_of d k)" for k
    using IH(2) [of k] Cons.prems(2)
    by (cases "map_of d k") (auto simp: map_of_decrement)
  moreover have "mset ready' = mset ready + mset (filter (\<lambda>u. map_of d u = Some 1) (t # ts))"
    using IH(3) zero arrange unfolding rest by simp
  ultimately show ?case using IH(1) by simp
qed

lemma release_sorted:
  assumes "\<And>xs. sorted (map rank (arrange xs))"
  shows "release arrange ts d ready = (d', ready') \<Longrightarrow> sorted (map rank ready) \<Longrightarrow>
    sorted (map rank ready')"
  by (induction ts arbitrary: d ready) (auto simp: Let_def assms split: if_splits)

section \<open>The invariant of the loop\<close>

definition preds_left :: "'a edges \<Rightarrow> 'a list \<Rightarrow> 'a \<Rightarrow> 'a set" where
  "preds_left es out n = {a. (a, n) \<in> set es \<and> a \<notin> set out}"

definition in_count :: "'a edges \<Rightarrow> 'a \<Rightarrow> int" where
  "in_count es n = int (length (filter (\<lambda>e. snd e = n) es))"

definition kahn_inv :: "'a list \<Rightarrow> 'a edges \<Rightarrow> ('a, int) dict \<Rightarrow> 'a list \<Rightarrow> 'a list \<Rightarrow> bool" where
  "kahn_inv nodes es d ready out \<longleftrightarrow>
     keys d = nodes \<and> distinct (out @ ready) \<and>
     (\<forall>n \<in> set nodes. map_of d n = Some (int (card (preds_left es out n)))) \<and>
     (\<forall>n \<in> set nodes. n \<in> set (out @ ready) \<longleftrightarrow> preds_left es out n = {}) \<and>
     set (out @ ready) \<subseteq> set nodes \<and>
     (\<forall>(a, b) \<in> set es. b \<in> set out \<longrightarrow> before out a b)"

lemma finite_preds_left [simp]: "finite (preds_left es out n)"
  by (rule finite_subset [of _ "fst ` set es"]) (force simp: preds_left_def)+

lemma in_count_card:
  assumes "distinct es"
  shows "in_count es n = int (card (preds_left es [] n))"
proof -
  have "distinct (filter (\<lambda>e. snd e = n) es)" using assms by simp
  then have "length (filter (\<lambda>e. snd e = n) es) = card (set (filter (\<lambda>e. snd e = n) es))"
    by (metis distinct_card)
  also have "\<dots> = card (fst ` set (filter (\<lambda>e. snd e = n) es))"
    by (rule card_image [symmetric]) (auto simp: inj_on_def)
  also have "fst ` set (filter (\<lambda>e. snd e = n) es) = preds_left es [] n"
    by (force simp: preds_left_def)
  finally show ?thesis by (simp add: in_count_def)
qed

lemma preds_left_snoc: "preds_left es (out @ [n]) m = preds_left es out m - {n}"
  by (auto simp: preds_left_def)

text \<open>A list in which every edge points forward shows that the edges have no cycle.\<close>

lemma before_acyclic:
  assumes "distinct out" and "\<forall>(a, b) \<in> set es. before out a b"
  shows "acyclic (set es)"
proof -
  define pos where "pos x = (THE i. i < length out \<and> out ! i = x)" for x
  have pos: "pos (out ! i) = i" if "i < length out" for i
    unfolding pos_def using that assms(1)
    by (intro the_equality) (auto simp: nth_eq_iff_index_eq)
  have "set es \<subseteq> measure pos"
  proof clarify
    fix a b assume "(a, b) \<in> set es"
    then have "before out a b" using assms(2) by auto
    then obtain i j where "i < j" "j < length out" "out ! i = a" "out ! j = b"
      using before_nth [OF assms(1)] by metis
    then show "(a, b) \<in> measure pos" using pos by fastforce
  qed
  then show ?thesis using wf_acyclic wf_subset wf_measure by metis
qed

section \<open>The interface: a queue loop over a graph\<close>

definition graph_ok :: "'a list \<Rightarrow> 'a edges \<Rightarrow> bool" where
  "graph_ok nodes es \<longleftrightarrow> distinct nodes \<and> distinct es \<and>
     (\<forall>(a, b) \<in> set es. a \<in> set nodes \<and> b \<in> set nodes)"

lemma graph_okD:
  assumes "graph_ok nodes es"
  shows "distinct nodes" "distinct es" "(a, b) \<in> set es \<Longrightarrow> a \<in> set nodes \<and> b \<in> set nodes"
  using assms by (auto simp: graph_ok_def)

locale kahn =
  fixes tgt :: "'a edges \<Rightarrow> 'a \<Rightarrow> 'a list" and arrange :: "'a list \<Rightarrow> 'a list"
    and loop :: "('a \<Rightarrow> 'a list) \<Rightarrow> ('a, int) dict \<Rightarrow> 'a list \<Rightarrow> 'a list \<Rightarrow> ('a, int) dict \<times> 'a list"
  assumes tgt_targets: "mset (tgt es a) = mset (targets es a)"
    and arrange_mset: "mset (arrange xs) = mset xs"
    and loop_Nil: "loop t d [] out = (d, out)"
    and loop_Cons: "loop t d (n # ready) out =
      (case release arrange (t n) d ready of (d', ready') \<Rightarrow> loop t d' ready' (out @ [n]))"
begin

lemma distinct_tgt:
  assumes "graph_ok nodes es"
  shows "distinct (tgt es a)"
proof -
  have "distinct (targets es a)"
    using graph_okD(2) [OF assms] by (auto simp: targets_def distinct_map inj_on_def)
  then show ?thesis using tgt_targets by (metis mset_eq_imp_distinct_iff)
qed

lemma set_tgt: "t \<in> set (tgt es a) \<longleftrightarrow> (a, t) \<in> set es"
proof -
  have "set (tgt es a) = set (targets es a)"
    by (rule mset_eq_setD [OF tgt_targets])
  then show ?thesis by (force simp: targets_def)
qed

lemma inv_start:
  assumes g: "graph_ok nodes es" and start: "mset ready = mset (filter (\<lambda>n. in_count es n = 0) nodes)"
  shows "kahn_inv nodes es (map (\<lambda>n. (n, in_count es n)) nodes) ready []"
proof -
  have ready: "set ready = {n \<in> set nodes. in_count es n = 0}"
    using mset_eq_setD [OF start] by simp
  have "distinct ready"
    using mset_eq_imp_distinct_iff [OF start] graph_okD(1) [OF g] by simp
  moreover have "map_of (map (\<lambda>n. (n, in_count es n)) nodes) n = Some (in_count es n)"
    if "n \<in> set nodes" for n
    using that by (auto simp: map_of_map_restrict)
  ultimately show ?thesis
    using ready
    by (auto simp: kahn_inv_def comp_def in_count_card [OF graph_okD(2) [OF g]])
qed

lemma inv_step:
  assumes g: "graph_ok nodes es" and inv: "kahn_inv nodes es d (n # ready) out"
    and rel: "release arrange (tgt es n) d ready = (d', ready')"
  shows "kahn_inv nodes es d' ready' (out @ [n])"
proof -
  have spec: "keys d' = keys d"
    "\<And>k. map_of d' k = map_option (\<lambda>c. if k \<in> set (tgt es n) then c - 1 else c) (map_of d k)"
    "mset ready' = mset ready + mset (filter (\<lambda>t. map_of d t = Some 1) (tgt es n))"
    using release_spec [OF arrange_mset rel distinct_tgt [OF g]] by blast+
  have n: "n \<in> set nodes" "n \<notin> set out" "n \<notin> set ready" "distinct (out @ ready)"
    and nopreds: "preds_left es out n = {}"
    using inv by (auto simp: kahn_inv_def)
  have counts: "map_of d' m = Some (int (card (preds_left es (out @ [n]) m)))"
    if m: "m \<in> set nodes" for m
  proof (cases "(n, m) \<in> set es")
    case True
    then have "n \<in> preds_left es out m" using n by (simp add: preds_left_def)
    then have "card (preds_left es out m) = Suc (card (preds_left es (out @ [n]) m))"
      unfolding preds_left_snoc by (rule card.remove [OF finite_preds_left])
    moreover have "map_of d m = Some (int (card (preds_left es out m)))"
      using inv m by (simp add: kahn_inv_def)
    ultimately show ?thesis using True spec(2) [of m] by (simp add: set_tgt)
  next
    case False
    then have "preds_left es (out @ [n]) m = preds_left es out m"
      by (auto simp: preds_left_def)
    then show ?thesis using False m inv spec(2) [of m] by (simp add: kahn_inv_def set_tgt)
  qed
  have one: "map_of d m = Some 1 \<longleftrightarrow> preds_left es out m = {n}" if "(n, m) \<in> set es" for m
  proof -
    have m: "m \<in> set nodes" using graph_okD(3) [OF g that] by simp
    have "n \<in> preds_left es out m" using that n by (simp add: preds_left_def)
    then have "card (preds_left es out m) = 1 \<longleftrightarrow> preds_left es out m = {n}"
      by (auto simp: card_1_singleton_iff)
    then show ?thesis using m inv by (simp add: kahn_inv_def)
  qed
  have new: "set ready' = set ready \<union> {m. (n, m) \<in> set es \<and> preds_left es out m = {n}}"
    using mset_eq_setD [of ready' "ready @ filter (\<lambda>t. map_of d t = Some 1) (tgt es n)"] spec(3) one
    by (auto simp: set_tgt)
  have status: "m \<in> set ((out @ [n]) @ ready') \<longleftrightarrow> preds_left es (out @ [n]) m = {}"
    if m: "m \<in> set nodes" for m
  proof -
    have old: "m \<in> set out \<or> m = n \<or> m \<in> set ready \<longleftrightarrow> preds_left es out m = {}"
      using inv m unfolding kahn_inv_def by fastforce
    have "preds_left es out m = {n} \<longrightarrow> (n, m) \<in> set es"
      by (auto simp: preds_left_def)
    then have in_new: "m \<in> set ready' \<longleftrightarrow> m \<in> set ready \<or> preds_left es out m = {n}"
      unfolding new by blast
    have "preds_left es out m - {n} = {} \<longleftrightarrow>
        preds_left es out m = {} \<or> preds_left es out m = {n}"
      by (simp only: Diff_eq_empty_iff subset_singleton_iff)
    then show ?thesis
      unfolding preds_left_snoc using old in_new by (simp only: set_append set_simps Un_iff) blast
  qed
  have "distinct ready'"
  proof -
    have "m \<notin> set ready" if "(n, m) \<in> set es" "preds_left es out m = {n}" for m
      using that inv graph_okD(3) [OF g that(1)] by (auto simp: kahn_inv_def)
    then have "distinct (ready @ filter (\<lambda>t. map_of d t = Some 1) (tgt es n))"
      using n(4) distinct_tgt [OF g] one by (auto simp: set_tgt)
    then show ?thesis using spec(3) by (metis mset_append mset_eq_imp_distinct_iff)
  qed
  moreover have "m \<notin> set (out @ [n])" if "m \<in> set ready'" for m
    using that n inv graph_okD(3) [OF g] unfolding new by (auto simp: kahn_inv_def preds_left_def)
  moreover have "set ready' \<subseteq> set nodes"
    using inv graph_okD(3) [OF g] unfolding new by (auto simp: kahn_inv_def)
  moreover have "before (out @ [n]) a b" if "(a, b) \<in> set es" "b \<in> set (out @ [n])" for a b
  proof (cases "b = n")
    case True
    then show ?thesis
      using that nopreds by (auto simp: preds_left_def intro: before_snoc)
  next
    case False
    then show ?thesis using that inv by (auto simp: kahn_inv_def intro: before_append)
  qed
  ultimately show ?thesis
    using spec(1) counts status inv n by (auto simp: kahn_inv_def)
qed

lemma inv_length: "kahn_inv nodes es d ready out \<Longrightarrow> length out + length ready \<le> length nodes"
proof -
  assume inv: "kahn_inv nodes es d ready out"
  have "length (out @ ready) = card (set (out @ ready))"
    using inv distinct_card [of "out @ ready"] by (simp add: kahn_inv_def)
  also have "\<dots> \<le> card (set nodes)"
    using inv by (intro card_mono) (auto simp: kahn_inv_def)
  also have "\<dots> \<le> length nodes" by (rule card_length)
  finally show ?thesis by simp
qed

text \<open>Any property the body keeps, together with the invariant, holds when the queue is empty.\<close>

lemma loop_induct:
  assumes g: "graph_ok nodes es" and inv0: "kahn_inv nodes es d ready out" and "P d ready out"
    and step: "\<And>d n ready out d' ready'. kahn_inv nodes es d (n # ready) out \<Longrightarrow>
      P d (n # ready) out \<Longrightarrow> release arrange (tgt es n) d ready = (d', ready') \<Longrightarrow>
      P d' ready' (out @ [n])"
  shows "\<exists>d' out'. loop (tgt es) d ready out = (d', out') \<and> kahn_inv nodes es d' [] out' \<and> P d' [] out'"
  using assms(2,3)
proof (induction "length nodes - length out" arbitrary: d ready out rule: less_induct)
  case less
  show ?case
  proof (cases ready)
    case Nil
    then show ?thesis using less.prems loop_Nil by auto
  next
    case (Cons n rest)
    obtain d' ready' where rel: "release arrange (tgt es n) d rest = (d', ready')" by fastforce
    have inv: "kahn_inv nodes es d' ready' (out @ [n])"
      using inv_step [OF g less.prems(1) [unfolded Cons] rel] .
    have less': "length nodes - length (out @ [n]) < length nodes - length out"
      using inv_length [OF less.prems(1)] Cons by simp
    have P: "P d' ready' (out @ [n])"
      using less.prems Cons by (intro step [OF _ _ rel]) simp_all
    have "loop (tgt es) d ready out = loop (tgt es) d' ready' (out @ [n])"
      using loop_Cons rel Cons by simp
    moreover note less.hyps [OF less' inv P]
    ultimately show ?thesis by (simp only:)
  qed
qed

lemma loop_result:
  assumes g: "graph_ok nodes es" and inv0: "kahn_inv nodes es d ready out"
  shows "\<exists>d' out'. loop (tgt es) d ready out = (d', out') \<and> kahn_inv nodes es d' [] out'"
  using loop_induct [OF assms, of "\<lambda>_ _ _. True"] by blast


text \<open>While the graph has no cycle, a node not yet taken has an ancestor in the queue.\<close>

lemma ready_ancestor:
  assumes g: "graph_ok nodes es" and ac: "acyclic (set es)" and inv: "kahn_inv nodes es d ready out"
  shows "m \<in> set nodes \<Longrightarrow> m \<notin> set out \<Longrightarrow> \<exists>r \<in> set ready. (r, m) \<in> (set es)\<^sup>*"
proof -
  have "wf (set es)" using ac by (simp add: finite_acyclic_wf)
  then show "m \<in> set nodes \<Longrightarrow> m \<notin> set out \<Longrightarrow> \<exists>r \<in> set ready. (r, m) \<in> (set es)\<^sup>*"
  proof (induction m rule: wf_induct_rule)
    case (less m)
    show ?case
    proof (cases "preds_left es out m = {}")
      case True
      then have "m \<in> set (out @ ready)" using inv less.prems by (auto simp: kahn_inv_def)
      then show ?thesis using less.prems by auto
    next
      case False
      then obtain a where a: "(a, m) \<in> set es" "a \<notin> set out" by (auto simp: preds_left_def)
      then obtain r where "r \<in> set ready" "(r, a) \<in> (set es)\<^sup>*"
        using less.IH graph_okD(3) [OF g] by blast
      then show ?thesis using a(1) by (meson rtrancl.rtrancl_into_rtrancl)
    qed
  qed
qed

lemma all_taken:
  assumes g: "graph_ok nodes es" and ac: "acyclic (set es)" and inv: "kahn_inv nodes es d [] out"
  shows "length out = length nodes"
proof -
  have "m \<in> set out" if "m \<in> set nodes" for m
    using ready_ancestor [OF assms that] by auto
  moreover have "set out \<subseteq> set nodes" using inv by (simp add: kahn_inv_def)
  ultimately have "set out = set nodes" by blast
  moreover have "distinct out" using inv by (simp add: kahn_inv_def)
  ultimately show ?thesis using graph_okD(1) [OF g] by (metis distinct_card)
qed

lemma taken_sound:
  assumes g: "graph_ok nodes es" and inv: "kahn_inv nodes es d [] out" and "length out = length nodes"
  shows "mset out = mset nodes" and "\<forall>(a, b) \<in> set es. before out a b"
proof -
  have out: "distinct out" "set out \<subseteq> set nodes" using inv by (auto simp: kahn_inv_def)
  then have "card (set out) = card (set nodes)"
    using assms(3) graph_okD(1) [OF g] by (simp add: distinct_card)
  then have eq: "set out = set nodes" using out(2) by (simp add: card_subset_eq)
  then show "mset out = mset nodes"
    using out(1) graph_okD(1) [OF g] by (simp add: set_eq_iff_mset_eq_distinct)
  show "\<forall>(a, b) \<in> set es. before out a b"
    using inv graph_okD(3) [OF g] eq by (auto simp: kahn_inv_def)
qed

text \<open>What the loop leaves behind still counts incoming edges.\<close>

lemma pending_count:
  assumes g: "graph_ok nodes es" and inv: "kahn_inv nodes es d [] out"
    and "length out \<noteq> length nodes"
  shows "\<exists>n \<in> set nodes. map_of d n \<noteq> Some 0"
proof (rule ccontr)
  assume "\<not> ?thesis"
  then have zero: "map_of d n = Some 0" if "n \<in> set nodes" for n using that by blast
  have "n \<in> set out" if n: "n \<in> set nodes" for n
  proof -
    have "int (card (preds_left es out n)) = 0"
      using zero [OF n] inv n by (simp add: kahn_inv_def)
    then have "preds_left es out n = {}" by (simp add: card_eq_0_iff)
    then show ?thesis using inv n by (simp add: kahn_inv_def)
  qed
  moreover have "distinct out" "set out \<subseteq> set nodes" using inv by (simp_all add: kahn_inv_def)
  ultimately have "set out = set nodes" by blast
  then have "length out = length nodes"
    using \<open>distinct out\<close> graph_okD(1) [OF g] by (metis distinct_card)
  then show False using assms(3) by simp
qed

text \<open>The loop takes every node exactly when the graph has no cycle.\<close>

lemma loop_total_iff:
  assumes g: "graph_ok nodes es" and inv0: "kahn_inv nodes es d ready out" and "loop (tgt es) d ready out = (d', out')"
  shows "length out' = length nodes \<longleftrightarrow> acyclic (set es)"
proof -
  have inv: "kahn_inv nodes es d' [] out'"
    using loop_result [OF g inv0] assms(3) by simp
  show ?thesis
  proof
    assume "length out' = length nodes"
    then have "\<forall>(a, b) \<in> set es. before out' a b" by (rule taken_sound(2) [OF g inv])
    moreover have "distinct out'" using inv by (simp add: kahn_inv_def)
    ultimately show "acyclic (set es)" using before_acyclic by blast
  next
    assume "acyclic (set es)"
    then show "length out' = length nodes" using all_taken [OF g _ inv] by blast
  qed
qed

text \<open>A queue kept sorted by a rank no edge lowers yields a result sorted by it.\<close>

lemma loop_sorted:
  fixes rank :: "'a \<Rightarrow> 'k::linorder"
  assumes g: "graph_ok nodes es" and inv: "kahn_inv nodes es d ready []" and "sorted (map rank ready)"
    and arr: "\<And>xs. sorted (map rank (arrange xs))"
    and up: "\<And>a b. (a, b) \<in> set es \<Longrightarrow> rank a \<le> rank b"
    and acyclic: "acyclic (set es)" and "loop (tgt es) d ready [] = (d', out')"
  shows "sorted (map rank out')"
proof -
  define P where "P d r out \<longleftrightarrow> sorted (map rank r) \<and> sorted (map rank out) \<and>
    (\<forall>x \<in> set out. \<forall>m \<in> set nodes - set out. rank x \<le> rank m)"
    for d :: "('a, int) dict" and r out
  have path: "rank a \<le> rank b" if "(a, b) \<in> (set es)\<^sup>*" for a b
    using that by induction (auto intro: order.trans up)
  have "P d' ready' (out @ [n])"
    if inv: "kahn_inv nodes es d (n # ready) out" and P: "P d (n # ready) out"
      and rel: "release arrange (tgt es n) d ready = (d', ready')" for d n ready out d' ready'
  proof -
    have least: "rank n \<le> rank m" if m: "m \<in> set nodes" "m \<notin> set out" for m
    proof -
      obtain r where "r \<in> set (n # ready)" "(r, m) \<in> (set es)\<^sup>*"
        using ready_ancestor [OF g acyclic inv m] by blast
      moreover have "rank n \<le> rank r" if "r \<in> set (n # ready)" for r
        using that P by (auto simp: P_def)
      ultimately show ?thesis using path order.trans by blast
    qed
    moreover have "sorted (map rank ready')"
      using release_sorted [OF arr rel] P by (simp add: P_def)
    moreover have "n \<in> set nodes" "n \<notin> set out" using inv by (auto simp: kahn_inv_def)
    ultimately show ?thesis using P by (auto simp: P_def sorted_append)
  qed
  moreover have "P d ready []" using assms(3) by (simp add: P_def)
  ultimately obtain d'' out'' where "loop (tgt es) d ready [] = (d'', out'')" "P d'' [] out''"
    using loop_induct [OF g inv, of P] by blast
  then show ?thesis using assms(7) by (simp add: P_def)
qed

end

end
