(* ===== verification/Plan.thy ===== *)
theory Plan
  imports Graph "HOL-Library.FSet"
begin

text \<open>
  The execution plan (\<open>core/http_plan.py\<close>) and its graph compiler (\<open>compile_graph\<close>,
  \<open>_cycle_path\<close> of \<open>core/kernel.py\<close>): nodes with a phase, the slots they read and write and the
  nodes they follow become one sequence. Compilation fails on unknown or doubled nodes, on two
  writers of a slot, on an edge that goes back a phase and on a cycle.

  A node compares by identity, so \<open>node_id\<close> stands for \<open>id(node)\<close>. The order in which CPython
  iterates over the set \<open>edges[i]\<close> is a parameter: \<open>order i\<close> ranks its elements, so every order is
  one instance, and nothing here depends on which one it is.
\<close>

section \<open>Nodes\<close>

datatype plan_kind =
    BIND | DEPENDENCY | AUTH | CONTRIBUTE | BODY_PROJECTION | PRIVATE_WIRE
  | OUTBOUND_DOCUMENT_CRYPTO | PREPARE | OUTBOUND_ENCODED_CRYPTO | DERIVE | SIGN | RATE_LIMIT
  | EMIT | INBOUND_ENCODED_CRYPTO | INBOUND_DOCUMENT_CRYPTO | INSPECT | REACT | MATERIALIZE

fun kind_value :: "plan_kind \<Rightarrow> int" where
  "kind_value BIND = 0"
| "kind_value DEPENDENCY = 10"
| "kind_value AUTH = 20"
| "kind_value CONTRIBUTE = 30"
| "kind_value BODY_PROJECTION = 33"
| "kind_value PRIVATE_WIRE = 34"
| "kind_value OUTBOUND_DOCUMENT_CRYPTO = 35"
| "kind_value PREPARE = 40"
| "kind_value OUTBOUND_ENCODED_CRYPTO = 45"
| "kind_value DERIVE = 50"
| "kind_value SIGN = 60"
| "kind_value RATE_LIMIT = 70"
| "kind_value EMIT = 80"
| "kind_value INBOUND_ENCODED_CRYPTO = 85"
| "kind_value INBOUND_DOCUMENT_CRYPTO = 87"
| "kind_value INSPECT = 90"
| "kind_value REACT = 100"
| "kind_value MATERIALIZE = 110"

fun kind_name :: "plan_kind \<Rightarrow> string" where
  "kind_name BIND = ''BIND''"
| "kind_name DEPENDENCY = ''DEPENDENCY''"
| "kind_name AUTH = ''AUTH''"
| "kind_name CONTRIBUTE = ''CONTRIBUTE''"
| "kind_name BODY_PROJECTION = ''BODY_PROJECTION''"
| "kind_name PRIVATE_WIRE = ''PRIVATE_WIRE''"
| "kind_name OUTBOUND_DOCUMENT_CRYPTO = ''OUTBOUND_DOCUMENT_CRYPTO''"
| "kind_name PREPARE = ''PREPARE''"
| "kind_name OUTBOUND_ENCODED_CRYPTO = ''OUTBOUND_ENCODED_CRYPTO''"
| "kind_name DERIVE = ''DERIVE''"
| "kind_name SIGN = ''SIGN''"
| "kind_name RATE_LIMIT = ''RATE_LIMIT''"
| "kind_name EMIT = ''EMIT''"
| "kind_name INBOUND_ENCODED_CRYPTO = ''INBOUND_ENCODED_CRYPTO''"
| "kind_name INBOUND_DOCUMENT_CRYPTO = ''INBOUND_DOCUMENT_CRYPTO''"
| "kind_name INSPECT = ''INSPECT''"
| "kind_name REACT = ''REACT''"
| "kind_name MATERIALIZE = ''MATERIALIZE''"

lemma kind_value_inj: "kind_value a = kind_value b \<Longrightarrow> a = b"
  by (cases a; cases b; simp)

text \<open>An \<open>IntEnum\<close> compares by its value.\<close>

instantiation plan_kind :: linorder
begin

definition less_eq_plan_kind :: "plan_kind \<Rightarrow> plan_kind \<Rightarrow> bool" where
  "less_eq_plan_kind a b \<longleftrightarrow> kind_value a \<le> kind_value b"

definition less_plan_kind :: "plan_kind \<Rightarrow> plan_kind \<Rightarrow> bool" where
  "less_plan_kind a b \<longleftrightarrow> kind_value a < kind_value b"

instance
  by standard (auto simp: less_eq_plan_kind_def less_plan_kind_def dest: kind_value_inj)

end

datatype plan_node =
  PlanNode (node_id: nat) (node_name: string) (node_kind: plan_kind)
    (reads: "value_slot list") (writes: "value_slot list") (after: "plan_node list")

section \<open>Collecting the edges\<close>

abbreviation node_ids :: "plan_node list \<Rightarrow> nat list" where
  "node_ids nodes \<equiv> map node_id nodes"

definition back_edge :: "plan_node \<Rightarrow> plan_node \<Rightarrow> sdk_error" where
  "back_edge a b = GraphError
     (''phase back-edge: '' @ node_name a @ ''('' @ kind_name (node_kind a) @ '') -> '' @
      node_name b @ ''('' @ kind_name (node_kind b) @ '')'')"

definition after_step ::
  "plan_node list \<Rightarrow> plan_node \<Rightarrow> nat edges \<Rightarrow> plan_node \<Rightarrow> sdk_error + nat edges" where
  "after_step nodes node es dependency =
     (if node_id dependency \<notin> set (node_ids nodes)
      then Inl (GraphError (''node '' @ py_repr (node_name node) @ '' depends on an unknown node''))
      else if node_kind node < node_kind dependency then Inl (back_edge dependency node)
      else Inr (add_edge (node_id dependency) (node_id node) es))"

text \<open>\<open>writers\<close> and \<open>producer\<close> receive the same entries; one dictionary stands for both.\<close>

definition write_step ::
  "plan_node \<Rightarrow> (nat, plan_node) dict \<Rightarrow> value_slot \<Rightarrow> sdk_error + (nat, plan_node) dict" where
  "write_step node writers slot =
     (case map_of writers (slot_id slot) of
        Some previous \<Rightarrow> Inl (WriterConflictError
          (''slot '' @ py_repr (diagnostic_name slot) @ '' has writers '' @
           py_repr (node_name previous) @ '' and '' @ py_repr (node_name node)))
      | None \<Rightarrow> Inr (AList.update (slot_id slot) node writers))"

definition node_step ::
  "plan_node list \<Rightarrow> nat edges \<times> (nat, plan_node) dict \<Rightarrow> plan_node
     \<Rightarrow> sdk_error + nat edges \<times> (nat, plan_node) dict" where
  "node_step nodes st node =
     bindE (foldE (after_step nodes node) (fst st) (after node)) (\<lambda>es.
     bindE (foldE (write_step node) (snd st) (writes node)) (\<lambda>writers.
     Inr (es, writers)))"

definition read_step ::
  "(nat, plan_node) dict \<Rightarrow> plan_node \<Rightarrow> nat edges \<Rightarrow> value_slot \<Rightarrow> sdk_error + nat edges" where
  "read_step producer node es slot =
     (case map_of producer (slot_id slot) of
        None \<Rightarrow> Inr es
      | Some source \<Rightarrow>
          if node_id source = node_id node then Inr es
          else if node_kind node < node_kind source then Inl (back_edge source node)
          else Inr (add_edge (node_id source) (node_id node) es))"

definition collect_edges :: "plan_node list \<Rightarrow> sdk_error + nat edges" where
  "collect_edges nodes =
     bindE (foldE (node_step nodes) ([], []) nodes) (\<lambda>(es, producer).
     foldE (\<lambda>es node. foldE (read_step producer node) es (reads node)) es nodes)"

section \<open>Naming a cycle\<close>

definition by_id :: "plan_node list \<Rightarrow> nat \<Rightarrow> plan_node" where
  "by_id nodes i = the (map_of (rev (map (\<lambda>n. (node_id n, n)) nodes)) i)"

definition iterate :: "(nat \<Rightarrow> nat \<Rightarrow> nat) \<Rightarrow> nat edges \<Rightarrow> nat \<Rightarrow> nat list" where
  "iterate order es i = sort_key (order i) (targets es i)"

text \<open>
  \<open>visit\<close> of \<open>_cycle_path\<close>: depth-first, with the visited ids and the active path as state. Every
  level of the recursion adds an id to the path, so the number of ids bounds its depth.
\<close>

fun first_found :: "('s \<Rightarrow> 'a \<Rightarrow> 'r option \<times> 's) \<Rightarrow> 's \<Rightarrow> 'a list \<Rightarrow> 'r option \<times> 's" where
  "first_found f s [] = (None, s)"
| "first_found f s (x # xs) =
     (case f s x of (Some r, s') \<Rightarrow> (Some r, s') | (None, s') \<Rightarrow> first_found f s' xs)"

fun visit ::
  "(nat \<Rightarrow> nat list) \<Rightarrow> nat \<Rightarrow> nat list \<times> nat list \<Rightarrow> nat
     \<Rightarrow> nat list option \<times> nat list \<times> nat list" where
  "visit succs fuel (visited, active) i =
     (if i \<in> set active then (Some (dropWhile (\<lambda>j. j \<noteq> i) active @ [i]), visited, active)
      else if i \<in> set visited then (None, visited, active)
      else case fuel of
        0 \<Rightarrow> (None, visited, active)
      | Suc f \<Rightarrow>
          (case first_found (visit succs f) (i # visited, active @ [i]) (succs i) of
             (Some r, st) \<Rightarrow> (Some r, st)
           | (None, visited', active') \<Rightarrow> (None, visited', butlast active')))"

declare visit.simps [simp del]

definition cycle_path :: "(nat \<Rightarrow> nat \<Rightarrow> nat) \<Rightarrow> plan_node list \<Rightarrow> nat edges \<Rightarrow> string list" where
  "cycle_path order nodes es =
     (case first_found (visit (iterate order es) (Suc (length nodes))) ([], []) (node_ids nodes) of
        (Some path, _) \<Rightarrow> map (\<lambda>i. node_name (by_id nodes i)) path
      | (None, _) \<Rightarrow> [''unknown''])"

section \<open>compile_graph\<close>

definition node_rank :: "plan_node list \<Rightarrow> nat \<Rightarrow> plan_kind \<times> string" where
  "node_rank nodes i = (node_kind (by_id nodes i), node_name (by_id nodes i))"

definition sorted_targets ::
  "(nat \<Rightarrow> nat \<Rightarrow> nat) \<Rightarrow> plan_node list \<Rightarrow> nat edges \<Rightarrow> nat \<Rightarrow> nat list" where
  "sorted_targets order nodes es i =
     sort_key (\<lambda>j. node_name (by_id nodes j)) (iterate order es i)"

definition indegrees :: "plan_node list \<Rightarrow> nat edges \<Rightarrow> (nat, int) dict" where
  "indegrees nodes es = map (\<lambda>i. (i, in_count es i)) (node_ids nodes)"

definition initial_ready :: "plan_node list \<Rightarrow> nat edges \<Rightarrow> nat list" where
  "initial_ready nodes es =
     sort_key (node_rank nodes) (filter (\<lambda>i. in_count es i = 0) (node_ids nodes))"

definition compile_graph ::
  "(nat \<Rightarrow> nat \<Rightarrow> nat) \<Rightarrow> plan_node list \<Rightarrow> sdk_error + plan_node list" where
  "compile_graph order nodes =
     (if \<not> distinct (node_ids nodes) then Inl (GraphError ''duplicate plan node identity'')
      else bindE (collect_edges nodes) (\<lambda>es.
        let result = snd (sorted_loop (node_rank nodes) (sorted_targets order nodes es)
                      (indegrees nodes es) (initial_ready nodes es) [])
        in if length result \<noteq> length nodes
           then Inl (GraphError (''plan graph cycle: '' @ join '' -> '' (cycle_path order nodes es)))
           else Inr (map (by_id nodes) result)))"

section \<open>What the declarations say\<close>

text \<open>The edges the nodes declare: an explicit \<open>after\<close>, or a read of what another node writes.\<close>

definition after_edges :: "plan_node list \<Rightarrow> (nat \<times> nat) set" where
  "after_edges nodes = {(node_id d, node_id n) | d n. n \<in> set nodes \<and> d \<in> set (after n)}"

definition read_edges :: "plan_node list \<Rightarrow> (nat \<times> nat) set" where
  "read_edges nodes = {(node_id w, node_id n) | w n s t. w \<in> set nodes \<and> n \<in> set nodes \<and>
     s \<in> set (reads n) \<and> t \<in> set (writes w) \<and> slot_id s = slot_id t \<and> node_id w \<noteq> node_id n}"

definition plan_edges :: "plan_node list \<Rightarrow> (nat \<times> nat) set" where
  "plan_edges nodes = after_edges nodes \<union> read_edges nodes"

definition written_slots :: "plan_node list \<Rightarrow> nat list" where
  "written_slots nodes = concat (map (\<lambda>n. map slot_id (writes n)) nodes)"

definition after_ok :: "plan_node list \<Rightarrow> plan_node \<Rightarrow> plan_node \<Rightarrow> bool" where
  "after_ok nodes n d \<longleftrightarrow> node_id d \<in> set (node_ids nodes) \<and> node_kind d \<le> node_kind n"

definition reads_ok :: "plan_node list \<Rightarrow> bool" where
  "reads_ok nodes \<longleftrightarrow>
     (\<forall>n \<in> set nodes. \<forall>w \<in> set nodes. \<forall>s \<in> set (reads n). \<forall>t \<in> set (writes w).
        slot_id s = slot_id t \<longrightarrow> node_id w \<noteq> node_id n \<longrightarrow> node_kind w \<le> node_kind n)"

definition declared_ok :: "plan_node list \<Rightarrow> bool" where
  "declared_ok nodes \<longleftrightarrow>
     distinct (node_ids nodes) \<and> (\<forall>n \<in> set nodes. \<forall>d \<in> set (after n). after_ok nodes n d) \<and>
     distinct (written_slots nodes) \<and> reads_ok nodes"

section \<open>What the collection returns\<close>

lemma set_add_edge [simp]: "set (add_edge a b es) = insert (a, b) (set es)"
  by (auto simp: add_edge_def)

lemma distinct_add_edge [simp]: "distinct (add_edge a b es) \<longleftrightarrow> distinct es"
  by (auto simp: add_edge_def)

lemma after_steps:
  "foldE (after_step nodes n) es ds = Inr es' \<longleftrightarrow>
     (\<forall>d \<in> set ds. after_ok nodes n d) \<and>
     es' = fold (\<lambda>d es. add_edge (node_id d) (node_id n) es) ds es"
  by (induction ds arbitrary: es)
    (auto simp: after_step_def after_ok_def not_less bindE_Inr_iff split: if_splits)

lemma fold_add_edge:
  "set (fold (\<lambda>d es. add_edge (f d) (g d) es) ds es) = (\<lambda>d. (f d, g d)) ` set ds \<union> set es"
  "distinct (fold (\<lambda>d es. add_edge (f d) (g d) es) ds es) \<longleftrightarrow> distinct es"
  by (induction ds arbitrary: es) auto

lemma write_steps:
  "foldE (write_step n) w ss = Inr w' \<longleftrightarrow>
     distinct (keys w' ) \<and> w' = w @ map (\<lambda>s. (slot_id s, n)) ss" if "distinct (keys w)"
  using that
proof (induction ss arbitrary: w)
  case Nil
  then show ?case by auto
next
  case (Cons s ss)
  show ?case
  proof (cases "slot_id s \<in> set (keys w)")
    case True
    then obtain p where "map_of w (slot_id s) = Some p"
      by (metis list.set_map map_of_eq_None_iff not_None_eq)
    moreover have "\<not> distinct (keys (w @ map (\<lambda>s. (slot_id s, n)) (s # ss)))"
      using True by auto
    ultimately show ?thesis by (auto simp: write_step_def simp del: distinct_append)
  next
    case False
    then have "map_of w (slot_id s) = None" by (simp add: map_of_eq_None_iff)
    moreover have "AList.update (slot_id s) n w = w @ [(slot_id s, n)]"
      using False by (simp add: keys_update_absent)
    ultimately show ?thesis
      using Cons.IH [of "w @ [(slot_id s, n)]"] Cons.prems False by (simp add: write_step_def)
  qed
qed

lemma node_steps:
  assumes "distinct (keys w)" and "distinct es"
  shows "foldE (node_step nodes) (es, w) ns = Inr (es', w') \<longrightarrow>
    distinct es' \<and> set es' = set es \<union> after_edges ns \<and>
    (\<forall>n \<in> set ns. \<forall>d \<in> set (after n). after_ok nodes n d) \<and>
    w' = w @ concat (map (\<lambda>n. map (\<lambda>s. (slot_id s, n)) (writes n)) ns) \<and> distinct (keys w')"
  using assms
proof (induction ns arbitrary: es w)
  case Nil
  then show ?case by (auto simp: after_edges_def)
next
  case (Cons n ns)
  have edges: "after_edges (n # ns) = (\<lambda>d. (node_id d, node_id n)) ` set (after n) \<union> after_edges ns"
    by (auto simp: after_edges_def)
  show ?case
  proof
    assume "foldE (node_step nodes) (es, w) (n # ns) = Inr (es', w')"
    then obtain es1 w1 where 1: "foldE (after_step nodes n) es (after n) = Inr es1"
      "foldE (write_step n) w (writes n) = Inr w1"
      and rest: "foldE (node_step nodes) (es1, w1) ns = Inr (es', w')"
      by (auto simp: node_step_def bindE_Inr_iff)
    from 1(2) Cons.prems(1) have w1: "distinct (keys w1)" "w1 = w @ map (\<lambda>s. (slot_id s, n)) (writes n)"
      using write_steps [OF Cons.prems(1), of n "writes n" w1] by blast+
    from 1(1) have es1: "distinct es1" "set es1 = (\<lambda>d. (node_id d, node_id n)) ` set (after n) \<union> set es"
      "\<forall>d \<in> set (after n). after_ok nodes n d"
      using Cons.prems(2) by (auto simp: after_steps fold_add_edge)
    show "distinct es' \<and> set es' = set es \<union> after_edges (n # ns) \<and>
      (\<forall>n \<in> set (n # ns). \<forall>d \<in> set (after n). after_ok nodes n d) \<and>
      w' = w @ concat (map (\<lambda>n. map (\<lambda>s. (slot_id s, n)) (writes n)) (n # ns)) \<and>
      distinct (keys w')"
    proof -
      note IH = Cons.IH [OF w1(1) es1(1), THEN mp, OF rest]
      have "distinct (keys w')" using IH by (elim conjE)
      moreover have "w' = w @ concat (map (\<lambda>n. map (\<lambda>s. (slot_id s, n)) (writes n)) (n # ns))"
        using IH w1(2) by simp
      moreover have "set es' = set es \<union> after_edges (n # ns)"
        using IH es1(2) unfolding edges by (simp add: Un_ac)
      ultimately show ?thesis using IH es1(3) by simp
    qed
  qed
qed

lemma keys_written:
  "keys (concat (map (\<lambda>n. map (\<lambda>s. (slot_id s, n)) (writes n)) ns)) = written_slots ns"
  by (induction ns) (auto simp: written_slots_def)

lemma node_steps_succeed:
  assumes "distinct (keys w)"
  shows "\<forall>n \<in> set ns. \<forall>d \<in> set (after n). after_ok nodes n d \<Longrightarrow>
    distinct (keys w @ written_slots ns) \<Longrightarrow>
    \<exists>es' w'. foldE (node_step nodes) (es, w) ns = Inr (es', w')"
  using assms
proof (induction ns arbitrary: es w)
  case (Cons n ns)
  let ?es = "fold (\<lambda>d es. add_edge (node_id d) (node_id n) es) (after n) es"
  let ?w = "w @ map (\<lambda>s. (slot_id s, n)) (writes n)"
  have dist: "distinct (keys ?w @ written_slots ns)"
    using Cons.prems(2) by (simp add: written_slots_def comp_def)
  have "foldE (after_step nodes n) es (after n) = Inr ?es"
    using Cons.prems(1) by (simp add: after_steps)
  moreover have "foldE (write_step n) w (writes n) = Inr ?w"
    using write_steps [OF Cons.prems(3)] dist by (simp only: distinct_append)
  moreover obtain es' w' where rest: "foldE (node_step nodes) (?es, ?w) ns = Inr (es', w')"
    using Cons.IH [of ?w ?es] Cons.prems(1) dist by (metis distinct_append list.set_intros(2))
  ultimately have "node_step nodes (es, w) n = Inr (?es, ?w)" by (simp add: node_step_def)
  then show ?case using rest by auto
qed simp

text \<open>The second pass: the readers.\<close>

definition sources ::
  "(nat, plan_node) dict \<Rightarrow> plan_node \<Rightarrow> plan_node set" where
  "sources producer n = {w. \<exists>s \<in> set (reads n). map_of producer (slot_id s) = Some w \<and> node_id w \<noteq> node_id n}"

lemma read_steps:
  "foldE (read_step producer n) es ss = Inr es' \<Longrightarrow>
     (\<forall>s \<in> set ss. \<forall>w. map_of producer (slot_id s) = Some w \<longrightarrow> node_id w \<noteq> node_id n \<longrightarrow>
        node_kind w \<le> node_kind n) \<and>
     (distinct es \<longrightarrow> distinct es') \<and>
     set es' = set es \<union> {(node_id w, node_id n) | w s. s \<in> set ss \<and>
       map_of producer (slot_id s) = Some w \<and> node_id w \<noteq> node_id n}"
proof (induction ss arbitrary: es)
  case (Cons s ss)
  then obtain es1 where 1: "read_step producer n es s = Inr es1"
    and 2: "foldE (read_step producer n) es1 ss = Inr es'"
    by (auto simp: bindE_Inr_iff)
  show ?case
    using Cons.IH [OF 2] 1
    by (auto simp: read_step_def not_less split: option.splits if_splits)
qed simp

lemma read_steps_succeed:
  "\<forall>s \<in> set ss. \<forall>w. map_of producer (slot_id s) = Some w \<longrightarrow> node_id w \<noteq> node_id n \<longrightarrow>
     node_kind w \<le> node_kind n \<Longrightarrow> \<exists>es'. foldE (read_step producer n) es ss = Inr es'"
  by (induction ss arbitrary: es)
    (auto simp: read_step_def not_less[symmetric] split: option.splits)

lemma reader_passes:
  "foldE (\<lambda>es n. foldE (read_step producer n) es (reads n)) es ns = Inr es' \<Longrightarrow>
     (\<forall>n \<in> set ns. \<forall>w \<in> sources producer n. node_kind w \<le> node_kind n) \<and>
     (distinct es \<longrightarrow> distinct es') \<and>
     set es' = set es \<union> {(node_id w, node_id n) | w n. n \<in> set ns \<and> w \<in> sources producer n}"
proof (induction ns arbitrary: es)
  case (Cons n ns)
  then obtain es1 where 1: "foldE (read_step producer n) es (reads n) = Inr es1"
    and 2: "foldE (\<lambda>es n. foldE (read_step producer n) es (reads n)) es1 ns = Inr es'"
    by (auto simp: bindE_Inr_iff)
  have "set es1 = set es \<union> (\<lambda>w. (node_id w, node_id n)) ` sources producer n"
    using read_steps [OF 1] by (auto simp: sources_def)
  moreover have "\<forall>w \<in> sources producer n. node_kind w \<le> node_kind n" "distinct es \<longrightarrow> distinct es1"
    using read_steps [OF 1] by (auto simp: sources_def)
  ultimately show ?case using Cons.IH [OF 2] by auto
qed simp

lemma reader_passes_succeed:
  "\<forall>n \<in> set ns. \<forall>w \<in> sources producer n. node_kind w \<le> node_kind n \<Longrightarrow>
     \<exists>es'. foldE (\<lambda>es n. foldE (read_step producer n) es (reads n)) es ns = Inr es'"
proof (induction ns arbitrary: es)
  case (Cons n ns)
  obtain es1 where "foldE (read_step producer n) es (reads n) = Inr es1"
    using read_steps_succeed [of "reads n" producer n es] Cons.prems by (force simp: sources_def)
  moreover obtain es' where
    "foldE (\<lambda>es n. foldE (read_step producer n) es (reads n)) es1 ns = Inr es'"
    using Cons.IH [of es1] Cons.prems by auto
  ultimately show ?case by simp
qed simp

lemma sources_producer:
  assumes "w = concat (map (\<lambda>n. map (\<lambda>s. (slot_id s, n)) (writes n)) nodes)" and "distinct (keys w)"
  shows "sources w n = {p \<in> set nodes. node_id p \<noteq> node_id n \<and>
    (\<exists>s \<in> set (reads n). \<exists>t \<in> set (writes p). slot_id s = slot_id t)}"
proof -
  have "map_of w k = Some p \<longleftrightarrow> p \<in> set nodes \<and> k \<in> slot_id ` set (writes p)" for k p
    using assms(2) unfolding map_of_Some_iff [OF assms(2)] assms(1) by auto
  then show ?thesis by (auto simp: sources_def)
qed

lemma collect_edges_sound:
  assumes "collect_edges nodes = Inr es" and "distinct (node_ids nodes)"
  shows "declared_ok nodes" and "distinct es" and "set es = plan_edges nodes"
proof -
  obtain es1 w where 1: "foldE (node_step nodes) ([], []) nodes = Inr (es1, w)"
    and 2: "foldE (\<lambda>es n. foldE (read_step w n) es (reads n)) es1 nodes = Inr es"
    using assms(1) by (auto simp: collect_edges_def bindE_Inr_iff)
  from 1 have n: "distinct es1" "set es1 = after_edges nodes"
    "\<forall>n \<in> set nodes. \<forall>d \<in> set (after n). after_ok nodes n d"
    "w = concat (map (\<lambda>n. map (\<lambda>s. (slot_id s, n)) (writes n)) nodes)" "distinct (keys w)"
    using node_steps [of "[]" "[]" nodes nodes es1 w] by auto
  note src = sources_producer [OF n(4,5)]
  note r = reader_passes [OF 2]
  show "distinct es" using r n(1) by simp
  show "set es = plan_edges nodes"
    using r n(2) by (auto simp: plan_edges_def read_edges_def src)
  have "distinct (written_slots nodes)" using n(4,5) keys_written by metis
  moreover have "reads_ok nodes" using r by (auto simp: reads_ok_def src)
  ultimately show "declared_ok nodes" using n(3) assms(2) by (simp add: declared_ok_def)
qed

lemma collect_edges_total:
  assumes "declared_ok nodes"
  shows "\<exists>es. collect_edges nodes = Inr es"
proof -
  obtain es w where 1: "foldE (node_step nodes) ([], []) nodes = Inr (es, w)"
    using node_steps_succeed [of "[]" nodes nodes "[]"] assms by (auto simp: declared_ok_def)
  then have w: "w = concat (map (\<lambda>n. map (\<lambda>s. (slot_id s, n)) (writes n)) nodes)" "distinct (keys w)"
    using node_steps [of "[]" "[]" nodes nodes es w] by auto
  have "\<forall>n \<in> set nodes. \<forall>p \<in> sources w n. node_kind p \<le> node_kind n"
    using assms by (auto simp: declared_ok_def reads_ok_def sources_producer [OF w])
  then show ?thesis
    using reader_passes_succeed [of nodes w es] 1 by (simp add: collect_edges_def)
qed

section \<open>The compiled order\<close>

interpretation plan: kahn "sorted_targets ord ns" "sort_key (node_rank ns)"
    "sorted_loop (node_rank ns)" for ord ns
  by unfold_locales (auto simp: sorted_targets_def iterate_def)

lemma by_id_in [simp]:
  assumes "distinct (node_ids nodes)" and "n \<in> set nodes"
  shows "by_id nodes (node_id n) = n"
proof -
  have "distinct (keys (rev (map (\<lambda>n. (node_id n, n)) nodes)))"
    using assms(1) by (simp add: rev_map [symmetric] comp_def)
  then have "map_of (rev (map (\<lambda>n. (node_id n, n)) nodes)) (node_id n) = Some n"
    using assms(2) by (simp add: image_iff)
  then show ?thesis by (simp add: by_id_def)
qed

lemma by_id_ids:
  assumes "distinct (node_ids nodes)" and "set is \<subseteq> set (node_ids nodes)"
  shows "node_ids (map (by_id nodes) is) = is"
  using assms(2) by (induction "is") (auto simp: assms(1))

lemma before_map: "before xs a b \<Longrightarrow> before (map f xs) (f a) (f b)"
  unfolding before_def by (metis image_eqI list.set_map map_append list.simps(9))

lemma plan_graph_ok:
  assumes "declared_ok nodes" and "distinct es" and "set es = plan_edges nodes"
  shows "graph_ok (node_ids nodes) es"
  using assms by (auto simp: graph_ok_def declared_ok_def after_ok_def plan_edges_def
      after_edges_def read_edges_def)

lemma plan_start:
  assumes "graph_ok (node_ids nodes) es"
  shows "kahn_inv (node_ids nodes) es (indegrees nodes es) (initial_ready nodes es) []"
  unfolding indegrees_def
  by (rule plan.inv_start [OF assms]) (simp add: initial_ready_def)

definition plan_result :: "(nat \<Rightarrow> nat \<Rightarrow> nat) \<Rightarrow> plan_node list \<Rightarrow> nat edges \<Rightarrow> nat list" where
  "plan_result order nodes es =
     snd (sorted_loop (node_rank nodes) (sorted_targets order nodes es)
       (indegrees nodes es) (initial_ready nodes es) [])"

lemma plan_result_total:
  assumes "graph_ok (node_ids nodes) es"
  shows "length (plan_result order nodes es) = length nodes \<longleftrightarrow> acyclic (set es)"
  using plan.loop_total_iff [OF assms plan_start [OF assms], where ord = order and ns = nodes]
  by (metis length_map plan_result_def prod.collapse)

lemma plan_result_sound:
  assumes g: "graph_ok (node_ids nodes) es" and "length (plan_result order nodes es) = length nodes"
  shows "mset (plan_result order nodes es) = mset (node_ids nodes)"
    and "\<forall>(a, b) \<in> set es. before (plan_result order nodes es) a b"
proof -
  obtain d out where "sorted_loop (node_rank nodes) (sorted_targets order nodes es)
      (indegrees nodes es) (initial_ready nodes es) [] = (d, out)"
    and inv: "kahn_inv (node_ids nodes) es d [] out"
    using plan.loop_result [OF g plan_start [OF g], where ord = order and ns = nodes] by blast
  then have out: "plan_result order nodes es = out" by (simp add: plan_result_def)
  have "length out = length (node_ids nodes)" using assms(2) out by simp
  note sound = plan.taken_sound [OF g inv this]
  show "mset (plan_result order nodes es) = mset (node_ids nodes)" using sound(1) out by simp
  show "\<forall>(a, b) \<in> set es. before (plan_result order nodes es) a b" using sound(2) out by simp
qed

text \<open>Everything a successful compilation returned.\<close>

lemma compile_graph_ok:
  assumes "compile_graph order nodes = Inr out"
  obtains es where "declared_ok nodes" "collect_edges nodes = Inr es" "distinct es"
    "set es = plan_edges nodes" "graph_ok (node_ids nodes) es"
    "length (plan_result order nodes es) = length nodes"
    "out = map (by_id nodes) (plan_result order nodes es)"
proof -
  have dist: "distinct (node_ids nodes)"
    using assms by (auto simp: compile_graph_def split: if_splits)
  then obtain es where es: "collect_edges nodes = Inr es"
    and len: "length (plan_result order nodes es) = length nodes"
    and out: "out = map (by_id nodes) (plan_result order nodes es)"
    using assms by (auto simp: compile_graph_def bindE_Inr_iff Let_def plan_result_def split: if_splits)
  note c = collect_edges_sound [OF es dist]
  show thesis
    by (rule that [OF c(1) es c(2,3) plan_graph_ok [OF c] len out])
qed

lemma plan_result_nodes:
  assumes "distinct (node_ids nodes)" and "mset is = mset (node_ids nodes)"
  shows "mset (map (by_id nodes) is) = mset nodes"
proof -
  have "mset (map (by_id nodes) is) = image_mset (by_id nodes) (mset (node_ids nodes))"
    using assms(2) by simp
  also have "\<dots> = mset (map (\<lambda>n. by_id nodes (node_id n)) nodes)"
    by (simp add: multiset.map_comp comp_def)
  also have "map (\<lambda>n. by_id nodes (node_id n)) nodes = nodes"
    using assms(1) by (simp add: map_idI)
  finally show ?thesis .
qed

lemma compile_graph_mset:
  assumes "compile_graph order nodes = Inr out"
  shows "mset out = mset nodes"
proof -
  from compile_graph_ok [OF assms] obtain es where ok: "declared_ok nodes"
    and g: "graph_ok (node_ids nodes) es" and len: "length (plan_result order nodes es) = length nodes"
    and out: "out = map (by_id nodes) (plan_result order nodes es)" by metis
  show ?thesis
    unfolding out using plan_result_nodes [OF _ plan_result_sound(1) [OF g len]] ok by (simp add: declared_ok_def)
qed

text \<open>
  C1. A compiled plan holds every node once, after every node it follows and after every node
  that writes a slot it reads.
\<close>

theorem compile_graph_topological:
  assumes "compile_graph order nodes = Inr out"
  shows "mset out = mset nodes \<and>
    (\<forall>n \<in> set nodes. \<forall>d \<in> set (after n). before (node_ids out) (node_id d) (node_id n)) \<and>
    (\<forall>n \<in> set nodes. \<forall>w \<in> set nodes. \<forall>s \<in> set (reads n). \<forall>t \<in> set (writes w).
       slot_id s = slot_id t \<longrightarrow> w \<noteq> n \<longrightarrow> before out w n)"
proof -
  from compile_graph_ok [OF assms] obtain es where ok: "declared_ok nodes"
    and es: "set es = plan_edges nodes" and g: "graph_ok (node_ids nodes) es"
    and len: "length (plan_result order nodes es) = length nodes"
    and out: "out = map (by_id nodes) (plan_result order nodes es)" by metis
  let ?is = "plan_result order nodes es"
  have dist: "distinct (node_ids nodes)" using ok by (simp add: declared_ok_def)
  note sound = plan_result_sound [OF g len]
  have ids: "node_ids out = ?is"
    unfolding out by (rule by_id_ids [OF dist]) (use mset_eq_setD [OF sound(1)] in simp)
  have edge: "before (node_ids out) a b" if "(a, b) \<in> plan_edges nodes" for a b
    using sound(2) that es ids by auto
  have "before out w n"
    if "n \<in> set nodes" "w \<in> set nodes" "s \<in> set (reads n)" "t \<in> set (writes w)"
      "slot_id s = slot_id t" "w \<noteq> n" for n w s t
  proof -
    have "node_id w \<noteq> node_id n" using dist that by (auto simp: distinct_map inj_on_def)
    then have "(node_id w, node_id n) \<in> plan_edges nodes"
      using that by (auto simp: plan_edges_def read_edges_def)
    then have "before ?is (node_id w) (node_id n)" using edge ids by simp
    then have "before out (by_id nodes (node_id w)) (by_id nodes (node_id n))"
      unfolding out by (rule before_map)
    then show ?thesis using that dist by simp
  qed
  moreover have "before (node_ids out) (node_id d) (node_id n)"
    if "n \<in> set nodes" "d \<in> set (after n)" for n d
    by (rule edge) (use that in \<open>auto simp: plan_edges_def after_edges_def\<close>)
  ultimately show ?thesis
    using compile_graph_mset [OF assms] by blast
qed

text \<open>A node named by \<open>after\<close> is the node of the plan with that identity.\<close>

definition one_object :: "plan_node list \<Rightarrow> bool" where
  "one_object nodes \<longleftrightarrow>
     (\<forall>n \<in> set nodes. \<forall>d \<in> set (after n). \<forall>m \<in> set nodes. node_id d = node_id m \<longrightarrow> node_kind d = node_kind m)"

text \<open>
  The phases of a compiled plan are in order: bind, dependencies, authentication,
  contributions, preparation, signing, emission and the inbound phases.
\<close>

lemma compile_graph_phases_sorted:
  assumes "compile_graph order nodes = Inr out" and "one_object nodes"
  shows "sorted (map node_kind out)"
proof -
  from compile_graph_ok [OF assms(1)] obtain es where ok: "declared_ok nodes"
    and es: "set es = plan_edges nodes" and g: "graph_ok (node_ids nodes) es"
    and len: "length (plan_result order nodes es) = length nodes"
    and out: "out = map (by_id nodes) (plan_result order nodes es)" by metis
  let ?rank = "\<lambda>i. node_kind (by_id nodes i)"
  have dist: "distinct (node_ids nodes)" using ok by (simp add: declared_ok_def)
  have sorted_kind: "sorted (map ?rank (sort_key (node_rank nodes) is))" for "is"
  proof -
    have "sorted (map (node_rank nodes) (sort_key (node_rank nodes) is))" by simp
    then have "sorted_wrt (\<lambda>a b. node_rank nodes a \<le> node_rank nodes b) (sort_key (node_rank nodes) is)"
      by (simp only: sorted_map)
    then have "sorted_wrt (\<lambda>a b. ?rank a \<le> ?rank b) (sort_key (node_rank nodes) is)"
      by (rule sorted_wrt_mono_rel [rotated]) (auto simp: node_rank_def less_eq_prod_def)
    then show ?thesis by (simp only: sorted_map)
  qed
  have up: "?rank a \<le> ?rank b" if "(a, b) \<in> set es" for a b
  proof -
    have "(a, b) \<in> after_edges nodes \<or> (a, b) \<in> read_edges nodes"
      using that es by (simp add: plan_edges_def)
    then show ?thesis
    proof
      assume "(a, b) \<in> after_edges nodes"
      then obtain d n where dn: "a = node_id d" "b = node_id n" "n \<in> set nodes" "d \<in> set (after n)"
        by (auto simp: after_edges_def)
      then have "after_ok nodes n d" using ok by (auto simp: declared_ok_def)
      then obtain m where "m \<in> set nodes" "node_id d = node_id m" and le: "node_kind d \<le> node_kind n"
        by (auto simp: after_ok_def)
      then show ?thesis using dn assms(2) dist by (auto simp: one_object_def)
    next
      assume "(a, b) \<in> read_edges nodes"
      then show ?thesis
        using ok dist by (fastforce simp: read_edges_def declared_ok_def reads_ok_def)
    qed
  qed
  have "acyclic (set es)" using plan_result_total [OF g] len by blast
  moreover obtain d out' where loop: "sorted_loop (node_rank nodes) (sorted_targets order nodes es)
      (indegrees nodes es) (initial_ready nodes es) [] = (d, out')" by fastforce
  ultimately have "sorted (map ?rank out')"
    using plan.loop_sorted [OF g plan_start [OF g] _ sorted_kind up _ loop] sorted_kind
    by (simp add: initial_ready_def)
  then show ?thesis using loop unfolding out plan_result_def by (simp add: comp_def)
qed

text \<open>
  Compilation succeeds exactly on sound declarations: distinct nodes, every \<open>after\<close> in the
  plan and not of a later phase, one writer per slot, no reader before its writer's phase, and no
  cycle among the declared edges.
\<close>

lemma compile_graph_succeeds_iff:
  "(\<exists>out. compile_graph order nodes = Inr out) \<longleftrightarrow> declared_ok nodes \<and> acyclic (plan_edges nodes)"
proof
  assume "\<exists>out. compile_graph order nodes = Inr out"
  then obtain out where "compile_graph order nodes = Inr out" ..
  from compile_graph_ok [OF this] show "declared_ok nodes \<and> acyclic (plan_edges nodes)"
    using plan_result_total by metis
next
  assume ok: "declared_ok nodes \<and> acyclic (plan_edges nodes)"
  then obtain es where es: "collect_edges nodes = Inr es" using collect_edges_total by blast
  have dist: "distinct (node_ids nodes)" using ok by (simp add: declared_ok_def)
  note c = collect_edges_sound [OF es dist]
  have "length (plan_result order nodes es) = length nodes"
    using plan_result_total [OF plan_graph_ok [OF c]] ok c(3) by simp
  then show "\<exists>out. compile_graph order nodes = Inr out"
    using es dist by (simp add: compile_graph_def Let_def plan_result_def)
qed

section \<open>A concrete plan\<close>

definition bind_node :: plan_node where
  "bind_node = PlanNode 1 ''bind'' BIND [] [page_slot] []"

definition prepare_node :: plan_node where
  "prepare_node = PlanNode 2 ''prepare'' PREPARE [page_slot] [tags_slot] [bind_node]"

definition sign_node :: plan_node where
  "sign_node = PlanNode 3 ''sign'' SIGN [tags_slot] [] [prepare_node]"

definition small_plan :: "plan_node list" where
  "small_plan = [sign_node, prepare_node, bind_node]"

lemmas small_plan_defs =
  small_plan_def sign_node_def prepare_node_def bind_node_def page_slot_def tags_slot_def

lemma small_plan_ids:
  "(case compile_graph (\<lambda>_ _. 0) small_plan of Inl _ \<Rightarrow> [] | Inr out \<Rightarrow> node_ids out) = [1, 2, 3]"
  by code_simp

lemma small_plan_compiles: "\<exists>out. compile_graph (\<lambda>_ _. 0) small_plan = Inr out"
  using small_plan_ids by (auto split: sum.splits)

theorem compile_graph_topological_witness:
  "\<exists>out. compile_graph (\<lambda>_ _. 0) small_plan = Inr out \<and> mset out = mset small_plan \<and>
     before (node_ids out) 1 2 \<and> before out prepare_node sign_node"
proof -
  obtain out where out: "compile_graph (\<lambda>_ _. 0) small_plan = Inr out"
    using small_plan_compiles by blast
  note top = compile_graph_topological [OF out]
  have "before (node_ids out) 1 2" "before out prepare_node sign_node"
    using top by (auto simp: small_plan_defs)
  then show ?thesis using out top by blast
qed

lemma compile_graph_phases_sorted_witness:
  "\<exists>out. compile_graph (\<lambda>_ _. 0) small_plan = Inr out \<and> sorted (map node_kind out)"
proof -
  obtain out where out: "compile_graph (\<lambda>_ _. 0) small_plan = Inr out"
    using small_plan_compiles by blast
  have "one_object small_plan" by (auto simp: one_object_def small_plan_defs)
  then show ?thesis using compile_graph_phases_sorted [OF out] out by blast
qed

section \<open>The scope of a request and the plan record\<close>

text \<open>\<open>operation\<close> is \<open>OperationIdentity\<close>: its id is what a scope reads.\<close>

record scope_context =
  ctx_scheme :: string
  ctx_host :: string
  ctx_path :: string
  ctx_method :: string
  ctx_operation_id :: string

record request_scope =
  schemes :: "string fset"
  hosts :: "string fset"
  path_prefixes :: "string list"
  methods :: "string fset"
  operation_ids :: "string fset"

text \<open>\<open>str.upper\<close> on ASCII text.\<close>

definition scope_matches :: "request_scope \<Rightarrow> scope_context \<Rightarrow> bool" where
  "scope_matches sc ctx \<longleftrightarrow>
     (schemes sc = {||} \<or> ctx_scheme ctx |\<in>| schemes sc) \<and>
     (hosts sc = {||} \<or> ctx_host ctx |\<in>| hosts sc) \<and>
     (path_prefixes sc = [] \<or> list_ex (\<lambda>p. prefix p (ctx_path ctx)) (path_prefixes sc)) \<and>
     (methods sc = {||} \<or> map upper_char (ctx_method ctx) |\<in>| methods sc) \<and>
     (operation_ids sc = {||} \<or> ctx_operation_id ctx |\<in>| operation_ids sc)"

definition strings_of :: "string list \<Rightarrow> pyval" where
  "strings_of xs = PList (map PStr xs)"

definition scope_to_dict :: "request_scope \<Rightarrow> (string, pyval) dict" where
  "scope_to_dict sc =
     [(''schemes'', strings_of (sorted_list_of_fset (schemes sc))),
      (''hosts'', strings_of (sorted_list_of_fset (hosts sc))),
      (''path_prefixes'', strings_of (path_prefixes sc)),
      (''methods'', strings_of (sorted_list_of_fset (methods sc))),
      (''operation_ids'', strings_of (sorted_list_of_fset (operation_ids sc)))]"

fun as_string :: "pyval \<Rightarrow> string option" where
  "as_string (PStr s) = Some s"
| "as_string _ = None"

definition scope_strings :: "(string, pyval) dict \<Rightarrow> string \<Rightarrow> sdk_error + string list" where
  "scope_strings d name =
     (case seq_items (case map_of d name of None \<Rightarrow> PTuple [] | Some v \<Rightarrow> v) of
        None \<Rightarrow> Inl (PyTypeError (''scope field '' @ py_repr name @ '' must be a sequence''))
      | Some items \<Rightarrow>
          (if list_all (\<lambda>v. as_string v \<noteq> None) items then Inr (map (\<lambda>v. the (as_string v)) items)
           else Inl (PyTypeError (''scope field '' @ py_repr name @ '' must contain strings''))))"

definition scope_from_dict :: "(string, pyval) dict \<Rightarrow> sdk_error + request_scope" where
  "scope_from_dict d =
     bindE (scope_strings d ''schemes'') (\<lambda>sch.
     bindE (scope_strings d ''hosts'') (\<lambda>hs.
     bindE (scope_strings d ''path_prefixes'') (\<lambda>ps.
     bindE (scope_strings d ''methods'') (\<lambda>ms.
     bindE (scope_strings d ''operation_ids'') (\<lambda>ops.
     Inr \<lparr>schemes = fset_of_list sch, hosts = fset_of_list hs, path_prefixes = ps,
          methods = fset_of_list ms, operation_ids = fset_of_list ops\<rparr>)))))"

lemma scope_strings_of:
  "map_of d name = Some (strings_of xs) \<Longrightarrow> scope_strings d name = Inr xs"
  by (auto simp: scope_strings_def strings_of_def list_all_iff comp_def)

lemma scope_roundtrip: "scope_from_dict (scope_to_dict sc) = Inr sc"
proof -
  have sorted: "fset_of_list (sorted_list_of_fset A) = A" for A :: "string fset"
    by (simp add: fset_eq_iff fset_of_list.rep_eq)
  show ?thesis
    unfolding scope_from_dict_def
    by (subst scope_strings_of, (simp add: scope_to_dict_def; fail))+ (simp add: sorted)
qed

text \<open>
  \<open>compile_plan\<close>: the ordered nodes and a fingerprint. \<open>digest\<close> stands for SHA-256 over the JSON
  text of the payload; the responses, transport requirements and replay policy pass through.
\<close>

record plan_payload =
  pay_operation :: string
  pay_slots :: "(string \<times> string option \<times> bool \<times> slot_cardinality) list"
  pay_nodes :: "(string \<times> plan_kind) list"
  pay_scope :: "(string, pyval) dict"
  pay_requirements :: "(string \<times> string) list"
  pay_context :: "string list"

record replay_policy =
  replay_max_attempts :: int
  replay_idempotent :: bool

record execution_plan =
  plan_operation :: string
  plan_shape :: shape
  phases :: "plan_node list"
  plan_scope :: request_scope
  requirements :: "(string \<times> string) list"
  replay :: replay_policy
  fingerprint :: string

definition empty_scope :: request_scope where
  "empty_scope = \<lparr>schemes = {||}, hosts = {||}, path_prefixes = [], methods = {||}, operation_ids = {||}\<rparr>"

definition compile_plan ::
  "(plan_payload \<Rightarrow> string) \<Rightarrow> (nat \<Rightarrow> nat \<Rightarrow> nat) \<Rightarrow> string \<Rightarrow> shape \<Rightarrow> plan_node list \<Rightarrow>
     request_scope option \<Rightarrow> (string \<times> string) list \<Rightarrow> replay_policy option \<Rightarrow> string list \<Rightarrow>
     (string \<times> string option \<times> bool \<times> slot_cardinality) list option \<Rightarrow> sdk_error + execution_plan" where
  "compile_plan digest order operation sh nodes scope reqs rep context slot_fingerprint =
     (let sc = (case scope of None \<Rightarrow> empty_scope | Some s \<Rightarrow> s);
          rp = (case rep of None \<Rightarrow> \<lparr>replay_max_attempts = 1, replay_idempotent = False\<rparr> | Some r \<Rightarrow> r) in
      bindE (compile_graph order nodes) (\<lambda>ordered.
      Inr \<lparr>plan_operation = operation, plan_shape = sh, phases = ordered, plan_scope = sc,
           requirements = reqs, replay = rp,
           fingerprint = digest
             \<lparr>pay_operation = operation,
              pay_slots = (case slot_fingerprint of
                 Some (f # fs) \<Rightarrow> f # fs
               | _ \<Rightarrow> map (\<lambda>s. (diagnostic_name s, None, slot_required s, slot_card s)) sh),
              pay_nodes = map (\<lambda>n. (node_name n, node_kind n)) ordered,
              pay_scope = scope_to_dict sc, pay_requirements = reqs, pay_context = context\<rparr>\<rparr>))"

text \<open>\<open>bind_plan\<close>: a call's arguments against the plan's shape.\<close>

definition bind_plan :: "execution_plan \<Rightarrow> (value_slot \<times> pyval) list \<Rightarrow> sdk_error + op_values" where
  "bind_plan plan arguments = from_bound (plan_shape plan) arguments"

end
