(* ===== verification/Dependencies.thy ===== *)
theory Dependencies
  imports Plan
begin

text \<open>
  Request dependencies (\<open>eazy_sdk/dependencies/__init__.py\<close>): descriptors with a cache policy, the
  provider registry, the order the requirements are resolved in, the resolution itself with its
  three caches, the bindings from a resolved value to the slots of a request, the address of a
  service, and the lowering of declarations to requirements.

  A descriptor compares by identity: \<open>dep_id\<close> stands for \<open>id(dependency)\<close>. A provider is code of
  the caller: a function from the context it receives and a world \<open>'w\<close> of its own to an outcome
  and the world after it. Looking up an attribute of a value is the parameter \<open>attr\<close>.
\<close>

section \<open>Descriptors, selectors, bindings\<close>

datatype cache_policy = CACHE_NONE | CACHE_CLIENT | CACHE_CALL | CACHE_ATTEMPT

record dependency =
  dep_id :: nat
  dep_name :: string
  dep_validator :: validator
  dep_cache :: cache_policy
  dep_secret :: bool

definition typed_dependency ::
  "nat \<Rightarrow> string \<Rightarrow> annotation \<Rightarrow> cache_policy \<Rightarrow> bool \<Rightarrow> dependency" where
  "typed_dependency i name a cache secret =
     \<lparr>dep_id = i, dep_name = name, dep_validator = python_type_validator a, dep_cache = cache,
      dep_secret = secret\<rparr>"

datatype selector =
    IdentitySelector
  | AttributeSelector string
  | MappingSelector string
  | CustomSelector "pyval \<Rightarrow> sdk_error + pyval"

fun select_value ::
  "(pyval \<Rightarrow> string \<Rightarrow> pyval option) \<Rightarrow> selector \<Rightarrow> pyval \<Rightarrow> sdk_error + pyval" where
  "select_value attr IdentitySelector v = Inr v"
| "select_value attr (AttributeSelector name) v =
     (case attr v name of
        Some x \<Rightarrow> Inr x
      | None \<Rightarrow> Inl (PlanError (''dependency result has no attribute '' @ py_repr name)))"
| "select_value attr (MappingSelector key) v =
     (case v of
        PDict d \<Rightarrow> (case map_of d key of
            Some x \<Rightarrow> Inr x
          | None \<Rightarrow> Inl (PlanError (''dependency result has no key '' @ py_repr key)))
      | _ \<Rightarrow> Inl (PyTypeError ''object is not subscriptable''))"
| "select_value attr (CustomSelector f) v = f v"

datatype binding_operation = BIND_SET | BIND_APPEND | BIND_REPLACE_ALL

record result_binding =
  rb_select :: selector
  rb_target :: value_slot
  rb_operation :: binding_operation
  rb_conflict :: patch_conflict

definition operation_for ::
  "(pyval \<Rightarrow> string \<Rightarrow> pyval option) \<Rightarrow> pyval \<Rightarrow> result_binding \<Rightarrow> sdk_error + patch_op" where
  "operation_for attr v b =
     bindE (select_value attr (rb_select b) v) (\<lambda>selected.
       case rb_operation b of
         BIND_APPEND \<Rightarrow> Inr (AppendOp (rb_target b) selected (rb_conflict b))
       | BIND_REPLACE_ALL \<Rightarrow>
           (case seq_items selected of
              None \<Rightarrow> Inl (PlanError ''replace-all dependency binding requires a sequence'')
            | Some items \<Rightarrow> Inr (ReplaceAllOp (rb_target b) items (rb_conflict b)))
       | BIND_SET \<Rightarrow> Inr (SetOp (rb_target b) selected (rb_conflict b)))"

section \<open>The address of a service\<close>

text \<open>A router class: its name and the classes of its \<open>__mro__\<close>, itself included.\<close>

record router =
  router_id :: nat
  router_name :: string
  router_mro :: "nat list"

record dep_context =
  ctx_operation :: string
  ctx_attempt :: int
  ctx_resolved :: "(nat, pyval) dict"
  ctx_base_url :: string
  ctx_services :: "(router \<times> string) list"

definition rstrip_slash :: "string \<Rightarrow> string" where
  "rstrip_slash s = rev (dropWhile (\<lambda>c. c = CHR ''/'') (rev s))"

text \<open>\<open>found\<close>, a set of addresses, is a list without repetitions.\<close>

definition found_addresses :: "dep_context \<Rightarrow> router \<Rightarrow> string list" where
  "found_addresses ctx r =
     remdups (map snd (filter (\<lambda>(service, _). router_id r \<in> set (router_mro service)) (ctx_services ctx)))"

definition service_address :: "dep_context \<Rightarrow> router option \<Rightarrow> sdk_error + string" where
  "service_address ctx router =
     (case router of
        None \<Rightarrow> Inr (ctx_base_url ctx)
      | Some r \<Rightarrow>
          (case found_addresses ctx r of
             [address] \<Rightarrow> Inr address
           | found \<Rightarrow> Inl (PlanError
               (''operation '' @ py_repr (ctx_operation ctx) @ '': service_url('' @ router_name r @ '') '' @
                (if found = [] then ''is not a router of this SDK root''
                 else ''names routers at several addresses: '' @ join '', '' (sort found))))))"

definition context_service_url :: "dep_context \<Rightarrow> router option \<Rightarrow> string \<Rightarrow> sdk_error + string" where
  "context_service_url ctx router path =
     bindE (service_address ctx router) (\<lambda>address.
       if address = [] then Inl (PlanError
         (''operation '' @ py_repr (ctx_operation ctx) @
          '': service_url() found no address: neither the router nor its client declares a base_url''))
       else Inr (rstrip_slash address @ path))"

text \<open>\<open>service_url(router, path)\<close>: the provider behind it, once the path is accepted.\<close>

definition service_url :: "router option \<Rightarrow> string \<Rightarrow> sdk_error + (router option \<times> string)" where
  "service_url router path =
     (if path \<noteq> [] \<and> hd path \<noteq> CHR ''/''
      then Inl (PlanError (''service_url(path=...) starts with '' @ py_repr ''/'' @ '', got '' @ py_repr path))
      else Inr (router, path))"

section \<open>Providers, requirements, caches\<close>

datatype provider_outcome = Provided pyval | ProviderUnavailable string | ProviderRaised sdk_error

datatype 'w provider =
    Provider "dep_context \<Rightarrow> 'w \<Rightarrow> provider_outcome \<times> 'w"
  | NoResolveMethod

record 'w requirement =
  req_dep :: dependency
  req_required :: bool
  req_bindings :: "result_binding list"
  req_requires :: "dependency list"
  req_provider :: "'w provider option"

type_synonym 'w registry = "(nat, 'w provider) dict"

definition register :: "dependency \<Rightarrow> 'w provider \<Rightarrow> 'w registry \<Rightarrow> sdk_error + 'w registry" where
  "register d p reg =
     (if map_of reg (dep_id d) \<noteq> None
      then Inl (PlanError (''dependency already registered: '' @ dep_name d))
      else Inr (AList.update (dep_id d) p reg))"

definition registered :: "dependency \<Rightarrow> 'w registry \<Rightarrow> 'w provider option" where
  "registered d reg = map_of reg (dep_id d)"

definition ensure :: "dependency \<Rightarrow> 'w provider \<Rightarrow> 'w registry \<Rightarrow> 'w registry" where
  "ensure d p reg = (if map_of reg (dep_id d) \<noteq> None then reg else AList.update (dep_id d) p reg)"

record caches =
  cache_client :: "(nat, pyval) dict"
  cache_call :: "(nat, pyval) dict"
  cache_attempt :: "(nat, pyval) dict"

fun cache_for :: "caches \<Rightarrow> cache_policy \<Rightarrow> (nat, pyval) dict option" where
  "cache_for c CACHE_CLIENT = Some (cache_client c)"
| "cache_for c CACHE_CALL = Some (cache_call c)"
| "cache_for c CACHE_ATTEMPT = Some (cache_attempt c)"
| "cache_for c CACHE_NONE = None"

text \<open>\<open>cache[dependency] = value\<close> for the dictionary \<open>cache_for\<close> returned, when it returned one.\<close>

fun cache_store :: "cache_policy \<Rightarrow> nat \<Rightarrow> pyval \<Rightarrow> caches \<Rightarrow> caches" where
  "cache_store CACHE_CLIENT i v c = c\<lparr>cache_client := AList.update i v (cache_client c)\<rparr>"
| "cache_store CACHE_CALL i v c = c\<lparr>cache_call := AList.update i v (cache_call c)\<rparr>"
| "cache_store CACHE_ATTEMPT i v c = c\<lparr>cache_attempt := AList.update i v (cache_attempt c)\<rparr>"
| "cache_store CACHE_NONE i v c = c"

definition cached :: "caches \<Rightarrow> dependency \<Rightarrow> pyval option" where
  "cached c d = Option.bind (cache_for c (dep_cache d)) (\<lambda>m. map_of m (dep_id d))"

section \<open>The order of resolution\<close>

abbreviation req_id :: "'w requirement \<Rightarrow> nat" where
  "req_id r \<equiv> dep_id (req_dep r)"

definition by_dependency :: "'w requirement list \<Rightarrow> (nat, 'w requirement) dict" where
  "by_dependency reqs = fold (\<lambda>r d. AList.update (req_id r) r d) reqs []"

definition increment :: "nat \<Rightarrow> (nat, int) dict \<Rightarrow> (nat, int) dict" where
  "increment t d = map (\<lambda>(k, c). (k, if k = t then c + 1 else c)) d"

definition requires_step ::
  "'w requirement list \<Rightarrow> 'w requirement \<Rightarrow> nat edges \<times> (nat, int) dict \<Rightarrow> dependency
     \<Rightarrow> sdk_error + nat edges \<times> (nat, int) dict" where
  "requires_step reqs r st d =
     (if map_of (by_dependency reqs) (dep_id d) = None
      then Inl (GraphError (''dependency '' @ py_repr (dep_name (req_dep r)) @
             '' requires unregistered '' @ py_repr (dep_name d)))
      else Inr (add_edge (dep_id d) (req_id r) (fst st), increment (req_id r) (snd st)))"

definition requires_edges ::
  "'w requirement list \<Rightarrow> sdk_error + nat edges \<times> (nat, int) dict" where
  "requires_edges reqs =
     foldE (\<lambda>st r. foldE (requires_step reqs r) st (req_requires r))
       ([], fold (\<lambda>r d. AList.update (req_id r) 0 d) reqs []) reqs"

lemma release_new_decreases:
  "(d', new) = release (\<lambda>r. r) ts d [] \<Longrightarrow> length new + waiting d' < Suc (waiting d)"
  using release_decreases [of d' new "\<lambda>r. r" ts d "[]"] by simp

text \<open>
  The queue holds requirements: \<open>ready.pop(0)\<close>, then \<open>ready.append(by_dependency[target])\<close> for
  each target whose count falls to zero.
\<close>

function requirement_loop ::
  "(nat \<Rightarrow> 'w requirement) \<Rightarrow> (nat \<Rightarrow> nat list) \<Rightarrow> (nat, int) dict \<Rightarrow> 'w requirement list \<Rightarrow>
     'w requirement list \<Rightarrow> (nat, int) dict \<times> 'w requirement list" where
  "requirement_loop byd tgt d [] out = (d, out)"
| "requirement_loop byd tgt d (item # ready) out =
     (case release (\<lambda>r. r) (tgt (req_id item)) d [] of
        (d', new) \<Rightarrow> requirement_loop byd tgt d' (ready @ map byd new) (out @ [item]))"
  by pat_completeness auto
termination
  by (relation "measure (\<lambda>(byd, tgt, d, ready, out). length ready + waiting d)")
    (auto dest: release_new_decreases)

definition compile_dependency_order ::
  "(nat \<Rightarrow> nat \<Rightarrow> nat) \<Rightarrow> 'w requirement list \<Rightarrow> sdk_error + 'w requirement list" where
  "compile_dependency_order order reqs =
     bindE (requires_edges reqs) (\<lambda>(es, indegree).
       case requirement_loop (\<lambda>i. the (map_of (by_dependency reqs) i)) (iterate order es) indegree
              (sort_key (\<lambda>r. dep_name (req_dep r))
                 (filter (\<lambda>r. map_of indegree (req_id r) = Some 0) reqs)) [] of
         (indegree', output) \<Rightarrow>
           if length output \<noteq> length reqs then
             (case map (\<lambda>r. dep_name (req_dep r)) (filter (\<lambda>r. map_of indegree' (req_id r) \<noteq> Some 0) reqs) of
                [] \<Rightarrow> Inl (PyError ''IndexError'')
              | n # ns \<Rightarrow> Inl (GraphError (''dependency cycle: '' @ join '' -> '' ((n # ns) @ [n]))))
           else Inr output)"

section \<open>Resolution\<close>

text \<open>What one resolution reads and changes: the caches, the resolved values, the providers' world.\<close>

record 'w resolution =
  res_caches :: caches
  res_resolved :: "(nat, pyval) dict"
  res_world :: 'w

definition bind_resolved ::
  "(pyval \<Rightarrow> string \<Rightarrow> pyval option) \<Rightarrow> 'w requirement \<Rightarrow> pyval \<Rightarrow> 'w resolution
     \<Rightarrow> (sdk_error + patch_op list) \<times> 'w resolution" where
  "bind_resolved attr r v st =
     (mapE (operation_for attr v) (req_bindings r),
      st\<lparr>res_resolved := AList.update (req_id r) v (res_resolved st)\<rparr>)"

definition provided ::
  "(pyval \<Rightarrow> string \<Rightarrow> pyval option) \<Rightarrow> 'w requirement \<Rightarrow> provider_outcome \<Rightarrow> 'w resolution
     \<Rightarrow> (sdk_error + patch_op list) \<times> 'w resolution" where
  "provided attr r outcome st =
     (case outcome of
        ProviderRaised e \<Rightarrow> (Inl e, st)
      | ProviderUnavailable _ \<Rightarrow>
          (if req_required r
           then (Inl (PlanError (''required dependency unavailable: '' @ dep_name (req_dep r))), st)
           else (Inr [], st))
      | Provided v \<Rightarrow>
          (case dep_validator (req_dep r) v of
             Inl e \<Rightarrow> (Inl e, st)
           | Inr v' \<Rightarrow> bind_resolved attr r v'
               (st\<lparr>res_caches := cache_store (dep_cache (req_dep r)) (req_id r) v' (res_caches st)\<rparr>)))"

definition resolve_one ::
  "(pyval \<Rightarrow> string \<Rightarrow> pyval option) \<Rightarrow> 'w registry \<Rightarrow> dep_context \<Rightarrow> 'w resolution \<Rightarrow> 'w requirement
     \<Rightarrow> (sdk_error + patch_op list) \<times> 'w resolution" where
  "resolve_one attr reg ctx st r =
     (case cached (res_caches st) (req_dep r) of
        Some v \<Rightarrow> bind_resolved attr r v st
      | None \<Rightarrow>
          (case (case req_provider r of None \<Rightarrow> registered (req_dep r) reg | Some p \<Rightarrow> Some p) of
             None \<Rightarrow>
               (if req_required r
                then (Inl (PlanError (''missing provider: '' @ dep_name (req_dep r))), st)
                else (Inr [], st))
           | Some NoResolveMethod \<Rightarrow>
               (Inl (PlanError (''provider has no resolve method: '' @ dep_name (req_dep r))), st)
           | Some (Provider f) \<Rightarrow>
               (case f (ctx\<lparr>ctx_resolved := res_resolved st\<rparr>) (res_world st) of
                  (outcome, w) \<Rightarrow> provided attr r outcome (st\<lparr>res_world := w\<rparr>))))"

fun resolve_loop ::
  "(pyval \<Rightarrow> string \<Rightarrow> pyval option) \<Rightarrow> 'w registry \<Rightarrow> dep_context \<Rightarrow> 'w resolution \<Rightarrow>
     'w requirement list \<Rightarrow> (sdk_error + patch_op list) \<times> 'w resolution" where
  "resolve_loop attr reg ctx st [] = (Inr [], st)"
| "resolve_loop attr reg ctx st (r # rs) =
     (case resolve_one attr reg ctx st r of
        (Inl e, st') \<Rightarrow> (Inl e, st')
      | (Inr ops, st') \<Rightarrow>
          (case resolve_loop attr reg ctx st' rs of
             (Inl e, st'') \<Rightarrow> (Inl e, st'')
           | (Inr ops', st'') \<Rightarrow> (Inr (ops @ ops'), st'')))"

definition resolve_requirements ::
  "(pyval \<Rightarrow> string \<Rightarrow> pyval option) \<Rightarrow> (nat \<Rightarrow> nat \<Rightarrow> nat) \<Rightarrow> 'w requirement list \<Rightarrow> 'w registry \<Rightarrow>
     dep_context \<Rightarrow> 'w resolution \<Rightarrow> (sdk_error + value_patch) \<times> 'w resolution" where
  "resolve_requirements attr order reqs reg ctx st =
     (case compile_dependency_order order reqs of
        Inl e \<Rightarrow> (Inl e, st)
      | Inr ordered \<Rightarrow> resolve_loop attr reg ctx st ordered)"

section \<open>Lowering declarations\<close>

text \<open>
  The source of a value: a constant, an object with a \<open>resolve\<close> method, or a callable that takes
  nothing or the context (\<open>_CallableProvider\<close> reads its signature).
\<close>

datatype 'w source =
    ConstantSource pyval
  | ResolveSource "dep_context \<Rightarrow> 'w \<Rightarrow> provider_outcome \<times> 'w"
  | CallableSource "'w \<Rightarrow> provider_outcome \<times> 'w"
  | ContextCallableSource "dep_context \<Rightarrow> 'w \<Rightarrow> provider_outcome \<times> 'w"

fun inject_provider :: "'w source \<Rightarrow> 'w provider" where
  "inject_provider (ConstantSource v) = Provider (\<lambda>ctx w. (Provided v, w))"
| "inject_provider (ResolveSource f) = Provider f"
| "inject_provider (CallableSource f) = Provider (\<lambda>ctx. f)"
| "inject_provider (ContextCallableSource f) = Provider f"

text \<open>A declared provider that is neither callable nor has \<open>resolve\<close> is registered as it is.\<close>

fun spec_provider_of :: "'w source \<Rightarrow> 'w provider" where
  "spec_provider_of (ConstantSource v) = NoResolveMethod"
| "spec_provider_of src = inject_provider src"

record 'w inject =
  inj_location :: string
  inj_name :: "string option"
  inj_source :: "'w source"
  inj_cache :: cache_policy
  inj_secret :: bool

record logical_binding =
  lb_selector :: selector
  lb_location :: string
  lb_name :: string
  lb_operation :: binding_operation

record 'w dependency_spec =
  spec_dep :: dependency
  spec_provider :: "'w source option"
  spec_bindings :: "logical_binding list"
  spec_required :: bool
  spec_requires :: "dependency list"

record compiled_slots =
  path_slots :: "(string, value_slot) dict"
  query_slots :: "(string, value_slot) dict"
  header_slots :: "(string, value_slot) dict"
  cookie_slots :: "(string, value_slot) dict"
  body_field_slots :: "(string, value_slot) dict"
  body_slot :: "value_slot option"

definition slots_at :: "compiled_slots \<Rightarrow> string \<Rightarrow> (string, value_slot) dict" where
  "slots_at c loc =
     (if loc = ''path'' then path_slots c else if loc = ''query'' then query_slots c
      else if loc = ''header'' then header_slots c else if loc = ''cookie'' then cookie_slots c
      else if loc = ''body'' then body_field_slots c else [])"

definition wire_name :: "'w inject \<Rightarrow> sdk_error + string" where
  "wire_name i =
     (case inj_name i of
        Some (c # cs) \<Rightarrow> Inr (c # cs)
      | _ \<Rightarrow> Inl (PlanError ''Inject placement requires an explicit wire name''))"

datatype 'w dep_declaration =
    InjectDecl "'w inject"
  | RequirementDecl "'w requirement"
  | SpecDecl "'w dependency_spec"
  | OtherDecl string

definition lower_inject :: "compiled_slots \<Rightarrow> nat \<Rightarrow> 'w inject \<Rightarrow> sdk_error + 'w requirement" where
  "lower_inject c fresh i =
     bindE (wire_name i) (\<lambda>name.
       case map_of (slots_at c (inj_location i)) name of
         None \<Rightarrow> Inl (PlanError (''injected target was not compiled: '' @ inj_location i @ ''.'' @ name))
       | Some slot \<Rightarrow> Inr
           \<lparr>req_dep = typed_dependency fresh (''inject.'' @ inj_location i @ ''.'' @ name) AnyAnn
              (inj_cache i) (inj_secret i),
            req_required = True,
            req_bindings = [\<lparr>rb_select = IdentitySelector, rb_target = slot,
                             rb_operation = BIND_SET, rb_conflict = CONFLICT_ERROR\<rparr>],
            req_requires = [], req_provider = Some (inject_provider (inj_source i))\<rparr>)"

definition lower_binding :: "compiled_slots \<Rightarrow> logical_binding \<Rightarrow> sdk_error + result_binding" where
  "lower_binding c b =
     (case (case map_of (slots_at c (lb_location b)) (lb_name b) of
              Some s \<Rightarrow> Some s
            | None \<Rightarrow> if lb_location b = ''body'' then body_slot c else None) of
        None \<Rightarrow> Inl (PlanError
          (''dependency target is not declared: '' @ lb_location b @ ''.'' @ lb_name b))
      | Some slot \<Rightarrow> Inr \<lparr>rb_select = lb_selector b, rb_target = slot,
          rb_operation = lb_operation b, rb_conflict = CONFLICT_ERROR\<rparr>)"

definition lower_spec :: "compiled_slots \<Rightarrow> 'w dependency_spec \<Rightarrow> sdk_error + 'w requirement" where
  "lower_spec c sp =
     bindE (mapE (lower_binding c) (spec_bindings sp)) (\<lambda>bindings.
       Inr \<lparr>req_dep = spec_dep sp, req_required = spec_required sp, req_bindings = bindings,
            req_requires = spec_requires sp, req_provider = None\<rparr>)"

text \<open>
  Every \<open>Inject\<close> gets a new descriptor: \<open>fresh\<close> is the identity the next one takes. The registry
  keeps what was registered before an error.
\<close>

fun lower_requirements ::
  "compiled_slots \<Rightarrow> 'w dep_declaration list \<Rightarrow> nat \<times> 'w registry
     \<Rightarrow> (sdk_error + 'w requirement list) \<times> nat \<times> 'w registry" where
  "lower_requirements c [] (fresh, reg) = (Inr [], fresh, reg)"
| "lower_requirements c (item # items) (fresh, reg) =
     (case (case item of
              InjectDecl i \<Rightarrow> (lower_inject c fresh i, Suc fresh, reg)
            | RequirementDecl r \<Rightarrow> (Inr r, fresh, reg)
            | OtherDecl name \<Rightarrow>
                (Inl (PlanError (''unsupported dependency requirement: '' @ name)), fresh, reg)
            | SpecDecl sp \<Rightarrow>
                (lower_spec c sp, fresh,
                 case spec_provider sp of
                   None \<Rightarrow> reg
                 | Some src \<Rightarrow> ensure (spec_dep sp) (spec_provider_of src) reg)) of
        (Inl e, st) \<Rightarrow> (Inl e, st)
      | (Inr r, st) \<Rightarrow>
          (case lower_requirements c items st of
             (Inl e, st') \<Rightarrow> (Inl e, st')
           | (Inr rs, st') \<Rightarrow> (Inr (r # rs), st')))"

section \<open>The order is topological\<close>

definition requires_pairs :: "'w requirement list \<Rightarrow> ('w requirement \<times> dependency) list" where
  "requires_pairs reqs = concat (map (\<lambda>r. map (Pair r) (req_requires r)) reqs)"

definition pair_edge :: "'w requirement \<times> dependency \<Rightarrow> nat \<times> nat" where
  "pair_edge p = (dep_id (snd p), req_id (fst p))"

definition dep_edges :: "'w requirement list \<Rightarrow> (nat \<times> nat) set" where
  "dep_edges reqs = {(dep_id d, req_id r) | d r. r \<in> set reqs \<and> d \<in> set (req_requires r)}"

text \<open>One requirement per dependency, and no dependency named twice by one requirement.\<close>

definition reqs_ok :: "'w requirement list \<Rightarrow> bool" where
  "reqs_ok reqs \<longleftrightarrow> distinct (map req_id reqs) \<and>
     (\<forall>r \<in> set reqs. distinct (map dep_id (req_requires r)))"

definition all_registered :: "'w requirement list \<Rightarrow> bool" where
  "all_registered reqs \<longleftrightarrow>
     (\<forall>r \<in> set reqs. \<forall>d \<in> set (req_requires r). dep_id d \<in> req_id ` set reqs)"

lemma set_requires_pairs: "pair_edge ` set (requires_pairs reqs) = dep_edges reqs"
  by (force simp: requires_pairs_def pair_edge_def dep_edges_def)

lemma distinct_pairs: "reqs_ok reqs \<Longrightarrow> distinct (map pair_edge (requires_pairs reqs))"
proof (induction reqs)
  case (Cons r reqs)
  have "distinct (map pair_edge (map (Pair r) (req_requires r)))"
    using Cons.prems by (auto simp: reqs_ok_def pair_edge_def distinct_map inj_on_def)
  moreover have "pair_edge ` set (map (Pair r) (req_requires r)) \<inter> dep_edges reqs = {}"
    using Cons.prems by (auto simp: reqs_ok_def pair_edge_def dep_edges_def)
  moreover have "distinct (map pair_edge (requires_pairs reqs))"
    using Cons by (simp add: reqs_ok_def)
  ultimately show ?case
    using set_requires_pairs [of reqs] by (simp add: requires_pairs_def image_image)
qed (simp add: requires_pairs_def)

lemma by_dependency_eq:
  "distinct (map req_id reqs) \<Longrightarrow> by_dependency reqs = map (\<lambda>r. (req_id r, r)) reqs"
  by (simp add: by_dependency_def fold_update_fresh)

lemma by_dependency_in:
  assumes "distinct (map req_id reqs)" and "r \<in> set reqs"
  shows "map_of (by_dependency reqs) (req_id r) = Some r"
  using assms by (auto simp: by_dependency_eq comp_def)

lemma by_dependency_None:
  "distinct (map req_id reqs) \<Longrightarrow> map_of (by_dependency reqs) i = None \<longleftrightarrow> i \<notin> req_id ` set reqs"
  by (auto simp: by_dependency_eq map_of_eq_None_iff image_iff)

definition add_pair :: "nat edges \<times> (nat, int) dict \<Rightarrow> 'w requirement \<times> dependency
    \<Rightarrow> nat edges \<times> (nat, int) dict" where
  "add_pair st p = (add_edge (dep_id (snd p)) (req_id (fst p)) (fst st),
     increment (req_id (fst p)) (snd st))"

lemma add_pairs:
  "distinct (es @ map pair_edge ps) \<Longrightarrow>
   fold (\<lambda>p st. add_pair st p) ps (es, map (\<lambda>i. (i, in_count es i)) ids) =
     (es @ map pair_edge ps, map (\<lambda>i. (i, in_count (es @ map pair_edge ps) i)) ids)"
proof (induction ps arbitrary: es)
  case (Cons p ps)
  have "add_pair (es, map (\<lambda>i. (i, in_count es i)) ids) p =
      (es @ [pair_edge p], map (\<lambda>i. (i, in_count (es @ [pair_edge p]) i)) ids)"
    using Cons.prems
    by (auto simp: add_pair_def add_edge_def pair_edge_def increment_def in_count_def)
  then show ?case using Cons.IH [of "es @ [pair_edge p]"] Cons.prems by simp
qed simp

lemma requires_edges_eq:
  assumes "reqs_ok reqs"
  shows "requires_edges reqs = Inr st \<longleftrightarrow> all_registered reqs \<and>
    st = (map pair_edge (requires_pairs reqs),
      map (\<lambda>i. (i, in_count (map pair_edge (requires_pairs reqs)) i)) (map req_id reqs))"
proof -
  have dist: "distinct (map req_id reqs)" using assms by (simp add: reqs_ok_def)
  define bad :: "'a requirement \<times> dependency \<Rightarrow> bool"
    where "bad p = (map_of (by_dependency reqs) (dep_id (snd p)) = None)" for p
  define err :: "nat edges \<times> (nat, int) dict \<Rightarrow> 'a requirement \<times> dependency \<Rightarrow> sdk_error"
    where "err = (\<lambda>_ p. GraphError (''dependency '' @ py_repr (dep_name (req_dep (fst p))) @
             '' requires unregistered '' @ py_repr (dep_name (snd p))))"
  have step: "requires_step reqs (fst p) s (snd p) =
      (if bad p then Inl (err s p) else Inr (add_pair s p))" for s p
    by (simp add: requires_step_def add_pair_def bad_def err_def)
  have start: "fold (\<lambda>r d. AList.update (req_id r) 0 d) reqs [] =
      map (\<lambda>i. (i, in_count [] i)) (map req_id reqs)"
    using dist by (simp add: fold_update_fresh in_count_def)
  have "requires_edges reqs = Inr st \<longleftrightarrow> (\<forall>p \<in> set (requires_pairs reqs). \<not> bad p) \<and>
      st = fold (\<lambda>p st. add_pair st p) (requires_pairs reqs)
        ([], map (\<lambda>i. (i, in_count [] i)) (map req_id reqs))"
    unfolding requires_edges_def foldE_concat requires_pairs_def [symmetric] start
    by (rule foldE_guard [OF step])
  also have "(\<forall>p \<in> set (requires_pairs reqs). \<not> bad p) \<longleftrightarrow> all_registered reqs"
    by (auto simp: bad_def by_dependency_None [OF dist] requires_pairs_def all_registered_def)
  finally show ?thesis
    using add_pairs [of "[]" "requires_pairs reqs" "map req_id reqs"] distinct_pairs [OF assms]
    by simp
qed

lemma release_append:
  "release (\<lambda>r. r) ts d (a @ b) = (fst (release (\<lambda>r. r) ts d b), a @ snd (release (\<lambda>r. r) ts d b))"
  by (induction ts arbitrary: d b) (auto simp: Let_def)

lemma release_subset: "set (snd (release (\<lambda>r. r) ts d b)) \<subseteq> set ts \<union> set b"
proof (induction ts arbitrary: d b)
  case (Cons t ts)
  show ?case
    using Cons.IH [of "decrement t d" "b @ [t]"] Cons.IH [of "decrement t d" b]
    by (auto simp: Let_def)
qed simp

text \<open>The loop over requirements is the loop over their ids.\<close>

lemma requirement_loop_fifo:
  "\<lbrakk>requirement_loop byd tgt d ready out = (d', out'); \<forall>a. \<forall>i \<in> set (tgt a). req_id (byd i) = i\<rbrakk> \<Longrightarrow>
    fifo_loop tgt d (map req_id ready) (map req_id out) = (d', map req_id out') \<and>
    ((\<forall>x \<in> set (ready @ out). byd (req_id x) = x) \<longrightarrow> (\<forall>x \<in> set out'. byd (req_id x) = x))"
proof (induction byd tgt d ready out arbitrary: d' out' rule: requirement_loop.induct)
  case (2 byd tgt d item ready out)
  obtain d1 new where rel: "release (\<lambda>r. r) (tgt (req_id item)) d [] = (d1, new)" by fastforce
  have new: "req_id (byd i) = i" if "i \<in> set new" for i
    using release_subset [of "tgt (req_id item)" d "[]"] rel that "2.prems"(2) by auto
  then have ids: "map (\<lambda>i. req_id (byd i)) new = new" by (simp add: map_idI)
  have whole: "release (\<lambda>r. r) (tgt (req_id item)) d (map req_id ready) = (d1, map req_id ready @ new)"
    using release_append [of "tgt (req_id item)" d "map req_id ready" "[]"] rel by simp
  have "requirement_loop byd tgt d1 (ready @ map byd new) (out @ [item]) = (d', out')"
    using "2.prems"(1) rel by simp
  note IH = "2.IH" [OF rel [symmetric] this "2.prems"(2)]
  have step: "fifo_loop tgt d (map req_id (item # ready)) (map req_id out) =
      fifo_loop tgt d1 (map req_id (ready @ map byd new)) (map req_id (out @ [item]))"
    using whole ids by (simp add: comp_def)
  have "\<forall>x \<in> set (map byd new). byd (req_id x) = x" using new by auto
  then have "(\<forall>x \<in> set ((item # ready) @ out). byd (req_id x) = x) \<longrightarrow>
      (\<forall>x \<in> set ((ready @ map byd new) @ out @ [item]). byd (req_id x) = x)"
    by (simp only: set_append set_simps ball_Un ball_simps) blast
  then show ?case unfolding step using IH by blast
qed simp

interpretation dep: kahn "iterate ord" "\<lambda>r. r" fifo_loop for ord
  by unfold_locales (simp_all add: iterate_def)

text \<open>What the compiled order is, and what the counts left behind are.\<close>

lemma dependency_loop:
  assumes ok: "reqs_ok reqs" and reg: "all_registered reqs"
    and es: "es = map pair_edge (requires_pairs reqs)"
    and loop: "requirement_loop (\<lambda>i. the (map_of (by_dependency reqs) i)) (iterate order es)
       (map (\<lambda>i. (i, in_count es i)) (map req_id reqs)) ready [] = (d', out)"
    and ready: "mset ready = mset (filter (\<lambda>r. in_count es (req_id r) = 0) reqs)"
  shows "graph_ok (map req_id reqs) es" "kahn_inv (map req_id reqs) es d' [] (map req_id out)"
    "length out = length reqs \<longleftrightarrow> acyclic (dep_edges reqs)"
    "\<forall>r \<in> set out. r \<in> set reqs"
proof -
  let ?ids = "map req_id reqs"
  have dist: "distinct ?ids" using ok by (simp add: reqs_ok_def)
  have set_es: "set es = dep_edges reqs" using set_requires_pairs es by simp
  show g: "graph_ok ?ids es"
    using dist distinct_pairs [OF ok] reg set_es
    by (auto simp: graph_ok_def es [symmetric] all_registered_def dep_edges_def)
  have recover: "the (map_of (by_dependency reqs) (req_id r)) = r" if "r \<in> set reqs" for r
    using by_dependency_in [OF dist that] by simp
  have tgt: "\<forall>a. \<forall>i \<in> set (iterate order es a). req_id (the (map_of (by_dependency reqs) i)) = i"
  proof clarify
    fix a i assume "i \<in> set (iterate order es a)"
    then have "i \<in> req_id ` set reqs"
      using dep.set_tgt [of i order es a] graph_okD(3) [OF g] by auto
    then show "req_id (the (map_of (by_dependency reqs) i)) = i" using recover by auto
  qed
  have members: "set ready \<subseteq> set reqs" using mset_eq_setD [OF ready] by auto
  have fifo: "fifo_loop (iterate order es) (map (\<lambda>i. (i, in_count es i)) ?ids) (map req_id ready) [] =
      (d', map req_id out)"
    using requirement_loop_fifo [OF loop tgt] by simp
  have start: "kahn_inv ?ids es (map (\<lambda>i. (i, in_count es i)) ?ids) (map req_id ready) []"
  proof (rule dep.inv_start [OF g])
    have "mset (map req_id ready) = mset (map req_id (filter (\<lambda>r. in_count es (req_id r) = 0) reqs))"
      using ready by (metis mset_map)
    then show "mset (map req_id ready) = mset (filter (\<lambda>i. in_count es i = 0) ?ids)"
      by (simp add: filter_map comp_def)
  qed
  show inv: "kahn_inv ?ids es d' [] (map req_id out)"
    using dep.loop_result [OF g start, where ord = order] fifo by simp
  show "length out = length reqs \<longleftrightarrow> acyclic (dep_edges reqs)"
    using dep.loop_total_iff [OF g start fifo] set_es by simp
  have fixed: "\<forall>x \<in> set out. the (map_of (by_dependency reqs) (req_id x)) = x"
  proof -
    have "\<forall>x \<in> set (ready @ []). the (map_of (by_dependency reqs) (req_id x)) = x"
      using members recover by auto
    then show ?thesis using requirement_loop_fifo [OF loop tgt] by blast
  qed
  show "\<forall>r \<in> set out. r \<in> set reqs"
  proof
    fix r assume r: "r \<in> set out"
    then have "req_id r \<in> req_id ` set reqs" using inv by (auto simp: kahn_inv_def)
    then obtain x where "x \<in> set reqs" "req_id x = req_id r" by auto
    then show "r \<in> set reqs" using recover fixed r by metis
  qed
qed

lemma sorted_ready:
  "mset (sort_key f (filter (\<lambda>r. map_of (map (\<lambda>i. (i, c i)) (map req_id reqs)) (req_id r) = Some 0) reqs))
     = mset (filter (\<lambda>r. c (req_id r) = 0) reqs)"
proof -
  have "filter (\<lambda>r. map_of (map (\<lambda>i. (i, c i)) (map req_id reqs)) (req_id r) = Some 0) reqs =
      filter (\<lambda>r. c (req_id r) = 0) reqs"
  proof (rule filter_cong [OF refl])
    fix r assume r: "r \<in> set reqs"
    have "map_of (map (\<lambda>i. (i, c i)) js) i = (if i \<in> set js then Some (c i) else None)" for js i
      by (induction js) auto
    then show "(map_of (map (\<lambda>i. (i, c i)) (map req_id reqs)) (req_id r) = Some 0) = (c (req_id r) = 0)"
      using r by (simp only: list.set_map image_eqI) simp
  qed
  then show ?thesis by simp
qed

lemma ordered_sound:
  assumes "compile_dependency_order order reqs = Inr out" and ok: "reqs_ok reqs"
  shows "mset out = mset reqs"
    and "\<forall>r \<in> set reqs. \<forall>d \<in> set (req_requires r). before (map req_id out) (dep_id d) (req_id r)"
proof -
  let ?es = "map pair_edge (requires_pairs reqs)"
  obtain d' where reg: "all_registered reqs"
    and loop: "requirement_loop (\<lambda>i. the (map_of (by_dependency reqs) i)) (iterate order ?es)
       (map (\<lambda>i. (i, in_count ?es i)) (map req_id reqs))
       (sort_key (\<lambda>r. dep_name (req_dep r)) (filter (\<lambda>r. map_of (map (\<lambda>i. (i, in_count ?es i))
          (map req_id reqs)) (req_id r) = Some 0) reqs)) [] = (d', out)"
    and len: "length out = length reqs"
    using assms(1)
    by (auto simp: compile_dependency_order_def bindE_Inr_iff requires_edges_eq [OF ok]
        split: prod.splits if_splits list.splits)
  note l = dependency_loop [OF ok reg refl loop sorted_ready]
  note sound = dep.taken_sound [OF l(1,2)]
  have ids: "mset (map req_id out) = mset (map req_id reqs)" using sound(1) len by simp
  then have "distinct (map req_id out)"
    using ok mset_eq_imp_distinct_iff [OF ids] by (simp add: reqs_ok_def)
  then have "distinct out" by (simp add: distinct_map)
  moreover have "distinct reqs" using ok by (simp add: reqs_ok_def distinct_map)
  moreover have "set out = set reqs"
  proof (rule card_subset_eq)
    show "set out \<subseteq> set reqs" using l(4) by blast
    show "card (set out) = card (set reqs)"
      using len \<open>distinct out\<close> \<open>distinct reqs\<close> by (simp add: distinct_card)
  qed simp
  ultimately show "mset out = mset reqs" by (simp add: set_eq_iff_mset_eq_distinct)
  have "before (map req_id out) (dep_id d) (req_id r)"
    if "r \<in> set reqs" "d \<in> set (req_requires r)" for r d
  proof -
    have "(dep_id d, req_id r) \<in> set ?es"
      using that set_requires_pairs [of reqs] by (auto simp: dep_edges_def)
    then show ?thesis using sound(2) len by auto
  qed
  then show "\<forall>r \<in> set reqs. \<forall>d \<in> set (req_requires r). before (map req_id out) (dep_id d) (req_id r)"
    by blast
qed

lemma ordered_members:
  "compile_dependency_order order reqs = Inr out \<Longrightarrow> reqs_ok reqs \<Longrightarrow> set out = set reqs"
  by (rule mset_eq_setD [OF ordered_sound(1)])

text \<open>
  The resolution order holds every requirement once, after all the dependencies it requires.
\<close>

lemma compile_dependency_order_topological:
  assumes "compile_dependency_order order reqs = Inr out" and ok: "reqs_ok reqs"
  shows "mset out = mset reqs \<and>
    (\<forall>r \<in> set reqs. \<forall>d \<in> set (req_requires r). before (map req_id out) (dep_id d) (req_id r))"
  using ordered_sound [OF assms] by blast

text \<open>
  With one requirement per dependency and no dependency named twice, an order exists exactly
  when every required dependency is declared and none depends on itself through others; otherwise
  the caller gets a \<open>GraphError\<close>.
\<close>

lemma compile_dependency_order_total:
  assumes ok: "reqs_ok reqs"
  shows "(if all_registered reqs \<and> acyclic (dep_edges reqs)
          then \<exists>out. compile_dependency_order order reqs = Inr out
          else \<exists>msg. compile_dependency_order order reqs = Inl (GraphError msg))"
proof (cases "all_registered reqs")
  case False
  then have none: "requires_edges reqs \<noteq> Inr st" for st
    using requires_edges_eq [OF ok] by blast
  then obtain e where e: "requires_edges reqs = Inl e" by (cases "requires_edges reqs") auto
  have "\<exists>msg. e = GraphError msg"
  proof -
    have step: "foldE (requires_step reqs r) st ds = Inl e \<Longrightarrow> \<exists>msg. e = GraphError msg" for r st ds e
      by (induction ds arbitrary: st) (auto simp: requires_step_def split: if_splits)
    have "foldE (\<lambda>st r. foldE (requires_step reqs r) st (req_requires r)) st rs = Inl e \<Longrightarrow>
        \<exists>msg. e = GraphError msg" for st rs
      by (induction rs arbitrary: st) (auto simp: bindE_Inl_iff intro: step)
    then show ?thesis using e by (simp add: requires_edges_def)
  qed
  then show ?thesis using False e by (auto simp: compile_dependency_order_def)
next
  case True
  let ?es = "map pair_edge (requires_pairs reqs)"
  let ?d = "map (\<lambda>i. (i, in_count ?es i)) (map req_id reqs)"
  obtain d' out where loop: "requirement_loop (\<lambda>i. the (map_of (by_dependency reqs) i))
       (iterate order ?es) ?d
       (sort_key (\<lambda>r. dep_name (req_dep r)) (filter (\<lambda>r. map_of ?d (req_id r) = Some 0) reqs)) [] = (d', out)"
    by fastforce
  note l = dependency_loop [OF ok True refl loop sorted_ready]
  have edges: "requires_edges reqs = Inr (?es, ?d)"
    using requires_edges_eq [OF ok] True by blast
  show ?thesis
  proof (cases "acyclic (dep_edges reqs)")
    case True
    then show ?thesis
      using l(3) loop edges \<open>all_registered reqs\<close>
      by (simp add: compile_dependency_order_def)
  next
    case False
    then have len: "length out \<noteq> length reqs" using l(3) by simp
    have "length (map req_id out) \<noteq> length (map req_id reqs)" using len by simp
    then obtain n where "n \<in> set (map req_id reqs)" "map_of d' n \<noteq> Some 0"
      using dep.pending_count [OF l(1,2)] by blast
    then have "filter (\<lambda>r. map_of d' (req_id r) \<noteq> Some 0) reqs \<noteq> []"
      by (auto simp: filter_empty_conv)
    then show ?thesis
      using False len loop edges
      by (auto simp: compile_dependency_order_def split: list.splits)
  qed
qed

section \<open>Resolution: caches and order\<close>

lemma before_hd:
  assumes "distinct (x # xs)"
  shows "\<not> before (x # xs) a x"
proof
  assume "before (x # xs) a x"
  then obtain us vs where uv: "x # xs = us @ x # vs" "a \<in> set us" by (auto simp: before_def)
  then obtain us' where "xs = us' @ x # vs" by (cases us) auto
  then show False using assms by simp
qed

definition caching :: "'w requirement \<Rightarrow> bool" where
  "caching r \<longleftrightarrow> dep_cache (req_dep r) \<noteq> CACHE_NONE"

lemma cached_store:
  "cached (cache_store p i v c) d =
     (if p = dep_cache d \<and> i = dep_id d \<and> p \<noteq> CACHE_NONE then Some v else cached c d)"
  by (cases p; cases "dep_cache d") (simp_all add: cached_def)

text \<open>A cached value stays: only an uncached dependency is stored.\<close>

lemma resolve_one_keeps:
  assumes "cached (res_caches st) d = Some v"
  shows "cached (res_caches (snd (resolve_one attr reg ctx st r))) d = Some v"
proof (cases "cached (res_caches st) (req_dep r)")
  case None
  then have "\<not> (dep_cache (req_dep r) = dep_cache d \<and> req_id r = dep_id d)"
    using assms by (auto simp: cached_def)
  then show ?thesis
    using None assms
    by (auto simp: resolve_one_def provided_def bind_resolved_def cached_store
        split: option.split provider.split provider_outcome.split sum.split prod.split)
next
  case (Some w)
  then show ?thesis using assms by (simp add: resolve_one_def bind_resolved_def)
qed

lemma resolve_loop_keeps:
  "cached (res_caches st) d = Some v \<Longrightarrow>
     cached (res_caches (snd (resolve_loop attr reg ctx st rs))) d = Some v"
proof (induction rs arbitrary: st)
  case (Cons r rs)
  obtain res st1 where one: "resolve_one attr reg ctx st r = (res, st1)" by fastforce
  then have st1: "cached (res_caches st1) d = Some v"
    using resolve_one_keeps [OF Cons.prems, of attr reg ctx r] by simp
  show ?case
  proof (cases res)
    case (Inr ops)
    then have "snd (resolve_loop attr reg ctx st (r # rs)) = snd (resolve_loop attr reg ctx st1 rs)"
      using one by (simp split: prod.split sum.split)
    then show ?thesis using Cons.IH [OF st1] by simp
  qed (use one st1 in simp)
qed simp

text \<open>A required, cached requirement that resolves leaves its value in its cache.\<close>

definition resolved_as :: "(pyval \<Rightarrow> string \<Rightarrow> pyval option) \<Rightarrow> caches \<Rightarrow> 'w requirement \<Rightarrow> patch_op list \<Rightarrow> bool" where
  "resolved_as attr c r ops \<longleftrightarrow>
     (\<exists>v. cached c (req_dep r) = Some v \<and> mapE (operation_for attr v) (req_bindings r) = Inr ops)"

lemma resolve_one_resolved:
  assumes "resolve_one attr reg ctx st r = (Inr ops, st')" and "req_required r" and "caching r"
  shows "resolved_as attr (res_caches st') r ops"
  using assms
  by (auto simp: resolve_one_def provided_def bind_resolved_def cached_store resolved_as_def caching_def
      split: option.splits provider.splits provider_outcome.splits sum.splits prod.splits)

lemma resolve_loop_resolved:
  "resolve_loop attr reg ctx st rs = (Inr ops, st') \<Longrightarrow> \<forall>r \<in> set rs. req_required r \<and> caching r \<Longrightarrow>
     \<exists>opss. list_all2 (resolved_as attr (res_caches st')) rs opss \<and> ops = concat opss"
proof (induction rs arbitrary: st ops)
  case Nil
  then show ?case by simp
next
  case (Cons r rs)
  then obtain o1 st1 ops' where one: "resolve_one attr reg ctx st r = (Inr o1, st1)"
    and rest: "resolve_loop attr reg ctx st1 rs = (Inr ops', st')" and ops: "ops = o1 @ ops'"
    by (auto split: prod.splits sum.splits)
  obtain opss where opss: "list_all2 (resolved_as attr (res_caches st')) rs opss" "ops' = concat opss"
    using Cons.IH [OF rest] Cons.prems(2) by auto
  have "resolved_as attr (res_caches st1) r o1"
    using resolve_one_resolved [OF one] Cons.prems(2) by simp
  then have "resolved_as attr (res_caches st') r o1"
    using resolve_loop_keeps [of st1 _ _ attr reg ctx rs] rest by (auto simp: resolved_as_def)
  then have "list_all2 (resolved_as attr (res_caches st')) (r # rs) (o1 # opss)" using opss(1) by simp
  then show ?case using ops opss(2) by (metis concat.simps(2))
qed

lemma resolve_loop_caches:
  "resolve_loop attr reg ctx st rs = (Inr ops, st') \<Longrightarrow>
     \<forall>r \<in> set rs. req_required r \<and> caching r \<longrightarrow> cached (res_caches st') (req_dep r) \<noteq> None"
proof (induction rs arbitrary: st ops)
  case (Cons r rs)
  then obtain o1 st1 ops' where one: "resolve_one attr reg ctx st r = (Inr o1, st1)"
    and rest: "resolve_loop attr reg ctx st1 rs = (Inr ops', st')"
    by (auto split: prod.splits sum.splits)
  have "cached (res_caches st') (req_dep r) \<noteq> None" if "req_required r" "caching r"
    using resolve_one_resolved [OF one that] resolve_loop_keeps [of st1 _ _ attr reg ctx rs] rest
    by (auto simp: resolved_as_def)
  then show ?case using Cons.IH [OF rest] by simp
qed simp

lemma resolve_loop_cached:
  "list_all2 (resolved_as attr c) rs opss \<Longrightarrow> res_caches st = c \<Longrightarrow>
     \<exists>st'. resolve_loop attr reg ctx st rs = (Inr (concat opss), st') \<and>
       res_caches st' = c \<and> res_world st' = res_world st"
proof (induction rs opss arbitrary: st rule: list_all2_induct)
  case (Cons r rs ops opss)
  obtain st1 where one: "resolve_one attr reg ctx st r = (Inr ops, st1)"
    "res_caches st1 = c" "res_world st1 = res_world st"
    using Cons.hyps(1) Cons.prems
    by (auto simp: resolve_one_def resolved_as_def bind_resolved_def)
  then show ?case using Cons.IH [of st1] by auto
qed simp

text \<open>A requirement whose dependency is cached, with any other provider in place of its own.\<close>

definition instead :: "caches \<Rightarrow> 'w provider \<Rightarrow> 'w requirement \<Rightarrow> 'w requirement" where
  "instead c p r = (if cached c (req_dep r) = None then r else r\<lparr>req_provider := Some p\<rparr>)"

lemma resolve_one_instead:
  assumes "\<And>d v. cached c d = Some v \<Longrightarrow> cached (res_caches st) d = Some v"
  shows "resolve_one attr reg ctx st (instead c p r) = resolve_one attr reg ctx st r"
proof (cases "cached c (req_dep r)")
  case (Some v)
  then show ?thesis using assms [OF Some] by (simp add: instead_def resolve_one_def bind_resolved_def)
qed (simp add: instead_def)

lemma resolve_loop_instead:
  "(\<And>d v. cached c d = Some v \<Longrightarrow> cached (res_caches st) d = Some v) \<Longrightarrow>
     resolve_loop attr reg ctx st (map (instead c p) rs) = resolve_loop attr reg ctx st rs"
proof (induction rs arbitrary: st)
  case (Cons r rs)
  obtain res st1 where one: "resolve_one attr reg ctx st r = (res, st1)" by fastforce
  have "cached (res_caches st1) d = Some v" if "cached c d = Some v" for d v
    using resolve_one_keeps [OF Cons.prems [OF that], of attr reg ctx r] one by simp
  then have "resolve_loop attr reg ctx st1 (map (instead c p) rs) = resolve_loop attr reg ctx st1 rs" by (rule Cons.IH)
  moreover have "resolve_one attr reg ctx st (instead c p r) = (res, st1)"
    using resolve_one_instead [of c st attr reg ctx p r] Cons.prems one by simp
  ultimately show ?case using one by (simp split: sum.split)
qed simp

text \<open>
  C2. A cached dependency is resolved once. A successful resolution leaves a value in the cache for every
  dependency that is required and has a cache; and with the caches it left behind, whatever the registry
  holds by then and whatever the other requirements are, resolving again never calls the provider of a
  dependency with a cached value: any other provider in its place gives the same. When all requirements
  are required and cached, the second resolution calls nothing and returns the same patch.
\<close>

theorem resolve_requirements_cached:
  assumes "resolve_requirements attr order reqs reg ctx st = (Inr ops, st')"
    and "compile_dependency_order order reqs = Inr ordered" and "reqs_ok reqs"
    and "res_caches st2 = res_caches st'"
  shows "(\<forall>r \<in> set reqs. req_required r \<and> caching r \<longrightarrow> cached (res_caches st') (req_dep r) \<noteq> None) \<and>
    (\<forall>p. resolve_loop attr reg2 ctx2 st2 (map (instead (res_caches st') p) ordered) =
       resolve_requirements attr order reqs reg2 ctx2 st2) \<and>
    ((\<forall>r \<in> set reqs. req_required r \<and> caching r) \<longrightarrow>
      (\<exists>st3. resolve_requirements attr order reqs reg2 ctx2 st2 = (Inr ops, st3) \<and>
        res_caches st3 = res_caches st' \<and> res_world st3 = res_world st2))"
proof (intro conjI)
  have loop: "resolve_loop attr reg ctx st ordered = (Inr ops, st')"
    using assms(1,2) by (simp add: resolve_requirements_def)
  show "\<forall>r \<in> set reqs. req_required r \<and> caching r \<longrightarrow> cached (res_caches st') (req_dep r) \<noteq> None"
    using resolve_loop_caches [OF loop] ordered_members [OF assms(2,3)] by simp
  show "\<forall>p. resolve_loop attr reg2 ctx2 st2 (map (instead (res_caches st') p) ordered) =
       resolve_requirements attr order reqs reg2 ctx2 st2"
    using resolve_loop_instead [of "res_caches st'" st2] assms(2,4) by (simp add: resolve_requirements_def)
  show "(\<forall>r \<in> set reqs. req_required r \<and> caching r) \<longrightarrow>
      (\<exists>st3. resolve_requirements attr order reqs reg2 ctx2 st2 = (Inr ops, st3) \<and>
        res_caches st3 = res_caches st' \<and> res_world st3 = res_world st2)"
  proof
    assume "\<forall>r \<in> set reqs. req_required r \<and> caching r"
    then have "\<forall>r \<in> set ordered. req_required r \<and> caching r"
      using ordered_members [OF assms(2,3)] by simp
    then obtain opss where "list_all2 (resolved_as attr (res_caches st')) ordered opss" "ops = concat opss"
      using resolve_loop_resolved [OF loop] by blast
    then show "\<exists>st3. resolve_requirements attr order reqs reg2 ctx2 st2 = (Inr ops, st3) \<and>
        res_caches st3 = res_caches st' \<and> res_world st3 = res_world st2"
      using resolve_loop_cached [of attr "res_caches st'" ordered opss st2 reg2 ctx2] assms(4,2)
      by (auto simp: resolve_requirements_def)
  qed
qed

section \<open>Providers see what they require\<close>

definition effective_provider :: "'w registry \<Rightarrow> 'w requirement \<Rightarrow> 'w provider option" where
  "effective_provider reg r =
     (case req_provider r of None \<Rightarrow> registered (req_dep r) reg | Some p \<Rightarrow> Some p)"

text \<open>A provider that raises when one of the dependencies its requirement names has no value yet.\<close>

fun demanding :: "nat list \<Rightarrow> 'w provider \<Rightarrow> 'w provider" where
  "demanding ids (Provider f) = Provider (\<lambda>ctx w.
     if \<forall>i \<in> set ids. map_of (ctx_resolved ctx) i \<noteq> None then f ctx w
     else (ProviderRaised (PyError ''KeyError''), w))"
| "demanding ids NoResolveMethod = NoResolveMethod"

definition demanding_requirement :: "'w registry \<Rightarrow> 'w requirement \<Rightarrow> 'w requirement" where
  "demanding_requirement reg r =
     r\<lparr>req_provider := map_option (demanding (map dep_id (req_requires r))) (effective_provider reg r)\<rparr>"

lemma resolve_one_demanding:
  assumes "\<forall>d \<in> set (req_requires r). map_of (res_resolved st) (dep_id d) \<noteq> None"
  shows "resolve_one attr reg ctx st (demanding_requirement reg r) = resolve_one attr reg ctx st r"
proof -
  have "demanding_requirement reg r = r\<lparr>req_provider := req_provider (demanding_requirement reg r)\<rparr>"
    by (simp add: demanding_requirement_def)
  have same: "bind_resolved attr (demanding_requirement reg r) = bind_resolved attr r"
    "provided attr (demanding_requirement reg r) = provided attr r"
    by (auto simp: fun_eq_iff bind_resolved_def provided_def demanding_requirement_def
        split: provider_outcome.split sum.split)
  show ?thesis
  proof (cases "cached (res_caches st) (req_dep r)")
    case (Some v)
    then show ?thesis by (simp add: resolve_one_def bind_resolved_def demanding_requirement_def)
  next
    case None
    show ?thesis
    proof (cases "effective_provider reg r")
      case None': None
      then have "req_provider r = None" "registered (req_dep r) reg = None"
        by (auto simp: effective_provider_def split: option.splits)
      then show ?thesis using None None'
        by (simp add: resolve_one_def demanding_requirement_def)
    next
      case (Some p)
      have eff: "(case req_provider r of None \<Rightarrow> registered (req_dep r) reg | Some p \<Rightarrow> Some p) = Some p"
        using Some by (simp add: effective_provider_def)
      have dem: "(case req_provider (demanding_requirement reg r) of
           None \<Rightarrow> registered (req_dep (demanding_requirement reg r)) reg | Some p \<Rightarrow> Some p)
         = Some (demanding (map dep_id (req_requires r)) p)"
        using Some by (simp add: demanding_requirement_def)
      show ?thesis
        using assms None unfolding resolve_one_def same eff dem
        by (cases p) (simp_all add: demanding_requirement_def)
    qed
  qed
qed

lemma resolve_one_resolves:
  assumes "resolve_one attr reg ctx st r = (Inr ops, st')" and "req_required r"
  shows "map_of (res_resolved st') (req_id r) \<noteq> None"
    and "map_of (res_resolved st) i \<noteq> None \<Longrightarrow> map_of (res_resolved st') i \<noteq> None"
  using assms
  by (auto simp: resolve_one_def provided_def bind_resolved_def
      split: option.splits provider.splits provider_outcome.splits sum.splits prod.splits)

lemma resolve_loop_demanding:
  "(\<And>r d. r \<in> set rs \<Longrightarrow> d \<in> set (req_requires r) \<Longrightarrow>
      map_of (res_resolved st) (dep_id d) \<noteq> None \<or> before (map req_id rs) (dep_id d) (req_id r)) \<Longrightarrow>
   distinct (map req_id rs) \<Longrightarrow> \<forall>r \<in> set rs. req_required r \<Longrightarrow>
   resolve_loop attr reg ctx st (map (demanding_requirement reg) rs) = resolve_loop attr reg ctx st rs"
proof (induction rs arbitrary: st)
  case (Cons r rs)
  have first: "map_of (res_resolved st) (dep_id d) \<noteq> None" if "d \<in> set (req_requires r)" for d
  proof -
    have "\<not> before (map req_id (r # rs)) (dep_id d) (req_id r)"
      using before_hd [of "req_id r" "map req_id rs"] Cons.prems(2) by simp
    then show ?thesis using Cons.prems(1) [of r d] that by simp
  qed
  have one: "resolve_one attr reg ctx st (demanding_requirement reg r) = resolve_one attr reg ctx st r"
    using first by (intro resolve_one_demanding) blast
  have rest: "resolve_loop attr reg ctx st1 (map (demanding_requirement reg) rs) =
      resolve_loop attr reg ctx st1 rs"
    if st1: "resolve_one attr reg ctx st r = (Inr ops, st1)" for ops st1
  proof (rule Cons.IH)
    fix x d assume x: "x \<in> set rs" "d \<in> set (req_requires x)"
    have req: "req_required r" using Cons.prems(3) by simp
    consider "map_of (res_resolved st) (dep_id d) \<noteq> None"
      | "before (map req_id (r # rs)) (dep_id d) (req_id x)"
      using Cons.prems(1) [of x d] x by auto
    then show "map_of (res_resolved st1) (dep_id d) \<noteq> None \<or> before (map req_id rs) (dep_id d) (req_id x)"
    proof cases
      case 1
      then show ?thesis using resolve_one_resolves(2) [OF st1 req] by blast
    next
      case 2
      then obtain us vs where uv: "map req_id (r # rs) = us @ req_id x # vs" "dep_id d \<in> set us"
        by (auto simp: before_def)
      then obtain us' where us': "us = req_id r # us'" "map req_id rs = us' @ req_id x # vs"
        by (cases us) auto
      show ?thesis
      proof (cases "dep_id d = req_id r")
        case True
        then show ?thesis using resolve_one_resolves(1) [OF st1 req] by simp
      next
        case False
        then have "dep_id d \<in> set us'" using uv(2) us'(1) by simp
        then show ?thesis using us'(2) by (auto simp: before_def)
      qed
    qed
  qed (use Cons.prems in auto)
  show ?case
    using rest by (simp add: one split: prod.split sum.split)
qed simp

text \<open>
  A provider is called with a value for every dependency its requirement names: providers
  that would fail without one resolve exactly the same.
\<close>

lemma providers_see_requirements:
  assumes "compile_dependency_order order reqs = Inr ordered" and "reqs_ok reqs"
    and "\<forall>r \<in> set reqs. req_required r"
  shows "resolve_loop attr reg ctx st (map (demanding_requirement reg) ordered) =
    resolve_loop attr reg ctx st ordered"
proof (rule resolve_loop_demanding)
  note sound = ordered_sound [OF assms(1,2)]
  have members: "set ordered = set reqs" by (rule ordered_members [OF assms(1,2)])
  show "map_of (res_resolved st) (dep_id d) \<noteq> None \<or> before (map req_id ordered) (dep_id d) (req_id r)"
    if "r \<in> set ordered" "d \<in> set (req_requires r)" for r d
    using that sound(2) members by blast
  have "mset (map req_id ordered) = mset (map req_id reqs)" using sound(1) by simp
  then show "distinct (map req_id ordered)"
    using mset_eq_imp_distinct_iff assms(2) unfolding reqs_ok_def by blast
  show "\<forall>r \<in> set ordered. req_required r" using assms(3) members by simp
qed

section \<open>A concrete set of requirements\<close>

definition token_dep :: dependency where
  "token_dep = typed_dependency 1 ''token'' StrAnn CACHE_CALL True"

definition signature_dep :: dependency where
  "signature_dep = typed_dependency 2 ''signature'' StrAnn CACHE_ATTEMPT False"

text \<open>The world counts the calls of the providers.\<close>

definition token_req :: "nat requirement" where
  "token_req = \<lparr>req_dep = token_dep, req_required = True, req_bindings = [], req_requires = [],
     req_provider = Some (Provider (\<lambda>ctx w. (Provided (PStr ''t''), Suc w)))\<rparr>"

definition signature_req :: "nat requirement" where
  "signature_req = \<lparr>req_dep = signature_dep, req_required = True,
     req_bindings = [\<lparr>rb_select = IdentitySelector, rb_target = page_slot\<lparr>slot_validator := python_type_validator StrAnn\<rparr>,
                      rb_operation = BIND_SET, rb_conflict = CONFLICT_ERROR\<rparr>],
     req_requires = [token_dep],
     req_provider = Some (Provider (\<lambda>ctx w. (Provided (the (map_of (ctx_resolved ctx) 1)), Suc w)))\<rparr>"

definition sample_reqs :: "nat requirement list" where
  "sample_reqs = [signature_req, token_req]"

definition no_caches :: caches where
  "no_caches = \<lparr>cache_client = [], cache_call = [], cache_attempt = []\<rparr>"

definition sample_context :: dep_context where
  "sample_context = \<lparr>ctx_operation = ''op'', ctx_attempt = 1, ctx_resolved = [], ctx_base_url = [],
     ctx_services = []\<rparr>"

definition sample_start :: "nat resolution" where
  "sample_start = \<lparr>res_caches = no_caches, res_resolved = [], res_world = 0\<rparr>"

abbreviation no_attr :: "pyval \<Rightarrow> string \<Rightarrow> pyval option" where
  "no_attr \<equiv> \<lambda>_ _. None"

abbreviation any_order :: "nat \<Rightarrow> nat \<Rightarrow> nat" where
  "any_order \<equiv> \<lambda>_ _. 0"

lemmas sample_defs = sample_reqs_def signature_req_def token_req_def token_dep_def
  signature_dep_def typed_dependency_def

lemma sample_ok: "reqs_ok sample_reqs" "\<forall>r \<in> set sample_reqs. req_required r \<and> caching r"
  by (simp_all add: reqs_ok_def caching_def sample_defs)

lemma sample_order:
  "map_sum id (map req_id) (compile_dependency_order any_order sample_reqs) = Inr [1, 2]"
  by code_simp

lemma sample_order_Inr: "\<exists>out. compile_dependency_order any_order sample_reqs = Inr out"
  using sample_order by (cases "compile_dependency_order any_order sample_reqs") auto

lemma sample_resolution:
  "(case resolve_requirements no_attr any_order sample_reqs [] sample_context sample_start of
      (r, st) \<Rightarrow> (map_sum id length r, res_world st, cached (res_caches st) token_dep)) =
    (Inr 1, 2, Some (PStr ''t''))"
  by code_simp

lemma compile_dependency_order_topological_witness:
  "\<exists>out. compile_dependency_order any_order sample_reqs = Inr out \<and> mset out = mset sample_reqs \<and>
     before (map req_id out) 1 2"
proof -
  obtain out where out: "compile_dependency_order any_order sample_reqs = Inr out"
    using sample_order_Inr by blast
  show ?thesis
    using compile_dependency_order_topological [OF out sample_ok(1)] out by (auto simp: sample_defs)
qed

lemma compile_dependency_order_total_witness:
  "acyclic (dep_edges sample_reqs) \<and> (\<exists>out. compile_dependency_order any_order sample_reqs = Inr out)"
proof -
  have "dep_edges sample_reqs \<subseteq> measure id" by (auto simp: dep_edges_def sample_defs)
  then have "acyclic (dep_edges sample_reqs)" using wf_acyclic wf_subset wf_measure by metis
  moreover have "all_registered sample_reqs" by (simp add: all_registered_def sample_defs)
  ultimately show ?thesis
    using compile_dependency_order_total [OF sample_ok(1), of any_order] by simp
qed

text \<open>The second resolution has a provider for the token that would raise.\<close>

theorem resolve_requirements_cached_witness:
  "\<exists>ops st' out st3. resolve_requirements no_attr any_order sample_reqs [] sample_context sample_start = (Inr ops, st') \<and>
     compile_dependency_order any_order sample_reqs = Inr out \<and>
     resolve_loop no_attr [] sample_context (sample_start\<lparr>res_caches := res_caches st', res_world := 7\<rparr>)
       (map (instead (res_caches st') NoResolveMethod) out) = (Inr ops, st3) \<and> res_world st3 = 7"
proof -
  obtain r st' where res: "resolve_requirements no_attr any_order sample_reqs [] sample_context sample_start = (r, st')"
    by fastforce
  then obtain ops where "r = Inr ops" using sample_resolution by (cases r) auto
  note res = res [unfolded this]
  obtain out where out: "compile_dependency_order any_order sample_reqs = Inr out" using sample_order_Inr by blast
  show ?thesis
    using resolve_requirements_cached [OF res out sample_ok(1),
        of "sample_start\<lparr>res_caches := res_caches st', res_world := 7\<rparr>" "[]" sample_context] res out sample_ok(2) by auto
qed

lemma providers_see_requirements_witness:
  "\<exists>out. compile_dependency_order any_order sample_reqs = Inr out \<and>
     resolve_loop no_attr [] sample_context sample_start (map (demanding_requirement []) out) =
     resolve_loop no_attr [] sample_context sample_start out"
proof -
  obtain out where out: "compile_dependency_order any_order sample_reqs = Inr out"
    using sample_order_Inr by blast
  have "\<forall>r \<in> set sample_reqs. req_required r" using sample_ok(2) by simp
  then show ?thesis using providers_see_requirements [OF out sample_ok(1)] out by blast
qed

text \<open>
  A requirement that names one dependency twice is counted twice and released once: an
  acyclic declaration is reported as a cycle from the requirement to itself.
\<close>

lemma doubled_requires_reported_as_cycle:
  "acyclic (dep_edges [token_req, signature_req\<lparr>req_requires := [token_dep, token_dep]\<rparr>]) \<and>
   compile_dependency_order any_order [token_req, signature_req\<lparr>req_requires := [token_dep, token_dep]\<rparr>] =
     Inl (GraphError ''dependency cycle: signature -> signature'')"
proof
  let ?reqs = "[token_req, signature_req\<lparr>req_requires := [token_dep, token_dep]\<rparr>]"
  have "dep_edges ?reqs \<subseteq> measure id" by (auto simp: dep_edges_def sample_defs)
  then show "acyclic (dep_edges ?reqs)" using wf_acyclic wf_subset wf_measure by metis
  have "map_sum id length (compile_dependency_order any_order ?reqs) =
      Inl (GraphError ''dependency cycle: signature -> signature'')"
    by code_simp
  then show "compile_dependency_order any_order ?reqs =
      Inl (GraphError ''dependency cycle: signature -> signature'')"
    by (cases "compile_dependency_order any_order ?reqs") auto
qed

end
