(* ===== verification/Cookies.thy ===== *)
theory Cookies
  imports Errors
begin

text \<open>
  The cookie jar (\<open>eazy_sdk/cookies.py\<close>): parsing \<open>Set-Cookie\<close> lines, the scope and expiry they
  state, storing, selecting, merging and evicting, and the primitive form of a cookie.

  Times are integers, microseconds since the epoch; \<open>now\<close> is what the clock of the jar returns
  for the operation. The parsers of the standard library (\<open>urlsplit\<close>, \<open>ip_address\<close>,
  \<open>parsedate_to_datetime\<close>) are the fields of \<open>parsers\<close>: nothing here depends on them beyond the
  values they return. Text is ASCII where the code changes its case.
\<close>

abbreviation dot :: "char \<Rightarrow> bool" where
  "dot c \<equiv> c = CHR ''.''"

section \<open>A stored cookie\<close>

type_synonym cookie_id = "string \<times> string \<times> string"

record stored_cookie =
  cookie_name :: string
  cookie_value :: string
  cookie_domain :: string
  cookie_path :: string
  host_only :: bool
  expires_at :: "int option"
  secure :: bool
  http_only :: bool
  same_site :: string

text \<open>\<open>StoredCookie.__post_init__\<close>; every time is timezone-aware here.\<close>

definition check_cookie :: "stored_cookie \<Rightarrow> sdk_error + stored_cookie" where
  "check_cookie c =
     (if cookie_name c = [] then Inl (PyValueError ''a stored cookie needs a name'')
      else if cookie_domain c = []
        then Inl (PyValueError (''cookie '' @ py_repr (cookie_name c) @ '' needs the host it belongs to''))
      else if hd (cookie_domain c) = CHR ''.''
        then Inl (PyValueError (''cookie '' @ py_repr (cookie_name c) @ '': domain '' @
          py_repr (cookie_domain c) @ '' is written without the leading dot; host_only=False is '' @
          ''what sends a cookie to subdomains''))
      else if cookie_domain c \<noteq> lower (cookie_domain c)
        then Inl (PyValueError (''cookie '' @ py_repr (cookie_name c) @ '': domain '' @
          py_repr (cookie_domain c) @ '' must be lowercase''))
      else if \<not> prefix ''/'' (cookie_path c)
        then Inl (PyValueError (''cookie '' @ py_repr (cookie_name c) @ '': path '' @
          py_repr (cookie_path c) @ '' must start with '' @ py_repr ''/''))
      else Inr c)"

definition cookie_key :: "stored_cookie \<Rightarrow> cookie_id" where
  "cookie_key c = (cookie_name c, cookie_domain c, cookie_path c)"

definition is_session :: "stored_cookie \<Rightarrow> bool" where
  "is_session c \<longleftrightarrow> expires_at c = None"

definition is_expired :: "stored_cookie \<Rightarrow> int \<Rightarrow> bool" where
  "is_expired c now = (case expires_at c of None \<Rightarrow> False | Some t \<Rightarrow> t \<le> now)"

section \<open>Addresses\<close>

record target =
  target_scheme :: string
  target_host :: string
  target_path :: string

text \<open>
  The library parsers: \<open>p_urlsplit\<close> gives the scheme, the host name when there is one and the path
  (\<open>None\<close> for a \<open>ValueError\<close>), \<open>p_is_ip\<close> says whether \<open>ip_address\<close> accepts a text, \<open>p_date\<close> is
  \<open>parsedate_to_datetime\<close> read as UTC when it names no zone (\<open>None\<close> for an error).
\<close>

record parsers =
  p_urlsplit :: "string \<Rightarrow> (string \<times> string option \<times> string) option"
  p_is_ip :: "string \<Rightarrow> bool"
  p_date :: "string \<Rightarrow> int option"

definition parse_target :: "parsers \<Rightarrow> string \<Rightarrow> target option" where
  "parse_target ps url =
     (case p_urlsplit ps url of
        None \<Rightarrow> None
      | Some (scheme, hostname, path) \<Rightarrow>
          (let host = rstrip_if dot (lower (case hostname of None \<Rightarrow> [] | Some h \<Rightarrow> h)) in
           if host = [] then None
           else Some \<lparr>target_scheme = lower scheme, target_host = host,
                      target_path = (if path = [] then ''/'' else path)\<rparr>))"

definition loopback_hosts :: "string list" where
  "loopback_hosts = [''localhost'', ''127.0.0.1'', ''::1'']"

definition target_secure :: "target \<Rightarrow> bool" where
  "target_secure t \<longleftrightarrow> target_scheme t = ''https'' \<or> target_host t \<in> set loopback_hosts"

definition domain_matches :: "parsers \<Rightarrow> string \<Rightarrow> string \<Rightarrow> bool" where
  "domain_matches ps host domain \<longleftrightarrow>
     host = domain \<or> suffix (''.'' @ domain) host \<and> \<not> p_is_ip ps host"

definition default_path :: "string \<Rightarrow> string" where
  "default_path p =
     (if \<not> prefix ''/'' p \<or> length (filter (\<lambda>c. c = CHR ''/'') p) = 1 then ''/''
      else rev (tl (dropWhile (\<lambda>c. c \<noteq> CHR ''/'') (rev p))))"

definition path_matches :: "string \<Rightarrow> string \<Rightarrow> bool" where
  "path_matches request_path cpath \<longleftrightarrow>
     (if request_path = cpath then True
      else if \<not> prefix cpath request_path then False
      else suffix ''/'' cpath \<or> request_path ! length cpath = CHR ''/'')"

section \<open>Reading a Set-Cookie line\<close>

text \<open>\<open>-?\d+\<close>, then \<open>int\<close>, which refuses more than 4300 digits.\<close>

definition is_digit :: "char \<Rightarrow> bool" where
  "is_digit c \<longleftrightarrow> 48 \<le> (of_char c :: nat) \<and> (of_char c :: nat) \<le> 57"

definition digits_value :: "string \<Rightarrow> int" where
  "digits_value ds = foldl (\<lambda>n c. 10 * n + (of_char c - 48)) 0 ds"

definition int_max_str_digits :: nat where
  "int_max_str_digits = 4300"

definition max_age_match :: "string \<Rightarrow> (bool \<times> string) option" where
  "max_age_match s =
     (let (neg, ds) = (case s of [] \<Rightarrow> (False, []) | c # cs \<Rightarrow> if c = CHR ''-'' then (True, cs) else (False, s)) in
      if ds \<noteq> [] \<and> list_all is_digit ds then Some (neg, ds) else None)"

definition py_int :: "bool \<times> string \<Rightarrow> sdk_error + int" where
  "py_int m =
     (if int_max_str_digits < length (snd m)
      then Inl (PyValueError ''Exceeds the limit (4300 digits) for integer string conversion'')
      else Inr (if fst m then - digits_value (snd m) else digits_value (snd m)))"

text \<open>\<open>datetime.max\<close> in microseconds; adding past it, or past \<open>timedelta.max\<close>, raises.\<close>

definition datetime_max :: int where
  "datetime_max = 253402300799999999"

definition add_seconds :: "int \<Rightarrow> int \<Rightarrow> sdk_error + int" where
  "add_seconds now seconds =
     (if datetime_max < now + seconds * 1000000 then Inl (PyError ''OverflowError'')
      else Inr (now + seconds * 1000000))"

definition expiry ::
  "parsers \<Rightarrow> (string, string) dict \<Rightarrow> int \<Rightarrow> sdk_error + int option \<times> bool" where
  "expiry ps attributes now =
     (case Option.bind (map_of attributes ''max-age'') max_age_match of
        Some m \<Rightarrow>
          bindE (py_int m) (\<lambda>seconds.
            if seconds \<le> 0 then Inr (Some now, True)
            else bindE (add_seconds now seconds) (\<lambda>moment. Inr (Some moment, False)))
      | None \<Rightarrow>
          (case map_of attributes ''expires'' of
             Some (c # cs) \<Rightarrow>
               (case p_date ps (c # cs) of
                  None \<Rightarrow> Inr (None, False)
                | Some moment \<Rightarrow> Inr (Some moment, moment \<le> now))
           | _ \<Rightarrow> Inr (None, False)))"

definition attribute_step :: "(string, string) dict \<Rightarrow> string \<Rightarrow> (string, string) dict" where
  "attribute_step attributes chunk =
     (case py_partition chunk ''='' of
        (key, _, item) \<Rightarrow>
          (let key = lower (strip key) in
           if key = [] then attributes else AList.update key (strip item) attributes))"

definition parse_line :: "string \<Rightarrow> (string \<times> string \<times> (string, string) dict) option" where
  "parse_line line =
     (case py_partition line '';'' of
        (pair, _, rest) \<Rightarrow>
          (case py_partition pair ''='' of
             (name, separator, val) \<Rightarrow>
               (if separator = [] \<or> strip name = [] then None
                else Some (strip name, strip val, foldl attribute_step [] (split_on (CHR '';'') rest)))))"

type_synonym public_suffixes = "(string \<Rightarrow> bool) option"

definition scope_of ::
  "parsers \<Rightarrow> string \<Rightarrow> string \<Rightarrow> public_suffixes \<Rightarrow> (string \<times> bool) option" where
  "scope_of ps host attribute psl =
     (let domain = rstrip_if dot (lower (lstrip_if dot (strip attribute))) in
      if domain = [] \<or> domain = host then Some (host, domain = [])
      else let is_suffix = (case psl of Some f \<Rightarrow> f domain | None \<Rightarrow> CHR ''.'' \<notin> set domain) in
        if is_suffix \<or> \<not> domain_matches ps host domain then None else Some (domain, False))"

section \<open>The jar\<close>

record jar =
  jar_cookies :: "(cookie_id, stored_cookie) dict"
  jar_used :: "(cookie_id, nat) dict"
  jar_tick :: nat

definition empty_jar :: jar where
  "empty_jar = \<lparr>jar_cookies = [], jar_used = [], jar_tick = 0\<rparr>"

definition touch :: "cookie_id \<Rightarrow> jar \<Rightarrow> jar" where
  "touch k j = (let t = Suc (jar_tick j) in j\<lparr>jar_tick := t, jar_used := AList.update k t (jar_used j)\<rparr>)"

definition pop_cookie :: "cookie_id \<Rightarrow> jar \<Rightarrow> jar" where
  "pop_cookie k j = j\<lparr>jar_cookies := AList.delete k (jar_cookies j), jar_used := AList.delete k (jar_used j)\<rparr>"

definition put_cookie :: "cookie_id \<Rightarrow> stored_cookie \<Rightarrow> jar \<Rightarrow> jar" where
  "put_cookie k c j = touch k (j\<lparr>jar_cookies := AList.update k c (jar_cookies j)\<rparr>)"

definition drop_expired :: "int \<Rightarrow> jar \<Rightarrow> jar" where
  "drop_expired now j =
     fold pop_cookie (map fst (filter (\<lambda>(k, c). is_expired c now) (jar_cookies j))) j"

definition last_used :: "jar \<Rightarrow> cookie_id \<Rightarrow> nat" where
  "last_used j k = (case map_of (jar_used j) k of None \<Rightarrow> 0 | Some t \<Rightarrow> t)"

definition drop_least_used :: "cookie_id list \<Rightarrow> int \<Rightarrow> jar \<Rightarrow> jar" where
  "drop_least_used ks excess j =
     (if excess \<le> 0 then j
      else fold pop_cookie (take (nat excess) (sort_key (last_used j) ks)) j)"

definition MAX_COOKIES_PER_DOMAIN :: int where "MAX_COOKIES_PER_DOMAIN = 50"

definition MAX_COOKIES :: int where "MAX_COOKIES = 3000"

definition by_domain :: "(cookie_id, stored_cookie) dict \<Rightarrow> (string, cookie_id list) dict" where
  "by_domain cookies =
     foldl (\<lambda>d (k, c). case map_of d (cookie_domain c) of
         None \<Rightarrow> AList.update (cookie_domain c) [k] d
       | Some ks \<Rightarrow> AList.update (cookie_domain c) (ks @ [k]) d) [] cookies"

definition evict :: "int \<Rightarrow> jar \<Rightarrow> jar" where
  "evict now j =
     (let j1 = drop_expired now j;
          j2 = foldl (\<lambda>j (_, ks). drop_least_used ks (int (length ks) - MAX_COOKIES_PER_DOMAIN) j)
                 j1 (by_domain (jar_cookies j1))
      in drop_least_used (keys (jar_cookies j2)) (int (length (jar_cookies j2)) - MAX_COOKIES) j2)"

definition same_site_name :: "string \<Rightarrow> string" where
  "same_site_name s =
     (if s = ''strict'' then ''Strict'' else if s = ''lax'' then ''Lax''
      else if s = ''none'' then ''None'' else [])"

abbreviation attribute :: "(string, string) dict \<Rightarrow> string \<Rightarrow> string" where
  "attribute attributes k \<equiv> (case map_of attributes k of None \<Rightarrow> [] | Some v \<Rightarrow> v)"

definition store_line ::
  "parsers \<Rightarrow> target \<Rightarrow> string \<Rightarrow> int \<Rightarrow> public_suffixes \<Rightarrow> jar \<Rightarrow> sdk_error + jar" where
  "store_line ps t line now psl j =
     (case parse_line line of
        None \<Rightarrow> Inr j
      | Some (name, val, attributes) \<Rightarrow>
          (case scope_of ps (target_host t) (attribute attributes ''domain'') psl of
             None \<Rightarrow> Inr j
           | Some (domain, only) \<Rightarrow>
               (let path = (if prefix ''/'' (attribute attributes ''path'')
                            then attribute attributes ''path'' else default_path (target_path t));
                    k = (name, domain, path) in
                bindE (expiry ps attributes now) (\<lambda>(moment, removes).
                  if removes then Inr (pop_cookie k j)
                  else bindE (check_cookie
                    \<lparr>cookie_name = name, cookie_value = val, cookie_domain = domain, cookie_path = path,
                     host_only = only, expires_at = moment, secure = map_of attributes ''secure'' \<noteq> None,
                     http_only = map_of attributes ''httponly'' \<noteq> None,
                     same_site = same_site_name (lower (attribute attributes ''samesite''))\<rparr>)
                    (\<lambda>c. Inr (put_cookie k c j))))))"

text \<open>
  A line that raises ends the loop; the lines before it stay stored and nothing is evicted. The
  result is the error that escapes, if one does, and the jar.
\<close>

fun store_lines ::
  "parsers \<Rightarrow> target \<Rightarrow> string list \<Rightarrow> int \<Rightarrow> public_suffixes \<Rightarrow> jar \<Rightarrow> sdk_error option \<times> jar" where
  "store_lines ps t [] now psl j = (None, evict now j)"
| "store_lines ps t (line # lines) now psl j =
     (case store_line ps t line now psl j of
        Inl e \<Rightarrow> (Some e, j)
      | Inr j' \<Rightarrow> store_lines ps t lines now psl j')"

definition store ::
  "parsers \<Rightarrow> string \<Rightarrow> string list \<Rightarrow> int \<Rightarrow> public_suffixes \<Rightarrow> jar \<Rightarrow> sdk_error option \<times> jar" where
  "store ps url lines now psl j =
     (case parse_target ps url of None \<Rightarrow> (None, j) | Some t \<Rightarrow> store_lines ps t lines now psl j)"

definition belongs :: "parsers \<Rightarrow> stored_cookie \<Rightarrow> target \<Rightarrow> bool" where
  "belongs ps c t \<longleftrightarrow>
     (if host_only c then target_host t = cookie_domain c
      else domain_matches ps (target_host t) (cookie_domain c)) \<and>
     (secure c \<longrightarrow> target_secure t) \<and> path_matches (target_path t) (cookie_path c)"

definition select :: "parsers \<Rightarrow> string \<Rightarrow> int \<Rightarrow> jar \<Rightarrow> stored_cookie list \<times> jar" where
  "select ps url now j =
     (case parse_target ps url of
        None \<Rightarrow> ([], j)
      | Some t \<Rightarrow>
          (let j1 = drop_expired now j;
               chosen = filter (\<lambda>c. belongs ps c t) (map snd (jar_cookies j1))
           in (sort_key (\<lambda>c. - int (length (cookie_path c))) chosen,
               fold (\<lambda>c. touch (cookie_key c)) chosen j1)))"

definition header_pairs :: "parsers \<Rightarrow> string \<Rightarrow> int \<Rightarrow> jar \<Rightarrow> (string \<times> string) list" where
  "header_pairs ps url now j = map (\<lambda>c. (cookie_name c, cookie_value c)) (fst (select ps url now j))"

definition has_live :: "string \<Rightarrow> int \<Rightarrow> int \<Rightarrow> jar \<Rightarrow> bool" where
  "has_live name leeway now j \<longleftrightarrow>
     list_ex (\<lambda>c. cookie_name c = name \<and> \<not> is_expired c (now + leeway)) (map snd (jar_cookies j))"

definition load :: "stored_cookie list \<Rightarrow> int \<Rightarrow> jar \<Rightarrow> jar" where
  "load cookies now j =
     evict now (fold (\<lambda>c j. if is_expired c now then j else put_cookie (cookie_key c) c j) cookies j)"

definition snapshot :: "int \<Rightarrow> jar \<Rightarrow> stored_cookie list \<times> jar" where
  "snapshot now j = (let j1 = drop_expired now j in (map snd (jar_cookies j1), j1))"

section \<open>The primitive form\<close>

text \<open>
  \<open>datetime.isoformat\<close>, \<open>datetime.fromisoformat\<close> (a time and whether it names a zone) and \<open>str\<close> of a
  value that is not text.
\<close>

record codec =
  to_iso :: "int \<Rightarrow> string"
  from_iso :: "string \<Rightarrow> sdk_error + int \<times> bool"
  str_of :: "pyval \<Rightarrow> string"

definition cookie_to_primitive :: "codec \<Rightarrow> stored_cookie \<Rightarrow> (string, pyval) dict" where
  "cookie_to_primitive cd c =
     [(''name'', PStr (cookie_name c)), (''value'', PStr (cookie_value c)),
      (''domain'', PStr (cookie_domain c)), (''path'', PStr (cookie_path c)),
      (''host_only'', PBool (host_only c)),
      (''expires_at'', case expires_at c of None \<Rightarrow> PNone | Some t \<Rightarrow> PStr (to_iso cd t)),
      (''secure'', PBool (secure c)), (''http_only'', PBool (http_only c)),
      (''same_site'', PStr (same_site c))]"

fun truthy :: "pyval \<Rightarrow> bool" where
  "truthy PNone = False"
| "truthy (PBool b) = b"
| "truthy (PInt n) = (n \<noteq> 0)"
| "truthy (PStr s) = (s \<noteq> [])"
| "truthy (PBytes s) = (s \<noteq> [])"
| "truthy (PTuple xs) = (xs \<noteq> [])"
| "truthy (PList xs) = (xs \<noteq> [])"
| "truthy (PDict kvs) = (kvs \<noteq> [])"

definition entry :: "(string, pyval) dict \<Rightarrow> string \<Rightarrow> pyval" where
  "entry d k = (case map_of d k of None \<Rightarrow> PNone | Some v \<Rightarrow> v)"

definition required_entries :: "string list" where
  "required_entries = [''name'', ''value'', ''domain'', ''path'', ''host_only'', ''expires_at'']"

definition read_expires :: "codec \<Rightarrow> pyval \<Rightarrow> sdk_error + (int \<times> bool) option" where
  "read_expires cd v =
     (case v of
        PNone \<Rightarrow> Inr None
      | PStr s \<Rightarrow> map_sum id Some (from_iso cd s)
      | _ \<Rightarrow> Inl (PyValueError ''stored cookie expires_at is an ISO timestamp or null''))"

definition cookie_from_primitive :: "codec \<Rightarrow> (string, pyval) dict \<Rightarrow> sdk_error + stored_cookie" where
  "cookie_from_primitive cd data =
     (let missing = sort (filter (\<lambda>n. map_of data n = None) required_entries) in
      if missing \<noteq> [] then Inl (PyValueError (''stored cookie lacks '' @ join '', '' missing))
      else case map (entry data) [''name'', ''value'', ''domain'', ''path''] of
        [PStr name, PStr val, PStr domain, PStr path] \<Rightarrow>
          (case entry data ''host_only'' of
             PBool only \<Rightarrow>
               bindE (read_expires cd (entry data ''expires_at'')) (\<lambda>moment.
               bindE (check_cookie
                 \<lparr>cookie_name = name, cookie_value = val, cookie_domain = domain, cookie_path = path,
                  host_only = only, expires_at = map_option fst moment,
                  secure = truthy (entry data ''secure''), http_only = truthy (entry data ''http_only''),
                  same_site = (case entry data ''same_site'' of
                     PStr s \<Rightarrow> s | v \<Rightarrow> if truthy v then str_of cd v else [])\<rparr>) (\<lambda>c.
               if map_option snd moment = Some False
               then Inl (PyValueError (''cookie '' @ py_repr name @ '': expires_at must be timezone-aware''))
               else Inr c))
           | _ \<Rightarrow> Inl (PyValueError ''stored cookie host_only is a boolean''))
      | _ \<Rightarrow> Inl (PyValueError ''stored cookie name, value, domain and path are strings''))"

definition state_to_primitive :: "codec \<Rightarrow> stored_cookie list \<Rightarrow> pyval" where
  "state_to_primitive cd cs = PList (map (\<lambda>c. PDict (cookie_to_primitive cd c)) cs)"

fun as_mapping :: "pyval \<Rightarrow> sdk_error + (string, pyval) dict" where
  "as_mapping (PDict d) = Inr d"
| "as_mapping _ = Inl (PyValueError ''a stored cookie is a mapping'')"

definition state_from_primitive :: "codec \<Rightarrow> pyval \<Rightarrow> sdk_error + stored_cookie list" where
  "state_from_primitive cd data =
     (case seq_items data of
        None \<Rightarrow> Inl (PyValueError ''a stored cookie state is a list of cookies'')
      | Some items \<Rightarrow>
          mapE (\<lambda>v. bindE (as_mapping v) (cookie_from_primitive cd)) items)"

section \<open>The declaration of a site's cookies\<close>

text \<open>\<open>Cookies.__post_init__\<close>; \<open>leeway\<close> is in microseconds.\<close>

record cookies_decl =
  cd_required :: "string list"
  cd_leeway :: int

definition check_cookies_decl :: "cookies_decl \<Rightarrow> sdk_error + cookies_decl" where
  "check_cookies_decl d =
     (if [] \<in> set (cd_required d)
        then Inl (PyValueError ''Cookies(required=...) names a cookie with an empty string'')
      else if \<not> distinct (cd_required d)
        then Inl (PyValueError ''Cookies(required=...) names a cookie twice'')
      else if cd_leeway d < 0 then Inl (PyValueError ''Cookies(leeway=...) cannot be negative'')
      else Inr d)"

section \<open>The invariant of the jar\<close>

definition used_ok :: "(cookie_id, nat) dict \<Rightarrow> nat \<Rightarrow> bool" where
  "used_ok u t \<longleftrightarrow> dict_ok u \<and> (\<forall>p \<in> set u. snd p \<le> t) \<and> inj_on snd (set u)"

definition jar_ok :: "jar \<Rightarrow> bool" where
  "jar_ok j \<longleftrightarrow> dict_ok (jar_cookies j) \<and> used_ok (jar_used j) (jar_tick j) \<and>
     fst ` set (jar_used j) = fst ` set (jar_cookies j) \<and>
     (\<forall>(k, c) \<in> set (jar_cookies j). cookie_key c = k \<and> check_cookie c = Inr c)"

lemma check_cookie_Inr: "check_cookie c = Inr d \<Longrightarrow> d = c"
  by (auto simp: check_cookie_def split: if_splits)

lemma empty_jar_ok: "jar_ok empty_jar"
  by (simp add: jar_ok_def used_ok_def empty_jar_def)

lemma used_ok_touch:
  assumes "used_ok u t"
  shows "used_ok (AList.update k (Suc t) u) (Suc t)"
proof -
  have used: "set (AList.update k (Suc t) u) = insert (k, Suc t) {p \<in> set u. fst p \<noteq> k}"
    using assms by (intro set_dict_update) (simp add: used_ok_def)
  have old: "snd p \<le> t" if "p \<in> set u" for p
    using assms that by (auto simp: used_ok_def)
  have "inj_on snd (insert (k, Suc t) {p \<in> set u. fst p \<noteq> k})"
  proof (rule inj_on_insert [THEN iffD2], intro conjI)
    show "inj_on snd {p \<in> set u. fst p \<noteq> k}"
      using assms by (auto simp: used_ok_def intro: inj_on_subset)
    show "snd (k, Suc t) \<notin> snd ` ({p \<in> set u. fst p \<noteq> k} - {(k, Suc t)})"
      using old by fastforce
  qed
  moreover have "\<forall>p \<in> insert (k, Suc t) {p \<in> set u. fst p \<noteq> k}. snd p \<le> Suc t"
    using old by (auto intro: le_SucI)
  ultimately show ?thesis
    using assms unfolding used_ok_def used by simp
qed

lemma used_ok_delete: "used_ok u t \<Longrightarrow> used_ok (AList.delete k u) t"
  by (auto simp: used_ok_def set_dict_delete intro: inj_on_subset)

lemma touch_ok: "jar_ok j \<Longrightarrow> k \<in> fst ` set (jar_cookies j) \<Longrightarrow> jar_ok (touch k j)"
  by (simp add: jar_ok_def touch_def Let_def used_ok_touch insert_absorb)

lemma touch_cookies [simp]: "jar_cookies (touch k j) = jar_cookies j"
  by (simp add: touch_def Let_def)

lemma touches_cookies [simp]: "jar_cookies (fold (\<lambda>c. touch (f c)) cs j) = jar_cookies j"
  by (induction cs arbitrary: j) simp_all

lemma touches_ok:
  "jar_ok j \<Longrightarrow> f ` set cs \<subseteq> fst ` set (jar_cookies j) \<Longrightarrow> jar_ok (fold (\<lambda>c. touch (f c)) cs j)"
  by (induction cs arbitrary: j) (simp_all add: touch_ok)

lemma pop_ok: "jar_ok j \<Longrightarrow> jar_ok (pop_cookie k j)"
  by (simp add: jar_ok_def pop_cookie_def used_ok_delete) (auto simp: set_dict_delete)

lemma pops_ok: "jar_ok j \<Longrightarrow> jar_ok (fold pop_cookie ks j)"
  by (induction ks arbitrary: j) (auto simp: pop_ok)

lemma pops_cookies:
  "jar_cookies (fold pop_cookie ks j) = filter (\<lambda>p. fst p \<notin> set ks) (jar_cookies j)"
proof (induction ks arbitrary: j)
  case (Cons k ks)
  have "AList.delete k (jar_cookies j) = filter (\<lambda>p. fst p \<noteq> k) (jar_cookies j)"
    by (auto simp: AList.delete_eq intro: filter_cong)
  then have "jar_cookies (pop_cookie k j) = filter (\<lambda>p. fst p \<noteq> k) (jar_cookies j)"
    by (simp add: pop_cookie_def)
  then show ?case using Cons [of "pop_cookie k j"] by (auto intro: filter_cong)
qed simp

lemma put_cookies: "jar_cookies (put_cookie k c j) = AList.update k c (jar_cookies j)"
  by (simp add: put_cookie_def)

lemma put_ok:
  assumes "jar_ok j" and "check_cookie c = Inr c" and "k = cookie_key c"
  shows "jar_ok (put_cookie k c j)"
  using assms
  by (auto simp: jar_ok_def put_cookie_def touch_def Let_def used_ok_touch set_dict_update)

lemma drop_expired_cookies:
  assumes "dict_ok (jar_cookies j)"
  shows "jar_cookies (drop_expired now j) = filter (\<lambda>p. \<not> is_expired (snd p) now) (jar_cookies j)"
  unfolding drop_expired_def pops_cookies
proof (rule filter_cong [OF refl])
  fix p assume p: "p \<in> set (jar_cookies j)"
  have same: "q = p" if "q \<in> set (jar_cookies j)" "fst q = fst p" for q
    using assms p that by (metis eq_key_imp_eq_value prod.collapse)
  show "(fst p \<notin> set (map fst (filter (\<lambda>(k, c). is_expired c now) (jar_cookies j))))
      = (\<not> is_expired (snd p) now)"
  proof (cases "is_expired (snd p) now")
    case True
    then have "p \<in> set (filter (\<lambda>(k, c). is_expired c now) (jar_cookies j))"
      using p by (simp add: case_prod_beta)
    then show ?thesis using True by simp
  next
    case False
    then have "fst p \<noteq> fst q" if "q \<in> set (filter (\<lambda>(k, c). is_expired c now) (jar_cookies j))" for q
      using same [of q] that by (auto simp: case_prod_beta)
    then show ?thesis using False by auto
  qed
qed

lemma drop_expired_ok: "jar_ok j \<Longrightarrow> jar_ok (drop_expired now j)"
  by (simp add: drop_expired_def pops_ok)

lemma drop_least_used_ok: "jar_ok j \<Longrightarrow> jar_ok (drop_least_used ks n j)"
  by (simp add: drop_least_used_def pops_ok)

lemma evict_ok: "jar_ok j \<Longrightarrow> jar_ok (evict now j)"
proof -
  have "jar_ok j \<Longrightarrow> jar_ok (foldl (\<lambda>j (_, ks). drop_least_used ks (int (length ks) - n) j) j ds)"
    for j n and ds :: "(string \<times> cookie_id list) list"
    by (induction ds arbitrary: j) (auto simp: drop_least_used_ok)
  then show "jar_ok j \<Longrightarrow> jar_ok (evict now j)"
    by (simp add: evict_def Let_def drop_least_used_ok drop_expired_ok)
qed

text \<open>What one line does: nothing, remove a cookie, or store a valid one in the scope it may claim.\<close>

lemma store_line_cases:
  assumes "store_line ps t line now psl j = Inr j'"
  obtains (same) "j' = j"
    | (removed) k where "j' = pop_cookie k j"
    | (stored) c attr where "check_cookie c = Inr c" "j' = put_cookie (cookie_key c) c j"
        "scope_of ps (target_host t) attr psl = Some (cookie_domain c, host_only c)"
proof (cases "parse_line line")
  case None
  then show ?thesis using assms same by (simp add: store_line_def)
next
  case (Some x)
  obtain name val attributes where x: "x = (name, val, attributes)" by (cases x) auto
  let ?dom = "attribute attributes ''domain''"
  show ?thesis
  proof (cases "scope_of ps (target_host t) ?dom psl")
    case None
    then show ?thesis using assms same Some x by (simp add: store_line_def)
  next
    case scope: (Some y)
    obtain domain only where y: "y = (domain, only)" by fastforce
    define path where "path = (if prefix ''/'' (attribute attributes ''path'')
        then attribute attributes ''path'' else default_path (target_path t))"
    obtain moment removes where e: "expiry ps attributes now = Inr (moment, removes)"
      using assms Some x scope y by (auto simp: store_line_def Let_def bindE_Inr_iff)
    show ?thesis
    proof (cases removes)
      case True
      then have "j' = pop_cookie (name, domain, path) j"
        using assms Some x scope y e by (simp add: store_line_def Let_def path_def [symmetric])
      then show ?thesis by (rule removed)
    next
      case False
      then obtain c where c: "check_cookie
          \<lparr>cookie_name = name, cookie_value = val, cookie_domain = domain, cookie_path = path,
           host_only = only, expires_at = moment, secure = map_of attributes ''secure'' \<noteq> None,
           http_only = map_of attributes ''httponly'' \<noteq> None,
           same_site = same_site_name (lower (attribute attributes ''samesite''))\<rparr> = Inr c"
        "j' = put_cookie (name, domain, path) c j"
        using assms Some x scope y e
        by (simp add: store_line_def Let_def bindE_Inr_iff path_def [symmetric]) blast
      note c_eq = check_cookie_Inr [OF c(1)]
      show ?thesis
        by (rule stored [of c ?dom]) (use c c_eq scope y in \<open>simp_all add: cookie_key_def\<close>)
    qed
  qed
qed

lemma store_line_ok:
  assumes "jar_ok j" and "store_line ps t line now psl j = Inr j'"
  shows "jar_ok j'"
  using assms(2) by (cases rule: store_line_cases) (simp_all add: assms(1) pop_ok put_ok)

lemma store_lines_ok: "jar_ok j \<Longrightarrow> jar_ok (snd (store_lines ps t lines now psl j))"
  by (induction lines arbitrary: j) (auto simp: evict_ok store_line_ok split: sum.split)

lemma store_ok: "jar_ok j \<Longrightarrow> jar_ok (snd (store ps url lines now psl j))"
  by (simp add: store_def store_lines_ok split: option.split)

lemma select_ok: "jar_ok j \<Longrightarrow> jar_ok (snd (select ps url now j))"
proof -
  assume ok: "jar_ok j"
  have "jar_ok (fold (\<lambda>c. touch (cookie_key c)) (filter P (map snd (jar_cookies j1))) j1)"
    if "jar_ok j1" for P and j1 :: jar
    using that
  proof (rule touches_ok)
    have "cookie_key (snd p) = fst p" if "p \<in> set (jar_cookies j1)" for p
      using \<open>jar_ok j1\<close> that by (auto simp: jar_ok_def)
    then show "cookie_key ` set (filter P (map snd (jar_cookies j1))) \<subseteq> fst ` set (jar_cookies j1)"
      by force
  qed
  then show ?thesis
    using drop_expired_ok [OF ok] ok by (simp add: select_def Let_def split: option.split)
qed

lemma load_ok:
  assumes "jar_ok j" and "\<forall>c \<in> set cs. check_cookie c = Inr c"
  shows "jar_ok (load cs now j)"
proof -
  have "jar_ok (fold (\<lambda>c j. if is_expired c now then j else put_cookie (cookie_key c) c j) cs j)"
    using assms by (induction cs arbitrary: j) (auto intro: put_ok)
  then show ?thesis by (simp add: load_def evict_ok)
qed

text \<open>
  C3. Every operation keeps the jar well-formed: one cookie per name, domain and path, filed
  under that key and valid, with one distinct time of use per cookie.
\<close>

theorem jar_invariant:
  assumes "jar_ok j"
  shows "jar_ok (snd (store ps url lines now psl j)) \<and> jar_ok (snd (select ps url now j)) \<and>
    jar_ok (snd (snapshot now j)) \<and>
    ((\<forall>c \<in> set cs. check_cookie c = Inr c) \<longrightarrow> jar_ok (load cs now j))"
  using assms by (simp add: store_ok select_ok snapshot_def Let_def drop_expired_ok load_ok)

section \<open>Bounds\<close>

definition domain_count :: "string \<Rightarrow> (cookie_id, stored_cookie) dict \<Rightarrow> nat" where
  "domain_count d cs = length (filter (\<lambda>p. cookie_domain (snd p) = d) cs)"

definition within_limits :: "jar \<Rightarrow> bool" where
  "within_limits j \<longleftrightarrow> int (length (jar_cookies j)) \<le> MAX_COOKIES \<and>
     (\<forall>d. int (domain_count d (jar_cookies j)) \<le> MAX_COOKIES_PER_DOMAIN)"

lemma subseq_set: "subseq xs ys \<Longrightarrow> set xs \<subseteq> set ys"
  by (auto simp: subseq_conv_nths dest: in_set_nthsD)

lemma subseq_distinct: "subseq xs ys \<Longrightarrow> distinct ys \<Longrightarrow> distinct xs"
  by (auto simp: subseq_conv_nths intro: distinct_nthsI)

lemma domain_count_subseq: "subseq xs ys \<Longrightarrow> domain_count d xs \<le> domain_count d ys"
  unfolding domain_count_def by (rule list_emb_length [OF subseq_filter])

text \<open>\<open>by_domain\<close> groups the keys of a domain in creation order.\<close>

lemma by_domain_snoc:
  "by_domain (cs @ [(k, c)]) =
     (case map_of (by_domain cs) (cookie_domain c) of
        None \<Rightarrow> AList.update (cookie_domain c) [k] (by_domain cs)
      | Some ks \<Rightarrow> AList.update (cookie_domain c) (ks @ [k]) (by_domain cs))"
  by (simp only: by_domain_def foldl_append foldl.simps prod.case)

lemma by_domain_map:
  "map_of (by_domain cs) d =
     (let ks = map fst (filter (\<lambda>p. cookie_domain (snd p) = d) cs) in if ks = [] then None else Some ks)"
proof (induction cs rule: rev_induct)
  case Nil
  then show ?case by (simp add: by_domain_def)
next
  case (snoc p cs)
  obtain k c where p: "p = (k, c)" by fastforce
  show ?case
  proof (cases "map_of (by_domain cs) (cookie_domain c)")
    case None
    then have "\<forall>p \<in> set cs. cookie_domain (snd p) \<noteq> cookie_domain c \<or> cookie_domain c \<noteq> d"
      using snoc by (auto simp: Let_def filter_empty_conv split: if_splits)
    then show ?thesis using None snoc unfolding p by_domain_snoc
      by (auto simp: Let_def filter_empty_conv)
  next
    case (Some ks)
    show ?thesis
    proof (cases "cookie_domain c = d")
      case True
      then show ?thesis using Some snoc unfolding p by_domain_snoc
        by (auto simp: Let_def split: if_splits)
    next
      case False
      then show ?thesis using Some snoc unfolding p by_domain_snoc by (auto simp: Let_def)
    qed
  qed
qed

lemma by_domain_ok: "dict_ok (by_domain cs)"
proof (induction cs rule: rev_induct)
  case Nil
  then show ?case by (simp add: by_domain_def)
next
  case (snoc p cs)
  then show ?case by (cases p) (simp add: by_domain_snoc split: option.split)
qed

lemma drop_least_used_subseq: "subseq (jar_cookies (drop_least_used ks n j)) (jar_cookies j)"
  by (simp add: drop_least_used_def pops_cookies)

lemma evict_fold_subseq:
  "subseq (jar_cookies (foldl (\<lambda>j (_, ks). drop_least_used ks (int (length ks) - n) j) j ds)) (jar_cookies j)"
proof (induction ds arbitrary: j)
  case (Cons d ds)
  obtain x ks where d: "d = (x, ks)" by fastforce
  show ?case
    using Cons [of "drop_least_used ks (int (length ks) - n) j"]
      drop_least_used_subseq [of ks "int (length ks) - n" j] subseq_order.order_trans
    by (simp add: d)
qed simp

text \<open>After the eviction of one group of keys at most the allowed number of them is left.\<close>

lemma drop_least_used_bound:
  assumes ok: "dict_ok (jar_cookies j)" and ks: "distinct ks"
    and P: "\<And>p. p \<in> set (jar_cookies j) \<Longrightarrow> P p \<Longrightarrow> fst p \<in> set ks" and n: "0 \<le> n"
  shows "int (length (filter P (jar_cookies (drop_least_used ks (int (length ks) - n) j)))) \<le> n"
proof -
  let ?j = "drop_least_used ks (int (length ks) - n) j"
  define gone where "gone = (if int (length ks) - n \<le> 0 then {}
      else set (take (nat (int (length ks) - n)) (sort_key (last_used j) ks)))"
  have cookies: "jar_cookies ?j = filter (\<lambda>p. fst p \<notin> gone) (jar_cookies j)"
    by (simp add: drop_least_used_def pops_cookies gone_def)
  have "distinct (map fst (filter P (jar_cookies ?j)))"
    unfolding cookies using ok by (simp add: distinct_map_filter)
  then have "length (filter P (jar_cookies ?j)) = card (fst ` set (filter P (jar_cookies ?j)))"
    by (metis distinct_card length_map list.set_map)
  also have "\<dots> \<le> card (set ks - gone)"
    by (rule card_mono) (use P in \<open>fastforce simp: cookies\<close>)+
  also have "\<dots> = card (set ks) - card gone"
    by (rule card_Diff_subset) (auto simp: gone_def dest: in_set_takeD)
  also have "card (set ks) = length ks" using ks by (simp add: distinct_card)
  also have "card gone = nat (int (length ks) - n)"
  proof (cases "int (length ks) - n \<le> 0")
    case False
    then have "card gone = length (take (nat (int (length ks) - n)) (sort_key (last_used j) ks))"
      using ks by (simp add: gone_def distinct_card distinct_take)
    moreover have "nat (int (length ks) - n) \<le> length ks" using n by linarith
    ultimately show ?thesis by (simp add: min_absorb2)
  qed (simp add: gone_def)
  finally show ?thesis using n by linarith
qed

lemma evict_domains:
  assumes "jar_ok j"
  shows "(\<forall>(x, ks) \<in> set ds. distinct ks \<and>
      (\<forall>p \<in> set (jar_cookies j). cookie_domain (snd p) = x \<longrightarrow> fst p \<in> set ks)) \<Longrightarrow>
    \<forall>x \<in> fst ` set ds. int (domain_count x
      (jar_cookies (foldl (\<lambda>j (_, ks). drop_least_used ks (int (length ks) - MAX_COOKIES_PER_DOMAIN) j) j ds)))
        \<le> MAX_COOKIES_PER_DOMAIN"
  using assms
proof (induction ds arbitrary: j)
  case (Cons d ds)
  obtain x ks where d: "d = (x, ks)" by fastforce
  let ?j = "drop_least_used ks (int (length ks) - MAX_COOKIES_PER_DOMAIN) j"
  have sub: "set (jar_cookies ?j) \<subseteq> set (jar_cookies j)"
    by (rule subseq_set [OF drop_least_used_subseq])
  have "\<forall>(x, ks) \<in> set ds. distinct ks \<and>
      (\<forall>p \<in> set (jar_cookies ?j). cookie_domain (snd p) = x \<longrightarrow> fst p \<in> set ks)"
    using Cons.prems(1) sub by fastforce
  note IH = Cons.IH [OF this drop_least_used_ok [OF Cons.prems(2)]]
  have "int (domain_count x (jar_cookies ?j)) \<le> MAX_COOKIES_PER_DOMAIN"
    unfolding domain_count_def
    using Cons.prems d
    by (intro drop_least_used_bound) (auto simp: jar_ok_def MAX_COOKIES_PER_DOMAIN_def)
  moreover have "domain_count x (jar_cookies (foldl (\<lambda>j (_, ks). drop_least_used ks
        (int (length ks) - MAX_COOKIES_PER_DOMAIN) j) ?j ds)) \<le> domain_count x (jar_cookies ?j)"
    by (rule domain_count_subseq [OF evict_fold_subseq])
  ultimately have "int (domain_count x (jar_cookies (foldl (\<lambda>j (_, ks). drop_least_used ks
        (int (length ks) - MAX_COOKIES_PER_DOMAIN) j) ?j ds))) \<le> MAX_COOKIES_PER_DOMAIN"
    by linarith
  then show ?case using IH by (simp add: d)
qed simp

lemma evict_limits:
  assumes ok: "jar_ok j"
  shows "within_limits (evict now j)"
proof -
  define j1 where "j1 = drop_expired now j"
  define j2 where "j2 = foldl (\<lambda>j (_, ks). drop_least_used ks (int (length ks) - MAX_COOKIES_PER_DOMAIN) j)
      j1 (by_domain (jar_cookies j1))"
  have j1: "jar_ok j1" using ok by (simp add: j1_def drop_expired_ok)
  have evict: "evict now j =
      drop_least_used (keys (jar_cookies j2)) (int (length (keys (jar_cookies j2))) - MAX_COOKIES) j2"
    by (simp add: evict_def Let_def j1_def j2_def)
  have groups: "\<forall>(x, ks) \<in> set (by_domain (jar_cookies j1)). distinct ks \<and>
      (\<forall>p \<in> set (jar_cookies j1). cookie_domain (snd p) = x \<longrightarrow> fst p \<in> set ks)"
  proof clarify
    fix x ks assume "(x, ks) \<in> set (by_domain (jar_cookies j1))"
    then have "map_of (by_domain (jar_cookies j1)) x = Some ks"
      using by_domain_ok by (simp add: map_of_Some_iff)
    then have ks: "ks = map fst (filter (\<lambda>p. cookie_domain (snd p) = x) (jar_cookies j1))"
      by (auto simp: by_domain_map Let_def split: if_splits)
    then show "distinct ks \<and> (\<forall>p \<in> set (jar_cookies j1). cookie_domain (snd p) = x \<longrightarrow> fst p \<in> set ks)"
      using j1 by (auto simp: jar_ok_def distinct_map_filter)
  qed
  have "int (domain_count x (jar_cookies j2)) \<le> MAX_COOKIES_PER_DOMAIN" for x
  proof (cases "x \<in> fst ` set (by_domain (jar_cookies j1))")
    case True
    then show ?thesis using evict_domains [OF j1 groups] unfolding j2_def by blast
  next
    case False
    then have "filter (\<lambda>p. cookie_domain (snd p) = x) (jar_cookies j1) = []"
      using by_domain_map [of "jar_cookies j1" x]
      by (auto simp: Let_def map_of_eq_None_iff [symmetric] split: if_splits)
    then have "domain_count x (jar_cookies j1) = 0" by (simp add: domain_count_def)
    moreover have "domain_count x (jar_cookies j2) \<le> domain_count x (jar_cookies j1)"
      unfolding j2_def by (rule domain_count_subseq [OF evict_fold_subseq])
    ultimately show ?thesis by (simp add: MAX_COOKIES_PER_DOMAIN_def)
  qed
  then have domains: "int (domain_count x (jar_cookies (evict now j))) \<le> MAX_COOKIES_PER_DOMAIN" for x
    using domain_count_subseq [OF drop_least_used_subseq, of x] unfolding evict
    by (meson of_nat_mono order.trans)
  have j2: "dict_ok (jar_cookies j2)"
  proof -
    have "subseq (map fst (jar_cookies j2)) (map fst (jar_cookies j1))"
      unfolding j2_def by (intro subseq_map evict_fold_subseq)
    then show ?thesis using j1 subseq_distinct by (auto simp: jar_ok_def)
  qed
  have "int (length (filter (\<lambda>_. True) (jar_cookies (evict now j)))) \<le> MAX_COOKIES"
    unfolding evict by (rule drop_least_used_bound) (use j2 in \<open>auto simp: MAX_COOKIES_def\<close>)
  then show ?thesis using domains by (simp add: within_limits_def)
qed

text \<open>
  A store that returns, and every load, leaves at most 3000 cookies and at most 50 of a
  domain.
\<close>

lemma jar_bounded:
  assumes "jar_ok j" and "\<forall>c \<in> set cs. check_cookie c = Inr c"
  shows "within_limits (load cs now j) \<and>
    (store ps url lines now psl j = (None, j') \<longrightarrow> parse_target ps url \<noteq> None \<longrightarrow> within_limits j')"
proof
  have "jar_ok (fold (\<lambda>c j. if is_expired c now then j else put_cookie (cookie_key c) c j) cs j)"
    using assms by (induction cs arbitrary: j) (auto intro: put_ok)
  then show "within_limits (load cs now j)" by (simp add: load_def evict_limits)
  have "store_lines ps t lines now psl j = (None, j') \<Longrightarrow> jar_ok j \<Longrightarrow> within_limits j'" for t
    by (induction lines arbitrary: j) (auto simp: evict_limits store_line_ok split: sum.splits)
  then show "store ps url lines now psl j = (None, j') \<longrightarrow> parse_target ps url \<noteq> None \<longrightarrow> within_limits j'"
    using assms(1) by (auto simp: store_def)
qed

section \<open>Selection\<close>

lemma select_eq:
  assumes "jar_ok j" and "parse_target ps url = Some t"
  shows "fst (select ps url now j) = sort_key (\<lambda>c. - int (length (cookie_path c)))
    (filter (\<lambda>c. \<not> is_expired c now \<and> belongs ps c t) (map snd (jar_cookies j)))"
proof -
  have "map snd (jar_cookies (drop_expired now j)) =
      filter (\<lambda>c. \<not> is_expired c now) (map snd (jar_cookies j))"
    using assms(1) by (simp add: drop_expired_cookies jar_ok_def filter_map comp_def)
  then have "filter (\<lambda>c. belongs ps c t) (map snd (jar_cookies (drop_expired now j))) =
      filter (\<lambda>c. \<not> is_expired c now \<and> belongs ps c t) (map snd (jar_cookies j))"
    by (simp add: conj_commute)
  then show ?thesis using assms(2) by (simp add: select_def Let_def)
qed

text \<open>
  A request carries exactly the live cookies that belong to its address, longest path first
  and, among equal paths, in the order they were created.
\<close>

lemma select_spec:
  assumes "jar_ok j" and "parse_target ps url = Some t"
  shows "mset (fst (select ps url now j)) =
      mset (filter (\<lambda>c. \<not> is_expired c now \<and> belongs ps c t) (map snd (jar_cookies j))) \<and>
    sorted_wrt (\<lambda>c d. length (cookie_path d) \<le> length (cookie_path c)) (fst (select ps url now j)) \<and>
    filter (\<lambda>c. length (cookie_path c) = n) (fst (select ps url now j)) =
      filter (\<lambda>c. length (cookie_path c) = n \<and> \<not> is_expired c now \<and> belongs ps c t)
        (map snd (jar_cookies j))"
proof -
  let ?key = "\<lambda>c. - int (length (cookie_path c))"
  let ?cs = "filter (\<lambda>c. \<not> is_expired c now \<and> belongs ps c t) (map snd (jar_cookies j))"
  have "sorted (map ?key (sort_key ?key ?cs))" by simp
  then have "sorted_wrt (\<lambda>c d. ?key c \<le> ?key d) (sort_key ?key ?cs)" by (simp only: sorted_map)
  then have "sorted_wrt (\<lambda>c d. length (cookie_path d) \<le> length (cookie_path c)) (sort_key ?key ?cs)"
    by (rule sorted_wrt_mono_rel [rotated]) simp
  moreover have "filter (\<lambda>c. length (cookie_path c) = n) (sort_key ?key ?cs) =
      filter (\<lambda>c. ?key c = - int n) (sort_key ?key ?cs)"
    by (rule filter_cong) auto
  moreover have "\<dots> = filter (\<lambda>c. ?key c = - int n) ?cs"
    by (rule sort_key_stable)
  ultimately show ?thesis
    unfolding select_eq [OF assms] by (simp add: conj_commute)
qed

section \<open>Where a cookie may go\<close>

definition under :: "parsers \<Rightarrow> string \<Rightarrow> stored_cookie \<Rightarrow> bool" where
  "under ps host c \<longleftrightarrow>
     host = cookie_domain c \<or>
     (\<not> host_only c \<and> suffix (''.'' @ cookie_domain c) host \<and> \<not> p_is_ip ps host)"

definition suffix_free :: "public_suffixes \<Rightarrow> string \<Rightarrow> bool" where
  "suffix_free psl d \<longleftrightarrow> \<not> (case psl of Some f \<Rightarrow> f d | None \<Rightarrow> CHR ''.'' \<notin> set d)"

lemma scope_of_Some:
  assumes "scope_of ps host a psl = Some (d, only)"
  shows "d = host \<or> (\<not> only \<and> suffix (''.'' @ d) host \<and> \<not> p_is_ip ps host \<and> suffix_free psl d)"
  using assms
  by (auto simp: scope_of_def Let_def domain_matches_def suffix_free_def split: if_splits option.splits)

lemma store_lines_new:
  "c \<in> snd ` set (jar_cookies (snd (store_lines ps t lines now psl j))) \<Longrightarrow>
     c \<in> snd ` set (jar_cookies j) \<or>
     (\<exists>a. scope_of ps (target_host t) a psl = Some (cookie_domain c, host_only c))"
proof (induction lines arbitrary: j)
  case Nil
  have sub: "subseq (jar_cookies (evict now j)) (jar_cookies (drop_expired now j))"
    unfolding evict_def Let_def
    by (rule subseq_order.order_trans [OF drop_least_used_subseq evict_fold_subseq])
  have "set (jar_cookies (drop_expired now j)) \<subseteq> set (jar_cookies j)"
    by (auto simp: drop_expired_def pops_cookies)
  then have "set (jar_cookies (evict now j)) \<subseteq> set (jar_cookies j)"
    using subseq_set [OF sub] by simp
  moreover have "c \<in> snd ` set (jar_cookies (evict now j))" using Nil by simp
  ultimately show ?case by blast
next
  case (Cons line lines)
  show ?case
  proof (cases "store_line ps t line now psl j")
    case (Inl e)
    then show ?thesis using Cons.prems by simp
  next
    case (Inr j')
    from Cons.IH [of j'] Cons.prems Inr
    consider "c \<in> snd ` set (jar_cookies j')"
      | "\<exists>a. scope_of ps (target_host t) a psl = Some (cookie_domain c, host_only c)" by auto
    then show ?thesis
    proof cases
      case 1
      from Inr show ?thesis
      proof (cases rule: store_line_cases)
        case (removed k)
        then show ?thesis using 1 by (auto simp: pop_cookie_def set_dict_delete)
      next
        case (stored c' attr)
        have "set (AList.update k v d) \<subseteq> insert (k, v) (set d)"
          for k :: cookie_id and v :: stored_cookie and d
          by (induction d) auto
        then have "c = c' \<or> c \<in> snd ` set (jar_cookies j)"
          using 1 unfolding stored(2) put_cookies by fastforce
        then show ?thesis using stored(3) by blast
      qed (use 1 in simp)
    qed simp
  qed
qed

text \<open>
  C4. A cookie a response sets goes back to the host that set it and, when the response widened
  it, to hosts under a domain that contains that host, is not a public suffix and is the domain
  the cookie names; to no other address, and a secure one only over a secure channel.
\<close>

theorem set_cookie_scope:
  assumes "store ps url lines now psl j = (e, j')" and "parse_target ps url = Some t"
    and "c \<in> snd ` set (jar_cookies j')" and "c \<notin> snd ` set (jar_cookies j)"
    and "c \<in> set (fst (select ps url2 now2 j'))" and "jar_ok j"
  shows "under ps (target_host t) c \<and>
    (cookie_domain c \<noteq> target_host t \<longrightarrow> suffix_free psl (cookie_domain c)) \<and>
    (\<exists>t2. parse_target ps url2 = Some t2 \<and> under ps (target_host t2) c \<and>
       (secure c \<longrightarrow> target_secure t2))"
proof -
  have j': "j' = snd (store_lines ps t lines now psl j)"
    using assms(1,2) by (simp add: store_def)
  then obtain a where "scope_of ps (target_host t) a psl = Some (cookie_domain c, host_only c)"
    using store_lines_new assms(3,4) by blast
  from scope_of_Some [OF this] have origin: "under ps (target_host t) c"
    "cookie_domain c \<noteq> target_host t \<longrightarrow> suffix_free psl (cookie_domain c)"
    by (auto simp: under_def)
  obtain t2 where t2: "parse_target ps url2 = Some t2"
    using assms(5) by (auto simp: select_def split: option.splits)
  have "jar_ok j'" using store_ok [OF assms(6), of ps url lines now psl] assms(1) by simp
  then have "belongs ps c t2" using assms(5) by (simp add: select_eq [OF _ t2])
  then have "under ps (target_host t2) c \<and> (secure c \<longrightarrow> target_secure t2)"
    by (auto simp: belongs_def under_def domain_matches_def split: if_splits)
  then show ?thesis using origin t2 by blast
qed

section \<open>Eviction and snapshots\<close>

text \<open>
  What an eviction takes from a group of keys was used no later than anything it leaves.
\<close>

lemma eviction_takes_least_used:
  assumes "k \<in> set ks" and "k \<in> fst ` set (jar_cookies j)"
    and "k \<notin> fst ` set (jar_cookies (drop_least_used ks n j))"
    and "k' \<in> set ks" and "k' \<in> fst ` set (jar_cookies (drop_least_used ks n j))"
  shows "last_used j k \<le> last_used j k'"
proof -
  let ?s = "sort_key (last_used j) ks"
  have n: "\<not> n \<le> 0" using assms(2,3) by (auto simp: drop_least_used_def)
  have cookies: "jar_cookies (drop_least_used ks n j) =
      filter (\<lambda>p. fst p \<notin> set (take (nat n) ?s)) (jar_cookies j)"
    using n by (simp add: drop_least_used_def pops_cookies)
  have k: "k \<in> set (take (nat n) ?s)" using assms(2,3) unfolding cookies by auto
  have "k' \<notin> set (take (nat n) ?s)" using assms(5) unfolding cookies by auto
  then have k': "k' \<in> set (drop (nat n) ?s)"
    using assms(4) by (metis Un_iff append_take_drop_id set_append set_sort)
  have "sorted (map (last_used j) (take (nat n) ?s @ drop (nat n) ?s))"
    by (simp only: append_take_drop_id sort_key_sorted)
  then show ?thesis using k k' unfolding map_append sorted_append by auto
qed

lemma drop_expired_none:
  assumes "\<forall>c \<in> snd ` set (jar_cookies j). \<not> is_expired c now"
  shows "drop_expired now j = j"
proof -
  have "filter (\<lambda>(k, c). is_expired c now) (jar_cookies j) = []"
    using assms by (force simp: filter_empty_conv)
  then show ?thesis by (simp add: drop_expired_def)
qed

lemma evict_within:
  assumes live: "\<forall>c \<in> snd ` set (jar_cookies j). \<not> is_expired c now" and "within_limits j"
  shows "evict now j = j"
proof -
  have same: "foldl (\<lambda>j (_, ks). drop_least_used ks (int (length ks) - MAX_COOKIES_PER_DOMAIN) j) j ds = j"
    if "\<forall>(x, ks) \<in> set ds. int (length ks) \<le> MAX_COOKIES_PER_DOMAIN"
    for ds :: "(string \<times> cookie_id list) list"
    using that by (induction ds) (auto simp: drop_least_used_def)
  have "\<forall>(x, ks) \<in> set (by_domain (jar_cookies j)). int (length ks) \<le> MAX_COOKIES_PER_DOMAIN"
  proof clarify
    fix x ks assume "(x, ks) \<in> set (by_domain (jar_cookies j))"
    then have "map_of (by_domain (jar_cookies j)) x = Some ks"
      using by_domain_ok by (simp add: map_of_Some_iff)
    then have "ks = map fst (filter (\<lambda>p. cookie_domain (snd p) = x) (jar_cookies j))"
      by (auto simp: by_domain_map Let_def split: if_splits)
    then show "int (length ks) \<le> MAX_COOKIES_PER_DOMAIN"
      using assms(2) by (simp add: within_limits_def domain_count_def)
  qed
  note same = same [OF this]
  show ?thesis
    unfolding evict_def Let_def drop_expired_none [OF live] same
    using assms(2) by (simp add: drop_least_used_def within_limits_def)
qed

lemma puts_fresh:
  "distinct (keys (jar_cookies j) @ map cookie_key cs) \<Longrightarrow> \<forall>c \<in> set cs. \<not> is_expired c now \<Longrightarrow>
   jar_cookies (fold (\<lambda>c j. if is_expired c now then j else put_cookie (cookie_key c) c j) cs j) =
     jar_cookies j @ map (\<lambda>c. (cookie_key c, c)) cs"
proof (induction cs arbitrary: j)
  case (Cons c cs)
  have "jar_cookies (put_cookie (cookie_key c) c j) = jar_cookies j @ [(cookie_key c, c)]"
    using Cons.prems(1) by (auto simp: put_cookies intro: keys_update_absent)
  then show ?case using Cons.IH [of "put_cookie (cookie_key c) c j"] Cons.prems by simp
qed simp

text \<open>
  Loading a snapshot into a new jar gives back the live cookies in their order.
\<close>

lemma load_snapshot:
  assumes ok: "jar_ok j" and "within_limits j"
  shows "jar_cookies (load (fst (snapshot now j)) now empty_jar) =
    filter (\<lambda>p. \<not> is_expired (snd p) now) (jar_cookies j)"
proof -
  let ?live = "filter (\<lambda>p. \<not> is_expired (snd p) now) (jar_cookies j)"
  have snap: "fst (snapshot now j) = map snd ?live"
    using ok by (simp add: snapshot_def Let_def drop_expired_cookies jar_ok_def)
  define j1 where "j1 = fold (\<lambda>c j. if is_expired c now then j else put_cookie (cookie_key c) c j)
      (map snd ?live) empty_jar"
  have key: "cookie_key (snd p) = fst p" if "p \<in> set (jar_cookies j)" for p
    using ok that by (auto simp: jar_ok_def)
  have keys_live: "map cookie_key (map snd ?live) = map fst ?live"
    using key by (simp add: comp_def)
  have "distinct (map fst ?live)" using ok by (simp add: jar_ok_def distinct_map_filter)
  then have "distinct (keys (jar_cookies empty_jar) @ map cookie_key (map snd ?live))"
    unfolding keys_live by (simp add: empty_jar_def)
  then have "jar_cookies j1 = map (\<lambda>c. (cookie_key c, c)) (map snd ?live)"
    unfolding j1_def by (subst puts_fresh) (auto simp: empty_jar_def)
  also have "\<dots> = map (\<lambda>p. (cookie_key (snd p), snd p)) ?live" by (simp add: comp_def)
  also have "\<dots> = ?live" by (rule map_idI) (simp add: key)
  finally have j1: "jar_cookies j1 = ?live" .
  have "subseq ?live (jar_cookies j)" by simp
  then have "within_limits j1"
    using assms(2) domain_count_subseq [of ?live "jar_cookies j"] list_emb_length [of _ ?live "jar_cookies j"]
    unfolding within_limits_def j1 by (meson of_nat_mono order.trans length_filter_le)
  then have "evict now j1 = j1" by (intro evict_within) (auto simp: j1)
  then show ?thesis by (simp add: load_def snap j1_def [symmetric] j1)
qed

text \<open>
  Reading what \<open>to_primitive\<close> wrote gives the cookies back, when reading an ISO timestamp
  inverts writing it.
\<close>

lemma state_roundtrip:
  assumes "\<forall>c \<in> set cs. check_cookie c = Inr c"
    and "\<forall>c \<in> set cs. \<forall>t. expires_at c = Some t \<longrightarrow> from_iso cd (to_iso cd t) = Inr (t, True)"
  shows "state_from_primitive cd (state_to_primitive cd cs) = Inr cs"
proof -
  have one: "cookie_from_primitive cd (cookie_to_primitive cd c) = Inr c" if "c \<in> set cs" for c
  proof -
    have none: "filter (\<lambda>n. map_of (cookie_to_primitive cd c) n = None) required_entries = []"
      by (simp add: required_entries_def cookie_to_primitive_def)
    have "read_expires cd (entry (cookie_to_primitive cd c) ''expires_at'') =
        Inr (map_option (\<lambda>t. (t, True)) (expires_at c))"
      using that assms(2)
      by (cases "expires_at c") (simp_all add: entry_def cookie_to_primitive_def read_expires_def)
    moreover have "map_option fst (map_option (\<lambda>t. (t, True)) x) = x" for x :: "int option"
      by (cases x) simp_all
    moreover have "map_option snd (map_option (\<lambda>t :: int. (t, True)) x) \<noteq> Some False" for x
      by (cases x) simp_all
    moreover have eta: "\<lparr>cookie_name = cookie_name c, cookie_value = cookie_value c,
        cookie_domain = cookie_domain c, cookie_path = cookie_path c, host_only = host_only c,
        expires_at = expires_at c, secure = secure c, http_only = http_only c,
        same_site = same_site c\<rparr> = c"
      by simp
    ultimately have "cookie_from_primitive cd (cookie_to_primitive cd c) = bindE (check_cookie c) Inr"
      unfolding cookie_from_primitive_def Let_def none
      by (subst (3) eta [symmetric]) (simp add: entry_def cookie_to_primitive_def)
    then show ?thesis using that assms(1) by simp
  qed
  have "mapE (\<lambda>v. bindE (as_mapping v) (cookie_from_primitive cd))
      (map (\<lambda>c. PDict (cookie_to_primitive cd c)) cs) = Inr cs"
    using one by (induction cs) simp_all
  then show ?thesis by (simp add: state_from_primitive_def state_to_primitive_def)
qed

section \<open>A concrete jar\<close>

text \<open>Parsers that read \<open>scheme://host/path\<close> and dotted numbers, enough for the examples.\<close>

definition plain_split :: "string \<Rightarrow> (string \<times> string option \<times> string) option" where
  "plain_split url =
     (case py_partition url ''://'' of
        (scheme, _, rest) \<Rightarrow>
          let host = takeWhile (\<lambda>c. c \<noteq> CHR ''/'') rest
          in Some (scheme, Some host, drop (length host) rest))"

definition plain_parsers :: parsers where
  "plain_parsers = \<lparr>p_urlsplit = plain_split,
     p_is_ip = (\<lambda>h. list_all (\<lambda>c. is_digit c \<or> c = CHR ''.'') h), p_date = (\<lambda>_. None)\<rparr>"

definition login_url :: string where "login_url = ''https://auth.mail.example/login''"

definition api_url :: string where "api_url = ''https://api.mail.example/folders''"

definition login_lines :: "string list" where
  "login_lines = [''sid=abc; Domain=mail.example; Path=/; Secure'', ''seen=1; Max-Age=60'']"

definition login_jar :: jar where
  "login_jar = snd (store plain_parsers login_url login_lines 0 None empty_jar)"

definition sid_cookie :: stored_cookie where
  "sid_cookie = \<lparr>cookie_name = ''sid'', cookie_value = ''abc'', cookie_domain = ''mail.example'',
     cookie_path = ''/'', host_only = False, expires_at = None, secure = True, http_only = False,
     same_site = []\<rparr>"

definition seen_cookie :: stored_cookie where
  "seen_cookie = \<lparr>cookie_name = ''seen'', cookie_value = ''1'', cookie_domain = ''auth.mail.example'',
     cookie_path = ''/'', host_only = True, expires_at = Some 60000000, secure = False,
     http_only = False, same_site = []\<rparr>"

lemma login_jar_eq:
  "store plain_parsers login_url login_lines 0 None empty_jar =
     (None, \<lparr>jar_cookies = [(cookie_key sid_cookie, sid_cookie), (cookie_key seen_cookie, seen_cookie)],
             jar_used = [(cookie_key sid_cookie, 1), (cookie_key seen_cookie, 2)], jar_tick = 2\<rparr>)"
  by code_simp

lemma login_jar_cookies:
  "jar_cookies login_jar = [(cookie_key sid_cookie, sid_cookie), (cookie_key seen_cookie, seen_cookie)]"
  by (simp add: login_jar_def login_jar_eq)

lemma login_jar_ok: "jar_ok login_jar"
  unfolding login_jar_def by (rule store_ok [OF empty_jar_ok])

lemma login_jar_limits: "within_limits login_jar"
proof -
  have "int (domain_count d (jar_cookies login_jar)) \<le> 50" for d
    by (simp add: login_jar_cookies domain_count_def)
  moreover have "int (length (jar_cookies login_jar)) \<le> 3000" by (simp add: login_jar_cookies)
  ultimately show ?thesis
    by (simp only: within_limits_def MAX_COOKIES_def MAX_COOKIES_PER_DOMAIN_def) simp
qed

lemma login_targets:
  "parse_target plain_parsers api_url =
     Some \<lparr>target_scheme = ''https'', target_host = ''api.mail.example'', target_path = ''/folders''\<rparr>"
  "parse_target plain_parsers login_url =
     Some \<lparr>target_scheme = ''https'', target_host = ''auth.mail.example'', target_path = ''/login''\<rparr>"
  by code_simp+

lemma login_select: "fst (select plain_parsers api_url 1 login_jar) = [sid_cookie]"
  by code_simp

lemma cookies_valid: "check_cookie sid_cookie = Inr sid_cookie" "check_cookie seen_cookie = Inr seen_cookie"
  by code_simp+

theorem jar_invariant_witness:
  "jar_ok (snd (select plain_parsers api_url 1 login_jar)) \<and> jar_ok (load [sid_cookie] 0 login_jar)"
  using jar_invariant [OF login_jar_ok, where ps = plain_parsers and url = api_url and now = 1]
    jar_invariant [OF login_jar_ok, where now = 0 and cs = "[sid_cookie]"] cookies_valid by simp

lemma jar_bounded_witness: "within_limits (load [sid_cookie] 0 login_jar) \<and> within_limits login_jar"
  using jar_bounded [OF login_jar_ok, where cs = "[sid_cookie]" and now = 0]
    jar_bounded [OF empty_jar_ok, where cs = "[]" and ps = plain_parsers and url = login_url
      and lines = login_lines and now = 0 and psl = None and j' = login_jar]
    login_jar_eq login_targets(2) cookies_valid
  by (simp add: login_jar_def)

lemma select_spec_witness:
  "mset (fst (select plain_parsers api_url 1 login_jar)) = {#sid_cookie#}"
  using select_spec [OF login_jar_ok login_targets(1), of 1 0]
  by (simp add: login_select)

theorem set_cookie_scope_witness:
  "under plain_parsers ''auth.mail.example'' sid_cookie \<and> suffix_free None (cookie_domain sid_cookie)"
proof -
  have store: "store plain_parsers login_url login_lines 0 None empty_jar = (None, login_jar)"
    by (simp add: login_jar_def login_jar_eq)
  have "sid_cookie \<in> snd ` set (jar_cookies login_jar)" by (simp add: login_jar_cookies)
  moreover have "sid_cookie \<notin> snd ` set (jar_cookies empty_jar)" by (simp add: empty_jar_def)
  moreover have "sid_cookie \<in> set (fst (select plain_parsers api_url 1 login_jar))"
    by (simp add: login_select)
  ultimately have "under plain_parsers ''auth.mail.example'' sid_cookie \<and>
      (cookie_domain sid_cookie \<noteq> ''auth.mail.example'' \<longrightarrow> suffix_free None (cookie_domain sid_cookie))"
    using set_cookie_scope [OF store login_targets(2) _ _ _ empty_jar_ok] by simp
  then show ?thesis by (simp add: sid_cookie_def)
qed

lemma login_evicted:
  "keys (jar_cookies (drop_least_used [cookie_key seen_cookie, cookie_key sid_cookie] 1 login_jar)) =
     [cookie_key seen_cookie]"
  by code_simp

lemma eviction_takes_least_used_witness:
  "last_used login_jar (cookie_key sid_cookie) \<le> last_used login_jar (cookie_key seen_cookie)"
proof (rule eviction_takes_least_used)
  let ?ks = "[cookie_key seen_cookie, cookie_key sid_cookie]"
  have kept: "fst ` set (jar_cookies (drop_least_used ?ks 1 login_jar)) = {cookie_key seen_cookie}"
    using login_evicted by (metis list.set(1) list.set(2) list.set_map)
  show "cookie_key sid_cookie \<in> set ?ks" "cookie_key seen_cookie \<in> set ?ks" by simp_all
  show "cookie_key sid_cookie \<in> fst ` set (jar_cookies login_jar)" by (simp add: login_jar_cookies)
  show "cookie_key sid_cookie \<notin> fst ` set (jar_cookies (drop_least_used ?ks 1 login_jar))"
    "cookie_key seen_cookie \<in> fst ` set (jar_cookies (drop_least_used ?ks 1 login_jar))"
    unfolding kept by (simp_all add: cookie_key_def sid_cookie_def seen_cookie_def)
qed

lemma load_snapshot_witness:
  "jar_cookies (load (fst (snapshot 70000000 login_jar)) 70000000 empty_jar) = [(cookie_key sid_cookie, sid_cookie)]"
  using load_snapshot [OF login_jar_ok login_jar_limits, of 70000000]
  by (simp add: login_jar_cookies sid_cookie_def seen_cookie_def is_expired_def)

definition unary_codec :: codec where
  "unary_codec = \<lparr>to_iso = (\<lambda>t. replicate (nat t) (CHR ''x'')),
     from_iso = (\<lambda>s. Inr (int (length s), True)), str_of = (\<lambda>_. [])\<rparr>"

lemma state_roundtrip_witness:
  "state_from_primitive unary_codec (state_to_primitive unary_codec [sid_cookie, seen_cookie]) =
     Inr [sid_cookie, seen_cookie]"
  by (rule state_roundtrip)
    (simp_all add: cookies_valid unary_codec_def, simp add: sid_cookie_def seen_cookie_def)

section \<open>Two divergences\<close>

text \<open>
  An attribute that does not parse is to be ignored, but a \<open>Max-Age\<close> too large for a date
  raises out of the store: the cookie is lost and the caller gets an \<open>OverflowError\<close>.
\<close>

lemma huge_max_age_escapes:
  "store plain_parsers login_url [''a=1; Max-Age=99999999999999''] 0 None empty_jar =
     (Some (PyError ''OverflowError''), empty_jar)"
  by code_simp

text \<open>
  A host that is itself a public suffix can set a cookie for every site under it, by naming
  itself in \<open>Domain\<close>.
\<close>

lemma suffix_cookie_reaches_tenants:
  "header_pairs plain_parsers ''https://other.github.io/'' 0
     (snd (store plain_parsers ''https://github.io/'' [''a=1; Domain=github.io''] 0
        (Some (\<lambda>d. d = ''github.io'')) empty_jar)) = [(''a'', ''1'')]"
  by code_simp

end
