(* ===== verification/Attempts.thy ===== *)
theory Attempts
  imports Kernel Cookies Complex_Main
begin

text \<open>
  The attempts of one call (\<open>clients/attempts.py\<close>, \<open>clients/_decisions.py\<close>, \<open>policies.py\<close>, the
  coordinator \<open>_AttemptRun\<close> of \<open>clients/executor.py\<close> and the replay guard of
  \<open>protection/advanced.py\<close>): the budgets of a call, the policies that spend them, the one decision
  a response leads to, and the loop that emits attempts until a policy stops it.

  What an attempt meets (preparation, the transport, middleware hooks, the declared responses) is
  the environment of the loop: a function from the state of the attempt and a world \<open>'w\<close> to an
  emission, and one for the effect a decision asks for. The locale \<open>attempt_policy\<close> states what
  the loop relies on in a policy; the five policies interpret it.
\<close>

section \<open>Retry policy and call options\<close>

text \<open>Delays are floating-point numbers in the code and rational numbers here.\<close>

record retry_policy =
  rp_max_attempts :: int
  rp_statuses :: "int list"
  rp_base_delay :: rat
  rp_max_delay :: rat
  rp_jitter :: rat

definition check_retry_policy :: "retry_policy \<Rightarrow> sdk_error + retry_policy" where
  "check_retry_policy p =
     (if rp_max_attempts p < 1 then Inl (PyValueError ''max_attempts must be at least one'')
      else if rp_base_delay p < 0 \<or> rp_max_delay p < 0 \<or> rp_jitter p < 0
        then Inl (PyValueError ''retry delays and jitter cannot be negative'')
      else if rp_max_delay p \<noteq> 0 \<and> rp_max_delay p < rp_base_delay p
        then Inl (PyValueError ''base_delay cannot exceed max_delay'')
      else Inr p)"

definition no_retry :: retry_policy where
  "no_retry = \<lparr>rp_max_attempts = 1, rp_statuses = [], rp_base_delay = 0, rp_max_delay = 0, rp_jitter = 0\<rparr>"

definition safe_retry :: retry_policy where
  "safe_retry = \<lparr>rp_max_attempts = 3, rp_statuses = [408, 429, 500, 502, 503, 504],
     rp_base_delay = 0, rp_max_delay = 30, rp_jitter = 0\<rparr>"

definition retries_of :: "retry_policy \<Rightarrow> int" where
  "retries_of p = rp_max_attempts p - 1"

text \<open>What \<open>wait\<close> sleeps for; \<open>random\<close> is the value its random source returns. \<open>None\<close>: no sleep.\<close>

definition retry_delay :: "retry_policy \<Rightarrow> rat \<Rightarrow> int \<Rightarrow> sdk_error + rat option" where
  "retry_delay p random retry_number =
     (if retry_number < 1 then Inl (PyValueError ''retry_number must be at least one'')
      else let d0 = rp_base_delay p * 2 ^ nat (retry_number - 1);
               d1 = (if rp_max_delay p \<noteq> 0 then min d0 (rp_max_delay p) else d0);
               d2 = (if rp_jitter p \<noteq> 0 then d1 + random * rp_jitter p else d1)
           in Inr (if 0 < d2 then Some d2 else None))"

record call_options =
  co_max_attempts :: int
  co_transport_retries :: int
  co_auth_retries :: int
  co_max_redirects :: int
  co_retry :: retry_policy
  co_client_redirects :: bool

definition check_call_options :: "call_options \<Rightarrow> sdk_error + call_options" where
  "check_call_options o' =
     (if co_max_attempts o' < 1 then Inl (PyValueError ''max_attempts must be at least one'')
      else if co_transport_retries o' < 0 \<or> co_auth_retries o' < 0 \<or> co_max_redirects o' < 0
        then Inl (PyValueError ''retry budgets must not be negative'')
      else if co_client_redirects o' \<and> co_max_redirects o' = 0
        then Inl (PyValueError (''client_redirects=True follows nothing with max_redirects=0: a redirect '' @
          ''written into a page spends the same budget as a 3xx''))
      else Inr o')"

lemma retry_delay_bounded:
  assumes "check_retry_policy p = Inr p" and "0 < rp_max_delay p" and "0 \<le> random" and "random \<le> 1"
    and "retry_delay p random n = Inr (Some d)"
  shows "0 < d \<and> d \<le> rp_max_delay p + rp_jitter p"
proof -
  have jitter: "random * rp_jitter p \<le> rp_jitter p" "0 \<le> random * rp_jitter p" "0 \<le> rp_jitter p"
    using assms(1,3,4) by (auto simp: check_retry_policy_def mult_left_le_one_le split: if_splits)
  then show ?thesis
    using assms(2,5) by (auto simp: retry_delay_def Let_def min_def split: if_splits)
qed

section \<open>Errors of a call\<close>

datatype call_error =
    TransportError string
  | UnsafeReplayError string
  | RedirectLimitError string
  | AttemptLimitError string
  | ReplayDeniedError string
  | RejectedError string
  | CallRaised sdk_error

section \<open>Budgets and the state of an attempt\<close>

record budgets =
  b_transport :: int
  b_auth :: int
  b_redirect :: int
  b_replays :: "(string, int) dict"
  b_hard :: int

definition budgets_of ::
  "int \<Rightarrow> int \<Rightarrow> int \<Rightarrow> int \<Rightarrow> (string, int) dict \<Rightarrow> budgets" where
  "budgets_of max_attempts transport_retries auth_retries max_redirects replays =
     \<lparr>b_transport = transport_retries, b_auth = auth_retries, b_redirect = max_redirects,
      b_replays = replays, b_hard = max_attempts + sum_list (map snd replays)\<rparr>"

definition base_attempts :: "budgets \<Rightarrow> int" where
  "base_attempts b = b_hard b - b_transport b - b_auth b - b_redirect b - sum_list (map snd (b_replays b))"

datatype budget_name = TransportBudget | AuthBudget | RedirectBudget | ReplayBudget string

text \<open>A replay budget is looked up before it is spent (\<open>_reaction\<close>), so its key is there.\<close>

fun spend :: "budget_name \<Rightarrow> budgets \<Rightarrow> budgets" where
  "spend TransportBudget b = b\<lparr>b_transport := b_transport b - 1\<rparr>"
| "spend AuthBudget b = b\<lparr>b_auth := b_auth b - 1\<rparr>"
| "spend RedirectBudget b = b\<lparr>b_redirect := b_redirect b - 1\<rparr>"
| "spend (ReplayBudget p) b =
     (case map_of (b_replays b) p of
        None \<Rightarrow> b
      | Some n \<Rightarrow> b\<lparr>b_replays := AList.update p (n - 1) (b_replays b)\<rparr>)"

text \<open>The kinds of attempt; a middleware names its own.\<close>

datatype attempt_kind =
    Initial | TransportRetry | ResponseRetry | Redirect | AuthRefresh | Reaction | MiddlewareKind string

record attempt_state =
  as_number :: int
  as_kind :: attempt_kind
  as_url :: string
  as_reason :: string
  as_method :: "string option"
  as_omit_body :: bool
  as_redirected :: bool
  as_retries :: int
  as_budgets :: budgets
  as_correlation :: "string option"

definition initial_attempt :: "string \<Rightarrow> budgets \<Rightarrow> string option \<Rightarrow> attempt_state" where
  "initial_attempt url b correlation =
     \<lparr>as_number = 1, as_kind = Initial, as_url = url, as_reason = ''first attempt'', as_method = None,
      as_omit_body = False, as_redirected = False, as_retries = 0, as_budgets = b,
      as_correlation = correlation\<rparr>"

definition next_attempt :: "attempt_kind \<Rightarrow> string \<Rightarrow> attempt_state \<Rightarrow> attempt_state" where
  "next_attempt kind reason st = st\<lparr>as_number := as_number st + 1, as_kind := kind, as_reason := reason\<rparr>"

definition effective_method :: "attempt_state \<Rightarrow> string \<Rightarrow> string" where
  "effective_method st declared = (case as_method st of Some (c # cs) \<Rightarrow> c # cs | _ \<Rightarrow> declared)"

section \<open>Decisions\<close>

text \<open>A matched challenge: the signal it is of.\<close>

record continuation =
  c_state :: attempt_state
  c_patch :: "value_patch option"
  c_wait :: "int option"
  c_refresh_auth :: bool
  c_reaction :: "nat option"

definition continue :: "attempt_state \<Rightarrow> continuation" where
  "continue st = \<lparr>c_state = st, c_patch = None, c_wait = None, c_refresh_auth = False, c_reaction = None\<rparr>"

datatype 'v decision = Continue continuation | Stop 'v | Fail call_error

record transport_failure =
  tf_error :: string
  tf_proposed :: bool
  tf_idempotent :: bool
  tf_retries_configured :: bool

definition transport_retry_decide :: "attempt_state \<Rightarrow> transport_failure \<Rightarrow> 'v decision" where
  "transport_retry_decide st f =
     (if b_transport (as_budgets st) \<le> 0 \<and> \<not> tf_proposed f then Fail (TransportError (tf_error f))
      else if \<not> tf_idempotent f then
        (if tf_retries_configured f
         then Fail (UnsafeReplayError ''retry policy requires an idempotent operation'')
         else Fail (TransportError (tf_error f)))
      else if b_transport (as_budgets st) \<le> 0
        then Continue (continue (next_attempt TransportRetry ''middleware proposed a replay'' st))
      else Continue ((continue ((next_attempt TransportRetry ''transport error, retry budget'' st)
             \<lparr>as_budgets := spend TransportBudget (as_budgets st), as_retries := as_retries st + 1\<rparr>))
             \<lparr>c_wait := Some (as_retries st + 1)\<rparr>))"

definition response_retry_decide ::
  "attempt_state \<Rightarrow> attempt_kind \<times> value_patch option \<times> bool \<Rightarrow> 'v decision" where
  "response_retry_decide st i =
     (case i of (kind, patch, consumes_transport) \<Rightarrow>
        if \<not> consumes_transport
        then Continue ((continue (next_attempt kind ''middleware proposed a replay'' st))\<lparr>c_patch := patch\<rparr>)
        else Continue ((continue ((next_attempt kind ''retryable response status'' st)
               \<lparr>as_budgets := spend TransportBudget (as_budgets st), as_retries := as_retries st + 1\<rparr>))
               \<lparr>c_patch := patch, c_wait := Some (as_retries st + 1)\<rparr>))"

definition redirect_decide :: "attempt_state \<Rightarrow> string \<times> string option \<times> bool \<Rightarrow> 'v decision" where
  "redirect_decide st i =
     (case i of (url, method, omit_body) \<Rightarrow>
        Continue (continue ((next_attempt Redirect ''redirect response'' st)
          \<lparr>as_budgets := spend RedirectBudget (as_budgets st), as_url := url, as_redirected := True,
           as_method := (if method \<noteq> None then method else as_method st),
           as_omit_body := as_omit_body st \<or> omit_body\<rparr>)))"

definition auth_refresh_decide :: "attempt_state \<Rightarrow> unit \<Rightarrow> 'v decision" where
  "auth_refresh_decide st u =
     Continue ((continue ((next_attempt AuthRefresh ''authentication rejected'' st)
       \<lparr>as_budgets := spend AuthBudget (as_budgets st)\<rparr>))\<lparr>c_refresh_auth := True\<rparr>)"

definition protection_decide :: "attempt_state \<Rightarrow> string \<times> nat \<Rightarrow> 'v decision" where
  "protection_decide st i =
     (case i of (policy, signal) \<Rightarrow>
        Continue ((continue ((next_attempt Reaction (''protection challenge: '' @ policy) st)
          \<lparr>as_budgets := spend (ReplayBudget policy) (as_budgets st)\<rparr>))\<lparr>c_reaction := Some signal\<rparr>))"

section \<open>The decision a response leads to\<close>

datatype proposal = RetryAttempt string value_patch | RedirectTo string | OtherAction

datatype 'v outcome = SuccessOutcome 'v | ErrorOutcome bool string | UnexpectedOutcome string | MalformedOutcome string

fun undescribed :: "'v outcome option \<Rightarrow> bool" where
  "undescribed (Some (UnexpectedOutcome _)) = True"
| "undescribed (Some (MalformedOutcome _)) = True"
| "undescribed _ = False"

fun asks_reauth :: "'v outcome option \<Rightarrow> bool" where
  "asks_reauth (Some (ErrorOutcome reauth _)) = reauth"
| "asks_reauth _ = False"

text \<open>
  What the decision reads of a response. \<open>r_meta_target\<close> is what \<open>meta_refresh_target\<close> finds in the
  page; \<open>r_raw\<close> is the response as a value, for an operation that declares a raw response.
\<close>

record 'v response_info =
  r_status :: int
  r_location :: "string option"
  r_url :: string
  r_meta_target :: "string option"
  r_raw :: 'v
  r_proposed :: "proposal option"
  r_signal :: "nat option"
  r_outcome :: "'v outcome option"
  r_refreshable :: bool
  r_declared :: bool

record call_config =
  cc_method :: string
  cc_idempotent :: bool
  cc_raw_response :: bool
  cc_retry_statuses :: "int list"
  cc_retries_configured :: bool
  cc_client_redirects :: bool
  cc_urljoin :: "string \<Rightarrow> string \<Rightarrow> string"

datatype 'v response_decision =
    RetryTransition attempt_kind "value_patch option" bool
  | RedirectTransition string "string option" bool
  | ReactionTransition nat
  | AuthRefreshTransition
  | TerminalResponse 'v
  | RejectedResponse "'v outcome"

definition redirect_statuses :: "int list" where
  "redirect_statuses = [301, 302, 303, 307, 308]"

definition require_idempotent :: "bool \<Rightarrow> string \<Rightarrow> call_error + unit" where
  "require_idempotent idempotent source =
     (if \<not> idempotent then Inl (UnsafeReplayError (source @ '' requires an idempotent operation'')) else Inr ())"

definition require_redirect_budget :: "int \<Rightarrow> call_error + unit" where
  "require_redirect_budget remaining =
     (if remaining \<le> 0 then Inl (RedirectLimitError ''redirect budget exhausted'') else Inr ())"

text \<open>The decision once no redirect is followed.\<close>

definition decide_terminal :: "call_config \<Rightarrow> 'v response_info \<Rightarrow> call_error + 'v response_decision" where
  "decide_terminal cfg r =
     (if cc_raw_response cfg then Inr (TerminalResponse (r_raw r))
      else case r_outcome r of
        Some (SuccessOutcome v) \<Rightarrow> Inr (TerminalResponse v)
      | Some outcome \<Rightarrow> Inr (RejectedResponse outcome)
      | None \<Rightarrow> Inl (CallRaised (PyError ''AssertionError'')))"

definition decide_redirect ::
  "call_config \<Rightarrow> attempt_state \<Rightarrow> 'v response_info \<Rightarrow> call_error + 'v response_decision" where
  "decide_redirect cfg st r =
     (let remaining = b_redirect (as_budgets st); method = effective_method st (cc_method cfg) in
      case (if r_status r \<in> set redirect_statuses \<and> \<not> r_declared r then r_location r else None) of
        Some location \<Rightarrow>
          bindE (require_redirect_budget remaining) (\<lambda>_.
            let downgrade = (r_status r = 303 \<and> method \<noteq> ''HEAD'') \<or>
                  (r_status r \<in> {301, 302} \<and> method = ''POST'') in
            Inr (RedirectTransition
              (cc_urljoin cfg (if r_url r = [] then as_url st else r_url r) location)
              (if downgrade then Some ''GET'' else None) downgrade))
      | None \<Rightarrow>
          (case (if cc_client_redirects cfg \<and> \<not> cc_raw_response cfg \<and> r_status r = 200 \<and>
                    undescribed (r_outcome r) then r_meta_target r else None) of
             Some page \<Rightarrow>
               if page \<noteq> as_url st
               then bindE (require_redirect_budget remaining)
                      (\<lambda>_. Inr (RedirectTransition page (Some ''GET'') True))
               else decide_terminal cfg r
           | None \<Rightarrow> decide_terminal cfg r))"

definition decide_response ::
  "call_config \<Rightarrow> attempt_state \<Rightarrow> 'v response_info \<Rightarrow> call_error + 'v response_decision" where
  "decide_response cfg st r =
     (let b = as_budgets st in
      case r_proposed r of
        Some (RetryAttempt kind patch) \<Rightarrow>
          bindE (require_idempotent (cc_idempotent cfg) ''middleware replay'')
            (\<lambda>_. Inr (RetryTransition (MiddlewareKind kind) (Some patch) False))
      | Some (RedirectTo url) \<Rightarrow>
          bindE (require_redirect_budget (b_redirect b))
            (\<lambda>_. Inr (RedirectTransition (cc_urljoin cfg (as_url st) url) None False))
      | _ \<Rightarrow>
          if r_status r \<in> set (cc_retry_statuses cfg) \<and> 0 < b_transport b \<and> as_number st < b_hard b
          then bindE (require_idempotent (cc_idempotent cfg) ''retry policy'')
                 (\<lambda>_. Inr (RetryTransition ResponseRetry None True))
          else case r_signal r of
            Some signal \<Rightarrow> Inr (ReactionTransition signal)
          | None \<Rightarrow>
              if (r_status r = 401 \<or> asks_reauth (r_outcome r)) \<and> 0 < b_auth b \<and>
                 as_number st < b_hard b \<and> r_refreshable r
              then bindE (require_idempotent (cc_idempotent cfg) ''auth refresh'')
                     (\<lambda>_. Inr AuthRefreshTransition)
              else decide_redirect cfg st r)"

section \<open>Challenge signals and the replay guard\<close>

text \<open>\<open>_inspect_signals\<close>: a signal's scope, prefilter and parser, applied to the response, give one of these.\<close>

datatype 'v probe = OutOfScope | Parsed 'v | MalformedProbe string | NoMatchProbe

record response_signal =
  sig_id :: nat
  sig_priority :: int
  sig_definitive :: bool

datatype 'v signal_outcome = SignalMatch response_signal 'v | MalformedSignal response_signal string
  | AmbiguousSignal "response_signal list" | NoSignal

fun collect_signals ::
  "(response_signal \<times> 'v probe) list \<Rightarrow> (response_signal \<times> 'v) list \<Rightarrow>
     (response_signal \<times> string) + (response_signal \<times> 'v) list" where
  "collect_signals [] found = Inr found"
| "collect_signals ((s, p) # rest) found =
     (case p of
        Parsed v \<Rightarrow> collect_signals rest (found @ [(s, v)])
      | MalformedProbe cause \<Rightarrow>
          if sig_definitive s then Inl (s, cause) else collect_signals rest found
      | _ \<Rightarrow> collect_signals rest found)"

definition inspect_signals :: "(response_signal \<times> 'v probe) list \<Rightarrow> 'v signal_outcome" where
  "inspect_signals probes =
     (case collect_signals probes [] of
        Inl (s, cause) \<Rightarrow> MalformedSignal s cause
      | Inr [] \<Rightarrow> NoSignal
      | Inr matches \<Rightarrow>
          (let ordered = sort_key (\<lambda>m. - sig_priority (fst m)) matches;
               highest = sig_priority (fst (hd ordered));
               winners = filter (\<lambda>m. sig_priority (fst m) = highest) ordered in
           if 1 < length winners \<and> list_all (\<lambda>m. sig_definitive (fst m)) winners
           then AmbiguousSignal (map fst winners)
           else SignalMatch (fst (hd winners)) (snd (hd winners))))"

datatype replay_safety =
    SAFE_METHOD | IDEMPOTENCY_KEY | REJECTED_BEFORE_EXECUTION | REJECTED_BEFORE_ORIGIN

datatype body_replay = REQUIRE_REPLAYABLE | DENY

record replay_rule =
  rr_max_replays :: int
  rr_safety :: replay_safety
  rr_proof_name :: "string option"
  rr_body :: body_replay

text \<open>\<open>ReplayPolicy.__post_init__\<close>; \<open>field_name\<close> is the test for an HTTP field name.\<close>

definition check_replay_rule :: "(string \<Rightarrow> bool) \<Rightarrow> replay_rule \<Rightarrow> sdk_error + replay_rule" where
  "check_replay_rule field_name r =
     (if rr_max_replays r < 0 then Inl (PyValueError ''replay budget cannot be negative'')
      else if rr_safety r = IDEMPOTENCY_KEY
        then (case rr_proof_name r of
                Some n \<Rightarrow> if field_name n then Inr r
                         else Inl (PyValueError ''idempotency proof must be a valid HTTP field name'')
              | None \<Rightarrow> Inl (PyValueError ''idempotency proof must be a valid HTTP field name''))
      else if rr_proof_name r \<noteq> None
        then Inl (PyValueError ''replay proof applies only to idempotency-key safety'')
      else Inr r)"

text \<open>
  The request of the attempt, as the guard sees it: its method, whether its body can be sent again
  and the header slots that hold a value.
\<close>

record replay_context =
  rc_method :: string
  rc_replayable :: bool
  rc_headers :: "string list"

definition upper :: "string \<Rightarrow> string" where
  "upper s = map (\<lambda>c. if CHR ''a'' \<le> c \<and> c \<le> CHR ''z'' then char_of (of_char c - 32 :: nat) else c) s"

definition ensure_replay_allowed ::
  "replay_context \<Rightarrow> replay_rule \<Rightarrow> bool \<Rightarrow> int option \<Rightarrow> call_error + unit" where
  "ensure_replay_allowed ctx r origin_may_have_executed remaining =
     (if rr_max_replays r \<le> 0 then Inl (ReplayDeniedError ''reaction replay is disabled'')
      else if (case remaining of Some n \<Rightarrow> n \<le> 0 | None \<Rightarrow> False)
        then Inl (ReplayDeniedError ''reaction replay budget of this policy is exhausted'')
      else if rr_body r = DENY then Inl (ReplayDeniedError ''body replay policy denies replay'')
      else if \<not> rc_replayable ctx then Inl (ReplayDeniedError ''request body is not mechanically replayable'')
      else if \<not> origin_may_have_executed then Inr ()
      else let method = upper (rc_method ctx) in
        if rr_safety r = SAFE_METHOD \<and> method \<in> {''GET'', ''HEAD'', ''OPTIONS''} then Inr ()
        else if rr_safety r = IDEMPOTENCY_KEY \<and>
            (case rr_proof_name r of Some n \<Rightarrow> n \<in> set (rc_headers ctx) | None \<Rightarrow> False) then Inr ()
        else if rr_safety r \<in> {REJECTED_BEFORE_EXECUTION, REJECTED_BEFORE_ORIGIN} then Inr ()
        else Inl (ReplayDeniedError (''unsafe replay is not proven for '' @ method)))"

section \<open>The coordinator\<close>

text \<open>
  What one attempt leads to: the transport fails, a response arrives (with the request's replay
  context), or something before or after the exchange raises.
\<close>

datatype 'v emission =
    TransportFailed string bool
  | Answered "'v response_info" replay_context
  | EmissionRaised call_error

record challenge_policy =
  cp_signal :: nat
  cp_identity :: string
  cp_replay :: replay_rule

definition reaction_decision ::
  "challenge_policy list \<Rightarrow> attempt_state \<Rightarrow> nat \<Rightarrow> replay_context \<Rightarrow> 'v decision" where
  "reaction_decision policies st signal ctx =
     (case find (\<lambda>p. cp_signal p = signal) policies of
        None \<Rightarrow> Fail (CallRaised (PyError ''StopIteration''))
      | Some p \<Rightarrow>
          (case map_of (b_replays (as_budgets st)) (cp_identity p) of
             None \<Rightarrow> Fail (CallRaised (PyError ''KeyError''))
           | Some remaining \<Rightarrow>
               (case ensure_replay_allowed ctx (cp_replay p) True (Some remaining) of
                  Inl e \<Rightarrow> Fail e
                | Inr _ \<Rightarrow> protection_decide st (cp_identity p, signal))))"

fun rejected_message :: "'v outcome \<Rightarrow> string" where
  "rejected_message (SuccessOutcome v) = []"
| "rejected_message (ErrorOutcome reauth msg) = msg"
| "rejected_message (UnexpectedOutcome msg) = msg"
| "rejected_message (MalformedOutcome msg) = msg"

definition route ::
  "challenge_policy list \<Rightarrow> attempt_state \<Rightarrow> replay_context \<Rightarrow> 'v response_decision \<Rightarrow> 'v decision" where
  "route policies st ctx d =
     (case d of
        RetryTransition kind patch consumes \<Rightarrow> response_retry_decide st (kind, patch, consumes)
      | RedirectTransition url method omit_body \<Rightarrow> redirect_decide st (url, method, omit_body)
      | ReactionTransition signal \<Rightarrow> reaction_decision policies st signal ctx
      | AuthRefreshTransition \<Rightarrow> auth_refresh_decide st ()
      | TerminalResponse v \<Rightarrow> Stop v
      | RejectedResponse outcome \<Rightarrow> Fail (RejectedError (rejected_message outcome)))"

definition attempt_decision ::
  "call_config \<Rightarrow> challenge_policy list \<Rightarrow> attempt_state \<Rightarrow> 'v emission \<Rightarrow> 'v decision" where
  "attempt_decision cfg policies st em =
     (case em of
        EmissionRaised e \<Rightarrow> Fail e
      | TransportFailed e proposed \<Rightarrow>
          transport_retry_decide st \<lparr>tf_error = e, tf_proposed = proposed, tf_idempotent = cc_idempotent cfg,
            tf_retries_configured = cc_retries_configured cfg\<rparr>
      | Answered r ctx \<Rightarrow>
          (case decide_response cfg st r of Inl e \<Rightarrow> Fail e | Inr d \<Rightarrow> route policies st ctx d))"

section \<open>The interface: a policy of the loop\<close>

text \<open>
  A policy that continues moves to the next attempt, never touches the hard limit and never gives
  a budget back.
\<close>

definition advances :: "attempt_state \<Rightarrow> attempt_state \<Rightarrow> bool" where
  "advances st st' \<longleftrightarrow>
     as_number st' = as_number st + 1 \<and> b_hard (as_budgets st') = b_hard (as_budgets st) \<and>
     b_transport (as_budgets st') \<le> b_transport (as_budgets st) \<and>
     b_auth (as_budgets st') \<le> b_auth (as_budgets st) \<and>
     b_redirect (as_budgets st') \<le> b_redirect (as_budgets st) \<and>
     keys (b_replays (as_budgets st')) = keys (b_replays (as_budgets st)) \<and>
     (\<forall>p n. map_of (b_replays (as_budgets st)) p = Some n \<longrightarrow>
        (\<exists>m \<le> n. map_of (b_replays (as_budgets st')) p = Some m))"

locale attempt_policy =
  fixes decide :: "attempt_state \<Rightarrow> 'i \<Rightarrow> 'v decision"
  assumes decide_advances: "decide st i = Continue c \<Longrightarrow> advances st (c_state c)"
begin

lemma decide_progress:
  assumes "decide st i = Continue c" and "as_number st \<le> b_hard (as_budgets st)"
  shows "nat (b_hard (as_budgets (c_state c)) + 1 - as_number (c_state c))
    < nat (b_hard (as_budgets st) + 1 - as_number st)"
  using decide_advances [OF assms(1)] assms(2) by (simp add: advances_def)

lemma decide_hard_limit:
  "decide st i = Continue c \<Longrightarrow> b_hard (as_budgets (c_state c)) = b_hard (as_budgets st)"
  using decide_advances by (simp add: advances_def)

end

lemma spend_replay_keys [simp]: "keys (b_replays (spend n b)) = keys (b_replays b)"
proof (cases n)
  case (ReplayBudget p)
  show ?thesis
  proof (cases "map_of (b_replays b) p")
    case (Some m)
    then have "p \<in> fst ` set (b_replays b)" by (metis domI dom_map_of_conv_image_fst)
    then show ?thesis using Some ReplayBudget by (simp add: keys_update_present)
  qed (simp add: ReplayBudget)
qed simp_all

lemma spend_le:
  "b_hard (spend n b) = b_hard b" "b_transport (spend n b) \<le> b_transport b"
  "b_auth (spend n b) \<le> b_auth b" "b_redirect (spend n b) \<le> b_redirect b"
  "map_of (b_replays b) p = Some m \<Longrightarrow> \<exists>k \<le> m. map_of (b_replays (spend n b)) p = Some k"
  by (cases n; auto split: option.split)+

lemma advances_same:
  "as_number st' = as_number st + 1 \<Longrightarrow> as_budgets st' = as_budgets st \<Longrightarrow> advances st st'"
  unfolding advances_def by auto

lemma advances_spend:
  "as_number st' = as_number st + 1 \<Longrightarrow> as_budgets st' = spend n (as_budgets st) \<Longrightarrow> advances st st'"
  unfolding advances_def by (auto simp: spend_le simp del: spend.simps)

lemma continue_state [simp]: "c_state (continue st) = st"
  by (simp add: continue_def)

interpretation transport_retry: attempt_policy transport_retry_decide
  by unfold_locales
    (auto simp: transport_retry_decide_def next_attempt_def split: if_splits simp del: spend.simps
      intro: advances_same advances_spend)

interpretation response_retry: attempt_policy response_retry_decide
  by unfold_locales
    (auto simp: response_retry_decide_def next_attempt_def split: if_splits prod.splits simp del: spend.simps
      intro: advances_same advances_spend)

interpretation redirect: attempt_policy redirect_decide
  by unfold_locales
    (auto simp: redirect_decide_def next_attempt_def split: prod.splits simp del: spend.simps
      intro: advances_same advances_spend)

interpretation auth_refresh: attempt_policy auth_refresh_decide
  by unfold_locales (auto simp: auth_refresh_decide_def next_attempt_def simp del: spend.simps
      intro: advances_same advances_spend)

interpretation protection: attempt_policy protection_decide
  by unfold_locales
    (auto simp: protection_decide_def next_attempt_def split: prod.splits simp del: spend.simps
      intro: advances_same advances_spend)

interpretation reaction: attempt_policy "\<lambda>st (policies, signal, ctx). reaction_decision policies st signal ctx"
  by unfold_locales
    (auto simp: reaction_decision_def split: option.splits sum.splits intro: protection.decide_advances)

lemma reaction_advances:
  "reaction_decision policies st signal ctx = Continue c \<Longrightarrow> advances st (c_state c)"
  using reaction.decide_advances [of st "(policies, signal, ctx)" c] by simp

lemma attempt_decision_advances:
  assumes "attempt_decision cfg policies st em = Continue c"
  shows "advances st (c_state c)"
  using assms
  by (auto simp: attempt_decision_def route_def
      split: emission.splits sum.splits response_decision.splits
      intro: transport_retry.decide_advances response_retry.decide_advances redirect.decide_advances
        auth_refresh.decide_advances reaction_advances)

interpretation coordinator: attempt_policy "\<lambda>st (cfg, policies, em). attempt_decision cfg policies st em"
  by unfold_locales (auto intro: attempt_decision_advances)

section \<open>The loop\<close>

text \<open>
  The environment: what an attempt meets, the effect of a continuation (\<open>_commit\<close>: apply the patch,
  wait, refresh the security, solve the challenge) with the error that escapes it, and whether the
  protocol asks for a new correlation on every repeat.
\<close>

record ('v, 'w) call_env =
  env_emit :: "attempt_state \<Rightarrow> 'w \<Rightarrow> 'v emission \<times> 'w"
  env_commit :: "continuation \<Rightarrow> 'w \<Rightarrow> call_error option \<times> 'w"
  env_regenerate :: bool
  env_correlation :: "'w \<Rightarrow> string option \<times> 'w"

definition recorrelate ::
  "('v, 'w) call_env \<Rightarrow> attempt_state \<Rightarrow> 'w \<Rightarrow> attempt_state \<times> 'w" where
  "recorrelate env st w =
     (if env_regenerate env
      then (case env_correlation env w of (c, w') \<Rightarrow> (st\<lparr>as_correlation := c\<rparr>, w'))
      else (st, w))"

lemma recorrelate_state:
  "recorrelate env st w = (st', w') \<Longrightarrow> \<exists>c. st' = st\<lparr>as_correlation := c\<rparr>"
  by (auto simp: recorrelate_def split: if_splits prod.splits intro: exI [of _ "as_correlation st"])

lemma run_progress:
  assumes "attempt_decision cfg policies st em = Continue c"
    and "\<not> b_hard (as_budgets st) < as_number st"
  shows "(case recorrelate env (c_state c) w2 of
      (st', w3) \<Rightarrow> nat (b_hard (as_budgets st') + 1 - as_number st')) < nat (b_hard (as_budgets st) + 1 - as_number st)"
proof -
  obtain st' w3 where re: "recorrelate env (c_state c) w2 = (st', w3)" by fastforce
  obtain k where "st' = (c_state c)\<lparr>as_correlation := k\<rparr>"
    using recorrelate_state [OF re] by metis
  then show ?thesis
    using coordinator.decide_progress [of st "(cfg, policies, em)" c] assms re by simp
qed

text \<open>
  \<open>execute\<close>. Beside the result and the world it returns the attempts it started, in order: what the
  observer is told with \<open>start_attempt\<close>.
\<close>

function run_attempts ::
  "call_config \<Rightarrow> challenge_policy list \<Rightarrow> ('v, 'w) call_env \<Rightarrow> attempt_state \<Rightarrow> 'w \<Rightarrow>
     (call_error + 'v) \<times> attempt_state list \<times> 'w" where
  "run_attempts cfg policies env st w =
     (if b_hard (as_budgets st) < as_number st
      then (Inl (AttemptLimitError ''hard attempt budget exhausted''), [], w)
      else case env_emit env st w of
        (em, w1) \<Rightarrow>
          (case attempt_decision cfg policies st em of
             Stop v \<Rightarrow> (Inr v, [st], w1)
           | Fail e \<Rightarrow> (Inl e, [st], w1)
           | Continue c \<Rightarrow>
               (case env_commit env c w1 of
                  (Some e, w2) \<Rightarrow> (Inl e, [st], w2)
                | (None, w2) \<Rightarrow>
                    (case recorrelate env (c_state c) w2 of
                       (st', w3) \<Rightarrow>
                         (case run_attempts cfg policies env st' w3 of
                            (r, tr, w4) \<Rightarrow> (r, st # tr, w4))))))"
  by pat_completeness auto
termination
  by (relation "measure (\<lambda>(cfg, policies, env, st, w). nat (b_hard (as_budgets st) + 1 - as_number st))")
    (auto intro: run_progress)

declare run_attempts.simps [simp del]

text \<open>How a run unfolds: over the limit, one last attempt, or an attempt and the run after it.\<close>

lemma run_attempts_cases:
  fixes env :: "('v, 'w) call_env"
  assumes "run_attempts cfg policies env st w = (r, tr, w')"
  obtains (limit) "b_hard (as_budgets st) < as_number st" "tr = []"
      "r = Inl (AttemptLimitError ''hard attempt budget exhausted'')"
    | (last) "as_number st \<le> b_hard (as_budgets st)" "tr = [st]"
    | (again) em :: "'v emission" and c k st' w3 tr' where "as_number st \<le> b_hard (as_budgets st)" "tr = st # tr'"
        "attempt_decision cfg policies st em = Continue c" "st' = (c_state c)\<lparr>as_correlation := k\<rparr>"
        "run_attempts cfg policies env st' w3 = (r, tr', w')"
proof (cases "b_hard (as_budgets st) < as_number st")
  case True
  then show ?thesis using assms limit by (simp add: run_attempts.simps)
next
  case False
  obtain em w1 where em: "env_emit env st w = (em, w1)" by fastforce
  show ?thesis
  proof (cases "attempt_decision cfg policies st em")
    case (Continue c)
    obtain z w2 where commit: "env_commit env c w1 = (z, w2)" by fastforce
    show ?thesis
    proof (cases z)
      case None
      obtain st' w3 where re: "recorrelate env (c_state c) w2 = (st', w3)" by fastforce
      obtain tr' where "tr = st # tr'" "run_attempts cfg policies env st' w3 = (r, tr', w')"
        using assms False em Continue commit None re
        by (subst (asm) run_attempts.simps) (auto split: prod.splits)
      moreover obtain k where "st' = (c_state c)\<lparr>as_correlation := k\<rparr>"
        using recorrelate_state [OF re] by blast
      ultimately show ?thesis using again [of tr' em c st' k w3] Continue False by simp
    next
      case (Some e)
      then show ?thesis
        using assms False em Continue commit last by (subst (asm) run_attempts.simps) auto
    qed
  qed (use assms False em last in \<open>subst (asm) run_attempts.simps, auto\<close>)+
qed

section \<open>Budgets are kept\<close>

text \<open>A quantity no step raises and every step of one kind lowers by one bounds that kind.\<close>

definition count_kind :: "attempt_kind \<Rightarrow> attempt_state list \<Rightarrow> nat" where
  "count_kind k tr = length (filter (\<lambda>s. as_kind s = k) tr)"

definition count_where :: "(attempt_state \<Rightarrow> bool) \<Rightarrow> attempt_state list \<Rightarrow> nat" where
  "count_where P tr = length (filter P tr)"

lemma count_kind_where: "count_kind k = count_where (\<lambda>s. as_kind s = k)"
  by (simp add: fun_eq_iff count_kind_def count_where_def)

lemma counted_bounded:
  fixes env :: "('v, 'w) call_env"
  assumes step: "\<And>cfg policies st (em :: 'v emission) c. I (as_budgets st) \<Longrightarrow>
      attempt_decision cfg policies st em = Continue c \<Longrightarrow> I (as_budgets (c_state c)) \<and>
      q (as_budgets (c_state c)) + (if P (c_state c) then 1 else 0) \<le> q (as_budgets st)"
    and blind: "\<And>s k. P (s\<lparr>as_correlation := k\<rparr>) = P s"
  shows "I (as_budgets st) \<Longrightarrow> run_attempts cfg policies env st w = (r, tr, w') \<Longrightarrow>
    count_where P (tl tr) \<le> (q (as_budgets st) :: nat)"
proof (induction "length tr" arbitrary: st w tr)
  case 0
  then show ?case by (simp add: count_where_def)
next
  case (Suc n)
  from Suc.prems(2) show ?case
  proof (cases rule: run_attempts_cases)
    case (again em c kk st' w3 tr')
    note s = step [OF Suc.prems(1) again(3)]
    have I: "I (as_budgets st')" and n: "n = length tr'"
      using s again(2,4) Suc.hyps(2) by simp_all
    have "count_where P (tl tr') \<le> q (as_budgets st')"
      by (rule Suc.hyps(1) [OF n I again(5)])
    moreover have "count_where P tr' \<le> (if P st' then 1 else 0) + count_where P (tl tr')"
    proof (cases tr')
      case (Cons x xs)
      then have "x = st'" using again(5) by (auto elim: run_attempts_cases)
      then show ?thesis using Cons by (simp add: count_where_def)
    qed (simp add: count_where_def)
    moreover have "P st' = P (c_state c)" using again(4) blind by simp
    ultimately show ?thesis using s again(2,4) by auto
  qed (simp_all add: count_where_def)
qed

lemma kind_bounded:
  fixes env :: "('v, 'w) call_env"
  assumes "\<And>cfg policies st (em :: 'v emission) c. I (as_budgets st) \<Longrightarrow>
      attempt_decision cfg policies st em = Continue c \<Longrightarrow> I (as_budgets (c_state c)) \<and>
      q (as_budgets (c_state c)) + (if as_kind (c_state c) = k then 1 else 0) \<le> q (as_budgets st)"
    and "I (as_budgets st)" and "run_attempts cfg policies env st w = (r, tr, w')"
  shows "count_kind k (tl tr) \<le> (q (as_budgets st) :: nat)"
  unfolding count_kind_where by (rule counted_bounded [OF assms(1) _ assms(2,3)]) simp_all

lemma decide_response_cases:
  assumes "decide_response cfg st r = Inr d"
  shows "case d of
      RetryTransition k patch consumes \<Rightarrow> cc_idempotent cfg \<and>
        (k = ResponseRetry \<and> consumes \<and> 0 < b_transport (as_budgets st) \<or>
         (\<exists>m. k = MiddlewareKind m) \<and> \<not> consumes)
    | RedirectTransition _ _ _ \<Rightarrow> 0 < b_redirect (as_budgets st)
    | AuthRefreshTransition \<Rightarrow> 0 < b_auth (as_budgets st) \<and> cc_idempotent cfg
    | _ \<Rightarrow> True"
proof -
  have terminal: "\<exists>v. d = TerminalResponse v \<or> (\<exists>x. d = RejectedResponse x)"
    if "decide_terminal cfg r = Inr d"
    using that by (auto simp: decide_terminal_def split: if_splits option.splits outcome.splits)
  have redirect: "(\<exists>u m o'. d = RedirectTransition u m o' \<and> 0 < b_redirect (as_budgets st)) \<or>
      (\<exists>v. d = TerminalResponse v \<or> (\<exists>x. d = RejectedResponse x))"
    if "decide_redirect cfg st r = Inr d"
    using that terminal
    by (auto simp: decide_redirect_def Let_def bindE_Inr_iff require_redirect_budget_def
        split: option.splits if_splits)
  show ?thesis
    using assms redirect
    by (auto simp: decide_response_def Let_def bindE_Inr_iff require_redirect_budget_def require_idempotent_def
        split: option.splits proposal.splits if_splits)
qed

text \<open>What a continuation spends, by the kind of the attempt it leads to.\<close>

lemma decision_spends:
  fixes em :: "'v emission"
  assumes "attempt_decision cfg policies st em = Continue c"
  shows "(as_kind (c_state c) = Redirect \<and> 0 < b_redirect (as_budgets st) \<and>
       as_budgets (c_state c) = spend RedirectBudget (as_budgets st) \<and> as_retries (c_state c) = as_retries st) \<or>
    (as_kind (c_state c) = AuthRefresh \<and> cc_idempotent cfg \<and> 0 < b_auth (as_budgets st) \<and>
       as_budgets (c_state c) = spend AuthBudget (as_budgets st) \<and> as_retries (c_state c) = as_retries st) \<or>
    (as_kind (c_state c) = Reaction \<and> as_retries (c_state c) = as_retries st \<and>
       (\<exists>p n. map_of (b_replays (as_budgets st)) p = Some n \<and> 0 < n \<and>
          as_reason (c_state c) = ''protection challenge: '' @ p \<and>
          as_budgets (c_state c) = spend (ReplayBudget p) (as_budgets st))) \<or>
    (as_kind (c_state c) = ResponseRetry \<and> cc_idempotent cfg \<and> 0 < b_transport (as_budgets st) \<and>
       as_budgets (c_state c) = spend TransportBudget (as_budgets st) \<and>
       as_retries (c_state c) = as_retries st + 1) \<or>
    (as_kind (c_state c) \<in> {TransportRetry} \<union> range MiddlewareKind \<and> cc_idempotent cfg \<and>
       (as_budgets (c_state c) = as_budgets st \<and> as_retries (c_state c) = as_retries st \<and>
          as_reason (c_state c) = ''middleware proposed a replay'' \<or>
        0 < b_transport (as_budgets st) \<and> as_budgets (c_state c) = spend TransportBudget (as_budgets st) \<and>
          as_retries (c_state c) = as_retries st + 1))"
proof (cases em)
  case (TransportFailed e proposed)
  then have "transport_retry_decide st \<lparr>tf_error = e, tf_proposed = proposed, tf_idempotent = cc_idempotent cfg,
      tf_retries_configured = cc_retries_configured cfg\<rparr> = (Continue c :: 'v decision)"
    using assms by (simp add: attempt_decision_def)
  then have "as_kind (c_state c) = TransportRetry \<and> cc_idempotent cfg \<and>
       (as_budgets (c_state c) = as_budgets st \<and> as_retries (c_state c) = as_retries st \<and>
          as_reason (c_state c) = ''middleware proposed a replay'' \<or>
        0 < b_transport (as_budgets st) \<and> as_budgets (c_state c) = spend TransportBudget (as_budgets st) \<and>
          as_retries (c_state c) = as_retries st + 1)"
    unfolding transport_retry_decide_def next_attempt_def
    by (simp split: if_splits del: spend.simps) (auto simp del: spend.simps)
  then show ?thesis by blast
next
  case (Answered r ctx)
  then obtain d where d: "decide_response cfg st r = Inr d" and c: "route policies st ctx d = Continue c"
    using assms by (auto simp: attempt_decision_def split: sum.splits)
  note dr = decide_response_cases [OF d]
  show ?thesis
  proof (cases d)
    case (RetryTransition k patch consumes)
    then have c': "response_retry_decide st (k, patch, consumes) = (Continue c :: 'v decision)"
      using c by (simp add: route_def)
    have idem: "cc_idempotent cfg" using dr RetryTransition by simp
    consider "k = ResponseRetry" "consumes" "0 < b_transport (as_budgets st)"
      | m where "k = MiddlewareKind m" "\<not> consumes"
      using dr RetryTransition by auto
    then show ?thesis
    proof cases
      case 1
      then have "as_kind (c_state c) = ResponseRetry \<and> as_retries (c_state c) = as_retries st + 1 \<and>
          as_budgets (c_state c) = spend TransportBudget (as_budgets st)"
        using c' by (auto simp: response_retry_decide_def next_attempt_def simp del: spend.simps)
      then show ?thesis using 1 idem by blast
    next
      case 2
      then have "as_kind (c_state c) = MiddlewareKind m \<and> as_retries (c_state c) = as_retries st \<and>
          as_budgets (c_state c) = as_budgets st \<and> as_reason (c_state c) = ''middleware proposed a replay''"
        using c' by (auto simp: response_retry_decide_def next_attempt_def)
      then show ?thesis using idem by blast
    qed
  next
    case (RedirectTransition u m o')
    then have "redirect_decide st (u, m, o') = (Continue c :: 'v decision)"
      using c by (simp add: route_def)
    then have "as_kind (c_state c) = Redirect \<and> as_retries (c_state c) = as_retries st \<and>
        as_budgets (c_state c) = spend RedirectBudget (as_budgets st)"
      by (auto simp: redirect_decide_def next_attempt_def simp del: spend.simps)
    then show ?thesis using dr RedirectTransition by simp
  next
    case (ReactionTransition signal)
    then have react: "reaction_decision policies st signal ctx = (Continue c :: 'v decision)"
      using c by (simp add: route_def)
    then obtain p where f: "find (\<lambda>p. cp_signal p = signal) policies = Some p"
      by (auto simp: reaction_decision_def split: option.splits)
    then obtain n where p: "map_of (b_replays (as_budgets st)) (cp_identity p) = Some n"
      using react by (auto simp: reaction_decision_def split: option.splits)
    then have guard: "ensure_replay_allowed ctx (cp_replay p) True (Some n) = Inr ()"
      and dec: "protection_decide st (cp_identity p, signal) = (Continue c :: 'v decision)"
      using react f by (auto simp: reaction_decision_def split: sum.splits)
    have "0 < n" using guard by (auto simp: ensure_replay_allowed_def split: if_splits)
    moreover have "as_kind (c_state c) = Reaction \<and> as_retries (c_state c) = as_retries st \<and>
        as_reason (c_state c) = ''protection challenge: '' @ cp_identity p \<and>
        as_budgets (c_state c) = spend (ReplayBudget (cp_identity p)) (as_budgets st)"
      using dec by (auto simp: protection_decide_def next_attempt_def simp del: spend.simps)
    ultimately show ?thesis using p by blast
  next
    case AuthRefreshTransition
    then have "auth_refresh_decide st () = (Continue c :: 'v decision)" using c by (simp add: route_def)
    then have "as_kind (c_state c) = AuthRefresh \<and> as_retries (c_state c) = as_retries st \<and>
        as_budgets (c_state c) = spend AuthBudget (as_budgets st)"
      by (auto simp: auth_refresh_decide_def next_attempt_def simp del: spend.simps)
    then show ?thesis using dr AuthRefreshTransition by simp
  qed (use c in \<open>simp_all add: route_def\<close>)
next
  case (EmissionRaised e)
  then show ?thesis using assms by (simp add: attempt_decision_def)
qed

definition replays_left :: "budgets \<Rightarrow> nat" where
  "replays_left b = sum_list (map (nat \<circ> snd) (b_replays b))"

lemma replays_left_update:
  "dict_ok d \<Longrightarrow> map_of d p = Some n \<Longrightarrow> 0 < n \<Longrightarrow>
     Suc (sum_list (map (nat \<circ> snd) (AList.update p (n - 1) d))) = sum_list (map (nat \<circ> snd) d)"
  by (induction d) (auto split: if_splits)

text \<open>Repeats that cost transport budget, and the replays a challenge policy brought about.\<close>

definition paid_retry :: "attempt_state \<Rightarrow> bool" where
  "paid_retry s \<longleftrightarrow> as_kind s = ResponseRetry \<or>
     as_kind s = TransportRetry \<and> as_reason s \<noteq> ''middleware proposed a replay''"

definition replay_of :: "string \<Rightarrow> attempt_state \<Rightarrow> bool" where
  "replay_of p s \<longleftrightarrow> as_kind s = Reaction \<and> as_reason s = ''protection challenge: '' @ p"

definition replay_budget :: "string \<Rightarrow> budgets \<Rightarrow> nat" where
  "replay_budget p b = (case map_of (b_replays b) p of None \<Rightarrow> 0 | Some n \<Rightarrow> nat n)"

lemma replay_budget_spend:
  "map_of (b_replays b) p = Some n \<Longrightarrow> 0 < n \<Longrightarrow>
     replay_budget q (spend (ReplayBudget p) b) + (if p = q then 1 else 0) = replay_budget q b"
  by (auto simp: replay_budget_def)

text \<open>
  C6. A call makes at most as many attempts as its hard limit, numbered from one. Redirects, authentication
  refreshes and the replays of each challenge policy stay within their own budgets, and the retries for a
  transport error or a rejected status together within the transport budget. A repeat a middleware proposes
  costs no budget, unless it answers a transport error while transport budget is left: the hard limit alone
  bounds those.
\<close>

theorem attempts_within_budgets:
  assumes "run_attempts cfg policies env (initial_attempt url b corr) w = (r, tr, w')"
    and "dict_ok (b_replays b)"
  shows "int (length tr) \<le> max 0 (b_hard b) \<and> map as_number tr = map int [1..<Suc (length tr)] \<and>
    count_kind Redirect (tl tr) \<le> nat (b_redirect b) \<and>
    count_kind AuthRefresh (tl tr) \<le> nat (b_auth b) \<and>
    (\<forall>p. count_where (replay_of p) (tl tr) \<le> replay_budget p b) \<and>
    count_kind Reaction (tl tr) \<le> replays_left b \<and>
    count_where paid_retry (tl tr) \<le> nat (b_transport b)"
proof -
  have numbers: "run_attempts cfg policies env st w = (r, tr, w') \<Longrightarrow>
      map as_number tr = map (\<lambda>i. as_number st + int i) [0..<length tr] \<and>
      int (length tr) \<le> max 0 (b_hard (as_budgets st) + 1 - as_number st)" for st w tr
  proof (induction "length tr" arbitrary: st w tr)
    case 0
    then show ?case by simp
  next
    case (Suc n)
    from Suc.prems show ?case
    proof (cases rule: run_attempts_cases)
      case (again em c k st' w3 tr')
      have adv: "as_number st' = as_number st + 1" "b_hard (as_budgets st') = b_hard (as_budgets st)"
        using attempt_decision_advances [OF again(3)] again(4) by (simp_all add: advances_def)
      have n: "n = length tr'" using Suc.hyps(2) again(2) by simp
      note IH = Suc.hyps(1) [OF n again(5)]
      have "map (\<lambda>i. as_number st + int i) [0..<length tr] =
          as_number st # map (\<lambda>i. as_number st + int (Suc i)) [0..<length tr']"
        using again(2) by (simp add: upt_rec [of 0] map_Suc_upt [symmetric] comp_def del: upt_Suc)
      then show ?thesis using IH adv again(1,2) by (simp add: algebra_simps)
    qed simp_all
  qed
  have shift: "map (\<lambda>i. 1 + int i) [0..<n] = map int [1..<Suc n]" for n
    by (simp add: map_Suc_upt [symmetric] comp_def del: upt_Suc)
  have "map as_number tr = map int [1..<Suc (length tr)]" "int (length tr) \<le> max 0 (b_hard b)"
    using numbers [OF assms(1)] shift by (simp_all add: initial_attempt_def)
  moreover have "count_kind Redirect (tl tr) \<le> nat (b_redirect b)"
    by (rule kind_bounded [where I = "\<lambda>_. True" and q = "\<lambda>b. nat (b_redirect b)", OF _ _ assms(1),
          simplified initial_attempt_def, simplified])
      (drule decision_spends, auto split: option.split)
  moreover have "count_kind AuthRefresh (tl tr) \<le> nat (b_auth b)"
    by (rule kind_bounded [where I = "\<lambda>_. True" and q = "\<lambda>b. nat (b_auth b)", OF _ _ assms(1),
          simplified initial_attempt_def, simplified])
      (drule decision_spends, auto split: option.split)
  moreover have "count_where paid_retry (tl tr) \<le> nat (b_transport b)"
    by (rule counted_bounded [where I = "\<lambda>_. True" and q = "\<lambda>b. nat (b_transport b)", OF _ _ _ assms(1),
          simplified initial_attempt_def, simplified])
      (drule decision_spends, auto simp: paid_retry_def split: option.split)
  moreover have "count_where (replay_of p) (tl tr) \<le> replay_budget p b" for p
  proof -
    have "replay_budget p (as_budgets (c_state c)) + (if replay_of p (c_state c) then 1 else 0) \<le> replay_budget p (as_budgets st)"
      if "attempt_decision cfg policies st em = Continue c" for cfg policies st and em :: "'a emission" and c
      using decision_spends [OF that] replay_budget_spend [of "as_budgets st" _ _ p]
      by (auto simp: replay_of_def replay_budget_def)
    then have "count_where (replay_of p) (tl tr) \<le> replay_budget p (as_budgets (initial_attempt url b corr))"
      by (intro counted_bounded [where I = "\<lambda>_. True", OF _ _ _ assms(1)]) (simp_all add: replay_of_def)
    then show ?thesis by (simp add: initial_attempt_def)
  qed
  moreover have "count_kind Reaction (tl tr) \<le> replays_left b"
  proof -
    have step: "dict_ok (b_replays (as_budgets (c_state c))) \<and>
        replays_left (as_budgets (c_state c)) + (if as_kind (c_state c) = Reaction then 1 else 0)
          \<le> replays_left (as_budgets st)"
      if "dict_ok (b_replays (as_budgets st))" "attempt_decision cfg policies st em = Continue c"
      for cfg policies st and em :: "'a emission" and c
      using decision_spends [OF that(2)] that(1) replays_left_update [of "b_replays (as_budgets st)"]
      by (auto simp: replays_left_def split: option.split) 
    have "count_kind Reaction (tl tr) \<le> replays_left (as_budgets (initial_attempt url b corr))"
      by (rule kind_bounded [where I = "\<lambda>b. dict_ok (b_replays b)", OF step _ assms(1)])
        (simp_all add: assms(2) initial_attempt_def)
    then show ?thesis by (simp add: initial_attempt_def)
  qed
  ultimately show ?thesis by blast
qed


text \<open>A one-step environment: what each attempt meets is a function of its number and its URL.\<close>

definition scripted :: "(int \<Rightarrow> string \<Rightarrow> 'v emission) \<Rightarrow> ('v, unit) call_env" where
  "scripted f = \<lparr>env_emit = (\<lambda>st w. (f (as_number st) (as_url st), w)), env_commit = (\<lambda>c w. (None, w)),
     env_regenerate = False, env_correlation = (\<lambda>w. (None, w))\<rparr>"

definition sample_config :: call_config where
  "sample_config = \<lparr>cc_method = ''POST'', cc_idempotent = False, cc_raw_response = False,
     cc_retry_statuses = [503], cc_retries_configured = True, cc_client_redirects = False,
     cc_urljoin = (\<lambda>base url. url)\<rparr>"

definition sample_response :: "int \<Rightarrow> string option \<Rightarrow> nat option \<Rightarrow> int response_info" where
  "sample_response status location signal =
     \<lparr>r_status = status, r_location = location, r_url = ''/a'', r_meta_target = None, r_raw = 0,
      r_proposed = None, r_signal = signal, r_outcome = Some (SuccessOutcome status), r_refreshable = False,
      r_declared = False\<rparr>"

definition sample_policy :: challenge_policy where
  "sample_policy = \<lparr>cp_signal = 7, cp_identity = ''shield'',
     cp_replay = \<lparr>rr_max_replays = 1, rr_safety = REJECTED_BEFORE_ORIGIN, rr_proof_name = None,
       rr_body = REQUIRE_REPLAYABLE\<rparr>\<rparr>"

definition sample_context :: replay_context where
  "sample_context = \<lparr>rc_method = ''POST'', rc_replayable = True, rc_headers = []\<rparr>"

definition sample_env :: "(int, unit) call_env" where
  "sample_env = scripted (\<lambda>n url.
     Answered (if n = 1 then sample_response 307 (Some ''/b'') None
               else if n = 2 then sample_response 403 None (Some 7)
               else sample_response 200 None None) sample_context)"

lemmas sample_defs = scripted_def sample_config_def sample_response_def sample_policy_def sample_context_def
  sample_env_def budgets_of_def initial_attempt_def

text \<open>A run whose attempts meet a redirect, a challenge and an answer.\<close>

lemmas run_defs = recorrelate_def attempt_decision_def decide_response_def decide_redirect_def
  require_redirect_budget_def redirect_decide_def route_def reaction_decision_def ensure_replay_allowed_def
  protection_decide_def decide_terminal_def next_attempt_def effective_method_def redirect_statuses_def
  transport_retry_decide_def require_idempotent_def continue_def

abbreviation "sample_run \<equiv> run_attempts sample_config [sample_policy] sample_env
  (initial_attempt ''/a'' (budgets_of 4 1 1 1 [(''shield'', 1)]) None) ()"

lemma sample_run_result:
  "fst sample_run = Inr 200 \<and> map as_kind (fst (snd sample_run)) = [Initial, Redirect, Reaction]"
  by (simp add: sample_defs run_attempts.simps run_defs)

lemma attempts_within_budgets_witness:
  "length (fst (snd sample_run)) = 3 \<and> count_kind Redirect (tl (fst (snd sample_run))) \<le> 1 \<and>
   count_kind Reaction (tl (fst (snd sample_run))) \<le> 1"
proof -
  obtain r tr w where run: "sample_run = (r, tr, w)" by (metis prod_cases3)
  have "map as_kind tr = [Initial, Redirect, Reaction]" using sample_run_result run by simp
  then have "length (map as_kind tr) = 3" by simp
  moreover have "dict_ok (b_replays (budgets_of 4 1 1 1 [(''shield'', 1)]))" by (simp add: budgets_of_def)
  note attempts_within_budgets [OF run this]
  ultimately show ?thesis using run by (simp add: budgets_of_def replays_left_def)
qed

section \<open>What may be repeated\<close>

text \<open>What every continuation keeps holds of every attempt of a run.\<close>

lemma run_invariant:
  fixes env :: "('v, 'w) call_env"
  assumes step: "\<And>st (em :: 'v emission) c k. P st \<Longrightarrow> attempt_decision cfg policies st em = Continue c \<Longrightarrow>
      P ((c_state c)\<lparr>as_correlation := k\<rparr>) \<and> Q ((c_state c)\<lparr>as_correlation := k\<rparr>)"
  shows "P st \<Longrightarrow> run_attempts cfg policies env st w = (r, tr, w') \<Longrightarrow> list_all P tr \<and> list_all Q (tl tr)"
proof (induction "length tr" arbitrary: st w tr)
  case (Suc n)
  from Suc.prems(2) show ?case
  proof (cases rule: run_attempts_cases)
    case (again em c k st' w3 tr')
    have s: "P st'" "Q st'" using step [OF Suc.prems(1) again(3)] again(4) by simp_all
    have n: "n = length tr'" using again(2) Suc.hyps(2) by simp
    have IH: "list_all P tr' \<and> list_all Q (tl tr')" by (rule Suc.hyps(1) [OF n s(1) again(5)])
    have "tr' = [] \<or> (\<exists>xs. tr' = st' # xs)" using again(5) by (auto elim: run_attempts_cases)
    then show ?thesis using IH again(2) Suc.prems(1) s by auto
  qed (use Suc.prems in simp_all)
qed simp

text \<open>
  C7. A request that is not idempotent is repeated only to follow a redirect or to answer a
  challenge, and every challenge replay is allowed by the replay rule of its policy: no transport
  failure, rejected status, stale authentication or middleware resends it.
\<close>

theorem non_idempotent_repeats:
  fixes env :: "('v, 'w) call_env"
  assumes "\<not> cc_idempotent cfg" and "run_attempts cfg policies env st w = (r, tr, w')"
  shows "list_all (\<lambda>s. as_kind s \<in> {Redirect, Reaction}) (tl tr)"
proof -
  have "as_kind ((c_state c)\<lparr>as_correlation := k\<rparr>) \<in> {Redirect, Reaction}"
    if "attempt_decision cfg policies s em = Continue c" for s c k and em :: "'v emission"
    using decision_spends [OF that] assms(1) by auto
  then show ?thesis
    using run_invariant [where P = "\<lambda>_. True", OF _ _ assms(2)] by simp
qed

lemma non_idempotent_repeats_witness:
  "\<not> cc_idempotent sample_config \<and>
   list_all (\<lambda>s. as_kind s \<in> {Redirect, Reaction}) (tl (fst (snd sample_run)))"
proof -
  obtain r tr w where run: "sample_run = (r, tr, w)" by (metis prod_cases3)
  show ?thesis
    using non_idempotent_repeats [OF _ run] run by (simp add: sample_config_def)
qed

text \<open>
  C8. A challenge is answered by a replay only under the rule of its policy: the first policy
  that names the signal has replays left, its body rule accepts the request and its proof of safety
  holds; each replay costs one of that policy's own budget and no other.
\<close>

theorem challenge_replay_proven:
  assumes "reaction_decision policies st signal ctx = (Continue c :: 'v decision)"
  shows "\<exists>p n. p \<in> set policies \<and> cp_signal p = signal \<and>
    map_of (b_replays (as_budgets st)) (cp_identity p) = Some n \<and> 0 < n \<and> 0 < rr_max_replays (cp_replay p) \<and>
    rr_body (cp_replay p) = REQUIRE_REPLAYABLE \<and> rc_replayable ctx \<and>
    (rr_safety (cp_replay p) = SAFE_METHOD \<longrightarrow>
       upper (rc_method ctx) \<in> {''GET'', ''HEAD'', ''OPTIONS''}) \<and>
    (rr_safety (cp_replay p) = IDEMPOTENCY_KEY \<longrightarrow>
       (\<exists>name. rr_proof_name (cp_replay p) = Some name \<and> name \<in> set (rc_headers ctx))) \<and>
    as_kind (c_state c) = Reaction \<and> as_budgets (c_state c) = spend (ReplayBudget (cp_identity p)) (as_budgets st)"
proof -
  obtain p where f: "find (\<lambda>p. cp_signal p = signal) policies = Some p"
    using assms by (auto simp: reaction_decision_def split: option.splits)
  obtain n where n: "map_of (b_replays (as_budgets st)) (cp_identity p) = Some n"
    using assms f by (auto simp: reaction_decision_def split: option.splits)
  have guard: "ensure_replay_allowed ctx (cp_replay p) True (Some n) = Inr ()"
    and dec: "protection_decide st (cp_identity p, signal) = (Continue c :: 'v decision)"
    using assms f n by (auto simp: reaction_decision_def split: sum.splits)
  have "p \<in> set policies \<and> cp_signal p = signal"
    using f by (auto simp: find_Some_iff)
  moreover have "0 < n \<and> 0 < rr_max_replays (cp_replay p) \<and> rr_body (cp_replay p) = REQUIRE_REPLAYABLE \<and>
      rc_replayable ctx"
    using guard by (cases "rr_body (cp_replay p)") (auto simp: ensure_replay_allowed_def split: if_splits)
  moreover have "rr_safety (cp_replay p) = SAFE_METHOD \<Longrightarrow> upper (rc_method ctx) \<in> {''GET'', ''HEAD'', ''OPTIONS''}"
    using guard by (auto simp: ensure_replay_allowed_def Let_def split: if_splits)
  moreover have "rr_safety (cp_replay p) = IDEMPOTENCY_KEY \<Longrightarrow>
      \<exists>name. rr_proof_name (cp_replay p) = Some name \<and> name \<in> set (rc_headers ctx)"
    using guard by (auto simp: ensure_replay_allowed_def Let_def split: if_splits option.splits)
  moreover have "as_kind (c_state c) = Reaction \<and>
      as_budgets (c_state c) = spend (ReplayBudget (cp_identity p)) (as_budgets st)"
    using dec by (auto simp: protection_decide_def next_attempt_def simp del: spend.simps)
  ultimately show ?thesis using n by blast
qed

lemma challenge_replay_proven_witness:
  "\<exists>p \<in> set [sample_policy]. cp_signal p = 7 \<and> rr_body (cp_replay p) = REQUIRE_REPLAYABLE"
proof -
  have "\<exists>c. reaction_decision [sample_policy] (initial_attempt ''/a'' (budgets_of 4 1 1 1 [(''shield'', 1)]) None) 7
      sample_context = (Continue c :: int decision)"
    by (simp add: sample_defs run_defs)
  then obtain c where "reaction_decision [sample_policy]
      (initial_attempt ''/a'' (budgets_of 4 1 1 1 [(''shield'', 1)]) None) 7 sample_context = (Continue c :: int decision)"
    by blast
  from challenge_replay_proven [OF this] show ?thesis by auto
qed

text \<open>
  A call of one attempt that allows one transport retry: the retry is decided and the
  transport error is lost, because the call then ends on its hard limit.
\<close>

lemma hard_limit_masks_transport_error:
  assumes "cc_idempotent cfg"
    and "\<And>st w. env_emit env st w = (TransportFailed e False, w)"
    and "\<And>c w. env_commit env c w = (None, w)" and "\<not> env_regenerate env"
  shows "check_call_options \<lparr>co_max_attempts = 1, co_transport_retries = 1, co_auth_retries = 0,
      co_max_redirects = 0, co_retry = no_retry, co_client_redirects = False\<rparr> \<noteq> Inl err \<and>
    fst (run_attempts cfg policies env (initial_attempt url (budgets_of 1 1 0 0 []) corr) w) =
      Inl (AttemptLimitError ''hard attempt budget exhausted'') \<and>
    fst (run_attempts cfg policies env (initial_attempt url (budgets_of 1 0 0 0 []) corr) w) =
      Inl (TransportError e)"
  using assms
  by (simp add: check_call_options_def run_attempts.simps sample_defs run_defs)

lemma hard_limit_masks_transport_error_witness:
  "fst (run_attempts (sample_config\<lparr>cc_idempotent := True\<rparr>) []
     (scripted (\<lambda>n url. TransportFailed ''timeout'' False) :: (int, unit) call_env)
     (initial_attempt ''/a'' (budgets_of 1 1 0 0 []) None) ()) =
   Inl (AttemptLimitError ''hard attempt budget exhausted'')"
proof -
  have "cc_idempotent (sample_config\<lparr>cc_idempotent := True\<rparr>)" by simp
  then show ?thesis
    using hard_limit_masks_transport_error [of "sample_config\<lparr>cc_idempotent := True\<rparr>"
        "scripted (\<lambda>n url. TransportFailed ''timeout'' False) :: (int, unit) call_env" "''timeout''"]
    by (simp add: scripted_def)
qed

end
