(* ===== verification/Subscriptions.thy ===== *)
theory Subscriptions
  imports Errors
begin

text \<open>
  Subscriptions of the WebSocket runtime (\<open>websocket/subscriptions.py\<close>, \<open>websocket/policies.py\<close>): the
  bounded queue between the reader and the consumer, its overflow policies, the positions a
  recovery continues from, and the end of the stream. An operation is one step: none of them
  awaits between reading and writing the state.
\<close>

section \<open>Policies\<close>

datatype ws_replay_policy = NeverReplay int | ReplayIfUnsent int | ReplayWithDeduplication string int

fun check_replay_policy :: "ws_replay_policy \<Rightarrow> sdk_error + ws_replay_policy" where
  "check_replay_policy (NeverReplay n) = Inr (NeverReplay n)"
| "check_replay_policy (ReplayIfUnsent n) =
     (if n < 1 then Inl (PyValueError ''ReplayIfUnsent.max_replays must be positive'')
      else Inr (ReplayIfUnsent n))"
| "check_replay_policy (ReplayWithDeduplication key n) =
     (if key = [] then Inl (PyValueError ''deduplication key cannot be empty'')
      else if n < 1 then Inl (PyValueError ''ReplayWithDeduplication.max_replays must be positive'')
      else Inr (ReplayWithDeduplication key n))"

fun max_replays :: "ws_replay_policy \<Rightarrow> int" where
  "max_replays (NeverReplay n) = n"
| "max_replays (ReplayIfUnsent n) = n"
| "max_replays (ReplayWithDeduplication key n) = n"

definition replay_allowed :: "ws_replay_policy \<Rightarrow> bool \<Rightarrow> int \<Rightarrow> bool" where
  "replay_allowed policy may_have_been_sent replays =
     (if max_replays policy \<le> replays then False
      else case policy of
        ReplayWithDeduplication _ _ \<Rightarrow> True
      | ReplayIfUnsent _ \<Rightarrow> \<not> may_have_been_sent
      | NeverReplay _ \<Rightarrow> False)"

definition check_reconnect_delays :: "int list \<Rightarrow> sdk_error + int list" where
  "check_reconnect_delays delays =
     (if list_ex (\<lambda>d. d < 0) delays then Inl (PyValueError ''reconnect delays cannot be negative'')
      else Inr delays)"

datatype overflow_policy = OverflowFail | DROP_OLDEST | DROP_NEWEST

datatype resubscribe_policy =
  NeverResubscribe | ResubscribeFromStart | RecoverBySequence string | RecoverByToken string

fun check_resubscribe :: "resubscribe_policy \<Rightarrow> sdk_error + resubscribe_policy" where
  "check_resubscribe (RecoverBySequence f) =
     (if f = [] then Inl (PyValueError ''sequence position field cannot be empty'')
      else Inr (RecoverBySequence f))"
| "check_resubscribe (RecoverByToken f) =
     (if f = [] then Inl (PyValueError ''recovery token field cannot be empty'')
      else Inr (RecoverByToken f))"
| "check_resubscribe p = Inr p"

section \<open>State\<close>

text \<open>The exceptions of \<open>websocket/errors.py\<close> the runtime raises; \<open>RemoteError\<close> is the terminal error of a message.\<close>

datatype ws_error =
    RecoveryGapError int int nat
  | SubscriptionOverflowError nat
  | SubscriptionDisconnectedError string
  | WsClientClosedError string
  | WsConnectError string
  | WsQueueOverflowError string
  | DeliveryNotSentError string
  | DeliveryUnknownError string
  | WsCallTimeoutError string
  | RemoteError string
  | WsRaised sdk_error

record event =
  ev_value :: pyval
  ev_generation :: nat
  ev_recovered :: bool
  ev_last_position :: "pyval option"
  ev_gap :: bool

datatype sub_state = ACTIVE | DISCONNECTED | RESUBSCRIBING | RECOVERING | COMPLETED | FAILED | CANCELLED

datatype queue_item = Item event | Terminal "ws_error option"

record subscription =
  sb_resubscribe :: resubscribe_policy
  sb_capacity :: nat
  sb_overflow :: overflow_policy
  sb_queue :: "queue_item list"
  sb_state :: sub_state
  sb_generation :: nat
  sb_recovered_generation :: "nat option"
  sb_last_position :: "pyval option"
  sb_gap_pending :: bool
  sb_closed :: bool

definition new_subscription ::
  "resubscribe_policy \<Rightarrow> int \<Rightarrow> overflow_policy \<Rightarrow> nat \<Rightarrow> sdk_error + subscription" where
  "new_subscription resubscribe capacity overflow generation =
     (if capacity \<le> 0 then Inl (PyValueError ''subscription queue capacity must be positive'')
      else Inr \<lparr>sb_resubscribe = resubscribe, sb_capacity = nat capacity, sb_overflow = overflow,
        sb_queue = [], sb_state = ACTIVE, sb_generation = generation, sb_recovered_generation = None,
        sb_last_position = None, sb_gap_pending = False, sb_closed = False\<rparr>)"

section \<open>Operations\<close>

text \<open>\<open>__anext__\<close> takes the head of the queue and waits while there is none (\<open>None\<close>).\<close>

definition next_item :: "subscription \<Rightarrow> (queue_item \<times> subscription) option" where
  "next_item s = (case sb_queue s of [] \<Rightarrow> None | x # q \<Rightarrow> Some (x, s\<lparr>sb_queue := q\<rparr>))"

definition put_terminal :: "ws_error option \<Rightarrow> subscription \<Rightarrow> subscription" where
  "put_terminal err s =
     (let q = (if sb_capacity s \<le> length (sb_queue s) then tl (sb_queue s) else sb_queue s)
      in s\<lparr>sb_queue := q @ [Terminal err]\<rparr>)"

definition sub_fail :: "ws_error \<Rightarrow> subscription \<Rightarrow> subscription" where
  "sub_fail err s =
     (if sb_state s \<in> {COMPLETED, FAILED, CANCELLED} then s
      else put_terminal (Some err) (s\<lparr>sb_state := FAILED, sb_closed := True\<rparr>))"

definition sub_complete :: "subscription \<Rightarrow> subscription" where
  "sub_complete s =
     (if sb_closed s then s
      else put_terminal None (s\<lparr>sb_closed := True, sb_state := COMPLETED\<rparr>))"

text \<open>\<open>aclose\<close>; the flag says whether the close callback runs.\<close>

definition sub_close :: "subscription \<Rightarrow> bool \<times> subscription" where
  "sub_close s =
     (if sb_closed s then (False, s)
      else (True, put_terminal None (s\<lparr>sb_closed := True, sb_state := CANCELLED\<rparr>)))"

definition mark_disconnected :: "subscription \<Rightarrow> subscription" where
  "mark_disconnected s = (if sb_closed s then s else s\<lparr>sb_state := DISCONNECTED\<rparr>)"

definition mark_restoring :: "nat \<Rightarrow> bool \<Rightarrow> subscription \<Rightarrow> subscription" where
  "mark_restoring generation recovered s =
     (let s = s\<lparr>sb_generation := generation\<rparr> in
      if recovered then s\<lparr>sb_state := RECOVERING, sb_recovered_generation := Some generation\<rparr>
      else s\<lparr>sb_state := RESUBSCRIBING, sb_recovered_generation := None,
             sb_last_position := (if sb_resubscribe s = ResubscribeFromStart then None
                                  else sb_last_position s)\<rparr>)"

definition mark_active :: "subscription \<Rightarrow> subscription" where
  "mark_active s = (if sb_closed s then s else s\<lparr>sb_state := ACTIVE\<rparr>)"

text \<open>\<open>isinstance(x, int)\<close> holds of a \<open>bool\<close> too.\<close>

fun as_int :: "pyval \<Rightarrow> int option" where
  "as_int (PInt i) = Some i"
| "as_int (PBool b) = Some (if b then 1 else 0)"
| "as_int _ = None"

fun position_field :: "resubscribe_policy \<Rightarrow> string option" where
  "position_field (RecoverBySequence f) = Some f"
| "position_field (RecoverByToken f) = Some f"
| "position_field _ = None"

definition extract_position :: "subscription \<Rightarrow> pyval \<Rightarrow> sdk_error + pyval option" where
  "extract_position s value =
     (case position_field (sb_resubscribe s) of
        None \<Rightarrow> Inr None
      | Some field \<Rightarrow>
          (case value of
             PDict d \<Rightarrow>
               (case map_of d field of
                  None \<Rightarrow> Inl (PyValueError (''recovery payload has no '' @ py_repr field @ '' field''))
                | Some p \<Rightarrow>
                    (case sb_resubscribe s of
                       RecoverBySequence _ \<Rightarrow>
                         if as_int p = None
                         then Inl (PyTypeError (''sequence field '' @ py_repr field @ '' must be an integer''))
                         else Inr (Some p)
                     | _ \<Rightarrow> Inr (if p = PNone then None else Some p)))
           | _ \<Rightarrow> Inl (PyTypeError (''recovery payload must be an object containing '' @ py_repr field))))"

text \<open>The gap between the last position of a sequence and the new one.\<close>

definition sequence_gap :: "subscription \<Rightarrow> pyval option \<Rightarrow> (int \<times> int) option" where
  "sequence_gap s position =
     (case (sb_resubscribe s, Option.bind (sb_last_position s) as_int, Option.bind position as_int) of
        (RecoverBySequence _, Some previous, Some p) \<Rightarrow>
          if previous + 1 < p then Some (previous + 1, p) else None
      | _ \<Rightarrow> None)"

text \<open>The event of an accepted value and what happens to it: queued, or what the overflow policy says.\<close>

definition offer_event :: "pyval \<Rightarrow> nat \<Rightarrow> subscription \<Rightarrow> bool \<times> subscription" where
  "offer_event value generation s =
     (let event = \<lparr>ev_value = value, ev_generation = generation,
            ev_recovered = (sb_recovered_generation s = Some generation),
            ev_last_position = sb_last_position s, ev_gap = sb_gap_pending s\<rparr>
      in if length (sb_queue s) < sb_capacity s
         then (True, s\<lparr>sb_queue := sb_queue s @ [Item event], sb_gap_pending := False\<rparr>)
         else case sb_overflow s of
           DROP_NEWEST \<Rightarrow> (True, s\<lparr>sb_gap_pending := True\<rparr>)
         | DROP_OLDEST \<Rightarrow>
             (True, s\<lparr>sb_queue := tl (sb_queue s) @ [Item (event\<lparr>ev_gap := True\<rparr>)], sb_gap_pending := False\<rparr>)
         | OverflowFail \<Rightarrow> (False, sub_fail (SubscriptionOverflowError (sb_capacity s)) s))"

definition publish :: "pyval \<Rightarrow> nat \<Rightarrow> subscription \<Rightarrow> bool \<times> subscription" where
  "publish value generation s =
     (if sb_state s \<notin> {ACTIVE, RESUBSCRIBING, RECOVERING} then (False, s)
      else case extract_position s value of
        Inl e \<Rightarrow> (False, sub_fail (WsRaised e) s)
      | Inr position \<Rightarrow>
          (case sequence_gap s position of
             Some (expected, received) \<Rightarrow>
               (False, sub_fail (RecoveryGapError expected received generation) s)
           | None \<Rightarrow>
               offer_event value generation
                 (if position \<noteq> None then s\<lparr>sb_last_position := position\<rparr> else s)))"

section \<open>Invariant\<close>

fun is_item :: "queue_item \<Rightarrow> bool" where
  "is_item (Item _) = True"
| "is_item (Terminal _) = False"

text \<open>
  The queue is bounded, the terminal is the last thing in it, and it is there exactly from the
  moment the subscription closes until the consumer takes it.
\<close>

definition sub_ok :: "subscription \<Rightarrow> bool" where
  "sub_ok s \<longleftrightarrow> 0 < sb_capacity s \<and> length (sb_queue s) \<le> sb_capacity s \<and>
     (sb_closed s \<longleftrightarrow> sb_state s \<in> {COMPLETED, FAILED, CANCELLED}) \<and>
     list_all is_item (butlast (sb_queue s)) \<and>
     (if sb_closed s then sb_queue s = [] \<or> \<not> is_item (last (sb_queue s)) else list_all is_item (sb_queue s))"

lemma list_all_butlast: "list_all P xs \<Longrightarrow> list_all P (butlast xs)"
  by (auto simp: list_all_iff dest: in_set_butlastD)

lemma list_all_tl: "list_all P xs \<Longrightarrow> list_all P (tl xs)"
  by (cases xs) auto

lemma put_terminal_ok:
  assumes "0 < sb_capacity s" and "length (sb_queue s) \<le> sb_capacity s" and "list_all is_item (sb_queue s)"
    and "sb_closed s" and "sb_state s \<in> {COMPLETED, FAILED, CANCELLED}"
  shows "sub_ok (put_terminal err s)"
  using assms by (auto simp: sub_ok_def put_terminal_def Let_def list_all_tl)

lemma sub_fail_ok: "sub_ok s \<Longrightarrow> sub_ok (sub_fail e s)"
  by (auto simp: sub_fail_def sub_ok_def [of s] intro!: put_terminal_ok split: if_splits)

lemma sub_complete_ok: "sub_ok s \<Longrightarrow> sub_ok (sub_complete s)"
  by (auto simp: sub_complete_def sub_ok_def [of s] intro!: put_terminal_ok split: if_splits)

lemma sub_close_ok: "sub_ok s \<Longrightarrow> sub_ok (snd (sub_close s))"
  by (auto simp: sub_close_def sub_ok_def [of s] intro!: put_terminal_ok split: if_splits)

lemma mark_ok:
  "sub_ok s \<Longrightarrow> sub_ok (mark_disconnected s)"
  "sub_ok s \<Longrightarrow> sub_ok (mark_active s)"
  "sub_ok s \<Longrightarrow> \<not> sb_closed s \<Longrightarrow> sub_ok (mark_restoring g r s)"
  by (auto simp: sub_ok_def mark_disconnected_def mark_active_def mark_restoring_def Let_def)

lemma next_item_ok: "sub_ok s \<Longrightarrow> next_item s = Some (x, s') \<Longrightarrow> sub_ok s'"
  by (auto simp: sub_ok_def next_item_def split: list.splits if_splits)


text \<open>How publishing ends: refused, queued, or dropped from one of the two ends of a full queue.\<close>

lemma publish_cases:
  assumes "publish v g s = (b, s')"
  obtains (refused) "\<not> b" "s' = s \<or> (\<exists>e t. s' = sub_fail e t \<and> sb_queue t = sb_queue s \<and>
        sb_gap_pending t = sb_gap_pending s \<and> sb_state t = sb_state s \<and> sb_closed t = sb_closed s \<and>
        sb_capacity t = sb_capacity s)"
    | (queued) pos ev where "b" "sb_state s \<in> {ACTIVE, RESUBSCRIBING, RECOVERING}"
        "length (sb_queue s) < sb_capacity s" "ev_value ev = v" "ev_gap ev = sb_gap_pending s"
        "s' = s\<lparr>sb_last_position := pos, sb_queue := sb_queue s @ [Item ev], sb_gap_pending := False\<rparr>"
    | (newest) pos where "b" "sb_state s \<in> {ACTIVE, RESUBSCRIBING, RECOVERING}"
        "sb_capacity s \<le> length (sb_queue s)" "sb_overflow s = DROP_NEWEST"
        "s' = s\<lparr>sb_last_position := pos, sb_gap_pending := True\<rparr>"
    | (oldest) pos ev where "b" "sb_state s \<in> {ACTIVE, RESUBSCRIBING, RECOVERING}"
        "sb_capacity s \<le> length (sb_queue s)" "sb_overflow s = DROP_OLDEST" "ev_value ev = v" "ev_gap ev"
        "s' = s\<lparr>sb_last_position := pos, sb_queue := tl (sb_queue s) @ [Item ev], sb_gap_pending := False\<rparr>"
proof (cases "sb_state s \<in> {ACTIVE, RESUBSCRIBING, RECOVERING}")
  case False
  then show ?thesis using assms refused by (auto simp: publish_def split: if_splits)
next
  case open_s: True
  show ?thesis
  proof (cases "extract_position s v")
    case (Inl e)
    then have "\<not> b" "s' = sub_fail (WsRaised e) s" using assms open_s by (auto simp: publish_def split: if_splits)
    then show ?thesis using refused by blast
  next
    case (Inr position)
    show ?thesis
    proof (cases "sequence_gap s position")
      case (Some er)
      then have "\<not> b" "s' = sub_fail (RecoveryGapError (fst er) (snd er) g) s"
        using assms open_s Inr by (auto simp: publish_def split: if_splits prod.splits)
      then show ?thesis using refused by blast
    next
      case None
      define t where "t = (if position \<noteq> None then s\<lparr>sb_last_position := position\<rparr> else s)"
      have t: "t = s\<lparr>sb_last_position := sb_last_position t\<rparr>" by (simp add: t_def)
      have same: "sb_queue t = sb_queue s" "sb_capacity t = sb_capacity s" "sb_overflow t = sb_overflow s"
          "sb_gap_pending t = sb_gap_pending s" "sb_state t = sb_state s" "sb_closed t = sb_closed s"
        by (simp_all add: t_def)
      have off: "offer_event v g t = (b, s')"
        using assms open_s Inr None unfolding publish_def t_def by (cases "sb_state s") simp_all
      show ?thesis
      proof (cases "length (sb_queue s) < sb_capacity s")
        case True
        define ev where "ev = \<lparr>ev_value = v, ev_generation = g,
          ev_recovered = (sb_recovered_generation t = Some g), ev_last_position = sb_last_position t,
          ev_gap = sb_gap_pending s\<rparr>"
        have "ev_value ev = v \<and> ev_gap ev = sb_gap_pending s \<and> b \<and>
            s' = t\<lparr>sb_queue := sb_queue s @ [Item ev], sb_gap_pending := False\<rparr>"
          using off same True by (auto simp: offer_event_def Let_def ev_def)
        moreover have "t\<lparr>sb_queue := q, sb_gap_pending := False\<rparr> =
            s\<lparr>sb_last_position := sb_last_position t, sb_queue := q, sb_gap_pending := False\<rparr>" for q
          by (subst t) simp
        ultimately show ?thesis using queued [of ev "sb_last_position t"] open_s True by simp
      next
        case full: False
        show ?thesis
        proof (cases "sb_overflow s")
          case OverflowFail
          then have "\<not> b \<and> s' = sub_fail (SubscriptionOverflowError (sb_capacity t)) t"
            using off same full by (simp add: offer_event_def)
          then show ?thesis using refused same by metis
        next
          case DROP_OLDEST
          define ev where "ev = \<lparr>ev_value = v, ev_generation = g,
            ev_recovered = (sb_recovered_generation t = Some g), ev_last_position = sb_last_position t,
            ev_gap = True\<rparr>"
          have "ev_value ev = v \<and> ev_gap ev \<and> b \<and>
              s' = t\<lparr>sb_queue := tl (sb_queue s) @ [Item ev], sb_gap_pending := False\<rparr>"
            using off same full DROP_OLDEST by (auto simp: offer_event_def Let_def ev_def)
          moreover have "t\<lparr>sb_queue := q, sb_gap_pending := False\<rparr> =
              s\<lparr>sb_last_position := sb_last_position t, sb_queue := q, sb_gap_pending := False\<rparr>" for q
            by (subst t) simp
          ultimately show ?thesis using oldest [of ev "sb_last_position t"] open_s full DROP_OLDEST by simp
        next
          case DROP_NEWEST
          then have "b \<and> s' = t\<lparr>sb_gap_pending := True\<rparr>"
            using off same full by (simp add: offer_event_def)
          moreover have "t\<lparr>sb_gap_pending := True\<rparr> =
              s\<lparr>sb_last_position := sb_last_position t, sb_gap_pending := True\<rparr>"
            by (subst t) simp
          ultimately have "b \<and> s' = s\<lparr>sb_last_position := sb_last_position t, sb_gap_pending := True\<rparr>"
            by simp
          then show ?thesis using newest [of "sb_last_position t"] open_s full DROP_NEWEST by simp
        qed
      qed
    qed
  qed
qed

lemma sub_ok_cong:
  "sub_ok s \<Longrightarrow> sb_queue t = sb_queue s \<Longrightarrow> sb_capacity t = sb_capacity s \<Longrightarrow> sb_state t = sb_state s \<Longrightarrow>
   sb_closed t = sb_closed s \<Longrightarrow> sub_ok t"
  by (simp add: sub_ok_def)

lemma publish_ok:
  assumes ok: "sub_ok s" and "publish v g s = (b, s')"
  shows "sub_ok s'"
  using assms(2)
proof (cases rule: publish_cases)
  case refused
  from refused(2) show ?thesis
  proof (elim disjE exE conjE)
    fix e t
    assume t: "s' = sub_fail e t" "sb_queue t = sb_queue s" "sb_state t = sb_state s"
      "sb_closed t = sb_closed s" "sb_capacity t = sb_capacity s"
    have "sub_ok t" by (rule sub_ok_cong [OF ok t(2,5,3,4)])
    then show ?thesis using t(1) by (simp add: sub_fail_ok)
  qed (simp add: ok)
next
  case (queued pos ev)
  then show ?thesis using ok by (auto simp: sub_ok_def list_all_butlast)
next
  case (newest pos)
  then show ?thesis using ok by (auto simp: sub_ok_def)
next
  case (oldest pos ev)
  then show ?thesis using ok by (auto simp: sub_ok_def list_all_tl)
qed


section \<open>Runs of a subscription\<close>

text \<open>
  What reader, consumer and client may do to a subscription, one operation at a time. \<open>_mark_restoring\<close>
  has no guard: a subscription that was closed while a reconnect was restoring it is restored all the same,
  which the label \<open>Revived\<close> records.
\<close>

datatype sub_label = Published pyval | Refused | Delivered event | Ended "ws_error option" | Internal | Revived

inductive sub_step :: "subscription \<Rightarrow> sub_label \<Rightarrow> subscription \<Rightarrow> bool" where
  step_publish: "publish v g s = (True, s') \<Longrightarrow> sub_step s (Published v) s'"
| step_refuse: "publish v g s = (False, s') \<Longrightarrow> sub_step s Refused s'"
| step_deliver: "next_item s = Some (Item e, s') \<Longrightarrow> sub_step s (Delivered e) s'"
| step_end: "next_item s = Some (Terminal err, s') \<Longrightarrow> sub_step s (Ended err) s'"
| step_disconnect: "sub_step s Internal (mark_disconnected s)"
| step_restore: "sub_step s (if sb_closed s then Revived else Internal) (mark_restoring g r s)"
| step_active: "sub_step s Internal (mark_active s)"
| step_fail: "sub_step s Internal (sub_fail err s)"
| step_complete: "sub_step s Internal (sub_complete s)"
| step_close: "sub_step s Internal (snd (sub_close s))"

inductive sub_run :: "subscription \<Rightarrow> sub_label list \<Rightarrow> subscription \<Rightarrow> bool" for s0 where
  run_start: "sub_run s0 [] s0"
| run_step: "sub_run s0 ls s \<Longrightarrow> sub_step s l s' \<Longrightarrow> sub_run s0 (ls @ [l]) s'"

inductive_cases sub_stepE: "sub_step s l s'"
inductive_simps sub_step_delivered: "sub_step s (Delivered e) s'"

lemma sub_step_ok: "sub_step s l s' \<Longrightarrow> l \<noteq> Revived \<Longrightarrow> sub_ok s \<Longrightarrow> sub_ok s'"
  by (induction rule: sub_step.induct)
    (auto intro: publish_ok next_item_ok mark_ok sub_fail_ok sub_complete_ok sub_close_ok split: if_splits)

lemma sub_run_ok: "sub_run s0 ls s \<Longrightarrow> sub_ok s0 \<Longrightarrow> Revived \<notin> set ls \<Longrightarrow> sub_ok s"
  by (induction rule: sub_run.induct) (auto intro: sub_step_ok)

text \<open>What holds of a revived subscription too: a bounded queue, and a subscription once closed stays so.\<close>

definition sub_bounded :: "subscription \<Rightarrow> bool" where
  "sub_bounded s \<longleftrightarrow> 0 < sb_capacity s \<and> length (sb_queue s) \<le> sb_capacity s \<and>
     (sb_state s \<in> {COMPLETED, FAILED, CANCELLED} \<longrightarrow> sb_closed s)"

lemma put_terminal_bounded: "sub_bounded s \<Longrightarrow> sub_bounded (put_terminal err s)"
  by (auto simp: sub_bounded_def put_terminal_def Let_def)

lemma marked_bounded:
  "sub_bounded s \<Longrightarrow> sub_bounded (s\<lparr>sb_state := x, sb_closed := True\<rparr>)"
  "sub_bounded s \<Longrightarrow> sub_bounded (s\<lparr>sb_closed := True, sb_state := x\<rparr>)"
  "sub_bounded s \<Longrightarrow> sub_bounded (mark_disconnected s)"
  "sub_bounded s \<Longrightarrow> sub_bounded (mark_active s)"
  "sub_bounded s \<Longrightarrow> sub_bounded (mark_restoring g r s)"
  by (auto simp: sub_bounded_def mark_disconnected_def mark_active_def mark_restoring_def Let_def)

lemma closing_bounded:
  "sub_bounded s \<Longrightarrow> sub_bounded (sub_fail err s)"
  "sub_bounded s \<Longrightarrow> sub_bounded (sub_complete s)"
  "sub_bounded s \<Longrightarrow> sub_bounded (snd (sub_close s))"
  using put_terminal_bounded marked_bounded(1,2) [of s] by (simp_all add: sub_fail_def sub_complete_def sub_close_def)

lemma next_item_bounded: "next_item s = Some (x, s') \<Longrightarrow> sub_bounded s \<Longrightarrow> sub_bounded s'"
  by (auto simp: next_item_def sub_bounded_def split: list.splits)

lemma publish_bounded:
  assumes ok: "sub_bounded s" and "publish v g s = (b, s')"
  shows "sub_bounded s'"
  using assms(2)
proof (cases rule: publish_cases)
  case refused
  from refused(2) show ?thesis
  proof (elim disjE exE conjE)
    fix e t
    assume t: "s' = sub_fail e t" "sb_queue t = sb_queue s" "sb_state t = sb_state s"
      "sb_closed t = sb_closed s" "sb_capacity t = sb_capacity s"
    have "sub_bounded t" using ok t by (simp add: sub_bounded_def)
    then show ?thesis using t(1) by (simp add: closing_bounded)
  qed (simp add: ok)
qed (use ok in \<open>auto simp: sub_bounded_def\<close>)

lemma sub_step_bounded: "sub_step s l s' \<Longrightarrow> sub_bounded s \<Longrightarrow> sub_bounded s'"
  by (induction rule: sub_step.induct)
    (auto intro: publish_bounded closing_bounded marked_bounded next_item_bounded)

lemma sub_run_bounded: "sub_run s0 ls s \<Longrightarrow> sub_bounded s0 \<Longrightarrow> sub_bounded s"
  by (induction rule: sub_run.induct) (auto intro: sub_step_bounded)

lemma put_terminal_closed [simp]: "sb_closed (put_terminal err s) = sb_closed s"
  by (simp add: put_terminal_def Let_def)

lemma publish_closed:
  assumes "publish v g s = (b, s')" and "sb_closed s"
  shows "sb_closed s'"
  using assms(1) by (cases rule: publish_cases) (use assms(2) in \<open>auto simp: sub_fail_def\<close>)

lemma sub_step_closed: "sub_step s l s' \<Longrightarrow> sb_closed s \<Longrightarrow> sb_closed s'"
  by (induction rule: sub_step.induct)
    (auto intro: publish_closed simp: next_item_def mark_disconnected_def mark_active_def mark_restoring_def sub_fail_def
      sub_complete_def sub_close_def Let_def split: list.splits)

lemma sub_step_revived: "sub_step s Revived s' \<Longrightarrow> sb_closed s"
  by (auto elim: sub_stepE split: if_splits)

text \<open>An open subscription was never revived, so it has the whole invariant.\<close>

lemma sub_step_open:
  assumes "sub_step s l s'" and "\<not> sb_closed s \<longrightarrow> sub_ok s" and "\<not> sb_closed s'"
  shows "sub_ok s'"
proof -
  have "\<not> sb_closed s" using sub_step_closed [OF assms(1)] assms(3) by blast
  moreover from this have "l \<noteq> Revived" using sub_step_revived assms(1) by blast
  ultimately show ?thesis using sub_step_ok [OF assms(1)] assms(2) by blast
qed

lemma sub_run_open: "sub_run s0 ls s \<Longrightarrow> sub_ok s0 \<Longrightarrow> \<not> sb_closed s \<longrightarrow> sub_ok s"
  by (induction rule: sub_run.induct) (use sub_step_open in blast)+

lemma new_subscription_ok: "new_subscription p c ov g = Inr s \<Longrightarrow> sub_ok s"
  by (auto simp: new_subscription_def sub_ok_def split: if_splits)

lemma sub_ok_terminal:
  assumes ok: "sub_ok s" and i: "i < length (sb_queue s)" "\<not> is_item (sb_queue s ! i)"
  shows "sb_closed s \<and> Suc i = length (sb_queue s)"
proof -
  have "\<not> i < length (butlast (sb_queue s))"
  proof
    assume "i < length (butlast (sb_queue s))"
    then have "butlast (sb_queue s) ! i = sb_queue s ! i" by (simp add: nth_butlast)
    then show False
      using ok i \<open>i < length (butlast (sb_queue s))\<close> by (auto simp: sub_ok_def list_all_length)
  qed
  then have "Suc i = length (sb_queue s)" using i by simp
  moreover have "sb_closed s" using ok i by (auto simp: sub_ok_def list_all_length split: if_splits)
  ultimately show ?thesis by simp
qed

text \<open>
  C9. Whatever reader, consumer and client do, the queue of a subscription never exceeds its capacity and a
  subscription in a final state is closed; an open one holds no terminal. Unless it is restored after it
  was closed, a closed subscription is in a final state, accepts no value, and holds its terminal as the
  last thing the consumer will read.
\<close>

theorem subscription_bounded:
  assumes "new_subscription p capacity overflow g = Inr s0" and "sub_run s0 ls s"
  shows "length (sb_queue s) \<le> sb_capacity s \<and>
    (sb_state s \<in> {COMPLETED, FAILED, CANCELLED} \<longrightarrow> sb_closed s) \<and>
    (\<not> sb_closed s \<longrightarrow> list_all is_item (sb_queue s)) \<and>
    (Revived \<notin> set ls \<longrightarrow>
      (sb_closed s \<longrightarrow> sb_state s \<in> {COMPLETED, FAILED, CANCELLED} \<and> (\<forall>v n. \<not> fst (publish v n s))) \<and>
      (\<forall>i < length (sb_queue s). \<not> is_item (sb_queue s ! i) \<longrightarrow> sb_closed s \<and> Suc i = length (sb_queue s)) \<and>
      (sb_closed s \<and> sb_queue s \<noteq> [] \<longrightarrow> \<not> is_item (last (sb_queue s))))"
proof -
  have ok0: "sub_ok s0" using assms(1) by (rule new_subscription_ok)
  then have "sub_bounded s0" by (auto simp: sub_ok_def sub_bounded_def)
  then have bounded: "length (sb_queue s) \<le> sb_capacity s \<and> (sb_state s \<in> {COMPLETED, FAILED, CANCELLED} \<longrightarrow> sb_closed s)"
    using sub_run_bounded [OF assms(2)] unfolding sub_bounded_def by blast
  have items: "\<not> sb_closed s \<longrightarrow> list_all is_item (sb_queue s)"
    using sub_run_open [OF assms(2) ok0] unfolding sub_ok_def by presburger
  have "(sb_closed s \<longrightarrow> sb_state s \<in> {COMPLETED, FAILED, CANCELLED} \<and> (\<forall>v n. \<not> fst (publish v n s))) \<and>
      (\<forall>i < length (sb_queue s). \<not> is_item (sb_queue s ! i) \<longrightarrow> sb_closed s \<and> Suc i = length (sb_queue s)) \<and>
      (sb_closed s \<and> sb_queue s \<noteq> [] \<longrightarrow> \<not> is_item (last (sb_queue s)))" if "Revived \<notin> set ls"
  proof -
    have ok: "sub_ok s" by (rule sub_run_ok [OF assms(2) ok0 that])
    have closed: "sb_closed s \<longrightarrow> sb_state s \<in> {COMPLETED, FAILED, CANCELLED}"
      and last: "sb_closed s \<and> sb_queue s \<noteq> [] \<longrightarrow> \<not> is_item (last (sb_queue s))"
      using ok unfolding sub_ok_def by meson+
    have "\<not> fst (publish v n s)" if "sb_closed s" for v n
    proof -
      have "sb_state s \<notin> {ACTIVE, RESUBSCRIBING, RECOVERING}" using closed that by auto
      then show ?thesis by (simp add: publish_def)
    qed
    then show ?thesis using closed last sub_ok_terminal [OF ok] by blast
  qed
  with bounded items show ?thesis by blast
qed

section \<open>The stream the consumer sees\<close>

fun published :: "sub_label list \<Rightarrow> pyval list" where
  "published [] = []"
| "published (Published v # ls) = v # published ls"
| "published (_ # ls) = published ls"

fun delivered :: "sub_label list \<Rightarrow> event list" where
  "delivered [] = []"
| "delivered (Delivered e # ls) = e # delivered ls"
| "delivered (_ # ls) = delivered ls"

fun items_of :: "queue_item list \<Rightarrow> event list" where
  "items_of [] = []"
| "items_of (Item e # q) = e # items_of q"
| "items_of (Terminal _ # q) = items_of q"

lemma published_append: "published (xs @ ys) = published xs @ published ys"
  by (induction xs rule: published.induct) auto

lemma delivered_append: "delivered (xs @ ys) = delivered xs @ delivered ys"
  by (induction xs rule: delivered.induct) auto

lemma items_of_append: "items_of (xs @ ys) = items_of xs @ items_of ys"
  by (induction xs rule: items_of.induct) auto

lemma items_of_tl: "subseq (items_of (tl q)) (items_of q)"
  by (cases q rule: items_of.cases) (auto intro: subseq_order.order_refl)

lemma length_items_of: "list_all is_item q \<Longrightarrow> length (items_of q) = length q"
  by (induction q rule: items_of.induct) auto

definition stream_ok :: "pyval list \<Rightarrow> event list \<Rightarrow> subscription \<Rightarrow> bool" where
  "stream_ok P D s \<longleftrightarrow>
     subseq (map ev_value (D @ items_of (sb_queue s))) P \<and>
     (\<not> sb_closed s \<longrightarrow> (length (D @ items_of (sb_queue s)) < length P \<longleftrightarrow>
        sb_gap_pending s \<or> (\<exists>e \<in> set (D @ items_of (sb_queue s)). ev_gap e)))"

lemma stream_cong:
  "stream_ok P D s \<Longrightarrow> sb_queue t = sb_queue s \<Longrightarrow> sb_gap_pending t = sb_gap_pending s \<Longrightarrow>
   sb_closed t = sb_closed s \<Longrightarrow> stream_ok P D t"
  by (simp add: stream_ok_def)

lemma stream_terminal: "stream_ok P D s \<Longrightarrow> sb_closed s' \<Longrightarrow> sb_queue s' = sb_queue s \<Longrightarrow>
    stream_ok P D (put_terminal err s')"
proof -
  assume ok: "stream_ok P D s" and s': "sb_closed s'" "sb_queue s' = sb_queue s"
  have "subseq (items_of (sb_queue (put_terminal err s'))) (items_of (sb_queue s))"
    using items_of_tl by (auto simp: put_terminal_def Let_def items_of_append s'(2))
  then have "subseq (map ev_value (D @ items_of (sb_queue (put_terminal err s'))))
      (map ev_value (D @ items_of (sb_queue s)))"
    by (intro subseq_map) (simp add: list_emb_append_mono)
  then show ?thesis
    using ok s'(1) by (auto simp: stream_ok_def put_terminal_def Let_def intro: subseq_order.order_trans)
qed

lemma stream_closing:
  "stream_ok P D s \<Longrightarrow> stream_ok P D (sub_fail err s)"
  "stream_ok P D s \<Longrightarrow> stream_ok P D (sub_complete s)"
  "stream_ok P D s \<Longrightarrow> stream_ok P D (snd (sub_close s))"
  by (auto simp: sub_fail_def sub_complete_def sub_close_def intro: stream_terminal)

lemma stream_marks:
  "stream_ok P D s \<Longrightarrow> stream_ok P D (mark_disconnected s)"
  "stream_ok P D s \<Longrightarrow> stream_ok P D (mark_active s)"
  "stream_ok P D s \<Longrightarrow> stream_ok P D (mark_restoring g r s)"
  by (auto simp: stream_ok_def mark_disconnected_def mark_active_def mark_restoring_def Let_def)

lemma stream_publish:
  assumes ok: "stream_ok P D s" and open_ok: "\<not> sb_closed s \<longrightarrow> sub_ok s" and "publish v g s = (b, s')"
  shows "stream_ok (if b then P @ [v] else P) D s'"
  using assms(3)
proof (cases rule: publish_cases)
  case refused
  from refused(2) show ?thesis
  proof (elim disjE exE conjE)
    fix e t
    assume t: "s' = sub_fail e t" "sb_queue t = sb_queue s" "sb_gap_pending t = sb_gap_pending s"
      "sb_closed t = sb_closed s"
    have "stream_ok P D t" by (rule stream_cong [OF ok t(2-4)])
    then show ?thesis using t(1) refused(1) by (simp add: stream_closing)
  qed (simp add: ok refused(1))
next
  case (queued pos ev)
  have "subseq (map ev_value (D @ items_of (sb_queue s)) @ [v]) (P @ [v])"
    using ok by (simp only: subseq_append stream_ok_def)
  then show ?thesis using ok queued(1,4-6) by (simp add: stream_ok_def items_of_append del: subseq_append)
next
  case (newest pos)
  have "subseq (map ev_value (D @ items_of (sb_queue s))) (P @ [v])"
    using ok by (auto simp: stream_ok_def)
  moreover have "length (D @ items_of (sb_queue s)) \<le> length P"
    using ok list_emb_length by (fastforce simp: stream_ok_def)
  ultimately show ?thesis using newest by (auto simp: stream_ok_def)
next
  case (oldest pos ev)
  have "subseq (map ev_value (D @ items_of (tl (sb_queue s)))) (map ev_value (D @ items_of (sb_queue s)))"
    using items_of_tl by (intro subseq_map) (simp add: list_emb_append_mono)
  then have "subseq (map ev_value (D @ items_of (tl (sb_queue s)))) P"
    using ok subseq_order.order_trans by (auto simp: stream_ok_def)
  then have sub: "subseq (map ev_value (D @ items_of (tl (sb_queue s))) @ [v]) (P @ [v])" by (simp only: subseq_append)
  show ?thesis
  proof (cases "sb_closed s")
    case True
    then show ?thesis using oldest sub by (simp add: stream_ok_def items_of_append)
  next
    case False
    then obtain e q where q: "sb_queue s = Item e # q"
      using oldest(3) open_ok by (cases "sb_queue s" rule: items_of.cases) (auto simp: sub_ok_def)
    have "length D + Suc (length (items_of q)) \<le> length P"
      using list_emb_length [of "(=)" "map ev_value (D @ items_of (sb_queue s))" P] ok q by (simp add: stream_ok_def)
    then show ?thesis using oldest q sub by (auto simp: stream_ok_def items_of_append)
  qed
qed

lemma stream_step:
  assumes "sub_step s l s'" and "\<not> sb_closed s \<longrightarrow> sub_ok s" and "stream_ok (published ls) (delivered ls) s"
  shows "stream_ok (published (ls @ [l])) (delivered (ls @ [l])) s'"
  using assms
proof (cases rule: sub_step.cases)
  case (step_publish v g)
  then show ?thesis using stream_publish [OF assms(3,2)] by (fastforce simp: published_append delivered_append)
next
  case (step_refuse v g)
  then show ?thesis using stream_publish [OF assms(3,2)] by (fastforce simp: published_append delivered_append)
next
  case (step_deliver e)
  then show ?thesis using assms(3)
    by (auto simp: published_append delivered_append stream_ok_def next_item_def split: list.splits)
next
  case (step_end err)
  then show ?thesis using assms(3)
    by (auto simp: published_append delivered_append stream_ok_def next_item_def split: list.splits)
qed (use assms(3) in \<open>simp_all add: published_append delivered_append stream_closing stream_marks\<close>)

text \<open>
  C10. The consumer reads the accepted values in order, each at most once. While the subscription
  is open, what it has read and what is still queued lack an accepted value exactly when a gap is
  reported: an event marked with it was queued, or the next one will be.
\<close>

theorem subscription_stream:
  assumes "new_subscription p capacity overflow g = Inr s0" and "sub_run s0 ls s"
  shows "subseq (map ev_value (delivered ls @ items_of (sb_queue s))) (published ls) \<and>
    (\<not> sb_closed s \<longrightarrow>
       (map ev_value (delivered ls @ items_of (sb_queue s)) \<noteq> published ls \<longleftrightarrow>
        sb_gap_pending s \<or> (\<exists>e \<in> set (delivered ls @ items_of (sb_queue s)). ev_gap e)))"
proof -
  have ok0: "sub_ok s0" and start: "stream_ok [] [] s0"
    using assms(1) new_subscription_ok by (auto simp: new_subscription_def stream_ok_def split: if_splits)
  have "stream_ok (published ls) (delivered ls) s"
    using assms(2)
  proof (induction rule: sub_run.induct)
    case run_start
    then show ?case using start by simp
  next
    case (run_step ls s l s')
    then show ?case using stream_step sub_run_open [OF _ ok0] by blast
  qed
  moreover have "length xs < length ys \<longleftrightarrow> xs \<noteq> ys" if "subseq xs ys" for xs ys :: "pyval list"
    using that list_emb_length [OF that] subseq_same_length by (metis le_neq_implies_less less_irrefl)
  ultimately show ?thesis unfolding stream_ok_def by (metis length_map)
qed


definition sample_sub :: subscription where
  "sample_sub = \<lparr>sb_resubscribe = NeverResubscribe, sb_capacity = 2, sb_overflow = DROP_OLDEST,
     sb_queue = [], sb_state = ACTIVE, sb_generation = 1, sb_recovered_generation = None,
     sb_last_position = None, sb_gap_pending = False, sb_closed = False\<rparr>"

definition publish_all :: "pyval list \<Rightarrow> subscription \<Rightarrow> subscription" where
  "publish_all vs s = fold (\<lambda>v s. snd (publish v 1 s)) vs s"

lemmas sub_eval = sample_sub_def publish_all_def publish_def offer_event_def extract_position_def
  sequence_gap_def Let_def new_subscription_def

lemma sample_sub_new: "new_subscription NeverResubscribe 2 DROP_OLDEST 1 = Inr sample_sub"
  by (simp add: sub_eval)

lemma publish_all_run:
  "sub_run s0 ls s \<Longrightarrow> publish v 1 s = (True, s') \<Longrightarrow> sub_run s0 (ls @ [Published v]) s'"
  by (auto intro: run_step step_publish)

lemma sample_sub_run:
  "sub_run sample_sub [Published (PInt 1), Published (PInt 2), Published (PInt 3)]
     (publish_all [PInt 1, PInt 2, PInt 3] sample_sub)"
proof -
  have 1: "sub_run sample_sub ([] @ [Published (PInt 1)]) (publish_all [PInt 1] sample_sub)"
    by (rule publish_all_run [OF run_start]) (simp add: sub_eval)
  have 2: "sub_run sample_sub (([] @ [Published (PInt 1)]) @ [Published (PInt 2)])
      (publish_all [PInt 1, PInt 2] sample_sub)"
    by (rule publish_all_run [OF 1]) (simp add: sub_eval)
  have "sub_run sample_sub ((([] @ [Published (PInt 1)]) @ [Published (PInt 2)]) @ [Published (PInt 3)])
      (publish_all [PInt 1, PInt 2, PInt 3] sample_sub)"
    by (rule publish_all_run [OF 2]) (simp add: sub_eval)
  then show ?thesis by simp
qed

lemma subscription_bounded_witness:
  "length (sb_queue (publish_all [PInt 1, PInt 2, PInt 3] sample_sub)) \<le> 2"
  using subscription_bounded [OF sample_sub_new sample_sub_run] by (simp add: sub_eval)

lemma subscription_stream_witness:
  "subseq (map ev_value (items_of (sb_queue (publish_all [PInt 1, PInt 2, PInt 3] sample_sub))))
     [PInt 1, PInt 2, PInt 3]"
  using subscription_stream [OF sample_sub_new sample_sub_run] by simp

text \<open>
  The end of a stream costs the consumer an event when its queue is full: the terminal takes
  the place of the oldest event that was not read yet, whether the server completed the stream,
  the consumer closed it or it failed, and nothing marks the gap.
\<close>

lemma terminal_displaces_event:
  assumes "\<not> sb_closed s" and "sb_state s \<notin> {COMPLETED, FAILED, CANCELLED}"
    and "sb_queue s = Item e # q" and "sb_capacity s = length (sb_queue s)"
  shows "sb_queue (sub_complete s) = q @ [Terminal None] \<and>
    sb_queue (sub_fail err s) = q @ [Terminal (Some err)] \<and>
    sb_queue (snd (sub_close s)) = q @ [Terminal None]"
  using assms by (simp add: sub_complete_def sub_fail_def sub_close_def put_terminal_def)

lemma terminal_displaces_event_witness:
  "items_of (sb_queue (sub_complete (publish_all [PInt 1, PInt 2] sample_sub))) \<noteq>
   items_of (sb_queue (publish_all [PInt 1, PInt 2] sample_sub))"
proof -
  let ?s = "publish_all [PInt 1, PInt 2] sample_sub"
  have "\<not> sb_closed ?s" "sb_state ?s \<notin> {COMPLETED, FAILED, CANCELLED}"
    and cap: "sb_capacity ?s = length (sb_queue ?s)"
    by (simp_all add: sub_eval)
  moreover obtain e q where q: "sb_queue ?s = Item e # q"
    by (simp add: sub_eval)
  ultimately have "sb_queue (sub_complete ?s) = q @ [Terminal None]"
    using terminal_displaces_event [of ?s e q "WsClientClosedError []"] by blast
  then have "sb_queue (sub_complete ?s) = tl (sb_queue ?s) @ [Terminal None]" using q by simp
  then show ?thesis by (simp add: items_of_append) (simp add: sub_eval)
qed

text \<open>
  With \<open>DROP_OLDEST\<close> the mark is on the newest event, not where the loss is: of three events in a
  queue of two the consumer reads the second without a mark and the third with one.
\<close>

lemma drop_oldest_marks_newest:
  "map (\<lambda>e. (ev_value e, ev_gap e)) (items_of (sb_queue (publish_all [PInt 1, PInt 2, PInt 3] sample_sub))) =
     [(PInt 2, False), (PInt 3, True)]"
  by (simp add: sub_eval)

text \<open>Restored after it was closed, a subscription takes a value behind the terminal its consumer stops at.\<close>

lemma revived_takes_values:
  "(case publish (PInt 1) 2 (mark_restoring 2 False (sub_complete sample_sub)) of (b, s) \<Rightarrow>
     (b, map is_item (sb_queue s), sb_closed s)) = (True, [False, True], True)"
  by (simp add: sub_eval mark_restoring_def sub_complete_def put_terminal_def)

end
