(* ===== verification/WsSession.thy ===== *)
theory WsSession
  imports Subscriptions
begin

text \<open>
  The WebSocket client: the decisions of \<open>websocket/_decisions.py\<close> and the state the runtime mixins
  share (\<open>_state.py\<close>, \<open>runtime.py\<close>), with the operations of \<open>_connection.py\<close>, \<open>_outbound.py\<close> and
  \<open>_reconnect.py\<close> that change it.

  A coroutine runs undisturbed between two awaits, so each such section is one operation of the
  model, and \<open>ws_step\<close> is what the tasks of a client may do next, in any order. Objects that are
  shared (write items, pending exchanges, subscription records) live in a store. Building and
  encrypting a frame, the socket, middleware and schemas are what happens between the sections:
  their outcome is an argument of the operation that follows them.
\<close>

section \<open>Decisions\<close>

datatype session_state =
  IDLE | CONNECTING | HANDSHAKING | READY | RECONNECTING | CLOSING | CLOSED | SESSION_FAILED

datatype failure_target = FAILURE_FAILED | FAILURE_RECONNECTING | FAILURE_IDLE

definition failure_state :: "bool \<Rightarrow> bool \<Rightarrow> failure_target" where
  "failure_state fatal reconnect =
     (if fatal then FAILURE_FAILED else if reconnect then FAILURE_RECONNECTING else FAILURE_IDLE)"

datatype connect_choice = RETURN_READY | REJECT_CLOSED | START

definition connect_action :: "session_state \<Rightarrow> connect_choice" where
  "connect_action s =
     (if s = READY then RETURN_READY else if s \<in> {CLOSING, CLOSED} then REJECT_CLOSED else START)"

datatype reconnect_choice = RECONNECT_STOP | RECONNECT_ATTEMPT

definition reconnect_action :: "session_state \<Rightarrow> reconnect_choice" where
  "reconnect_action s = (if s \<in> {CLOSING, CLOSED, READY} then RECONNECT_STOP else RECONNECT_ATTEMPT)"

definition write_admitted :: "session_state \<Rightarrow> bool \<Rightarrow> bool \<Rightarrow> bool" where
  "write_admitted s allow_handshaking queue_present \<longleftrightarrow>
     (s = READY \<or> (allow_handshaking \<and> s = HANDSHAKING)) \<and> queue_present"

datatype message_kind = MESSAGE | REPLY | EVENT | CONTROL

datatype control_kind = CONTROL_READY | CONTROL_PING | CONTROL_PONG | CONTROL_CLOSE | CONTROL_COMPLETE

record protocol_message =
  pm_kind :: message_kind
  pm_discriminator :: "string option"
  pm_payload :: pyval
  pm_correlation :: "string option"
  pm_channel :: "string option"
  pm_control :: "control_kind option"
  pm_terminal_error :: "string option"

datatype reader_route =
    PENDING_ERROR | SUBSCRIPTION_ERROR | PENDING_REPLY | SUBSCRIPTION_MESSAGE | ROUTE_READY | ROUTE_PONG
  | ROUTE_PING | SUBSCRIPTION_COMPLETE | USER_MESSAGE

text \<open>The route, and whether the pending exchange is discarded.\<close>

definition route_reader_message ::
  "protocol_message \<Rightarrow> bool \<Rightarrow> bool \<Rightarrow> bool \<Rightarrow> bool \<Rightarrow> bool \<Rightarrow> reader_route \<times> bool" where
  "route_reader_message msg pending_present pending_open correlation_sub channel_sub complete_sub =
     (let terminal = pm_terminal_error msg \<noteq> None \<and> pm_correlation msg \<noteq> None;
          reply = pm_kind msg = REPLY \<and> pm_correlation msg \<noteq> None;
          discard = pending_present \<and> (terminal \<or> reply)
      in if terminal \<and> pending_open then (PENDING_ERROR, discard)
         else if terminal \<and> correlation_sub then (SUBSCRIPTION_ERROR, discard)
         else if reply \<and> pending_open then (PENDING_REPLY, discard)
         else if reply \<and> correlation_sub then (SUBSCRIPTION_MESSAGE, discard)
         else if pm_kind msg = EVENT \<and> pm_channel msg \<noteq> None \<and> channel_sub
           then (SUBSCRIPTION_MESSAGE, discard)
         else if pm_kind msg = CONTROL \<and> pm_control msg = Some CONTROL_READY then (ROUTE_READY, discard)
         else if pm_kind msg = CONTROL \<and> pm_control msg = Some CONTROL_PONG then (ROUTE_PONG, discard)
         else if pm_kind msg = CONTROL \<and> pm_control msg = Some CONTROL_PING then (ROUTE_PING, discard)
         else if pm_kind msg = CONTROL \<and> pm_control msg = Some CONTROL_COMPLETE \<and> complete_sub
           then (SUBSCRIPTION_COMPLETE, discard)
         else (USER_MESSAGE, discard))"

datatype disconnect_choice = FAIL_FATAL | FAIL_ENDED | FAIL_DISABLED | RETAIN

definition disconnect_action :: "resubscribe_policy \<Rightarrow> bool \<Rightarrow> bool \<Rightarrow> disconnect_choice" where
  "disconnect_action policy fatal reconnect =
     (if fatal then FAIL_FATAL
      else if \<not> reconnect then FAIL_ENDED
      else if policy = NeverResubscribe then FAIL_DISABLED
      else RETAIN)"

datatype recovery_mode = RESUBSCRIBE | RECOVER

record recovery_plan =
  rd_mode :: recovery_mode
  rd_token :: "pyval option"
  rd_error :: "string option"

definition recovery_decision :: "bool \<Rightarrow> string option \<Rightarrow> pyval option \<Rightarrow> recovery_plan" where
  "recovery_decision requested channel token =
     (if \<not> requested then \<lparr>rd_mode = RESUBSCRIBE, rd_token = None, rd_error = None\<rparr>
      else if channel = None
        then \<lparr>rd_mode = RECOVER, rd_token = None,
              rd_error = Some ''protocol recovery requires a channel-routed subscription''\<rparr>
      else if token = None then \<lparr>rd_mode = RESUBSCRIBE, rd_token = None, rd_error = None\<rparr>
      else \<lparr>rd_mode = RECOVER, rd_token = token, rd_error = None\<rparr>)"

section \<open>State\<close>

text \<open>
  A future: not done, done with a result, or done with an exception. \<open>Delivery\<close> is
  \<open>_AttemptDeliveryFailure\<close> with its \<open>may_have_been_sent\<close>; a cancelled future is \<open>Withdrawn\<close>.
\<close>

datatype failure = Delivery ws_error bool | Remote string

datatype 'a future = Open | Resolved 'a | Broken failure | Withdrawn

fun settle :: "'a future \<Rightarrow> 'a future \<Rightarrow> 'a future" where
  "settle v Open = v"
| "settle v f = f"

type_synonym pending_key = "nat \<times> string"

record pending_exchange =
  ex_reply :: "protocol_message future"
  ex_send_started :: bool

record write_item =
  wi_frame :: string
  wi_completion :: "unit future"
  wi_pending :: "pending_key option"
  wi_started :: bool

record sub_record =
  sr_subscription :: subscription
  sr_discriminator :: string
  sr_correlation :: "string option"
  sr_channel :: "string option"

text \<open>Where the coroutine that holds the connect lock stands.\<close>

datatype connect_phase = NotConnecting | Opening | Handshake | ClosingTasks | ClosingSocket

text \<open>
  The protocol namespace of a client is constant and left out of the keys. \<open>ws_tasks\<close>: the reader,
  writer and heartbeat of the current connection have not been cancelled and have not ended.
  \<open>ws_reconnecting\<close>: the reconnect task runs. \<open>ws_user\<close>: the messages handed to the user's handler.
\<close>

record client =
  ws_state :: session_state
  ws_phase :: connect_phase
  ws_generation :: nat
  ws_next_correlation :: nat
  ws_capacity :: nat
  ws_delays :: "int list"
  ws_queue :: "nat list option"
  ws_active :: "nat option"
  ws_tasks :: bool
  ws_items :: "nat \<Rightarrow> write_item option"
  ws_exchanges :: "pending_key \<Rightarrow> pending_exchange option"
  ws_pending :: "pending_key list"
  ws_records :: "nat \<Rightarrow> sub_record option"
  ws_by_channel :: "(string, nat) dict"
  ws_by_correlation :: "(string, nat) dict"
  ws_reconnecting :: bool
  ws_heartbeat_ack :: bool
  ws_protocol_ready :: bool
  ws_user :: "protocol_message list"

definition new_client :: "nat \<Rightarrow> int list \<Rightarrow> client" where
  "new_client capacity delays =
     \<lparr>ws_state = IDLE, ws_phase = NotConnecting, ws_generation = 0, ws_next_correlation = 0,
      ws_capacity = capacity, ws_delays = delays, ws_queue = None, ws_active = None, ws_tasks = False,
      ws_items = Map.empty, ws_exchanges = Map.empty, ws_pending = [], ws_records = Map.empty,
      ws_by_channel = [], ws_by_correlation = [], ws_reconnecting = False, ws_heartbeat_ack = False,
      ws_protocol_ready = False, ws_user = []\<rparr>"

definition on_item :: "(write_item \<Rightarrow> write_item) \<Rightarrow> nat \<Rightarrow> client \<Rightarrow> client" where
  "on_item f i c = c\<lparr>ws_items := (ws_items c)(i := map_option f (ws_items c i))\<rparr>"

definition on_exchange :: "(pending_exchange \<Rightarrow> pending_exchange) \<Rightarrow> pending_key \<Rightarrow> client \<Rightarrow> client" where
  "on_exchange f k c = c\<lparr>ws_exchanges := (ws_exchanges c)(k := map_option f (ws_exchanges c k))\<rparr>"

definition on_subscription :: "(subscription \<Rightarrow> subscription) \<Rightarrow> nat \<Rightarrow> client \<Rightarrow> client" where
  "on_subscription f r c = c\<lparr>ws_records := (ws_records c)(r :=
     map_option (\<lambda>x. x\<lparr>sr_subscription := f (sr_subscription x)\<rparr>) (ws_records c r))\<rparr>"

section \<open>Correlations\<close>

text \<open>\<open>str\<close> of a natural number.\<close>

fun str_nat :: "nat \<Rightarrow> string" where
  "str_nat n = (if n < 10 then [char_of (48 + n)] else str_nat (n div 10) @ [char_of (48 + n mod 10)])"

declare str_nat.simps [simp del]

definition allocate_correlation :: "client \<Rightarrow> string \<times> client" where
  "allocate_correlation c =
     (let n = ws_next_correlation c + 1 in (str_nat n, c\<lparr>ws_next_correlation := n\<rparr>))"

section \<open>The write queue\<close>

text \<open>
  \<open>_enqueue\<close> of a new item: \<open>Inl\<close> the failure it raises (not ready, or a full queue), \<open>Inr\<close> the
  item's identity.
\<close>

datatype enqueue_error = NotReady | QueueFull

definition enqueue ::
  "bool \<Rightarrow> string \<Rightarrow> pending_key option \<Rightarrow> nat \<Rightarrow> client \<Rightarrow> (enqueue_error + unit) \<times> client" where
  "enqueue allow_handshaking frame pending i c =
     (if \<not> write_admitted (ws_state c) allow_handshaking (ws_queue c \<noteq> None) then (Inl NotReady, c)
      else case ws_queue c of
        None \<Rightarrow> (Inl NotReady, c)
      | Some q \<Rightarrow>
          if ws_capacity c \<le> length q then (Inl QueueFull, c)
          else (Inr (), c\<lparr>ws_queue := Some (q @ [i]),
                 ws_items := (ws_items c)(i \<mapsto> \<lparr>wi_frame = frame, wi_completion = Open,
                   wi_pending = pending, wi_started = False\<rparr>)\<rparr>))"

text \<open>The writer takes an item: from here on its frame may reach the peer.\<close>

definition writer_take :: "client \<Rightarrow> client" where
  "writer_take c =
     (case ws_queue c of
        Some (i # q) \<Rightarrow>
          (let c1 = on_item (\<lambda>w. w\<lparr>wi_started := True\<rparr>) i (c\<lparr>ws_queue := Some q, ws_active := Some i\<rparr>) in
           case Option.bind (ws_items c i) wi_pending of
             None \<Rightarrow> c1
           | Some k \<Rightarrow> on_exchange (\<lambda>e. e\<lparr>ex_send_started := True\<rparr>) k c1)
      | _ \<Rightarrow> c)"

definition writer_sent :: "nat \<Rightarrow> client \<Rightarrow> client" where
  "writer_sent i c =
     (on_item (\<lambda>w. w\<lparr>wi_completion := settle (Resolved ()) (wi_completion w)\<rparr>) i c)\<lparr>ws_active := None\<rparr>"

section \<open>Subscriptions of the client\<close>

definition uniq :: "'a list \<Rightarrow> 'a list" where
  "uniq xs = rev (fold (\<lambda>x acc. if x \<in> set acc then acc else x # acc) xs [])"

definition subscription_records :: "client \<Rightarrow> nat list" where
  "subscription_records c = uniq (map snd (ws_by_channel c) @ map snd (ws_by_correlation c))"

definition remove_subscription :: "nat \<Rightarrow> client \<Rightarrow> client" where
  "remove_subscription r c =
     (case ws_records c r of
        None \<Rightarrow> c
      | Some x \<Rightarrow>
          (let c1 = (case sr_channel x of None \<Rightarrow> c
                     | Some ch \<Rightarrow> c\<lparr>ws_by_channel := AList.delete ch (ws_by_channel c)\<rparr>)
           in case sr_correlation x of None \<Rightarrow> c1
              | Some k \<Rightarrow> c1\<lparr>ws_by_correlation := AList.delete k (ws_by_correlation c1)\<rparr>))"

text \<open>
  \<open>subscribe\<close> after \<open>connect\<close> and its middleware, up to sending: the route is the channel or a new
  correlation. \<open>r\<close> is the identity of the new record.
\<close>

definition register_subscription ::
  "nat \<Rightarrow> string \<Rightarrow> string option \<Rightarrow> resubscribe_policy \<Rightarrow> int \<Rightarrow> overflow_policy \<Rightarrow> client \<Rightarrow>
     (sdk_error + unit) \<times> client" where
  "register_subscription r discriminator channel resubscribe capacity overflow c =
     (let (correlation, c1) = (if channel \<noteq> None then (None, c)
                               else case allocate_correlation c of (k, c') \<Rightarrow> (Some k, c'));
          taken = (case (channel, correlation) of
                     (Some ch, _) \<Rightarrow> map_of (ws_by_channel c1) ch \<noteq> None
                   | (None, Some k) \<Rightarrow> map_of (ws_by_correlation c1) k \<noteq> None
                   | (None, None) \<Rightarrow> False)
      in if taken then (Inl (PyValueError ''duplicate active subscription route''), c1)
         else case new_subscription resubscribe capacity overflow (ws_generation c1) of
           Inl e \<Rightarrow> (Inl e, c1)
         | Inr s \<Rightarrow>
             (let c2 = c1\<lparr>ws_records := (ws_records c1)(r \<mapsto> \<lparr>sr_subscription = s,
                    sr_discriminator = discriminator, sr_correlation = correlation, sr_channel = channel\<rparr>)\<rparr>
              in (Inr (),
                  case (channel, correlation) of
                    (Some ch, _) \<Rightarrow> c2\<lparr>ws_by_channel := AList.update ch r (ws_by_channel c2)\<rparr>
                  | (None, Some k) \<Rightarrow> c2\<lparr>ws_by_correlation := AList.update k r (ws_by_correlation c2)\<rparr>
                  | (None, None) \<Rightarrow> c2)))"

text \<open>A record whose subscription failed leaves the registries.\<close>

definition fail_record :: "ws_error \<Rightarrow> nat \<Rightarrow> client \<Rightarrow> client" where
  "fail_record e r c = remove_subscription r (on_subscription (sub_fail e) r c)"

section \<open>Failure of a connection\<close>

text \<open>\<open>_fail_outstanding\<close>: the write in progress, the queue, the pending exchanges.\<close>

definition break_item :: "ws_error \<Rightarrow> nat \<Rightarrow> client \<Rightarrow> client" where
  "break_item cause =
     on_item (\<lambda>w. w\<lparr>wi_completion := settle (Broken (Delivery cause (wi_started w))) (wi_completion w)\<rparr>)"

definition break_exchange :: "ws_error \<Rightarrow> pending_key \<Rightarrow> client \<Rightarrow> client" where
  "break_exchange cause =
     on_exchange (\<lambda>e. e\<lparr>ex_reply := settle (Broken (Delivery cause (ex_send_started e))) (ex_reply e)\<rparr>)"

definition fail_outstanding :: "ws_error \<Rightarrow> client \<Rightarrow> client" where
  "fail_outstanding cause c =
     (let c1 = (case ws_active c of None \<Rightarrow> c | Some i \<Rightarrow> break_item cause i c);
          c2 = (case ws_queue c1 of None \<Rightarrow> c1
                | Some q \<Rightarrow> fold (break_item cause) q c1\<lparr>ws_queue := Some []\<rparr>);
          c3 = fold (break_exchange cause) (ws_pending c2) c2
      in c3\<lparr>ws_pending := []\<rparr>)"

text \<open>\<open>_disconnect_subscriptions\<close>: whether a subscription is kept for a reconnect.\<close>

definition policy_of :: "nat \<Rightarrow> client \<Rightarrow> resubscribe_policy" where
  "policy_of r c = (case ws_records c r of None \<Rightarrow> NeverResubscribe | Some x \<Rightarrow> sb_resubscribe (sr_subscription x))"

definition disconnect_record :: "string \<Rightarrow> bool \<Rightarrow> bool \<Rightarrow> nat \<Rightarrow> bool \<times> client \<Rightarrow> bool \<times> client" where
  "disconnect_record cause fatal reconnect r = (\<lambda>(retained, c).
     case disconnect_action (policy_of r c) fatal reconnect of
       FAIL_FATAL \<Rightarrow>
         (retained, fail_record (SubscriptionDisconnectedError (''fatal WebSocket disconnect: '' @ cause)) r c)
     | FAIL_ENDED \<Rightarrow>
         (retained, fail_record (SubscriptionDisconnectedError (''WebSocket subscription ended: '' @ cause)) r c)
     | FAIL_DISABLED \<Rightarrow>
         (retained, fail_record (SubscriptionDisconnectedError
            (''subscription disconnected and resubscribe is disabled: '' @ cause)) r c)
     | RETAIN \<Rightarrow> (True, on_subscription mark_disconnected r c))"

definition disconnect_subscriptions :: "string \<Rightarrow> bool \<Rightarrow> bool \<Rightarrow> client \<Rightarrow> bool \<times> client" where
  "disconnect_subscriptions cause fatal reconnect c =
     (let (retained, c1) = fold (disconnect_record cause fatal reconnect) (subscription_records c) (False, c)
      in if retained \<and> ws_delays c1 = []
         then (False, fold (fail_record (SubscriptionDisconnectedError ''WebSocket reconnect budget is disabled''))
                        (subscription_records c1) c1)
         else (retained, c1))"

definition failure_session_state :: "failure_target \<Rightarrow> session_state" where
  "failure_session_state t =
     (case t of FAILURE_FAILED \<Rightarrow> SESSION_FAILED | FAILURE_RECONNECTING \<Rightarrow> RECONNECTING | FAILURE_IDLE \<Rightarrow> IDLE)"

text \<open>\<open>_fail_connection\<close>, with the reconnect task it schedules; the cause is an error and its text.\<close>

definition fail_connection ::
  "ws_error \<Rightarrow> string \<Rightarrow> nat \<Rightarrow> bool \<Rightarrow> bool \<Rightarrow> client \<Rightarrow> client" where
  "fail_connection cause message generation fatal reconnect c =
     (if generation \<noteq> ws_generation c \<or> ws_state c \<in> {CLOSING, CLOSED} then c
      else
        let c1 = fail_outstanding cause (c\<lparr>ws_state := failure_session_state (failure_state fatal reconnect)\<rparr>);
            (should, c2) = disconnect_subscriptions message fatal reconnect c1;
            c3 = c2\<lparr>ws_tasks := False\<rparr>
        in if should then c3\<lparr>ws_reconnecting := True\<rparr> else c3)"

section \<open>Connecting\<close>

definition teardown :: "client \<Rightarrow> client" where
  "teardown c = c\<lparr>ws_tasks := False, ws_queue := None, ws_active := None\<rparr>"

text \<open>\<open>connect\<close> up to opening the socket: \<open>Inr False\<close> when the client is ready.\<close>

definition connect_begin :: "client \<Rightarrow> (ws_error + bool) \<times> client" where
  "connect_begin c =
     (case connect_action (ws_state c) of
        RETURN_READY \<Rightarrow> (Inr False, c)
      | REJECT_CLOSED \<Rightarrow> (Inl (WsClientClosedError ''WebSocket client is closed''), c)
      | START \<Rightarrow> (Inr True, (teardown c)\<lparr>ws_state := CONNECTING, ws_phase := Opening\<rparr>))"

definition connect_refused :: "client \<Rightarrow> client" where
  "connect_refused c = c\<lparr>ws_state := SESSION_FAILED, ws_phase := NotConnecting\<rparr>"

definition connect_opened :: "client \<Rightarrow> client" where
  "connect_opened c =
     c\<lparr>ws_generation := ws_generation c + 1, ws_queue := Some [], ws_state := HANDSHAKING,
       ws_protocol_ready := False, ws_tasks := True, ws_phase := Handshake\<rparr>"

definition handshake_failed :: "ws_error \<Rightarrow> client \<Rightarrow> client" where
  "handshake_failed cause c =
     (teardown (fail_outstanding cause c))\<lparr>ws_state := SESSION_FAILED, ws_phase := NotConnecting\<rparr>"

text \<open>The flag says whether the subscriptions are restored next.\<close>

definition connect_finished :: "client \<Rightarrow> bool \<times> client" where
  "connect_finished c =
     (1 < ws_generation c \<and> subscription_records c \<noteq> [], c\<lparr>ws_state := READY, ws_phase := NotConnecting\<rparr>)"

section \<open>Restoring subscriptions\<close>

definition is_recovery :: "resubscribe_policy \<Rightarrow> bool" where
  "is_recovery p = (case p of RecoverBySequence _ \<Rightarrow> True | RecoverByToken _ \<Rightarrow> True | _ \<Rightarrow> False)"

text \<open>One record of \<open>_restore_subscriptions\<close>, up to its middleware: a new correlation and the mark.\<close>

definition restore_begin :: "nat \<Rightarrow> nat \<Rightarrow> client \<Rightarrow> client" where
  "restore_begin generation r c =
     (case ws_records c r of
        None \<Rightarrow> c
      | Some x \<Rightarrow>
          if sb_resubscribe (sr_subscription x) = NeverResubscribe then c
          else
            let c1 = (case sr_correlation x of
                  None \<Rightarrow> c
                | Some old \<Rightarrow>
                    (case allocate_correlation (c\<lparr>ws_by_correlation := AList.delete old (ws_by_correlation c)\<rparr>) of
                       (k, c') \<Rightarrow> c'\<lparr>ws_records := (ws_records c')(r \<mapsto> x\<lparr>sr_correlation := Some k\<rparr>),
                                    ws_by_correlation := AList.update k r (ws_by_correlation c')\<rparr>))
            in on_subscription (mark_restoring generation (is_recovery (sb_resubscribe (sr_subscription x)))) r c1)"

text \<open>Its end: what the middleware or the send raised, or nothing.\<close>

definition restore_end :: "ws_error option \<Rightarrow> nat \<Rightarrow> client \<Rightarrow> client" where
  "restore_end result r c =
     (case result of Some e \<Rightarrow> fail_record e r c | None \<Rightarrow> on_subscription mark_active r c)"

definition restore_order :: "client \<Rightarrow> nat list" where
  "restore_order c = filter (\<lambda>r. policy_of r c \<noteq> NeverResubscribe) (subscription_records c)"

section \<open>Reading\<close>

text \<open>
  What is left to do after the synchronous part of \<open>_route_message\<close>: publish to a subscription
  (after its middleware), answer a ping, or nothing.
\<close>

datatype follow_up = FollowNone | FollowPublish nat | FollowPong

definition message_key :: "protocol_message \<Rightarrow> nat \<Rightarrow> pending_key option" where
  "message_key msg generation = map_option (Pair generation) (pm_correlation msg)"

definition correlation_subscription :: "protocol_message \<Rightarrow> client \<Rightarrow> nat option" where
  "correlation_subscription msg c = Option.bind (pm_correlation msg) (map_of (ws_by_correlation c))"

definition channel_subscription :: "protocol_message \<Rightarrow> client \<Rightarrow> nat option" where
  "channel_subscription msg c = Option.bind (pm_channel msg) (map_of (ws_by_channel c))"

definition complete_subscription :: "protocol_message \<Rightarrow> client \<Rightarrow> nat option" where
  "complete_subscription msg c =
     (if pm_channel msg \<noteq> None then channel_subscription msg c else correlation_subscription msg c)"

definition route_of :: "protocol_message \<Rightarrow> nat \<Rightarrow> client \<Rightarrow> reader_route \<times> bool" where
  "route_of msg generation c =
     (let pending = Option.bind (message_key msg generation)
            (\<lambda>k. if k \<in> set (ws_pending c) then ws_exchanges c k else None)
      in route_reader_message msg (pending \<noteq> None)
           (case pending of Some e \<Rightarrow> ex_reply e = Open | None \<Rightarrow> False)
           (correlation_subscription msg c \<noteq> None) (channel_subscription msg c \<noteq> None)
           (complete_subscription msg c \<noteq> None))"

definition discard_pending :: "pending_key option \<Rightarrow> client \<Rightarrow> client" where
  "discard_pending key c =
     (case key of Some k \<Rightarrow> c\<lparr>ws_pending := removeAll k (ws_pending c)\<rparr> | None \<Rightarrow> c)"

fun apply_route :: "reader_route \<Rightarrow> protocol_message \<Rightarrow> nat \<Rightarrow> client \<Rightarrow> follow_up \<times> client" where
  "apply_route PENDING_ERROR msg g c = (FollowNone,
     case (message_key msg g, pm_terminal_error msg) of
       (Some k, Some e) \<Rightarrow> on_exchange (\<lambda>x. x\<lparr>ex_reply := Broken (Remote e)\<rparr>) k c | _ \<Rightarrow> c)"
| "apply_route SUBSCRIPTION_ERROR msg g c = (FollowNone,
     case (correlation_subscription msg c, pm_terminal_error msg) of
       (Some r, Some e) \<Rightarrow> fail_record (RemoteError e) r c | _ \<Rightarrow> c)"
| "apply_route PENDING_REPLY msg g c = (FollowNone,
     case message_key msg g of Some k \<Rightarrow> on_exchange (\<lambda>x. x\<lparr>ex_reply := Resolved msg\<rparr>) k c | None \<Rightarrow> c)"
| "apply_route SUBSCRIPTION_MESSAGE msg g c =
     (case (if pm_kind msg = REPLY then correlation_subscription msg c else channel_subscription msg c) of
        Some r \<Rightarrow> (FollowPublish r, c) | None \<Rightarrow> (FollowNone, c))"
| "apply_route ROUTE_READY msg g c = (FollowNone, c\<lparr>ws_protocol_ready := True\<rparr>)"
| "apply_route ROUTE_PONG msg g c = (FollowNone, c\<lparr>ws_heartbeat_ack := True\<rparr>)"
| "apply_route ROUTE_PING msg g c = (FollowPong, c)"
| "apply_route SUBSCRIPTION_COMPLETE msg g c = (FollowNone,
     case complete_subscription msg c of
       Some r \<Rightarrow> remove_subscription r (on_subscription sub_complete r c) | None \<Rightarrow> c)"
| "apply_route USER_MESSAGE msg g c = (FollowNone, c\<lparr>ws_user := ws_user c @ [msg]\<rparr>)"

definition route_message :: "protocol_message \<Rightarrow> nat \<Rightarrow> client \<Rightarrow> follow_up \<times> client" where
  "route_message msg generation c =
     (case route_of msg generation c of
        (route, discard) \<Rightarrow>
          apply_route route msg generation
            (if discard then discard_pending (message_key msg generation) c else c))"

text \<open>
  The end of \<open>_publish_subscription\<close>: what decryption, middleware or the schema raised, or the value
  they gave.
\<close>

definition publish_subscription :: "nat \<Rightarrow> ws_error + pyval \<Rightarrow> nat \<Rightarrow> client \<Rightarrow> client" where
  "publish_subscription r result generation c =
     (case result of
        Inl e \<Rightarrow> fail_record e r c
      | Inr v \<Rightarrow>
          (case ws_records c r of
             None \<Rightarrow> c
           | Some x \<Rightarrow>
               (case publish v generation (sr_subscription x) of
                  (ok, s) \<Rightarrow>
                    (let c1 = on_subscription (\<lambda>_. s) r c in if ok then c1 else remove_subscription r c1))))"

section \<open>Calls\<close>

text \<open>\<open>_call_once\<close>: the exchange is registered before the frame is prepared, and removed at the end.\<close>

definition call_register :: "client \<Rightarrow> pending_key \<times> client" where
  "call_register c =
     (case allocate_correlation c of
        (k, c1) \<Rightarrow>
          (let key = (ws_generation c1, k) in
           (key, c1\<lparr>ws_exchanges := (ws_exchanges c1)(key \<mapsto> \<lparr>ex_reply = Open, ex_send_started = False\<rparr>),
                    ws_pending := ws_pending c1 @ [key]\<rparr>)))"

definition call_finish :: "pending_key \<Rightarrow> client \<Rightarrow> client" where
  "call_finish k c =
     on_exchange (\<lambda>e. e\<lparr>ex_reply := settle Withdrawn (ex_reply e)\<rparr>) k
       (c\<lparr>ws_pending := removeAll k (ws_pending c)\<rparr>)"

text \<open>
  \<open>aclose\<close> holds the connect lock too: the state and the reconnect task, then everything that is
  outstanding, then, after the socket is closed, the tasks and the final state.
\<close>

definition close_begin :: "client \<Rightarrow> client" where
  "close_begin c =
     (if ws_state c = CLOSED then c
      else c\<lparr>ws_state := CLOSING, ws_reconnecting := False, ws_phase := ClosingTasks\<rparr>)"

definition close_settle :: "client \<Rightarrow> client" where
  "close_settle c =
     (let c1 = fail_outstanding (WsClientClosedError ''WebSocket client closed'') c;
          c2 = fold (fail_record (SubscriptionDisconnectedError ''WebSocket client closed''))
                 (subscription_records c1) c1
      in c2\<lparr>ws_phase := ClosingSocket\<rparr>)"

definition close_finish :: "client \<Rightarrow> client" where
  "close_finish c = (teardown c)\<lparr>ws_state := CLOSED, ws_phase := NotConnecting\<rparr>"

section \<open>Reconnecting\<close>

definition reconnect_exhausted :: "ws_error option \<Rightarrow> client \<Rightarrow> client" where
  "reconnect_exhausted last_error c =
     (let c1 = c\<lparr>ws_state := SESSION_FAILED\<rparr>;
          message = ''WebSocket reconnect budget exhausted: '' @
            (case last_error of Some (WsConnectError m) \<Rightarrow> m | _ \<Rightarrow> ''no connection'')
      in fold (fail_record (SubscriptionDisconnectedError message)) (subscription_records c1) c1)"

text \<open>
  \<open>_reconnect_loop\<close>: \<open>rest d\<close> is what happens during a sleep of \<open>d\<close>, \<open>dial\<close> is \<open>connect\<close> with what it
  raises. The result carries the number of dials.
\<close>

fun reconnect_loop ::
  "(int \<Rightarrow> client \<Rightarrow> client) \<Rightarrow> (client \<Rightarrow> ws_error option \<times> client) \<Rightarrow> int list \<Rightarrow> ws_error option \<Rightarrow>
     client \<Rightarrow> nat \<times> client" where
  "reconnect_loop rest dial [] last_error c = (0, reconnect_exhausted last_error c)"
| "reconnect_loop rest dial (d # ds) last_error c =
     (let c1 = rest d c in
      if reconnect_action (ws_state c1) = RECONNECT_STOP then (0, c1)
      else case dial c1 of
        (None, c2) \<Rightarrow> (1, c2)
      | (Some (WsConnectError m), c2) \<Rightarrow>
          (case reconnect_loop rest dial ds (Some (WsConnectError m)) c2 of (n, c3) \<Rightarrow> (Suc n, c3))
      | (Some e, c2) \<Rightarrow> (1, c2))"

section \<open>Sending with a replay policy\<close>

text \<open>What one \<open>_send_once\<close> or \<open>_call_once\<close> ends with.\<close>

datatype 'v once = Answer 'v | DeliveryFailed ws_error bool | OnceRaised ws_error

definition raise_delivery :: "string \<Rightarrow> ws_error \<Rightarrow> bool \<Rightarrow> ws_error" where
  "raise_delivery discriminator cause may_have_been_sent =
     (if may_have_been_sent then
        (case cause of
           WsCallTimeoutError m \<Rightarrow> WsCallTimeoutError m
         | _ \<Rightarrow> DeliveryUnknownError (''WebSocket operation '' @ py_repr discriminator @ '' may have been delivered''))
      else DeliveryNotSentError (''WebSocket operation '' @ py_repr discriminator @ '' was not sent''))"

text \<open>
  The loop of \<open>send\<close> and \<open>call\<close>: \<open>once\<close> is one attempt, \<open>prepare\<close> is \<open>_prepare_replay\<close>. Beside the result
  it returns what each attempt ended with.
\<close>

function replay_loop ::
  "string \<Rightarrow> ws_replay_policy \<Rightarrow> ('w \<Rightarrow> 'v once \<times> 'w) \<Rightarrow> ('w \<Rightarrow> ws_error option \<times> 'w) \<Rightarrow> int \<Rightarrow> 'w \<Rightarrow>
     (ws_error + 'v) \<times> 'v once list \<times> 'w" where
  "replay_loop discriminator policy once prepare replays w =
     (case once w of
        (Answer v, w1) \<Rightarrow> (Inr v, [Answer v], w1)
      | (OnceRaised e, w1) \<Rightarrow> (Inl e, [OnceRaised e], w1)
      | (DeliveryFailed cause may, w1) \<Rightarrow>
          if replay_allowed policy may replays
          then (case prepare w1 of
                  (Some e, w2) \<Rightarrow> (Inl e, [DeliveryFailed cause may], w2)
                | (None, w2) \<Rightarrow>
                    (case replay_loop discriminator policy once prepare (replays + 1) w2 of
                       (r, tr, w3) \<Rightarrow> (r, DeliveryFailed cause may # tr, w3)))
          else (Inl (raise_delivery discriminator cause may), [DeliveryFailed cause may], w1))"
  by pat_completeness auto
termination
  by (relation "measure (\<lambda>(d, policy, once, prepare, replays, w). nat (max_replays policy - replays))")
    (auto simp: replay_allowed_def split: if_splits)

declare replay_loop.simps [simp del]

definition prepare_replay :: "(client \<Rightarrow> ws_error option \<times> client) \<Rightarrow> client \<Rightarrow> ws_error option \<times> client" where
  "prepare_replay dial c =
     (if ws_state c = SESSION_FAILED then (Some (WsConnectError ''fatal WebSocket failure forbids replay''), c)
      else dial c)"

end
