(* ===== verification/WsRuns.thy ===== *)
theory WsRuns
  imports WsSession
begin

text \<open>
  Runs of a WebSocket client: the step relation over the operations of \<open>WsSession\<close>, the invariants
  of its write queue and of its registries, and what follows for callers and subscribers. The last
  section replays three runs in which the code does not keep what it means to keep.
\<close>

section \<open>Steps\<close>

text \<open>
  What any task of a client may do next. The connect lock is \<open>ws_phase\<close>; the writer takes and sends
  only while it is not cancelled.
\<close>

inductive ws_step :: "client \<Rightarrow> client \<Rightarrow> bool" where
  step_connect: "ws_phase c = NotConnecting \<Longrightarrow> connect_begin c = (Inr True, c') \<Longrightarrow> ws_step c c'"
| step_refused: "ws_phase c = Opening \<Longrightarrow> ws_step c (connect_refused c)"
| step_opened: "ws_phase c = Opening \<Longrightarrow> ws_step c (connect_opened c)"
| step_handshake_failed: "ws_phase c = Handshake \<Longrightarrow> ws_step c (handshake_failed e c)"
| step_finished: "ws_phase c = Handshake \<Longrightarrow> ws_step c (snd (connect_finished c))"
| step_enqueue: "ws_items c i = None \<Longrightarrow> enqueue hs frame pending i c = (Inr u, c') \<Longrightarrow> ws_step c c'"
| step_take: "ws_tasks c \<Longrightarrow> ws_active c = None \<Longrightarrow> ws_step c (writer_take c)"
| step_sent: "ws_tasks c \<Longrightarrow> ws_active c = Some i \<Longrightarrow> ws_step c (writer_sent i c)"
| step_send_failed: "ws_tasks c \<Longrightarrow> ws_active c = Some i \<Longrightarrow>
    ws_step c ((fail_connection e m g fatal reconnect (break_item e i c))\<lparr>ws_active := None\<rparr>)"
| step_writer_cancelled: "\<not> ws_tasks c \<Longrightarrow> ws_step c (c\<lparr>ws_active := None\<rparr>)"
| step_fail: "ws_step c (fail_connection e m g fatal reconnect c)"
| step_withdraw: "ws_step c (on_item (\<lambda>w. w\<lparr>wi_completion := settle Withdrawn (wi_completion w)\<rparr>) i c)"
| step_call: "ws_step c (snd (call_register c))"
| step_call_end: "ws_step c (call_finish k c)"
| step_route: "ws_step c (snd (route_message msg g c))"
| step_publish: "ws_step c (publish_subscription r result g c)"
| step_subscribe: "ws_records c r = None \<Longrightarrow>
    ws_step c (snd (register_subscription r discriminator channel resubscribe capacity overflow c))"
| step_restore: "ws_step c (restore_begin g r c)"
| step_restored: "ws_step c (restore_end result r c)"
| step_unsubscribe: "ws_step c (on_subscription (\<lambda>s. snd (sub_close s)) r c)"
| step_remove: "ws_step c (remove_subscription r c)"
| step_consume: "next_item s = Some (x, s') \<Longrightarrow> map_option sr_subscription (ws_records c r) = Some s \<Longrightarrow>
    ws_step c (on_subscription (\<lambda>_. s') r c)"
| step_close: "ws_phase c = NotConnecting \<Longrightarrow> ws_step c (close_begin c)"
| step_close_settle: "ws_phase c = ClosingTasks \<Longrightarrow> ws_step c (close_settle c)"
| step_close_finish: "ws_phase c = ClosingSocket \<Longrightarrow> ws_step c (close_finish c)"
| step_exhausted: "ws_reconnecting c \<Longrightarrow> ws_step c ((reconnect_exhausted e c)\<lparr>ws_reconnecting := False\<rparr>)"
| step_reconnected: "ws_step c (c\<lparr>ws_reconnecting := False\<rparr>)"

inductive ws_steps :: "client \<Rightarrow> client \<Rightarrow> bool" where
  steps_refl: "ws_steps c c"
| steps_step: "ws_steps c c1 \<Longrightarrow> ws_step c1 c2 \<Longrightarrow> ws_steps c c2"

lemma ws_steps_trans: "ws_steps b c \<Longrightarrow> ws_steps a b \<Longrightarrow> ws_steps a c"
  by (induction rule: ws_steps.induct) (auto intro: steps_step)

section \<open>What an operation leaves alone\<close>

named_theorems frame_simps \<open>the parts of the client an operation does not change\<close>

text \<open>The write side of a client.\<close>

definition io :: "client \<Rightarrow> (nat \<Rightarrow> write_item option) \<times> nat list option \<times> nat option" where
  "io c = (ws_items c, ws_queue c, ws_active c)"

text \<open>The routes of a client; \<open>routes\<close> also names what the keys of its calls are drawn from.\<close>

definition fixed_parts :: "client \<Rightarrow> nat \<times> int list \<times> nat \<times> nat" where
  "fixed_parts c = (ws_capacity c, ws_delays c, ws_generation c, ws_next_correlation c)"

lemma io_iff: "io c = io c' \<longleftrightarrow> ws_items c = ws_items c' \<and> ws_queue c = ws_queue c' \<and> ws_active c = ws_active c'"
  by (auto simp: io_def)

lemma io_update [frame_simps]:
  "io (c\<lparr>ws_state := a\<rparr>) = io c" "io (c\<lparr>ws_phase := b\<rparr>) = io c" "io (c\<lparr>ws_generation := n\<rparr>) = io c"
  "io (c\<lparr>ws_next_correlation := n\<rparr>) = io c" "io (c\<lparr>ws_tasks := t\<rparr>) = io c"
  "io (c\<lparr>ws_exchanges := e\<rparr>) = io c" "io (c\<lparr>ws_pending := p\<rparr>) = io c" "io (c\<lparr>ws_records := r\<rparr>) = io c"
  "io (c\<lparr>ws_by_channel := d\<rparr>) = io c" "io (c\<lparr>ws_by_correlation := d'\<rparr>) = io c"
  "io (c\<lparr>ws_reconnecting := t\<rparr>) = io c" "io (c\<lparr>ws_heartbeat_ack := t\<rparr>) = io c"
  "io (c\<lparr>ws_protocol_ready := t\<rparr>) = io c" "io (c\<lparr>ws_user := u\<rparr>) = io c"
  by (simp_all add: io_def)

lemma io_ops [frame_simps]:
  "io (on_subscription f r c) = io c"
  "io (on_exchange g k c) = io c"
  "io (remove_subscription r c) = io c"
  "io (fail_record e r c) = io c"
  by (auto simp: on_subscription_def on_exchange_def remove_subscription_def fail_record_def frame_simps
      Let_def split: option.splits)

lemma io_fold:
  assumes "\<And>x c. io (f x c) = io c"
  shows "io (fold f xs c) = io c"
  by (induction xs arbitrary: c) (simp_all add: assms)

lemma io_disconnect_record: "io (snd (disconnect_record m fatal rec r p)) = io (snd p)"
  by (auto simp: disconnect_record_def frame_simps split: prod.splits disconnect_choice.splits)

lemma io_disconnect [frame_simps]: "io (snd (disconnect_subscriptions m fatal rec c)) = io c"
proof -
  have "io (snd (fold (disconnect_record m fatal rec) rs p)) = io (snd p)" for rs p
    by (induction rs arbitrary: p) (simp_all add: io_disconnect_record)
  then show ?thesis
    by (auto simp: disconnect_subscriptions_def Let_def frame_simps io_fold split: prod.splits)
      (metis snd_conv io_fold io_ops(4))+
qed

lemma io_apply_route: "io (snd (apply_route route msg g c)) = io c"
  by (cases route) (auto simp: frame_simps split: option.splits)

lemma io_route_message [frame_simps]: "io (snd (route_message msg g c)) = io c"
  by (auto simp: route_message_def discard_pending_def io_apply_route frame_simps split: prod.split option.split)

lemma io_publish [frame_simps]: "io (publish_subscription r res g c) = io c"
  by (auto simp: publish_subscription_def Let_def frame_simps split: sum.split option.split prod.split)

lemma io_calls [frame_simps]:
  "io (restore_end e r c) = io c"
  "io (snd (call_register c)) = io c"
  "io (call_finish k c) = io c"
  by (simp_all add: restore_end_def call_register_def call_finish_def allocate_correlation_def Let_def
      frame_simps split: option.split)

lemma io_restore_begin [frame_simps]: "io (restore_begin g r c) = io c"
  by (auto simp: restore_begin_def allocate_correlation_def Let_def frame_simps split: option.splits)

lemma io_register [frame_simps]: "io (snd (register_subscription r d ch p n ov c)) = io c"
  by (auto simp: register_subscription_def allocate_correlation_def Let_def frame_simps
      split: prod.splits option.splits sum.splits if_splits)


section \<open>The write queue\<close>

definition queued :: "client \<Rightarrow> nat list" where
  "queued c = (case ws_queue c of None \<Rightarrow> [] | Some q \<Rightarrow> q)"

lemma queued_update [simp]:
  "queued (c\<lparr>ws_items := x\<rparr>) = queued c" "queued (c\<lparr>ws_active := a\<rparr>) = queued c"
  "queued (c\<lparr>ws_queue := None\<rparr>) = []" "queued (c\<lparr>ws_queue := Some q\<rparr>) = q"
  by (simp_all add: queued_def)

text \<open>
  Queued items have not been handed to the socket, the active one has, and an item whose delivery
  failed as unsent never was and is not queued.
\<close>

definition items_ok :: "client \<Rightarrow> bool" where
  "items_ok c \<longleftrightarrow> distinct (queued c) \<and>
     (\<forall>i \<in> set (queued c). \<exists>w. ws_items c i = Some w \<and> \<not> wi_started w) \<and>
     (\<forall>i. ws_active c = Some i \<longrightarrow> (\<exists>w. ws_items c i = Some w \<and> wi_started w)) \<and>
     (\<forall>i w e. ws_items c i = Some w \<and> wi_completion w = Broken (Delivery e False) \<longrightarrow>
        \<not> wi_started w \<and> i \<notin> set (queued c))"

lemma items_okI:
  assumes "distinct (queued c)" and "\<And>i. i \<in> set (queued c) \<Longrightarrow> \<exists>w. ws_items c i = Some w \<and> \<not> wi_started w"
    and "\<And>i. ws_active c = Some i \<Longrightarrow> \<exists>w. ws_items c i = Some w \<and> wi_started w"
    and "\<And>i w e. ws_items c i = Some w \<Longrightarrow> wi_completion w = Broken (Delivery e False) \<Longrightarrow>
      \<not> wi_started w \<and> i \<notin> set (queued c)"
  shows "items_ok c"
  unfolding items_ok_def using assms by blast

lemma items_okD:
  assumes "items_ok c"
  shows "distinct (queued c)" and "i \<in> set (queued c) \<Longrightarrow> \<exists>w. ws_items c i = Some w \<and> \<not> wi_started w"
    and "ws_active c = Some i \<Longrightarrow> \<exists>w. ws_items c i = Some w \<and> wi_started w"
    and "ws_items c i = Some w \<Longrightarrow> wi_completion w = Broken (Delivery e False) \<Longrightarrow>
      \<not> wi_started w \<and> i \<notin> set (queued c)"
  using assms unfolding items_ok_def by blast+

lemma items_ok_io: "io c' = io c \<Longrightarrow> items_ok c' \<longleftrightarrow> items_ok c"
  by (simp add: items_ok_def io_iff queued_def)

definition broken :: "ws_error \<Rightarrow> write_item \<Rightarrow> write_item" where
  "broken cause w = w\<lparr>wi_completion := settle (Broken (Delivery cause (wi_started w))) (wi_completion w)\<rparr>"

lemma settle_idem [simp]: "settle v (settle v f) = settle v f"
  by (cases f; cases v) simp_all

lemma broken_idem [simp]: "broken cause (broken cause w) = broken cause w"
  by (simp add: broken_def)

lemma broken_started [simp]: "wi_started (broken cause w) = wi_started w"
  by (simp add: broken_def)

lemma broken_done: "wi_completion (broken cause w) \<noteq> Open"
  by (cases "wi_completion w") (simp_all add: broken_def)

lemma break_item_io [simp]:
  "ws_items (break_item cause i c) = (ws_items c)(i := map_option (broken cause) (ws_items c i))"
  "ws_queue (break_item cause i c) = ws_queue c" "ws_active (break_item cause i c) = ws_active c"
  by (simp_all add: break_item_def on_item_def broken_def [abs_def])

lemma break_items_io:
  "ws_items (fold (break_item cause) q c) =
     (\<lambda>j. if j \<in> set q then map_option (broken cause) (ws_items c j) else ws_items c j) \<and>
   ws_queue (fold (break_item cause) q c) = ws_queue c \<and> ws_active (fold (break_item cause) q c) = ws_active c"
  by (induction q arbitrary: c) (auto simp: fun_eq_iff option.map_comp comp_def)

lemma fail_outstanding_io:
  "ws_items (fail_outstanding cause c) =
     (\<lambda>j. if ws_active c = Some j \<or> j \<in> set (queued c) then map_option (broken cause) (ws_items c j)
         else ws_items c j)"
  "ws_queue (fail_outstanding cause c) = map_option (\<lambda>_. []) (ws_queue c)"
  "ws_active (fail_outstanding cause c) = ws_active c"
proof -
  have io_ex: "io (fold (break_exchange cause) ks c) = io c" for ks c
    by (rule io_fold) (simp add: break_exchange_def frame_simps)
  have i: "ws_items (fold (break_exchange cause) ks c) = ws_items c" and
    q: "ws_queue (fold (break_exchange cause) ks c) = ws_queue c" and
    a: "ws_active (fold (break_exchange cause) ks c) = ws_active c" for ks c
    using io_ex [of ks c] by (simp_all add: io_iff)
  note b = break_items_io [THEN conjunct1] break_items_io [THEN conjunct2, THEN conjunct1]
    break_items_io [THEN conjunct2, THEN conjunct2]
  show "ws_items (fail_outstanding cause c) =
     (\<lambda>j. if ws_active c = Some j \<or> j \<in> set (queued c) then map_option (broken cause) (ws_items c j)
         else ws_items c j)"
    by (cases "ws_active c"; cases "ws_queue c")
      (auto simp: fail_outstanding_def Let_def i q a b queued_def fun_eq_iff option.map_comp comp_def)
  show "ws_queue (fail_outstanding cause c) = map_option (\<lambda>_. []) (ws_queue c)"
    by (cases "ws_active c"; cases "ws_queue c") (simp_all add: fail_outstanding_def Let_def i q a b)
  show "ws_active (fail_outstanding cause c) = ws_active c"
    by (cases "ws_active c"; cases "ws_queue c") (simp_all add: fail_outstanding_def Let_def i q a b)
qed

lemma broken_unsent:
  "wi_completion (broken cause w) = Broken (Delivery e False) \<Longrightarrow>
   \<not> wi_started w \<or> wi_completion w = Broken (Delivery e False)"
  by (cases "wi_completion w") (auto simp: broken_def)

lemma items_ok_fail_outstanding:
  assumes "items_ok c"
  shows "items_ok (fail_outstanding cause c)"
proof -
  have q: "queued (fail_outstanding cause c) = []"
    by (simp add: queued_def fail_outstanding_io split: option.split)
  have "\<not> wi_started w'" if "ws_items (fail_outstanding cause c) i = Some w'"
    "wi_completion w' = Broken (Delivery e False)" for i w' e
  proof (cases "ws_active c = Some i \<or> i \<in> set (queued c)")
    case True
    then have "map_option (broken cause) (ws_items c i) = Some w'"
      using that(1) by (simp only: fail_outstanding_io if_True)
    then obtain w where w: "ws_items c i = Some w" "w' = broken cause w" by auto
    then have "\<not> wi_started w \<or> wi_completion w = Broken (Delivery e False)"
      using that(2) broken_unsent by blast
    then show ?thesis using assms w by (auto simp: items_ok_def)
  next
    case False
    then show ?thesis using that assms by (auto simp: fail_outstanding_io items_ok_def)
  qed
  moreover have "\<exists>w. ws_items (fail_outstanding cause c) i = Some w \<and> wi_started w" if "ws_active c = Some i" for i
    using assms that by (auto simp: fail_outstanding_io items_ok_def)
  ultimately show ?thesis by (auto simp: items_ok_def q fail_outstanding_io(3))
qed

lemma io_teardown: "io (teardown c) = (ws_items c, None, None)"
  by (simp add: io_def teardown_def)

lemma items_ok_drop:
  assumes "items_ok c" and "io c' = (ws_items c, q, a)" and "q = None \<or> q = Some []"
    and "a = None \<or> a = ws_active c"
  shows "items_ok c'"
proof -
  have "queued c' = []" using assms(2,3) by (auto simp: io_def queued_def)
  then show ?thesis
    using items_okD [OF assms(1)] assms(2,4) by (intro items_okI) (auto simp: io_def)
qed

lemma items_ok_inactive:
  assumes "items_ok c"
  shows "items_ok (c\<lparr>ws_active := None\<rparr>)"
  by (rule items_okI) (use items_okD [OF assms] in \<open>simp_all add: queued_def\<close>)

lemma items_ok_fail_records [simp]: "items_ok (fold (fail_record e) rs c) \<longleftrightarrow> items_ok c"
  by (rule items_ok_io) (rule io_fold, simp add: frame_simps)

lemma items_ok_fail_connection:
  assumes "items_ok c"
  shows "items_ok (fail_connection e m g fatal rec c)"
proof -
  obtain should c2 where d: "disconnect_subscriptions m fatal rec
      (fail_outstanding e (c\<lparr>ws_state := failure_session_state (failure_state fatal rec)\<rparr>)) = (should, c2)"
    by fastforce
  have "items_ok (c\<lparr>ws_state := failure_session_state (failure_state fatal rec)\<rparr>)"
    using assms items_ok_io [of "c\<lparr>ws_state := failure_session_state (failure_state fatal rec)\<rparr>" c]
    by (simp add: frame_simps)
  from items_ok_fail_outstanding [OF this] have "items_ok c2"
    using d io_disconnect items_ok_io by (metis snd_conv)
  then have "items_ok (c2\<lparr>ws_tasks := False\<rparr>)" "items_ok (c2\<lparr>ws_tasks := False, ws_reconnecting := True\<rparr>)"
    by (auto simp: items_ok_io [of "c2\<lparr>ws_tasks := False\<rparr>" c2] frame_simps
        items_ok_io [of "c2\<lparr>ws_tasks := False, ws_reconnecting := True\<rparr>" c2])
  then show ?thesis using assms d by (auto simp: fail_connection_def Let_def)
qed

lemma items_ok_enqueue:
  assumes "items_ok c" and "ws_items c i = None" and "enqueue hs frame pending i c = (Inr u, c')"
  shows "items_ok c'"
proof -
  obtain q where q: "ws_queue c = Some q" and c': "c' = c\<lparr>ws_queue := Some (q @ [i]),
      ws_items := (ws_items c)(i \<mapsto> \<lparr>wi_frame = frame, wi_completion = Open, wi_pending = pending,
        wi_started = False\<rparr>)\<rparr>"
    using assms(3) by (auto simp: enqueue_def split: if_splits option.splits)
  have "i \<notin> set q" using assms(1,2) q by (force simp: items_ok_def queued_def)
  moreover have "queued c' = queued c @ [i]" using q by (simp add: c' queued_def)
  moreover have "queued c = q" using q by (simp add: queued_def)
  ultimately show ?thesis
    using assms(2) items_okD [OF assms(1)] by (intro items_okI) (auto simp: c' split: if_splits)
qed

lemma items_ok_take:
  assumes "items_ok c"
  shows "items_ok (writer_take c)"
proof (cases "ws_queue c")
  case (Some q)
  then show ?thesis
  proof (cases q)
    case (Cons i q')
    have "io (writer_take c) = ((ws_items c)(i := map_option (\<lambda>w. w\<lparr>wi_started := True\<rparr>) (ws_items c i)),
        Some q', Some i)"
      using Some Cons by (auto simp: writer_take_def Let_def on_item_def on_exchange_def io_def split: option.split)
    moreover have "queued c = i # q'" "queued (writer_take c) = q'"
      using Some Cons calculation by (simp_all add: queued_def io_def)
    ultimately show ?thesis
      using items_okD [OF assms] by (intro items_okI) (fastforce simp: io_def split: if_splits)+
  qed (use Some assms in \<open>simp add: writer_take_def\<close>)
qed (use assms in \<open>simp add: writer_take_def\<close>)

lemma items_ok_on_item:
  assumes "items_ok c"
    and "\<And>w. wi_started (f w) = wi_started w"
    and "\<And>w e. ws_items c i = Some w \<Longrightarrow> wi_completion (f w) = Broken (Delivery e False) \<Longrightarrow>
      wi_completion w = Broken (Delivery e False)"
  shows "items_ok (on_item f i c)"
proof (rule items_okI)
  note ok = items_okD [OF assms(1)]
  show "distinct (queued (on_item f i c))" using ok(1) by (simp add: on_item_def)
  show "\<exists>w. ws_items (on_item f i c) j = Some w \<and> \<not> wi_started w" if "j \<in> set (queued (on_item f i c))" for j
    using ok(2) [of j] that assms(2) by (auto simp: on_item_def)
  show "\<exists>w. ws_items (on_item f i c) j = Some w \<and> wi_started w" if "ws_active (on_item f i c) = Some j" for j
    using ok(3) [of j] that assms(2) by (auto simp: on_item_def)
  show "\<not> wi_started w \<and> j \<notin> set (queued (on_item f i c))"
    if "ws_items (on_item f i c) j = Some w" "wi_completion w = Broken (Delivery e False)" for j w e
  proof (cases "j = i")
    case True
    then have "map_option f (ws_items c i) = Some w" using that(1) by (simp add: on_item_def)
    then obtain z where z: "ws_items c i = Some z" "w = f z" by auto
    then have "wi_completion z = Broken (Delivery e False)" using assms(3) that(2) by simp
    with ok(4) [OF z(1) this] show ?thesis using z(2) assms(2) True by (simp add: on_item_def)
  next
    case False
    then show ?thesis using ok(4) [of j w e] that by (simp add: on_item_def)
  qed
qed


lemma items_ok_writer_sent:
  assumes "items_ok c"
  shows "items_ok (writer_sent i c)"
proof -
  have "items_ok (on_item (\<lambda>w. w\<lparr>wi_completion := settle (Resolved ()) (wi_completion w)\<rparr>) i c)"
  proof (rule items_ok_on_item [OF assms])
    show "wi_completion w = Broken (Delivery e False)"
      if "wi_completion (w\<lparr>wi_completion := settle (Resolved ()) (wi_completion w)\<rparr>) = Broken (Delivery e False)"
      for w e using that by (cases "wi_completion w") simp_all
  qed simp
  then show ?thesis unfolding writer_sent_def by (rule items_ok_inactive)
qed

lemma items_ok_withdraw:
  assumes "items_ok c"
  shows "items_ok (on_item (\<lambda>w. w\<lparr>wi_completion := settle Withdrawn (wi_completion w)\<rparr>) i c)"
proof (rule items_ok_on_item [OF assms])
  show "wi_completion w = Broken (Delivery e False)"
    if "wi_completion (w\<lparr>wi_completion := settle Withdrawn (wi_completion w)\<rparr>) = Broken (Delivery e False)"
    for w e using that by (cases "wi_completion w") simp_all
qed simp

lemma items_ok_break_active:
  assumes "items_ok c" and "ws_active c = Some i"
  shows "items_ok (break_item cause i c)"
  unfolding break_item_def
proof (rule items_ok_on_item [OF assms(1)])
  obtain v where v: "ws_items c i = Some v" "wi_started v"
    using items_okD(3) [OF assms] by blast
  show "wi_completion w = Broken (Delivery e False)"
    if "ws_items c i = Some w" "wi_completion (w\<lparr>wi_completion :=
      settle (Broken (Delivery cause (wi_started w))) (wi_completion w)\<rparr>) = Broken (Delivery e False)" for w e
    using that v by (cases "wi_completion w") simp_all
qed simp

lemma io_phases:
  "io (snd (connect_begin c)) = io c \<or> io (snd (connect_begin c)) = (ws_items c, None, None)"
  "io (connect_refused c) = io c"
  "io (connect_opened c) = (ws_items c, Some [], ws_active c)"
  "io (snd (connect_finished c)) = io c"
  "io (close_begin c) = io c"
  "io (close_finish c) = (ws_items c, None, None)"
  "io (reconnect_exhausted e c) = io c"
  by (auto simp: connect_begin_def teardown_def connect_refused_def connect_opened_def connect_finished_def
      close_begin_def close_finish_def reconnect_exhausted_def Let_def frame_simps io_fold
      split: connect_choice.splits)
    (simp_all add: io_def)

lemma items_ok_step: "ws_step c c' \<Longrightarrow> items_ok c \<Longrightarrow> items_ok c'"
proof (induction rule: ws_step.induct)
  case (step_connect c c')
  then show ?case
    using io_phases(1) [of c] items_ok_io [of c' c] items_ok_drop [of c c' None None] by auto
next
  case (step_opened c)
  then show ?case
    using items_ok_drop [of c "connect_opened c" "Some []" "ws_active c"] by (simp add: io_phases)
next
  case (step_handshake_failed c e)
  have "items_ok (fail_outstanding e c)" by (rule items_ok_fail_outstanding) fact
  then show ?case
    by (rule items_ok_drop [where q = None and a = None])
      (simp_all add: handshake_failed_def frame_simps io_teardown)
next
  case (step_send_failed c i e m g fatal reconnect)
  then show ?case
    by (intro items_ok_inactive items_ok_fail_connection items_ok_break_active)
next
  case (step_close_settle c)
  have "items_ok (fail_outstanding (WsClientClosedError ''WebSocket client closed'') c)"
    by (rule items_ok_fail_outstanding) fact
  then show ?case
    by (simp add: close_settle_def Let_def items_ok_io [OF io_update(2)])
next
  case (step_close_finish c)
  then show ?case
    using items_ok_drop [of c "close_finish c" None None] by (simp add: io_phases)
qed (auto simp: items_ok_io [OF io_phases(2)] items_ok_io [OF io_phases(4)] items_ok_io [OF io_phases(5)]
    items_ok_io [OF io_phases(7)] items_ok_io [OF io_update(11)]
    items_ok_io [OF io_calls(1)] items_ok_io [OF io_calls(2)] items_ok_io [OF io_calls(3)]
    items_ok_io [OF io_route_message] items_ok_io [OF io_publish] items_ok_io [OF io_register]
    items_ok_io [OF io_restore_begin] items_ok_io [OF io_ops(1)] items_ok_io [OF io_ops(3)]
    intro: items_ok_enqueue items_ok_take items_ok_writer_sent items_ok_inactive items_ok_fail_connection
      items_ok_withdraw)

lemma items_ok_steps: "ws_steps c c' \<Longrightarrow> items_ok c \<Longrightarrow> items_ok c'"
  by (induction rule: ws_steps.induct) (auto intro: items_ok_step)

lemma items_ok_new: "items_ok (new_client capacity delays)"
  by (simp add: new_client_def items_ok_def queued_def)

section \<open>What is done stays done\<close>

definition item_kept :: "client \<Rightarrow> client \<Rightarrow> bool" where
  "item_kept c c' \<longleftrightarrow> (\<forall>i w. ws_items c i = Some w \<longrightarrow> (\<exists>w'. ws_items c' i = Some w' \<and>
     (wi_completion w \<noteq> Open \<longrightarrow> wi_completion w' = wi_completion w)))"

lemma item_keptD:
  "item_kept c c' \<Longrightarrow> ws_items c i = Some w \<Longrightarrow>
   \<exists>w'. ws_items c' i = Some w' \<and> (wi_completion w \<noteq> Open \<longrightarrow> wi_completion w' = wi_completion w)"
  unfolding item_kept_def by blast

lemma item_kept_io: "io c' = io c \<Longrightarrow> item_kept c c'"
  by (auto simp: item_kept_def io_iff)

lemma item_kept_items: "ws_items c' = ws_items c \<Longrightarrow> item_kept c c'"
  by (auto simp: item_kept_def)

lemma item_kept_trans: "item_kept a b \<Longrightarrow> item_kept b c \<Longrightarrow> item_kept a c"
  unfolding item_kept_def by metis

lemma settle_done: "f \<noteq> Open \<Longrightarrow> settle v f = f"
  by (cases f) simp_all

lemma item_kept_on_item:
  "(\<And>w. wi_completion w \<noteq> Open \<Longrightarrow> wi_completion (f w) = wi_completion w) \<Longrightarrow> item_kept c (on_item f i c)"
  by (auto simp: item_kept_def on_item_def)

lemma item_kept_fail_outstanding: "item_kept c (fail_outstanding e c)"
  by (auto simp: item_kept_def fail_outstanding_io broken_def settle_done)

lemma item_kept_fail_connection: "item_kept c (fail_connection e m g fatal rec c)"
proof -
  let ?c = "c\<lparr>ws_state := failure_session_state (failure_state fatal rec)\<rparr>"
  obtain should c2 where d: "disconnect_subscriptions m fatal rec (fail_outstanding e ?c) = (should, c2)"
    by fastforce
  have "item_kept ?c (fail_outstanding e ?c)" by (rule item_kept_fail_outstanding)
  then have "item_kept c (fail_outstanding e ?c)" by (simp add: item_kept_def)
  moreover have "ws_items c2 = ws_items (fail_outstanding e ?c)"
    using io_disconnect [of m fatal rec "fail_outstanding e ?c"] d by (simp add: io_iff)
  ultimately have "item_kept c c2" by (simp add: item_kept_def)
  moreover have "ws_items (fail_connection e m g fatal rec c) \<in> {ws_items c, ws_items c2}"
    using d by (simp add: fail_connection_def Let_def)
  ultimately show ?thesis using item_kept_items [of c c] by (auto simp: item_kept_def)
qed

lemma item_kept_take: "item_kept c (writer_take c)"
  by (auto simp: item_kept_def writer_take_def on_item_def on_exchange_def Let_def
      split: option.splits list.splits)

lemma item_kept_step: "ws_step c c' \<Longrightarrow> item_kept c c'"
proof (induction rule: ws_step.induct)
  case (step_connect c c')
  then have "ws_items c' = ws_items c" using io_phases(1) [of c] by (auto simp: io_def)
  then show ?case by (rule item_kept_items)
next
  case (step_enqueue c i hs frame pending u c')
  then show ?case by (auto simp: enqueue_def item_kept_def split: if_splits option.splits)
next
  case (step_handshake_failed c e)
  have "ws_items (handshake_failed e c) = ws_items (fail_outstanding e c)"
    by (simp add: handshake_failed_def teardown_def)
  then show ?case using item_kept_fail_outstanding [of c e] by (simp add: item_kept_def)
next
  case (step_send_failed c i e m g fatal reconnect)
  have "item_kept c (break_item e i c)"
    unfolding break_item_def by (rule item_kept_on_item) (simp add: settle_done)
  then have "item_kept c (fail_connection e m g fatal reconnect (break_item e i c))"
    using item_kept_fail_connection by (rule item_kept_trans)
  then show ?case by (simp add: item_kept_def)
next
  case (step_sent c i)
  have "item_kept c (on_item (\<lambda>w. w\<lparr>wi_completion := settle (Resolved ()) (wi_completion w)\<rparr>) i c)"
    by (rule item_kept_on_item) (simp add: settle_done)
  then show ?case by (simp add: item_kept_def writer_sent_def)
next
  case (step_close_settle c)
  let ?c = "fail_outstanding (WsClientClosedError ''WebSocket client closed'') c"
  have "io (close_settle c) = io ?c" by (simp add: close_settle_def Let_def frame_simps io_fold)
  then have "ws_items (close_settle c) = ws_items ?c" by (simp add: io_iff)
  then show ?case using item_kept_fail_outstanding [of c] by (simp add: item_kept_def)
next
  case (step_close_finish c)
  then show ?case using io_phases(6) [of c] by (intro item_kept_items) (simp add: io_def)
next
  case (step_opened c)
  then show ?case using io_phases(3) [of c] by (intro item_kept_items) (simp add: io_def)
qed (auto simp: io_phases frame_simps settle_done
    intro: item_kept_io item_kept_items item_kept_take item_kept_on_item item_kept_fail_connection)

lemma item_kept_steps: "ws_steps c c' \<Longrightarrow> item_kept c c'"
proof (induction rule: ws_steps.induct)
  case (steps_refl c)
  then show ?case by (rule item_kept_items) simp
next
  case (steps_step c c1 c2)
  then show ?case using item_kept_trans item_kept_step by blast
qed

text \<open>
  C11. A message reported as not sent never was and never will be: once the delivery of a queued
  frame failed with \<open>may_have_been_sent\<close> false, no later step of any task hands that frame to the
  socket, and the report stands.
\<close>

theorem unsent_never_sent:
  assumes "ws_steps (new_client capacity delays) c" and "ws_items c i = Some w"
    and "wi_completion w = Broken (Delivery e False)" and "ws_steps c c'"
  shows "\<exists>w'. ws_items c' i = Some w' \<and> wi_completion w' = Broken (Delivery e False) \<and>
    \<not> wi_started w' \<and> i \<notin> set (queued c') \<and> ws_active c' \<noteq> Some i"
proof -
  obtain w' where w': "ws_items c' i = Some w'" "wi_completion w' = Broken (Delivery e False)"
    using item_keptD [OF item_kept_steps [OF assms(4)] assms(2)] assms(3) by fastforce
  have ok: "items_ok c'"
    using assms(1,4) items_ok_new items_ok_steps by blast
  then have "\<not> wi_started w' \<and> i \<notin> set (queued c')" using items_okD(4) w' by blast
  moreover have "ws_active c' \<noteq> Some i" using items_okD(3) [OF ok] w'(1) calculation by force
  ultimately show ?thesis using w' by blast
qed

end
