(* ===== verification/WsRoutes.thy ===== *)
theory WsRoutes
  imports WsRuns
begin

text \<open>
  The routes of a WebSocket client: correlations are never used twice, every registered route leads
  to a record that carries it, and a message reaches only the call or the subscription it names.
\<close>

section \<open>Correlations are numbers written out\<close>

definition digits_sum :: "string \<Rightarrow> nat" where
  "digits_sum s = foldl (\<lambda>a ch. a * 10 + (of_char ch - 48)) 0 s"

lemma digits_sum_str_nat: "digits_sum (str_nat n) = n"
proof (induction n rule: less_induct)
  case (less n)
  have "digits_sum [char_of (48 + d)] = d" if "d < 10" for d :: nat
    using that by (simp add: digits_sum_def)
  moreover have "digits_sum (s @ [char_of (48 + d)]) = digits_sum s * 10 + d" if "d < 10" for s and d :: nat
    using that by (simp add: digits_sum_def)
  ultimately show ?case
    using less [of "n div 10"] by (subst str_nat.simps) auto
qed

lemma str_nat_inject [simp]: "str_nat m = str_nat n \<longleftrightarrow> m = n"
  by (metis digits_sum_str_nat)

section \<open>What an operation leaves alone\<close>

definition record_route :: "client \<Rightarrow> nat \<Rightarrow> (string option \<times> string option) option" where
  "record_route c r = map_option (\<lambda>x. (sr_channel x, sr_correlation x)) (ws_records c r)"

text \<open>The routes of a client and what correlations are drawn from.\<close>

definition rg ::
  "client \<Rightarrow> (string, nat) dict \<times> (string, nat) dict \<times> (nat \<Rightarrow> (string option \<times> string option) option) \<times>
     nat \<times> (pending_key set)" where
  "rg c = (ws_by_channel c, ws_by_correlation c, record_route c, ws_next_correlation c, dom (ws_exchanges c))"

lemma rg_update [frame_simps]:
  "rg (c\<lparr>ws_state := a\<rparr>) = rg c" "rg (c\<lparr>ws_phase := b\<rparr>) = rg c" "rg (c\<lparr>ws_generation := n\<rparr>) = rg c"
  "rg (c\<lparr>ws_tasks := t\<rparr>) = rg c" "rg (c\<lparr>ws_pending := p\<rparr>) = rg c" "rg (c\<lparr>ws_items := i\<rparr>) = rg c"
  "rg (c\<lparr>ws_queue := q\<rparr>) = rg c" "rg (c\<lparr>ws_active := x\<rparr>) = rg c" "rg (c\<lparr>ws_reconnecting := t\<rparr>) = rg c"
  "rg (c\<lparr>ws_heartbeat_ack := t\<rparr>) = rg c" "rg (c\<lparr>ws_protocol_ready := t\<rparr>) = rg c" "rg (c\<lparr>ws_user := u\<rparr>) = rg c"
  by (simp_all add: rg_def record_route_def [abs_def])

lemma rg_on_item [frame_simps]: "rg (on_item f i c) = rg c"
  by (simp add: on_item_def frame_simps)

lemma rg_on_exchange [frame_simps]: "rg (on_exchange f k c) = rg c"
  by (auto simp: on_exchange_def rg_def record_route_def [abs_def] dom_def)

lemma rg_on_subscription [frame_simps]: "rg (on_subscription f r c) = rg c"
proof -
  have "record_route (on_subscription f r c) = record_route c"
    by (auto simp: record_route_def on_subscription_def fun_eq_iff option.map_comp comp_def)
  then show ?thesis by (simp add: rg_def on_subscription_def)
qed

lemma rg_fold:
  assumes "\<And>x c. rg (f x c) = rg c"
  shows "rg (fold f xs c) = rg c"
  by (induction xs arbitrary: c) (simp_all add: assms)

lemma rg_fail_outstanding [frame_simps]: "rg (fail_outstanding e c) = rg c"
proof -
  have b: "rg (break_item e i c) = rg c" "rg (break_exchange e k c) = rg c" for i k c
    by (simp_all add: break_item_def break_exchange_def frame_simps)
  show ?thesis
    by (auto simp: fail_outstanding_def Let_def frame_simps b rg_fold split: option.split)
qed

lemma rg_teardown [frame_simps]: "rg (teardown c) = rg c"
  by (simp add: teardown_def frame_simps)

lemma rg_phases [frame_simps]:
  "rg (snd (connect_begin c)) = rg c" "rg (connect_refused c) = rg c" "rg (connect_opened c) = rg c"
  "rg (handshake_failed e c) = rg c" "rg (snd (connect_finished c)) = rg c" "rg (close_begin c) = rg c"
  "rg (close_finish c) = rg c"
  by (auto simp: connect_begin_def connect_refused_def connect_opened_def handshake_failed_def
      connect_finished_def close_begin_def close_finish_def frame_simps split: connect_choice.split)

lemma rg_writer [frame_simps]: "rg (writer_take c) = rg c" "rg (writer_sent i c) = rg c"
  by (auto simp: writer_take_def writer_sent_def Let_def frame_simps split: option.split list.split)

lemma rg_enqueue: "enqueue hs frame pending i c = (x, c') \<Longrightarrow> rg c' = rg c"
  by (auto simp: enqueue_def frame_simps split: if_splits option.splits)

lemma rg_call_finish [frame_simps]: "rg (call_finish k c) = rg c"
  by (simp add: call_finish_def frame_simps)

section \<open>The invariant\<close>

definition numbered :: "nat \<Rightarrow> string \<Rightarrow> bool" where
  "numbered n k \<longleftrightarrow> (\<exists>i \<le> n. k = str_nat i)"

lemma numbered_mono: "numbered n k \<Longrightarrow> n \<le> m \<Longrightarrow> numbered m k"
  unfolding numbered_def using le_trans by blast

lemma numbered_str_nat [simp]: "numbered n (str_nat m) \<longleftrightarrow> m \<le> n"
  by (simp add: numbered_def)

definition routes_ok :: "client \<Rightarrow> bool" where
  "routes_ok c \<longleftrightarrow> dict_ok (ws_by_channel c) \<and> dict_ok (ws_by_correlation c) \<and>
     (\<forall>(ch, r) \<in> set (ws_by_channel c). \<exists>k. record_route c r = Some (Some ch, k)) \<and>
     (\<forall>(k, r) \<in> set (ws_by_correlation c). \<exists>ch. record_route c r = Some (ch, Some k)) \<and>
     (\<forall>(k, r) \<in> set (ws_by_correlation c). numbered (ws_next_correlation c) k) \<and>
     (\<forall>g k. ws_exchanges c (g, k) \<noteq> None \<longrightarrow> numbered (ws_next_correlation c) k)"

lemma routes_ok_rg:
  assumes "rg c' = rg c"
  shows "routes_ok c' \<longleftrightarrow> routes_ok c"
proof -
  have "ws_exchanges c' (g, k) \<noteq> None \<longleftrightarrow> ws_exchanges c (g, k) \<noteq> None" for g k
    using assms by (auto simp: rg_def dom_def set_eq_iff)
  then show ?thesis using assms by (simp add: routes_ok_def rg_def)
qed

lemma routes_ok_remove:
  assumes "routes_ok c"
  shows "routes_ok (remove_subscription r c)"
proof -
  have *: "routes_ok (c\<lparr>ws_by_channel := AList.delete ch (ws_by_channel c)\<rparr>)" if "routes_ok c" for ch c
    using that by (auto simp: routes_ok_def record_route_def set_dict_delete)
  have **: "routes_ok (c\<lparr>ws_by_correlation := AList.delete k (ws_by_correlation c)\<rparr>)" if "routes_ok c" for k c
    using that by (auto simp: routes_ok_def record_route_def set_dict_delete)
  show ?thesis
    using assms * ** by (auto simp: remove_subscription_def Let_def split: option.split)
qed

lemma routes_ok_fail_record: "routes_ok c \<Longrightarrow> routes_ok (fail_record e r c)"
  by (simp add: fail_record_def routes_ok_remove routes_ok_rg [OF rg_on_subscription])

lemma routes_ok_fold:
  "(\<And>x c. routes_ok c \<Longrightarrow> routes_ok (f x c)) \<Longrightarrow> routes_ok c \<Longrightarrow> routes_ok (fold f xs c)"
  by (induction xs arbitrary: c) auto

lemma routes_ok_disconnect:
  assumes "routes_ok c"
  shows "routes_ok (snd (disconnect_subscriptions m fatal rec c))"
proof -
  have "routes_ok (snd (fold (disconnect_record m fatal rec) rs (b, c)))" if "routes_ok c" for rs b c
    using that
  proof (induction rs arbitrary: b c)
    case (Cons r rs)
    obtain b' c' where d: "disconnect_record m fatal rec r (b, c) = (b', c')" by fastforce
    have "routes_ok c'"
      using d Cons.prems routes_ok_fail_record
      by (auto simp: disconnect_record_def routes_ok_rg [OF rg_on_subscription] split: disconnect_choice.splits)
    then show ?case using Cons.IH d by simp
  qed simp
  then have "routes_ok c1" if "fold (disconnect_record m fatal rec) (subscription_records c) (False, c) = (b, c1)"
    for b c1 using that assms by (metis snd_conv)
  then show ?thesis
    by (auto simp: disconnect_subscriptions_def Let_def routes_ok_fail_record intro!: routes_ok_fold
        split: prod.split)
qed

lemma routes_ok_fail_connection:
  assumes "routes_ok c"
  shows "routes_ok (fail_connection e m g fatal rec c)"
proof -
  let ?c = "fail_outstanding e (c\<lparr>ws_state := failure_session_state (failure_state fatal rec)\<rparr>)"
  have "routes_ok ?c"
    using assms routes_ok_rg [of ?c c] by (simp add: frame_simps)
  then have "routes_ok (snd (disconnect_subscriptions m fatal rec ?c))" by (rule routes_ok_disconnect)
  then have "routes_ok (x\<lparr>ws_tasks := False\<rparr>)" "routes_ok (x\<lparr>ws_tasks := False, ws_reconnecting := True\<rparr>)"
    if "disconnect_subscriptions m fatal rec ?c = (b, x)" for b x
    using that routes_ok_rg [of "x\<lparr>ws_tasks := False\<rparr>" x]
      routes_ok_rg [of "x\<lparr>ws_tasks := False, ws_reconnecting := True\<rparr>" x] by (simp_all add: frame_simps)
  then show ?thesis
    using assms by (auto simp: fail_connection_def Let_def split: prod.split)
qed

lemma allocate_fresh:
  assumes "routes_ok c" and "allocate_correlation c = (k, c')"
  shows "k \<notin> fst ` set (ws_by_correlation c)" and "ws_exchanges c (g, k) = None"
    and "k = str_nat (ws_next_correlation c')" and "ws_next_correlation c' = Suc (ws_next_correlation c)"
    and "c' = c\<lparr>ws_next_correlation := Suc (ws_next_correlation c)\<rparr>"
proof -
  show k: "k = str_nat (ws_next_correlation c')" "ws_next_correlation c' = Suc (ws_next_correlation c)"
    and "c' = c\<lparr>ws_next_correlation := Suc (ws_next_correlation c)\<rparr>"
    using assms(2) by (auto simp: allocate_correlation_def Let_def)
  have "\<not> numbered (ws_next_correlation c) k" using k by simp
  then show "k \<notin> fst ` set (ws_by_correlation c)" "ws_exchanges c (g, k) = None"
    using assms(1) unfolding routes_ok_def by (fastforce, blast)
qed

lemma routes_ok_allocated:
  assumes "routes_ok c" and "ws_next_correlation c \<le> m"
  shows "routes_ok (c\<lparr>ws_next_correlation := m\<rparr>)"
proof -
  have r: "record_route (c\<lparr>ws_next_correlation := m\<rparr>) = record_route c"
    by (simp add: record_route_def fun_eq_iff)
  have mono: "numbered (ws_next_correlation c) k \<Longrightarrow> numbered m k" for k
    using assms(2) numbered_mono by blast
  show ?thesis using assms(1) mono unfolding routes_ok_def r by auto
qed

lemma routes_ok_call:
  assumes "routes_ok c"
  shows "routes_ok (snd (call_register c))"
proof -
  obtain k c1 where a: "allocate_correlation c = (k, c1)" by fastforce
  note f = allocate_fresh [OF assms a]
  have c1: "routes_ok c1" using routes_ok_allocated [OF assms] f(5) by simp
  let ?e = "(ws_exchanges c1)((ws_generation c1, k) \<mapsto> \<lparr>ex_reply = Open, ex_send_started = False\<rparr>)"
  have "routes_ok (c1\<lparr>ws_exchanges := ?e, ws_pending := p\<rparr>)" for p
  proof -
    have "record_route (c1\<lparr>ws_exchanges := ?e, ws_pending := p\<rparr>) = record_route c1"
      by (simp add: record_route_def fun_eq_iff)
    then show ?thesis using c1 f(3) unfolding routes_ok_def by auto
  qed
  then show ?thesis using a by (simp add: call_register_def Let_def)
qed

lemma routes_ok_new_record:
  assumes "routes_ok c" and "ws_records c r = None"
  shows "routes_ok (c\<lparr>ws_records := (ws_records c)(r \<mapsto> x)\<rparr>)"
proof -
  have rr: "record_route (c\<lparr>ws_records := (ws_records c)(r \<mapsto> x)\<rparr>) =
      (record_route c)(r \<mapsto> (sr_channel x, sr_correlation x))"
    by (auto simp: record_route_def fun_eq_iff)
  have no: "record_route c r = None" using assms(2) by (simp add: record_route_def)
  have "(ch, r) \<notin> set (ws_by_channel c)" for ch using assms(1) no by (auto simp: routes_ok_def)
  moreover have "(k, r) \<notin> set (ws_by_correlation c)" for k using assms(1) no by (auto simp: routes_ok_def)
  ultimately show ?thesis using assms(1) unfolding routes_ok_def rr by auto
qed

lemma routes_ok_register:
  assumes "routes_ok c" and "ws_records c r = None"
  shows "routes_ok (snd (register_subscription r d channel p n ov c))"
proof -
  have new: "routes_ok (c\<lparr>ws_records := (ws_records c)(r \<mapsto> x)\<rparr>)" if "routes_ok c" "ws_records c r = None" for c x
    using that by (rule routes_ok_new_record)
  show ?thesis
  proof (cases channel)
    case (Some ch)
    let ?x = "\<lambda>s. \<lparr>sr_subscription = s, sr_discriminator = d, sr_correlation = None, sr_channel = Some ch\<rparr>"
    have "routes_ok (c\<lparr>ws_records := (ws_records c)(r \<mapsto> ?x s), ws_by_channel := AList.update ch r (ws_by_channel c)\<rparr>)"
      for s
      using new [OF assms, of "?x s"]
      by (auto simp: routes_ok_def set_dict_update record_route_def split: if_splits)
    then show ?thesis
      using Some assms by (auto simp: register_subscription_def Let_def split: sum.split)
  next
    case None
    obtain k c1 where a: "allocate_correlation c = (k, c1)" by fastforce
    note f = allocate_fresh [OF assms(1) a]
    have c1: "routes_ok c1" "ws_records c1 r = None"
      using routes_ok_allocated [OF assms(1)] f(5) assms(2) by simp_all
    let ?x = "\<lambda>s. \<lparr>sr_subscription = s, sr_discriminator = d, sr_correlation = Some k, sr_channel = None\<rparr>"
    have "routes_ok (c1\<lparr>ws_records := (ws_records c1)(r \<mapsto> ?x s),
        ws_by_correlation := AList.update k r (ws_by_correlation c1)\<rparr>)" for s
      using new [OF c1, of "?x s"] f(3)
      by (auto simp: routes_ok_def set_dict_update record_route_def split: if_splits)
    then show ?thesis
      using None c1 a by (auto simp: register_subscription_def Let_def split: sum.split)
  qed
qed

lemma routes_ok_restore_begin:
  assumes "routes_ok c"
  shows "routes_ok (restore_begin g r c)"
proof (cases "ws_records c r")
  case (Some x)
  show ?thesis
  proof (cases "sr_correlation x")
    case None
    then show ?thesis
      using assms Some by (simp add: restore_begin_def routes_ok_rg [OF rg_on_subscription])
  next
    case (Some old)
    let ?c = "c\<lparr>ws_by_correlation := AList.delete old (ws_by_correlation c)\<rparr>"
    obtain k c1 where a: "allocate_correlation ?c = (k, c1)" by fastforce
    have c: "routes_ok ?c"
      using assms by (auto simp: routes_ok_def record_route_def set_dict_delete)
    note f = allocate_fresh [OF c a]
    have c1: "routes_ok c1" using routes_ok_allocated [OF c] f(5) by simp
    have x: "record_route c r = Some (sr_channel x, Some old)"
      using \<open>ws_records c r = Some x\<close> Some by (simp add: record_route_def)
    have gone: "(q, r) \<notin> set (ws_by_correlation c1)" for q
      using assms x f(5) by (auto simp: routes_ok_def set_dict_delete)
    let ?c2 = "c1\<lparr>ws_records := (ws_records c1)(r \<mapsto> x\<lparr>sr_correlation := Some k\<rparr>),
        ws_by_correlation := AList.update k r (ws_by_correlation c1)\<rparr>"
    have rr: "record_route ?c2 = (record_route c1)(r \<mapsto> (sr_channel x, Some k))"
      by (auto simp: record_route_def fun_eq_iff)
    have rc1: "record_route c1 r = Some (sr_channel x, Some old)"
      using x f(5) by (simp add: record_route_def)
    have "routes_ok ?c2"
      unfolding routes_ok_def rr using c1 gone rc1 f(3)
      by (auto simp: routes_ok_def set_dict_update)
    then show ?thesis
      using \<open>ws_records c r = Some x\<close> Some a assms
      by (simp add: restore_begin_def Let_def routes_ok_rg [OF rg_on_subscription])
  qed
qed (simp add: restore_begin_def assms)

lemma routes_ok_route_message:
  assumes "routes_ok c"
  shows "routes_ok (snd (route_message msg g c))"
proof -
  have "routes_ok (snd (apply_route route msg g c))" if "routes_ok c" for route c
    using that by (cases route)
      (auto simp: frame_simps routes_ok_rg [OF rg_on_subscription] routes_ok_rg [OF rg_on_exchange]
        routes_ok_rg [OF rg_update(10)] routes_ok_rg [OF rg_update(11)] routes_ok_rg [OF rg_update(12)]
        intro: routes_ok_fail_record routes_ok_remove split: option.split)
  moreover have "routes_ok (discard_pending k c)" for k
    using assms by (simp add: discard_pending_def routes_ok_rg [OF rg_update(5)] split: option.split)
  ultimately show ?thesis using assms by (simp add: route_message_def split: prod.split)
qed

lemma routes_ok_publish: "routes_ok c \<Longrightarrow> routes_ok (publish_subscription r res g c)"
  by (auto simp: publish_subscription_def Let_def routes_ok_rg [OF rg_on_subscription]
      intro: routes_ok_fail_record routes_ok_remove split: sum.split option.split prod.split)


lemmas routes_ok_same [simp] = routes_ok_rg [OF rg_on_subscription] routes_ok_rg [OF rg_on_item]
  routes_ok_rg [OF rg_on_exchange] routes_ok_rg [OF rg_writer(1)] routes_ok_rg [OF rg_writer(2)]
  routes_ok_rg [OF rg_call_finish] routes_ok_rg [OF rg_phases(1)] routes_ok_rg [OF rg_phases(2)]
  routes_ok_rg [OF rg_phases(3)] routes_ok_rg [OF rg_phases(4)] routes_ok_rg [OF rg_phases(5)]
  routes_ok_rg [OF rg_phases(6)] routes_ok_rg [OF rg_phases(7)] routes_ok_rg [OF rg_update(1)]
  routes_ok_rg [OF rg_update(2)] routes_ok_rg [OF rg_update(8)] routes_ok_rg [OF rg_update(9)]
  routes_ok_rg [OF rg_fail_outstanding]

lemma routes_ok_fail_records:
  "routes_ok c \<Longrightarrow> routes_ok (fold (fail_record e) rs c)"
  by (rule routes_ok_fold) (simp_all add: routes_ok_fail_record)

lemma routes_ok_step: "ws_step c c' \<Longrightarrow> routes_ok c \<Longrightarrow> routes_ok c'"
proof (induction rule: ws_step.induct)
  case (step_connect c c')
  then show ?case using routes_ok_rg [OF rg_phases(1) [of c]] by simp
next
  case (step_enqueue c i hs frame pending u c')
  then show ?case using routes_ok_rg [OF rg_enqueue] by blast
next
  case (step_send_failed c i e m g fatal reconnect)
  then show ?case by (simp add: break_item_def routes_ok_fail_connection)
next
  case (step_close_settle c)
  then show ?case by (simp add: close_settle_def Let_def routes_ok_fail_records)
next
  case (step_exhausted c e)
  then show ?case by (simp add: reconnect_exhausted_def Let_def routes_ok_fail_records)
next
  case (step_restored c result r)
  then show ?case by (simp add: restore_end_def routes_ok_fail_record split: option.split)
qed (simp_all add: routes_ok_fail_connection routes_ok_call routes_ok_route_message routes_ok_publish
    routes_ok_register routes_ok_restore_begin routes_ok_remove)

lemma routes_ok_steps: "ws_steps c c' \<Longrightarrow> routes_ok c \<Longrightarrow> routes_ok c'"
  by (induction rule: ws_steps.induct) (auto intro: routes_ok_step)

lemma routes_ok_new: "routes_ok (new_client capacity delays)"
  by (simp add: new_client_def routes_ok_def)

section \<open>Messages reach what they name\<close>

lemma map_of_route:
  assumes "routes_ok c"
  shows "map_of (ws_by_channel c) ch = Some r \<Longrightarrow> \<exists>x. ws_records c r = Some x \<and> sr_channel x = Some ch"
    and "map_of (ws_by_correlation c) k = Some r \<Longrightarrow> \<exists>x. ws_records c r = Some x \<and> sr_correlation x = Some k"
  using assms by (auto simp: routes_ok_def record_route_def dest!: map_of_SomeD)

lemma apply_route_follow:
  "apply_route route msg g c = (FollowPublish r, c') \<Longrightarrow> route = SUBSCRIPTION_MESSAGE \<and> c' = c \<and>
     (if pm_kind msg = REPLY then correlation_subscription msg c else channel_subscription msg c) = Some r"
  by (cases route) (auto split: option.splits if_splits)

lemma route_subscription_message:
  "route_reader_message msg pp po cs chs fin = (SUBSCRIPTION_MESSAGE, d) \<Longrightarrow> pm_kind msg \<in> {REPLY, EVENT}"
  by (auto simp: route_reader_message_def Let_def split: if_splits)

lemma route_publishes:
  assumes ok: "routes_ok c" and "fst (route_message msg g c) = FollowPublish r"
  shows "\<exists>x. ws_records c r = Some x \<and>
    (pm_kind msg = REPLY \<and> pm_correlation msg \<noteq> None \<and> sr_correlation x = pm_correlation msg \<or>
     pm_kind msg = EVENT \<and> pm_channel msg \<noteq> None \<and> sr_channel x = pm_channel msg)"
proof -
  obtain c' where "route_message msg g c = (FollowPublish r, c')" using assms(2) by (metis prod.collapse)
  then obtain route d where rt: "route_of msg g c = (route, d)"
    "apply_route route msg g (if d then discard_pending (message_key msg g) c else c) = (FollowPublish r, c')"
    by (auto simp: route_message_def split: prod.splits)
  have same: "correlation_subscription msg (if d then discard_pending k c else c) = correlation_subscription msg c"
    "channel_subscription msg (if d then discard_pending k c else c) = channel_subscription msg c" for k
    by (simp_all add: correlation_subscription_def channel_subscription_def discard_pending_def split: option.split)
  have f: "route = SUBSCRIPTION_MESSAGE"
    "(if pm_kind msg = REPLY then correlation_subscription msg c else channel_subscription msg c) = Some r"
    using apply_route_follow [OF rt(2)] same by auto
  have "pm_kind msg \<in> {REPLY, EVENT}"
    using rt(1) unfolding route_of_def f(1) Let_def by (rule route_subscription_message)
  then consider (reply) k where "pm_kind msg = REPLY" "pm_correlation msg = Some k"
      "map_of (ws_by_correlation c) k = Some r"
    | (event) ch where "pm_kind msg = EVENT" "pm_channel msg = Some ch" "map_of (ws_by_channel c) ch = Some r"
    using f(2)
    by (cases "pm_kind msg"; cases "pm_correlation msg"; cases "pm_channel msg")
      (simp_all add: correlation_subscription_def channel_subscription_def)
  then show ?thesis
  proof cases
    case reply
    then show ?thesis using map_of_route(2) [OF ok reply(3)] by auto
  next
    case event
    then show ?thesis using map_of_route(1) [OF ok event(3)] by auto
  qed
qed


end
