(* ===== verification/WsDelivery.thy ===== *)
theory WsDelivery
  imports WsRoutes
begin

text \<open>
  What a WebSocket client owes its callers: a lost connection settles everything that was waiting
  on it, a replay policy never sends a message twice, the reconnect loop is bounded. The last section
  has the runs in which the code falls short.
\<close>

section \<open>What an operation leaves alone\<close>

definition calls_of :: "client \<Rightarrow> (pending_key \<Rightarrow> pending_exchange option) \<times> pending_key list \<times> int list \<times> session_state" where
  "calls_of c = (ws_exchanges c, ws_pending c, ws_delays c, ws_state c)"

lemma calls_ops [frame_simps]:
  "calls_of (on_subscription f r c) = calls_of c"
  "calls_of (remove_subscription r c) = calls_of c"
  "calls_of (fail_record e r c) = calls_of c"
  "calls_of (on_item g i c) = calls_of c"
  by (auto simp: calls_of_def on_subscription_def remove_subscription_def fail_record_def on_item_def Let_def
      split: option.split)

lemma calls_fold:
  assumes "\<And>x c. calls_of (f x c) = calls_of c"
  shows "calls_of (fold f xs c) = calls_of c"
  by (induction xs arbitrary: c) (simp_all add: assms)

lemma calls_disconnect_record: "calls_of (snd (disconnect_record m fatal rec r p)) = calls_of (snd p)"
  by (auto simp: disconnect_record_def frame_simps split: prod.splits disconnect_choice.splits)

lemma calls_disconnect [frame_simps]: "calls_of (snd (disconnect_subscriptions m fatal rec c)) = calls_of c"
proof -
  have "calls_of (snd (fold (disconnect_record m fatal rec) rs p)) = calls_of (snd p)" for rs p
    by (induction rs arbitrary: p) (simp_all add: calls_disconnect_record)
  then have "calls_of c1 = calls_of c"
    if "fold (disconnect_record m fatal rec) (subscription_records c) (False, c) = (b, c1)" for b c1
    using that by (metis snd_conv)
  then show ?thesis
    by (auto simp: disconnect_subscriptions_def Let_def frame_simps calls_fold split: prod.splits)
qed

section \<open>Registered subscriptions\<close>

lemma set_uniq [simp]: "set (uniq xs) = set xs"
proof -
  have "set (fold (\<lambda>x acc. if x \<in> set acc then acc else x # acc) xs acc) = set xs \<union> set acc" for acc
    by (induction xs arbitrary: acc) auto
  then show ?thesis by (simp add: uniq_def)
qed

lemma set_records:
  "set (subscription_records c) = snd ` set (ws_by_channel c) \<union> snd ` set (ws_by_correlation c)"
  by (simp add: subscription_records_def)

lemma records_cong: "rg c' = rg c \<Longrightarrow> set (subscription_records c') = set (subscription_records c)"
  by (simp add: set_records rg_def)

lemma remove_gone:
  assumes "routes_ok c"
  shows "set (subscription_records (remove_subscription r c)) \<subseteq> set (subscription_records c) - {r}"
proof (cases "ws_records c r")
  case None
  then have "record_route c r = None" by (simp add: record_route_def)
  then have "r \<notin> set (subscription_records c)"
    using assms by (auto simp: routes_ok_def set_records)
  then show ?thesis using None by (simp add: remove_subscription_def)
next
  case (Some x)
  then have r: "record_route c r = Some (sr_channel x, sr_correlation x)" by (simp add: record_route_def)
  have ch: "sr_channel x = Some ch" if "(ch, r) \<in> set (ws_by_channel c)" for ch
    using assms that r by (auto simp: routes_ok_def)
  have k: "sr_correlation x = Some k" if "(k, r) \<in> set (ws_by_correlation c)" for k
    using assms that r by (auto simp: routes_ok_def)
  show ?thesis
    using Some ch k by (auto simp: remove_subscription_def Let_def set_records set_dict_delete split: option.splits)
qed

lemma fail_record_gone:
  "routes_ok c \<Longrightarrow> set (subscription_records (fail_record e r c)) \<subseteq> set (subscription_records c) - {r}"
  using remove_gone [of "on_subscription (sub_fail e) r c" r] records_cong [OF rg_on_subscription]
  by (simp add: fail_record_def)

lemma fail_records_gone:
  "routes_ok c \<Longrightarrow> set (subscription_records (fold (fail_record e) rs c)) \<subseteq> set (subscription_records c) - set rs"
proof (induction rs arbitrary: c)
  case (Cons r rs)
  then show ?case using Cons.IH [of "fail_record e r c"] fail_record_gone [of c e r] routes_ok_fail_record by fastforce
qed simp

lemma policy_on_subscription:
  "(\<And>s. sb_resubscribe (f s) = sb_resubscribe s) \<Longrightarrow> policy_of q (on_subscription f r c) = policy_of q c"
  by (auto simp: policy_of_def on_subscription_def split: option.splits)

lemma policy_remove: "policy_of q (remove_subscription r c) = policy_of q c"
  by (auto simp: policy_of_def remove_subscription_def Let_def split: option.splits)

lemma policy_fail_record: "policy_of q (fail_record e r c) = policy_of q c"
  by (simp add: fail_record_def policy_remove policy_on_subscription sub_fail_def put_terminal_def Let_def)

lemma policy_disconnect_record: "policy_of q (snd (disconnect_record m fatal rec r (b, c))) = policy_of q c"
  by (simp add: disconnect_record_def policy_fail_record policy_on_subscription mark_disconnected_def
      split: disconnect_choice.split)

lemma disconnect_records:
  assumes "routes_ok c" and "fold (disconnect_record m fatal rec) rs (b, c) = (b', c')"
  shows "set (subscription_records c') \<subseteq>
      set (subscription_records c) - {r \<in> set rs. disconnect_action (policy_of r c) fatal rec \<noteq> RETAIN} \<and>
    (b' \<longleftrightarrow> b \<or> (\<exists>r \<in> set rs. disconnect_action (policy_of r c) fatal rec = RETAIN)) \<and>
    (\<forall>q. policy_of q c' = policy_of q c) \<and> routes_ok c'"
  using assms
proof (induction rs arbitrary: b c)
  case (Cons r rs)
  obtain b1 c1 where d: "disconnect_record m fatal rec r (b, c) = (b1, c1)" by fastforce
  have ok: "routes_ok c1"
    using d Cons.prems(1) routes_ok_fail_record by (auto simp: disconnect_record_def split: disconnect_choice.splits)
  have pol: "policy_of q c1 = policy_of q c" for q using policy_disconnect_record [of q m fatal rec r b c] d by simp
  have one: "(b1 \<longleftrightarrow> b \<or> disconnect_action (policy_of r c) fatal rec = RETAIN) \<and>
      set (subscription_records c1) \<subseteq> set (subscription_records c) -
        (if disconnect_action (policy_of r c) fatal rec = RETAIN then {} else {r})"
    using d fail_record_gone [OF Cons.prems(1)] records_cong [OF rg_on_subscription]
    by (auto simp: disconnect_record_def split: disconnect_choice.splits)
  have "fold (disconnect_record m fatal rec) rs (b1, c1) = (b', c')" using Cons.prems(2) d by simp
  from Cons.IH [OF ok this] show ?case using one pol by (auto split: if_splits)
qed auto

lemma disconnect_subscriptions_left:
  assumes "routes_ok c" and "disconnect_subscriptions m fatal rec c = (should, c')"
  shows "set (subscription_records c') \<subseteq>
      {r \<in> set (subscription_records c). disconnect_action (policy_of r c) fatal rec = RETAIN} \<and>
    (set (subscription_records c') \<noteq> {} \<longrightarrow> should \<and> ws_delays c \<noteq> []) \<and> (\<forall>q. policy_of q c' = policy_of q c)"
proof -
  obtain b c1 where f: "fold (disconnect_record m fatal rec) (subscription_records c) (False, c) = (b, c1)"
    by fastforce
  note one = disconnect_records [OF assms(1) f]
  have delays: "ws_delays c1 = ws_delays c"
  proof -
    have "calls_of (snd (fold (disconnect_record m fatal rec) rs p)) = calls_of (snd p)" for rs p
      by (induction rs arbitrary: p) (simp_all add: calls_disconnect_record)
    from this [of "subscription_records c" "(False, c)"] f show ?thesis by (simp add: calls_of_def)
  qed
  show ?thesis
  proof (cases "b \<and> ws_delays c1 = []")
    case True
    let ?e = "SubscriptionDisconnectedError ''WebSocket reconnect budget is disabled''"
    have c': "c' = fold (fail_record ?e) (subscription_records c1) c1"
      using assms(2) f True by (simp add: disconnect_subscriptions_def)
    have "policy_of q (fold (fail_record e) rs x) = policy_of q x" for q e rs x
      by (induction rs arbitrary: x) (simp_all add: policy_fail_record)
    moreover have "set (subscription_records c') = {}"
      using fail_records_gone [of c1 ?e "subscription_records c1"] one by (auto simp: c')
    ultimately show ?thesis using one by (simp add: c')
  next
    case False
    then have "c' = c1" "should = b"
      using assms(2) f by (auto simp: disconnect_subscriptions_def split: if_splits)
    moreover have "b" if ne: "set (subscription_records c1) \<noteq> {}"
    proof -
      obtain r where "r \<in> set (subscription_records c1)" using ne by (meson ex_in_conv)
      then have "r \<in> set (subscription_records c)" "disconnect_action (policy_of r c) fatal rec = RETAIN"
        using one by auto
      then show ?thesis using one by blast
    qed
    moreover have "set (subscription_records c1) \<subseteq>
        {r \<in> set (subscription_records c). disconnect_action (policy_of r c) fatal rec = RETAIN}"
      using one by auto
    moreover have "\<forall>q. policy_of q c1 = policy_of q c" using one by simp
    ultimately show ?thesis using delays False by simp
  qed
qed

section \<open>A lost connection\<close>

lemma break_exchanges:
  "ws_exchanges (fold (break_exchange e) ks c) =
     (\<lambda>k. if k \<in> set ks then map_option (\<lambda>x. x\<lparr>ex_reply :=
        settle (Broken (Delivery e (ex_send_started x))) (ex_reply x)\<rparr>) (ws_exchanges c k) else ws_exchanges c k)"
  by (induction ks arbitrary: c)
    (auto simp: break_exchange_def on_exchange_def fun_eq_iff option.map_comp comp_def)

lemma fail_outstanding_calls:
  "ws_pending (fail_outstanding e c) = []"
  "k \<in> set (ws_pending c) \<Longrightarrow> ws_exchanges (fail_outstanding e c) k = Some x \<Longrightarrow> ex_reply x \<noteq> Open"
  "ws_state (fail_outstanding e c) = ws_state c" "ws_delays (fail_outstanding e c) = ws_delays c"
proof -
  have b: "calls_of (fold (break_item e) q c) = calls_of c" for q c
    by (rule calls_fold) (simp add: break_item_def frame_simps)
  have b1: "calls_of (break_item e i c) = calls_of c" for i by (simp add: break_item_def frame_simps)
  have ex: "ws_state (fold (break_exchange e) ks c) = ws_state c" "ws_delays (fold (break_exchange e) ks c) = ws_delays c"
    for ks c by (induction ks arbitrary: c) (simp_all add: break_exchange_def on_exchange_def)
  define c1 where "c1 = (case ws_active c of None \<Rightarrow> c | Some i \<Rightarrow> break_item e i c)"
  define c2 where "c2 = (case ws_queue c1 of None \<Rightarrow> c1 | Some q \<Rightarrow> fold (break_item e) q c1\<lparr>ws_queue := Some []\<rparr>)"
  have q: "calls_of (x\<lparr>ws_queue := y\<rparr>) = calls_of x" for x y by (simp add: calls_of_def)
  have "calls_of c1 = calls_of c" using b1 by (simp add: c1_def split: option.split)
  then have c2: "calls_of c2 = calls_of c" using b q by (simp add: c2_def split: option.split)
  have f: "fail_outstanding e c = (fold (break_exchange e) (ws_pending c2) c2)\<lparr>ws_pending := []\<rparr>"
    unfolding fail_outstanding_def c2_def c1_def Let_def by (rule refl)
  show "ws_pending (fail_outstanding e c) = []" by (simp add: f)
  show "ws_state (fail_outstanding e c) = ws_state c" "ws_delays (fail_outstanding e c) = ws_delays c"
    using c2 by (simp_all add: f ex calls_of_def)
  show "ex_reply x \<noteq> Open" if "k \<in> set (ws_pending c)" "ws_exchanges (fail_outstanding e c) k = Some x"
  proof -
    have "settle (Broken a) (r :: protocol_message future) \<noteq> Open" for a r by (cases r) simp_all
    then show ?thesis using that c2 by (auto simp: f break_exchanges calls_of_def)
  qed
qed

text \<open>
  C13. A lost connection leaves nobody waiting: every frame queued or being written, and every call
  that waits for a reply, is settled; and a subscription stays registered only when a reconnect is
  under way that may restore it.
\<close>

theorem failure_settles:
  assumes "ws_steps (new_client capacity delays) c" and "ws_state c \<notin> {CLOSING, CLOSED}"
    and c': "c' = fail_connection e m (ws_generation c) fatal reconnect c"
  shows "queued c' = [] \<and> ws_pending c' = [] \<and>
    (\<forall>i. i \<in> set (queued c) \<or> ws_active c = Some i \<longrightarrow>
       (\<exists>w. ws_items c' i = Some w \<and> wi_completion w \<noteq> Open)) \<and>
    (\<forall>k \<in> set (ws_pending c). \<forall>x. ws_exchanges c' k = Some x \<longrightarrow> ex_reply x \<noteq> Open) \<and>
    (\<forall>r \<in> set (subscription_records c'). policy_of r c' \<noteq> NeverResubscribe \<and> ws_reconnecting c' \<and>
       ws_state c' = RECONNECTING \<and> ws_delays c \<noteq> [])"
proof -
  define c0 where "c0 = c\<lparr>ws_state := failure_session_state (failure_state fatal reconnect)\<rparr>"
  have items: "items_ok c" and routes: "routes_ok c"
    using assms(1) items_ok_new items_ok_steps routes_ok_new routes_ok_steps by blast+
  obtain should c2 where d: "disconnect_subscriptions m fatal reconnect (fail_outstanding e c0) = (should, c2)"
    by fastforce
  have c'_eq: "c' = (let c3 = c2\<lparr>ws_tasks := False\<rparr> in if should then c3\<lparr>ws_reconnecting := True\<rparr> else c3)"
    using assms(2) d by (simp add: c' fail_connection_def c0_def)
  have io: "io c' = io (fail_outstanding e c0)"
    using io_disconnect [of m fatal reconnect "fail_outstanding e c0"] d by (simp add: c'_eq Let_def frame_simps)
  have calls: "calls_of c' = calls_of (fail_outstanding e c0)"
    using calls_disconnect [of m fatal reconnect "fail_outstanding e c0"] d
    by (simp add: c'_eq Let_def calls_of_def)
  have same: "queued c0 = queued c" "ws_active c0 = ws_active c" "ws_items c0 = ws_items c"
    "ws_pending c0 = ws_pending c" "ws_delays c0 = ws_delays c"
    by (simp_all add: c0_def queued_def)
  have "queued c' = []"
    using io by (simp add: io_iff queued_def fail_outstanding_io split: option.split)
  moreover have "ws_pending c' = []" using calls by (simp add: calls_of_def fail_outstanding_calls)
  moreover have "\<exists>w. ws_items c' i = Some w \<and> wi_completion w \<noteq> Open"
    if "i \<in> set (queued c) \<or> ws_active c = Some i" for i
  proof -
    have "\<exists>w. ws_items c i = Some w" using that items_okD(2,3) [OF items] by blast
    then show ?thesis
      using io that same broken_done by (auto simp: io_iff fail_outstanding_io)
  qed
  moreover have "ex_reply x \<noteq> Open" if "k \<in> set (ws_pending c)" "ws_exchanges c' k = Some x" for k x
    using calls that fail_outstanding_calls(2) [of k c0 e x] same by (simp add: calls_of_def)
  moreover have "policy_of r c' \<noteq> NeverResubscribe \<and> ws_reconnecting c' \<and> ws_state c' = RECONNECTING \<and>
      ws_delays c \<noteq> []" if "r \<in> set (subscription_records c')" for r
  proof -
    have ok: "routes_ok (fail_outstanding e c0)" using routes by (simp add: c0_def)
    have r2: "r \<in> set (subscription_records c2)"
      using that by (simp add: c'_eq Let_def set_records split: if_splits)
    note left = disconnect_subscriptions_left [OF ok d]
    have act: "disconnect_action (policy_of r (fail_outstanding e c0)) fatal reconnect = RETAIN"
      using left r2 by blast
    have should: "should" "ws_delays (fail_outstanding e c0) \<noteq> []" using left r2 by auto
    have "policy_of r c' = policy_of r (fail_outstanding e c0)"
      using left should(1) by (simp add: c'_eq Let_def policy_of_def)
    moreover have "\<not> fatal" "reconnect" "policy_of r (fail_outstanding e c0) \<noteq> NeverResubscribe"
      using act by (auto simp: disconnect_action_def split: if_splits)
    moreover have "ws_state c' = RECONNECTING"
      using calls calculation(2,3)
      by (simp add: calls_of_def fail_outstanding_calls c0_def failure_state_def failure_session_state_def)
    ultimately show ?thesis
      using should same by (simp add: c'_eq Let_def fail_outstanding_calls)
  qed
  ultimately show ?thesis by blast
qed


section \<open>Replays\<close>

text \<open>
  A replay policy sends a message at most once more than it allows; and unless the policy
  declares a deduplication key, every attempt before the last one was reported as not sent, so the
  message reaches the peer at most once.
\<close>

lemma replay_at_most_once:
  assumes "replay_loop discriminator policy once prepare replays w = (r, tr, w')" and "0 \<le> replays"
  shows "int (length tr) \<le> 1 + max 0 (max_replays policy - replays) \<and> tr \<noteq> [] \<and>
    ((\<forall>k n. policy \<noteq> ReplayWithDeduplication k n) \<longrightarrow>
       (\<forall>x \<in> set (butlast tr). \<exists>e. x = DeliveryFailed e False)) \<and>
    (\<forall>v. r = Inr v \<longrightarrow> last tr = Answer v)"
  using assms
proof (induction discriminator policy once prepare replays w arbitrary: r tr w' rule: replay_loop.induct)
  case (1 d policy once prepare replays w)
  obtain x w1 where once: "once w = (x, w1)" by fastforce
  note unfold = "1.prems"(1) [unfolded replay_loop.simps [of d policy once prepare replays w] once]
  show ?case
  proof (cases x)
    case (DeliveryFailed e may)
    show ?thesis
    proof (cases "replay_allowed policy may replays")
      case True
      have more: "replays < max_replays policy" using True by (auto simp: replay_allowed_def split: if_splits)
      have unsent: "\<not> may" if "\<forall>k n. policy \<noteq> ReplayWithDeduplication k n"
        using True that by (auto simp: replay_allowed_def split: if_splits ws_replay_policy.splits)
      obtain y w2 where prep: "prepare w1 = (y, w2)" by fastforce
      show ?thesis
      proof (cases y)
        case None
        obtain r2 tr2 w3 where rec: "replay_loop d policy once prepare (replays + 1) w2 = (r2, tr2, w3)"
          by (metis prod_cases3)
        have now: "r = r2" "tr = DeliveryFailed e may # tr2"
          using unfold DeliveryFailed True prep None rec by simp_all
        have IH: "int (length tr2) \<le> 1 + max 0 (max_replays policy - (replays + 1)) \<and> tr2 \<noteq> [] \<and>
            ((\<forall>k n. policy \<noteq> ReplayWithDeduplication k n) \<longrightarrow>
               (\<forall>x \<in> set (butlast tr2). \<exists>e. x = DeliveryFailed e False)) \<and>
            (\<forall>v. r2 = Inr v \<longrightarrow> last tr2 = Answer v)"
          using "1.IH" [OF once [symmetric] DeliveryFailed True prep [symmetric] None rec] "1.prems"(2) by simp
        then show ?thesis using now more unsent by (auto simp: max_def)
      next
        case (Some err)
        then show ?thesis using unfold DeliveryFailed True prep by auto
      qed
    next
      case False
      then show ?thesis using unfold DeliveryFailed by auto
    qed
  qed (use unfold in auto)
qed

section \<open>Reconnecting\<close>

lemma reconnect_bounded: "fst (reconnect_loop rest dial delays last_error c) \<le> length delays"
  by (induction delays arbitrary: last_error c)
    (auto simp: Let_def split: prod.split option.split ws_error.split, metis fst_conv)

section \<open>Runs\<close>

definition ready_client :: "string list \<Rightarrow> client" where
  "ready_client frames = fst (fold (\<lambda>f (c, i). (snd (enqueue False f None i c), i + 1)) frames
     (snd (connect_finished (connect_opened (snd (connect_begin (new_client 8 [0]))))), 0))"

lemmas ws_eval = ready_client_def connect_finished_def connect_opened_def connect_begin_def new_client_def
  connect_action_def teardown_def enqueue_def write_admitted_def

lemma connect_run: "ws_steps (new_client 8 [0]) (ready_client [])"
proof -
  have s1: "ws_step (new_client 8 [0]) (snd (connect_begin (new_client 8 [0])))" (is "ws_step _ ?a")
    by (rule step_connect) (simp_all add: ws_eval)
  have s2: "ws_step ?a (connect_opened ?a)" (is "ws_step _ ?b")
    by (rule step_opened) (simp add: ws_eval)
  have s3: "ws_step ?b (snd (connect_finished ?b))"
    by (rule step_finished) (simp add: ws_eval)
  have "ws_steps (new_client 8 [0]) (snd (connect_finished ?b))"
    by (rule steps_step [OF steps_step [OF steps_step [OF steps_refl s1] s2] s3])
  then show ?thesis by (simp add: ready_client_def)
qed

lemma queued_run: "ws_steps (new_client 8 [0]) (ready_client [''hello''])"
proof -
  have "ws_step (ready_client []) (ready_client [''hello''])"
    by (rule step_enqueue [where i = 0 and hs = False and frame = "''hello''" and pending = None and u = "()"])
      (simp_all add: ws_eval)
  then show ?thesis using connect_run steps_step by blast
qed

lemma lost_run:
  "ws_steps (new_client 8 [0])
     (fail_connection (WsConnectError ''reset'') ''reset'' 1 False True (ready_client [''hello'']))"
  using queued_run step_fail steps_step by blast

lemmas fail_eval = fail_connection_def failure_state_def failure_session_state_def fail_outstanding_def
  break_item_def on_item_def disconnect_subscriptions_def subscription_records_def uniq_def

lemma unsent_never_sent_witness:
  "\<exists>w. ws_items (fail_connection (WsConnectError ''reset'') ''reset'' 1 False True (ready_client [''hello''])) 0 = Some w \<and>
     \<not> wi_started w"
proof -
  have "ws_items (fail_connection (WsConnectError ''reset'') ''reset'' 1 False True (ready_client [''hello''])) 0 =
      Some \<lparr>wi_frame = ''hello'', wi_completion = Broken (Delivery (WsConnectError ''reset'') False),
        wi_pending = None, wi_started = False\<rparr>"
    by (simp add: ws_eval fail_eval Let_def)
  from unsent_never_sent [OF lost_run this _ steps_refl] show ?thesis by simp blast
qed


lemma failure_settles_witness:
  "queued (fail_connection (WsConnectError ''reset'') ''reset'' (ws_generation (ready_client [''hello'']))
     False True (ready_client [''hello''])) = []"
proof -
  have "ws_state (ready_client [''hello'']) \<notin> {CLOSING, CLOSED}" by (simp add: ws_eval)
  from failure_settles [OF queued_run this refl] show ?thesis by blast
qed

definition flaky_once :: "nat \<Rightarrow> bool once \<times> nat" where
  "flaky_once n = (if n = 0 then DeliveryFailed (WsConnectError ''reset'') False else Answer True, n + 1)"

lemma flaky_run:
  "replay_loop ''ping'' (ReplayIfUnsent 1) flaky_once (\<lambda>n. (None, n)) 0 0 =
     (Inr True, [DeliveryFailed (WsConnectError ''reset'') False, Answer True], 2)"
  by (subst replay_loop.simps, simp add: replay_allowed_def flaky_once_def,
      subst replay_loop.simps, simp add: replay_allowed_def flaky_once_def)

lemma replay_at_most_once_witness:
  "list_all (\<lambda>x. \<exists>e. x = DeliveryFailed e False)
     (butlast (fst (snd (replay_loop ''ping'' (ReplayIfUnsent 1) flaky_once (\<lambda>n. (None, n)) 0 0))))"
proof -
  have "\<forall>k n. ReplayIfUnsent 1 \<noteq> ReplayWithDeduplication k n" by simp
  then show ?thesis using replay_at_most_once [OF flaky_run] unfolding flaky_run by (simp add: list_all_iff)
qed

section \<open>Where the code falls short\<close>

text \<open>
  A connection that is lost while the connection middleware runs: \<open>connect\<close> overwrites the state the
  failure has left, and the client is ready without reader and writer. What is sent next is queued
  and nothing takes it.
\<close>

lemma lost_handshake_reported_ready:
  "\<exists>c. ws_steps (new_client 8 [0]) c \<and> ws_state c = READY \<and> \<not> ws_tasks c \<and>
     (\<forall>frame. fst (enqueue False frame None 0 c) = Inr ())"
proof -
  let ?a = "snd (connect_begin (new_client 8 [0]))" and ?e = "WsConnectError ''reset''"
  let ?b = "connect_opened ?a"
  let ?f = "fail_connection ?e ''reset'' 1 False False ?b"
  have s1: "ws_step (new_client 8 [0]) ?a" by (rule step_connect) (simp_all add: ws_eval)
  have s2: "ws_step ?a ?b" by (rule step_opened) (simp add: ws_eval)
  have s3: "ws_step ?b ?f" by (rule step_fail)
  have s4: "ws_step ?f (snd (connect_finished ?f))"
    by (rule step_finished) (simp add: ws_eval fail_eval Let_def)
  have "ws_steps (new_client 8 [0]) (snd (connect_finished ?f))"
    by (rule steps_step [OF steps_step [OF steps_step [OF steps_step [OF steps_refl s1] s2] s3] s4])
  moreover have "ws_state (snd (connect_finished ?f)) = READY \<and> \<not> ws_tasks (snd (connect_finished ?f)) \<and>
      (\<forall>frame. fst (enqueue False frame None 0 (snd (connect_finished ?f))) = Inr ())"
    by (simp add: ws_eval fail_eval Let_def)
  ultimately show ?thesis by (intro exI [of _ "snd (connect_finished ?f)"] conjI) simp_all
qed

text \<open>
  A call whose frame is still being prepared when the connection is lost and restored: its reply
  has failed with \<open>may_have_been_sent\<close> false, yet the frame goes out on the new connection. The
  caller is told the operation was not sent, and \<open>ReplayIfUnsent\<close> sends it a second time.
\<close>

lemma stale_call_reported_unsent:
  "\<exists>c k x i w. ws_steps (new_client 8 [0]) c \<and> ws_exchanges c k = Some x \<and>
     ex_reply x = Broken (Delivery (WsConnectError ''reset'') False) \<and>
     ws_items c i = Some w \<and> wi_pending w = Some k \<and> wi_started w"
proof -
  let ?e = "WsConnectError ''reset''" and ?k = "(1, str_nat 1) :: pending_key"
  let ?r = "snd (call_register (ready_client []))"
  let ?f = "fail_connection ?e ''reset'' 1 False True ?r"
  let ?a = "snd (connect_begin ?f)"
  let ?b = "connect_opened ?a"
  let ?d = "snd (connect_finished ?b)"
  let ?q = "snd (enqueue False ''call'' (Some ?k) 0 ?d)"
  note ev = ws_eval fail_eval call_register_def allocate_correlation_def Let_def break_exchange_def on_exchange_def
  have s1: "ws_step (ready_client []) ?r" by (rule step_call)
  have s2: "ws_step ?r ?f" by (rule step_fail)
  have s3: "ws_step ?f ?a" by (rule step_connect) (simp_all add: ev)
  have s4: "ws_step ?a ?b" by (rule step_opened) (simp add: ev)
  have s5: "ws_step ?b ?d" by (rule step_finished) (simp add: ev)
  have s6: "ws_step ?d ?q"
    by (rule step_enqueue [where i = 0 and hs = False and frame = "''call''" and pending = "Some ?k" and u = "()"])
      (simp_all add: ev)
  have s7: "ws_step ?q (writer_take ?q)" by (rule step_take) (simp_all add: ev)
  have "ws_steps (ready_client []) (writer_take ?q)"
    by (rule steps_step [OF steps_step [OF steps_step [OF steps_step [OF steps_step [OF steps_step [OF steps_step [OF steps_refl s1] s2] s3] s4] s5] s6] s7])
  then have "ws_steps (new_client 8 [0]) (writer_take ?q)" using connect_run ws_steps_trans by blast
  moreover have "\<exists>x w. ws_exchanges (writer_take ?q) ?k = Some x \<and> ex_reply x = Broken (Delivery ?e False) \<and>
      ws_items (writer_take ?q) 0 = Some w \<and> wi_pending w = Some ?k \<and> wi_started w"
    by (simp add: ev writer_take_def)
  ultimately show ?thesis by blast
qed

text \<open>
  A subscription the consumer closed while the client restored another one: it is restored too, is
  never active again, and takes values behind the terminal its consumer has already read.
\<close>

lemma closed_subscription_restored:
  assumes "sb_closed s" and "sb_resubscribe s = ResubscribeFromStart" and "length (sb_queue s) < sb_capacity s"
  shows "sb_state (mark_active (mark_restoring g False s)) = RESUBSCRIBING \<and>
    fst (publish v g (mark_active (mark_restoring g False s)))"
  using assms
  by (simp add: mark_active_def mark_restoring_def Let_def publish_def extract_position_def sequence_gap_def
      offer_event_def split: option.split)

text \<open>
  Removing a subscription goes by its route, not by its identity: a subscription that closes after
  its channel was taken over by a new one takes the new one out of the registry.
\<close>

lemma late_close_drops_new_subscription:
  assumes "ws_records c old = Some x" and "sr_channel x = Some ch" and "sr_correlation x = None"
    and "dict_ok (ws_by_channel c)" and "map_of (ws_by_channel c) ch = Some new" and "new \<noteq> old"
  shows "map_of (ws_by_channel (remove_subscription old c)) ch = None"
  using assms by (simp add: remove_subscription_def Let_def)

end
