(* ===== verification/Pagination.thy ===== *)
theory Pagination
  imports Errors
begin

text \<open>
  Pagination (\<open>pagination.py\<close> and the iteration of \<open>api.py\<close>): the four strategies, the request that
  follows a page, and the loops behind \<open>pages()\<close> and \<open>items()\<close>. The asynchronous and the blocking
  operation run the same loop, so it is modelled once.

  Sending a page is a function of the request, the address and a world \<open>'w\<close>. A generator is modelled
  by everything it yields, how it ends and the requests it sent; it can run for ever, so the loops
  take fuel, and \<open>items_terminates\<close> and \<open>pages_fuel\<close> say how much is enough.
\<close>

section \<open>Request values\<close>

record model_value =
  mv_class :: string
  mv_fields :: "(string, pyval) dict"

fun type_name :: "pyval \<Rightarrow> string" where
  "type_name PNone = ''NoneType''"
| "type_name (PBool b) = ''bool''"
| "type_name (PInt i) = ''int''"
| "type_name (PStr s) = ''str''"
| "type_name (PBytes s) = ''bytes''"
| "type_name (PTuple xs) = ''tuple''"
| "type_name (PList xs) = ''list''"
| "type_name (PDict d) = ''dict''"

definition get_attribute :: "model_value \<Rightarrow> string \<Rightarrow> sdk_error + pyval" where
  "get_attribute v name =
     (case map_of (mv_fields v) name of None \<Rightarrow> Inl (PyError ''AttributeError'') | Some x \<Rightarrow> Inr x)"

text \<open>\<open>ModelAdapterRegistry.evolve\<close> on a value whose adapter replaces fields, as the dataclass one does.\<close>

definition evolve :: "model_value \<Rightarrow> (string, pyval) dict \<Rightarrow> sdk_error + model_value" where
  "evolve v changes =
     (case filter (\<lambda>name. name \<notin> set (keys (mv_fields v))) (keys changes) of
        name # _ \<Rightarrow> Inl (PyError (mv_class v @ '' has no field '' @ py_repr name @ ''; fields: '' @
                     join '', '' (keys (mv_fields v))))
      | [] \<Rightarrow> Inr (v\<lparr>mv_fields := fold (\<lambda>(k, x). AList.update k x) changes (mv_fields v)\<rparr>))"

section \<open>Strategies\<close>

text \<open>
  The result class is named by the natural number of its identity and by its \<open>__name__\<close>. A cursor or
  a link is any value; \<open>PNone\<close> is \<open>None\<close>.
\<close>

record result_class =
  rc_id :: nat
  rc_name :: string

datatype ('r, 'i) pagination =
    NumberedPages result_class string "'r \<Rightarrow> 'i list" "string option" "('r \<Rightarrow> int) option"
  | OffsetPages result_class string "'r \<Rightarrow> 'i list" "string option" "('r \<Rightarrow> int) option"
  | CursorPages result_class string "'r \<Rightarrow> 'i list" "'r \<Rightarrow> pyval"
  | NextUrlPages result_class "'r \<Rightarrow> 'i list" "'r \<Rightarrow> pyval"

text \<open>The \<open>__post_init__\<close> of the four, as far as types do not exclude the failure.\<close>

fun check_pagination :: "('r, 'i) pagination \<Rightarrow> sdk_error + ('r, 'i) pagination" where
  "check_pagination (NumberedPages c page items per tot) =
     (if page = [] then Inl (PyTypeError ''Pages.numbered(page=) must be a field name'')
      else if per = Some [] then Inl (PyTypeError ''Pages.numbered(size=) must be a field name or None'')
      else Inr (NumberedPages c page items per tot))"
| "check_pagination (OffsetPages c offset items limit tot) =
     (if offset = [] then Inl (PyTypeError ''Pages.offset(offset=) must be a field name'')
      else if limit = Some [] then Inl (PyTypeError ''Pages.offset(limit=) must be a field name or None'')
      else Inr (OffsetPages c offset items limit tot))"
| "check_pagination (CursorPages c cursor items next_cursor) =
     (if cursor = [] then Inl (PyTypeError ''Pages.cursor(cursor=) must be a field name'')
      else Inr (CursorPages c cursor items next_cursor))"
| "check_pagination (NextUrlPages c items next_url) = Inr (NextUrlPages c items next_url)"

fun strategy_fields :: "('r, 'i) pagination \<Rightarrow> string list" where
  "strategy_fields (NumberedPages c page items per tot) = page # (case per of None \<Rightarrow> [] | Some s \<Rightarrow> [s])"
| "strategy_fields (OffsetPages c offset items limit tot) = offset # (case limit of None \<Rightarrow> [] | Some s \<Rightarrow> [s])"
| "strategy_fields (CursorPages c cursor items next_cursor) = [cursor]"
| "strategy_fields (NextUrlPages c items next_url) = []"

fun strategy_items :: "('r, 'i) pagination \<Rightarrow> 'r \<Rightarrow> 'i list" where
  "strategy_items (NumberedPages c page items per tot) = items"
| "strategy_items (OffsetPages c offset items limit tot) = items"
| "strategy_items (CursorPages c cursor items next_cursor) = items"
| "strategy_items (NextUrlPages c items next_url) = items"

fun strategy_result :: "('r, 'i) pagination \<Rightarrow> result_class" where
  "strategy_result (NumberedPages c page items per tot) = c"
| "strategy_result (OffsetPages c offset items limit tot) = c"
| "strategy_result (CursorPages c cursor items next_cursor) = c"
| "strategy_result (NextUrlPages c items next_url) = c"

text \<open>\<open>validate_declaration\<close>; \<open>Inl t\<close> is a \<open>__pages__\<close> that is no strategy, of type \<open>t\<close>.\<close>

definition validate_declaration ::
  "string + ('r, 'i) pagination \<Rightarrow> string \<Rightarrow> string list \<Rightarrow> result_class \<Rightarrow> sdk_error + ('r, 'i) pagination" where
  "validate_declaration declared name field_names result =
     (case declared of
        Inl t \<Rightarrow> Inl (PlanError (''operation class '' @ name @ ''.__pages__ must be a Pages strategy, got '' @ t))
      | Inr s \<Rightarrow>
          (case filter (\<lambda>f. f \<notin> set field_names) (strategy_fields s) of
             f # _ \<Rightarrow> Inl (PlanError (name @ ''.__pages__ names unknown field '' @ py_repr f @ ''; fields: '' @
                         join '', '' field_names))
           | [] \<Rightarrow>
               if rc_id (strategy_result s) \<noteq> rc_id result
               then Inl (PlanError (name @ ''.__pages__ declares result '' @ rc_name (strategy_result s) @
                      '', the operation returns '' @ rc_name result))
               else Inr s))"

section \<open>The next request\<close>

datatype page_change = Changes "(string, pyval) dict" | NextUrl string

definition int_field :: "model_value \<Rightarrow> string \<Rightarrow> sdk_error + int" where
  "int_field request name =
     bindE (get_attribute request name) (\<lambda>value.
       case value of
         PInt i \<Rightarrow> Inr i
       | _ \<Rightarrow> Inl (PlanError (mv_class request @ ''.'' @ name @ '' must be an int to paginate, got '' @
                type_name value)))"

definition declared_int :: "model_value \<Rightarrow> string option \<Rightarrow> sdk_error + int option" where
  "declared_int request name =
     (case name of
        None \<Rightarrow> Inr None
      | Some n \<Rightarrow> bindE (get_attribute request n)
          (\<lambda>value. Inr (case value of PInt i \<Rightarrow> Some i | _ \<Rightarrow> None)))"

definition next_numbered ::
  "string \<Rightarrow> ('r \<Rightarrow> 'i list) \<Rightarrow> string option \<Rightarrow> ('r \<Rightarrow> int) option \<Rightarrow> model_value \<Rightarrow> 'r \<Rightarrow>
     sdk_error + page_change option" where
  "next_numbered page items per total_pages request result =
     bindE (int_field request page) (\<lambda>current.
       if (case total_pages of Some t \<Rightarrow> t result \<le> current | None \<Rightarrow> False) then Inr None
       else bindE (declared_int request per) (\<lambda>s.
         if (case s of Some n \<Rightarrow> int (length (items result)) < n | None \<Rightarrow> False) then Inr None
         else Inr (Some (Changes [(page, PInt (current + 1))]))))"

definition next_offset ::
  "string \<Rightarrow> ('r \<Rightarrow> 'i list) \<Rightarrow> string option \<Rightarrow> ('r \<Rightarrow> int) option \<Rightarrow> model_value \<Rightarrow> 'r \<Rightarrow>
     sdk_error + page_change option" where
  "next_offset offset items limit tot request result =
     bindE (int_field request offset) (\<lambda>current.
       let count = int (length (items result)) in
       if (case tot of Some t \<Rightarrow> t result \<le> current + count | None \<Rightarrow> False) then Inr None
       else bindE (declared_int request limit) (\<lambda>l.
         if (case l of Some n \<Rightarrow> count < n | None \<Rightarrow> False) then Inr None
         else Inr (Some (Changes [(offset, PInt (current + count))]))))"

definition next_cursor_change :: "string \<Rightarrow> ('r \<Rightarrow> pyval) \<Rightarrow> 'r \<Rightarrow> sdk_error + page_change option" where
  "next_cursor_change cursor next_cursor result =
     (let token = next_cursor result in
      if token = PNone then Inr None else Inr (Some (Changes [(cursor, token)])))"

definition next_link :: "result_class \<Rightarrow> ('r \<Rightarrow> pyval) \<Rightarrow> 'r \<Rightarrow> sdk_error + page_change option" where
  "next_link c next_url result =
     (case next_url result of
        PNone \<Rightarrow> Inr None
      | PStr link \<Rightarrow>
          if link = [] then Inl (PlanError (rc_name c @ '': next_url must return a non-empty str or None, got str''))
          else Inr (Some (NextUrl link))
      | v \<Rightarrow> Inl (PlanError (rc_name c @ '': next_url must return a non-empty str or None, got '' @ type_name v)))"

definition next_changes ::
  "('r, 'i) pagination \<Rightarrow> model_value \<Rightarrow> 'r \<Rightarrow> int \<Rightarrow> sdk_error + page_change option" where
  "next_changes strategy request result fresh =
     (if fresh \<le> 0 then Inr None
      else case strategy of
        NumberedPages c page items per tot \<Rightarrow> next_numbered page items per tot request result
      | OffsetPages c offset items limit tot \<Rightarrow> next_offset offset items limit tot request result
      | CursorPages c cursor items next_cursor \<Rightarrow> next_cursor_change cursor next_cursor result
      | NextUrlPages c items next_url \<Rightarrow> next_link c next_url result)"

text \<open>\<open>_next_page\<close>; \<open>absolute\<close> resolves a link against the address of the page that gave it.\<close>

definition next_page ::
  "(string \<Rightarrow> string \<Rightarrow> string) \<Rightarrow> ('r, 'i) pagination \<Rightarrow> model_value \<Rightarrow> 'r \<Rightarrow> int \<Rightarrow> string \<Rightarrow>
     sdk_error + (model_value \<times> string option) option" where
  "next_page absolute strategy request result fresh url =
     bindE (next_changes strategy request result fresh) (\<lambda>change.
       case change of
         None \<Rightarrow> Inr None
       | Some (NextUrl link) \<Rightarrow> Inr (Some (request, Some (absolute link url)))
       | Some (Changes changes) \<Rightarrow> bindE (evolve request changes) (\<lambda>r. Inr (Some (r, None))))"

text \<open>\<open>_absolute\<close> over \<open>urlsplit(link).scheme\<close> and \<open>urljoin\<close>.\<close>

definition absolute_link :: "(string \<Rightarrow> string) \<Rightarrow> (string \<Rightarrow> string \<Rightarrow> string) \<Rightarrow> string \<Rightarrow> string \<Rightarrow> string" where
  "absolute_link scheme_of urljoin link previous =
     (if scheme_of link \<noteq> [] then link else urljoin previous link)"

section \<open>Iteration\<close>

definition check_max_pages :: "int option \<Rightarrow> sdk_error + unit" where
  "check_max_pages n =
     (case n of None \<Rightarrow> Inr () | Some m \<Rightarrow>
        if m < 1 then Inl (PyValueError ''max_pages must be None or >= 1'') else Inr ())"

definition check_max_items :: "int option \<Rightarrow> sdk_error + unit" where
  "check_max_items n =
     (case n of None \<Rightarrow> Inr () | Some m \<Rightarrow>
        if m < 1 then Inl (PyValueError ''max_items must be None or >= 1'') else Inr ())"

datatype ending = Finished | Raised sdk_error | OutOfFuel

record ('r, 'w) pager =
  pg_send :: "model_value \<Rightarrow> string option \<Rightarrow> 'w \<Rightarrow> (sdk_error + 'r \<times> string) \<times> 'w"
  pg_absolute :: "string \<Rightarrow> string \<Rightarrow> string"

text \<open>What an iteration yields, the requests it sent with their addresses, and how it ends.\<close>

record ('y) iteration =
  it_yields :: "'y list"
  it_sent :: "(model_value \<times> string option) list"
  it_ending :: ending

definition resume :: "'y list \<Rightarrow> model_value \<times> string option \<Rightarrow> 'y iteration \<Rightarrow> 'y iteration" where
  "resume ys p rest = \<lparr>it_yields = ys @ it_yields rest, it_sent = p # it_sent rest, it_ending = it_ending rest\<rparr>"

abbreviation ended :: "'y list \<Rightarrow> (model_value \<times> string option) list \<Rightarrow> ending \<Rightarrow> 'y iteration" where
  "ended ys ps e \<equiv> \<lparr>it_yields = ys, it_sent = ps, it_ending = e\<rparr>"

fun pages_loop ::
  "nat \<Rightarrow> ('r, 'w) pager \<Rightarrow> ('r, 'i) pagination \<Rightarrow> int option \<Rightarrow> model_value \<Rightarrow> string option \<Rightarrow> int \<Rightarrow> 'w \<Rightarrow>
     'r iteration \<times> 'w" where
  "pages_loop 0 env strategy max_pages request url sent w = (ended [] [] OutOfFuel, w)"
| "pages_loop (Suc fuel) env strategy max_pages request url sent w =
     (if (case max_pages of Some m \<Rightarrow> m \<le> sent | None \<Rightarrow> False) then (ended [] [] Finished, w)
      else case pg_send env request url w of
        (Inl e, w1) \<Rightarrow> (ended [] [(request, url)] (Raised e), w1)
      | (Inr (result, page_url), w1) \<Rightarrow>
          (case next_page (pg_absolute env) strategy request result
                  (int (length (strategy_items strategy result))) page_url of
             Inl e \<Rightarrow> (ended [result] [(request, url)] (Raised e), w1)
           | Inr None \<Rightarrow> (ended [result] [(request, url)] Finished, w1)
           | Inr (Some (request', url')) \<Rightarrow>
               (case pages_loop fuel env strategy max_pages request' url' (sent + 1) w1 of
                  (rest, w2) \<Rightarrow> (resume [result] (request, url) rest, w2))))"

text \<open>
  The elements of one page: those yielded, the marks seen, how many were given in all and of this
  page, and whether \<open>max_items\<close> ended the iteration.
\<close>

fun take_items ::
  "('i \<Rightarrow> 'k) option \<Rightarrow> int option \<Rightarrow> 'i list \<Rightarrow> 'k list \<Rightarrow> int \<Rightarrow> int \<Rightarrow> 'i list \<times> 'k list \<times> int \<times> int \<times> bool" where
  "take_items key max_items [] seen given fresh = ([], seen, given, fresh, False)"
| "take_items key max_items (x # xs) seen given fresh =
     (if (case key of Some f \<Rightarrow> f x \<in> set seen | None \<Rightarrow> False)
      then take_items key max_items xs seen given fresh
      else
        let seen' = (case key of Some f \<Rightarrow> f x # seen | None \<Rightarrow> seen) in
        if max_items = Some (given + 1) then ([x], seen', given + 1, fresh + 1, True)
        else case take_items key max_items xs seen' (given + 1) (fresh + 1) of
          (ys, s, g, f, stop) \<Rightarrow> (x # ys, s, g, f, stop))"

fun items_loop ::
  "nat \<Rightarrow> ('r, 'w) pager \<Rightarrow> ('r, 'i) pagination \<Rightarrow> ('i \<Rightarrow> 'k) option \<Rightarrow> int option \<Rightarrow> int option \<Rightarrow> model_value \<Rightarrow>
     string option \<Rightarrow> 'k list \<Rightarrow> int \<Rightarrow> int \<Rightarrow> 'w \<Rightarrow> 'i iteration \<times> 'w" where
  "items_loop 0 env strategy key max_pages max_items request url seen given sent w = (ended [] [] OutOfFuel, w)"
| "items_loop (Suc fuel) env strategy key max_pages max_items request url seen given sent w =
     (if (case max_pages of Some m \<Rightarrow> m \<le> sent | None \<Rightarrow> False) then (ended [] [] Finished, w)
      else case pg_send env request url w of
        (Inl e, w1) \<Rightarrow> (ended [] [(request, url)] (Raised e), w1)
      | (Inr (result, page_url), w1) \<Rightarrow>
          (case take_items key max_items (strategy_items strategy result) seen given 0 of
             (ys, seen', given', fresh, stop) \<Rightarrow>
               if stop then (ended ys [(request, url)] Finished, w1)
               else case next_page (pg_absolute env) strategy request result fresh page_url of
                 Inl e \<Rightarrow> (ended ys [(request, url)] (Raised e), w1)
               | Inr None \<Rightarrow> (ended ys [(request, url)] Finished, w1)
               | Inr (Some (request', url')) \<Rightarrow>
                   (case items_loop fuel env strategy key max_pages max_items request' url' seen' given'
                           (sent + 1) w1 of
                      (rest, w2) \<Rightarrow> (resume ys (request, url) rest, w2))))"

text \<open>\<open>pages()\<close>, \<open>items()\<close> and \<open>first()\<close>: the checks come first.\<close>

definition pages ::
  "nat \<Rightarrow> ('r, 'w) pager \<Rightarrow> ('r, 'i) pagination option \<Rightarrow> int option \<Rightarrow> model_value \<Rightarrow> 'w \<Rightarrow> 'r iteration \<times> 'w" where
  "pages fuel env strategy max_pages request w =
     (case strategy of
        None \<Rightarrow> (ended [] [] (Raised (PlanError (''pages() requires __pages__ on '' @ mv_class request))), w)
      | Some s \<Rightarrow>
          (case check_max_pages max_pages of
             Inl e \<Rightarrow> (ended [] [] (Raised e), w)
           | Inr _ \<Rightarrow> pages_loop fuel env s max_pages request None 0 w))"

definition items ::
  "nat \<Rightarrow> ('r, 'w) pager \<Rightarrow> ('r, 'i) pagination option \<Rightarrow> ('i \<Rightarrow> 'k) option \<Rightarrow> int option \<Rightarrow> int option \<Rightarrow>
     model_value \<Rightarrow> 'w \<Rightarrow> 'i iteration \<times> 'w" where
  "items fuel env strategy key max_pages max_items request w =
     (case strategy of
        None \<Rightarrow> (ended [] [] (Raised (PlanError (''pages() requires __pages__ on '' @ mv_class request))), w)
      | Some s \<Rightarrow>
          (case bindE (check_max_pages max_pages) (\<lambda>_. check_max_items max_items) of
             Inl e \<Rightarrow> (ended [] [] (Raised e), w)
           | Inr _ \<Rightarrow> items_loop fuel env s key max_pages max_items request None [] 0 0 w))"

text \<open>The generator is closed after its first element, so what would come next is not asked for.\<close>

definition first ::
  "nat \<Rightarrow> ('r, 'w) pager \<Rightarrow> ('r, 'i) pagination option \<Rightarrow> model_value \<Rightarrow> 'w \<Rightarrow> (sdk_error + 'i option) \<times> 'w" where
  "first fuel env strategy request w =
     (case items fuel env strategy (None :: ('i \<Rightarrow> nat) option) None (Some 1) request w of
        (it, w1) \<Rightarrow>
          (case it_yields it of
             x # _ \<Rightarrow> (Inr (Some x), w1)
           | [] \<Rightarrow> (case it_ending it of Raised e \<Rightarrow> (Inl e, w1) | _ \<Rightarrow> (Inr None, w1))))"


section \<open>The elements of a page\<close>

lemma take_items_counts:
  "take_items key max_items xs seen given fresh = (ys, s, g, f, stop) \<Longrightarrow>
   g = given + int (length ys) \<and> f = fresh + int (length ys) \<and> (stop \<longrightarrow> max_items = Some g) \<and>
   (\<forall>m. max_items = Some m \<and> given < m \<longrightarrow> g \<le> m \<and> (\<not> stop \<longrightarrow> g < m))"
proof (induction xs arbitrary: seen given fresh ys)
  case (Cons x xs)
  show ?case
  proof (cases "case key of Some f \<Rightarrow> f x \<in> set seen | None \<Rightarrow> False")
    case True
    then have rec: "take_items key max_items xs seen given fresh = (ys, s, g, f, stop)"
      using Cons.prems by simp
    from Cons.IH [OF rec] show ?thesis .
  next
    case fresh_x: False
    define seen' where "seen' = (case key of Some f \<Rightarrow> f x # seen | None \<Rightarrow> seen)"
    show ?thesis
    proof (cases "max_items = Some (given + 1)")
      case True
      then show ?thesis using Cons.prems fresh_x by auto
    next
      case False
      obtain ys' where ys': "take_items key max_items xs seen' (given + 1) (fresh + 1) = (ys', s, g, f, stop)"
          "ys = x # ys'"
        using Cons.prems fresh_x False by (auto simp: Let_def seen'_def split: prod.splits)
      from Cons.IH [OF ys'(1)] show ?thesis using False ys'(2) by auto
    qed
  qed
qed simp

lemma take_items_marks:
  "take_items (Some k) max_items xs seen given fresh = (ys, s, g, f, stop) \<Longrightarrow>
   distinct (map k ys) \<and> k ` set ys \<inter> set seen = {} \<and> set s = set seen \<union> k ` set ys \<and> set ys \<subseteq> set xs"
proof (induction xs arbitrary: seen given fresh ys)
  case (Cons x xs)
  show ?case
  proof (cases "k x \<in> set seen")
    case True
    then have rec: "take_items (Some k) max_items xs seen given fresh = (ys, s, g, f, stop)"
      using Cons.prems by simp
    from Cons.IH [OF rec] show ?thesis by auto
  next
    case fresh_x: False
    show ?thesis
    proof (cases "max_items = Some (given + 1)")
      case True
      then show ?thesis using Cons.prems fresh_x by auto
    next
      case False
      obtain ys' where ys': "take_items (Some k) max_items xs (k x # seen) (given + 1) (fresh + 1) = (ys', s, g, f, stop)"
          "ys = x # ys'"
        using Cons.prems fresh_x False by (auto simp: Let_def split: prod.splits)
      from Cons.IH [OF ys'(1)] show ?thesis using fresh_x ys'(2) by auto
    qed
  qed
qed simp

lemma next_page_fresh: "next_page absolute strategy request result fresh url = Inr (Some p) \<Longrightarrow> 0 < fresh"
  by (auto simp: next_page_def next_changes_def split: if_splits)

text \<open>How an iteration unfolds: the bound, a last page, or a page and the iteration after it.\<close>

lemma items_loop_cases:
  assumes "items_loop (Suc fuel) env strategy key max_pages max_items request url seen given sent w = (it, w')"
  obtains (bound) m where "max_pages = Some m" "m \<le> sent" "it = ended [] [] Finished"
    | (refused) e where "\<And>m. max_pages = Some m \<Longrightarrow> sent < m" "it = ended [] [(request, url)] (Raised e)"
    | (last) result ys seen' given' fresh stop e where "\<And>m. max_pages = Some m \<Longrightarrow> sent < m"
        "take_items key max_items (strategy_items strategy result) seen given 0 = (ys, seen', given', fresh, stop)"
        "it = ended ys [(request, url)] e" "e \<noteq> OutOfFuel"
    | (more) result page_url w1 ys seen' given' fresh request' url' rest w2 where
        "\<And>m. max_pages = Some m \<Longrightarrow> sent < m" "pg_send env request url w = (Inr (result, page_url), w1)"
        "take_items key max_items (strategy_items strategy result) seen given 0 = (ys, seen', given', fresh, False)"
        "next_page (pg_absolute env) strategy request result fresh page_url = Inr (Some (request', url'))"
        "items_loop fuel env strategy key max_pages max_items request' url' seen' given' (sent + 1) w1 = (rest, w2)"
        "it = resume ys (request, url) rest"
proof (cases "case max_pages of Some m \<Rightarrow> m \<le> sent | None \<Rightarrow> False")
  case True
  then show ?thesis using assms bound by (auto split: option.splits)
next
  case False
  then have lt: "sent < m" if "max_pages = Some m" for m using that by (auto split: option.splits)
  obtain x w1 where send: "pg_send env request url w = (x, w1)" by fastforce
  show ?thesis
  proof (cases x)
    case (Inl e)
    then show ?thesis using assms False send refused [OF lt] by auto
  next
    case (Inr p)
    obtain result page_url where p: "p = (result, page_url)" by fastforce
    obtain ys seen' given' fresh stop where
      t: "take_items key max_items (strategy_items strategy result) seen given 0 = (ys, seen', given', fresh, stop)"
      by (metis prod_cases5)
    note here = assms [unfolded items_loop.simps] 
    show ?thesis
    proof (cases stop)
      case True
      then show ?thesis using here False send Inr p t by (intro last [OF lt t, of Finished]) auto
    next
      case go: False
      show ?thesis
      proof (cases "next_page (pg_absolute env) strategy request result fresh page_url")
        case (Inl e)
        then show ?thesis using here False send Inr \<open>x = Inr p\<close> p t go
          by (intro last [OF lt t, of "Raised e"]) auto
      next
        case (Inr n)
        show ?thesis
        proof (cases n)
          case None
          then show ?thesis using here False send Inr \<open>x = Inr p\<close> p t go
            by (intro last [OF lt t, of Finished]) auto
        next
          case (Some ru)
          obtain request' url' where ru: "ru = (request', url')" by fastforce
          obtain rest w2 where r: "items_loop fuel env strategy key max_pages max_items request' url' seen' given'
              (sent + 1) w1 = (rest, w2)" by fastforce
          have send': "pg_send env request url w = (Inr (result, page_url), w1)"
            using send \<open>x = Inr p\<close> p by simp
          have t': "take_items key max_items (strategy_items strategy result) seen given 0 =
              (ys, seen', given', fresh, False)" using t go by simp
          have n': "next_page (pg_absolute env) strategy request result fresh page_url = Inr (Some (request', url'))"
            using Inr Some ru by simp
          show ?thesis
            by (rule more [OF lt send' t' n' r]) (use here False send' t' n' r in auto)
        qed
      qed
    qed
  qed
qed


section \<open>Bounds\<close>

lemma items_loop_bounds:
  "items_loop fuel env strategy key max_pages max_items request url seen given sent w = (it, w') \<Longrightarrow>
   (\<forall>k. key = Some k \<longrightarrow> distinct (map k (it_yields it)) \<and> k ` set (it_yields it) \<inter> set seen = {}) \<and>
   (\<forall>m. max_items = Some m \<and> given < m \<longrightarrow> given + int (length (it_yields it)) \<le> m) \<and>
   (\<forall>m. max_pages = Some m \<and> sent \<le> m \<longrightarrow> sent + int (length (it_sent it)) \<le> m)"
proof (induction fuel arbitrary: request url seen given sent w it w')
  case 0
  then show ?case by auto
next
  case (Suc fuel)
  from Suc.prems show ?case
  proof (cases rule: items_loop_cases)
    case (bound m)
    then show ?thesis by simp
  next
    case (refused e)
    then show ?thesis by (auto simp: zless_imp_add1_zle)
  next
    case (last result ys seen' given' fresh stop e)
    have marks: "distinct (map k ys) \<and> k ` set ys \<inter> set seen = {}" if "key = Some k" for k
      using take_items_marks [of k] last(2) that by blast
    note counts = take_items_counts [OF last(2)]
    show ?thesis using last(1,3) marks counts by (auto simp: zless_imp_add1_zle)
  next
    case (more result page_url w1 ys seen' given' fresh request' url' rest w2)
    note IH = Suc.IH [OF more(5)]
    note counts = take_items_counts [OF more(3)]
    have "distinct (map k (ys @ it_yields rest)) \<and> k ` set (ys @ it_yields rest) \<inter> set seen = {}"
      if "key = Some k" for k
    proof -
      note marks = take_items_marks [OF more(3) [unfolded that]]
      have "distinct (map k (it_yields rest))" "k ` set (it_yields rest) \<inter> set seen' = {}"
        using IH that by simp_all
      then show ?thesis using marks by auto
    qed
    moreover have "given + int (length (ys @ it_yields rest)) \<le> m" if "max_items = Some m" "given < m" for m
      using IH counts that by auto
    moreover have "sent + int (Suc (length (it_sent rest))) \<le> m" if "max_pages = Some m" for m
      using IH more(1) [OF that] that by force
    ultimately show ?thesis by (simp add: more(6) resume_def)
  qed
qed

text \<open>
  \<open>items()\<close> keeps its bounds: with \<open>key=\<close> no two elements carry the same mark, with \<open>max_items=\<close>
  no more elements are yielded, with \<open>max_pages=\<close> no more requests are sent.
\<close>

lemma items_bounded:
  assumes "items fuel env strategy key max_pages max_items request w = (it, w')"
  shows "(\<forall>k. key = Some k \<longrightarrow> distinct (map k (it_yields it))) \<and>
    (\<forall>m. max_items = Some m \<longrightarrow> length (it_yields it) \<le> nat m) \<and>
    (\<forall>m. max_pages = Some m \<longrightarrow> length (it_sent it) \<le> nat m)"
proof (cases "it = ended [] [] (it_ending it)")
  case True
  then have "it_yields it = []" "it_sent it = []" by (metis iteration.select_convs(1,2))+
  then show ?thesis by simp
next
  case False
  obtain s where s: "strategy = Some s"
    using assms False by (cases strategy) (auto simp: items_def)
  have checks: "check_max_pages max_pages = Inr ()" "check_max_items max_items = Inr ()"
    using assms False s
    by (cases "check_max_pages max_pages"; cases "check_max_items max_items"; auto simp: items_def)+
  have run: "items_loop fuel env s key max_pages max_items request None [] 0 0 w = (it, w')"
    using assms s checks by (simp add: items_def)
  have "1 \<le> m" if "max_items = Some m" for m
    using checks(2) that by (auto simp: check_max_items_def split: if_splits)
  moreover have "1 \<le> m" if "max_pages = Some m" for m
    using checks(1) that by (auto simp: check_max_pages_def split: if_splits)
  ultimately show ?thesis using items_loop_bounds [OF run] by (fastforce simp: le_nat_iff)
qed

section \<open>Termination\<close>

definition enough_fuel ::
  "nat \<Rightarrow> ('i \<Rightarrow> 'k) option \<Rightarrow> int option \<Rightarrow> int option \<Rightarrow> 'k list \<Rightarrow> 'k set \<Rightarrow> int \<Rightarrow> int \<Rightarrow> bool" where
  "enough_fuel fuel key max_pages max_items seen K given sent \<longleftrightarrow>
     (\<exists>m. max_pages = Some m \<and> m - sent < int fuel) \<or>
     (\<exists>m. max_items = Some m \<and> given < m \<and> m - given < int fuel) \<or>
     ((\<exists>k. key = Some k) \<and> finite K \<and> card (K - set seen) < fuel)"

lemma items_loop_terminates:
  assumes "\<And>k result. key = Some k \<Longrightarrow> k ` set (strategy_items strategy result) \<subseteq> K"
  shows "items_loop fuel env strategy key max_pages max_items request url seen given sent w = (it, w') \<Longrightarrow>
    enough_fuel fuel key max_pages max_items seen K given sent \<Longrightarrow>
    (\<forall>m. max_pages = Some m \<longrightarrow> sent \<le> m) \<Longrightarrow> it_ending it \<noteq> OutOfFuel"
proof (induction fuel arbitrary: request url seen given sent w it w')
  case 0
  then show ?case by (auto simp: enough_fuel_def)
next
  case (Suc fuel)
  from Suc.prems(1) show ?case
  proof (cases rule: items_loop_cases)
    case (more result page_url w1 ys seen' given' fresh request' url' rest w2)
    note counts = take_items_counts [OF more(3)]
    have "0 < fresh" using next_page_fresh [OF more(4)] .
    then have ys: "0 < length ys" using counts by simp
    have keys: "card (K - set seen') < card (K - set seen)" if "key = Some k" "finite K" for k
    proof (rule psubset_card_mono)
      note marks = take_items_marks [OF more(3) [unfolded that(1)]]
      have "set ys \<subseteq> set (strategy_items strategy result)" using marks by simp
      then have "k ` set ys \<subseteq> K"
        by (rule order_trans [OF image_mono]) (rule assms [OF that(1)])
      moreover obtain y where y: "y \<in> set ys" using ys by (cases ys) auto
      ultimately have "k y \<in> K - set seen" "k y \<in> set seen'" using marks by blast+
      moreover have "K - set seen' \<subseteq> K - set seen" using marks by auto
      ultimately show "K - set seen' \<subset> K - set seen" by blast
    qed (use that in simp)
    have "enough_fuel fuel key max_pages max_items seen' K given' (sent + 1)"
      using Suc.prems(2) unfolding enough_fuel_def
    proof (elim disjE exE conjE)
      fix m assume m: "max_items = Some m" "given < m" "m - given < int (Suc fuel)"
      have "given' = given + fresh" "given' < m" using counts m by auto
      moreover have "m - given' < int fuel" using calculation(1) \<open>0 < fresh\<close> m(3) by linarith
      ultimately show "(\<exists>m. max_pages = Some m \<and> m - (sent + 1) < int fuel) \<or>
          (\<exists>m. max_items = Some m \<and> given' < m \<and> m - given' < int fuel) \<or>
          (\<exists>k. key = Some k) \<and> finite K \<and> card (K - set seen') < fuel"
        using m(1) by auto
    next
      fix k assume "key = Some k" "finite K" "card (K - set seen) < Suc fuel"
      then show "(\<exists>m. max_pages = Some m \<and> m - (sent + 1) < int fuel) \<or>
          (\<exists>m. max_items = Some m \<and> given' < m \<and> m - given' < int fuel) \<or>
          (\<exists>k. key = Some k) \<and> finite K \<and> card (K - set seen') < fuel"
        using keys by fastforce
    qed auto
    moreover have "\<forall>m. max_pages = Some m \<longrightarrow> sent + 1 \<le> m" using more(1) by auto
    ultimately have "it_ending rest \<noteq> OutOfFuel" by (rule Suc.IH [OF more(5)])
    then show ?thesis by (simp add: more(6) resume_def)
  qed auto
qed

text \<open>
  C14. \<open>items()\<close> ends when one of its bounds is given: within \<open>max_pages\<close> requests, within one request
  more than \<open>max_items\<close>, or, with \<open>key=\<close>, within one request more than the server has distinct marks,
  even when the server answers every page number for ever.
\<close>

theorem items_terminates:
  assumes "max_pages = Some m \<and> nat m < fuel \<or> max_items = Some m \<and> nat m < fuel \<or>
      (\<exists>k. key = Some k \<and> finite K \<and> card K < fuel \<and>
         (\<forall>s result. strategy = Some s \<longrightarrow> k ` set (strategy_items s result) \<subseteq> K))"
  shows "it_ending (fst (items fuel env strategy key max_pages max_items request w)) \<noteq> OutOfFuel"
proof -
  obtain it w' where run: "items fuel env strategy key max_pages max_items request w = (it, w')" by fastforce
  show ?thesis
  proof (cases "strategy = None \<or> check_max_pages max_pages \<noteq> Inr () \<or> check_max_items max_items \<noteq> Inr ()")
    case True
    then show ?thesis
      by (cases strategy; cases "check_max_pages max_pages"; cases "check_max_items max_items")
        (auto simp: items_def)
  next
    case False
    then obtain s where s: "strategy = Some s" by auto
    have loop: "items_loop fuel env s key max_pages max_items request None [] 0 0 w = (it, w')"
      using run False s by (simp add: items_def)
    have pos: "max_items = Some x \<Longrightarrow> 0 < x" "max_pages = Some x \<Longrightarrow> 0 < x" for x
      using False by (auto simp: check_max_items_def check_max_pages_def split: if_splits)
    define K' where "K' = (if \<exists>k. key = Some k \<and> finite K \<and> card K < fuel \<and>
        (\<forall>s result. strategy = Some s \<longrightarrow> k ` set (strategy_items s result) \<subseteq> K) then K else UNIV)"
    have sub: "k ` set (strategy_items s result) \<subseteq> K'" if "key = Some k" for k result
      using that s by (auto simp: K'_def split: if_splits)
    have "enough_fuel fuel key max_pages max_items [] K' 0 0"
      using assms
    proof (elim disjE)
      assume "max_pages = Some m \<and> nat m < fuel"
      then show ?thesis using pos by (auto simp: enough_fuel_def)
    next
      assume "max_items = Some m \<and> nat m < fuel"
      then show ?thesis using pos by (auto simp: enough_fuel_def)
    next
      assume k: "\<exists>k. key = Some k \<and> finite K \<and> card K < fuel \<and>
         (\<forall>s result. strategy = Some s \<longrightarrow> k ` set (strategy_items s result) \<subseteq> K)"
      then show ?thesis by (auto simp: enough_fuel_def K'_def)
    qed
    moreover have "\<forall>m. max_pages = Some m \<longrightarrow> 0 \<le> m" using pos by force
    ultimately show ?thesis
      using items_loop_terminates [where K = K', OF sub loop] run by simp
  qed
qed

section \<open>No page is skipped\<close>

lemma evolve_one:
  "evolve r [(name, x)] = Inr r' \<Longrightarrow>
   get_attribute r' n = (if n = name then Inr x else get_attribute r n)"
  by (auto simp: evolve_def get_attribute_def split: if_splits list.splits)

lemma pages_loop_cases:
  assumes "pages_loop (Suc fuel) env strategy max_pages request url sent w = (it, w')"
  obtains (none) "it_sent it = []" | (one) "it_sent it = [(request, url)]"
    | (more) result page_url request' url' rest w1 w2 where
        "next_page (pg_absolute env) strategy request result (int (length (strategy_items strategy result))) page_url
           = Inr (Some (request', url'))"
        "pages_loop fuel env strategy max_pages request' url' (sent + 1) w1 = (rest, w2)"
        "it = resume [result] (request, url) rest"
proof (cases "case max_pages of Some m \<Rightarrow> m \<le> sent | None \<Rightarrow> False")
  case True
  then show ?thesis using assms none by auto
next
  case False
  obtain x w1 where send: "pg_send env request url w = (x, w1)" by fastforce
  show ?thesis
  proof (cases x)
    case (Inl e)
    then show ?thesis using assms False send one by auto
  next
    case (Inr p)
    obtain result page_url where p: "p = (result, page_url)" by fastforce
    show ?thesis
    proof (cases "next_page (pg_absolute env) strategy request result
        (int (length (strategy_items strategy result))) page_url")
      case (Inl e)
      then show ?thesis using assms False send \<open>x = Inr p\<close> p one by auto
    next
      case (Inr n)
      show ?thesis
      proof (cases n)
        case None
        then show ?thesis using assms False send \<open>x = Inr p\<close> p Inr one by auto
      next
        case (Some ru)
        obtain request' url' where ru: "ru = (request', url')" by fastforce
        obtain rest w2 where r: "pages_loop fuel env strategy max_pages request' url' (sent + 1) w1 = (rest, w2)"
          by fastforce
        have n: "next_page (pg_absolute env) strategy request result
            (int (length (strategy_items strategy result))) page_url = Inr (Some (request', url'))"
          using Inr Some ru by simp
        show ?thesis
          by (rule more [OF n r]) (use assms False send \<open>x = Inr p\<close> p n r in auto)
      qed
    qed
  qed
qed

lemma next_numbered_page:
  assumes "next_page absolute (NumberedPages c page its per tot) request result fresh url = Inr (Some (r', u'))"
    and "get_attribute request page = Inr (PInt p)"
  shows "get_attribute r' page = Inr (PInt (p + 1)) \<and> u' = None"
  using assms evolve_one
  by (auto simp: next_page_def next_changes_def next_numbered_def int_field_def bindE_Inr_iff
      split: if_splits option.splits)

lemma next_offset_page:
  assumes "next_page absolute (OffsetPages c off its per tot) request result fresh url = Inr (Some (r', u'))"
    and "get_attribute request off = Inr (PInt p)"
  shows "get_attribute r' off = Inr (PInt (p + int (length (its result)))) \<and> u' = None"
  using assms evolve_one
  by (auto simp: next_page_def next_changes_def next_offset_def int_field_def bindE_Inr_iff Let_def
      split: if_splits option.splits)

text \<open>
  Numbered pages are asked for one after the other from the page of the first request, and
  offset pages each from where the elements so far end: no page and no element is skipped or asked
  for twice, whatever page lengths the server chooses.
\<close>

lemma pages_consecutive:
  assumes "pages_loop fuel env strategy max_pages request None 0 w = (it, w')"
    and "strategy = NumberedPages c f its per tot \<or> strategy = OffsetPages c f its per tot"
    and "get_attribute request f = Inr (PInt p)" and "k < length (it_sent it)"
  shows "snd (it_sent it ! k) = None \<and> get_attribute (fst (it_sent it ! k)) f =
    Inr (PInt (case strategy of
        NumberedPages _ _ _ _ _ \<Rightarrow> p + int k
      | _ \<Rightarrow> p + int (sum_list (map (\<lambda>r. length (its r)) (take k (it_yields it))))))"
proof -
  define step where "step = (\<lambda>ys. case strategy of
      NumberedPages _ _ _ _ _ \<Rightarrow> int (length ys)
    | _ \<Rightarrow> int (sum_list (map (\<lambda>r. length (its r)) ys)))"
  have step_Cons: "step (y # ys) = step [y] + step ys" for y ys
    using assms(2) by (auto simp: step_def)
  have "pages_loop fuel env strategy max_pages request None sent w = (it, w1) \<Longrightarrow>
      get_attribute request f = Inr (PInt p) \<Longrightarrow> k < length (it_sent it) \<Longrightarrow>
      k \<le> length (it_yields it) \<and> snd (it_sent it ! k) = None \<and>
      get_attribute (fst (it_sent it ! k)) f = Inr (PInt (p + step (take k (it_yields it))))"
    for sent k w1
  proof (induction fuel arbitrary: request sent w it p k w1)
    case (Suc fuel)
    have start: "step [] = 0" using assms(2) by (auto simp: step_def)
    from Suc.prems(1) show ?case
    proof (cases rule: pages_loop_cases)
      case (more result page_url request' url' rest w2 w3)
      have one: "get_attribute request' f = Inr (PInt (p + step [result])) \<and> url' = None"
        using assms(2) more(1) Suc.prems(2) next_numbered_page next_offset_page
        by (elim disjE) (fastforce simp: step_def)+
      show ?thesis
      proof (cases k)
        case 0
        then show ?thesis using more(3) Suc.prems(2) start by (simp add: resume_def)
      next
        case (Suc j)
        have "j \<le> length (it_yields rest) \<and> snd (it_sent rest ! j) = None \<and> get_attribute (fst (it_sent rest ! j)) f =
            Inr (PInt (p + step [result] + step (take j (it_yields rest))))"
        proof (rule Suc.IH)
          show "pages_loop fuel env strategy max_pages request' None (sent + 1) w2 = (rest, w3)"
            using more(2) one by simp
          show "get_attribute request' f = Inr (PInt (p + step [result]))" using one by simp
          show "j < length (it_sent rest)" using Suc.prems(3) more(3) \<open>k = Suc j\<close> by (simp add: resume_def)
        qed
        then show ?thesis using more(3) Suc step_Cons [of result "take j (it_yields rest)"]
          by (simp add: resume_def add.assoc)
      qed
    qed (use Suc.prems start in auto)
  qed auto
  from this [OF assms(1,3,4)] assms(2,4) show ?thesis by (auto simp: step_def min_def)
qed


section \<open>The address of a request\<close>

text \<open>
  \<open>_addressed\<close>, \<open>_at_url\<close> and \<open>Url.allows\<close>. A declaration is what they read and replace of it; \<open>urlsplit\<close>
  gives scheme, network location and host name, \<open>fnmatchcase\<close> matches a host with a pattern.
\<close>

datatype location = PATH | QUERY | OtherLocation

record input_field =
  if_name :: string
  if_location :: location

record op_declaration =
  dc_operation :: string
  dc_path :: string
  dc_fields :: "input_field list"

record split_url =
  su_scheme :: string
  su_netloc :: string
  su_hostname :: "string option"

record url_library =
  ul_split :: "string \<Rightarrow> split_url"
  ul_fnmatch :: "string \<Rightarrow> string \<Rightarrow> bool"
  ul_lower :: "string \<Rightarrow> string"

definition url_allows :: "url_library \<Rightarrow> string list \<Rightarrow> string \<Rightarrow> bool" where
  "url_allows lib hosts url =
     (let s = ul_split lib url in
      if su_scheme s = [] \<and> su_netloc s = [] then True
      else if su_scheme s \<notin> {''http'', ''https''} then False
      else let host = ul_lower lib (case su_hostname s of Some h \<Rightarrow> h | None \<Rightarrow> []) in
        list_ex (\<lambda>pattern. ul_fnmatch lib host (ul_lower lib pattern)) hosts)"

definition at_url :: "op_declaration \<Rightarrow> (string, pyval) dict \<Rightarrow> string \<Rightarrow> op_declaration \<times> (string, pyval) dict" where
  "at_url d values url =
     (let fields = filter (\<lambda>f. if_location f \<notin> {PATH, QUERY}) (dc_fields d);
          kept = fold (\<lambda>f kept. case map_of values (if_name f) of
              Some v \<Rightarrow> AList.update (if_name f) v kept | None \<Rightarrow> kept) fields []
      in (d\<lparr>dc_path := url, dc_fields := fields\<rparr>, kept))"

definition addressed ::
  "url_library \<Rightarrow> string list option \<Rightarrow> op_declaration \<Rightarrow> (string, pyval) dict \<Rightarrow>
     sdk_error + op_declaration \<times> (string, pyval) dict" where
  "addressed lib address d values =
     (case address of
        None \<Rightarrow> Inr (d, values)
      | Some hosts \<Rightarrow>
          (case map_of values ''url'' of
             Some (PStr url) \<Rightarrow>
               if url = [] then Inl (PlanError (''operation '' @ py_repr (dc_operation d) @ '': url is a non-empty string''))
               else if \<not> url_allows lib hosts url
                 then Inl (PlanError (''operation '' @ py_repr (dc_operation d) @ '': the address points to '' @
                   (if su_netloc (ul_split lib url) = [] then py_repr url else su_netloc (ul_split lib url)) @
                   '', and Url(hosts=...) lists only '' @ join '', '' hosts))
               else Inr (d\<lparr>dc_path := url, dc_fields := filter (\<lambda>f. if_name f \<noteq> ''url'') (dc_fields d)\<rparr>,
                         filter (\<lambda>p. fst p \<noteq> ''url'') values)
           | _ \<Rightarrow> Inl (PlanError (''operation '' @ py_repr (dc_operation d) @ '': url is a non-empty string''))))"

text \<open>
  An operation whose address the caller gives sends nothing but relative links and http links
  to a host it lists; the link becomes the path and leaves the values, and the other values stay.
\<close>

lemma addressed_only_listed:
  assumes "addressed lib (Some hosts) d values = Inr (d', values')"
  shows "\<exists>url. map_of values ''url'' = Some (PStr url) \<and> dc_path d' = url \<and> url \<noteq> [] \<and>
    (su_scheme (ul_split lib url) = [] \<and> su_netloc (ul_split lib url) = [] \<or>
     su_scheme (ul_split lib url) \<in> {''http'', ''https''} \<and>
     (\<exists>pattern \<in> set hosts. ul_fnmatch lib
        (ul_lower lib (case su_hostname (ul_split lib url) of Some h \<Rightarrow> h | None \<Rightarrow> [])) (ul_lower lib pattern))) \<and>
    map_of values' = (map_of values)(''url'' := None)"
proof -
  obtain url where u: "map_of values ''url'' = Some (PStr url)" "url \<noteq> []" "url_allows lib hosts url"
      "d' = d\<lparr>dc_path := url, dc_fields := filter (\<lambda>f. if_name f \<noteq> ''url'') (dc_fields d)\<rparr>"
      "values' = filter (\<lambda>p. fst p \<noteq> ''url'') values"
    using assms by (auto simp: addressed_def split: option.splits pyval.splits if_splits)
  have "map_of (filter (\<lambda>p. fst p \<noteq> ''url'') values) = (map_of values)(''url'' := None)"
    by (induction "values") (auto simp: fun_eq_iff)
  then show ?thesis
    using u by (auto simp: url_allows_def Let_def list_ex_iff split: if_splits)
qed

text \<open>
  A page reached by a link is addressed to it as it is: the hosts an operation lists are not asked
  for the pages after the first.
\<close>

lemma link_pages_skip_hosts:
  "dc_path (fst (at_url d values url)) = url"
  by (simp add: at_url_def Let_def)

section \<open>Elements and pages\<close>

definition page_items :: "('r \<Rightarrow> 'i list) \<Rightarrow> 'r iteration \<Rightarrow> 'i iteration" where
  "page_items f it = \<lparr>it_yields = concat (map f (it_yields it)), it_sent = it_sent it, it_ending = it_ending it\<rparr>"

lemma take_items_plain:
  "take_items None None xs seen given fresh =
     (xs, seen, given + int (length xs), fresh + int (length xs), False)"
  by (induction xs arbitrary: given fresh) auto

lemma items_loop_of_pages:
  "items_loop fuel env strategy None max_pages None request url seen given sent w =
     map_prod (page_items (strategy_items strategy)) id (pages_loop fuel env strategy max_pages request url sent w)"
proof (induction fuel arbitrary: request url given sent w)
  case (Suc fuel)
  show ?case
  proof (cases "case max_pages of Some m \<Rightarrow> m \<le> sent | None \<Rightarrow> False")
    case False
    obtain answer w1 where "pg_send env request url w = (answer, w1)" by (meson surj_pair)
    then show ?thesis
      using False by (cases answer)
        (auto simp: take_items_plain Suc.IH page_items_def resume_def map_prod_def split: sum.split prod.split option.split)
  qed (simp add: page_items_def)
qed (simp add: page_items_def)

text \<open>
  C15. Without a key and a bound of elements, the elements are those of the pages one after another:
  the same requests in the same order, the same ending and the same state of the server.
\<close>

theorem items_flatten_pages:
  "items fuel env (Some strategy) (None :: ('i \<Rightarrow> 'k) option) max_pages None request w =
     map_prod (page_items (strategy_items strategy)) id (pages fuel env (Some strategy) max_pages request w)"
  by (simp add: items_def pages_def check_max_items_def items_loop_of_pages page_items_def split: sum.splits)

section \<open>Witnesses\<close>

text \<open>A server that answers every page with the same two elements.\<close>

definition endless :: "(int list, unit) pager" where
  "endless = \<lparr>pg_send = (\<lambda>request url w. (Inr ([1, 2], ''http://a/''), w)), pg_absolute = (\<lambda>link url. link)\<rparr>"

definition endless_pages :: "(int list, int) pagination" where
  "endless_pages = NumberedPages \<lparr>rc_id = 0, rc_name = ''Page''\<rparr> ''page'' (\<lambda>r. filter (\<lambda>x. x \<in> {1, 2}) r) None None"

definition list_orders :: model_value where
  "list_orders = \<lparr>mv_class = ''ListOrders'', mv_fields = [(''page'', PInt 1)]\<rparr>"

lemmas paging_eval = endless_def endless_pages_def list_orders_def items_def check_max_pages_def check_max_items_def
  next_page_def next_changes_def next_numbered_def int_field_def declared_int_def get_attribute_def evolve_def
  resume_def pages_def

lemma items_bounded_witness:
  "length (it_yields (fst (items 5 endless (Some endless_pages) (None :: (int \<Rightarrow> int) option) None (Some 3) list_orders ()))) \<le> 3"
proof -
  obtain it w where run: "items 5 endless (Some endless_pages) (None :: (int \<Rightarrow> int) option) None (Some 3) list_orders () = (it, w)"
    by (meson surj_pair)
  show ?thesis using items_bounded [OF run] run by simp
qed

lemma items_terminates_witness:
  "it_ending (fst (items 3 endless (Some endless_pages) (Some (\<lambda>x. x)) None None list_orders ())) \<noteq> OutOfFuel"
proof -
  have "card {1 :: int, 2} < 3" by simp
  moreover have "(\<lambda>x. x) ` set (strategy_items endless_pages result) \<subseteq> {1, 2}" for result
    by (auto simp: endless_pages_def)
  ultimately show ?thesis
    using items_terminates [of None 0 3 None "Some (\<lambda>x. x)" "{1, 2}" "Some endless_pages" endless list_orders "()"]
    by simp
qed

lemma pages_consecutive_witness:
  "get_attribute (fst (it_sent (fst (pages_loop 3 endless endless_pages (Some 2) list_orders None 0 ())) ! 1)) ''page'' =
     Inr (PInt 2)"
proof -
  obtain it w where run: "pages_loop 3 endless endless_pages (Some 2) list_orders None 0 () = (it, w)" by (meson surj_pair)
  have "length (it_sent (fst (pages_loop 3 endless endless_pages (Some 2) list_orders None 0 ()))) = 2"
    by (simp add: paging_eval numeral_3_eq_3)
  then have len: "1 < length (it_sent it)" using run by simp
  have "get_attribute list_orders ''page'' = Inr (PInt 1)" by (simp add: paging_eval)
  from pages_consecutive [OF run _ this len] show ?thesis
    using run by (simp add: endless_pages_def)
qed

definition plain_urls :: url_library where
  "plain_urls = \<lparr>ul_split = (\<lambda>u. \<lparr>su_scheme = ''https'', su_netloc = u, su_hostname = Some u\<rparr>),
     ul_fnmatch = (=), ul_lower = (\<lambda>s. s)\<rparr>"

lemma addressed_only_listed_witness:
  "\<exists>url. map_of [(''url'', PStr ''files.example'')] ''url'' = Some (PStr url)"
proof -
  have "addressed plain_urls (Some [''files.example'']) \<lparr>dc_operation = ''get'', dc_path = [], dc_fields = []\<rparr>
      [(''url'', PStr ''files.example'')] =
    Inr (\<lparr>dc_operation = ''get'', dc_path = ''files.example'', dc_fields = []\<rparr>, [])"
    by (simp add: addressed_def url_allows_def plain_urls_def Let_def)
  from addressed_only_listed [OF this] show ?thesis by blast
qed

end
