(* ===== verification/Documents.thy ===== *)
theory Documents
  imports Kernel
begin

text \<open>
  Documents: the JSON structure a request body is before it becomes bytes. Here are the two writers
  that put a value at a path of it (\<open>_write_private_wire_value\<close> of \<open>clients/_decisions.py\<close>,
  \<open>_insert_json_output\<close> of \<open>request/signatures.py\<close>), the checks of \<open>compile/http_compiler.py\<close> that keep
  writers apart, the stages that build the body document, JSON pointers as three modules read them,
  and the frozen form a signature reads.

  A document is a \<open>pyval\<close>; \<open>copy.deepcopy\<close> is the identity on values. A writer that raises leaves no
  document behind, so what it had written before does not show.
\<close>

section \<open>Reading a path\<close>

text \<open>What stands at a path through objects; \<open>_wire_path_present\<close> asks whether anything does.\<close>

fun doc_at :: "pyval \<Rightarrow> string list \<Rightarrow> pyval option" where
  "doc_at v [] = Some v"
| "doc_at (PDict d) (c # cs) = (case map_of d c of None \<Rightarrow> None | Some v \<Rightarrow> doc_at v cs)"
| "doc_at _ (c # cs) = None"

fun wire_path_present :: "pyval \<Rightarrow> string list \<Rightarrow> bool" where
  "wire_path_present v [] = True"
| "wire_path_present (PDict d) (c # cs) =
     (case map_of d c of None \<Rightarrow> False | Some v \<Rightarrow> wire_path_present v cs)"
| "wire_path_present _ (c # cs) = False"

abbreviation dotted :: "string list \<Rightarrow> string" where
  "dotted \<equiv> join ''.''"

section \<open>Writing at a path\<close>

text \<open>
  \<open>_write_private_wire_value\<close>: objects on the way are entered or made, an occupied end is refused.
  \<open>path[-1]\<close> of an empty path raises \<open>IndexError\<close>.
\<close>

fun write_nested :: "string list \<Rightarrow> (string, pyval) dict \<Rightarrow> string list \<Rightarrow> pyval \<Rightarrow>
    sdk_error + (string, pyval) dict" where
  "write_nested wire d [] x = Inl (PyError ''IndexError'')"
| "write_nested wire d [c] x =
     (if c \<in> set (keys d)
      then Inl (WriterConflictError (''body projection and private wire writer collide at '' @ py_repr (dotted wire)))
      else Inr (AList.update c x d))"
| "write_nested wire d (c # c' # cs) x =
     bindE (case map_of d c of
              None \<Rightarrow> write_nested wire [] (c' # cs) x
            | Some PNone \<Rightarrow> write_nested wire [] (c' # cs) x
            | Some (PDict n) \<Rightarrow> write_nested wire n (c' # cs) x
            | Some _ \<Rightarrow> Inl (WriterConflictError
                (''private wire writer cannot traverse occupied path '' @ py_repr (dotted wire))))
       (\<lambda>n. Inr (AList.update c (PDict n) d))"

definition write_private_wire_value ::
  "(string, pyval) dict \<Rightarrow> string list \<Rightarrow> pyval \<Rightarrow> string list \<Rightarrow> sdk_error + (string, pyval) dict" where
  "write_private_wire_value d path x wire =
     (if wire \<noteq> path \<and> wire_path_present (PDict d) wire
      then Inl (WriterConflictError (''body projection and private wire writer collide at '' @ py_repr (dotted wire)))
      else write_nested wire d path x)"

text \<open>\<open>_insert_json_output\<close>: the same walk, and the new member takes the position asked for.\<close>

definition insert_member :: "string list \<Rightarrow> (string, pyval) dict \<Rightarrow> string \<Rightarrow> pyval \<Rightarrow> int option \<Rightarrow>
    sdk_error + (string, pyval) dict" where
  "insert_member path d c x position =
     (if c \<in> set (keys d)
      then Inl (WriterConflictError (''JSON signature output target is already occupied: '' @ dotted path))
      else let i = (case position of None \<Rightarrow> int (length d) | Some p \<Rightarrow> p) in
        if i < 0 \<or> int (length d) < i then Inl (PlanError ''reserved output position is out of range'')
        else Inr (take (nat i) d @ (c, x) # drop (nat i) d))"

fun insert_nested :: "string list \<Rightarrow> (string, pyval) dict \<Rightarrow> string list \<Rightarrow> pyval \<Rightarrow> int option \<Rightarrow>
    sdk_error + (string, pyval) dict" where
  "insert_nested path d [] x position = Inl (PyError ''IndexError'')"
| "insert_nested path d [c] x position = insert_member path d c x position"
| "insert_nested path d (c # c' # cs) x position =
     bindE (case map_of d c of
              None \<Rightarrow> insert_nested path [] (c' # cs) x position
            | Some PNone \<Rightarrow> insert_nested path [] (c' # cs) x position
            | Some (PDict n) \<Rightarrow> insert_nested path n (c' # cs) x position
            | Some _ \<Rightarrow> Inl (PlanError (''JSON signature output cannot traverse '' @ py_repr (dotted path))))
       (\<lambda>n. Inr (AList.update c (PDict n) d))"

definition insert_json_output ::
  "(string, pyval) dict \<Rightarrow> string list \<Rightarrow> string \<Rightarrow> int option \<Rightarrow> sdk_error + (string, pyval) dict" where
  "insert_json_output d path x position = insert_nested path d path (PStr x) position"

section \<open>Keeping writers apart\<close>

text \<open>The comparison all four checks make: equal up to the shorter one.\<close>

definition paths_meet :: "string list \<Rightarrow> string list \<Rightarrow> bool" where
  "paths_meet a b \<longleftrightarrow> (let common = min (length a) (length b) in take common a = take common b)"

fun validate_overlapping_paths :: "string \<Rightarrow> string list list \<Rightarrow> sdk_error + unit" where
  "validate_overlapping_paths owner [] = Inr ()"
| "validate_overlapping_paths owner (p # ps) =
     (case find (paths_meet p) ps of
        Some q \<Rightarrow> Inl (PlanError (owner @ '' paths overlap: '' @ dotted p @ '' and '' @ dotted q))
      | None \<Rightarrow> validate_overlapping_paths owner ps)"

fun validate_body_writer_paths :: "string list list \<Rightarrow> string list list \<Rightarrow> sdk_error + unit" where
  "validate_body_writer_paths [] signature_paths = Inr ()"
| "validate_body_writer_paths (p # ps) signature_paths =
     (case find (paths_meet p) signature_paths of
        Some q \<Rightarrow> Inl (PlanError (''private wire and body signature writers overlap: '' @ dotted p @ '' and '' @ dotted q))
      | None \<Rightarrow> validate_body_writer_paths ps signature_paths)"

fun validate_managed_paths :: "string list list \<Rightarrow> string list list \<Rightarrow> sdk_error + unit" where
  "validate_managed_paths occupied [] = Inr ()"
| "validate_managed_paths occupied (p # ps) =
     (case find (paths_meet p) (ps @ occupied) of
        Some q \<Rightarrow> Inl (PlanError (''private managed writer path conflicts with another writer: '' @
                    dotted p @ '' and '' @ dotted q))
      | None \<Rightarrow> validate_managed_paths occupied ps)"

definition validate_managed_body_writer_paths ::
  "string list list \<Rightarrow> string list list \<Rightarrow> string list list \<Rightarrow> string list \<Rightarrow> sdk_error + unit" where
  "validate_managed_body_writer_paths managed mandatory signature_paths public =
     validate_managed_paths (mandatory @ signature_paths @ map (\<lambda>name. [name]) public) managed"

section \<open>The body document of an attempt\<close>

record private_wire_writer =
  pw_path :: "string list"
  pw_validation_path :: "string list"
  pw_requirement :: nat
  pw_result_field :: string

record private_body_writer =
  pb_path :: "string list"
  pb_slot :: value_slot

text \<open>
  What a compiled contract says of its body. An object of type \<open>'o\<close> is a value of the model
  library; \<open>co_dump\<close> and \<open>co_load\<close> are \<open>ModelAdapterRegistry.dump\<close> and \<open>load\<close> with the projection's
  target and mode. The source of a projection is built by \<open>co_construct\<close> from the slots that have a
  value (the operation class, or the dictionary itself), \<open>co_using\<close> is the declared projection on it.
\<close>

record ('s, 'o) compiled_body =
  co_operation :: string
  co_projection_name :: string
  co_source_slots :: "(string, value_slot) dict"
  co_construct :: "(string, pyval) dict \<Rightarrow> sdk_error + 's"
  co_using :: "'s \<Rightarrow> sdk_error + 'o"
  co_dump :: "'o \<Rightarrow> sdk_error + pyval"
  co_load :: "'o + pyval \<Rightarrow> sdk_error + 'o"
  co_dump_slot :: "pyval \<Rightarrow> sdk_error + pyval"
  co_wire_writers :: "private_wire_writer list"
  co_body_writers :: "private_body_writer list"
  co_signature_paths :: "string list list"
  co_body_slot :: "value_slot option"
  co_body_fields :: "(string, value_slot) dict"
  co_projected :: bool

text \<open>\<open>_select_protection_field\<close>; \<open>attr\<close> is \<open>getattr\<close> on a result that is no mapping.\<close>

definition select_protection_field :: "(pyval \<Rightarrow> string \<Rightarrow> pyval option) \<Rightarrow> pyval \<Rightarrow> string \<Rightarrow> sdk_error + pyval" where
  "select_protection_field attr result name =
     (case (case result of PDict d \<Rightarrow> map_of d name | _ \<Rightarrow> attr result name) of
        Some x \<Rightarrow> Inr x
      | None \<Rightarrow> Inl (PyTypeError (''protection result field is missing: '' @ name)))"

definition select_writer_value ::
  "(pyval \<Rightarrow> string \<Rightarrow> pyval option) \<Rightarrow> (nat, pyval) dict \<Rightarrow> private_wire_writer \<Rightarrow>
     sdk_error + private_wire_writer \<times> pyval" where
  "select_writer_value attr private_values w =
     (case map_of private_values (pw_requirement w) of
        None \<Rightarrow> Inl (PyError ''KeyError'')
      | Some result \<Rightarrow> bindE (select_protection_field attr result (pw_result_field w)) (\<lambda>x. Inr (w, x)))"

definition write_body_value :: "op_values \<Rightarrow> (string, pyval) dict \<Rightarrow> private_body_writer \<Rightarrow>
    sdk_error + (string, pyval) dict" where
  "write_body_value ov d w =
     bindE (contains_slot ov (pb_slot w)) (\<lambda>present.
       if present
       then bindE (require_slot ov (pb_slot w)) (\<lambda>x. write_private_wire_value d (pb_path w) x (pb_path w))
       else Inr d)"

text \<open>The \<open>try\<close> block of \<open>_project_body\<close> from the projected value on.\<close>

definition private_document ::
  "(pyval \<Rightarrow> string \<Rightarrow> pyval option) \<Rightarrow> ('s, 'o) compiled_body \<Rightarrow> op_values \<Rightarrow> (nat, pyval) dict \<Rightarrow> 'o \<Rightarrow>
     sdk_error + (string, pyval) dict" where
  "private_document attr co ov private_values projected =
     bindE (co_dump co projected) (\<lambda>document.
       case document of
         PDict d \<Rightarrow>
           bindE (mapE (select_writer_value attr private_values) (co_wire_writers co)) (\<lambda>selected.
             bindE (foldE (\<lambda>d (w, x). write_private_wire_value d (pw_validation_path w) x (pw_path w)) d selected)
               (\<lambda>d1. foldE (write_body_value ov) d1 (co_body_writers co)))
       | _ \<Rightarrow> Inl (PyError ''projected target must produce an object document''))"

definition projected_document ::
  "(pyval \<Rightarrow> string \<Rightarrow> pyval option) \<Rightarrow> ('s, 'o) compiled_body \<Rightarrow> op_values \<Rightarrow> (nat, pyval) dict \<Rightarrow> 'o \<Rightarrow>
     sdk_error + pyval" where
  "projected_document attr co ov private_values projected =
     bindE (if co_wire_writers co \<noteq> [] \<or> co_body_writers co \<noteq> []
            then bindE (private_document attr co ov private_values projected) (\<lambda>d. Inr (Inr (PDict d)))
            else Inr (Inl projected)) (\<lambda>input.
       bindE (co_load co input) (\<lambda>validated.
         bindE (co_dump co validated) (\<lambda>document.
           case find (\<lambda>path. (case document of PDict d \<Rightarrow> wire_path_present document path | _ \<Rightarrow> False))
                  (co_signature_paths co) of
             Some path \<Rightarrow> Inl (WriterConflictError
               (''body projection and signature output collide at '' @ py_repr (dotted path)))
           | None \<Rightarrow> Inr document)))"

text \<open>\<open>{name: values.require(slot) for ... if values.contains(slot)}\<close>.\<close>

definition flat_field :: "op_values \<Rightarrow> string \<times> value_slot \<Rightarrow> sdk_error + (string \<times> pyval) list" where
  "flat_field ov f =
     bindE (contains_slot ov (snd f)) (\<lambda>present.
       if present then bindE (require_slot ov (snd f)) (\<lambda>x. Inr [(fst f, x)]) else Inr [])"

definition slot_fields :: "op_values \<Rightarrow> (string, value_slot) dict \<Rightarrow> sdk_error + (string, pyval) dict" where
  "slot_fields ov slots = bindE (mapE (flat_field ov) slots) (\<lambda>fs. Inr (concat fs))"

text \<open>
  \<open>_project_body\<close>: an error while the source is built passes as it is, a conflict of writers
  keeps its error, any other failure is a projection error. The
  field a projection error names is read off the validator's message and is left out here.
\<close>

definition project_body ::
  "(pyval \<Rightarrow> string \<Rightarrow> pyval option) \<Rightarrow> ('s, 'o) compiled_body \<Rightarrow> op_values \<Rightarrow> (nat, pyval) dict \<Rightarrow> sdk_error + pyval" where
  "project_body attr co ov private_values =
     bindE (bindE (slot_fields ov (co_source_slots co)) (co_construct co)) (\<lambda>source.
       case co_using co source of
        Inl e \<Rightarrow> Inl (OperationBindingError ''projection_failed'' (co_operation co) None ProjectionPhase
          (''body projection '' @ py_repr (co_projection_name co) @ '' failed''))
      | Inr projected \<Rightarrow>
          (case projected_document attr co ov private_values projected of
             Inl (WriterConflictError m) \<Rightarrow> Inl (WriterConflictError m)
           | Inl e \<Rightarrow> Inl (OperationBindingError ''projection_target_invalid'' (co_operation co) None ProjectionPhase
               (''body projection '' @ py_repr (co_projection_name co) @ '' target validation failed''))
           | Inr document \<Rightarrow> Inr document))"

text \<open>\<open>_managed_body_document\<close>: the flat fields that have a value, then the managed writers.\<close>

definition managed_body_document :: "('s, 'o) compiled_body \<Rightarrow> op_values \<Rightarrow> sdk_error + pyval" where
  "managed_body_document co ov =
     bindE (case co_body_slot co of
              Some s \<Rightarrow> bindE (require_slot ov s) (co_dump_slot co)
            | None \<Rightarrow> bindE (slot_fields ov (co_body_fields co)) (\<lambda>fs. Inr (PDict fs)))
       (\<lambda>document. case document of
          PDict d \<Rightarrow> bindE (foldE (write_body_value ov) d (co_body_writers co)) (\<lambda>d1. Inr (PDict d1))
        | _ \<Rightarrow> Inl (OperationBindingError ''private_body_invalid'' (co_operation co) None ProjectionPhase
            ''managed private body bindings require an object document''))"

text \<open>\<open>build_request_document\<close>; \<open>None\<close> is the marker that no document overrides the body.\<close>

definition build_request_document ::
  "(pyval \<Rightarrow> string \<Rightarrow> pyval option) \<Rightarrow> ('s, 'o) compiled_body \<Rightarrow> op_values \<Rightarrow> (nat, pyval) dict \<Rightarrow>
     sdk_error + pyval option" where
  "build_request_document attr co ov private_values =
     (if co_projected co then map_sum id Some (project_body attr co ov private_values)
      else if co_body_writers co \<noteq> [] then map_sum id Some (managed_body_document co ov)
      else Inr None)"


section \<open>JSON pointers\<close>

text \<open>\<open>token.replace("~1", "/").replace("~0", "~")\<close>: two passes, each from left to right.\<close>

fun replace_pair :: "char \<Rightarrow> char \<Rightarrow> char \<Rightarrow> string \<Rightarrow> string" where
  "replace_pair a b r (x # y # rest) =
     (if x = a \<and> y = b then r # replace_pair a b r rest else x # replace_pair a b r (y # rest))"
| "replace_pair a b r s = s"

definition unescape :: "string \<Rightarrow> string" where
  "unescape t = replace_pair (CHR ''~'') (CHR ''0'') (CHR ''~'') (replace_pair (CHR ''~'') (CHR ''1'') (CHR ''/'') t)"

definition is_decimal :: "char \<Rightarrow> bool" where
  "is_decimal c \<longleftrightarrow> (of_char c :: nat) \<in> {48 .. 57}"

text \<open>\<open>str.isdigit\<close> on one-byte code points: the superscripts pass it, and \<open>int()\<close> refuses them.\<close>

definition is_str_digit :: "char \<Rightarrow> bool" where
  "is_str_digit c \<longleftrightarrow> is_decimal c \<or> c \<in> {CHR 0xB2, CHR 0xB3, CHR 0xB9}"

definition decimal_value :: "string \<Rightarrow> nat" where
  "decimal_value = foldl (\<lambda>n c. 10 * n + (of_char c - 48)) 0"

text \<open>
  \<open>int(text)\<close> on ASCII: white space around, one sign, digits with single underscores between them.
  CPython's limit of 4300 digits, past which \<open>int()\<close> raises \<open>ValueError\<close>, is left out of the indices of
  pointers: an index that long names no item of a list that fits into memory.
\<close>

fun digit_groups :: "string \<Rightarrow> string option" where
  "digit_groups [] = None"
| "digit_groups [c] = (if is_decimal c then Some [c] else None)"
| "digit_groups (c # d # cs) =
     (if \<not> is_decimal c then None
      else if d = CHR ''_'' then map_option (Cons c) (digit_groups cs)
      else map_option (Cons c) (digit_groups (d # cs)))"

definition int_of_text :: "string \<Rightarrow> int option" where
  "int_of_text text =
     (let t = strip text in
      if t \<noteq> [] \<and> hd t = CHR ''-'' then map_option (\<lambda>n. - int (decimal_value n)) (digit_groups (tl t))
      else if t \<noteq> [] \<and> hd t = CHR ''+'' then map_option (\<lambda>n. int (decimal_value n)) (digit_groups (tl t))
      else map_option (\<lambda>n. int (decimal_value n)) (digit_groups t))"

text \<open>
  \<open>resolve_json_pointer\<close> of \<open>response/cases.py\<close>: every leading slash is dropped, an index is digits. A
  tuple never stands in a parsed JSON document; both sequences behave alike.
\<close>

definition missing_pointer :: "string \<Rightarrow> sdk_error" where
  "missing_pointer pointer = PyError (''KeyError: '' @ pointer @ '' is not in the response document'')"

definition resolve_step :: "string \<Rightarrow> pyval \<Rightarrow> string \<Rightarrow> sdk_error + pyval" where
  "resolve_step pointer v token =
     (let step = unescape token in
      case v of
        PDict d \<Rightarrow> (case map_of d step of None \<Rightarrow> Inl (missing_pointer pointer) | Some x \<Rightarrow> Inr x)
      | _ \<Rightarrow>
          (case seq_items v of
             None \<Rightarrow> Inl (missing_pointer pointer)
           | Some xs \<Rightarrow>
               if step = [] \<or> \<not> list_all is_str_digit step then Inl (missing_pointer pointer)
               else if \<not> list_all is_decimal step
               then Inl (PyValueError (''invalid literal for int() with base 10: '' @ py_repr step))
               else if length xs \<le> decimal_value step then Inl (missing_pointer pointer)
               else Inr (xs ! decimal_value step)))"

definition resolve_json_pointer :: "pyval \<Rightarrow> string \<Rightarrow> sdk_error + pyval" where
  "resolve_json_pointer document pointer =
     (if pointer = [] then Inr document
      else foldE (resolve_step pointer) document (split_on (CHR ''/'') (lstrip_if (\<lambda>c. c = CHR ''/'') pointer)))"

text \<open>
  \<open>_json_pointer\<close> of \<open>request/signatures.py\<close>: an index is whatever \<open>int()\<close> reads, a negative one counts
  from the end.
\<close>

definition list_item :: "pyval list \<Rightarrow> int \<Rightarrow> pyval option" where
  "list_item xs i =
     (if 0 \<le> i \<and> i < int (length xs) then Some (xs ! nat i)
      else if i < 0 \<and> - int (length xs) \<le> i then Some (xs ! nat (int (length xs) + i))
      else None)"

definition pointer_step :: "string \<Rightarrow> pyval \<Rightarrow> string \<Rightarrow> sdk_error + pyval" where
  "pointer_step pointer v part =
     (case (case v of
              PDict d \<Rightarrow> map_of d (unescape part)
            | PList xs \<Rightarrow> Option.bind (int_of_text (unescape part)) (list_item xs)
            | _ \<Rightarrow> None) of
        Some x \<Rightarrow> Inr x
      | None \<Rightarrow> Inl (PlanError (''JSON pointer is missing: '' @ py_repr pointer)))"

definition json_pointer :: "pyval \<Rightarrow> string \<Rightarrow> sdk_error + pyval" where
  "json_pointer v pointer =
     (case pointer of
        [] \<Rightarrow> Inr v
      | c # rest \<Rightarrow>
          if c = CHR ''/'' then foldE (pointer_step pointer) v (split_on (CHR ''/'') rest)
          else Inl (PlanError (''invalid JSON pointer: '' @ py_repr pointer)))"

text \<open>\<open>_pointer_tokens\<close> of \<open>compile/http_compiler.py\<close> and \<open>_body_output_path\<close> of \<open>request/signatures.py\<close>.\<close>

definition pointer_tokens :: "string \<Rightarrow> sdk_error + string list" where
  "pointer_tokens pointer =
     (case pointer of
        CHR ''/'' # c # rest \<Rightarrow> Inr (map unescape (split_on (CHR ''/'') (c # rest)))
      | _ \<Rightarrow> Inl (PlanError (''signature pointer '' @ py_repr pointer @ '' must select a body field'')))"

fun bad_escape :: "string \<Rightarrow> bool" where
  "bad_escape [] = False"
| "bad_escape [c] = (c = CHR ''~'')"
| "bad_escape (c # d # cs) = (c = CHR ''~'' \<and> d \<noteq> CHR ''0'' \<and> d \<noteq> CHR ''1'' \<or> bad_escape (d # cs))"

definition body_output_path :: "string \<Rightarrow> string option \<Rightarrow> sdk_error + string list" where
  "body_output_path name pointer =
     (case pointer of
        None \<Rightarrow> Inr [name]
      | Some (CHR ''/'' # c # rest) \<Rightarrow>
          (let raw = split_on (CHR ''/'') (c # rest) in
           if list_ex bad_escape raw
           then Inl (PyValueError ''body signature json_pointer contains invalid escaping'')
           else if [] \<in> set (map unescape raw)
           then Inl (PyValueError ''body signature json_pointer components must not be empty'')
           else Inr (map unescape raw))
      | Some _ \<Rightarrow> Inl (PyValueError ''body signature json_pointer must select a non-root object field''))"

section \<open>The frozen form of a document\<close>

text \<open>
  \<open>_freeze\<close> and \<open>_thaw\<close> of \<open>request/signatures.py\<close>: an object becomes the tuple of its members, a list
  the tuple of its items, and a tuple of pairs that begin with a text is read back as an object.
\<close>

fun freeze :: "pyval \<Rightarrow> pyval" where
  "freeze (PDict d) = PTuple (map (\<lambda>p. PTuple [PStr (fst p), freeze (snd p)]) d)"
| "freeze (PList xs) = PTuple (map freeze xs)"
| "freeze v = v"

definition is_member :: "pyval \<Rightarrow> bool" where
  "is_member v = (case v of PTuple [PStr k, x] \<Rightarrow> True | _ \<Rightarrow> False)"

fun pair_key :: "pyval \<Rightarrow> string" where
  "pair_key (PTuple (PStr k # _)) = k"
| "pair_key _ = []"

fun thaw :: "pyval \<Rightarrow> pyval" and thaw_item :: "pyval \<Rightarrow> pyval" where
  "thaw (PTuple xs) =
     (if list_all is_member xs
      then PDict (fold (\<lambda>(k, v). AList.update k v) (map (\<lambda>x. (pair_key x, thaw_item x)) xs) [])
      else PList (map thaw xs))"
| "thaw v = v"
| "thaw_item (PTuple (a # b # _)) = thaw b"
| "thaw_item v = v"


section \<open>Writers: lemmas\<close>

lemma paths_meet_iff: "paths_meet a b \<longleftrightarrow> prefix a b \<or> prefix b a"
  unfolding paths_meet_def Let_def
  by (metis append_take_drop_id min.absorb1 min.absorb2 min.cobounded2 nle_le prefix_def prefix_length_le
      take_all_iff take_is_prefix append_eq_conv_conj)

lemma paths_meet_Cons [simp]: "paths_meet (c # a) (c' # b) \<longleftrightarrow> c = c' \<and> paths_meet a b"
  by (auto simp: paths_meet_iff)

lemma paths_meet_Nil [simp]: "paths_meet [] b" "paths_meet a []"
  by (auto simp: paths_meet_iff)

lemma paths_meet_sym: "paths_meet a b \<longleftrightarrow> paths_meet b a"
  by (auto simp: paths_meet_iff)

lemma wire_path_present_iff: "wire_path_present v path \<longleftrightarrow> doc_at v path \<noteq> None"
  by (induction v path rule: wire_path_present.induct) (auto split: option.splits)

lemma doc_at_empty [simp]: "path \<noteq> [] \<Longrightarrow> doc_at (PDict []) path = None"
  by (cases path) auto

text \<open>Where a value can be put: the way is free or leads through objects, the end is free.\<close>

fun can_write :: "(string, pyval) dict \<Rightarrow> string list \<Rightarrow> bool" where
  "can_write d [] = False"
| "can_write d [c] = (c \<notin> set (keys d))"
| "can_write d (c # c' # cs) =
     (case map_of d c of
        None \<Rightarrow> True
      | Some PNone \<Rightarrow> True
      | Some (PDict n) \<Rightarrow> can_write n (c' # cs)
      | Some _ \<Rightarrow> False)"

lemma can_write_empty [simp]: "can_write [] path \<longleftrightarrow> path \<noteq> []"
  by (induction "[] :: (string, pyval) dict" path rule: can_write.induct) auto

lemma can_write_fresh:
  assumes "map_of d c = None"
  shows "can_write d (c # cs)"
proof (cases cs)
  case Nil
  then show ?thesis using assms by (simp add: map_of_eq_None_iff)
qed (simp add: assms)

lemma write_nested_total: "can_write d path \<longleftrightarrow> (\<exists>d'. write_nested wire d path x = Inr d')"
proof (induction d path rule: can_write.induct)
  case (3 d c c' cs)
  have new: "\<exists>n. write_nested wire [] (c' # cs) x = Inr n"
  proof (induction cs arbitrary: c')
    case (Cons a cs)
    then obtain n where "write_nested wire [] (a # cs) x = Inr n" by blast
    then show ?case by simp
  qed simp
  show ?case
    using 3 new by (auto simp: bindE_Inr_iff split: option.splits pyval.splits)
qed auto

lemma write_nested_spec:
  assumes "write_nested wire d path x = Inr d'"
  shows "doc_at (PDict d') path = Some x \<and>
    (\<forall>other. \<not> paths_meet path other \<longrightarrow> doc_at (PDict d') other = doc_at (PDict d) other) \<and>
    (dict_ok d \<longrightarrow> dict_ok d')"
  using assms
proof (induction wire d path x arbitrary: d' rule: write_nested.induct)
  case (2 wire d c x)
  then have d': "d' = AList.update c x d" by (simp split: if_splits)
  have "doc_at (PDict d') other = doc_at (PDict d) other" if "\<not> paths_meet [c] other" for other
    using that d' by (cases other) auto
  then show ?case using d' by simp
next
  case (3 wire d c c' cs x)
  obtain m n where m: "map_of d c = None \<and> m = [] \<or> map_of d c = Some PNone \<and> m = [] \<or> map_of d c = Some (PDict m)"
    and n: "write_nested wire m (c' # cs) x = Inr n" and d': "d' = AList.update c (PDict n) d"
    using 3(4) by (auto simp: bindE_Inr_iff split: option.splits pyval.splits)
  have spec: "doc_at (PDict n) (c' # cs) = Some x \<and>
      (\<forall>other. \<not> paths_meet (c' # cs) other \<longrightarrow> doc_at (PDict n) other = doc_at (PDict m) other)"
    using m
  proof (elim disjE conjE)
    assume "map_of d c = None" "m = []"
    then show ?thesis using 3(1) n by blast
  next
    assume "map_of d c = Some PNone" "m = []"
    then show ?thesis using 3(2) n by blast
  next
    assume "map_of d c = Some (PDict m)"
    then show ?thesis using 3(3) n by blast
  qed
  then have IH: "doc_at (PDict n) (c' # cs) = Some x"
    "\<And>other. \<not> paths_meet (c' # cs) other \<Longrightarrow> doc_at (PDict n) other = doc_at (PDict m) other"
    by blast+
  have "doc_at (PDict d') other = doc_at (PDict d) other" if "\<not> paths_meet (c # c' # cs) other" for other
  proof (cases other)
    case (Cons e es)
    show ?thesis
    proof (cases "e = c")
      case True
      then have es: "\<not> paths_meet (c' # cs) es" "es \<noteq> []" using that Cons by auto
      show ?thesis using IH(2) [OF es(1)] es(2) m True Cons d' by (cases es) auto
    next
      case False
      then show ?thesis using Cons d' by simp
    qed
  qed (use that in simp)
  then show ?case using IH d' by simp
qed auto

lemma write_nested_keeps_free:
  assumes "write_nested wire d p x = Inr d'" and "can_write d q" and "\<not> paths_meet p q"
  shows "can_write d' q"
  using assms
proof (induction wire d p x arbitrary: d' q rule: write_nested.induct)
  case (2 wire d c x)
  then have d': "d' = AList.update c x d" by (simp split: if_splits)
  have "set (keys d') = insert c (set (keys d))" using d' by simp
  then show ?case
    using 2 d' by (cases "(d, q)" rule: can_write.cases) (auto simp del: set_map)
next
  case (3 wire d c c' cs x)
  obtain m n where m: "map_of d c = None \<and> m = [] \<or> map_of d c = Some PNone \<and> m = [] \<or> map_of d c = Some (PDict m)"
    and n: "write_nested wire m (c' # cs) x = Inr n" and d': "d' = AList.update c (PDict n) d"
    using 3(4) by (auto simp: bindE_Inr_iff split: option.splits pyval.splits)
  show ?case
  proof (cases q)
    case Nil
    then show ?thesis using 3(5) by simp
  next
    case (Cons e es)
    show ?thesis
    proof (cases "e = c")
      case True
      then have es: "\<not> paths_meet (c' # cs) es" using 3(6) Cons by simp
      then obtain e' fs where es': "es = e' # fs" by (cases es) auto
      have "can_write m es" using m 3(5) True Cons es' by auto
      then have "can_write n es" using m n 3(1-3) es by blast
      then show ?thesis using True Cons es' d' by simp
    next
      case False
      then show ?thesis using 3(5) Cons d' by (cases es) auto
    qed
  qed
qed auto


section \<open>Managed writers never collide\<close>

lemma validate_managed_paths_iff:
  "validate_managed_paths occupied ps = Inr () \<longleftrightarrow>
     (\<forall>p \<in> set ps. \<forall>q \<in> set occupied. \<not> paths_meet p q) \<and> sorted_wrt (\<lambda>p q. \<not> paths_meet p q) ps"
proof (induction ps)
  case (Cons p ps)
  have "find (paths_meet p) (ps @ occupied) = None \<longleftrightarrow> (\<forall>q \<in> set ps \<union> set occupied. \<not> paths_meet p q)"
    by (auto simp: find_None_iff)
  then show ?case using Cons.IH by (cases "find (paths_meet p) (ps @ occupied)") auto
qed simp

lemma write_private_wire_value_same [simp]:
  "write_private_wire_value d path x path = write_nested path d path x"
  by (simp add: write_private_wire_value_def)

text \<open>What the slots of an attempt hold, when they belong to its shape.\<close>

definition slot_value :: "op_values \<Rightarrow> value_slot \<Rightarrow> pyval option" where
  "slot_value ov s = (case require_slot ov s of Inr x \<Rightarrow> Some x | Inl _ \<Rightarrow> None)"

definition in_shape :: "op_values \<Rightarrow> value_slot \<Rightarrow> bool" where
  "in_shape ov s \<longleftrightarrow> (\<exists>i. slot_index (val_shape ov) s = Inr i)"

lemma slot_access:
  assumes "in_shape ov s"
  shows "contains_slot ov s = Inr (slot_value ov s \<noteq> None)"
    "slot_value ov s = Some x \<Longrightarrow> require_slot ov s = Inr x"
  using assms
  by (auto simp: in_shape_def contains_slot_def slot_value_def require_slot_def split: option.splits)

lemma flat_field_value:
  "in_shape ov (snd f) \<Longrightarrow>
   flat_field ov f = Inr (case slot_value ov (snd f) of None \<Rightarrow> [] | Some x \<Rightarrow> [(fst f, x)])"
  by (auto simp: flat_field_def slot_access split: option.splits)

lemma slot_fields_value:
  assumes "\<forall>f \<in> set fs. in_shape ov (snd f)"
  shows "slot_fields ov fs =
    Inr (concat (map (\<lambda>f. case slot_value ov (snd f) of None \<Rightarrow> [] | Some x \<Rightarrow> [(fst f, x)]) fs))"
proof -
  have "mapE (flat_field ov) fs =
      Inr (map (\<lambda>f. case slot_value ov (snd f) of None \<Rightarrow> [] | Some x \<Rightarrow> [(fst f, x)]) fs)"
    using assms by (induction fs) (auto simp: flat_field_value)
  then show ?thesis by (simp add: slot_fields_def)
qed

lemma slot_fields_lookup:
  assumes "distinct (map fst fs)" and "(n, s) \<in> set fs"
  shows "map_of (concat (map (\<lambda>f. case slot_value ov (snd f) of None \<Rightarrow> [] | Some x \<Rightarrow> [(fst f, x)]) fs)) n
    = slot_value ov s"
  using assms
proof (induction fs)
  case (Cons f fs)
  have rest: "map_of (concat (map (\<lambda>f. case slot_value ov (snd f) of None \<Rightarrow> [] | Some x \<Rightarrow> [(fst f, x)]) fs)) (fst f) = None"
    using Cons.prems(1) by (auto simp: map_of_eq_None_iff image_iff split: option.splits)
  show ?case
  proof (cases "(n, s) = f")
    case True
    then show ?thesis using rest by (auto simp: map_add_Some_iff split: option.splits)
  next
    case False
    then have "(n, s) \<in> set fs" "n \<noteq> fst f" using Cons.prems by (auto simp: image_iff)
    then show ?thesis using Cons by (auto split: option.splits)
  qed
qed simp

lemma managed_writes:
  assumes "sorted_wrt (\<lambda>p q. \<not> paths_meet p q) (map pb_path ws)"
    and "\<forall>w \<in> set ws. in_shape ov (pb_slot w) \<and> can_write d (pb_path w)"
  shows "\<exists>d'. foldE (write_body_value ov) d ws = Inr d' \<and>
    (\<forall>w \<in> set ws. \<forall>x. slot_value ov (pb_slot w) = Some x \<longrightarrow> doc_at (PDict d') (pb_path w) = Some x) \<and>
    (\<forall>other. (\<forall>w \<in> set ws. \<not> paths_meet (pb_path w) other) \<longrightarrow>
       doc_at (PDict d') other = doc_at (PDict d) other)"
  using assms
proof (induction ws arbitrary: d)
  case (Cons w ws)
  let ?p = "pb_path w"
  have w: "in_shape ov (pb_slot w)" "can_write d ?p" using Cons.prems(2) by auto
  show ?case
  proof (cases "slot_value ov (pb_slot w)")
    case None
    then have "write_body_value ov d w = Inr d" by (simp add: write_body_value_def slot_access [OF w(1)])
    then show ?thesis using Cons.IH [of d] Cons.prems None by auto
  next
    case (Some x)
    obtain d1 where d1: "write_nested ?p d ?p x = Inr d1" using write_nested_total w(2) by blast
    have step: "write_body_value ov d w = Inr d1"
      using d1 Some by (simp add: write_body_value_def slot_access [OF w(1)])
    note spec = write_nested_spec [OF d1]
    have apart: "\<not> paths_meet ?p (pb_path v)" if "v \<in> set ws" for v
      using that Cons.prems(1) by simp
    have "\<forall>v \<in> set ws. in_shape ov (pb_slot v) \<and> can_write d1 (pb_path v)"
      using Cons.prems(2) apart write_nested_keeps_free [OF d1] by simp
    with Cons.IH [of d1] Cons.prems(1) obtain d' where d': "foldE (write_body_value ov) d1 ws = Inr d'"
      and written: "\<forall>v \<in> set ws. \<forall>x. slot_value ov (pb_slot v) = Some x \<longrightarrow> doc_at (PDict d') (pb_path v) = Some x"
      and kept: "\<forall>other. (\<forall>v \<in> set ws. \<not> paths_meet (pb_path v) other) \<longrightarrow>
        doc_at (PDict d') other = doc_at (PDict d1) other"
      by auto
    have "\<forall>v \<in> set ws. \<not> paths_meet (pb_path v) ?p" using apart paths_meet_sym by blast
    then have "doc_at (PDict d') ?p = Some x" using kept spec by simp
    then show ?thesis using step d' written kept spec Some by (intro exI [of _ d']) auto
  qed
qed simp

text \<open>
  C16. Over a body of flat fields, that is one without a body slot, what the compiler accepts cannot fail when a
  request is built: managed writers whose paths passed the compile-time check against those fields never
  collide, every one that has a value finds it at its path, and every public field keeps its own. (Over a
  root body or a projection the public fields are not part of the check.)
\<close>

theorem managed_writers_never_collide:
  assumes "validate_managed_body_writer_paths (map pb_path (co_body_writers co)) mandatory signed
      (keys (co_body_fields co)) = Inr ()"
    and "co_body_slot co = None" and "dict_ok (co_body_fields co)"
    and "\<forall>w \<in> set (co_body_writers co). pb_path w \<noteq> [] \<and> in_shape ov (pb_slot w)"
    and "\<forall>f \<in> set (co_body_fields co). in_shape ov (snd f)"
  shows "\<exists>doc. managed_body_document co ov = Inr (PDict doc) \<and>
    (\<forall>w \<in> set (co_body_writers co). \<forall>x. slot_value ov (pb_slot w) = Some x \<longrightarrow>
       doc_at (PDict doc) (pb_path w) = Some x) \<and>
    (\<forall>(name, s) \<in> set (co_body_fields co). doc_at (PDict doc) [name] = slot_value ov s)"
proof -
  let ?ws = "co_body_writers co" and ?fs = "co_body_fields co"
  let ?d = "concat (map (\<lambda>f. case slot_value ov (snd f) of None \<Rightarrow> [] | Some x \<Rightarrow> [(fst f, x)]) ?fs)"
  have apart: "sorted_wrt (\<lambda>p q. \<not> paths_meet p q) (map pb_path ?ws)"
    and public: "\<And>w name. w \<in> set ?ws \<Longrightarrow> name \<in> set (keys ?fs) \<Longrightarrow> \<not> paths_meet (pb_path w) [name]"
    using assms(1) by (auto simp: validate_managed_body_writer_paths_def validate_managed_paths_iff)
  have "can_write ?d (pb_path w)" if w: "w \<in> set ?ws" for w
  proof (cases "pb_path w")
    case Nil
    then show ?thesis using assms(4) w by simp
  next
    case (Cons c cs)
    then have "c \<notin> set (keys ?fs)" using public [OF w, of c] by auto
    then have "map_of ?d c = None" by (auto simp: map_of_eq_None_iff image_iff split: option.splits)
    then show ?thesis using Cons can_write_fresh by simp
  qed
  then have "\<forall>w \<in> set ?ws. in_shape ov (pb_slot w) \<and> can_write ?d (pb_path w)" using assms(4) by simp
  from managed_writes [OF apart this] obtain doc where doc: "foldE (write_body_value ov) ?d ?ws = Inr doc"
    and written: "\<forall>w \<in> set ?ws. \<forall>x. slot_value ov (pb_slot w) = Some x \<longrightarrow> doc_at (PDict doc) (pb_path w) = Some x"
    and kept: "\<forall>other. (\<forall>w \<in> set ?ws. \<not> paths_meet (pb_path w) other) \<longrightarrow> doc_at (PDict doc) other = doc_at (PDict ?d) other"
    by blast
  have "doc_at (PDict doc) [name] = slot_value ov s" if f: "(name, s) \<in> set ?fs" for name s
  proof -
    have "name \<in> set (keys ?fs)" using f by (force simp: image_iff)
    then have "doc_at (PDict doc) [name] = doc_at (PDict ?d) [name]" using kept public by blast
    also have "\<dots> = map_of ?d name" by (simp split: option.splits)
    also have "\<dots> = slot_value ov s" by (rule slot_fields_lookup [OF assms(3) f])
    finally show ?thesis .
  qed
  moreover have "managed_body_document co ov = Inr (PDict doc)"
    using assms(2) doc by (simp add: managed_body_document_def slot_fields_value [OF assms(5)])
  ultimately show ?thesis using written by (intro exI [of _ doc]) auto
qed


section \<open>Pointers and RFC 6901\<close>

text \<open>
  The standard as a reference: a token is escaped character by character, a pointer is its escaped
  tokens each behind a slash, and it names a member of an object or, by a decimal number without
  leading zeros, an item of an array.
\<close>

definition escape_char :: "char \<Rightarrow> string" where
  "escape_char c = (if c = CHR ''~'' then ''~0'' else if c = CHR ''/'' then ''~1'' else [c])"

definition escape :: "string \<Rightarrow> string" where
  "escape t = concat (map escape_char t)"

definition pointer_of :: "string list \<Rightarrow> string" where
  "pointer_of ts = concat (map (\<lambda>t. CHR ''/'' # escape t) ts)"

definition rfc_index :: "string \<Rightarrow> nat option" where
  "rfc_index t =
     (if t \<noteq> [] \<and> list_all is_decimal t \<and> (hd t = CHR ''0'' \<longrightarrow> t = ''0'') then Some (decimal_value t) else None)"

definition rfc_step :: "pyval \<Rightarrow> string \<Rightarrow> pyval option" where
  "rfc_step v t =
     (case v of
        PDict d \<Rightarrow> map_of d t
      | PList xs \<Rightarrow> Option.bind (rfc_index t) (\<lambda>i. if i < length xs then Some (xs ! i) else None)
      | _ \<Rightarrow> None)"

fun rfc_value :: "pyval \<Rightarrow> string list \<Rightarrow> pyval option" where
  "rfc_value v [] = Some v"
| "rfc_value v (t # ts) = Option.bind (rfc_step v t) (\<lambda>x. rfc_value x ts)"

lemma replace_pair_other: "x \<noteq> a \<Longrightarrow> replace_pair a b r (x # s) = x # replace_pair a b r s"
  by (cases s) auto

lemma replace_tilde_one:
  "replace_pair (CHR ''~'') (CHR ''1'') (CHR ''/'') (escape t) = concat (map (\<lambda>c. if c = CHR ''~'' then ''~0'' else [c]) t)"
  by (induction t) (auto simp: escape_def escape_char_def replace_pair_other)

lemma replace_tilde_zero:
  "replace_pair (CHR ''~'') (CHR ''0'') (CHR ''~'') (concat (map (\<lambda>c. if c = CHR ''~'' then ''~0'' else [c]) t)) = t"
  by (induction t) (auto simp: replace_pair_other)

lemma unescape_escape [simp]: "unescape (escape t) = t"
  by (simp add: unescape_def replace_tilde_one replace_tilde_zero)

lemma escape_no_slash: "CHR ''/'' \<notin> set (escape t)"
  by (auto simp: escape_def escape_char_def split: if_splits)

lemma escape_Nil_iff [simp]: "escape t = [] \<longleftrightarrow> t = []"
  by (cases t) (auto simp: escape_def escape_char_def)

lemma escape_empty [simp]: "escape [] = []"
  by (simp add: escape_def)

lemma escape_good: "\<not> bad_escape (escape t)"
proof (induction t)
  case (Cons c t)
  have "bad_escape (x # escape t) \<longleftrightarrow> False" if "x \<noteq> CHR ''~''" for x
    using that Cons by (cases "escape t") auto
  moreover have "escape (c # t) = escape_char c @ escape t" by (simp add: escape_def)
  ultimately show ?case
    by (auto simp: escape_char_def)
qed (simp add: escape_def)

lemma split_on_prefix: "d \<notin> set w \<Longrightarrow> split_on d (w @ s) = (w @ hd (split_on d s)) # tl (split_on d s)"
proof (induction w)
  case Nil
  have "split_on d s \<noteq> []" by (induction s) (auto split: list.splits)
  then show ?case by simp
qed auto

lemma split_pointer: "split_on (CHR ''/'') (escape t @ pointer_of ts) = map escape (t # ts)"
proof (induction ts arbitrary: t)
  case Nil
  then show ?case using split_on_prefix [OF escape_no_slash, of t "[]"] by (simp add: pointer_of_def)
next
  case (Cons u ts)
  have "pointer_of (u # ts) = CHR ''/'' # escape u @ pointer_of ts" by (simp add: pointer_of_def)
  then show ?case using Cons by (simp add: split_on_prefix escape_no_slash)
qed

lemma strip_decimal: "list_all is_decimal t \<Longrightarrow> strip t = t"
proof -
  assume t: "list_all is_decimal t"
  have space: "\<not> is_space c" if "is_decimal c" for c
    using that by (auto simp: is_decimal_def is_space_def)
  have "dropWhile is_space xs = xs" if "list_all is_decimal xs" for xs
    using that space by (cases xs) auto
  then show ?thesis using t by (simp add: strip_def lstrip_if_def rstrip_if_def list_all_iff)
qed

lemma digit_groups_decimal: "t \<noteq> [] \<Longrightarrow> list_all is_decimal t \<Longrightarrow> digit_groups t = Some t"
proof (induction t rule: digit_groups.induct)
  case (3 c d cs)
  then have "d \<noteq> CHR ''_''" by (auto simp: is_decimal_def)
  then show ?case using 3 by simp
qed auto

lemma int_of_text_decimal:
  assumes "t \<noteq> []" and "list_all is_decimal t"
  shows "int_of_text t = Some (int (decimal_value t))"
proof -
  have "is_decimal (hd t)" using assms by (cases t) auto
  then have "hd t \<noteq> CHR ''-''" "hd t \<noteq> CHR ''+''" by (auto simp: is_decimal_def)
  then show ?thesis
    using digit_groups_decimal [OF assms] by (simp add: int_of_text_def strip_decimal [OF assms(2)] Let_def)
qed

lemma pointer_step_rfc: "rfc_step v t = Some x \<Longrightarrow> pointer_step p v (escape t) = Inr x"
  by (auto simp: rfc_step_def pointer_step_def rfc_index_def int_of_text_decimal list_item_def bind_eq_Some_conv
      split: pyval.splits if_splits)

lemma decimal_digits: "list_all is_decimal t \<Longrightarrow> list_all is_str_digit t"
  by (simp add: list_all_iff is_str_digit_def)

lemma resolve_step_rfc: "rfc_step v t = Some x \<Longrightarrow> resolve_step p v (escape t) = Inr x"
  by (auto simp: rfc_step_def resolve_step_def rfc_index_def Let_def bind_eq_Some_conv decimal_digits
      split: pyval.splits if_splits)

lemma steps_rfc:
  assumes "rfc_value v ts = Some x"
    and "\<And>w t y. rfc_step w t = Some y \<Longrightarrow> step w (escape t) = Inr y"
  shows "foldE step v (map escape ts) = Inr x"
  using assms(1) by (induction ts arbitrary: v) (auto simp: bind_eq_Some_conv assms(2))

lemma lstrip_pointer:
  "lstrip_if (\<lambda>c. c = CHR ''/'') (pointer_of ts) =
     (case dropWhile (\<lambda>t. t = []) ts of [] \<Rightarrow> [] | t # us \<Rightarrow> escape t @ pointer_of us)"
proof (induction ts)
  case (Cons t ts)
  have p: "pointer_of (t # ts) = CHR ''/'' # escape t @ pointer_of ts" by (simp add: pointer_of_def)
  show ?case
  proof (cases "t = []")
    case True
    then show ?thesis using Cons.IH by (simp add: pointer_of_def lstrip_if_def)
  next
    case False
    then obtain c cs where "escape t = c # cs" "c \<noteq> CHR ''/''" using escape_no_slash [of t] by (cases "escape t") auto
    then show ?thesis using False by (simp add: p lstrip_if_def)
  qed
qed (simp add: pointer_of_def lstrip_if_def)


text \<open>
  Writing a path as a pointer and reading it back gives the path, in the compiler and in the
  signatures, as long as it is not empty and names no empty member.
\<close>

lemma pointer_roundtrip:
  assumes "ts \<noteq> []" and "[] \<notin> set ts"
  shows "pointer_tokens (pointer_of ts) = Inr ts \<and> body_output_path name (Some (pointer_of ts)) = Inr ts"
proof -
  obtain t us where ts: "ts = t # us" using assms(1) by (cases ts) auto
  have p: "pointer_of ts = CHR ''/'' # escape t @ pointer_of us" using ts by (simp add: pointer_of_def)
  obtain c cs where e: "escape t = c # cs" using assms(2) ts by (cases "escape t") auto
  have cut: "split_on (CHR ''/'') (c # cs @ pointer_of us) = map escape ts"
    using split_pointer [of t us] e ts by simp
  have "map unescape (map escape ts) = ts" by (simp add: comp_def)
  moreover have "\<not> list_ex bad_escape (map escape ts)" by (simp add: list_ex_iff escape_good)
  ultimately show ?thesis
    using assms(2) by (simp add: p e pointer_tokens_def body_output_path_def cut del: map_map split_on.simps)
qed

text \<open>The reader of responses drops every leading slash, so it skips empty members in front.\<close>

lemma leading_empty_token_skipped:
  "rfc_value (PDict [([], PDict [(''a'', PInt 1)]), (''a'', PInt 2)]) [[], ''a''] = Some (PInt 1) \<and>
   resolve_json_pointer (PDict [([], PDict [(''a'', PInt 1)]), (''a'', PInt 2)]) (pointer_of [[], ''a'']) = Inr (PInt 2)"
  by (simp add: rfc_step_def pointer_of_def escape_def escape_char_def resolve_json_pointer_def lstrip_if_def
      resolve_step_def unescape_def)


section \<open>Freezing and thawing\<close>

text \<open>A document of objects, lists and scalars; a list that cannot be taken for an object.\<close>

fun json_doc :: "pyval \<Rightarrow> bool" where
  "json_doc (PDict d) = (dict_ok d \<and> list_all (\<lambda>p. json_doc (snd p)) d)"
| "json_doc (PList xs) = list_all json_doc xs"
| "json_doc (PTuple xs) = False"
| "json_doc v = True"

definition looks_like_member :: "pyval \<Rightarrow> bool" where
  "looks_like_member v = (case v of PList [PStr k, x] \<Rightarrow> True | _ \<Rightarrow> False)"

fun told_apart :: "pyval \<Rightarrow> bool" where
  "told_apart (PDict d) = list_all (\<lambda>p. told_apart (snd p)) d"
| "told_apart (PList xs) = (\<not> list_all looks_like_member xs \<and> list_all told_apart xs)"
| "told_apart v = True"

lemma is_member_freeze:
  assumes "json_doc v"
  shows "is_member (freeze v) \<longleftrightarrow> looks_like_member v"
proof (cases v)
  case (PDict d)
  then show ?thesis
    by (cases d; cases "tl d") (auto simp: is_member_def looks_like_member_def split: list.splits)
next
  case (PList xs)
  show ?thesis
  proof (cases xs)
    case (Cons a as)
    then show ?thesis
      using PList assms
      by (cases a; cases as; cases "tl as") (auto simp: is_member_def looks_like_member_def split: list.splits)
  qed (simp add: PList is_member_def looks_like_member_def)
qed (use assms in \<open>auto simp: is_member_def looks_like_member_def\<close>)

lemma updates_of_fresh:
  "distinct (map fst (acc @ xs)) \<Longrightarrow> fold (\<lambda>(k, v). AList.update k v) xs acc = acc @ xs"
proof (induction xs arbitrary: acc)
  case (Cons p xs)
  obtain k v where p: "p = (k, v)" by fastforce
  have "k \<notin> fst ` set acc" using Cons.prems p by auto
  then have "AList.update k v acc = acc @ [(k, v)]" by (rule keys_update_absent)
  then show ?case using Cons.IH [of "acc @ [(k, v)]"] Cons.prems p by simp
qed simp

text \<open>
  What a signature reads is the document that was prepared: thawing the frozen form gives the
  document back exactly when no list in it is empty or made of pairs that begin with a text.
\<close>

lemma thaw_freeze_iff:
  assumes "json_doc v"
  shows "thaw (freeze v) = v \<longleftrightarrow> told_apart v"
  using assms
proof (induction v rule: freeze.induct)
  case (1 d)
  let ?ps = "map (\<lambda>p. PTuple [PStr (fst p), freeze (snd p)]) d"
  have pairs: "map (\<lambda>x. (pair_key x, thaw_item x)) ?ps = map (\<lambda>p. (fst p, thaw (freeze (snd p)))) d"
    by simp
  have "distinct (map fst (map (\<lambda>p. (fst p, thaw (freeze (snd p)))) d))"
    using 1(2) by (simp add: comp_def)
  then have "thaw (freeze (PDict d)) = PDict (map (\<lambda>p. (fst p, thaw (freeze (snd p)))) d)"
    using updates_of_fresh [of "[]"] by (simp add: pairs list_all_iff is_member_def del: map_map)
  also have "\<dots> = PDict d \<longleftrightarrow> (\<forall>p \<in> set d. thaw (freeze (snd p)) = snd p)"
    by (induction d) (auto simp: prod_eq_iff)
  also have "\<dots> \<longleftrightarrow> told_apart (PDict d)"
    using 1 by (auto simp: list_all_iff)
  finally show ?case .
next
  case (2 xs)
  have member: "list_all is_member (map freeze xs) \<longleftrightarrow> list_all looks_like_member xs"
    using 2(2) by (auto simp: list_all_iff is_member_freeze)
  show ?case
  proof (cases "list_all looks_like_member xs")
    case False
    then have "thaw (freeze (PList xs)) = PList (map (\<lambda>x. thaw (freeze x)) xs)"
      using member by (simp add: comp_def)
    also have "\<dots> = PList xs \<longleftrightarrow> (\<forall>x \<in> set xs. thaw (freeze x) = x)"
      by (induction xs) auto
    also have "\<dots> \<longleftrightarrow> told_apart (PList xs)"
      using 2 False by (auto simp: list_all_iff)
    finally show ?thesis .
  qed (use member in simp)
qed auto

text \<open>Signing a body with an empty list in it sends an object in its place.\<close>

lemma signing_rewrites_empty_list:
  "thaw (freeze (PDict [(''items'', PList [])])) = PDict [(''items'', PDict [])] \<and>
   thaw (freeze (PList [PList [PStr ''a'', PInt 1]])) = PDict [(''a'', PInt 1)]"
  by (simp add: is_member_def)


section \<open>Witnesses\<close>

definition token_slot :: value_slot where
  "token_slot = \<lparr>slot_id = 1, diagnostic_name = ''token'', slot_validator = Inr, slot_required = False,
     slot_secret = True, slot_card = ONE\<rparr>"

definition name_slot :: value_slot where
  "name_slot = \<lparr>slot_id = 2, diagnostic_name = ''name'', slot_validator = Inr, slot_required = True,
     slot_secret = False, slot_card = ONE\<rparr>"

definition sign_up_values :: op_values where
  "sign_up_values = \<lparr>val_shape = [token_slot, name_slot], vals = [Some (PStr ''t0''), Some (PStr ''ada'')]\<rparr>"

definition sign_up_body :: "(unit, unit) compiled_body" where
  "sign_up_body = \<lparr>co_operation = ''sign-up'', co_projection_name = [], co_source_slots = [],
     co_construct = (\<lambda>_. Inr ()), co_using = Inr, co_dump = (\<lambda>_. Inr PNone), co_load = (\<lambda>_. Inr ()),
     co_dump_slot = Inr, co_wire_writers = [],
     co_body_writers = [\<lparr>pb_path = [''meta'', ''token''], pb_slot = token_slot\<rparr>],
     co_signature_paths = [], co_body_slot = None, co_body_fields = [(''name'', name_slot)], co_projected = False\<rparr>"

lemmas sign_up_defs = sign_up_body_def sign_up_values_def token_slot_def name_slot_def

lemma managed_writers_never_collide_witness:
  "\<exists>doc. managed_body_document sign_up_body sign_up_values = Inr (PDict doc) \<and>
     doc_at (PDict doc) [''meta'', ''token''] = Some (PStr ''t0'') \<and>
     doc_at (PDict doc) [''name''] = Some (PStr ''ada'')"
proof -
  have shape: "in_shape sign_up_values token_slot" "in_shape sign_up_values name_slot"
    by (simp_all add: in_shape_def sign_up_defs)
  have held: "slot_value sign_up_values token_slot = Some (PStr ''t0'')"
    "slot_value sign_up_values name_slot = Some (PStr ''ada'')"
    by (simp_all add: slot_value_def require_slot_def sign_up_defs)
  have body: "co_body_writers sign_up_body = [\<lparr>pb_path = [''meta'', ''token''], pb_slot = token_slot\<rparr>]"
    "co_body_fields sign_up_body = [(''name'', name_slot)]" "co_body_slot sign_up_body = None"
    by (simp_all add: sign_up_body_def)
  have checked: "validate_managed_body_writer_paths (map pb_path (co_body_writers sign_up_body)) [] []
      (keys (co_body_fields sign_up_body)) = Inr ()"
    by (simp add: body validate_managed_body_writer_paths_def)
  show ?thesis
    using managed_writers_never_collide [OF checked body(3), of sign_up_values] shape held
    by (auto simp: body)
qed


text \<open>A pointer of empty tokens alone names the empty member for the reader of responses, once.\<close>

lemma empty_tokens_read_once:
  "resolve_json_pointer (PDict [([], PInt 1)]) (pointer_of [[], []]) = Inr (PInt 1)"
  by (simp add: pointer_of_def resolve_json_pointer_def lstrip_if_def resolve_step_def unescape_def)

lemma pointer_roundtrip_witness: "pointer_tokens (pointer_of [''a/b'', ''~'']) = Inr [''a/b'', ''~'']"
  using pointer_roundtrip [of "[''a/b'', ''~'']"] by simp

lemma thaw_freeze_iff_witness:
  "thaw (freeze (PDict [(''ids'', PList [PInt 1])])) = PDict [(''ids'', PList [PInt 1])]"
  using thaw_freeze_iff [of "PDict [(''ids'', PList [PInt 1])]"] by (simp add: looks_like_member_def)

end
