(* ===== verification/Responses.thy ===== *)
theory Responses
  imports Documents
begin

text \<open>
  Reading a response (\<open>response/\<close>): header lines, the parts of a \<open>Location\<close>, predicates, the sources
  of a model's fields, what a model states about itself, and the choice among the declared cases.

  A parsed value is a \<open>pyval\<close>; an object with attributes is the dictionary of them. Decoding bytes,
  the JSON loader, \<open>SimpleCookie\<close>, the resolution of an address, compiled patterns, models, extractors
  and parsers are parameters. A decoder is asked anew for every case; the code keeps one session each.
\<close>

section \<open>Header lines\<close>

type_synonym header_lines = "(string \<times> string) list"

text \<open>\<open>Headers.__init__\<close>: names in lower case, repeated lines kept.\<close>

definition response_headers :: "(string \<times> string) list \<Rightarrow> header_lines" where
  "response_headers items = map (\<lambda>(n, v). (lower n, v)) items"

definition getall :: "header_lines \<Rightarrow> string \<Rightarrow> string list" where
  "getall hs name = map snd (filter (\<lambda>p. fst p = lower name) hs)"

definition getitem :: "header_lines \<Rightarrow> string \<Rightarrow> sdk_error + string" where
  "getitem hs name =
     (case getall hs name of [] \<Rightarrow> Inl (PyError ''KeyError'') | values \<Rightarrow> Inr (join '', '' values))"

definition header_get :: "header_lines \<Rightarrow> string \<Rightarrow> string option" where
  "header_get hs name = (case getitem hs name of Inr v \<Rightarrow> Some v | Inl _ \<Rightarrow> None)"

definition header_names :: "header_lines \<Rightarrow> string list" where
  "header_names hs = rev (fold (\<lambda>p seen. if fst p \<in> set seen then seen else fst p # seen) hs [])"

section \<open>The response\<close>

record resolved_location =
  rl_url :: string
  rl_host :: string
  rl_path :: string
  rl_query :: "(string \<times> string list) list"

record resp_context =
  cx_status :: int
  cx_url :: string
  cx_headers :: header_lines
  cx_body :: string
  cx_effective :: "string option"
  cx_decode :: "string \<Rightarrow> string \<Rightarrow> sdk_error + string"
  cx_loads :: "string \<Rightarrow> sdk_error + pyval"
  cx_morsels :: "string \<Rightarrow> sdk_error + (string \<times> string) list"
  cx_resolve :: "string \<Rightarrow> string \<Rightarrow> resolved_location option"

definition bare_media :: "string \<Rightarrow> string" where
  "bare_media raw = lower (strip (hd (split_on (CHR '';'') raw)))"

definition content_type_of :: "resp_context \<Rightarrow> string option" where
  "content_type_of ctx =
     (case cx_effective ctx of
        Some t \<Rightarrow> Some (bare_media t)
      | None \<Rightarrow> map_option bare_media (header_get (cx_headers ctx) ''content-type''))"

definition strip_quotes :: "string \<Rightarrow> string" where
  "strip_quotes s = rstrip_if (\<lambda>c. c = CHR 0x22) (lstrip_if (\<lambda>c. c = CHR 0x22) s)"

fun find_charset :: "string list \<Rightarrow> string option" where
  "find_charset [] = None"
| "find_charset (part # parts) =
     (case py_partition (strip part) ''='' of (name, separator, v) \<Rightarrow>
        if separator \<noteq> [] \<and> lower name = ''charset''
        then (case strip_quotes (strip v) of [] \<Rightarrow> None | s \<Rightarrow> Some s)
        else find_charset parts)"

definition charset_of :: "resp_context \<Rightarrow> string option" where
  "charset_of ctx =
     (case header_get (cx_headers ctx) ''content-type'' of
        None \<Rightarrow> None
      | Some raw \<Rightarrow> find_charset (tl (split_on (CHR '';'') raw)))"

text \<open>\<open>NormalizedResponse.text\<close>: only an unknown encoding falls back to UTF-8.\<close>

definition text_of :: "resp_context \<Rightarrow> sdk_error + string" where
  "text_of ctx =
     (case cx_decode ctx (case charset_of ctx of Some c \<Rightarrow> c | None \<Rightarrow> ''utf-8'') (cx_body ctx) of
        Inl (PyError e) \<Rightarrow> if e = ''LookupError'' then cx_decode ctx ''utf-8'' (cx_body ctx) else Inl (PyError e)
      | r \<Rightarrow> r)"

definition response_cookies :: "resp_context \<Rightarrow> sdk_error + (string \<times> string) list" where
  "response_cookies ctx = map_sum id concat (mapE (cx_morsels ctx) (getall (cx_headers ctx) ''set-cookie''))"

section \<open>\<open>Location\<close>\<close>

text \<open>A part is a glob or a compiled pattern with its source text and its \<open>fullmatch\<close>.\<close>

datatype part = Glob string | Pattern string "string \<Rightarrow> bool"

datatype expected = AnyValue | Exactly string | ValuePattern string "string \<Rightarrow> bool"

record location_pattern =
  lo_host :: "part option"
  lo_path :: "part option"
  lo_query :: "(string \<times> expected) list"
  lo_contains :: "string option"

definition checked_part :: "string \<Rightarrow> part option \<Rightarrow> sdk_error + part option" where
  "checked_part name v =
     (case v of
        Some (Glob []) \<Rightarrow> Inl (PlanError (''Location('' @ name @ ''=...) takes a non-empty string or a compiled str pattern''))
      | _ \<Rightarrow> Inr v)"

definition checked_query :: "(string \<times> expected) list \<Rightarrow> sdk_error + (string \<times> expected) list" where
  "checked_query q =
     mapE (\<lambda>(n, e). if n = [] then Inl (PlanError ''Location(query=...) names a parameter with an empty text'') else Inr (n, e)) q"

definition new_location ::
  "part option \<Rightarrow> part option \<Rightarrow> (string \<times> expected) list \<Rightarrow> string option \<Rightarrow> sdk_error + location_pattern" where
  "new_location host path q contains =
     bindE (checked_part ''host'' host) (\<lambda>h.
     bindE (checked_part ''path'' path) (\<lambda>p.
     bindE (checked_query q) (\<lambda>qs.
       if contains = Some [] then Inl (PlanError ''Location(contains=...) takes a non-empty string'')
       else Inr \<lparr>lo_host = h, lo_path = p, lo_query = qs, lo_contains = contains\<rparr>)))"

text \<open>
  \<open>fullmatch\<close> of the expression \<open>_glob\<close> writes: \<open>.*\<close>, over line ends too, for a star, itself for any other
  character.
\<close>

fun glob_match :: "string \<Rightarrow> string \<Rightarrow> bool" where
  "glob_match [] s \<longleftrightarrow> s = []"
| "glob_match (p # ps) [] \<longleftrightarrow> p = CHR ''*'' \<and> glob_match ps []"
| "glob_match (p # ps) (c # s) \<longleftrightarrow>
     (if p = CHR ''*'' then glob_match ps (c # s) \<or> glob_match (p # ps) s
      else p = c \<and> glob_match ps s)"

definition host_holds :: "part \<Rightarrow> string \<Rightarrow> bool" where
  "host_holds p s = (case p of Glob g \<Rightarrow> glob_match (lower g) (lower s) | Pattern _ f \<Rightarrow> f s)"

definition path_holds :: "part \<Rightarrow> string \<Rightarrow> bool" where
  "path_holds p s = (case p of Glob g \<Rightarrow> glob_match g s | Pattern _ f \<Rightarrow> f s)"

definition expected_holds :: "expected \<Rightarrow> string list option \<Rightarrow> bool" where
  "expected_holds e found =
     (case found of
        None \<Rightarrow> False
      | Some values \<Rightarrow>
          (case e of AnyValue \<Rightarrow> True | Exactly s \<Rightarrow> s \<in> set values | ValuePattern _ f \<Rightarrow> list_ex f values))"

definition holds :: "location_pattern \<Rightarrow> resolved_location \<Rightarrow> bool" where
  "holds lo target \<longleftrightarrow>
     (case lo_host lo of None \<Rightarrow> True | Some p \<Rightarrow> host_holds p (rl_host target)) \<and>
     (case lo_path lo of None \<Rightarrow> True | Some p \<Rightarrow> path_holds p (rl_path target)) \<and>
     list_all (\<lambda>(n, e). expected_holds e (map_of (rl_query target) n)) (lo_query lo) \<and>
     (case lo_contains lo of None \<Rightarrow> True | Some s \<Rightarrow> find_sub s (rl_url target) \<noteq> None)"

definition resolved_target :: "resp_context \<Rightarrow> resolved_location option" where
  "resolved_target ctx =
     (case getall (cx_headers ctx) ''location'' of
        [line] \<Rightarrow> cx_resolve ctx (cx_url ctx) (strip line)
      | _ \<Rightarrow> None)"

definition location_claims :: "location_pattern \<Rightarrow> resp_context \<Rightarrow> bool" where
  "location_claims lo ctx = (case resolved_target ctx of None \<Rightarrow> False | Some t \<Rightarrow> holds lo t)"

definition part_text :: "part \<Rightarrow> string" where
  "part_text p = (case p of Glob g \<Rightarrow> py_repr g | Pattern src _ \<Rightarrow> ''matches '' @ py_repr src)"

definition expected_text :: "expected \<Rightarrow> string" where
  "expected_text e = (case e of AnyValue \<Rightarrow> ''is present'' | Exactly s \<Rightarrow> py_repr s | ValuePattern src _ \<Rightarrow> ''matches '' @ py_repr src)"

definition location_label :: "location_pattern \<Rightarrow> string" where
  "location_label lo =
     (let parts = (case lo_host lo of None \<Rightarrow> [] | Some p \<Rightarrow> [''host '' @ part_text p]) @
        (case lo_path lo of None \<Rightarrow> [] | Some p \<Rightarrow> [''path '' @ part_text p]) @
        map (\<lambda>(n, e). ''query '' @ py_repr n @ '' '' @ expected_text e) (lo_query lo) @
        (case lo_contains lo of None \<Rightarrow> [] | Some s \<Rightarrow> [''contains '' @ py_repr s]) in
      ''location '' @ (if parts = [] then ''is present'' else join '' and '' parts))"

section \<open>Predicates\<close>

record predicate =
  pt_test :: "resp_context \<Rightarrow> bool"
  pt_label :: string

definition both :: "predicate \<Rightarrow> predicate \<Rightarrow> predicate" where
  "both p q = \<lparr>pt_test = (\<lambda>ctx. pt_test p ctx \<and> pt_test q ctx), pt_label = ''('' @ pt_label p @ '' and '' @ pt_label q @ '')''\<rparr>"

definition either :: "predicate \<Rightarrow> predicate \<Rightarrow> predicate" where
  "either p q = \<lparr>pt_test = (\<lambda>ctx. pt_test p ctx \<or> pt_test q ctx), pt_label = ''('' @ pt_label p @ '' or '' @ pt_label q @ '')''\<rparr>"

definition negated :: "predicate \<Rightarrow> predicate" where
  "negated p = \<lparr>pt_test = (\<lambda>ctx. \<not> pt_test p ctx), pt_label = ''not '' @ pt_label p\<rparr>"

definition location_predicate :: "location_pattern \<Rightarrow> predicate" where
  "location_predicate lo = \<lparr>pt_test = location_claims lo, pt_label = location_label lo\<rparr>"

text \<open>Text that does not decode satisfies no comparison.\<close>

definition text_test :: "(string \<Rightarrow> bool) \<Rightarrow> resp_context \<Rightarrow> bool" where
  "text_test f ctx = (case text_of ctx of Inl _ \<Rightarrow> False | Inr s \<Rightarrow> f s)"

definition body_startswith_bytes :: "string \<Rightarrow> resp_context \<Rightarrow> bool" where
  "body_startswith_bytes p ctx = prefix p (cx_body ctx)"

definition body_startswith_text :: "string \<Rightarrow> resp_context \<Rightarrow> bool" where
  "body_startswith_text p = text_test (prefix p)"

definition contains_text :: "bool \<Rightarrow> string \<Rightarrow> string \<Rightarrow> bool" where
  "contains_text ignore_case needle s =
     (find_sub (if ignore_case then lower needle else needle) (if ignore_case then lower s else s) \<noteq> None)"

definition body_contains_bytes :: "bool \<Rightarrow> string \<Rightarrow> resp_context \<Rightarrow> bool" where
  "body_contains_bytes ignore_case needle ctx = contains_text ignore_case needle (cx_body ctx)"

definition body_contains_text :: "bool \<Rightarrow> string \<Rightarrow> resp_context \<Rightarrow> bool" where
  "body_contains_text ignore_case needle = text_test (contains_text ignore_case needle)"

definition body_is_empty :: "resp_context \<Rightarrow> bool" where
  "body_is_empty ctx \<longleftrightarrow> cx_body ctx = []"

definition media_text :: "resp_context \<Rightarrow> string" where
  "media_text ctx = bare_media (case content_type_of ctx of Some t \<Rightarrow> t | None \<Rightarrow> [])"

definition media_is :: "string \<Rightarrow> resp_context \<Rightarrow> bool" where
  "media_is t ctx \<longleftrightarrow> media_text ctx = lower t"

definition media_startswith :: "string \<Rightarrow> resp_context \<Rightarrow> bool" where
  "media_startswith t ctx = prefix (lower t) (media_text ctx)"

definition status_in :: "int \<Rightarrow> int \<Rightarrow> resp_context \<Rightarrow> bool" where
  "status_in a b ctx \<longleftrightarrow> a \<le> cx_status ctx \<and> cx_status ctx \<le> b"

definition header_present :: "string \<Rightarrow> resp_context \<Rightarrow> bool" where
  "header_present n ctx \<longleftrightarrow> header_get (cx_headers ctx) n \<noteq> None"

definition header_is :: "string \<Rightarrow> string \<Rightarrow> resp_context \<Rightarrow> bool" where
  "header_is n v ctx \<longleftrightarrow> header_get (cx_headers ctx) n = Some v"

definition header_contains :: "string \<Rightarrow> string \<Rightarrow> resp_context \<Rightarrow> bool" where
  "header_contains n s ctx = (case header_get (cx_headers ctx) n of None \<Rightarrow> False | Some v \<Rightarrow> find_sub s v \<noteq> None)"

section \<open>The sources of a model's fields\<close>

datatype response_source =
    FromHeader string
  | FromCookie string
  | LocationSource location_pattern
  | LocationQuery string
  | Selector
  | FirstOf "response_source list"

text \<open>\<open>A | B\<close>: a \<open>Location\<close> pattern is no alternative, and a chain within a chain is flattened.\<close>

fun flatten_sources :: "response_source list \<Rightarrow> sdk_error + response_source list" where
  "flatten_sources [] = Inr []"
| "flatten_sources (FirstOf xs # rest) = bindE (flatten_sources rest) (\<lambda>ys. Inr (xs @ ys))"
| "flatten_sources (LocationSource _ # rest) = Inl (PlanError ''a Location(...) pattern stands on a field alone'')"
| "flatten_sources (s # rest) = bindE (flatten_sources rest) (\<lambda>ys. Inr (s # ys))"

definition first_of :: "response_source list \<Rightarrow> sdk_error + response_source" where
  "first_of xs =
     bindE (flatten_sources xs) (\<lambda>flat.
       if length flat < 2 then Inl (PlanError ''FirstOf(...) takes at least two sources; one source needs no choice'')
       else Inr (FirstOf flat))"

definition states_the_response :: "response_source \<Rightarrow> bool" where
  "states_the_response s =
     (case s of
        LocationQuery _ \<Rightarrow> True
      | FirstOf xs \<Rightarrow> list_ex (\<lambda>x. case x of LocationQuery _ \<Rightarrow> True | _ \<Rightarrow> False) xs
      | _ \<Rightarrow> False)"

text \<open>A field with the markers found on it; \<open>fl_admits_none\<close> and \<open>fl_every_value\<close> are read off its annotation.\<close>

record response_field =
  fl_name :: string
  fl_validation :: "string option"
  fl_wire :: string
  fl_required :: bool
  fl_admits_none :: bool
  fl_every_value :: bool
  fl_sources :: "response_source list"

definition around_body :: "response_source \<Rightarrow> bool" where
  "around_body s = (case s of Selector \<Rightarrow> False | _ \<Rightarrow> True)"

definition input_name :: "response_field \<Rightarrow> string" where
  "input_name f = (case fl_validation f of Some (c # s) \<Rightarrow> c # s | _ \<Rightarrow> fl_name f)"

definition header_error :: "string \<Rightarrow> sdk_error" where
  "header_error m = PyError (''HeaderValidationError: '' @ m)"

definition source_of :: "response_field \<Rightarrow> sdk_error + response_source option" where
  "source_of f =
     (case filter around_body (fl_sources f) of
        [] \<Rightarrow> Inr None
      | [s] \<Rightarrow> Inr (Some s)
      | _ \<Rightarrow> Inl (header_error (''Response field '' @ py_repr (fl_name f) @ '' declares multiple sources'')))"

text \<open>\<open>_around_the_body\<close> and \<open>is_header_model\<close>.\<close>

definition around_the_body :: "response_source option \<Rightarrow> bool" where
  "around_the_body s =
     (case s of None \<Rightarrow> False | Some (FirstOf xs) \<Rightarrow> list_all around_body xs | Some _ \<Rightarrow> True)"

definition is_header_model :: "response_field list option \<Rightarrow> sdk_error + bool" where
  "is_header_model known =
     (case known of
        None \<Rightarrow> Inr False
      | Some fs \<Rightarrow> bindE (mapE source_of fs) (\<lambda>ss. Inr (fs \<noteq> [] \<and> list_all around_the_body ss)))"

definition header_source :: "resp_context \<Rightarrow> string \<Rightarrow> sdk_error + pyval option" where
  "header_source ctx name =
     (case getall (cx_headers ctx) name of
        [] \<Rightarrow> Inr None
      | [line] \<Rightarrow> Inr (Some (PStr line))
      | _ \<Rightarrow> Inl (header_error (''Response header '' @ py_repr name @ '' occurs more than once'')))"

definition cookie_source :: "resp_context \<Rightarrow> string \<Rightarrow> sdk_error + pyval option" where
  "cookie_source ctx name =
     bindE (response_cookies ctx) (\<lambda>cs.
       Inr (case filter (\<lambda>p. fst p = name) cs of [] \<Rightarrow> None | found \<Rightarrow> Some (PStr (snd (last found)))))"

definition location_source :: "resp_context \<Rightarrow> response_field \<Rightarrow> response_source \<Rightarrow> pyval option" where
  "location_source ctx f s =
     (case resolved_target ctx of
        None \<Rightarrow> None
      | Some target \<Rightarrow>
          (case s of
             LocationSource lo \<Rightarrow> if holds lo target then Some (PStr (rl_url target)) else None
           | LocationQuery name \<Rightarrow>
               map_option (\<lambda>values. if fl_every_value f then PList (map PStr values) else PStr (hd values))
                 (map_of (rl_query target) name)
           | _ \<Rightarrow> None))"

text \<open>What a selector has read already, under the first of the field's names that holds something.\<close>

fun extracted_value :: "(string, pyval) dict \<Rightarrow> string list \<Rightarrow> pyval option" where
  "extracted_value d [] = None"
| "extracted_value d (k # ks) =
     (case map_of d k of
        Some v \<Rightarrow> if v \<noteq> PNone then Some v else extracted_value d ks
      | None \<Rightarrow> extracted_value d ks)"

definition one_source ::
  "resp_context \<Rightarrow> response_field \<Rightarrow> (string, pyval) dict \<Rightarrow> response_source \<Rightarrow> sdk_error + pyval option" where
  "one_source ctx f extracted s =
     (case s of
        FromHeader name \<Rightarrow> header_source ctx name
      | FromCookie name \<Rightarrow> cookie_source ctx name
      | LocationQuery _ \<Rightarrow> Inr (location_source ctx f s)
      | _ \<Rightarrow> Inr (extracted_value extracted [fl_wire f, input_name f, fl_name f]))"

fun chain_value ::
  "resp_context \<Rightarrow> response_field \<Rightarrow> (string, pyval) dict \<Rightarrow> response_source list \<Rightarrow> sdk_error + pyval option" where
  "chain_value ctx f extracted [] = Inr None"
| "chain_value ctx f extracted (s # ss) =
     bindE (one_source ctx f extracted s) (\<lambda>found.
       case found of Some v \<Rightarrow> Inr (Some v) | None \<Rightarrow> chain_value ctx f extracted ss)"

text \<open>\<open>merged.pop(key, None)\<close>.\<close>

definition without_keys :: "string list \<Rightarrow> (string, pyval) dict \<Rightarrow> (string, pyval) dict" where
  "without_keys ks d = filter (\<lambda>p. fst p \<notin> set ks) d"

text \<open>One turn of the loop: \<open>None\<close> says that the case is not this response.\<close>

definition source_step ::
  "resp_context \<Rightarrow> response_field \<Rightarrow> response_source \<Rightarrow> (string, pyval) dict \<Rightarrow>
     sdk_error + (string, pyval) dict option" where
  "source_step ctx f s merged =
     (let name = input_name f;
          rest = without_keys [fl_name f, name] merged;
          put = (\<lambda>d v. Some (AList.update name v d)) in
      case s of
        FirstOf chain \<Rightarrow>
          bindE (chain_value ctx f merged chain) (\<lambda>found.
            let left = without_keys [fl_name f, name, fl_wire f] merged in
            case found of
              Some v \<Rightarrow> Inr (put left v)
            | None \<Rightarrow>
                if fl_admits_none f then Inr (if fl_required f then put left PNone else Some left)
                else if states_the_response s then Inr None
                else if fl_required f
                then Inl (header_error (''Response field '' @ py_repr (fl_name f) @ '' was found in none of its sources''))
                else Inr (Some left))
      | FromHeader header \<Rightarrow>
          bindE (header_source ctx header) (\<lambda>found.
            case found of
              Some v \<Rightarrow> Inr (put rest v)
            | None \<Rightarrow> if fl_required f then Inl (header_error (''Required response header '' @ py_repr header @ '' is missing''))
                else Inr (Some rest))
      | FromCookie cookie \<Rightarrow>
          bindE (cookie_source ctx cookie) (\<lambda>found.
            case found of
              Some v \<Rightarrow> Inr (put rest v)
            | None \<Rightarrow> if fl_required f then Inl (header_error (''Required response cookie '' @ py_repr cookie @ '' is missing''))
                else Inr (Some rest))
      | _ \<Rightarrow>
          (case location_source ctx f s of
             Some v \<Rightarrow> Inr (put rest v)
           | None \<Rightarrow>
               if \<not> fl_admits_none f then Inr None
               else Inr (if fl_required f then put rest PNone else Some rest)))"

fun sources_loop ::
  "resp_context \<Rightarrow> (response_field \<times> response_source) list \<Rightarrow> (string, pyval) dict \<Rightarrow>
     sdk_error + (string, pyval) dict option" where
  "sources_loop ctx [] merged = Inr (Some merged)"
| "sources_loop ctx ((f, s) # rest) merged =
     bindE (source_step ctx f s merged) (\<lambda>next.
       case next of None \<Rightarrow> Inr None | Some d \<Rightarrow> sources_loop ctx rest d)"

definition declared_sources :: "response_field list \<Rightarrow> sdk_error + (response_field \<times> response_source) list" where
  "declared_sources fs =
     bindE (mapE source_of fs) (\<lambda>ss.
       Inr (concat (map (\<lambda>(f, s). case s of None \<Rightarrow> [] | Some x \<Rightarrow> [(f, x)]) (zip fs ss))))"

text \<open>\<open>apply_response_sources\<close>; the fields of a type no adapter knows are \<open>None\<close>.\<close>

definition apply_response_sources ::
  "response_field list option \<Rightarrow> pyval \<Rightarrow> resp_context \<Rightarrow> sdk_error + pyval option" where
  "apply_response_sources known v ctx =
     (case known of
        None \<Rightarrow> Inr (Some v)
      | Some fs \<Rightarrow>
          bindE (declared_sources fs) (\<lambda>declared.
            if declared = [] then Inr (Some v)
            else case v of
              PDict d \<Rightarrow> map_sum id (map_option PDict) (sources_loop ctx declared d)
            | _ \<Rightarrow> Inl (header_error ''A response model with FromHeader fields requires a JSON object body'')))"

section \<open>Globs: lemmas\<close>

text \<open>The words a glob stands for.\<close>

inductive glob_word :: "string \<Rightarrow> string \<Rightarrow> bool" where
  empty: "glob_word [] []"
| star: "glob_word ps s \<Longrightarrow> glob_word (CHR ''*'' # ps) (run @ s)"
| same: "c \<noteq> CHR ''*'' \<Longrightarrow> glob_word ps s \<Longrightarrow> glob_word (c # ps) (c # s)"

inductive_cases glob_word_Nil: "glob_word [] s"
inductive_cases glob_word_Cons: "glob_word (p # ps) s"

lemma glob_match_star: "glob_match ps s \<Longrightarrow> glob_match (CHR ''*'' # ps) (run @ s)"
proof (induction run)
  case Nil
  then show ?case by (cases s) auto
qed simp

lemma glob_match_sound: "glob_match ps s \<Longrightarrow> glob_word ps s"
proof (induction ps s rule: glob_match.induct)
  case (2 p ps)
  then have "p = CHR ''*''" "glob_word ps []" by auto
  then show ?case using glob_word.star [of ps "[]" "[]"] by simp
next
  case (3 p ps c s)
  show ?case
  proof (cases "p = CHR ''*''")
    case True
    then consider "glob_word ps (c # s)" | "glob_word (p # ps) s" using 3 by (auto split: if_splits)
    then show ?thesis
    proof cases
      case 1
      then show ?thesis using glob_word.star [of ps "c # s" "[]"] True by simp
    next
      case 2
      then obtain run t where "s = run @ t" "glob_word ps t" using True by (auto elim: glob_word_Cons)
      then show ?thesis using glob_word.star [of ps t "c # run"] True by simp
    qed
  next
    case False
    then show ?thesis using 3 by (auto intro: glob_word.same)
  qed
qed (auto intro: glob_word.empty)

text \<open>
  A glob in a \<open>Location\<close> matches exactly the words it stands for: a star is any run of characters,
  everything else itself. So a pattern without stars matches itself only, and one that ends in a star
  matches what begins with the rest.
\<close>

lemma glob_match_iff:
  "(glob_match g s \<longleftrightarrow> glob_word g s) \<and>
   (CHR ''*'' \<notin> set g \<longrightarrow> (glob_match g s \<longleftrightarrow> s = g) \<and> (glob_match (g @ ''*'') s \<longleftrightarrow> prefix g s))"
proof -
  have iff: "glob_match g s \<longleftrightarrow> glob_word g s" for g s
  proof
    show "glob_match g s" if "glob_word g s"
      using that by induction (auto simp: glob_match_star)
  qed (rule glob_match_sound)
  have plain: "(glob_match g s \<longleftrightarrow> s = g) \<and> (glob_match (g @ ''*'') s \<longleftrightarrow> prefix g s)" if "CHR ''*'' \<notin> set g" for s
    using that
  proof (induction g arbitrary: s)
    case Nil
    have "glob_match ''*'' s" using glob_match_star [of "[]" "[]" s] by simp
    then show ?case by simp
  next
    case (Cons p g)
    then show ?case by (cases s) auto
  qed
  then show ?thesis using iff by blast
qed

section \<open>Sources: lemmas\<close>

text \<open>What a source has for a field, given what the body holds.\<close>

definition source_reading ::
  "resp_context \<Rightarrow> response_field \<Rightarrow> response_source \<Rightarrow> (string, pyval) dict \<Rightarrow> sdk_error + pyval option" where
  "source_reading ctx f s d =
     (case s of
        FirstOf chain \<Rightarrow> chain_value ctx f d chain
      | FromHeader _ \<Rightarrow> one_source ctx f d s
      | FromCookie _ \<Rightarrow> one_source ctx f d s
      | _ \<Rightarrow> Inr (location_source ctx f s))"

definition says_which :: "response_source \<Rightarrow> bool" where
  "says_which s = (case s of LocationSource _ \<Rightarrow> True | Selector \<Rightarrow> True | _ \<Rightarrow> states_the_response s)"

text \<open>The keys of the body a field with a source takes away.\<close>

definition claimed_keys :: "response_field \<times> response_source \<Rightarrow> string list" where
  "claimed_keys p =
     (case p of (f, s) \<Rightarrow> [fl_name f, input_name f] @ (case s of FirstOf _ \<Rightarrow> [fl_wire f] | _ \<Rightarrow> []))"

fun apart :: "(response_field \<times> response_source) list \<Rightarrow> bool" where
  "apart [] = True"
| "apart (p # ps) \<longleftrightarrow> list_all (\<lambda>q. list_all (\<lambda>k. k \<notin> set (claimed_keys q)) (claimed_keys p)) ps \<and> apart ps"

definition filled_with :: "response_field \<Rightarrow> pyval option \<Rightarrow> pyval option" where
  "filled_with f found =
     (case found of Some v \<Rightarrow> Some v | None \<Rightarrow> if fl_required f then Some PNone else None)"

lemma map_of_filter_keys: "map_of (filter (\<lambda>p. fst p \<notin> A) d) k = (if k \<in> A then None else map_of d k)"
  by (induction d) auto

lemma map_of_without_keys [simp]: "map_of (without_keys ks d) k = (if k \<in> set ks then None else map_of d k)"
  by (simp add: without_keys_def map_of_filter_keys)

lemma extracted_value_cong:
  "(\<And>k. k \<in> set ks \<Longrightarrow> map_of d k = map_of e k) \<Longrightarrow> extracted_value d ks = extracted_value e ks"
proof (induction ks)
  case (Cons k ks)
  then have "extracted_value d ks = extracted_value e ks" "map_of d k = map_of e k" by simp_all
  then show ?case by (simp split: option.split)
qed simp

lemma first_found_cong:
  assumes "\<And>k. k \<in> {fl_wire f, input_name f, fl_name f} \<Longrightarrow> map_of d k = map_of e k"
  shows "chain_value ctx f d chain = chain_value ctx f e chain"
proof (induction chain)
  case (Cons s chain)
  have "extracted_value d [fl_wire f, input_name f, fl_name f] = extracted_value e [fl_wire f, input_name f, fl_name f]"
    using assms by (intro extracted_value_cong) auto
  then have "one_source ctx f d s = one_source ctx f e s"
    by (simp add: one_source_def split: response_source.split)
  then show ?case using Cons by (simp only: chain_value.simps)
qed simp

lemma source_reading_cong:
  assumes "\<And>k. k \<in> set (claimed_keys (f, s)) \<Longrightarrow> map_of d k = map_of e k"
  shows "source_reading ctx f s d = source_reading ctx f s e"
proof (cases s)
  case (FirstOf chain)
  then have "chain_value ctx f d chain = chain_value ctx f e chain"
    using assms by (intro first_found_cong) (auto simp: claimed_keys_def)
  then show ?thesis using FirstOf by (simp add: source_reading_def)
qed (simp_all add: source_reading_def one_source_def)

lemma source_step_reads:
  assumes "source_step ctx f s d = Inr (Some e)"
  obtains found where "source_reading ctx f s d = Inr found"
    "map_of e (input_name f) = filled_with f found"
    "\<And>k. k \<notin> set (claimed_keys (f, s)) \<Longrightarrow> map_of e k = map_of d k"
proof (cases s)
  case (FirstOf chain)
  obtain found where "chain_value ctx f d chain = Inr found"
    using assms FirstOf by (cases "chain_value ctx f d chain") (simp_all add: source_step_def Let_def)
  then show ?thesis
    using assms FirstOf
    by (intro that [of found])
      (auto simp: source_step_def Let_def source_reading_def filled_with_def claimed_keys_def update_conv'
        split: option.splits if_splits)
next
  case (FromHeader h)
  obtain found where "header_source ctx h = Inr found"
    using assms FromHeader by (cases "header_source ctx h") (simp_all add: source_step_def Let_def)
  then show ?thesis
    using assms FromHeader
    by (intro that [of found])
      (auto simp: source_step_def Let_def source_reading_def one_source_def filled_with_def claimed_keys_def update_conv'
        split: option.splits if_splits)
next
  case (FromCookie h)
  obtain found where "cookie_source ctx h = Inr found"
    using assms FromCookie by (cases "cookie_source ctx h") (simp_all add: source_step_def Let_def)
  then show ?thesis
    using assms FromCookie
    by (intro that [of found])
      (auto simp: source_step_def Let_def source_reading_def one_source_def filled_with_def claimed_keys_def update_conv'
        split: option.splits if_splits)
qed (use assms in \<open>(intro that [of "location_source ctx f s"];
      auto simp: source_step_def Let_def source_reading_def filled_with_def claimed_keys_def update_conv'
        split: option.splits if_splits)\<close>)+

lemma source_step_no_match:
  assumes "source_step ctx f s d = Inr None"
  shows "\<not> fl_admits_none f \<and> says_which s \<and> source_reading ctx f s d = Inr None"
proof (cases s)
  case (FirstOf chain)
  then show ?thesis
    using assms by (cases "chain_value ctx f d chain")
      (auto simp: source_step_def Let_def source_reading_def says_which_def split: option.splits if_splits)
next
  case (FromHeader h)
  then show ?thesis
    using assms by (cases "header_source ctx h") (auto simp: source_step_def Let_def split: option.splits if_splits)
next
  case (FromCookie h)
  then show ?thesis
    using assms by (cases "cookie_source ctx h") (auto simp: source_step_def Let_def split: option.splits if_splits)
qed (use assms in \<open>auto simp: source_step_def Let_def source_reading_def says_which_def states_the_response_def
        split: option.splits if_splits\<close>)

lemma sources_loop_fills:
  "sources_loop ctx ds d = Inr (Some e) \<Longrightarrow> apart ds \<Longrightarrow>
   (\<forall>(f, s) \<in> set ds. map_sum id (filled_with f) (source_reading ctx f s d) = Inr (map_of e (input_name f))) \<and>
   (\<forall>k. (\<forall>p \<in> set ds. k \<notin> set (claimed_keys p)) \<longrightarrow> map_of e k = map_of d k)"
proof (induction ds arbitrary: d)
  case (Cons p ds)
  obtain f s where p: "p = (f, s)" by fastforce
  obtain d' where step: "source_step ctx f s d = Inr (Some d')" and rest: "sources_loop ctx ds d' = Inr (Some e)"
    using Cons.prems(1) by (auto simp: p bindE_Inr_iff split: option.splits)
  obtain found where found: "source_reading ctx f s d = Inr found"
    "map_of d' (input_name f) = filled_with f found"
    "\<And>k. k \<notin> set (claimed_keys (f, s)) \<Longrightarrow> map_of d' k = map_of d k"
    using source_step_reads [OF step] by blast
  have away: "k \<notin> set (claimed_keys q)" if "q \<in> set ds" "k \<in> set (claimed_keys (f, s))" for q k
    using Cons.prems(2) that by (auto simp: p list_all_iff)
  have "apart ds" using Cons.prems(2) by simp
  note IH = conjunct1 [OF Cons.IH [OF rest this]] conjunct2 [OF Cons.IH [OF rest this]]
  have own: "map_of e (input_name f) = map_of d' (input_name f)"
    using spec [OF IH(2), of "input_name f"] away [of _ "input_name f"] by (simp add: claimed_keys_def)
  have same: "source_reading ctx g t d = source_reading ctx g t d'" if "(g, t) \<in> set ds" for g t
  proof (rule source_reading_cong)
    fix k assume "k \<in> set (claimed_keys (g, t))"
    then have "k \<notin> set (claimed_keys (f, s))" using away that by blast
    then show "map_of d k = map_of d' k" using found(3) by simp
  qed
  have "map_sum id (filled_with g) (source_reading ctx g t d) = Inr (map_of e (input_name g))"
    if "(g, t) \<in> set (p # ds)" for g t
  proof (cases "(g, t) = p")
    case True
    then show ?thesis using found(1,2) own by (simp add: p)
  next
    case False
    then have "(g, t) \<in> set ds" using that by auto
    then show ?thesis using bspec [OF IH(1), of "(g, t)"] same by (simp add: id_def)
  qed
  moreover have "map_of e k = map_of d k" if "\<forall>q \<in> set (p # ds). k \<notin> set (claimed_keys q)" for k
    using IH(2) found(3) that by (simp add: p)
  ultimately show ?case by blast
qed simp

lemma sources_loop_no_match:
  "sources_loop ctx ds d = Inr None \<Longrightarrow> apart ds \<Longrightarrow>
   \<exists>(f, s) \<in> set ds. \<not> fl_admits_none f \<and> says_which s \<and> source_reading ctx f s d = Inr None"
proof (induction ds arbitrary: d)
  case (Cons p ds)
  obtain f s where p: "p = (f, s)" by fastforce
  show ?case
  proof (cases "source_step ctx f s d = Inr None")
    case True
    then show ?thesis using source_step_no_match [OF True] by (auto simp: p)
  next
    case False
    then obtain d' where step: "source_step ctx f s d = Inr (Some d')" and rest: "sources_loop ctx ds d' = Inr None"
      using Cons.prems(1) by (auto simp: p bindE_Inr_iff split: option.splits)
    obtain g t where g: "(g, t) \<in> set ds" "\<not> fl_admits_none g" "says_which t" "source_reading ctx g t d' = Inr None"
      using Cons.IH [OF rest] Cons.prems(2) by (auto simp: p)
    have "k \<notin> set (claimed_keys (g, t))" if "k \<in> set (claimed_keys (f, s))" for k
      using Cons.prems(2) that g(1) by (auto simp: p list_all_iff)
    then have "source_reading ctx g t d = source_reading ctx g t d'"
      using source_step_reads [OF step] by (intro source_reading_cong) metis
    then show ?thesis using g by auto
  qed
qed simp

text \<open>
  A field with a source is filled by its source alone. When the declared fields claim different keys, the
  merged input of the model holds, under each field's input name, what its source has (nothing for an optional
  field whose source is silent, \<open>None\<close> for a required one that may be \<open>None\<close>), whatever the body held there;
  every other key keeps the body's value. And the response counts as another case only where a field that states
  which response this is, and may not be empty, found nothing.
\<close>

lemma sources_fill_their_fields:
  assumes "declared_sources fs = Inr ds" "ds \<noteq> []" "apart ds"
    and "apply_response_sources (Some fs) (PDict d) ctx = Inr r"
  shows "case r of
      None \<Rightarrow> \<exists>(f, s) \<in> set ds. \<not> fl_admits_none f \<and> says_which s \<and> source_reading ctx f s d = Inr None
    | Some v \<Rightarrow> \<exists>e. v = PDict e \<and>
        (\<forall>(f, s) \<in> set ds. map_sum id (filled_with f) (source_reading ctx f s d) = Inr (map_of e (input_name f))) \<and>
        (\<forall>k. (\<forall>p \<in> set ds. k \<notin> set (claimed_keys p)) \<longrightarrow> map_of e k = map_of d k)"
proof -
  obtain r' where loop: "sources_loop ctx ds d = Inr r'" and r: "r = map_option PDict r'"
    using assms by (cases "sources_loop ctx ds d") (auto simp: apply_response_sources_def)
  show ?thesis
  proof (cases r')
    case None
    then show ?thesis using sources_loop_no_match loop assms(3) r by simp
  next
    case (Some e)
    then show ?thesis using sources_loop_fills [of ctx ds d e] loop assms(3) r by simp
  qed
qed

definition sample_context :: "header_lines \<Rightarrow> resp_context" where
  "sample_context hs =
     \<lparr>cx_status = 302, cx_url = ''https://a.io/'', cx_headers = hs, cx_body = ''{}'', cx_effective = None,
      cx_decode = (\<lambda>_ b. Inr b), cx_loads = (\<lambda>_. Inr (PDict [])), cx_morsels = (\<lambda>_. Inr []),
      cx_resolve = (\<lambda>_ l. Some \<lparr>rl_url = l, rl_host = ''a.io'', rl_path = l, rl_query = []\<rparr>)\<rparr>"

definition sample_field :: "string \<Rightarrow> response_source \<Rightarrow> response_field" where
  "sample_field n s =
     \<lparr>fl_name = n, fl_validation = None, fl_wire = n, fl_required = True, fl_admits_none = False,
      fl_every_value = False, fl_sources = [s]\<rparr>"

lemma sources_fill_their_fields_witness:
  "\<exists>e. apply_response_sources (Some [sample_field ''id'' (FromHeader ''X-Id'')])
          (PDict [(''id'', PStr ''body''), (''n'', PInt 1)]) (sample_context [(''x-id'', ''7'')]) = Inr (Some (PDict e)) \<and>
       map_of e ''id'' = Some (PStr ''7'') \<and> map_of e ''n'' = Some (PInt 1)"
proof -
  let ?f = "sample_field ''id'' (FromHeader ''X-Id'')" and ?ctx = "sample_context [(''x-id'', ''7'')]"
  let ?d = "[(''id'', PStr ''body''), (''n'', PInt 1)]"
  have run: "apply_response_sources (Some [?f]) (PDict ?d) ?ctx = Inr (Some (PDict [(''n'', PInt 1), (''id'', PStr ''7'')]))"
    by code_simp
  have "declared_sources [?f] = Inr [(?f, FromHeader ''X-Id'')]" by (simp add: declared_sources_def source_of_def sample_field_def around_body_def)
  from sources_fill_their_fields [OF this _ _ run]
  show ?thesis using run
    by (simp add: claimed_keys_def sample_field_def input_name_def source_reading_def one_source_def filled_with_def)
qed

text \<open>
  Fields whose names cross lose one another's value: a field stored as \<open>b\<close> and validated as \<open>a\<close> takes away
  what the field validated as \<open>b\<close> had just been given.
\<close>

lemma crossed_names_lose_a_value:
  "(let f = sample_field ''a'' (FromHeader ''X-A'')\<lparr>fl_validation := Some ''b''\<rparr>;
        g = sample_field ''b'' (FromHeader ''X-B'')\<lparr>fl_validation := Some ''a''\<rparr> in
    apply_response_sources (Some [f, g]) (PDict []) (sample_context [(''x-a'', ''1''), (''x-b'', ''2'')]))
   = Inr (Some (PDict [(''a'', PStr ''2'')]))"
  by code_simp

text \<open>Only an unknown encoding falls back to UTF-8: a codec that raises another error is let through.\<close>

lemma failing_codec_escapes:
  "text_of (sample_context [(''content-type'', ''text/html; charset=undefined'')]
     \<lparr>cx_decode := (\<lambda>c b. if c = ''undefined'' then Inl (PyError ''UnicodeError'') else Inr b)\<rparr>) =
   Inl (PyError ''UnicodeError'')"
  by code_simp

end
