(* ===== verification/Markers.thy ===== *)
theory Markers
  imports Responses
begin

text \<open>
  What a response model states about itself (\<open>response/markers.py\<close>): the constants a field must or must
  not hold, the payload and the location, read from the annotations of the class.

  An annotation is the data the code inspects, with type aliases unrolled and the arguments of a generic
  model filled in; the values of a \<open>Literal\<close> and the constants are \<open>pyval\<close>s. A parsed object is the
  dictionary of its attributes.
\<close>

section \<open>Constants\<close>

datatype stated = Const pyval | OneOf "pyval list" | NotOf "pyval list"

fun constant_text :: "pyval \<Rightarrow> string" where
  "constant_text PNone = ''None''"
| "constant_text (PBool b) = (if b then ''True'' else ''False'')"
| "constant_text (PStr s) = py_repr s"
| "constant_text _ = ''...''"

definition is_constant :: "pyval \<Rightarrow> bool" where
  "is_constant v = (case v of PStr _ \<Rightarrow> True | PInt _ \<Rightarrow> True | PBool _ \<Rightarrow> True | PNone \<Rightarrow> True | _ \<Rightarrow> False)"

definition no_constant :: "string \<Rightarrow> pyval \<Rightarrow> sdk_error" where
  "no_constant marker v = PlanError (marker @ ''('' @ constant_text v @ '') is not a constant a schema states'')"

definition new_const :: "pyval \<Rightarrow> sdk_error + stated" where
  "new_const v = (if is_constant v then Inr (Const v) else Inl (no_constant ''Const'' v))"

definition check_constants :: "string \<Rightarrow> pyval list \<Rightarrow> sdk_error + unit" where
  "check_constants marker vs =
     (if vs = [] then Inl (PlanError (marker @ ''() names no constant; a tag states at least one''))
      else foldE (\<lambda>_ v. if is_constant v then Inr () else Inl (no_constant marker v)) () vs)"

definition new_one_of :: "pyval list \<Rightarrow> sdk_error + stated" where
  "new_one_of vs = bindE (check_constants ''OneOf'' vs) (\<lambda>_. Inr (OneOf vs))"

definition new_not :: "pyval list \<Rightarrow> sdk_error + stated" where
  "new_not vs = bindE (check_constants ''Not'' vs) (\<lambda>_. Inr (NotOf vs))"

section \<open>Tags\<close>

datatype relation = Equals | IsIn | Differs

record tag =
  tg_name :: string
  tg_value :: pyval
  tg_relation :: relation
  tg_values :: "pyval list"

text \<open>\<open>_read\<close>: an item of a mapping, else an attribute; what has neither raises.\<close>

definition read_value :: "pyval \<Rightarrow> string \<Rightarrow> sdk_error + pyval" where
  "read_value v n =
     (case v of
        PDict d \<Rightarrow> (case map_of d n of Some x \<Rightarrow> Inr x | None \<Rightarrow> Inl (PyError ''KeyError''))
      | _ \<Rightarrow> Inl (PyError ''AttributeError''))"

text \<open>\<open>_same\<close> compares the types too, so \<open>1\<close> is not \<open>True\<close>: equality of \<open>pyval\<close>s.\<close>

definition same_constant :: "pyval \<Rightarrow> pyval \<Rightarrow> bool" where
  "same_constant actual expected \<longleftrightarrow> actual = expected"

definition tag_holds :: "tag \<Rightarrow> pyval \<Rightarrow> bool" where
  "tag_holds t v =
     (case read_value v (tg_name t) of
        Inl _ \<Rightarrow> False
      | Inr actual \<Rightarrow>
          (case tg_relation t of
             IsIn \<Rightarrow> list_ex (same_constant actual) (tg_values t)
           | Differs \<Rightarrow> \<not> list_ex (same_constant actual) (if tg_values t = [] then [tg_value t] else tg_values t)
           | Equals \<Rightarrow> same_constant actual (tg_value t)))"

section \<open>Annotations\<close>

text \<open>
  A class by its name, with whether it is generic without arguments; a subscripted generic or a
  protocol is \<open>OtherA\<close> with its text and whether it has a free parameter.
\<close>

datatype field_annotation =
    AnyA
  | TypeA string bool
  | UnionA "field_annotation list"
  | LiteralA "pyval list"
  | ListOfStrA
  | VariableA string
  | OtherA string bool

datatype marker =
    StatedM stated
  | LocationM location_pattern
  | LocationQueryM string
  | PayloadM
  | OtherM

record hint =
  hn_name :: string
  hn_declared :: field_annotation
  hn_metadata :: "marker list"

definition type_name :: "pyval \<Rightarrow> string" where
  "type_name v =
     (case v of PNone \<Rightarrow> ''NoneType'' | PBool _ \<Rightarrow> ''bool'' | PInt _ \<Rightarrow> ''int'' | PStr _ \<Rightarrow> ''str'' | PBytes _ \<Rightarrow> ''bytes''
      | PTuple _ \<Rightarrow> ''tuple'' | PList _ \<Rightarrow> ''list'' | PDict _ \<Rightarrow> ''dict'')"

fun unbound :: "field_annotation \<Rightarrow> bool" where
  "unbound (VariableA _) = True"
| "unbound (TypeA _ open_class) = open_class"
| "unbound (OtherA _ free) = free"
| "unbound (UnionA as) = list_ex unbound as"
| "unbound _ = False"

text \<open>\<open>_admits_none\<close>: \<open>None\<close> in an annotation is \<open>NoneType\<close>.\<close>

fun admits_none :: "field_annotation \<Rightarrow> bool" where
  "admits_none (TypeA n _) \<longleftrightarrow> n = ''NoneType''"
| "admits_none (UnionA as) = list_ex admits_none as"
| "admits_none _ = False"

fun annotation_text :: "field_annotation \<Rightarrow> string" where
  "annotation_text AnyA = ''Any''"
| "annotation_text (TypeA n _) = n"
| "annotation_text (UnionA as) = join '' | '' (map annotation_text as)"
| "annotation_text (LiteralA vs) = ''Literal['' @ join '', '' (map constant_text vs) @ '']''"
| "annotation_text ListOfStrA = ''list[str]''"
| "annotation_text (VariableA n) = n"
| "annotation_text (OtherA s _) = s"

definition members :: "field_annotation \<Rightarrow> field_annotation list" where
  "members a = (case a of UnionA as \<Rightarrow> as | _ \<Rightarrow> [a])"

definition takes_target :: "bool \<Rightarrow> field_annotation \<Rightarrow> bool" where
  "takes_target query a =
     (case a of
        AnyA \<Rightarrow> True
      | TypeA n _ \<Rightarrow> n = ''str'' \<or> n = ''NoneType''
      | ListOfStrA \<Rightarrow> query
      | _ \<Rightarrow> False)"

definition refuse_impossible_location_field ::
  "string \<Rightarrow> string \<Rightarrow> field_annotation \<Rightarrow> bool \<Rightarrow> sdk_error + unit" where
  "refuse_impossible_location_field model n a query =
     (if list_all (takes_target query) (members a) then Inr ()
      else Inl (PlanError ((if query then ''Location.query(...)'' else ''Location(...)'') @ '' on '' @ model @ ''.'' @ n @
        '': the field takes '' @ (if query then ''str or list[str]'' else ''str'') @ '', optionally None, not '' @ annotation_text a)))"

definition literal_values :: "field_annotation \<Rightarrow> pyval list" where
  "literal_values a = (case a of LiteralA vs \<Rightarrow> (if list_all is_constant vs then vs else []) | _ \<Rightarrow> [])"

text \<open>\<open>_accepted_types\<close>; \<open>Any\<close> is a class, so it is one of the types of a union.\<close>

definition class_name :: "field_annotation \<Rightarrow> string option" where
  "class_name a = (case a of TypeA n _ \<Rightarrow> Some n | AnyA \<Rightarrow> Some ''Any'' | _ \<Rightarrow> None)"

definition accepted_types :: "field_annotation \<Rightarrow> string list option" where
  "accepted_types a =
     (case a of
        AnyA \<Rightarrow> None
      | UnionA as \<Rightarrow> (if list_all (\<lambda>m. class_name m \<noteq> None) as then Some (map (\<lambda>m. the (class_name m)) as) else None)
      | LiteralA vs \<Rightarrow> Some (map type_name vs)
      | TypeA n _ \<Rightarrow> Some [n]
      | _ \<Rightarrow> None)"

definition refuse_impossible_constant ::
  "string \<Rightarrow> string \<Rightarrow> field_annotation \<Rightarrow> pyval \<Rightarrow> sdk_error + unit" where
  "refuse_impossible_constant model n a v =
     (case accepted_types a of
        None \<Rightarrow> Inr ()
      | Some ts \<Rightarrow>
          if type_name v \<in> set ts then Inr ()
          else Inl (PlanError (constant_text v @ '' on '' @ model @ ''.'' @ n @ '': a '' @ type_name v @ '' is not a '' @ annotation_text a)))"

section \<open>The declaration of a model\<close>

record payload_field =
  pf_name :: string
  pf_annotation :: field_annotation

record location_field =
  lf_name :: string
  lf_source :: response_source

record model_declaration =
  dc_tags :: "tag list"
  dc_payload :: "payload_field option"
  dc_locations :: "location_field list"

record reading_state =
  rd_tags :: "tag list"
  rd_payloads :: "payload_field list"
  rd_locations :: "location_field list"
  rd_patterns :: "string list"

definition check_payload :: "string \<Rightarrow> hint \<Rightarrow> reading_state \<Rightarrow> sdk_error + reading_state" where
  "check_payload model h st =
     (if \<not> list_ex (\<lambda>m. case m of PayloadM \<Rightarrow> True | _ \<Rightarrow> False) (hn_metadata h) then Inr st
      else if unbound (hn_declared h)
      then Inl (PlanError (model @ ''.'' @ hn_name h @ '' is Payload['' @ annotation_text (hn_declared h) @ ''] and '' @ model @
        '' is used without a parameter; write '' @ model @ ''[Result] where the case is declared''))
      else Inr (st\<lparr>rd_payloads := rd_payloads st @ [\<lparr>pf_name = hn_name h, pf_annotation = hn_declared h\<rparr>]\<rparr>))"

definition location_step :: "string \<Rightarrow> hint \<Rightarrow> reading_state \<Rightarrow> marker \<Rightarrow> sdk_error + reading_state" where
  "location_step model h st item =
     (let note = (\<lambda>src s. if admits_none (hn_declared h) then s
            else s\<lparr>rd_locations := rd_locations s @ [\<lparr>lf_name = hn_name h, lf_source = src\<rparr>]\<rparr>) in
      case item of
        LocationM lo \<Rightarrow>
          bindE (refuse_impossible_location_field model (hn_name h) (hn_declared h) False) (\<lambda>_.
            Inr (note (LocationSource lo) (st\<lparr>rd_patterns := rd_patterns st @ [hn_name h]\<rparr>)))
      | LocationQueryM q \<Rightarrow>
          bindE (refuse_impossible_location_field model (hn_name h) (hn_declared h) True) (\<lambda>_.
            Inr (note (LocationQuery q) st))
      | _ \<Rightarrow> Inr st)"

definition constants_of :: "marker list \<Rightarrow> stated list" where
  "constants_of ms = concat (map (\<lambda>m. case m of StatedM s \<Rightarrow> [s] | _ \<Rightarrow> []) ms)"

definition add_tag :: "string \<Rightarrow> pyval \<Rightarrow> relation \<Rightarrow> pyval list \<Rightarrow> reading_state \<Rightarrow> reading_state" where
  "add_tag n v r vs st = st\<lparr>rd_tags := rd_tags st @ [\<lparr>tg_name = n, tg_value = v, tg_relation = r, tg_values = vs\<rparr>]\<rparr>"

definition tag_step :: "string \<Rightarrow> hint \<Rightarrow> reading_state \<Rightarrow> sdk_error + reading_state" where
  "tag_step model h st =
     (let n = hn_name h; a = hn_declared h;
          fits = foldE (\<lambda>_ v. refuse_impossible_constant model n a v) () in
      case constants_of (hn_metadata h) of
        [] \<Rightarrow> (case literal_values a of [v] \<Rightarrow> Inr (add_tag n v Equals [] st) | _ \<Rightarrow> Inr st)
      | [Const v] \<Rightarrow> bindE (fits [v]) (\<lambda>_. Inr (add_tag n v Equals [] st))
      | [OneOf vs] \<Rightarrow> bindE (fits vs) (\<lambda>_. Inr (add_tag n (hd vs) IsIn vs st))
      | [NotOf vs] \<Rightarrow> bindE (fits vs) (\<lambda>_. Inr (add_tag n (hd vs) Differs (if length vs > 1 then vs else []) st))
      | _ \<Rightarrow> Inl (PlanError (model @ ''.'' @ n @ '' declares several constants; a field states one'')))"

definition hint_step :: "string \<Rightarrow> reading_state \<Rightarrow> hint \<Rightarrow> sdk_error + reading_state" where
  "hint_step model st h =
     bindE (check_payload model h st) (\<lambda>st.
     bindE (foldE (location_step model h) st (hn_metadata h)) (tag_step model h))"

definition read_declaration :: "string \<Rightarrow> hint list \<Rightarrow> sdk_error + model_declaration" where
  "read_declaration model hints =
     bindE (foldE (hint_step model) \<lparr>rd_tags = [], rd_payloads = [], rd_locations = [], rd_patterns = []\<rparr> hints) (\<lambda>st.
       if length (rd_payloads st) > 1
       then Inl (PlanError (model @ '' declares Payload on several fields: '' @ join '', '' (map pf_name (rd_payloads st)) @
              ''; an operation returns one of them''))
       else if length (rd_patterns st) > 1
       then Inl (PlanError (model @ '' declares a Location pattern on several fields: '' @ join '', '' (rd_patterns st) @
              ''; a model states one, and reads the other parts of the target with Location.query(...)''))
       else Inr \<lparr>dc_tags = rd_tags st,
                 dc_payload = (case rd_payloads st of [] \<Rightarrow> None | p # _ \<Rightarrow> Some p),
                 dc_locations = rd_locations st\<rparr>)"

definition states_criteria :: "model_declaration \<Rightarrow> bool" where
  "states_criteria d \<longleftrightarrow> dc_tags d \<noteq> [] \<or> dc_locations d \<noteq> []"

end
