(* ===== verification/Cases.thy ===== *)
theory Cases
  imports Markers Kernel
begin

text \<open>
  The choice among the declared cases of a response (\<open>response/cases.py\<close>): which cases a response is read
  by, what each makes of it, and the outcome.

  A case compares by identity; \<open>cs_id\<close> stands for it. Extractors and parsers of a plugin or of the SDK's
  author, \<open>when=\<close> and \<open>accept=\<close> are functions that may raise; a session of an extractor is asked anew
  for every case, the code keeps it.
\<close>

section \<open>Declarations\<close>

datatype 'v attempt = ParsedValue 'v | NoMatch | Malformed sdk_error

record model =
  md_name :: string
  md_hints :: "hint list"
  md_fields :: "response_field list option"
  md_load :: "pyval \<Rightarrow> sdk_error + pyval"
  md_document :: bool

definition declaration_of :: "model \<Rightarrow> sdk_error + model_declaration" where
  "declaration_of m = read_declaration (md_name m) (md_hints m)"

datatype extractor =
    JsonExtractor "string option"
  | OtherExtractor string "resp_context \<Rightarrow> model \<Rightarrow> sdk_error + pyval attempt"

record response_parser =
  ps_name :: string
  ps_parse :: "resp_context \<Rightarrow> model \<Rightarrow> sdk_error + pyval attempt"

type_synonym accept = "(pyval \<Rightarrow> sdk_error + bool) option"

datatype representation =
    Json "model option" "string option" extractor accept
  | Html "model option" "string option" extractor accept
  | HeaderModel model "string option" accept
  | Extracted model "string option" extractor accept
  | Parsed model "string option" response_parser accept
  | TextR "string option"
  | BytesR "string option"
  | EmptyR "string option"

text \<open>\<open>Json.__post_init__\<close>.\<close>

definition new_json :: "model option \<Rightarrow> string option \<Rightarrow> extractor \<Rightarrow> string option \<Rightarrow> accept \<Rightarrow> sdk_error + representation" where
  "new_json m media x unwrap_at accept =
     (case unwrap_at of
        None \<Rightarrow> Inr (Json m media x accept)
      | Some p \<Rightarrow>
          (case x of
             JsonExtractor None \<Rightarrow> Inr (Json m media (JsonExtractor (Some p)) accept)
           | _ \<Rightarrow> Inl (PyValueError ''Json(unwrap=...) is the standard extractor reading a pointer'')))"

fun media_type :: "representation \<Rightarrow> string option" where
  "media_type (Json _ t _ _) = t"
| "media_type (Html _ t _ _) = t"
| "media_type (HeaderModel _ t _) = t"
| "media_type (Extracted _ t _ _) = t"
| "media_type (Parsed _ t _ _) = t"
| "media_type (TextR t) = t"
| "media_type (BytesR t) = t"
| "media_type (EmptyR t) = t"

fun model_of :: "representation \<Rightarrow> model option" where
  "model_of (Json m _ _ _) = m"
| "model_of (Html m _ _ _) = m"
| "model_of (HeaderModel m _ _) = Some m"
| "model_of (Extracted m _ _ _) = Some m"
| "model_of (Parsed m _ _ _) = Some m"
| "model_of _ = None"

fun accept_of :: "representation \<Rightarrow> accept" where
  "accept_of (Json _ _ _ a) = a"
| "accept_of (Html _ _ _ a) = a"
| "accept_of (HeaderModel _ _ a) = a"
| "accept_of (Extracted _ _ _ a) = a"
| "accept_of (Parsed _ _ _ a) = a"
| "accept_of _ = None"

datatype status_selector = Exact int | StatusRange int int | DefaultStatus

record response_case =
  cs_id :: nat
  cs_success :: bool
  cs_status :: status_selector
  cs_response :: representation
  cs_condition :: "(resp_context \<Rightarrow> sdk_error + bool) option"
  cs_precedence :: int
  cs_reauth :: bool

record responses =
  rs_success :: "response_case list"
  rs_errors :: "response_case list"
  rs_fallback :: "response_case option"

definition cases :: "responses \<Rightarrow> response_case list" where
  "cases rs = rs_success rs @ rs_errors rs"

section \<open>Which cases a response is read by\<close>

definition status_matches :: "status_selector \<Rightarrow> int \<Rightarrow> bool" where
  "status_matches sel status =
     (case sel of Exact n \<Rightarrow> n = status | StatusRange a b \<Rightarrow> a \<le> status \<and> status \<le> b | DefaultStatus \<Rightarrow> True)"

definition declares :: "responses \<Rightarrow> int \<Rightarrow> bool" where
  "declares rs status = list_ex (\<lambda>c. cs_status c \<noteq> DefaultStatus \<and> status_matches (cs_status c) status) (cases rs)"

text \<open>\<open>t.lower().split("/", 1)\<close> into two names.\<close>

definition split_media :: "string \<Rightarrow> sdk_error + string \<times> string" where
  "split_media t =
     (case py_partition (lower t) ''/'' of (a, sep, b) \<Rightarrow>
        if sep = [] then Inl (PyValueError ''not enough values to unpack'') else Inr (a, b))"

definition media_matches :: "representation \<Rightarrow> string option \<Rightarrow> sdk_error + bool" where
  "media_matches r actual =
     (case media_type r of
        None \<Rightarrow> Inr True
      | Some wanted \<Rightarrow>
          (case actual of
             None \<Rightarrow> Inr False
           | Some t \<Rightarrow>
               bindE (split_media wanted) (\<lambda>(wt, ws).
               bindE (split_media t) (\<lambda>(given, sub).
                 Inr ((wt = ''*'' \<or> wt = given) \<and>
                      (ws = ''*'' \<or> ws = sub \<or> suffix ''+json'' ws \<and> suffix ''+json'' sub))))))"

definition is_candidate :: "resp_context \<Rightarrow> response_case \<Rightarrow> sdk_error + bool" where
  "is_candidate ctx c =
     (if \<not> status_matches (cs_status c) (cx_status ctx) then Inr False
      else bindE (media_matches (cs_response c) (content_type_of ctx)) (\<lambda>media.
        if \<not> media then Inr False
        else case cs_condition c of None \<Rightarrow> Inr True | Some cond \<Rightarrow> cond ctx))"

fun filterE :: "('a \<Rightarrow> 'e + bool) \<Rightarrow> 'a list \<Rightarrow> 'e + 'a list" where
  "filterE f [] = Inr []"
| "filterE f (x # xs) = bindE (f x) (\<lambda>b. bindE (filterE f xs) (\<lambda>ys. Inr (if b then x # ys else ys)))"

section \<open>Reading one case\<close>

text \<open>A \<open>ValueError\<close> of the pointer is not among the errors the extractor catches.\<close>

definition json_extract :: "string option \<Rightarrow> resp_context \<Rightarrow> sdk_error + pyval attempt" where
  "json_extract pointer ctx =
     (case cx_loads ctx (cx_body ctx) of
        Inl e \<Rightarrow> Inr (Malformed e)
      | Inr v \<Rightarrow>
          (case pointer of
             None \<Rightarrow> Inr (ParsedValue v)
           | Some p \<Rightarrow>
               (case resolve_json_pointer v p of
                  Inl e \<Rightarrow> if is_value_error e then Inl e else Inr (Malformed e)
                | Inr x \<Rightarrow> Inr (ParsedValue x))))"

definition extract_with :: "extractor \<Rightarrow> resp_context \<Rightarrow> model \<Rightarrow> sdk_error + pyval attempt" where
  "extract_with x ctx m =
     (case x of JsonExtractor p \<Rightarrow> json_extract p ctx | OtherExtractor _ f \<Rightarrow> f ctx m)"

definition extractor_name :: "extractor \<Rightarrow> string" where
  "extractor_name x = (case x of JsonExtractor _ \<Rightarrow> ''json'' | OtherExtractor n _ \<Rightarrow> n)"

text \<open>What was extracted, with the response sources merged in, loaded as the model.\<close>

definition load_extracted :: "resp_context \<Rightarrow> model \<Rightarrow> pyval attempt \<Rightarrow> pyval attempt" where
  "load_extracted ctx m primitive =
     (case primitive of
        ParsedValue v \<Rightarrow>
          (case apply_response_sources (md_fields m) v ctx of
             Inl e \<Rightarrow> Malformed e
           | Inr None \<Rightarrow> NoMatch
           | Inr (Some sourced) \<Rightarrow> (case md_load m sourced of Inl e \<Rightarrow> Malformed e | Inr x \<Rightarrow> ParsedValue x))
      | other \<Rightarrow> other)"

text \<open>\<open>_decide_parsed\<close>.\<close>

definition criterion_holds :: "accept \<Rightarrow> model_declaration \<Rightarrow> pyval \<Rightarrow> sdk_error + bool" where
  "criterion_holds accept d v =
     (case accept of Some f \<Rightarrow> f v | None \<Rightarrow> Inr (list_all (\<lambda>t. tag_holds t v) (dc_tags d)))"

definition decide_parsed :: "response_case \<Rightarrow> model_declaration \<Rightarrow> pyval \<Rightarrow> pyval attempt" where
  "decide_parsed c d v =
     (case criterion_holds (accept_of (cs_response c)) d v of
        Inl e \<Rightarrow> Malformed e
      | Inr False \<Rightarrow> NoMatch
      | Inr True \<Rightarrow>
          (case dc_payload d of
             Some p \<Rightarrow>
               if cs_success c
               then (case read_value v (pf_name p) of Inl e \<Rightarrow> Malformed e | Inr x \<Rightarrow> ParsedValue x)
               else ParsedValue v
           | None \<Rightarrow> ParsedValue v))"

text \<open>The decoder of a representation with a model, its result, and the name the outcome reports.\<close>

definition decode_model :: "representation \<Rightarrow> model \<Rightarrow> resp_context \<Rightarrow> sdk_error + pyval attempt \<times> string option" where
  "decode_model r m ctx =
     (let by_extractor = (\<lambda>x. bindE (extract_with x ctx m) (\<lambda>primitive.
            Inr (load_extracted ctx m primitive, Some (extractor_name x)))) in
      case r of
        HeaderModel _ _ _ \<Rightarrow> Inr (load_extracted ctx m (ParsedValue (PDict [])), None)
      | Json _ _ x _ \<Rightarrow> by_extractor x
      | Html _ _ x _ \<Rightarrow> by_extractor x
      | Extracted _ _ x _ \<Rightarrow> by_extractor x
      | Parsed _ _ p _ \<Rightarrow> bindE (ps_parse p ctx m) (\<lambda>result. Inr (result, Some (ps_name p)))
      | _ \<Rightarrow> Inr (NoMatch, None))"

record reading =
  rg_matches :: "(response_case \<times> pyval) list"
  rg_malformed :: "(response_case \<times> sdk_error \<times> string option) list"
  rg_attempted :: "model list"

definition empty_reading :: reading where
  "empty_reading = \<lparr>rg_matches = [], rg_malformed = [], rg_attempted = []\<rparr>"

definition add_match :: "response_case \<Rightarrow> pyval \<Rightarrow> reading \<Rightarrow> reading" where
  "add_match c v rg = rg\<lparr>rg_matches := rg_matches rg @ [(c, v)]\<rparr>"

definition add_malformed :: "response_case \<Rightarrow> sdk_error \<Rightarrow> string option \<Rightarrow> reading \<Rightarrow> reading" where
  "add_malformed c e decoder rg = rg\<lparr>rg_malformed := rg_malformed rg @ [(c, e, decoder)]\<rparr>"

text \<open>\<open>_CaseReading.read\<close>; a declaration that cannot be read is raised, not malformed.\<close>

definition read_model :: "response_case \<Rightarrow> model \<Rightarrow> resp_context \<Rightarrow> reading \<Rightarrow> sdk_error + reading" where
  "read_model c m ctx rg =
     (let rg = rg\<lparr>rg_attempted := rg_attempted rg @ [m]\<rparr> in
      bindE (decode_model (cs_response c) m ctx) (\<lambda>(result, decoder).
        case result of
          ParsedValue v \<Rightarrow>
            bindE (declaration_of m) (\<lambda>d.
              Inr (case decide_parsed c d v of
                     ParsedValue x \<Rightarrow> add_match c x rg
                   | Malformed e \<Rightarrow> add_malformed c e decoder rg
                   | NoMatch \<Rightarrow> rg))
        | Malformed e \<Rightarrow> Inr (add_malformed c e decoder rg)
        | NoMatch \<Rightarrow> Inr rg))"

definition read_case :: "resp_context \<Rightarrow> reading \<Rightarrow> response_case \<Rightarrow> sdk_error + reading" where
  "read_case ctx rg c =
     (case cs_response c of
        TextR _ \<Rightarrow> bindE (text_of ctx) (\<lambda>s. Inr (add_match c (PStr s) rg))
      | BytesR _ \<Rightarrow> Inr (add_match c (PBytes (cx_body ctx)) rg)
      | EmptyR _ \<Rightarrow>
          Inr (if cx_body ctx \<noteq> [] then add_malformed c (PyValueError ''expected empty body'') None rg
               else add_match c PNone rg)
      | r \<Rightarrow>
          (case model_of r of
             None \<Rightarrow> Inr (add_malformed c (PyTypeError ''response representation model is unresolved'') None rg)
           | Some m \<Rightarrow> read_model c m ctx rg))"

section \<open>The most specific match\<close>

definition states_criterion :: "response_case \<Rightarrow> sdk_error + bool" where
  "states_criterion c =
     (if cs_condition c \<noteq> None then Inr True
      else if accept_of (cs_response c) \<noteq> None then Inr True
      else case model_of (cs_response c) of
             None \<Rightarrow> Inr False
           | Some m \<Rightarrow> map_sum id states_criteria (declaration_of m))"

definition status_rank :: "status_selector \<Rightarrow> int" where
  "status_rank sel = (case sel of Exact _ \<Rightarrow> 2 | StatusRange _ _ \<Rightarrow> 1 | DefaultStatus \<Rightarrow> 0)"

definition media_rank :: "string option \<Rightarrow> int" where
  "media_rank t = (case t of None \<Rightarrow> 0 | Some s \<Rightarrow> if CHR ''*'' \<in> set s then 1 else 2)"

type_synonym rank = "int \<times> int \<times> int \<times> int"

definition specificity :: "response_case \<Rightarrow> sdk_error + rank" where
  "specificity c =
     map_sum id (\<lambda>b. (if b then 1 else 0, status_rank (cs_status c), media_rank (media_type (cs_response c)), - cs_precedence c))
       (states_criterion c)"

definition most_specific :: "(response_case \<times> pyval) list \<Rightarrow> sdk_error + (response_case \<times> pyval) list" where
  "most_specific ms =
     (if length ms < 2 then Inr ms
      else bindE (mapE (\<lambda>p. specificity (fst p)) ms) (\<lambda>ranks.
        Inr (map fst (filter (\<lambda>q. snd q = Max (set ranks)) (zip ms ranks)))))"

section \<open>The outcome\<close>

datatype response_outcome =
    SuccessOutcome pyval response_case
  | ErrorOutcome pyval response_case
  | UnexpectedOutcome "string list" string
  | MalformedOutcome response_case "string option" sdk_error
  | AmbiguousOutcome "response_case list"

definition forgotten_selectors_hint :: "model list \<Rightarrow> resp_context \<Rightarrow> string" where
  "forgotten_selectors_hint attempted ctx =
     (let media = bare_media (case content_type_of ctx of Some t \<Rightarrow> t | None \<Rightarrow> []) in
      if attempted = [] \<or> \<not> (media = ''text/html'' \<or> media = ''application/xhtml+xml'' \<or> suffix ''xml'' media) then []
      else if list_ex md_document attempted then []
      else ''the response is a document but none of the attempted models ('' @ join '', '' (map md_name attempted) @
           '') carries CSS or XPath metadata'')"

definition outcome_of :: "reading \<Rightarrow> resp_context \<Rightarrow> (response_case \<times> pyval) list \<Rightarrow> response_outcome" where
  "outcome_of rg ctx matches =
     (case arbitrate_cases matches (rg_malformed rg) of
        AmbiguousCases cs \<Rightarrow> AmbiguousOutcome cs
      | SelectedCase c v \<Rightarrow> if cs_success c then SuccessOutcome v c else ErrorOutcome v c
      | MalformedCase c (e, d) \<Rightarrow> MalformedOutcome c d e
      | NoCaseMatch \<Rightarrow>
          UnexpectedOutcome (map md_name (rg_attempted rg)) (forgotten_selectors_hint (rg_attempted rg) ctx))"

definition with_fallback :: "responses \<Rightarrow> response_case list \<Rightarrow> response_case list" where
  "with_fallback rs candidates =
     (case rs_fallback rs of Some f \<Rightarrow> if candidates = [] then [f] else candidates | None \<Rightarrow> candidates)"

definition read_fallback :: "responses \<Rightarrow> response_case list \<Rightarrow> resp_context \<Rightarrow> reading \<Rightarrow> sdk_error + reading" where
  "read_fallback rs candidates ctx rg =
     (case rs_fallback rs of
        Some f \<Rightarrow>
          if rg_matches rg = [] \<and> rg_malformed rg = [] \<and> cs_id f \<notin> set (map cs_id candidates)
          then read_case ctx rg f else Inr rg
      | None \<Rightarrow> Inr rg)"

definition models_by_status :: "responses \<Rightarrow> resp_context \<Rightarrow> model list" where
  "models_by_status rs ctx =
     concat (map (\<lambda>c. if status_matches (cs_status c) (cx_status ctx)
                     then (case model_of (cs_response c) of Some m \<Rightarrow> [m] | None \<Rightarrow> []) else []) (cases rs))"

definition inspect :: "responses \<Rightarrow> resp_context \<Rightarrow> sdk_error + response_outcome" where
  "inspect rs ctx =
     bindE (filterE (is_candidate ctx) (cases rs)) (\<lambda>selected.
       let candidates = with_fallback rs selected in
       if candidates = [] then Inr (UnexpectedOutcome [] (forgotten_selectors_hint (models_by_status rs ctx) ctx))
       else bindE (foldE (read_case ctx) empty_reading candidates) (\<lambda>first.
            bindE (read_fallback rs candidates ctx first) (\<lambda>rg.
            bindE (most_specific (rg_matches rg)) (\<lambda>matches.
              Inr (outcome_of rg ctx matches)))))"

definition unexpected_text :: "string \<Rightarrow> resp_context \<Rightarrow> string \<Rightarrow> string list \<Rightarrow> string \<Rightarrow> string" where
  "unexpected_text operation ctx status_text attempted hint =
     join ''; ''
       ([operation @ '' received an undocumented response: '' @ status_text @ '' '' @
          (case content_type_of ctx of Some (c # t) \<Rightarrow> c # t | _ \<Rightarrow> ''without a media type'')] @
        (if attempted = [] then [] else [''attempted models: '' @ join '', '' attempted]) @
        (if hint = [] then [] else [hint]))"

text \<open>\<open>unwrap\<close>: the value, or the exception; \<open>raised\<close> is what the error case makes of its value.\<close>

definition unwrap :: "(response_case \<Rightarrow> pyval \<Rightarrow> sdk_error) \<Rightarrow> response_outcome \<Rightarrow> sdk_error + pyval" where
  "unwrap raised o' =
     (case o' of
        SuccessOutcome v _ \<Rightarrow> Inr v
      | ErrorOutcome e c \<Rightarrow> Inl (raised c e)
      | UnexpectedOutcome _ _ \<Rightarrow> Inl (PyError ''UnexpectedResponseError'')
      | MalformedOutcome _ _ _ \<Rightarrow> Inl (PyError ''MalformedResponseError'')
      | AmbiguousOutcome _ \<Rightarrow> Inl (PyError ''AmbiguousResponseError''))"

section \<open>Reading: lemmas\<close>

lemma filterE_Inr_iff:
  "filterE f xs = Inr ys \<longleftrightarrow> (\<forall>x \<in> set xs. \<exists>b. f x = Inr b) \<and> ys = filter (\<lambda>x. f x = Inr True) xs"
proof (induction xs arbitrary: ys)
  case (Cons x xs)
  show ?case
  proof (cases "f x")
    case (Inr b)
    then have "filterE f (x # xs) = Inr ys \<longleftrightarrow> (\<exists>zs. filterE f xs = Inr zs \<and> ys = (if b then x # zs else zs))"
      by (auto simp: bindE_Inr_iff)
    then show ?thesis using Cons.IH Inr by auto
  qed simp
qed auto

text \<open>Two readings, one after the other.\<close>

definition then_reading :: "reading \<Rightarrow> reading \<Rightarrow> reading" where
  "then_reading a b =
     \<lparr>rg_matches = rg_matches a @ rg_matches b, rg_malformed = rg_malformed a @ rg_malformed b,
      rg_attempted = rg_attempted a @ rg_attempted b\<rparr>"

lemma then_reading_sel [simp]:
  "rg_matches (then_reading a b) = rg_matches a @ rg_matches b"
  "rg_malformed (then_reading a b) = rg_malformed a @ rg_malformed b"
  "rg_attempted (then_reading a b) = rg_attempted a @ rg_attempted b"
  by (simp_all add: then_reading_def)

lemma then_reading_empty [simp]: "then_reading a empty_reading = a" "then_reading empty_reading a = a"
  by (simp_all add: then_reading_def empty_reading_def)

lemma then_reading_assoc: "then_reading (then_reading a b) c = then_reading a (then_reading b c)"
  by (simp add: then_reading_def)

lemma then_add [simp]:
  "then_reading a (add_match c v b) = add_match c v (then_reading a b)"
  "then_reading a (add_malformed c e d b) = add_malformed c e d (then_reading a b)"
  by (simp_all add: then_reading_def add_match_def add_malformed_def)

text \<open>What a case makes of a response does not depend on what was read before it.\<close>

definition verdict :: "resp_context \<Rightarrow> response_case \<Rightarrow> sdk_error + reading" where
  "verdict ctx c = read_case ctx empty_reading c"

lemma read_model_then:
  "read_model c m ctx rg = map_sum id (then_reading rg) (read_model c m ctx empty_reading)"
proof -
  have grow: "rg\<lparr>rg_attempted := rg_attempted rg @ [m]\<rparr> =
      then_reading rg (empty_reading\<lparr>rg_attempted := rg_attempted empty_reading @ [m]\<rparr>)"
    by (simp add: then_reading_def empty_reading_def)
  show ?thesis
  proof (cases "decode_model (cs_response c) m ctx")
    case (Inr p)
    obtain result decoder where p: "p = (result, decoder)" by fastforce
    show ?thesis
    proof (cases result)
      case (ParsedValue v)
      show ?thesis
      proof (cases "declaration_of m")
        case (Inr d)
        show ?thesis
          by (cases "decide_parsed c d v")
            (simp_all add: read_model_def \<open>decode_model _ _ _ = _\<close> p ParsedValue Inr grow)
      qed (simp add: read_model_def Inr p ParsedValue)
    qed (simp_all add: read_model_def Inr p grow)
  qed (simp add: read_model_def)
qed

lemma read_case_model:
  "model_of (cs_response c) = Some m \<Longrightarrow> read_case ctx rg c = read_model c m ctx rg"
  by (cases "cs_response c") (simp_all add: read_case_def)

lemma read_case_then: "read_case ctx rg c = map_sum id (then_reading rg) (verdict ctx c)"
proof (cases "model_of (cs_response c)")
  case (Some m)
  then show ?thesis using read_model_then [of c m ctx rg] by (simp add: verdict_def read_case_model)
next
  case None
  then show ?thesis
    by (cases "cs_response c"; cases "text_of ctx") (simp_all add: verdict_def read_case_def)
qed

fun joined :: "reading list \<Rightarrow> reading" where
  "joined [] = empty_reading"
| "joined (r # rs) = then_reading r (joined rs)"

lemma joined_sel:
  "rg_matches (joined rs) = concat (map rg_matches rs)"
  "rg_malformed (joined rs) = concat (map rg_malformed rs)"
  "rg_attempted (joined rs) = concat (map rg_attempted rs)"
  by (induction rs) (simp_all add: empty_reading_def)

lemma read_cases_then:
  "foldE (read_case ctx) rg cs = map_sum id (\<lambda>vs. then_reading rg (joined vs)) (mapE (verdict ctx) cs)"
proof (induction cs arbitrary: rg)
  case (Cons c cs)
  show ?case
    by (cases "verdict ctx c"; cases "mapE (verdict ctx) cs")
      (simp_all add: Cons.IH read_case_then [of ctx rg] then_reading_assoc)
qed simp

lemma read_cases_joined:
  "foldE (read_case ctx) empty_reading cs = map_sum id joined (mapE (verdict ctx) cs)"
  using read_cases_then [of ctx empty_reading cs] by (simp add: map_sum_def split: sum.split)

definition claims :: "resp_context \<Rightarrow> response_case \<Rightarrow> pyval \<Rightarrow> bool" where
  "claims ctx c v = (case verdict ctx c of Inl _ \<Rightarrow> False | Inr rg \<Rightarrow> rg_matches rg = [(c, v)])"

definition broken :: "resp_context \<Rightarrow> response_case \<Rightarrow> sdk_error \<Rightarrow> string option \<Rightarrow> bool" where
  "broken ctx c e d = (case verdict ctx c of Inl _ \<Rightarrow> False | Inr rg \<Rightarrow> rg_malformed rg = [(c, e, d)])"

text \<open>A case claims the response, or is malformed, or says nothing.\<close>

definition one_entry :: "response_case \<Rightarrow> reading \<Rightarrow> bool" where
  "one_entry c rg \<longleftrightarrow>
     (\<exists>v. rg_matches rg = [(c, v)] \<and> rg_malformed rg = []) \<or>
     (\<exists>e d. rg_matches rg = [] \<and> rg_malformed rg = [(c, e, d)]) \<or>
     (rg_matches rg = [] \<and> rg_malformed rg = [])"

lemma one_entry_intros:
  "rg_matches rg = [] \<Longrightarrow> rg_malformed rg = [] \<Longrightarrow> one_entry c rg"
  "rg_matches rg = [] \<Longrightarrow> rg_malformed rg = [] \<Longrightarrow> one_entry c (add_match c v rg)"
  "rg_matches rg = [] \<Longrightarrow> rg_malformed rg = [] \<Longrightarrow> one_entry c (add_malformed c e d rg)"
  by (simp_all add: one_entry_def add_match_def add_malformed_def)

lemma read_model_shape:
  assumes "read_model c m ctx empty_reading = Inr rg"
  shows "one_entry c rg"
proof -
  let ?start = "empty_reading\<lparr>rg_attempted := rg_attempted empty_reading @ [m]\<rparr>"
  have none: "rg_matches ?start = []" "rg_malformed ?start = []" by (simp_all add: empty_reading_def)
  obtain result decoder where decoded: "decode_model (cs_response c) m ctx = Inr (result, decoder)"
    using assms by (cases "decode_model (cs_response c) m ctx") (auto simp: read_model_def Let_def)
  show ?thesis
  proof (cases result)
    case (ParsedValue v)
    then obtain d where "declaration_of m = Inr d"
      using assms decoded by (auto simp: read_model_def Let_def bindE_Inr_iff)
    then show ?thesis
      using assms decoded ParsedValue one_entry_intros [OF none]
      by (cases "decide_parsed c d v") (auto simp: read_model_def Let_def)
  qed (use assms decoded one_entry_intros [OF none] in \<open>auto simp: read_model_def Let_def\<close>)
qed

lemma verdict_shape:
  assumes "verdict ctx c = Inr rg"
  shows "one_entry c rg"
proof (cases "model_of (cs_response c)")
  case (Some m)
  then show ?thesis using assms read_model_shape by (simp add: verdict_def read_case_model)
next
  case None
  have none: "rg_matches empty_reading = []" "rg_malformed empty_reading = []" by (simp_all add: empty_reading_def)
  show ?thesis
    using None assms one_entry_intros [OF none]
    by (cases "cs_response c") (auto simp: verdict_def read_case_def bindE_Inr_iff split: if_splits)
qed

text \<open>The matches of a list of cases are the claims, in their order.\<close>

lemma matches_iff:
  assumes "mapE (verdict ctx) cs = Inr vs"
  shows "(c, v) \<in> set (concat (map rg_matches vs)) \<longleftrightarrow> c \<in> set cs \<and> claims ctx c v"
    and "(c, e, d) \<in> set (concat (map rg_malformed vs)) \<longleftrightarrow> c \<in> set cs \<and> broken ctx c e d"
  using assms
proof (induction cs arbitrary: vs)
  case (Cons c' cs)
  {
    case 1
    then show ?case
      using verdict_shape [of ctx c'] Cons.IH(1)
      by (auto simp: bindE_Inr_iff claims_def one_entry_def)
  next
    case 2
    then show ?case
      using verdict_shape [of ctx c'] Cons.IH(2)
      by (auto simp: bindE_Inr_iff broken_def one_entry_def)
  }
qed auto

section \<open>The most specific match: lemmas\<close>

definition rank_of :: "response_case \<Rightarrow> rank" where
  "rank_of c = projr (specificity c)"

definition ranked :: "response_case \<Rightarrow> bool" where
  "ranked c \<longleftrightarrow> (\<exists>r. specificity c = Inr r)"

definition top_matches :: "(response_case \<times> pyval) list \<Rightarrow> (response_case \<times> pyval) list" where
  "top_matches ms = filter (\<lambda>p. \<forall>q \<in> set ms. rank_of (fst q) \<le> rank_of (fst p)) ms"

lemma specificities:
  "mapE (\<lambda>p. specificity (fst p)) ms = Inr ranks \<longleftrightarrow>
     (\<forall>p \<in> set ms. ranked (fst p)) \<and> ranks = map (\<lambda>p. rank_of (fst p)) ms"
  by (induction ms arbitrary: ranks) (auto simp: bindE_Inr_iff ranked_def rank_of_def)

lemma most_specific_iff:
  "most_specific ms = Inr best \<longleftrightarrow>
     (length ms < 2 \<or> (\<forall>p \<in> set ms. ranked (fst p))) \<and> best = top_matches ms"
proof (cases "length ms < 2")
  case True
  then have "top_matches ms = ms" by (cases ms) (auto simp: top_matches_def less_Suc_eq)
  then show ?thesis using True by (auto simp: most_specific_def)
next
  case False
  let ?rank = "\<lambda>p :: response_case \<times> pyval. rank_of (fst p)"
  have high: "?rank p = Max (?rank ` set ms) \<longleftrightarrow> (\<forall>q \<in> set ms. ?rank q \<le> ?rank p)" if "p \<in> set ms" for p
  proof -
    have "finite (?rank ` set ms)" "?rank ` set ms \<noteq> {}" "?rank p \<in> ?rank ` set ms" using that by auto
    then show ?thesis using Max_eq_iff [of "?rank ` set ms" "?rank p"] by (metis (mono_tags, lifting) imageE image_eqI)
  qed
  have "map fst (filter (\<lambda>q. snd q = x) (zip ms (map ?rank ms))) = filter (\<lambda>p. ?rank p = x) ms" for x
    by (induction ms) auto
  then have "map fst (filter (\<lambda>q. snd q = Max (set (map ?rank ms))) (zip ms (map ?rank ms))) = top_matches ms"
    unfolding top_matches_def by (simp add: high cong: filter_cong)
  then show ?thesis
    using False by (auto simp: most_specific_def bindE_Inr_iff specificities)
qed

lemma top_matches_ne: "ms \<noteq> [] \<Longrightarrow> top_matches ms \<noteq> []"
proof -
  assume "ms \<noteq> []"
  let ?rank = "\<lambda>p :: response_case \<times> pyval. rank_of (fst p)"
  have "Max (?rank ` set ms) \<in> ?rank ` set ms" using \<open>ms \<noteq> []\<close> by (intro Max_in) auto
  then obtain p where "p \<in> set ms" "?rank p = Max (?rank ` set ms)" by auto
  then have "p \<in> set (top_matches ms)" by (simp add: top_matches_def)
  then show ?thesis by auto
qed

section \<open>Inspection: lemmas\<close>

definition silent :: "resp_context \<Rightarrow> response_case \<Rightarrow> bool" where
  "silent ctx c = (case verdict ctx c of Inl _ \<Rightarrow> False | Inr rg \<Rightarrow> rg_matches rg = [] \<and> rg_malformed rg = [])"

definition candidates :: "responses \<Rightarrow> resp_context \<Rightarrow> response_case list" where
  "candidates rs ctx = filter (\<lambda>c. is_candidate ctx c = Inr True) (cases rs)"

text \<open>The cases that are read, in their order: the candidates, then the fallback when they are all silent.\<close>

definition read_list :: "responses \<Rightarrow> resp_context \<Rightarrow> response_case list" where
  "read_list rs ctx =
     (let cs = candidates rs ctx in
      case rs_fallback rs of
        None \<Rightarrow> cs
      | Some f \<Rightarrow> if list_all (silent ctx) cs \<and> cs_id f \<notin> set (map cs_id cs) then cs @ [f] else cs)"

lemma silent_iff:
  "verdict ctx c = Inr rg \<Longrightarrow> silent ctx c \<longleftrightarrow> rg_matches rg = [] \<and> rg_malformed rg = []"
  by (simp add: silent_def)

lemma joined_silent:
  "mapE (verdict ctx) cs = Inr vs \<Longrightarrow>
     (rg_matches (joined vs) = [] \<and> rg_malformed (joined vs) = []) \<longleftrightarrow> list_all (silent ctx) cs"
proof (induction cs arbitrary: vs)
  case (Cons c cs)
  then show ?case by (auto simp: bindE_Inr_iff silent_iff)
qed (simp add: empty_reading_def)

lemma joined_append: "joined (vs @ ws) = then_reading (joined vs) (joined ws)"
  by (induction vs) (simp_all add: then_reading_assoc)

lemma mapE_snoc:
  "mapE f (xs @ [x]) = bindE (mapE f xs) (\<lambda>ys. bindE (f x) (\<lambda>y. Inr (ys @ [y])))"
proof (induction xs)
  case Nil
  then show ?case by (cases "f x") simp_all
next
  case (Cons a xs)
  then show ?case by (cases "f a"; cases "mapE f xs"; cases "f x") simp_all
qed

lemma read_then_fallback:
  assumes "cs = candidates rs ctx" "cs \<noteq> []"
  shows "bindE (foldE (read_case ctx) empty_reading cs) (read_fallback rs cs ctx) =
    map_sum id joined (mapE (verdict ctx) (read_list rs ctx))"
proof (cases "mapE (verdict ctx) cs")
  case (Inl e)
  then have "mapE (verdict ctx) (cs @ [f]) = Inl e" for f by (simp add: mapE_snoc)
  then show ?thesis
    using assms(1) Inl by (simp add: read_cases_joined read_list_def Let_def split: option.split)
next
  case (Inr vs)
  have silence: "(rg_matches (joined vs) = [] \<and> rg_malformed (joined vs) = []) \<longleftrightarrow> list_all (silent ctx) cs"
    using joined_silent Inr by blast
  show ?thesis
  proof (cases "rs_fallback rs")
    case None
    then show ?thesis
      using assms(1) Inr by (simp add: read_cases_joined read_list_def read_fallback_def)
  next
    case (Some f)
    show ?thesis
    proof (cases "list_all (silent ctx) cs \<and> cs_id f \<notin> set (map cs_id cs)")
      case True
      then have "read_list rs ctx = cs @ [f]" using assms(1) Some by (simp add: read_list_def)
      moreover have "read_fallback rs cs ctx (joined vs) = map_sum id (then_reading (joined vs)) (verdict ctx f)"
        using True silence Some by (simp add: read_fallback_def read_case_then [of ctx "joined vs"])
      ultimately show ?thesis
        using Inr by (cases "verdict ctx f") (simp_all add: read_cases_joined mapE_snoc joined_append)
    next
      case False
      then have "read_list rs ctx = cs" using assms(1) Some by (auto simp: read_list_def)
      moreover have "read_fallback rs cs ctx (joined vs) = Inr (joined vs)"
        using False silence Some by (auto simp: read_fallback_def)
      ultimately show ?thesis using Inr by (simp add: read_cases_joined)
    qed
  qed
qed

definition checked :: "responses \<Rightarrow> resp_context \<Rightarrow> bool" where
  "checked rs ctx \<longleftrightarrow> (\<forall>c \<in> set (cases rs). \<exists>b. is_candidate ctx c = Inr b)"

text \<open>Inspection as one equation over the list of cases that are read.\<close>

definition concluded :: "resp_context \<Rightarrow> response_case list \<Rightarrow> sdk_error + response_outcome" where
  "concluded ctx cs =
     bindE (mapE (verdict ctx) cs) (\<lambda>vs.
     bindE (most_specific (rg_matches (joined vs))) (\<lambda>best. Inr (outcome_of (joined vs) ctx best)))"

lemma inspect_Inr_iff:
  "inspect rs ctx = Inr out \<longleftrightarrow>
     checked rs ctx \<and>
     (if read_list rs ctx = [] then out = UnexpectedOutcome [] (forgotten_selectors_hint (models_by_status rs ctx) ctx)
      else concluded ctx (read_list rs ctx) = Inr out)"
proof (cases "checked rs ctx")
  case False
  then have "filterE (is_candidate ctx) (cases rs) \<noteq> Inr cs" for cs
    by (auto simp: filterE_Inr_iff checked_def)
  then show ?thesis
    using False by (cases "filterE (is_candidate ctx) (cases rs)") (auto simp: inspect_def)
next
  case True
  let ?cs = "candidates rs ctx"
  have select: "filterE (is_candidate ctx) (cases rs) = Inr ?cs"
    using True by (auto simp: filterE_Inr_iff checked_def candidates_def)
  show ?thesis
  proof (cases "?cs = []")
    case True
    show ?thesis
    proof (cases "rs_fallback rs")
      case None
      then show ?thesis
        using True select \<open>checked rs ctx\<close> by (auto simp: inspect_def with_fallback_def read_list_def)
    next
      case (Some f)
      have "read_list rs ctx = [f]" using True Some by (simp add: read_list_def)
      moreover have "inspect rs ctx = concluded ctx [f]"
        using True Some select read_cases_joined [of ctx "[f]"]
        by (cases "verdict ctx f")
          (simp_all add: inspect_def with_fallback_def concluded_def read_fallback_def read_case_then)
      ultimately show ?thesis using \<open>checked rs ctx\<close> by simp
    qed
  next
    case False
    then have "read_list rs ctx \<noteq> []" by (auto simp: read_list_def Let_def split: option.split)
    moreover have "inspect rs ctx = concluded ctx (read_list rs ctx)"
    proof -
      have "with_fallback rs ?cs = ?cs" using False by (simp add: with_fallback_def split: option.split)
      then have "inspect rs ctx =
          bindE (bindE (foldE (read_case ctx) empty_reading ?cs) (read_fallback rs ?cs ctx))
            (\<lambda>rg. bindE (most_specific (rg_matches rg)) (\<lambda>matches. Inr (outcome_of rg ctx matches)))"
        using select False by (cases "foldE (read_case ctx) empty_reading ?cs") (simp_all add: inspect_def)
      also have "\<dots> = concluded ctx (read_list rs ctx)"
        unfolding read_then_fallback [OF refl False] concluded_def
        by (cases "mapE (verdict ctx) (read_list rs ctx)") simp_all
      finally show ?thesis .
    qed
    ultimately show ?thesis using \<open>checked rs ctx\<close> by simp
  qed
qed

lemma outcome_selected:
  "outcome_of rg ctx ms = SuccessOutcome v c \<longleftrightarrow> ms = [(c, v)] \<and> cs_success c"
  "outcome_of rg ctx ms = ErrorOutcome v c \<longleftrightarrow> ms = [(c, v)] \<and> \<not> cs_success c"
  "outcome_of rg ctx ms = AmbiguousOutcome cs \<longleftrightarrow> 1 < length ms \<and> cs = map fst ms"
  by (cases ms; cases "rg_malformed rg"; force simp: outcome_of_def arbitrate_cases_def)+

definition decided_by :: "response_outcome \<Rightarrow> response_case \<Rightarrow> pyval \<Rightarrow> bool" where
  "decided_by out c v \<longleftrightarrow> out = (if cs_success c then SuccessOutcome v c else ErrorOutcome v c)"

definition claimant :: "resp_context \<Rightarrow> response_case \<Rightarrow> bool" where
  "claimant ctx c = (case verdict ctx c of Inl _ \<Rightarrow> False | Inr rg \<Rightarrow> rg_matches rg \<noteq> [])"

definition less_specific :: "response_case \<Rightarrow> response_case \<Rightarrow> bool" where
  "less_specific d c = (case (specificity d, specificity c) of (Inr a, Inr b) \<Rightarrow> a < b | _ \<Rightarrow> False)"

lemma claimant_iff: "claimant ctx c \<longleftrightarrow> (\<exists>v. claims ctx c v)"
  using verdict_shape [of ctx c]
  by (auto simp: claimant_def claims_def one_entry_def split: sum.splits)

lemma claimants_in_order:
  "mapE (verdict ctx) cs = Inr vs \<Longrightarrow> map fst (rg_matches (joined vs)) = filter (claimant ctx) cs"
proof (induction cs arbitrary: vs)
  case (Cons c cs)
  then obtain rg ws where "verdict ctx c = Inr rg" "mapE (verdict ctx) cs = Inr ws" "vs = rg # ws"
    by (auto simp: bindE_Inr_iff)
  then show ?case using Cons.IH verdict_shape [of ctx c rg] by (auto simp: claimant_def one_entry_def)
qed (simp add: empty_reading_def)

lemma outcome_of_decided: "decided_by (outcome_of rg ctx ms) c v \<longleftrightarrow> ms = [(c, v)]"
  by (auto simp: decided_by_def outcome_selected)

lemma top_matches_single:
  assumes "distinct ms" "p \<in> set ms"
  shows "top_matches ms = [p] \<longleftrightarrow> (\<forall>q \<in> set ms. q \<noteq> p \<longrightarrow> rank_of (fst q) < rank_of (fst p))"
proof
  assume top: "top_matches ms = [p]"
  then have p: "\<forall>q \<in> set ms. rank_of (fst q) \<le> rank_of (fst p)"
    using list.set_intros(1) [of p "[]"] unfolding top [symmetric] by (simp add: top_matches_def)
  show "\<forall>q \<in> set ms. q \<noteq> p \<longrightarrow> rank_of (fst q) < rank_of (fst p)"
  proof (intro ballI impI)
    fix q assume q: "q \<in> set ms" "q \<noteq> p"
    then have "q \<notin> set (top_matches ms)" using top by simp
    then obtain q' where "q' \<in> set ms" "\<not> rank_of (fst q') \<le> rank_of (fst q)"
      using q by (auto simp: top_matches_def)
    then show "rank_of (fst q) < rank_of (fst p)" using p by fastforce
  qed
next
  assume less: "\<forall>q \<in> set ms. q \<noteq> p \<longrightarrow> rank_of (fst q) < rank_of (fst p)"
  show "top_matches ms = [p]"
    unfolding top_matches_def
  proof (rule filter_eq_single [OF assms])
    fix x assume "x \<in> set ms"
    then show "(\<forall>q \<in> set ms. rank_of (fst q) \<le> rank_of (fst x)) \<longleftrightarrow> x = p"
      using less assms(2) by (metis leD less_imp_le order_refl)
  qed
qed

lemma concluded_decided:
  assumes "concluded ctx cs = Inr out" "distinct cs"
  shows "decided_by out c v \<longleftrightarrow>
    c \<in> set cs \<and> claims ctx c v \<and> (\<forall>d \<in> set cs. d \<noteq> c \<longrightarrow> claimant ctx d \<longrightarrow> less_specific d c)"
proof -
  obtain vs best where vs: "mapE (verdict ctx) cs = Inr vs" and best: "most_specific (rg_matches (joined vs)) = Inr best"
    and out: "out = outcome_of (joined vs) ctx best"
    using assms(1) by (auto simp: concluded_def bindE_Inr_iff)
  let ?ms = "rg_matches (joined vs)"
  have ms: "(d, w) \<in> set ?ms \<longleftrightarrow> d \<in> set cs \<and> claims ctx d w" for d w
    using matches_iff(1) [OF vs] by (simp add: joined_sel)
  have "map fst ?ms = filter (claimant ctx) cs" using claimants_in_order [OF vs] .
  then have dist: "distinct (map fst ?ms)" using assms(2) by simp
  then have key: "w = w'" if "(d, w) \<in> set ?ms" "(d, w') \<in> set ?ms" for d w w'
    using that eq_key_imp_eq_value by fastforce
  have top: "best = top_matches ?ms" and ranks: "length ?ms < 2 \<or> (\<forall>p \<in> set ?ms. ranked (fst p))"
    using best by (auto simp: most_specific_iff)
  have decided: "decided_by out c v \<longleftrightarrow> top_matches ?ms = [(c, v)]"
    using out top outcome_of_decided by simp
  show ?thesis
  proof (cases "(c, v) \<in> set ?ms")
    case False
    then have "top_matches ?ms \<noteq> [(c, v)]"
      using set_filter unfolding top_matches_def by (metis (no_types, lifting) list.set_intros(1) mem_Collect_eq)
    then show ?thesis using decided False ms by blast
  next
    case True
    have other: "less_specific d c \<longleftrightarrow> rank_of d < rank_of c" if "(d, w) \<in> set ?ms" "d \<noteq> c" for d w
    proof -
      have "length ?ms \<ge> 2" using True that by (cases ?ms rule: remdups_adj.cases) auto
      then have "ranked d" "ranked c" using ranks True that(1) by auto
      then show ?thesis by (auto simp: less_specific_def ranked_def rank_of_def)
    qed
    have neq: "(d, w) \<noteq> (c, v) \<longleftrightarrow> d \<noteq> c" if "(d, w) \<in> set ?ms" for d w
      using key [OF that] True by auto
    have "top_matches ?ms = [(c, v)] \<longleftrightarrow> (\<forall>q \<in> set ?ms. q \<noteq> (c, v) \<longrightarrow> rank_of (fst q) < rank_of (fst (c, v)))"
      using top_matches_single [OF _ True] dist distinct_map by blast
    also have "\<dots> \<longleftrightarrow> (\<forall>d w. (d, w) \<in> set ?ms \<longrightarrow> d \<noteq> c \<longrightarrow> less_specific d c)"
      by (simp only: Ball_def split_paired_All fst_conv) (use neq other in blast)
    also have "\<dots> \<longleftrightarrow> (\<forall>d \<in> set cs. d \<noteq> c \<longrightarrow> claimant ctx d \<longrightarrow> less_specific d c)"
      using ms by (auto simp: claimant_iff)
    finally show ?thesis using decided True ms by blast
  qed
qed

definition own_cases :: "responses \<Rightarrow> bool" where
  "own_cases rs \<longleftrightarrow> distinct (map cs_id (cases rs)) \<and>
     (case rs_fallback rs of None \<Rightarrow> True | Some f \<Rightarrow> cs_id f \<notin> set (map cs_id (cases rs)))"

lemma own_read_list:
  assumes "own_cases rs"
  shows "distinct (read_list rs ctx)"
    and "d \<in> set (read_list rs ctx) \<longleftrightarrow>
      d \<in> set (candidates rs ctx) \<or> rs_fallback rs = Some d \<and> list_all (silent ctx) (candidates rs ctx)"
proof -
  have "set (candidates rs ctx) \<subseteq> set (cases rs)" by (auto simp: candidates_def)
  moreover have "distinct (candidates rs ctx)"
    using assms by (auto simp: own_cases_def candidates_def distinct_map)
  ultimately show "distinct (read_list rs ctx)"
    "d \<in> set (read_list rs ctx) \<longleftrightarrow>
      d \<in> set (candidates rs ctx) \<or> rs_fallback rs = Some d \<and> list_all (silent ctx) (candidates rs ctx)"
    using assms by (auto simp: read_list_def Let_def own_cases_def split: option.splits)
qed

text \<open>
  C24. A response is read by the most specific case that claims it. Inspection ends in the success or the
  error of a case exactly when that case claims the response with that value and either it is a candidate
  (status, media type and \<open>when\<close> select it) that every other claiming candidate is strictly less specific
  than, or it is the fallback and no candidate claimed the response or found it malformed.
\<close>

theorem inspect_decides_most_specific:
  assumes "inspect rs ctx = Inr out" "own_cases rs"
  shows "decided_by out c v \<longleftrightarrow> claims ctx c v \<and>
    (c \<in> set (cases rs) \<and> is_candidate ctx c = Inr True \<and>
       (\<forall>d \<in> set (cases rs). d \<noteq> c \<and> is_candidate ctx d = Inr True \<and> claimant ctx d \<longrightarrow> less_specific d c) \<or>
     rs_fallback rs = Some c \<and>
       (\<forall>d \<in> set (cases rs). is_candidate ctx d = Inr True \<longrightarrow> silent ctx d))"
proof (cases "read_list rs ctx = []")
  case True
  then have "\<not> decided_by out c v" using assms(1) by (auto simp: inspect_Inr_iff decided_by_def)
  moreover have "candidates rs ctx = []" "rs_fallback rs = None"
    using True by (auto simp: read_list_def Let_def split: option.splits if_splits)
  ultimately show ?thesis by (auto simp: candidates_def filter_empty_conv)
next
  case False
  have in_cs: "d \<in> set (candidates rs ctx) \<longleftrightarrow> d \<in> set (cases rs) \<and> is_candidate ctx d = Inr True" for d
    by (auto simp: candidates_def)
  have loud: "\<not> silent ctx d" if "claims ctx d w" for d w
    using that by (auto simp: claims_def silent_def split: sum.splits)
  have "concluded ctx (read_list rs ctx) = Inr out" using assms(1) False by (auto simp: inspect_Inr_iff)
  then have "decided_by out c v \<longleftrightarrow> c \<in> set (read_list rs ctx) \<and> claims ctx c v \<and>
      (\<forall>d \<in> set (read_list rs ctx). d \<noteq> c \<longrightarrow> claimant ctx d \<longrightarrow> less_specific d c)"
    using concluded_decided own_read_list(1) [OF assms(2)] by blast
  then have decided: "decided_by out c v \<longleftrightarrow> claims ctx c v \<and> c \<in> set (read_list rs ctx) \<and>
      (\<forall>d \<in> set (read_list rs ctx). d \<noteq> c \<and> claimant ctx d \<longrightarrow> less_specific d c)"
    by blast
  show ?thesis
  proof (cases "list_all (silent ctx) (candidates rs ctx)")
    case True
    then have quiet: "\<not> claimant ctx d" if "d \<in> set (candidates rs ctx)" for d
      using loud that by (auto simp: list_all_iff claimant_iff)
    have "decided_by out c v \<longleftrightarrow> claims ctx c v \<and> rs_fallback rs = Some c"
    proof -
      have "d \<in> set (read_list rs ctx) \<longleftrightarrow> d \<in> set (candidates rs ctx) \<or> rs_fallback rs = Some d" for d
        using own_read_list(2) [OF assms(2)] True by blast
      then show ?thesis unfolding decided using quiet claimant_iff by (metis option.inject)
    qed
    moreover have "\<forall>d \<in> set (cases rs). is_candidate ctx d = Inr True \<longrightarrow> silent ctx d"
      using True in_cs by (simp add: list_all_iff)
    moreover have "\<not> (claims ctx c v \<and> c \<in> set (cases rs) \<and> is_candidate ctx c = Inr True)"
      using quiet in_cs claimant_iff by blast
    ultimately show ?thesis by blast
  next
    case False
    then have "\<not> (\<forall>d \<in> set (cases rs). is_candidate ctx d = Inr True \<longrightarrow> silent ctx d)"
      using in_cs by (auto simp: list_all_iff)
    moreover have "d \<in> set (read_list rs ctx) \<longleftrightarrow> d \<in> set (cases rs) \<and> is_candidate ctx d = Inr True" for d
      unfolding own_read_list(2) [OF assms(2)] in_cs [symmetric] using False by blast
    ultimately show ?thesis unfolding decided by blast
  qed
qed

section \<open>The order of declarations\<close>

definition same_outcome :: "response_outcome \<Rightarrow> response_outcome \<Rightarrow> bool" where
  "same_outcome out out' \<longleftrightarrow>
     (case (out, out') of
        (AmbiguousOutcome cs, AmbiguousOutcome cs') \<Rightarrow> mset cs = mset cs'
      | (UnexpectedOutcome ns _, UnexpectedOutcome ns' _) \<Rightarrow> mset ns = mset ns'
      | (MalformedOutcome _ _ _, MalformedOutcome _ _ _) \<Rightarrow> True
      | _ \<Rightarrow> out = out')"

lemma mset_concat_map: "mset (concat (map f xs)) = sum_mset (image_mset (\<lambda>x. mset (f x)) (mset xs))"
  by (induction xs) simp_all

lemma mset_concat_cong: "mset xs = mset ys \<Longrightarrow> mset (concat (map f xs)) = mset (concat (map f ys))"
  by (simp add: mset_concat_map)

lemma mapE_reorder:
  assumes "mapE f xs = Inr ys" "mset xs = mset xs'"
  obtains ys' where "mapE f xs' = Inr ys'" "mset ys' = mset ys"
  using list_all2_reorder_left_invariance [of "\<lambda>x y. f x = Inr y" xs ys xs'] assms
  by (auto simp: mapE_Inr_iff)

lemma top_matches_reorder: "mset ms = mset ms' \<Longrightarrow> mset (top_matches ms) = mset (top_matches ms')"
  using mset_eq_setD [of ms ms'] by (simp add: top_matches_def)

lemma most_specific_reorder:
  assumes "most_specific ms = Inr best" "mset ms = mset ms'"
  obtains best' where "most_specific ms' = Inr best'" "mset best' = mset best"
proof -
  have "length ms = length ms'" "set ms = set ms'"
    using mset_eq_length mset_eq_setD assms(2) by blast+
  then have "most_specific ms' = Inr (top_matches ms')" using assms(1) by (simp add: most_specific_iff)
  moreover have "best = top_matches ms" using assms(1) by (simp add: most_specific_iff)
  ultimately show ?thesis using that top_matches_reorder [OF assms(2)] by simp
qed

lemma outcome_of_reorder:
  assumes "mset ms = mset ms'" "mset (rg_malformed rg) = mset (rg_malformed rg')"
    and "mset (rg_attempted rg) = mset (rg_attempted rg')"
  shows "same_outcome (outcome_of rg ctx ms) (outcome_of rg' ctx ms')"
proof -
  have names: "mset (map md_name (rg_attempted rg)) = mset (map md_name (rg_attempted rg'))"
    using assms(3) by simp
  consider "ms = []" "ms' = []" | p where "ms = [p]" "ms' = [p]"
    | "1 < length ms" "1 < length ms'" "mset (map fst ms) = mset (map fst ms')"
  proof (cases ms rule: remdups_adj.cases)
    case 1
    then show ?thesis using assms(1) that by simp
  next
    case (2 p)
    then have "ms' = [p]" using assms(1) by (simp add: mset_single_iff_right)
    then show ?thesis using 2 that by blast
  next
    case (3 p q r)
    have "length ms = length ms'" "mset (map fst ms) = mset (map fst ms')"
      using assms(1) mset_eq_length by (blast, simp)
    then show ?thesis using that(3) 3 by fastforce
  qed
  then show ?thesis
  proof cases
    case 1
    then show ?thesis
      using assms(2) names
      by (cases "rg_malformed rg"; cases "rg_malformed rg'")
        (auto simp: outcome_of_def arbitrate_cases_def same_outcome_def)
  next
    case 3
    then have "outcome_of rg ctx ms = AmbiguousOutcome (map fst ms)"
      "outcome_of rg' ctx ms' = AmbiguousOutcome (map fst ms')"
      by (simp_all add: outcome_selected)
    then show ?thesis using 3 by (simp add: same_outcome_def)
  next
    case 2
    then have "outcome_of rg ctx ms = outcome_of rg' ctx ms'" by (cases p) (simp add: outcome_of_def arbitrate_cases_def)
    then show ?thesis by (simp add: same_outcome_def split: response_outcome.split)
  qed
qed

lemma read_list_reorder:
  assumes "mset (cases rs) = mset (cases rs')" "rs_fallback rs = rs_fallback rs'"
  shows "mset (read_list rs ctx) = mset (read_list rs' ctx)"
proof -
  have cs: "mset (candidates rs ctx) = mset (candidates rs' ctx)"
    using assms(1) by (simp add: candidates_def)
  have "set (candidates rs ctx) = set (candidates rs' ctx)" using mset_eq_setD [OF cs] .
  then show ?thesis
    using cs assms(2) by (auto simp: read_list_def Let_def list_all_iff split: option.split)
qed

lemma concluded_reorder:
  assumes "concluded ctx cs = Inr out" "mset cs = mset cs'"
  shows "\<exists>out'. concluded ctx cs' = Inr out' \<and> same_outcome out out'"
proof -
  obtain vs best where vs: "mapE (verdict ctx) cs = Inr vs" and best: "most_specific (rg_matches (joined vs)) = Inr best"
    and out: "out = outcome_of (joined vs) ctx best"
    using assms(1) by (auto simp: concluded_def bindE_Inr_iff)
  obtain vs' where vs': "mapE (verdict ctx) cs' = Inr vs'" and same: "mset vs' = mset vs"
    using mapE_reorder [OF vs assms(2)] .
  have parts: "mset (rg_matches (joined vs')) = mset (rg_matches (joined vs))"
    "mset (rg_malformed (joined vs')) = mset (rg_malformed (joined vs))"
    "mset (rg_attempted (joined vs')) = mset (rg_attempted (joined vs))"
    unfolding joined_sel by (rule mset_concat_cong [OF same])+
  obtain best' where "most_specific (rg_matches (joined vs')) = Inr best'" "mset best' = mset best"
    using most_specific_reorder [OF best parts(1) [symmetric]] .
  then show ?thesis
    using vs' out outcome_of_reorder [of best best' "joined vs" "joined vs'" ctx] parts
    by (auto simp: concluded_def)
qed

text \<open>
  C25. The order in which the cases are declared decides nothing. However the cases of the successes and of
  the errors are arranged, inspection of the same response ends in the same success or error with the same
  value, in an ambiguity between the same cases, in a malformed response, or unexpectedly after the same
  models; and it raises for one arrangement exactly when it raises for the other.
\<close>

theorem declaration_order_decides_nothing:
  assumes "mset (cases rs) = mset (cases rs')" "rs_fallback rs = rs_fallback rs'"
  shows "(case inspect rs ctx of
      Inr out \<Rightarrow> (\<exists>out'. inspect rs' ctx = Inr out' \<and> same_outcome out out')
    | Inl _ \<Rightarrow> (\<exists>e. inspect rs' ctx = Inl e))"
proof -
  have half: "\<exists>out'. inspect qs' ctx = Inr out' \<and> same_outcome out out'"
    if inspected: "inspect qs ctx = Inr out" and qs: "mset (cases qs) = mset (cases qs')" "rs_fallback qs = rs_fallback qs'"
    for qs qs' out
  proof -
    have "checked qs' ctx" using inspected mset_eq_setD [OF qs(1)] by (simp add: inspect_Inr_iff checked_def)
    moreover have cs: "mset (read_list qs ctx) = mset (read_list qs' ctx)" using read_list_reorder qs by blast
    moreover have "read_list qs ctx = [] \<longleftrightarrow> read_list qs' ctx = []" using cs by (metis mset_zero_iff)
    ultimately show ?thesis
      using inspected concluded_reorder [OF _ cs]
      by (cases "read_list qs ctx = []") (auto simp: inspect_Inr_iff same_outcome_def)
  qed
  show ?thesis
  proof (cases "inspect rs ctx")
    case (Inl e)
    then have "inspect rs' ctx \<noteq> Inr out" for out using half [of rs' out rs] assms by auto
    then show ?thesis using Inl by (cases "inspect rs' ctx") auto
  next
    case (Inr out)
    then show ?thesis using half assms by simp
  qed
qed

section \<open>What a claim says of the response\<close>

text \<open>
  C26. A case claims a response only for what its model states. When a case with a model and without
  \<open>accept\<close> claims a response, some loaded value carries every tag of the model; the outcome's value is that
  value, or, for a success whose model marks a payload, the payload field of it.
\<close>

theorem claim_carries_its_tags:
  assumes "claims ctx c v" "model_of (cs_response c) = Some m" "accept_of (cs_response c) = None"
  shows "\<exists>d loaded decoder. declaration_of m = Inr d \<and>
    decode_model (cs_response c) m ctx = Inr (ParsedValue loaded, decoder) \<and>
    list_all (\<lambda>t. tag_holds t loaded) (dc_tags d) \<and>
    (case dc_payload d of
       Some p \<Rightarrow> if cs_success c then read_value loaded (pf_name p) = Inr v else v = loaded
     | None \<Rightarrow> v = loaded)"
proof -
  obtain rg where rg: "read_model c m ctx empty_reading = Inr rg" and claim: "rg_matches rg = [(c, v)]"
    using assms by (auto simp: claims_def verdict_def read_case_model split: sum.splits)
  obtain result decoder where decoded: "decode_model (cs_response c) m ctx = Inr (result, decoder)"
    using rg by (cases "decode_model (cs_response c) m ctx") (auto simp: read_model_def)
  obtain loaded where loaded: "result = ParsedValue loaded"
    using rg claim decoded by (cases result) (auto simp: read_model_def add_malformed_def empty_reading_def)
  obtain d where d: "declaration_of m = Inr d"
    using rg decoded loaded by (cases "declaration_of m") (auto simp: read_model_def)
  have "decide_parsed c d loaded = ParsedValue v"
    using rg claim decoded loaded d
    by (cases "decide_parsed c d loaded") (auto simp: read_model_def add_match_def add_malformed_def empty_reading_def)
  then have "list_all (\<lambda>t. tag_holds t loaded) (dc_tags d) \<and>
    (case dc_payload d of
       Some p \<Rightarrow> if cs_success c then read_value loaded (pf_name p) = Inr v else v = loaded
     | None \<Rightarrow> v = loaded)"
    using assms(3) by (auto simp: decide_parsed_def criterion_holds_def split: bool.splits option.splits if_splits sum.splits)
  then show ?thesis using d decoded loaded by blast
qed

section \<open>Concrete inputs\<close>

definition sample_case :: "nat \<Rightarrow> status_selector \<Rightarrow> representation \<Rightarrow> response_case" where
  "sample_case i sel r =
     \<lparr>cs_id = i, cs_success = True, cs_status = sel, cs_response = r, cs_condition = None, cs_precedence = 0,
      cs_reauth = False\<rparr>"

definition two_texts :: "nat \<Rightarrow> responses" where
  "two_texts i =
     \<lparr>rs_success = [sample_case i (Exact 302) (TextR None), sample_case (1 - i) (StatusRange 300 399) (BytesR None)],
      rs_errors = [], rs_fallback = None\<rparr>"

lemmas inspect_eval =
  inspect_def cases_def is_candidate_def status_matches_def media_matches_def with_fallback_def read_fallback_def
  read_case_def add_match_def add_malformed_def empty_reading_def most_specific_def specificity_def states_criterion_def
  status_rank_def media_rank_def outcome_of_def arbitrate_cases_def text_of_def sample_case_def sample_context_def
  charset_of_def header_get_def getitem_def getall_def less_eq_prod_def max_def

lemma two_texts_outcome:
  "inspect (two_texts 0) (sample_context []) =
     Inr (SuccessOutcome (PStr ''{}'') (sample_case 0 (Exact 302) (TextR None)))"
  by (simp add: inspect_eval two_texts_def)

theorem inspect_decides_most_specific_witness:
  "claims (sample_context []) (sample_case 0 (Exact 302) (TextR None)) (PStr ''{}'') \<and>
   less_specific (sample_case 1 (StatusRange 300 399) (BytesR None)) (sample_case 0 (Exact 302) (TextR None))"
proof -
  let ?c = "sample_case 0 (Exact 302) (TextR None)" and ?d = "sample_case 1 (StatusRange 300 399) (BytesR None)"
  have "own_cases (two_texts 0)" by (simp add: own_cases_def two_texts_def cases_def sample_case_def)
  from inspect_decides_most_specific [OF two_texts_outcome this, of ?c "PStr ''{}''"]
  have *: "claims (sample_context []) ?c (PStr ''{}'')"
    "is_candidate (sample_context []) ?d = Inr True \<longrightarrow> claimant (sample_context []) ?d \<longrightarrow> less_specific ?d ?c"
    by (auto simp: decided_by_def two_texts_def cases_def sample_case_def)
  moreover have "is_candidate (sample_context []) ?d = Inr True" "claimant (sample_context []) ?d"
    by (simp_all add: claimant_def verdict_def inspect_eval)
  ultimately show ?thesis by blast
qed

theorem declaration_order_decides_nothing_witness:
  "\<exists>out. inspect (two_texts 0\<lparr>rs_success := rev (rs_success (two_texts 0))\<rparr>) (sample_context []) = Inr out \<and>
     same_outcome (SuccessOutcome (PStr ''{}'') (sample_case 0 (Exact 302) (TextR None))) out"
  using declaration_order_decides_nothing
    [of "two_texts 0" "two_texts 0\<lparr>rs_success := rev (rs_success (two_texts 0))\<rparr>" "sample_context []"]
  by (simp add: two_texts_outcome) (simp add: two_texts_def cases_def add_mset_commute)

definition tagged_model :: model where
  "tagged_model =
     \<lparr>md_name = ''Page'',
      md_hints = [\<lparr>hn_name = ''ok'', hn_declared = TypeA ''bool'' False, hn_metadata = [StatedM (Const (PBool True))]\<rparr>,
        \<lparr>hn_name = ''result'', hn_declared = TypeA ''int'' False, hn_metadata = [PayloadM]\<rparr>],
      md_fields = None, md_load = Inr, md_document = False\<rparr>"

definition tagged_context :: resp_context where
  "tagged_context = sample_context []\<lparr>cx_loads := \<lambda>_. Inr (PDict [(''ok'', PBool True), (''result'', PInt 7)])\<rparr>"

lemmas tagged_eval =
  claims_def verdict_def read_case_def read_model_def decode_model_def extract_with_def json_extract_def
  load_extracted_def apply_response_sources_def declaration_of_def read_declaration_def hint_step_def check_payload_def
  location_step_def tag_step_def constants_of_def refuse_impossible_constant_def accepted_types_def type_name_def
  add_tag_def decide_parsed_def criterion_holds_def tag_holds_def read_value_def same_constant_def add_match_def
  empty_reading_def literal_values_def sample_case_def sample_context_def

theorem claim_carries_its_tags_witness:
  "\<exists>d loaded decoder. declaration_of tagged_model = Inr d \<and>
     decode_model (Json (Some tagged_model) None (JsonExtractor None) None) tagged_model tagged_context =
       Inr (ParsedValue loaded, decoder) \<and>
     list_all (\<lambda>t. tag_holds t loaded) (dc_tags d)"
proof -
  let ?c = "sample_case 0 (Exact 302) (Json (Some tagged_model) None (JsonExtractor None) None)"
  have "claims tagged_context ?c (PInt 7)"
    by (simp add: tagged_eval tagged_model_def tagged_context_def)
  from claim_carries_its_tags [OF this, of tagged_model] show ?thesis
    by (auto simp: sample_case_def)
qed

text \<open>
  A media type without a slash is no answer but an exception: a response whose \<open>Content-Type\<close> is a bare word
  ends the call with a \<open>ValueError\<close> as soon as one case that could apply names a media type.
\<close>

lemma slashless_media_raises:
  "(case inspect \<lparr>rs_success = [sample_case 0 (Exact 302) (TextR (Some ''text/plain''))], rs_errors = [], rs_fallback = None\<rparr>
       (sample_context [(''content-type'', ''text'')]) of
      Inl e \<Rightarrow> e = PyValueError ''not enough values to unpack'' | Inr _ \<Rightarrow> False)"
  by code_simp

text \<open>
  A text case reads the body without a guard, where \<open>ResponseContext.text\<close> would keep the error: a charset whose
  codec raises something other than \<open>LookupError\<close> ends the call with that error.
\<close>

lemma failing_charset_raises:
  "(case inspect \<lparr>rs_success = [sample_case 0 (Exact 302) (TextR None)], rs_errors = [], rs_fallback = None\<rparr>
       (sample_context [(''content-type'', ''text/plain; charset=undefined'')]
          \<lparr>cx_decode := \<lambda>c b. if c = ''undefined'' then Inl (PyError ''UnicodeError'') else Inr b\<rparr>) of
      Inl e \<Rightarrow> e = PyError ''UnicodeError'' | Inr _ \<Rightarrow> False)"
  by code_simp

text \<open>A constant on a field of any object, or of a union with \<open>Any\<close>, is refused although the field can hold it.\<close>

lemma constant_refused_on_wide_field:
  "(case refuse_impossible_constant ''M'' ''x'' (TypeA ''object'' False) (PStr ''a'') of Inl _ \<Rightarrow> True | Inr _ \<Rightarrow> False) \<and>
   (case refuse_impossible_constant ''M'' ''x'' (UnionA [TypeA ''int'' False, AnyA]) (PStr ''a'') of Inl _ \<Rightarrow> True | Inr _ \<Rightarrow> False)"
  by code_simp

end
