(* ===== verification/Parameters.thy ===== *)
theory Parameters
  imports Errors
begin

text \<open>
  Request parameters (\<open>request/params.py\<close>) and percent-encoding (\<open>request/wire.py\<close>): the ordered query
  multimap, the OpenAPI styles of path, query, header and cookie parameters, and the query codec.

  A text is the list of its UTF-8 bytes, which is what \<open>urllib.parse.quote\<close> works on. \<open>str()\<close> of a
  value that is neither \<open>None\<close> nor a boolean is the parameter \<open>py_str\<close>.
\<close>

section \<open>Percent-encoding\<close>

definition hex_digit :: "nat \<Rightarrow> char" where
  "hex_digit n = (char_of (if n < 10 then 48 + n else 55 + n) :: char)"

definition lower_hex_digit :: "nat \<Rightarrow> char" where
  "lower_hex_digit n = (char_of (if n < 10 then 48 + n else 87 + n) :: char)"

definition hex_value :: "char \<Rightarrow> nat option" where
  "hex_value c =
     (let n = of_char c :: nat in
      if 48 \<le> n \<and> n \<le> 57 then Some (n - 48)
      else if 65 \<le> n \<and> n \<le> 70 then Some (n - 55)
      else if 97 \<le> n \<and> n \<le> 102 then Some (n - 87)
      else None)"

definition always_safe :: "char \<Rightarrow> bool" where
  "always_safe c \<longleftrightarrow>
     (let n = of_char c :: nat in
      48 \<le> n \<and> n \<le> 57 \<or> 65 \<le> n \<and> n \<le> 90 \<or> 97 \<le> n \<and> n \<le> 122) \<or> c \<in> set ''_.-~''"

definition quote_char :: "string \<Rightarrow> char \<Rightarrow> string" where
  "quote_char safe c =
     (if always_safe c \<or> c \<in> set safe then [c]
      else let n = of_char c :: nat in [CHR ''%'', hex_digit (n div 16), hex_digit (n mod 16)])"

definition quote :: "string \<Rightarrow> string \<Rightarrow> string" where
  "quote safe s = concat (map (quote_char safe) s)"

text \<open>\<open>unquote_to_bytes\<close>: a percent sign that no two hex digits follow stays.\<close>

fun unquote :: "string \<Rightarrow> string" where
  "unquote (c # a # b # rest) =
     (if c = CHR ''%''
      then (case (hex_value a, hex_value b) of
              (Some x, Some y) \<Rightarrow> char_of (16 * x + y) # unquote rest
            | _ \<Rightarrow> c # unquote (a # b # rest))
      else c # unquote (a # b # rest))"
| "unquote (c # rest) = c # unquote rest"
| "unquote [] = []"

section \<open>The query codec\<close>

datatype query_space = PercentSpace | PlusSpace

record query_codec =
  qc_space :: query_space
  qc_uppercase :: bool

definition default_query_codec :: query_codec where
  "default_query_codec = \<lparr>qc_space = PercentSpace, qc_uppercase = True\<rparr>"

text \<open>\<open>_lower_percent_escapes\<close>: the two characters behind a percent sign, however few are left.\<close>

fun lower_percent_escapes :: "string \<Rightarrow> string" where
  "lower_percent_escapes (c # a # b # rest) =
     (if c = CHR ''%'' then c # lower [a, b] @ lower_percent_escapes rest
      else c # lower_percent_escapes (a # b # rest))"
| "lower_percent_escapes [c, a] =
     (if c = CHR ''%'' then c # lower [a] else c # lower_percent_escapes [a])"
| "lower_percent_escapes [c] = [c]"
| "lower_percent_escapes [] = []"

text \<open>\<open>encoded.replace("%20", "+")\<close>.\<close>

fun plus_spaces :: "string \<Rightarrow> string" where
  "plus_spaces (c # a # b # rest) =
     (if [c, a, b] = ''%20'' then CHR ''+'' # plus_spaces rest else c # plus_spaces (a # b # rest))"
| "plus_spaces s = s"

definition encode_query_component :: "query_codec \<Rightarrow> string \<Rightarrow> string" where
  "encode_query_component codec encoded =
     (let e = (if qc_uppercase codec then encoded else lower_percent_escapes encoded) in
      case qc_space codec of PlusSpace \<Rightarrow> plus_spaces e | PercentSpace \<Rightarrow> e)"

section \<open>The query multimap\<close>

definition unreserved :: string where
  "unreserved = ''-._~''"

definition reserved_chars :: string where
  "reserved_chars = '':/?#[]@!$&'' @ [CHR 39] @ ''()*+,;=''"

definition serialization_error :: "string \<Rightarrow> sdk_error" where
  "serialization_error m = PyError (''ParameterSerializationError: '' @ m)"

definition primitive :: "(pyval \<Rightarrow> string) \<Rightarrow> pyval \<Rightarrow> string" where
  "primitive py_str v =
     (case v of PNone \<Rightarrow> [] | PBool b \<Rightarrow> (if b then ''true'' else ''false'') | _ \<Rightarrow> py_str v)"

record query_item =
  qi_name :: string
  qi_value :: string
  qi_reserved :: bool
  qi_name_safe :: string

record query_params =
  qp_items :: "query_item list"
  qp_raw :: "string option"

definition no_params :: query_params where
  "no_params = \<lparr>qp_items = [], qp_raw = None\<rparr>"

text \<open>The operations take the text \<open>_primitive\<close> makes of a value.\<close>

definition qp_add :: "string \<Rightarrow> string \<Rightarrow> bool \<Rightarrow> string \<Rightarrow> query_params \<Rightarrow> sdk_error + query_params" where
  "qp_add name v allow_reserved name_safe q =
     (if qp_raw q \<noteq> None
      then Inl (serialization_error ''individual query parameters cannot be combined with a querystring parameter'')
      else Inr (q\<lparr>qp_items := qp_items q @
             [\<lparr>qi_name = name, qi_value = v, qi_reserved = allow_reserved, qi_name_safe = name_safe\<rparr>]\<rparr>))"

definition qp_extend :: "(string \<times> string) list \<Rightarrow> query_params \<Rightarrow> sdk_error + query_params" where
  "qp_extend items q = foldE (\<lambda>q (n, v). qp_add n v False [] q) q items"

definition remove_question :: "string \<Rightarrow> string" where
  "remove_question v = (case v of c # rest \<Rightarrow> if c = CHR ''?'' then rest else v | [] \<Rightarrow> [])"

definition qp_set_raw :: "string \<Rightarrow> query_params \<Rightarrow> sdk_error + query_params" where
  "qp_set_raw v q =
     (if qp_items q \<noteq> [] \<or> qp_raw q \<noteq> None
      then Inl (serialization_error ''a querystring parameter cannot be combined with other query values'')
      else Inr (q\<lparr>qp_raw := Some (remove_question v)\<rparr>))"

definition qp_extend_query :: "query_params \<Rightarrow> query_params \<Rightarrow> sdk_error + query_params" where
  "qp_extend_query other q =
     (case qp_raw other of
        Some raw \<Rightarrow> qp_set_raw raw q
      | None \<Rightarrow> Inr (q\<lparr>qp_items := qp_items q @ qp_items other\<rparr>))"

definition qp_getall :: "query_params \<Rightarrow> string \<Rightarrow> string list" where
  "qp_getall q name = map qi_value (filter (\<lambda>i. qi_name i = name) (qp_items q))"

definition qp_multi_items :: "query_params \<Rightarrow> (string \<times> string) list" where
  "qp_multi_items q = map (\<lambda>i. (qi_name i, qi_value i)) (qp_items q)"

text \<open>The two encoded texts of an item; \<open>quote\<close> leaves \<open>-._~\<close> alone in any case.\<close>

definition encoded_item :: "query_item \<Rightarrow> string \<times> string" where
  "encoded_item i =
     (quote (unreserved @ qi_name_safe i) (qi_name i),
      quote (unreserved @ (if qi_reserved i then reserved_chars else [])) (qi_value i))"

definition qp_encoded_items :: "query_params \<Rightarrow> (string \<times> string \<times> string \<times> string) list" where
  "qp_encoded_items q = map (\<lambda>i. (qi_name i, qi_value i, encoded_item i)) (qp_items q)"

definition qp_get :: "query_params \<Rightarrow> string \<Rightarrow> string option" where
  "qp_get q name = map_option qi_value (find (\<lambda>i. qi_name i = name) (rev (qp_items q)))"

definition qp_getitem :: "query_params \<Rightarrow> string \<Rightarrow> sdk_error + string" where
  "qp_getitem q name = (case qp_get q name of Some v \<Rightarrow> Inr v | None \<Rightarrow> Inl (PyError ''KeyError''))"

definition qp_remove :: "string \<Rightarrow> query_params \<Rightarrow> query_params" where
  "qp_remove name q = q\<lparr>qp_items := filter (\<lambda>i. qi_name i \<noteq> name) (qp_items q)\<rparr>"

text \<open>\<open>__setitem__\<close> removes before it adds, so a refused \<open>add\<close> has lost the old values already.\<close>

definition qp_setitem :: "string \<Rightarrow> string \<Rightarrow> query_params \<Rightarrow> (sdk_error, unit, query_params) run" where
  "qp_setitem name v q =
     (case qp_add name v False [] (qp_remove name q) of
        Inl e \<Rightarrow> (Inl e, qp_remove name q)
      | Inr q1 \<Rightarrow> (Inr (), q1))"

definition qp_delitem :: "string \<Rightarrow> query_params \<Rightarrow> (sdk_error, unit, query_params) run" where
  "qp_delitem name q =
     (let q1 = qp_remove name q in
      if length (qp_items q1) = length (qp_items q) then (Inl (PyError ''KeyError''), q1) else (Inr (), q1))"

definition qp_names :: "query_params \<Rightarrow> string list" where
  "qp_names q = rev (fold (\<lambda>i seen. if qi_name i \<in> set seen then seen else qi_name i # seen) (qp_items q) [])"

definition qp_bool :: "query_params \<Rightarrow> bool" where
  "qp_bool q \<longleftrightarrow> qp_items q \<noteq> [] \<or> qp_raw q \<noteq> None"

definition qp_setdefault :: "string \<Rightarrow> string \<Rightarrow> query_params \<Rightarrow> (sdk_error, string, query_params) run" where
  "qp_setdefault name v q =
     (case qp_get q name of
        Some old \<Rightarrow> (Inr old, q)
      | None \<Rightarrow> (case qp_add name v False [] q of Inl e \<Rightarrow> (Inl e, q) | Inr q1 \<Rightarrow> (Inr v, q1)))"

definition render_pair :: "string \<times> string \<Rightarrow> string" where
  "render_pair p = fst p @ CHR ''='' # snd p"

definition qp_render :: "query_params \<Rightarrow> string" where
  "qp_render q =
     (case qp_raw q of
        Some raw \<Rightarrow> raw
      | None \<Rightarrow> join ''&'' (map (\<lambda>i. render_pair (encoded_item i)) (qp_items q)))"

section \<open>OpenAPI styles\<close>

datatype path_style = SimpleStyle | LabelStyle | MatrixStyle
datatype query_style = FormStyle | SpaceDelimited | PipeDelimited | DeepObject

record path_param =
  pp_name :: "string option"
  pp_style :: path_style
  pp_explode :: bool
  pp_reserved :: bool

record query_param =
  qy_name :: "string option"
  qy_style :: query_style
  qy_explode :: bool
  qy_reserved :: bool

record header_param =
  hd_name :: "string option"
  hd_explode :: bool

text \<open>The constructors refuse any other style.\<close>

definition path_style_of :: "string \<Rightarrow> sdk_error + path_style" where
  "path_style_of s =
     (if s = ''simple'' then Inr SimpleStyle else if s = ''label'' then Inr LabelStyle
      else if s = ''matrix'' then Inr MatrixStyle
      else Inl (PyValueError (''unsupported path parameter style: '' @ py_repr s)))"

definition query_style_of :: "string \<Rightarrow> sdk_error + query_style" where
  "query_style_of s =
     (if s = ''form'' then Inr FormStyle else if s = ''spaceDelimited'' then Inr SpaceDelimited
      else if s = ''pipeDelimited'' then Inr PipeDelimited else if s = ''deepObject'' then Inr DeepObject
      else Inl (PyValueError (''unsupported query parameter style: '' @ py_repr s)))"

definition required_name :: "string option \<Rightarrow> sdk_error + string" where
  "required_name name =
     (case name of None \<Rightarrow> Inl (serialization_error ''parameter wire name was not resolved'') | Some n \<Rightarrow> Inr n)"

text \<open>\<open>_kind\<close>, with the parts of the value; a dictionary key is a text.\<close>

datatype kind = ObjectKind "(string \<times> pyval) list" | ArrayKind "pyval list" | PrimitiveKind

definition kind_of :: "pyval \<Rightarrow> kind" where
  "kind_of v =
     (case v of
        PDict d \<Rightarrow> ObjectKind d
      | _ \<Rightarrow> (case seq_items v of Some xs \<Rightarrow> ArrayKind xs | None \<Rightarrow> PrimitiveKind))"

definition flatten_object :: "(pyval \<Rightarrow> string) \<Rightarrow> bool \<Rightarrow> (string \<times> pyval) list \<Rightarrow> string list" where
  "flatten_object py_str equals d =
     concat (map (\<lambda>(k, v). if equals then [k @ ''='' @ primitive py_str v] else [k, primitive py_str v]) d)"

definition encode_pair :: "string \<Rightarrow> string \<Rightarrow> string" where
  "encode_pair pair safe = (case py_partition pair ''='' of (k, _, v) \<Rightarrow> quote safe k @ ''='' @ quote safe v)"

definition path_safe :: "path_param \<Rightarrow> string" where
  "path_safe p = unreserved @ (if pp_reserved p then reserved_chars else [])"

definition path_raw :: "(pyval \<Rightarrow> string) \<Rightarrow> path_param \<Rightarrow> pyval \<Rightarrow> string" where
  "path_raw py_str p v =
     (let delimiter = (if pp_style p = LabelStyle \<and> pp_explode p then ''.'' else '','') in
      case kind_of v of
        PrimitiveKind \<Rightarrow> quote (path_safe p) (primitive py_str v)
      | ArrayKind xs \<Rightarrow> join delimiter (map (\<lambda>x. quote (path_safe p) (primitive py_str x)) xs)
      | ObjectKind d \<Rightarrow> join delimiter (map (\<lambda>item.
            if CHR ''='' \<in> set item then encode_pair item (path_safe p) else quote (path_safe p) item)
          (flatten_object py_str (pp_explode p) d)))"

definition serialize_path :: "(pyval \<Rightarrow> string) \<Rightarrow> path_param \<Rightarrow> pyval \<Rightarrow> sdk_error + string" where
  "serialize_path py_str p v =
     bindE (required_name (pp_name p)) (\<lambda>name.
       Inr (case pp_style p of
              SimpleStyle \<Rightarrow> path_raw py_str p v
            | LabelStyle \<Rightarrow> CHR ''.'' # path_raw py_str p v
            | MatrixStyle \<Rightarrow>
                (case (kind_of v, pp_explode p) of
                   (ArrayKind xs, True) \<Rightarrow>
                     concat (map (\<lambda>x. '';'' @ quote unreserved name @ ''='' @ quote (path_safe p) (primitive py_str x)) xs)
                 | (ObjectKind d, True) \<Rightarrow>
                     concat (map (\<lambda>(k, x). '';'' @ quote (path_safe p) k @ ''='' @ quote (path_safe p) (primitive py_str x)) d)
                 | _ \<Rightarrow> '';'' @ quote unreserved name @ ''='' @ path_raw py_str p v)))"

definition serialize_query :: "(pyval \<Rightarrow> string) \<Rightarrow> query_param \<Rightarrow> pyval \<Rightarrow> sdk_error + query_params" where
  "serialize_query py_str p v =
     bindE (required_name (qy_name p)) (\<lambda>name.
       let add = (\<lambda>q (n, t, name_safe). qp_add n t (qy_reserved p) name_safe q) in
       case qy_style p of
         DeepObject \<Rightarrow>
           (case kind_of v of
              ObjectKind d \<Rightarrow> foldE add no_params (map (\<lambda>(k, x). (name @ ''['' @ k @ '']'', primitive py_str x, ''[]'')) d)
            | _ \<Rightarrow> Inl (serialization_error (''deepObject query parameter '' @ py_repr name @ '' requires a mapping'')))
       | FormStyle \<Rightarrow>
           (case kind_of v of
              PrimitiveKind \<Rightarrow> add no_params (name, primitive py_str v, [])
            | ArrayKind xs \<Rightarrow>
                if qy_explode p then foldE add no_params (map (\<lambda>x. (name, primitive py_str x, [])) xs)
                else add no_params (name, join '','' (map (primitive py_str) xs), [])
            | ObjectKind d \<Rightarrow>
                if qy_explode p then foldE add no_params (map (\<lambda>(k, x). (k, primitive py_str x, [])) d)
                else add no_params (name, join '','' (flatten_object py_str False d), []))
       | style \<Rightarrow>
           (case kind_of v of
              ArrayKind xs \<Rightarrow>
                add no_params (name, join (if style = SpaceDelimited then '' '' else ''|'') (map (primitive py_str) xs), [])
            | _ \<Rightarrow> Inl (serialization_error ((if style = SpaceDelimited then ''spaceDelimited'' else ''pipeDelimited'') @
                '' query parameter '' @ py_repr name @ '' requires an array''))))"

text \<open>\<open>serialize_querystring\<close> on the value \<open>models.dump\<close> made of a model; \<open>urlencode\<close> is a parameter.\<close>

datatype querystring_media = FormUrlencoded | PlainText

definition serialize_querystring ::
  "((string \<times> pyval) list \<Rightarrow> string) \<Rightarrow> (pyval \<Rightarrow> pyval) \<Rightarrow> querystring_media \<Rightarrow> pyval \<Rightarrow> sdk_error + query_params" where
  "serialize_querystring urlencode dump media v =
     (case media of
        PlainText \<Rightarrow>
          (case v of
             PStr s \<Rightarrow> qp_set_raw s no_params
           | _ \<Rightarrow> Inl (serialization_error ''text/plain querystring value must be a string''))
      | FormUrlencoded \<Rightarrow>
          (case (case v of PDict d \<Rightarrow> v | _ \<Rightarrow> dump v) of
             PDict d \<Rightarrow> qp_set_raw (urlencode d) no_params
           | _ \<Rightarrow> Inl (serialization_error
               ''application/x-www-form-urlencoded querystring value must be a mapping'')))"

definition flat_text :: "(pyval \<Rightarrow> string) \<Rightarrow> bool \<Rightarrow> pyval \<Rightarrow> string" where
  "flat_text py_str explode v =
     (case kind_of v of
        PrimitiveKind \<Rightarrow> primitive py_str v
      | ArrayKind xs \<Rightarrow> join '','' (map (primitive py_str) xs)
      | ObjectKind d \<Rightarrow> join '','' (flatten_object py_str explode d))"

definition serialize_header :: "(pyval \<Rightarrow> string) \<Rightarrow> header_param \<Rightarrow> pyval \<Rightarrow> string" where
  "serialize_header py_str p v = flat_text py_str (hd_explode p) v"

definition serialize_cookie :: "(pyval \<Rightarrow> string) \<Rightarrow> header_param \<Rightarrow> pyval \<Rightarrow> sdk_error + string \<times> string" where
  "serialize_cookie py_str p v =
     bindE (required_name (hd_name p)) (\<lambda>name. Inr (name, flat_text py_str (hd_explode p) v))"


section \<open>Encoding: lemmas\<close>

lemma hex_value_digit: "n < 16 \<Longrightarrow> hex_value (hex_digit n) = Some n"
  by (simp add: hex_value_def hex_digit_def Let_def of_char_of)

lemma hex_value_lower: "n < 16 \<Longrightarrow> hex_value (lower_char (hex_digit n)) = Some n"
  by (simp add: hex_value_def hex_digit_def lower_char_def Let_def of_char_of)

lemma char_halves: "char_of (16 * (of_char c div 16) + of_char c mod 16 :: nat) = c"
  by (simp add: char_of_char)

lemma char_halves_small: "(of_char c :: nat) div 16 < 16" "(of_char c :: nat) mod 16 < 16"
proof -
  have "(of_char c :: nat) < 256"
    by (metis of_char_of of_char_mod_256 mod_less_divisor zero_less_numeral)
  then have "(of_char c :: nat) < 16 * 16" by simp
  then show "(of_char c :: nat) div 16 < 16" by (rule less_mult_imp_div_less)
qed simp

lemma always_safe_plain: "always_safe c \<Longrightarrow> c \<notin> {CHR ''%'', CHR ''/'', CHR ''?'', CHR ''#'', CHR ''&'', CHR ''='', CHR ''+'', CHR '' ''}"
  by (auto simp: always_safe_def Let_def)

lemma unquote_other: "c \<noteq> CHR ''%'' \<Longrightarrow> unquote (c # s) = c # unquote s"
  by (cases s; cases "tl s") auto

lemma unquote_quote_append:
  assumes "CHR ''%'' \<notin> set safe"
  shows "unquote (quote safe s @ t) = s @ unquote t"
proof (induction s)
  case (Cons c s)
  have "unquote (quote_char safe c @ w) = c # unquote w" for w
  proof (cases "always_safe c \<or> c \<in> set safe")
    case True
    then have "c \<noteq> CHR ''%''" using assms always_safe_plain by auto
    then show ?thesis using True by (simp add: quote_char_def unquote_other)
  next
    case False
    then show ?thesis
      using char_halves_small [of c] by (simp add: quote_char_def hex_value_digit char_halves Let_def)
  qed
  then show ?case using Cons by (simp add: quote_def)
qed (simp add: quote_def)

lemma unquote_quote: "CHR ''%'' \<notin> set safe \<Longrightarrow> unquote (quote safe s) = s"
  using unquote_quote_append [of safe s "[]"] by simp


lemma quote_chars:
  assumes "c \<in> set (quote safe s)"
  shows "always_safe c \<or> c \<in> set safe \<or> c = CHR ''%''"
proof -
  have hex: "always_safe (hex_digit n)" if "n < 16" for n
    using that by (auto simp: always_safe_def hex_digit_def Let_def of_char_of)
  from assms obtain d where "d \<in> set s" "c \<in> set (quote_char safe d)" by (auto simp: quote_def)
  then show ?thesis
    using hex char_halves_small [of d] by (auto simp: quote_char_def Let_def split: if_splits)
qed

lemma quote_avoids:
  "c \<notin> set safe \<Longrightarrow> \<not> always_safe c \<Longrightarrow> c \<noteq> CHR ''%'' \<Longrightarrow> c \<notin> set (quote safe s)"
  using quote_chars by blast

lemma set_join: "set (join sep xs) \<subseteq> set sep \<union> \<Union> (set (map set xs))"
  by (induction sep xs rule: join.induct) auto

section \<open>A path parameter stays in its segment\<close>

definition segment_char :: "char \<Rightarrow> bool" where
  "segment_char c \<longleftrightarrow> always_safe c \<or> c \<in> set ''%,.;=''"

lemma quote_segment:
  "\<forall>c \<in> set safe. always_safe c \<Longrightarrow> c \<in> set (quote safe s) \<Longrightarrow> segment_char c"
  using quote_chars by (fastforce simp: segment_char_def)

lemma unreserved_safe: "\<forall>c \<in> set unreserved. always_safe c"
  by (simp add: unreserved_def always_safe_def)

lemma join_segment:
  assumes "c \<in> set (join sep xs)" and "set sep \<subseteq> Collect segment_char"
    and "\<And>x c. x \<in> set xs \<Longrightarrow> c \<in> set x \<Longrightarrow> segment_char c"
  shows "segment_char c"
  using set_join [of sep xs] assms by auto

text \<open>
  C18. Whatever a caller passes for a path parameter stays in its segment: without
  \<open>allow_reserved\<close> the text put into the path is made of unreserved characters, percent signs and the
  delimiters of the style, so it holds no slash, question mark or hash and no template brace.
\<close>

theorem path_parameter_stays_in_segment:
  assumes "serialize_path py_str p v = Inr text" and "\<not> pp_reserved p" and "c \<in> set text"
  shows "segment_char c \<and> c \<notin> set ''/?#{}''"
proof -
  have safe: "path_safe p = unreserved" using assms(2) by (simp add: path_safe_def)
  have q: "segment_char d" if "d \<in> set (quote unreserved t)" for d t
    using quote_segment [OF unreserved_safe that] .
  have pair: "segment_char d" if "d \<in> set (encode_pair t unreserved)" for d t
    using that q by (auto simp: encode_pair_def segment_char_def split: prod.splits)
  have raw: "segment_char d" if "d \<in> set (path_raw py_str p v)" for d
  proof (cases "kind_of v")
    case (ObjectKind d')
    show ?thesis
      using that unfolding path_raw_def Let_def ObjectKind kind.case safe
      by (rule join_segment) (auto simp: segment_char_def dest: q pair split: if_splits)
  next
    case (ArrayKind xs)
    show ?thesis
      using that unfolding path_raw_def Let_def ArrayKind kind.case safe
      by (rule join_segment) (auto simp: segment_char_def dest: q)
  next
    case PrimitiveKind
    then show ?thesis using that q by (simp add: path_raw_def Let_def safe)
  qed
  obtain name where n: "pp_name p = Some name" using assms(1) by (auto simp: serialize_path_def required_name_def split: option.splits)
  have all: "\<forall>d \<in> set (quote unreserved t). segment_char d" "\<forall>d \<in> set (path_raw py_str p v). segment_char d" for t
    using q raw by blast+
  have delimiters: "segment_char (CHR '';'')" "segment_char (CHR ''='')" "segment_char (CHR ''.'')"
    by (simp_all add: segment_char_def)
  have "\<forall>d \<in> set text. segment_char d"
    using assms(1) n
    by (auto simp: serialize_path_def required_name_def safe all delimiters dest: q
        split: path_style.splits kind.splits bool.splits if_splits)
  then have "segment_char c" using assms(3) by blast
  then show ?thesis by (auto simp: segment_char_def always_safe_def Let_def)
qed


text \<open>A dot segment is made of unreserved characters only, so it is not encoded.\<close>

lemma dot_segment_passes:
  "serialize_path py_str \<lparr>pp_name = Some ''id'', pp_style = SimpleStyle, pp_explode = False, pp_reserved = False\<rparr>
     (PStr s) = Inr (quote unreserved (py_str (PStr s))) \<and> quote unreserved ''..'' = ''..''"
  by (simp add: serialize_path_def required_name_def path_raw_def path_safe_def kind_of_def primitive_def Let_def
      quote_def quote_char_def always_safe_def)

section \<open>The query multimap as a map\<close>

text \<open>A mapping of names to their last value, when no whole query string is set.\<close>

definition qp_map :: "query_params \<Rightarrow> string \<Rightarrow> string option" where
  "qp_map q = map_of (rev (qp_multi_items q))"

lemma find_map_of: "map_option g (find (\<lambda>i. f i = n) xs) = map_of (map (\<lambda>i. (f i, g i)) xs) n"
  by (induction xs) auto

lemma qp_get_map: "qp_get q n = qp_map q n"
  by (simp add: qp_get_def qp_map_def qp_multi_items_def find_map_of rev_map)

lemma qp_map_remove: "qp_map (qp_remove n q) = (qp_map q)(n := None)"
proof
  fix m
  have "map_of (map (\<lambda>i. (qi_name i, qi_value i)) (filter (\<lambda>i. qi_name i \<noteq> n) is)) m =
      ((map_of (map (\<lambda>i. (qi_name i, qi_value i)) is))(n := None)) m" for "is"
    by (induction "is") auto
  from this [of "rev (qp_items q)"] show "qp_map (qp_remove n q) m = ((qp_map q)(n := None)) m"
    by (simp add: qp_map_def qp_remove_def qp_multi_items_def rev_map rev_filter)
qed

lemma qp_map_add: "qp_add n v r ns q = Inr q' \<Longrightarrow> qp_map q' = (qp_map q)(n \<mapsto> v)"
  by (auto simp: qp_add_def qp_map_def qp_multi_items_def split: if_splits)

lemma qp_add_cases: "qp_raw q = None \<longleftrightarrow> (\<exists>q'. qp_add n v r ns q = Inr q')"
  by (auto simp: qp_add_def)

lemma qp_raw_remove [simp]: "qp_raw (qp_remove n q) = qp_raw q"
  by (simp add: qp_remove_def)

lemma filter_same_length: "length (filter P xs) = length xs \<longleftrightarrow> (\<forall>x \<in> set xs. P x)"
  by (metis filter_id_conv filter_True length_filter_less nat_neq_iff)

lemma qp_remove_none: "length (qp_items (qp_remove n q)) = length (qp_items q) \<longleftrightarrow> qp_map q n = None"
  by (auto simp: qp_remove_def qp_map_def qp_multi_items_def rev_map map_of_eq_None_iff image_iff filter_same_length)

lemma collect_names:
  "set (fold (\<lambda>i seen. if qi_name i \<in> set seen then seen else qi_name i # seen) is acc) = qi_name ` set is \<union> set acc \<and>
   (distinct acc \<longrightarrow> distinct (fold (\<lambda>i seen. if qi_name i \<in> set seen then seen else qi_name i # seen) is acc))"
  by (induction "is" arbitrary: acc) auto

text \<open>
  C19. The multimap implements the mapping its class declares: reading gives the last value of a name,
  assignment and deletion act as on a map, deletion fails exactly on a missing name, \<open>setdefault\<close>
  keeps what is there, and the names are those of the map. Once a whole query string is set, nothing
  is added any more, and an assignment, which is refused, has removed the name.
\<close>

theorem query_params_refine_map:
  "qp_getitem q n = (case qp_map q n of Some v \<Rightarrow> Inr v | None \<Rightarrow> Inl (PyError ''KeyError'')) \<and>
   qp_map (snd (qp_setitem n v q)) = (qp_map q)(n := if qp_raw q = None then Some v else None) \<and>
   qp_map (snd (qp_delitem n q)) = (qp_map q)(n := None) \<and>
   (fst (qp_delitem n q) = Inr () \<longleftrightarrow> n \<in> dom (qp_map q)) \<and>
   qp_map (snd (qp_setdefault n v q)) =
     (if qp_map q n = None \<and> qp_raw q = None then (qp_map q)(n \<mapsto> v) else qp_map q) \<and>
   set (qp_names q) = dom (qp_map q) \<and> distinct (qp_names q)"
proof (intro conjI)
  show "qp_getitem q n = (case qp_map q n of Some v \<Rightarrow> Inr v | None \<Rightarrow> Inl (PyError ''KeyError''))"
    by (simp add: qp_getitem_def qp_get_map)
  show "qp_map (snd (qp_setitem n v q)) = (qp_map q)(n := if qp_raw q = None then Some v else None)"
  proof (cases "qp_add n v False [] (qp_remove n q)")
    case (Inl e)
    then have "qp_raw q \<noteq> None" using qp_add_cases [of "qp_remove n q" n v False "[]"] by simp
    then show ?thesis using Inl by (auto simp: qp_setitem_def qp_map_remove)
  next
    case (Inr q')
    then have "qp_raw q = None" using qp_add_cases [of "qp_remove n q" n v False "[]"] by simp
    then show ?thesis using Inr qp_map_add [OF Inr] by (simp add: qp_setitem_def qp_map_remove)
  qed
  show "qp_map (snd (qp_delitem n q)) = (qp_map q)(n := None)"
    by (simp add: qp_delitem_def Let_def qp_map_remove)
  show "fst (qp_delitem n q) = Inr () \<longleftrightarrow> n \<in> dom (qp_map q)"
    by (auto simp: qp_delitem_def Let_def qp_remove_none)
  show "qp_map (snd (qp_setdefault n v q)) =
      (if qp_map q n = None \<and> qp_raw q = None then (qp_map q)(n \<mapsto> v) else qp_map q)"
  proof (cases "qp_add n v False [] q")
    case (Inl e)
    then have "qp_raw q \<noteq> None" using qp_add_cases [of q n v False "[]"] by simp
    then show ?thesis using Inl by (auto simp: qp_setdefault_def qp_get_map split: option.split)
  next
    case (Inr q')
    then have "qp_raw q = None" using qp_add_cases [of q n v False "[]"] by simp
    then show ?thesis using Inr qp_map_add [OF Inr] by (auto simp: qp_setdefault_def qp_get_map split: option.split)
  qed
  show "set (qp_names q) = dom (qp_map q)" "distinct (qp_names q)"
    using collect_names [of "qp_items q" "[]"]
    by (auto simp: qp_names_def qp_map_def qp_multi_items_def rev_map dom_map_of_conv_image_fst image_image)
qed

text \<open>
  \<open>extend_query\<close> asks only whether the other multimap has a whole query string: on one that has it
  itself, the items it appends never reach the wire.
\<close>

lemma extend_query_drops_items:
  "qp_extend_query \<lparr>qp_items = [i], qp_raw = None\<rparr> \<lparr>qp_items = [], qp_raw = Some ''a=1''\<rparr> =
     Inr \<lparr>qp_items = [i], qp_raw = Some ''a=1''\<rparr> \<and>
   qp_render \<lparr>qp_items = [i], qp_raw = Some ''a=1''\<rparr> = ''a=1''"
  by (simp add: qp_extend_query_def qp_render_def)


section \<open>Witnesses\<close>

lemma path_parameter_stays_in_segment_witness:
  "segment_char (CHR ''%'') \<and> CHR ''%'' \<notin> set ''/?#{}''"
proof -
  have "serialize_path (\<lambda>_. ''a/b'') \<lparr>pp_name = Some ''id'', pp_style = SimpleStyle, pp_explode = False, pp_reserved = False\<rparr>
      (PStr ''a/b'') = Inr ''a%2Fb''"
    by (simp add: serialize_path_def required_name_def path_raw_def path_safe_def kind_of_def primitive_def Let_def
        quote_def quote_char_def always_safe_def unreserved_def hex_digit_def char_of_def bit_numeral_rec bit_Suc_0_iff)
  from path_parameter_stays_in_segment [OF this, of "CHR ''%''"] show ?thesis by simp
qed

end
