(* ===== verification/Preparation.thy ===== *)
theory Preparation
  imports Documents Parameters
begin

text \<open>
  Preparing a request (\<open>request/prepared.py\<close>): the values of an attempt become an address, headers,
  cookies and a body, with a view of the same request that signatures read.

  Texts that go to the wire are lists of bytes. A slot carries its descriptor: what the declaration
  says about its place. Scalar codecs, the model library, the JSON backend and compression are
  parameters.
\<close>

section \<open>Prepared artifacts\<close>

record query_pair =
  qr_name :: string
  qr_value :: string
  qr_encoded_name :: string
  qr_encoded_value :: string

record header_field =
  hf_name :: string
  hf_value :: string
  hf_sensitive :: bool

record prepared_cookie =
  pc_name :: string
  pc_value :: string

record form_field =
  ff_name :: string
  ff_value :: string

datatype request_body =
    BufferedBody (bb_content: string) (bb_content_type: "string option")
  | StreamedBody (sb_length: "int option")

record body_view =
  bv_content :: string
  bv_media_type :: "string option"
  bv_json :: "pyval option"
  bv_form :: "form_field list option"
  bv_sensitive :: bool

record request_view =
  rv_method :: string
  rv_scheme :: string
  rv_authority :: string
  rv_path :: string
  rv_target :: string
  rv_query :: "query_pair list"
  rv_headers :: "header_field list"
  rv_cookies :: "prepared_cookie list"
  rv_body :: body_view

text \<open>A prepared request; \<open>pr_reserved\<close> holds the identities of the outputs still to be filled.\<close>

record prepared_request =
  pr_method :: string
  pr_scheme :: string
  pr_authority :: string
  pr_target :: string
  pr_headers :: "header_field list"
  pr_body :: request_body
  pr_reserved :: "nat list"
  pr_view :: "request_view option"

definition query_wire :: "query_pair \<Rightarrow> string" where
  "query_wire p = qr_encoded_name p @ CHR ''='' # qr_encoded_value p"

definition finalize :: "prepared_request \<Rightarrow> sdk_error + prepared_request" where
  "finalize r =
     (if pr_reserved r \<noteq> [] then Inl (PlanError ''required reserved outputs are unfilled'') else Inr r)"

section \<open>Names and values on the wire\<close>

definition header_name_char :: "char \<Rightarrow> bool" where
  "header_name_char c \<longleftrightarrow>
     c \<in> set (''!#$%&'' @ [CHR 39] @ ''*+-.^_`|~0123456789'' @
       ''ABCDEFGHIJKLMNOPQRSTUVWXYZabcdefghijklmnopqrstuvwxyz'')"

definition header_name :: "string \<Rightarrow> sdk_error + string" where
  "header_name v =
     (if v = [] \<or> \<not> list_all header_name_char v
      then Inl (PlanError (''invalid request header name: '' @ py_repr v)) else Inr v)"

definition line_break :: "char \<Rightarrow> bool" where
  "line_break c \<longleftrightarrow> (of_char c :: nat) \<in> {0, 10, 13}"

definition header_value :: "string \<Rightarrow> string \<Rightarrow> sdk_error + string" where
  "header_value name text =
     (if list_ex line_break text
      then Inl (PlanError (''invalid request header value for '' @ py_repr name)) else Inr text)"

type_synonym scalar_codec = "pyval \<Rightarrow> sdk_error + pyval"

definition scalar_value :: "scalar_codec option \<Rightarrow> pyval \<Rightarrow> sdk_error + pyval" where
  "scalar_value codec v =
     (case codec of
        None \<Rightarrow> Inr v
      | Some f \<Rightarrow> bindE (f v) (\<lambda>e. case e of PStr s \<Rightarrow> Inr e | _ \<Rightarrow> Inl (BindingError ''scalar codec must return str'')))"

datatype descriptor =
    PathD path_param "scalar_codec option"
  | QueryD query_param "scalar_codec option"
  | QueryStringD querystring_media
  | HeaderD header_param "scalar_codec option"
  | CookieD header_param "scalar_codec option"
  | ManagedCookieSetD
  | FormD "scalar_codec option"
  | OtherD

record placed_slot =
  ps_slot :: value_slot
  ps_name :: string
  ps_descriptor :: descriptor

text \<open>The functions of the standard library and of the configured backends.\<close>

record toolkit =
  tk_str :: "pyval \<Rightarrow> string"
  tk_urlencode :: "(string \<times> pyval) list \<Rightarrow> string"
  tk_dump :: "pyval \<Rightarrow> pyval"
  tk_json :: "pyval \<Rightarrow> sdk_error + string"

section \<open>The order of fields\<close>

text \<open>\<open>_apply_order\<close>. Lower case folds names here even where they are case-sensitive.\<close>

definition apply_order :: "string list option \<Rightarrow> string \<Rightarrow> placed_slot list \<Rightarrow> sdk_error + placed_slot list" where
  "apply_order order location slots =
     (case order of
        None \<Rightarrow> Inr slots
      | Some names \<Rightarrow>
          if \<not> distinct (map lower names) then Inl (PlanError (''duplicate '' @ location @ '' order entry''))
          else if \<not> set names \<subseteq> ps_name ` set slots
          then Inl (PlanError (''unknown '' @ location @ '' order entries''))
          else if \<exists>s \<in> set slots. slot_required (ps_slot s) \<and> ps_name s \<notin> set names
          then Inl (PlanError (''required '' @ location @ '' slots omitted from order''))
          else let ordered = map (\<lambda>n. the (map_of (rev (map (\<lambda>s. (ps_name s, s)) slots)) n)) names in
            Inr (ordered @ filter (\<lambda>s. slot_id (ps_slot s) \<notin> (slot_id \<circ> ps_slot) ` set ordered) slots))"

text \<open>\<open>_order_mapping\<close>, on the body before it is encoded.\<close>

definition order_mapping :: "string list option \<Rightarrow> pyval \<Rightarrow> sdk_error + pyval" where
  "order_mapping order v =
     (case order of
        None \<Rightarrow> Inr v
      | Some names \<Rightarrow>
          (case v of
             PDict d \<Rightarrow>
               if \<not> distinct names then Inl (PlanError ''duplicate body order entry'')
               else if \<not> set names \<subseteq> set (keys d) then Inl (PlanError ''unknown body order entries'')
               else Inr (PDict (map (\<lambda>n. (n, the (map_of d n))) names @ filter (\<lambda>p. fst p \<notin> set names) d))
           | _ \<Rightarrow> Inl (BindingError ''explicit body order requires an object-shaped body'')))"

section \<open>The query\<close>

definition query_pairs_of :: "query_codec \<Rightarrow> query_params \<Rightarrow> query_pair list" where
  "query_pairs_of codec q =
     map (\<lambda>(n, v, en, ev). \<lparr>qr_name = n, qr_value = v, qr_encoded_name = encode_query_component codec en,
       qr_encoded_value = encode_query_component codec ev\<rparr>) (qp_encoded_items q)"

definition is_ascii :: "char \<Rightarrow> bool" where
  "is_ascii c \<longleftrightarrow> (of_char c :: nat) < 128"

definition serialized_query :: "toolkit \<Rightarrow> placed_slot \<Rightarrow> pyval \<Rightarrow> sdk_error + query_params" where
  "serialized_query tk s v =
     (case ps_descriptor s of
        QueryD p codec \<Rightarrow> bindE (scalar_value codec v) (serialize_query (tk_str tk) p)
      | QueryStringD media \<Rightarrow> serialize_querystring (tk_urlencode tk) (tk_dump tk) media v
      | _ \<Rightarrow> serialize_query (tk_str tk)
          \<lparr>qy_name = Some (ps_name s), qy_style = FormStyle, qy_explode = True, qy_reserved = False\<rparr> v)"

definition query_step ::
  "toolkit \<Rightarrow> query_codec \<Rightarrow> op_values \<Rightarrow> query_pair list \<times> string option \<Rightarrow> placed_slot \<Rightarrow>
     sdk_error + query_pair list \<times> string option" where
  "query_step tk codec ov st s =
     (case st of (output, raw) \<Rightarrow>
       bindE (contains_slot ov (ps_slot s)) (\<lambda>present.
         if \<not> present then Inr st
         else bindE (require_slot ov (ps_slot s)) (\<lambda>v.
           bindE (serialized_query tk s v) (\<lambda>q.
             case qp_raw q of
               Some r \<Rightarrow>
                 if output \<noteq> [] \<or> raw \<noteq> None
                 then Inl (PlanError ''a querystring parameter cannot be combined with other query values'')
                 else if \<not> list_all is_ascii r
                 then Inl (PlanError ''raw querystring must contain ASCII wire characters'')
                 else Inr (output, Some r)
             | None \<Rightarrow>
                 if raw \<noteq> None
                 then Inl (PlanError ''a querystring parameter cannot be combined with other query values'')
                 else Inr (output @ query_pairs_of codec q, raw)))))"

definition render_query :: "query_pair list \<Rightarrow> string" where
  "render_query ps = join ''&'' (map query_wire ps)"

definition query_parts ::
  "toolkit \<Rightarrow> query_codec \<Rightarrow> op_values \<Rightarrow> placed_slot list \<Rightarrow> sdk_error + query_pair list \<times> string" where
  "query_parts tk codec ov slots =
     bindE (foldE (query_step tk codec ov) ([], None) slots) (\<lambda>(output, raw).
       Inr (output, case raw of Some r \<Rightarrow> r | None \<Rightarrow> render_query output))"

definition existing_query :: "string \<Rightarrow> sdk_error + query_pair list \<times> string" where
  "existing_query v =
     (if v = [] then Inr ([], [])
      else if \<not> list_all is_ascii v
      then Inl (PlanError ''existing URL query must contain ASCII wire characters'')
      else Inr (map (\<lambda>field. case py_partition field ''='' of (n, _, item) \<Rightarrow>
          \<lparr>qr_name = unquote n, qr_value = unquote item, qr_encoded_name = n, qr_encoded_value = item\<rparr>)
        (split_on (CHR ''&'') v), v))"

fun ensure_unique_names :: "string list \<Rightarrow> query_pair list \<Rightarrow> sdk_error + unit" where
  "ensure_unique_names seen [] = Inr ()"
| "ensure_unique_names seen (p # ps) =
     (if qr_name p \<in> set seen then Inl (PlanError (''duplicate query wire name '' @ py_repr (qr_name p)))
      else ensure_unique_names (qr_name p # seen) ps)"

section \<open>Headers and cookies\<close>

definition is_sequence :: "pyval \<Rightarrow> bool" where
  "is_sequence v \<longleftrightarrow> seq_items v \<noteq> None"

text \<open>The texts of a header: one, or one per item of a sequence.\<close>

definition header_texts :: "toolkit \<Rightarrow> placed_slot \<Rightarrow> pyval \<Rightarrow> sdk_error + string list" where
  "header_texts tk s v =
     (let many = (case seq_items v of Some xs \<Rightarrow> map (primitive (tk_str tk)) xs | None \<Rightarrow> [primitive (tk_str tk) v]) in
      case ps_descriptor s of
        HeaderD p (Some f) \<Rightarrow> bindE (scalar_value (Some f) v) (\<lambda>e. Inr [serialize_header (tk_str tk) p e])
      | HeaderD p None \<Rightarrow> Inr (if is_sequence v then many else [serialize_header (tk_str tk) p v])
      | _ \<Rightarrow> Inr many)"

definition header_step ::
  "toolkit \<Rightarrow> op_values \<Rightarrow> header_field list \<times> string list \<Rightarrow> placed_slot \<Rightarrow>
     sdk_error + header_field list \<times> string list" where
  "header_step tk ov st s =
     (case st of (output, seen) \<Rightarrow>
       bindE (contains_slot ov (ps_slot s)) (\<lambda>present.
         if \<not> present then Inr st
         else bindE (header_name (ps_name s)) (\<lambda>name.
           bindE (require_slot ov (ps_slot s)) (\<lambda>v.
             bindE (header_texts tk s v) (\<lambda>texts.
               if lower name \<in> set seen
               then Inl (PlanError (''case-colliding header declaration: '' @ name))
               else bindE (mapE (header_value name) texts) (\<lambda>values.
                 Inr (output @ map (\<lambda>t. \<lparr>hf_name = name, hf_value = t, hf_sensitive = slot_secret (ps_slot s)\<rparr>) values,
                      lower name # seen)))))))"

definition headers :: "toolkit \<Rightarrow> op_values \<Rightarrow> placed_slot list \<Rightarrow> sdk_error + header_field list" where
  "headers tk ov slots = bindE (foldE (header_step tk ov) ([], []) slots) (\<lambda>(output, _). Inr output)"

definition cookie_name_text :: "toolkit \<Rightarrow> placed_slot \<Rightarrow> pyval \<Rightarrow> sdk_error + string \<times> string" where
  "cookie_name_text tk s v =
     (case ps_descriptor s of
        CookieD p codec \<Rightarrow> bindE (scalar_value codec v) (serialize_cookie (tk_str tk) p)
      | _ \<Rightarrow> Inr (ps_name s, primitive (tk_str tk) v))"

definition add_cookie :: "prepared_cookie list \<Rightarrow> string \<times> string \<Rightarrow> sdk_error + prepared_cookie list" where
  "add_cookie output c =
     bindE (header_name (fst c)) (\<lambda>name.
       if name \<in> pc_name ` set output then Inl (PlanError (''duplicate cookie wire name '' @ py_repr (fst c)))
       else bindE (header_value ''Cookie'' (snd c)) (\<lambda>text.
         Inr (output @ [\<lparr>pc_name = name, pc_value = text\<rparr>])))"

text \<open>A managed set is a tuple of name and value pairs.\<close>

definition managed_pair :: "pyval \<Rightarrow> sdk_error + string \<times> string" where
  "managed_pair v =
     (case v of
        PTuple [PStr n, PStr t] \<Rightarrow> Inr (n, t)
      | _ \<Rightarrow> Inl (BindingError ''managed cookie set contains an invalid item''))"

definition cookie_step ::
  "toolkit \<Rightarrow> op_values \<Rightarrow> prepared_cookie list \<Rightarrow> placed_slot \<Rightarrow> sdk_error + prepared_cookie list" where
  "cookie_step tk ov output s =
     bindE (contains_slot ov (ps_slot s)) (\<lambda>present.
       if \<not> present then Inr output
       else bindE (require_slot ov (ps_slot s)) (\<lambda>v.
         case ps_descriptor s of
           ManagedCookieSetD \<Rightarrow>
             (case v of
                PTuple items \<Rightarrow> foldE (\<lambda>output item. bindE (managed_pair item) (add_cookie output)) output items
              | _ \<Rightarrow> Inl (BindingError ''managed cookie set must be a validated tuple''))
         | _ \<Rightarrow> bindE (cookie_name_text tk s v) (add_cookie output)))"

definition cookies :: "toolkit \<Rightarrow> op_values \<Rightarrow> placed_slot list \<Rightarrow> sdk_error + prepared_cookie list" where
  "cookies tk ov slots = foldE (cookie_step tk ov) [] slots"

text \<open>\<open>_with_jar\<close>: what the wire cannot carry is left out, a declared name wins.\<close>

definition jar_step :: "prepared_cookie list \<times> string list \<Rightarrow> string \<times> string \<Rightarrow> prepared_cookie list \<times> string list" where
  "jar_step st c =
     (case st of (output, taken) \<Rightarrow>
       (case (header_name (fst c), header_value ''Cookie'' (snd c)) of
          (Inr name, Inr text) \<Rightarrow>
            if name \<in> set taken then st else (output @ [\<lparr>pc_name = name, pc_value = text\<rparr>], name # taken)
        | _ \<Rightarrow> st))"

definition with_jar :: "prepared_cookie list \<Rightarrow> (string \<times> string) list \<Rightarrow> prepared_cookie list" where
  "with_jar declared stored = fst (foldl jar_step (declared, map pc_name declared) stored)"

definition cookie_wire :: "prepared_cookie list \<Rightarrow> string" where
  "cookie_wire cs = join ''; '' (map (\<lambda>c. pc_name c @ CHR ''='' # pc_value c) cs)"

definition plain_header :: "string \<Rightarrow> string \<Rightarrow> header_field" where
  "plain_header name v = \<lparr>hf_name = name, hf_value = v, hf_sensitive = False\<rparr>"

definition automatic_headers ::
  "(int \<Rightarrow> string) \<Rightarrow> header_field list \<Rightarrow> string \<Rightarrow> request_body \<Rightarrow> string option \<Rightarrow> prepared_cookie list \<Rightarrow>
     header_field list" where
  "automatic_headers int_text hs authority body content_type cs =
     (let names = map (lower \<circ> hf_name) hs;
          len = (case body of BufferedBody content _ \<Rightarrow> Some (int (length content)) | StreamedBody n \<Rightarrow> n) in
      hs @
      (if ''host'' \<notin> set names then [plain_header ''Host'' authority] else []) @
      (case content_type of
         Some t \<Rightarrow> if ''content-type'' \<notin> set names then [plain_header ''Content-Type'' t] else []
       | None \<Rightarrow> []) @
      (case len of
         Some n \<Rightarrow> if ''content-length'' \<notin> set names then [plain_header ''Content-Length'' (int_text n)] else []
       | None \<Rightarrow> []) @
      (if cs \<noteq> [] \<and> ''cookie'' \<notin> set names
       then [\<lparr>hf_name = ''Cookie'', hf_value = cookie_wire cs, hf_sensitive = True\<rparr>] else []))"


section \<open>The body\<close>

text \<open>\<open>_freeze_json\<close>: tuples are frozen like lists; other values are texts already.\<close>

fun freeze_json :: "pyval \<Rightarrow> pyval" where
  "freeze_json (PDict d) = PTuple (map (\<lambda>p. PTuple [PStr (fst p), freeze_json (snd p)]) d)"
| "freeze_json (PList xs) = PTuple (map freeze_json xs)"
| "freeze_json (PTuple xs) = PTuple (map freeze_json xs)"
| "freeze_json v = v"

definition quote_plus :: "string \<Rightarrow> string" where
  "quote_plus s = plus_spaces (quote unreserved s)"

definition form_wire :: "form_field list \<Rightarrow> string" where
  "form_wire fs = join ''&'' (map (\<lambda>f. quote_plus (ff_name f) @ CHR ''='' # quote_plus (ff_value f)) fs)"

definition form_fields :: "toolkit \<Rightarrow> (string \<times> pyval) list \<Rightarrow> sdk_error + form_field list" where
  "form_fields tk d =
     mapE (\<lambda>(n, v).
       if is_sequence v
       then Inl (BindingError (''form field '' @ py_repr n @ '' requires an explicit single-value scalar codec''))
       else Inr \<lparr>ff_name = n, ff_value = primitive (tk_str tk) v\<rparr>) d"

record multipart_part =
  mp_content :: string
  mp_filename :: "string option"
  mp_content_type :: "string option"
  mp_headers :: "(string \<times> string) list"

definition crlf :: string where
  "crlf = [CHR 0x0D, CHR 0x0A]"

definition quoted :: "string \<Rightarrow> string" where
  "quoted s = CHR 0x22 # s @ [CHR 0x22]"

definition part_wire :: "string \<Rightarrow> string \<Rightarrow> multipart_part \<Rightarrow> string" where
  "part_wire boundary name part =
     ''--'' @ boundary @ crlf @
     ''Content-Disposition: form-data; name='' @ quoted name @
     (case mp_filename part of Some f \<Rightarrow> ''; filename='' @ quoted f | None \<Rightarrow> []) @ crlf @
     (case mp_content_type part of Some t \<Rightarrow> ''Content-Type: '' @ t @ crlf | None \<Rightarrow> []) @
     concat (map (\<lambda>(n, v). n @ '': '' @ v @ crlf) (mp_headers part)) @
     crlf @ mp_content part @ crlf"

definition multipart :: "string \<Rightarrow> (string \<times> multipart_part list) list \<Rightarrow> string" where
  "multipart boundary entries =
     concat (map (\<lambda>(n, parts). concat (map (part_wire boundary n) parts)) entries) @ ''--'' @ boundary @ ''--'' @ crlf"

text \<open>A value of a multipart field: \<open>given\<close> tells the parts the caller built from plain values.\<close>

definition part_of :: "toolkit \<Rightarrow> (pyval \<Rightarrow> multipart_part option) \<Rightarrow> pyval \<Rightarrow> multipart_part" where
  "part_of tk given v =
     (case given v of
        Some part \<Rightarrow> part
      | None \<Rightarrow> \<lparr>mp_content = (case v of PBytes b \<Rightarrow> b | _ \<Rightarrow> primitive (tk_str tk) v), mp_filename = None,
          mp_content_type = None, mp_headers = []\<rparr>)"

definition multipart_fields ::
  "toolkit \<Rightarrow> (pyval \<Rightarrow> multipart_part option) \<Rightarrow> (string \<times> pyval) list \<Rightarrow> (string \<times> multipart_part list) list" where
  "multipart_fields tk given d =
     map (\<lambda>(n, v). (n, case given v of
        Some part \<Rightarrow> [part]
      | None \<Rightarrow> (case seq_items v of Some xs \<Rightarrow> map (part_of tk given) xs | None \<Rightarrow> [part_of tk given v]))) d"

text \<open>
  A body descriptor. \<open>BytesB\<close> has the declared compression, \<open>StreamB\<close> reads the known length of a
  stream (\<open>None\<close> when the value is no stream), \<open>CodecB\<close> is a codec of the caller.
\<close>

datatype body_descriptor =
    JsonB string
  | FormB string
  | MultipartB string "string option"
  | BytesB "string option" "string \<Rightarrow> string"
  | StreamB "string option" "pyval \<Rightarrow> int option option"
  | CodecB "string option" "pyval \<Rightarrow> sdk_error + pyval"

record body_layout =
  bl_descriptor :: "body_descriptor option"
  bl_order :: "string list option"
  bl_slots :: "placed_slot list"
  bl_flat :: bool
  bl_projected :: bool

definition flat_step ::
  "op_values \<Rightarrow> (string, pyval) dict \<Rightarrow> placed_slot \<Rightarrow> sdk_error + (string, pyval) dict" where
  "flat_step ov d s =
     bindE (contains_slot ov (ps_slot s)) (\<lambda>present.
       if \<not> present then Inr d
       else bindE (require_slot ov (ps_slot s)) (\<lambda>v.
         bindE (case ps_descriptor s of FormD codec \<Rightarrow> scalar_value codec v | _ \<Rightarrow> Inr v) (\<lambda>x.
           Inr (AList.update (ps_name s) x d))))"

definition body_value :: "op_values \<Rightarrow> body_layout \<Rightarrow> sdk_error + pyval" where
  "body_value ov layout =
     (if \<not> bl_flat layout
      then (case bl_slots layout of [] \<Rightarrow> Inl (PyError ''IndexError'') | s # _ \<Rightarrow> require_slot ov (ps_slot s))
      else bindE (foldE (flat_step ov) [] (bl_slots layout)) (\<lambda>d. Inr (PDict d)))"

definition body_mapping :: "string \<Rightarrow> pyval \<Rightarrow> sdk_error + (string \<times> pyval) list" where
  "body_mapping message v = (case v of PDict d \<Rightarrow> Inr d | _ \<Rightarrow> Inl (BindingError message))"

definition simple_view :: "string \<Rightarrow> string option \<Rightarrow> bool \<Rightarrow> body_view" where
  "simple_view content media secret =
     \<lparr>bv_content = content, bv_media_type = media, bv_json = None, bv_form = None, bv_sensitive = secret\<rparr>"

text \<open>An optional text that Python takes for true.\<close>

definition non_empty :: "string option \<Rightarrow> string list" where
  "non_empty v = (case v of Some (c # s) \<Rightarrow> [c # s] | _ \<Rightarrow> [])"

definition media_of :: "string option \<Rightarrow> string option" where
  "media_of v = (case non_empty v of [] \<Rightarrow> None | t # _ \<Rightarrow> Some t)"

definition encode_body ::
  "toolkit \<Rightarrow> (pyval \<Rightarrow> multipart_part option) \<Rightarrow> string option \<Rightarrow> bool \<Rightarrow> bool \<Rightarrow> body_layout \<Rightarrow> body_descriptor \<Rightarrow>
     pyval \<Rightarrow> sdk_error + request_body \<times> body_view" where
  "encode_body tk given boundary secret override layout descriptor v =
     (case descriptor of
        JsonB ct \<Rightarrow>
          bindE (order_mapping (bl_order layout) (if override then v else tk_dump tk v)) (\<lambda>semantic.
            bindE (tk_json tk semantic) (\<lambda>content.
              Inr (BufferedBody content (Some ct), (simple_view content (Some ct) secret)\<lparr>bv_json := Some (freeze_json semantic)\<rparr>)))
      | _ \<Rightarrow>
        if override \<and> \<not> bl_projected layout
        then Inl (PlanError ''document body override requires a JSON body descriptor'')
        else case descriptor of
          FormB ct \<Rightarrow>
            bindE (if bl_projected layout then body_mapping ''form body projection must produce an object-shaped document'' v
                   else body_mapping ''form or multipart body must be object-shaped'' (tk_dump tk v)) (\<lambda>d.
              bindE (order_mapping (bl_order layout) (PDict d)) (\<lambda>ordered.
                bindE (form_fields tk (case ordered of PDict e \<Rightarrow> e | _ \<Rightarrow> [])) (\<lambda>fields.
                  let content = form_wire fields in
                  Inr (BufferedBody content (Some ct), (simple_view content (Some ct) secret)\<lparr>bv_form := Some fields\<rparr>))))
        | MultipartB ct declared \<Rightarrow>
            let b = hd (non_empty boundary @ non_empty declared @ [''eazy_sdk-boundary'']);
                media = ct @ ''; boundary='' @ b in
            bindE (body_mapping (if bl_projected layout then ''multipart body projection must produce an object-shaped document''
                  else ''multipart body must be object-shaped'')
                (case v of PDict d \<Rightarrow> v | _ \<Rightarrow> if bl_projected layout then v else tk_dump tk v)) (\<lambda>d.
              bindE (order_mapping (bl_order layout) (PDict d)) (\<lambda>ordered.
                let content = multipart b (multipart_fields tk given (case ordered of PDict e \<Rightarrow> e | _ \<Rightarrow> [])) in
                Inr (BufferedBody content (Some media), simple_view content (Some media) secret)))
        | BytesB ct compress \<Rightarrow>
            (case v of
               PBytes b \<Rightarrow> Inr (BufferedBody (compress b) (media_of ct), simple_view (compress b) ct secret)
             | _ \<Rightarrow> Inl (BindingError ''bytes body requires a bytes-like value''))
        | StreamB ct known \<Rightarrow>
            (case known v of
               None \<Rightarrow> Inl (BindingError ''stream body requires ReplayableBodyStream with a fresh factory'')
             | Some len \<Rightarrow> Inr (StreamedBody len, simple_view [] ct secret))
        | CodecB ct enc \<Rightarrow>
            bindE (enc (if bl_projected layout then v else tk_dump tk v)) (\<lambda>e.
              case e of
                PBytes b \<Rightarrow> Inr (BufferedBody b (media_of ct), simple_view b ct secret)
              | _ \<Rightarrow> Inl (BindingError ''custom body codec must return bytes''))
        | JsonB ct \<Rightarrow> Inl (PlanError ''unsupported body descriptor''))"

definition body_stage ::
  "toolkit \<Rightarrow> (pyval \<Rightarrow> multipart_part option) \<Rightarrow> op_values \<Rightarrow> body_layout \<Rightarrow> string option \<Rightarrow> pyval option \<Rightarrow>
     sdk_error + request_body \<times> body_view" where
  "body_stage tk given ov layout boundary override =
     (let secret = list_ex (\<lambda>s. slot_secret (ps_slot s)) (bl_slots layout) in
      bindE (mapE (\<lambda>s. contains_slot ov (ps_slot s)) (bl_slots layout)) (\<lambda>present.
        case bl_descriptor layout of
          None \<Rightarrow> Inr (BufferedBody [] None, simple_view [] None secret)
        | Some descriptor \<Rightarrow>
            if \<not> bl_projected layout \<and> \<not> list_ex id present \<and> override = None
            then Inr (BufferedBody [] None, simple_view [] None secret)
            else bindE (if bl_projected layout
                        then (case override of
                                None \<Rightarrow> Inl (PlanError ''body projection document is missing from the attempt'')
                              | Some doc \<Rightarrow> Inr doc)
                        else body_value ov layout) (\<lambda>v.
              case (descriptor, override) of
                (JsonB _, Some doc) \<Rightarrow> encode_body tk given boundary secret True layout descriptor doc
              | _ \<Rightarrow> encode_body tk given boundary secret (override \<noteq> None) layout descriptor v)))"

section \<open>The whole request\<close>

text \<open>\<open>path.replace(marker, rendered)\<close>: every occurrence, from left to right.\<close>

function replace_all :: "string \<Rightarrow> string \<Rightarrow> string \<Rightarrow> string" where
  "replace_all pat new s =
     (if pat = [] then s
      else case find_sub pat s of None \<Rightarrow> s | Some (a, b) \<Rightarrow> a @ new @ replace_all pat new b)"
  by pat_completeness auto

termination
  by (relation "measure (\<lambda>(pat, new, s). length s)") (auto dest: find_sub_Some)

record request_plan =
  rq_method :: string
  rq_scheme :: string
  rq_netloc :: string
  rq_path :: string
  rq_query :: string
  rq_path_slots :: "placed_slot list"
  rq_query_slots :: "placed_slot list"
  rq_header_slots :: "placed_slot list"
  rq_cookie_slots :: "placed_slot list"
  rq_codec :: query_codec
  rq_body :: body_layout

definition path_step :: "toolkit \<Rightarrow> op_values \<Rightarrow> string \<Rightarrow> placed_slot \<Rightarrow> sdk_error + string" where
  "path_step tk ov path s =
     bindE (require_slot ov (ps_slot s)) (\<lambda>v.
       let marker = ''{'' @ ps_name s @ ''}'' in
       if find_sub marker path = None
       then Inl (PlanError (''path slot '' @ py_repr (ps_name s) @ '' is absent from template '' @ py_repr path))
       else bindE (case ps_descriptor s of
              PathD p codec \<Rightarrow> bindE (scalar_value codec v) (serialize_path (tk_str tk) p)
            | _ \<Rightarrow> Inr (quote unreserved (primitive (tk_str tk) v))) (\<lambda>rendered.
         Inr (replace_all marker rendered path)))"

text \<open>
  The end of \<open>RequestPreparer.prepare\<close>: the request and its view from the parts. A redirect that
  drops the body drops the headers that describe it.
\<close>

definition assemble_request ::
  "(int \<Rightarrow> string) \<Rightarrow> request_plan \<Rightarrow> nat list \<Rightarrow> string option \<Rightarrow> bool \<Rightarrow> string \<Rightarrow> query_pair list \<times> string \<Rightarrow>
     query_pair list \<times> string \<Rightarrow> prepared_cookie list \<Rightarrow> request_body \<times> body_view \<Rightarrow> header_field list \<Rightarrow>
     prepared_request" where
  "assemble_request int_text rq reserved method omit_body path generated existing cs body declared_headers =
     (let query = join ''&'' (filter (\<lambda>t. t \<noteq> []) [snd existing, snd generated]);
          target = path @ (if query = [] then [] else ''?'' @ query);
          kept = (if omit_body
             then filter (\<lambda>f. lower (hf_name f) \<notin> {''content-length'', ''content-type'', ''transfer-encoding''}) declared_headers
             else declared_headers);
          content_type = (case fst body of
               BufferedBody _ ct \<Rightarrow> ct
             | StreamedBody _ \<Rightarrow> (case bl_descriptor (rq_body rq) of Some (StreamB ct _) \<Rightarrow> ct | _ \<Rightarrow> None));
          hs = automatic_headers int_text kept (rq_netloc rq) (fst body) content_type cs;
          m = map upper_char (hd (non_empty method @ [rq_method rq])) in
       \<lparr>pr_method = m, pr_scheme = rq_scheme rq, pr_authority = rq_netloc rq, pr_target = target, pr_headers = hs,
         pr_body = fst body, pr_reserved = reserved,
         pr_view = Some \<lparr>rv_method = m, rv_scheme = rq_scheme rq, rv_authority = rq_netloc rq, rv_path = path,
           rv_target = target, rv_query = fst existing @ fst generated, rv_headers = hs, rv_cookies = cs,
           rv_body = snd body\<rparr>\<rparr>)"

text \<open>\<open>str.encode("ascii")\<close>.\<close>

definition ascii_bytes :: "string \<Rightarrow> sdk_error + string" where
  "ascii_bytes s = (if list_all is_ascii s then Inr s else Inl (PyError ''UnicodeEncodeError''))"

definition with_session_cookies ::
  "request_plan \<Rightarrow> (string \<Rightarrow> (string \<times> string) list) option \<Rightarrow> string \<Rightarrow> prepared_cookie list \<Rightarrow> prepared_cookie list" where
  "with_session_cookies rq jar path declared =
     (case jar of None \<Rightarrow> declared | Some f \<Rightarrow> with_jar declared (f (rq_scheme rq @ ''://'' @ rq_netloc rq @ path)))"

text \<open>
  \<open>RequestPreparer.prepare\<close> on a resolved address. On a redirect (\<open>template = False\<close>) the path is sent
  as it is; \<open>jar\<close> gives the cookies the session holds for the final address.
\<close>

definition prepare_request ::
  "toolkit \<Rightarrow> (pyval \<Rightarrow> multipart_part option) \<Rightarrow> (int \<Rightarrow> string) \<Rightarrow> request_plan \<Rightarrow> op_values \<Rightarrow> bool \<Rightarrow> nat list \<Rightarrow>
     string option \<Rightarrow> string option \<Rightarrow> bool \<Rightarrow> pyval option \<Rightarrow> (string \<Rightarrow> (string \<times> string) list) option \<Rightarrow>
     sdk_error + prepared_request" where
  "prepare_request tk given int_text rq ov template reserved boundary method omit_body override jar =
     bindE (foldE (path_step tk ov) (if rq_path rq = [] then ''/'' else rq_path rq) (if template then rq_path_slots rq else []))
       (\<lambda>path.
     bindE (query_parts tk (rq_codec rq) ov (rq_query_slots rq)) (\<lambda>generated.
     bindE (existing_query (rq_query rq)) (\<lambda>existing.
     bindE (ensure_unique_names (map qr_name (fst existing)) (fst generated)) (\<lambda>_.
     bindE (ascii_bytes path) (\<lambda>_.
     bindE (cookies tk ov (rq_cookie_slots rq)) (\<lambda>declared.
     bindE (if omit_body then Inr (BufferedBody [] None, simple_view [] None False)
            else body_stage tk given ov (rq_body rq) boundary override) (\<lambda>body.
     bindE (headers tk ov (rq_header_slots rq)) (\<lambda>declared_headers.
     bindE (ascii_bytes (rq_netloc rq)) (\<lambda>_.
       Inr (assemble_request int_text rq reserved method omit_body path generated existing
         (with_session_cookies rq jar path declared) body declared_headers))))))))))"

section \<open>What reaches a header line\<close>

definition clean_header :: "header_field \<Rightarrow> bool" where
  "clean_header f \<longleftrightarrow> hf_name f \<noteq> [] \<and> list_all header_name_char (hf_name f) \<and> \<not> list_ex line_break (hf_value f)"

definition clean_cookie :: "prepared_cookie \<Rightarrow> bool" where
  "clean_cookie c \<longleftrightarrow> pc_name c \<noteq> [] \<and> list_all header_name_char (pc_name c) \<and> \<not> list_ex line_break (pc_value c)"

lemma header_name_Inr: "header_name v = Inr n \<longleftrightarrow> n = v \<and> v \<noteq> [] \<and> list_all header_name_char v"
  by (auto simp: header_name_def)

lemma header_value_Inr: "header_value n v = Inr t \<longleftrightarrow> t = v \<and> \<not> list_ex line_break v"
  by (auto simp: header_value_def)

lemma header_values_Inr: "mapE (header_value n) vs = Inr ts \<longleftrightarrow> ts = vs \<and> (\<forall>v \<in> set vs. \<not> list_ex line_break v)"
  by (induction vs arbitrary: ts) (auto simp: bindE_Inr_iff header_value_Inr)

lemma header_step_clean:
  assumes "header_step tk ov (out, seen) s = Inr (out', seen')" and "list_all clean_header out"
  shows "list_all clean_header out'"
  using assms
  by (auto simp: header_step_def bindE_Inr_iff header_name_Inr header_values_Inr clean_header_def list_all_iff
      split: if_splits)

lemma headers_clean:
  assumes "headers tk ov slots = Inr hs"
  shows "list_all clean_header hs"
proof -
  obtain seen where "foldE (header_step tk ov) ([], []) slots = Inr (hs, seen)"
    using assms by (auto simp: headers_def bindE_Inr_iff)
  moreover have "list_all clean_header (fst st)" if "foldE (header_step tk ov) ([], []) slots = Inr st" for st
    by (rule foldE_invariant [OF that, where P = "\<lambda>st. list_all clean_header (fst st)"])
      (auto dest: header_step_clean)
  ultimately show ?thesis by fastforce
qed

lemma add_cookie_ok:
  assumes "add_cookie out c = Inr out'" and "list_all clean_cookie out" and "distinct (map pc_name out)"
  shows "list_all clean_cookie out' \<and> distinct (map pc_name out')"
  using assms
  by (auto simp: add_cookie_def bindE_Inr_iff header_name_Inr header_value_Inr clean_cookie_def split: if_splits)

lemma cookie_step_ok:
  assumes "cookie_step tk ov out s = Inr out'" and "list_all clean_cookie out \<and> distinct (map pc_name out)"
  shows "list_all clean_cookie out' \<and> distinct (map pc_name out')"
proof -
  have many: "list_all clean_cookie out2 \<and> distinct (map pc_name out2)"
    if "foldE (\<lambda>out item. bindE (managed_pair item) (add_cookie out)) out items = Inr out2" for items out2
    by (rule foldE_invariant [OF that, where P = "\<lambda>out. list_all clean_cookie out \<and> distinct (map pc_name out)"])
      (use assms(2) in \<open>auto simp: bindE_Inr_iff dest: add_cookie_ok\<close>)
  have one: ?thesis if "bindE (cookie_name_text tk s v) (add_cookie out) = Inr out'" for v
    using that assms(2) by (auto simp: bindE_Inr_iff dest: add_cookie_ok)
  obtain present where p: "contains_slot ov (ps_slot s) = Inr present"
    using assms(1) by (auto simp: cookie_step_def bindE_Inr_iff)
  show ?thesis
  proof (cases present)
    case True
    then obtain v where v: "require_slot ov (ps_slot s) = Inr v"
      using assms(1) p by (auto simp: cookie_step_def bindE_Inr_iff)
    show ?thesis
    proof (cases "ps_descriptor s = ManagedCookieSetD")
      case managed: True
      then obtain items where "v = PTuple items"
        using assms(1) p True v by (cases v) (auto simp: cookie_step_def)
      then show ?thesis using assms(1) p True v managed many by (simp add: cookie_step_def)
    next
      case False
      then have "cookie_step tk ov out s = bindE (cookie_name_text tk s v) (add_cookie out)"
        using p True v by (cases "ps_descriptor s") (auto simp: cookie_step_def)
      then show ?thesis using assms(1) one by simp
    qed
  next
    case False
    then show ?thesis using assms p by (simp add: cookie_step_def)
  qed
qed

lemma cookies_ok:
  assumes "cookies tk ov slots = Inr cs"
  shows "list_all clean_cookie cs \<and> distinct (map pc_name cs)"
  by (rule foldE_invariant [OF assms [unfolded cookies_def], where P = "\<lambda>out. list_all clean_cookie out \<and> distinct (map pc_name out)"])
    (auto dest: cookie_step_ok)

definition storable :: "string \<times> string \<Rightarrow> bool" where
  "storable c \<longleftrightarrow> fst c \<noteq> [] \<and> list_all header_name_char (fst c) \<and> \<not> list_ex line_break (snd c)"

lemma storable_clean: "storable c \<Longrightarrow> clean_cookie \<lparr>pc_name = fst c, pc_value = snd c\<rparr>"
  by (simp add: storable_def clean_cookie_def)

lemma jar_step_eq:
  "jar_step (out, taken) c =
     (if storable c \<and> fst c \<notin> set taken
      then (out @ [\<lparr>pc_name = fst c, pc_value = snd c\<rparr>], fst c # taken) else (out, taken))"
  by (auto simp: jar_step_def storable_def header_name_def header_value_def)

lemma jar_steps:
  assumes "foldl jar_step (out, taken) stored = (out', taken')" and "set taken = pc_name ` set out"
    and "list_all clean_cookie out" and "distinct (map pc_name out)"
  shows "\<exists>added. out' = out @ added \<and> (\<forall>c \<in> set added. (pc_name c, pc_value c) \<in> set stored) \<and>
    list_all clean_cookie out' \<and> distinct (map pc_name out') \<and>
    pc_name ` set out' = pc_name ` set out \<union> fst ` {c \<in> set stored. storable c}"
  using assms
proof (induction stored arbitrary: out taken)
  case (Cons c stored)
  show ?case
  proof (cases "storable c \<and> fst c \<notin> set taken")
    case True
    let ?k = "\<lparr>pc_name = fst c, pc_value = snd c\<rparr>"
    have run: "foldl jar_step (out @ [?k], fst c # taken) stored = (out', taken')"
      using Cons.prems(1) True by (simp add: jar_step_eq)
    have inv: "set (fst c # taken) = pc_name ` set (out @ [?k])" "list_all clean_cookie (out @ [?k])"
        "distinct (map pc_name (out @ [?k]))"
      using Cons.prems(2-4) True by (auto simp: storable_clean)
    from Cons.IH [OF run inv] obtain added where IH: "out' = (out @ [?k]) @ added"
      "\<forall>c \<in> set added. (pc_name c, pc_value c) \<in> set stored" "list_all clean_cookie out'" "distinct (map pc_name out')"
      "pc_name ` set out' = pc_name ` set (out @ [?k]) \<union> fst ` {c \<in> set stored. storable c}"
      by blast
    have "fst ` {d \<in> set (c # stored). storable d} = insert (fst c) (fst ` {d \<in> set stored. storable d})"
      using True by auto
    then have names: "pc_name ` set out' = pc_name ` set out \<union> fst ` {d \<in> set (c # stored). storable d}"
      using IH(5) by simp
    have "\<forall>k \<in> set (?k # added). (pc_name k, pc_value k) \<in> set (c # stored)" using IH(2) by simp
    then show ?thesis using IH(1,3,4) names by (intro exI [of _ "?k # added"] conjI) simp_all
  next
    case False
    then have "foldl jar_step (out, taken) stored = (out', taken')"
      using Cons.prems(1) by (simp only: foldl_Cons jar_step_eq if_False)
    from Cons.IH [OF this Cons.prems(2-4)] obtain added where IH: "out' = out @ added"
      "\<forall>c \<in> set added. (pc_name c, pc_value c) \<in> set stored" "list_all clean_cookie out'" "distinct (map pc_name out')"
      "pc_name ` set out' = pc_name ` set out \<union> fst ` {c \<in> set stored. storable c}" by blast
    have "fst ` {d \<in> set (c # stored). storable d} \<subseteq> pc_name ` set out \<union> fst ` {d \<in> set stored. storable d}"
      using False Cons.prems(2) by auto
    moreover have "fst ` {d \<in> set stored. storable d} \<subseteq> fst ` {d \<in> set (c # stored). storable d}"
      by (intro image_mono) auto
    ultimately have names: "pc_name ` set out \<union> fst ` {d \<in> set (c # stored). storable d} = pc_name ` set out'"
      unfolding IH(5) by blast
    have "\<forall>k \<in> set added. (pc_name k, pc_value k) \<in> set (c # stored)" using IH(2) by simp
    then show ?thesis using IH(1,3,4) names by (intro exI [of _ added] conjI) simp_all
  qed
qed auto

lemma jar_completes_aux:
  assumes "cookies tk ov slots = Inr declared"
  shows "\<exists>added. with_jar declared stored = declared @ added \<and>
    (\<forall>c \<in> set added. (pc_name c, pc_value c) \<in> set stored) \<and> list_all clean_cookie (with_jar declared stored) \<and>
    distinct (map pc_name (with_jar declared stored)) \<and>
    pc_name ` set (with_jar declared stored) = pc_name ` set declared \<union> fst ` {c \<in> set stored. storable c}"
proof -
  obtain out' taken' where run: "foldl jar_step (declared, map pc_name declared) stored = (out', taken')" by fastforce
  from jar_steps [OF run] cookies_ok [OF assms] show ?thesis
    unfolding with_jar_def run by auto
qed

text \<open>
  The cookies of a request are the declared ones, unchanged and first, then the session's own for
  the address: every stored cookie the wire can carry is named once, a declared name is never
  overridden, and no other cookie is sent.
\<close>

lemma jar_completes_declared:
  assumes "cookies tk ov slots = Inr declared"
  shows "\<exists>added. with_jar declared stored = declared @ added \<and>
    (\<forall>c \<in> set added. (pc_name c, pc_value c) \<in> set stored) \<and>
    distinct (map pc_name (with_jar declared stored)) \<and>
    pc_name ` set (with_jar declared stored) = pc_name ` set declared \<union> fst ` {c \<in> set stored. storable c}"
  using jar_completes_aux [OF assms] by blast

lemma join_no_break:
  "\<not> list_ex line_break sep \<Longrightarrow> \<forall>x \<in> set xs. \<not> list_ex line_break x \<Longrightarrow> \<not> list_ex line_break (join sep xs)"
  by (induction sep xs rule: join.induct) auto

lemma header_name_no_break: "header_name_char c \<Longrightarrow> \<not> line_break c"
  by (auto simp: header_name_char_def line_break_def)

lemma cookie_wire_no_break: "list_all clean_cookie cs \<Longrightarrow> \<not> list_ex line_break (cookie_wire cs)"
proof -
  assume cs: "list_all clean_cookie cs"
  have plain: "\<not> line_break (CHR ''='')" "\<not> list_ex line_break ''; ''" by (simp_all add: line_break_def)
  show ?thesis
    unfolding cookie_wire_def
    by (rule join_no_break) (use cs plain in \<open>auto simp: list_all_iff list_ex_iff clean_cookie_def dest: header_name_no_break\<close>)
qed


lemma prepare_request_Inr:
  "prepare_request tk given int_text rq ov template reserved boundary m omit override jar = Inr r \<longleftrightarrow>
    (\<exists>path generated existing declared body hs.
      foldE (path_step tk ov) (if rq_path rq = [] then ''/'' else rq_path rq) (if template then rq_path_slots rq else []) =
        Inr path \<and>
      query_parts tk (rq_codec rq) ov (rq_query_slots rq) = Inr generated \<and>
      existing_query (rq_query rq) = Inr existing \<and>
      ensure_unique_names (map qr_name (fst existing)) (fst generated) = Inr () \<and>
      list_all is_ascii path \<and> cookies tk ov (rq_cookie_slots rq) = Inr declared \<and>
      (if omit then Inr (BufferedBody [] None, simple_view [] None False)
        else body_stage tk given ov (rq_body rq) boundary override) = Inr body \<and>
      headers tk ov (rq_header_slots rq) = Inr hs \<and> list_all is_ascii (rq_netloc rq) \<and>
      r = assemble_request int_text rq reserved m omit path generated existing
        (with_session_cookies rq jar path declared) body hs)"
  unfolding prepare_request_def bindE_Inr_iff by (auto simp: ascii_bytes_def)

text \<open>The media type a request is sent with: that of its buffered body, or the declared one of a stream.\<close>

definition sent_media :: "request_plan \<Rightarrow> request_body \<Rightarrow> string option" where
  "sent_media rq b =
     (case b of
        BufferedBody _ ct \<Rightarrow> ct
      | StreamedBody _ \<Rightarrow> (case bl_descriptor (rq_body rq) of Some (StreamB ct _) \<Rightarrow> ct | _ \<Rightarrow> None))"

text \<open>The three headers the client writes itself, with the values it gives them.\<close>

definition automatic_header :: "(int \<Rightarrow> string) \<Rightarrow> request_plan \<Rightarrow> request_body \<Rightarrow> header_field \<Rightarrow> bool" where
  "automatic_header int_text rq b f \<longleftrightarrow>
     f = plain_header ''Host'' (rq_netloc rq) \<or> (\<exists>n. f = plain_header ''Content-Length'' (int_text n)) \<or>
     (\<exists>ct. sent_media rq b = Some ct \<and> f = plain_header ''Content-Type'' ct)"

lemma automatic_headers_clean:
  assumes "list_all clean_header hs" and "list_all clean_cookie cs"
  shows "list_all (\<lambda>f. clean_header f \<or> automatic_header int_text rq b f)
    (automatic_headers int_text hs (rq_netloc rq) b (sent_media rq b) cs)"
proof -
  have "clean_header \<lparr>hf_name = ''Cookie'', hf_value = cookie_wire cs, hf_sensitive = True\<rparr>"
    using cookie_wire_no_break [OF assms(2)] by (simp add: clean_header_def header_name_char_def)
  moreover have "list_all (\<lambda>f. clean_header f \<or> automatic_header int_text rq b f) hs"
    using assms(1) by (rule list.pred_mono_strong) simp
  ultimately show ?thesis
    unfolding automatic_headers_def Let_def by (auto simp: automatic_header_def split: option.split)
qed

text \<open>
  C20. No value of a parameter or cookie adds a line to a prepared request. Every header, a declared \<open>Host\<close>,
  \<open>Content-Type\<close> or \<open>Content-Length\<close> included, has a name made of token characters and a value without line
  breaks, or it is one of the three the client writes itself: the authority of the address, the length of the
  body and its media type. Of these the compiler checks nothing: when the authority and the media type a body
  is declared with carry no line break, no header does. The view signatures read describes the same message.
\<close>

theorem no_header_injection:
  assumes "prepare_request tk given int_text rq ov template reserved boundary m omit override jar = Inr r"
  shows "list_all (\<lambda>f. clean_header f \<or> automatic_header int_text rq (pr_body r) f) (pr_headers r) \<and>
    (\<not> list_ex line_break (rq_netloc rq) \<and> (\<forall>n. \<not> list_ex line_break (int_text n)) \<and>
       (\<forall>ct. sent_media rq (pr_body r) = Some ct \<longrightarrow> \<not> list_ex line_break ct) \<longrightarrow>
     list_all clean_header (pr_headers r)) \<and>
    (\<exists>view. pr_view r = Some view \<and> rv_headers view = pr_headers r \<and> rv_target view = pr_target r \<and>
      list_all clean_cookie (rv_cookies view) \<and> distinct (map pc_name (rv_cookies view)))"
proof -
  from assms obtain path generated existing declared body hs where
    c: "cookies tk ov (rq_cookie_slots rq) = Inr declared" and h: "headers tk ov (rq_header_slots rq) = Inr hs" and
    r: "r = assemble_request int_text rq reserved m omit path generated existing
        (with_session_cookies rq jar path declared) body hs"
    unfolding prepare_request_Inr by blast
  let ?cs = "with_session_cookies rq jar path declared"
  obtain stored where s: "?cs = with_jar declared stored"
  proof (cases jar)
    case None
    then have "?cs = with_jar declared []" by (simp add: with_session_cookies_def with_jar_def)
    then show ?thesis by (rule that)
  qed (auto simp: with_session_cookies_def intro: that)
  have cs: "list_all clean_cookie ?cs" "distinct (map pc_name ?cs)"
    using jar_completes_aux [OF c, of stored] unfolding s by auto
  have hs: "list_all clean_header hs" by (rule headers_clean [OF h])
  then have "list_all clean_header (if omit
      then filter (\<lambda>f. lower (hf_name f) \<notin> {''content-length'', ''content-type'', ''transfer-encoding''}) hs else hs)"
    by (auto simp: list_all_iff)
  note automatic_headers_clean [OF this cs(1)]
  then have all: "list_all (\<lambda>f. clean_header f \<or> automatic_header int_text rq (pr_body r) f) (pr_headers r)"
    unfolding r assemble_request_def Let_def by (simp only: prepared_request.simps sent_media_def)
  have "clean_header f" if "automatic_header int_text rq (pr_body r) f" "\<not> list_ex line_break (rq_netloc rq)"
    "\<forall>n. \<not> list_ex line_break (int_text n)" "\<forall>ct. sent_media rq (pr_body r) = Some ct \<longrightarrow> \<not> list_ex line_break ct" for f
    using that by (auto simp: automatic_header_def clean_header_def plain_header_def header_name_char_def)
  then show ?thesis
    using all cs unfolding r assemble_request_def Let_def list_all_iff by auto
qed

section \<open>The query on the wire\<close>

lemma partition_first:
  "d \<notin> set n \<Longrightarrow> py_partition (n @ d # v) [d] = (n, [d], v)"
proof -
  assume "d \<notin> set n"
  then have "find_sub [d] (n @ d # v) = Some (n, v)" by (induction n) (auto simp: prefix_def)
  then show ?thesis by (simp add: py_partition_def)
qed

lemma split_on_join:
  "xs \<noteq> [] \<Longrightarrow> \<forall>x \<in> set xs. d \<notin> set x \<Longrightarrow> split_on d (join [d] xs) = xs"
proof (induction "[d]" xs rule: join.induct)
  case (2 x)
  then show ?case using split_on_prefix [of d x "[]"] by simp
next
  case (3 x y ys)
  then show ?case using split_on_prefix [of d x "d # join [d] (y # ys)"] by simp
qed simp

definition lowered :: "string \<Rightarrow> char \<Rightarrow> string" where
  "lowered safe c = (case quote_char safe c of [p, a, b] \<Rightarrow> [p, lower_char a, lower_char b] | w \<Rightarrow> w)"

lemma quote_char_cases:
  obtains "quote_char safe c = [c]" and "always_safe c \<or> c \<in> set safe"
  | a b where "quote_char safe c = [CHR ''%'', hex_digit a, hex_digit b]" and "a < 16" and "b < 16" and "c = char_of (16 * a + b)"
proof (cases "always_safe c \<or> c \<in> set safe")
  case True
  then show ?thesis using that(1) by (simp add: quote_char_def)
next
  case False
  then show ?thesis
    using that(2) [of "of_char c div 16" "of_char c mod 16"] char_halves_small [of c]
    by (simp add: quote_char_def Let_def char_halves)
qed

lemma lower_escapes_other: "c \<noteq> CHR ''%'' \<Longrightarrow> lower_percent_escapes (c # s) = c # lower_percent_escapes s"
  by (cases s; cases "tl s") auto

lemma lower_escapes_quote_append:
  assumes "CHR ''%'' \<notin> set safe"
  shows "lower_percent_escapes (quote safe s @ t) = concat (map (lowered safe) s) @ lower_percent_escapes t"
proof (induction s)
  case (Cons c s)
  have "lower_percent_escapes (quote_char safe c @ w) = lowered safe c @ lower_percent_escapes w" for w
  proof (cases rule: quote_char_cases [of safe c])
    case 1
    then have "c \<noteq> CHR ''%''" using assms always_safe_plain by auto
    then show ?thesis using 1 by (simp add: lowered_def lower_escapes_other)
  qed (simp add: lowered_def lower_def)
  then show ?case using Cons by (simp add: quote_def)
qed (simp add: quote_def)

lemma unquote_lowered:
  assumes "CHR ''%'' \<notin> set safe"
  shows "unquote (concat (map (lowered safe) s)) = s"
proof (induction s)
  case (Cons c s)
  have "unquote (lowered safe c @ w) = c # unquote w" for w
  proof (cases rule: quote_char_cases [of safe c])
    case 1
    then have "c \<noteq> CHR ''%''" using assms always_safe_plain by auto
    then show ?thesis using 1 by (simp add: lowered_def unquote_other)
  next
    case (2 a b)
    then show ?thesis by (simp add: lowered_def hex_value_lower)
  qed
  then show ?case using Cons by simp
qed simp

definition wire_char :: "char \<Rightarrow> bool" where
  "wire_char c \<longleftrightarrow> always_safe c \<or> c \<in> set ''%[]''"

lemma wire_char_plain: "wire_char c \<Longrightarrow> is_ascii c \<and> c \<noteq> CHR ''='' \<and> c \<noteq> CHR ''&''"
  by (auto simp: wire_char_def always_safe_def is_ascii_def Let_def)

lemma quoted_wire: "set safe \<subseteq> Collect wire_char \<Longrightarrow> \<forall>c \<in> set (quote safe s). wire_char c"
  using quote_chars [of _ safe s] unfolding wire_char_def by fastforce

lemma lowered_wire:
  assumes "set safe \<subseteq> Collect wire_char"
  shows "\<forall>d \<in> set (lowered safe c). wire_char d"
proof (cases rule: quote_char_cases [of safe c])
  case 1
  then show ?thesis using assms by (auto simp: lowered_def wire_char_def)
next
  case (2 a b)
  have "always_safe (lower_char (hex_digit n))" if "n < 16" for n
    using that by (auto simp: always_safe_def hex_digit_def lower_char_def Let_def of_char_of)
  then show ?thesis using 2 by (simp add: lowered_def wire_char_def)
qed

lemma encoded_component:
  assumes "qc_space codec = PercentSpace" and "set safe \<subseteq> Collect wire_char" and "CHR ''%'' \<notin> set safe"
  shows "unquote (encode_query_component codec (quote safe s)) = s \<and>
    (\<forall>c \<in> set (encode_query_component codec (quote safe s)). wire_char c)"
proof (cases "qc_uppercase codec")
  case True
  then show ?thesis
    using assms quoted_wire [OF assms(2)] by (simp add: encode_query_component_def unquote_quote)
next
  case False
  have "lower_percent_escapes (quote safe s) = concat (map (lowered safe) s)"
    using lower_escapes_quote_append [OF assms(3), of s "[]"] by simp
  then show ?thesis
    using False assms lowered_wire [OF assms(2)] by (auto simp: encode_query_component_def unquote_lowered)
qed

definition plain_params :: "query_params \<Rightarrow> bool" where
  "plain_params q \<longleftrightarrow>
     qp_raw q = None \<and> list_all (\<lambda>i. \<not> qi_reserved i \<and> (qi_name_safe i = [] \<or> qi_name_safe i = ''[]'')) (qp_items q)"

lemma qp_add_plain:
  "qp_add n v False safe q = Inr q' \<Longrightarrow> plain_params q \<Longrightarrow> safe = [] \<or> safe = ''[]'' \<Longrightarrow> plain_params q'"
  by (auto simp: qp_add_def plain_params_def split: if_splits)

lemma no_params_plain: "plain_params no_params"
  by (simp add: plain_params_def no_params_def)

lemma adds_plain:
  assumes "foldE (\<lambda>q (n, t, safe). qp_add n t False safe q) no_params items = Inr q"
    and "\<forall>(n, t, safe) \<in> set items. safe = [] \<or> safe = ''[]''"
  shows "plain_params q"
  by (rule foldE_invariant [OF assms(1), where P = plain_params])
    (use assms(2) no_params_plain in \<open>auto dest: qp_add_plain\<close>)

lemma serialize_query_plain:
  assumes "serialize_query py_str p v = Inr q" and "\<not> qy_reserved p"
  shows "plain_params q"
proof -
  obtain name where n: "qy_name p = Some name"
    using assms(1) by (auto simp: serialize_query_def required_name_def split: option.splits)
  note adds = adds_plain [where q = q]
  have one: "plain_params q" if "qp_add m t False [] no_params = Inr q" for m t
    using qp_add_plain [OF that no_params_plain] by simp
  show ?thesis
    using assms n
    by (cases "qy_style p"; cases "kind_of v")
      (auto simp: serialize_query_def required_name_def intro: one adds split: if_splits)
qed

definition pair_ok :: "query_pair \<Rightarrow> bool" where
  "pair_ok p \<longleftrightarrow> unquote (qr_encoded_name p) = qr_name p \<and> unquote (qr_encoded_value p) = qr_value p \<and>
     list_all wire_char (qr_encoded_name p) \<and> list_all wire_char (qr_encoded_value p)"

lemma plain_pairs:
  assumes "plain_params q" and "qc_space codec = PercentSpace"
  shows "list_all pair_ok (query_pairs_of codec q)"
proof -
  have safe: "set unreserved \<subseteq> Collect wire_char" "set (unreserved @ ''[]'') \<subseteq> Collect wire_char"
      "CHR ''%'' \<notin> set unreserved" "CHR ''%'' \<notin> set (unreserved @ ''[]'')"
    by (auto simp: unreserved_def wire_char_def always_safe_def)
  have "pair_ok \<lparr>qr_name = qi_name i, qr_value = qi_value i,
      qr_encoded_name = encode_query_component codec (fst (encoded_item i)),
      qr_encoded_value = encode_query_component codec (snd (encoded_item i))\<rparr>" if "i \<in> set (qp_items q)" for i
    using that assms(1) encoded_component [OF assms(2) safe(1,3)] encoded_component [OF assms(2) safe(2,4)]
    by (auto simp: pair_ok_def encoded_item_def plain_params_def list_all_iff)
  then show ?thesis
    by (simp add: query_pairs_of_def qp_encoded_items_def list_all_iff case_prod_beta)
qed

lemma existing_of_pairs:
  assumes "list_all pair_ok ps"
  shows "existing_query (render_query ps) = Inr (ps, render_query ps)"
proof (cases "ps = []")
  case False
  have wire: "c \<in> set (query_wire p) \<Longrightarrow> is_ascii c \<and> c \<noteq> CHR ''&''" if "p \<in> set ps" for p c
    using that assms wire_char_plain [of c] by (auto simp: query_wire_def pair_ok_def list_all_iff is_ascii_def)
  have ascii: "list_all is_ascii (render_query ps)"
    using set_join [of "''&''" "map query_wire ps"] wire by (auto simp: render_query_def list_all_iff is_ascii_def)
  have fields: "split_on (CHR ''&'') (render_query ps) = map query_wire ps"
    unfolding render_query_def using False wire by (intro split_on_join) auto
  have nonempty: "render_query ps \<noteq> []"
  proof
    assume "render_query ps = []"
    then have "map query_wire ps = [[]]" using fields by simp
    then show False by (auto simp: query_wire_def)
  qed
  have "(case py_partition (query_wire p) ''='' of (n, _, item) \<Rightarrow>
      \<lparr>qr_name = unquote n, qr_value = unquote item, qr_encoded_name = n, qr_encoded_value = item\<rparr>) = p"
    if "p \<in> set ps" for p
  proof -
    have ok: "pair_ok p" using that assms by (simp add: list_all_iff)
    then have "CHR ''='' \<notin> set (qr_encoded_name p)" using wire_char_plain by (auto simp: pair_ok_def list_all_iff)
    then have "py_partition (query_wire p) ''='' = (qr_encoded_name p, ''='', qr_encoded_value p)"
      unfolding query_wire_def by (rule partition_first)
    then show ?thesis using ok by (simp add: pair_ok_def)
  qed
  then show ?thesis
    using ascii nonempty by (simp add: existing_query_def fields cong: map_cong)
qed (simp add: existing_query_def render_query_def)

definition plain_query :: "placed_slot \<Rightarrow> bool" where
  "plain_query s \<longleftrightarrow> (case ps_descriptor s of QueryD p _ \<Rightarrow> \<not> qy_reserved p | QueryStringD _ \<Rightarrow> False | _ \<Rightarrow> True)"

lemma serialized_query_plain: "serialized_query tk s v = Inr q \<Longrightarrow> plain_query s \<Longrightarrow> plain_params q"
  by (auto simp: serialized_query_def plain_query_def bindE_Inr_iff intro: serialize_query_plain split: descriptor.splits)

lemma query_step_plain:
  assumes "query_step tk codec ov st s = Inr st'" and "plain_query s" and "qc_space codec = PercentSpace"
    and "list_all pair_ok (fst st) \<and> snd st = None"
  shows "list_all pair_ok (fst st') \<and> snd st' = None"
proof -
  obtain out where st: "st = (out, None)" using assms(4) by (cases st) simp
  obtain present where p: "contains_slot ov (ps_slot s) = Inr present"
    using assms(1) by (auto simp: query_step_def st bindE_Inr_iff)
  show ?thesis
  proof (cases present)
    case True
    then obtain v q where v: "require_slot ov (ps_slot s) = Inr v" "serialized_query tk s v = Inr q"
      using assms(1) p by (auto simp: query_step_def st bindE_Inr_iff)
    have plain: "plain_params q" by (rule serialized_query_plain [OF v(2) assms(2)])
    then have "qp_raw q = None" by (simp add: plain_params_def)
    then have "st' = (out @ query_pairs_of codec q, None)"
      using assms(1) p True v by (simp add: query_step_def st)
    then show ?thesis using assms(4) plain_pairs [OF plain assms(3)] by (simp add: st)
  next
    case False
    then show ?thesis using assms(1,4) p by (simp add: query_step_def st)
  qed
qed

text \<open>
  What the SDK writes into a query it reads back: with percent-encoded spaces and no
  \<open>allow_reserved\<close>, an address that carries the query of a request holds exactly the names and values
  the caller gave, in their order and with the same encodings, whatever characters they contain.
\<close>

lemma query_survives_address:
  assumes "query_parts tk codec ov slots = Inr (pairs, text)" and "qc_space codec = PercentSpace"
    and "list_all plain_query slots"
  shows "existing_query text = Inr (pairs, text)"
proof -
  obtain raw where run: "foldE (query_step tk codec ov) ([], None) slots = Inr (pairs, raw)" and
    t: "text = (case raw of Some r \<Rightarrow> r | None \<Rightarrow> render_query pairs)"
    using assms(1) by (auto simp: query_parts_def bindE_Inr_iff)
  have "list_all pair_ok (fst (pairs, raw)) \<and> snd (pairs, raw) = None"
    by (rule foldE_invariant [OF run, where P = "\<lambda>st. list_all pair_ok (fst st) \<and> snd st = None"])
      (use assms(2,3) in \<open>auto simp: list_all_iff dest: query_step_plain\<close>)
  then show ?thesis using t existing_of_pairs by simp
qed

section \<open>What the body does not escape\<close>

text \<open>
  The name of a multipart field is put between quotation marks as it is: one name gives the bytes of
  a field of another name with a content type of its own.
\<close>

lemma multipart_name_adds_header:
  "part_wire b (''a'' @ [CHR 0x22] @ crlf @ ''Content-Type: x'')
     \<lparr>mp_content = c, mp_filename = None, mp_content_type = None, mp_headers = []\<rparr> =
   part_wire b ''a'' \<lparr>mp_content = c, mp_filename = None, mp_content_type = Some (''x'' @ [CHR 0x22]), mp_headers = []\<rparr>"
  by (simp add: part_wire_def quoted_def)

text \<open>The boundary is not looked for in the parts: a value that holds it adds a field.\<close>

lemma multipart_value_adds_field:
  "multipart b [(''note'', [\<lparr>mp_content = ''hi'' @ crlf @ ''--'' @ b @ crlf @ ''Content-Disposition: form-data; name='' @
       quoted ''admin'' @ crlf @ crlf @ ''true'', mp_filename = None, mp_content_type = None, mp_headers = []\<rparr>])] =
   multipart b [(''note'', [\<lparr>mp_content = ''hi'', mp_filename = None, mp_content_type = None, mp_headers = []\<rparr>]),
     (''admin'', [\<lparr>mp_content = ''true'', mp_filename = None, mp_content_type = None, mp_headers = []\<rparr>])]"
  by (simp add: multipart_def part_wire_def)

text \<open>A cookie value may hold a semicolon, so one cookie reads as two.\<close>

lemma cookie_value_adds_cookie:
  "add_cookie [] (''a'', ''1; admin=true'') = Inr [\<lparr>pc_name = ''a'', pc_value = ''1; admin=true''\<rparr>] \<and>
   cookie_wire [\<lparr>pc_name = ''a'', pc_value = ''1; admin=true''\<rparr>] =
   cookie_wire [\<lparr>pc_name = ''a'', pc_value = ''1''\<rparr>, \<lparr>pc_name = ''admin'', pc_value = ''true''\<rparr>]"
  by (simp add: add_cookie_def header_name_def header_name_char_def header_value_def line_break_def cookie_wire_def)

section \<open>Witnesses\<close>

text \<open>A search with a text, a tag header and a cookie.\<close>

definition wire_slot :: "nat \<Rightarrow> string \<Rightarrow> descriptor \<Rightarrow> placed_slot" where
  "wire_slot i name d =
     \<lparr>ps_slot = \<lparr>slot_id = i, diagnostic_name = name, slot_validator = Inr, slot_required = True, slot_secret = False,
        slot_card = ONE\<rparr>, ps_name = name, ps_descriptor = d\<rparr>"

definition search_slots :: "placed_slot list" where
  "search_slots =
     [wire_slot 0 ''q'' (QueryD \<lparr>qy_name = Some ''q'', qy_style = FormStyle, qy_explode = True, qy_reserved = False\<rparr> None),
      wire_slot 1 ''X-Tag'' OtherD, wire_slot 2 ''sid'' OtherD]"

definition search_values :: op_values where
  "search_values = \<lparr>val_shape = map ps_slot search_slots, vals = [Some (PStr ''a&b=c''), Some (PStr ''t''), Some (PStr ''1'')]\<rparr>"

definition text_kit :: toolkit where
  "text_kit = \<lparr>tk_str = (\<lambda>v. case v of PStr s \<Rightarrow> s | _ \<Rightarrow> []), tk_urlencode = (\<lambda>_. []), tk_dump = id,
     tk_json = (\<lambda>_. Inr ''{}'')\<rparr>"

definition search_plan :: request_plan where
  "search_plan = \<lparr>rq_method = ''get'', rq_scheme = ''https'', rq_netloc = ''x.io'', rq_path = ''/s'', rq_query = [],
     rq_path_slots = [], rq_query_slots = [search_slots ! 0], rq_header_slots = [search_slots ! 1],
     rq_cookie_slots = [search_slots ! 2], rq_codec = default_query_codec,
     rq_body = \<lparr>bl_descriptor = None, bl_order = None, bl_slots = [], bl_flat = False, bl_projected = False\<rparr>\<rparr>"

lemmas search_defs = search_slots_def search_values_def wire_slot_def text_kit_def search_plan_def

lemma search_cookies: "cookies text_kit search_values [search_slots ! 2] = Inr [\<lparr>pc_name = ''sid'', pc_value = ''1''\<rparr>]"
  by (simp add: search_defs cookies_def cookie_step_def contains_slot_def require_slot_def
      cookie_name_text_def primitive_def add_cookie_def header_name_def header_name_char_def header_value_def line_break_def)

lemma search_headers:
  "headers text_kit search_values [search_slots ! 1] = Inr [\<lparr>hf_name = ''X-Tag'', hf_value = ''t'', hf_sensitive = False\<rparr>]"
  by (simp add: search_defs headers_def header_step_def contains_slot_def require_slot_def
      header_texts_def is_sequence_def primitive_def header_name_def header_name_char_def header_value_def line_break_def Let_def)

definition search_pair :: query_pair where
  "search_pair = \<lparr>qr_name = ''q'', qr_value = ''a&b=c'', qr_encoded_name = ''q'', qr_encoded_value = ''a%26b%3Dc''\<rparr>"

lemma search_query:
  "query_parts text_kit default_query_codec search_values [search_slots ! 0] = Inr ([search_pair], ''q=a%26b%3Dc'')"
  by (simp add: search_defs search_pair_def query_parts_def query_step_def contains_slot_def require_slot_def
      serialized_query_def scalar_value_def serialize_query_def required_name_def kind_of_def primitive_def
      qp_add_def no_params_def query_pairs_of_def qp_encoded_items_def encoded_item_def quote_def quote_char_def
      always_safe_def unreserved_def encode_query_component_def default_query_codec_def render_query_def query_wire_def
      hex_digit_def Let_def char_of_def bit_numeral_rec bit_Suc_0_iff)

lemma jar_completes_declared_witness:
  "pc_name ` set (with_jar [\<lparr>pc_name = ''sid'', pc_value = ''1''\<rparr>] [(''sid'', ''9''), (''b'', ''2'')]) =
     {''sid''} \<union> fst ` {c \<in> {(''sid'', ''9''), (''b'', ''2'')}. storable c}"
  using jar_completes_declared [OF search_cookies, of "[(''sid'', ''9''), (''b'', ''2'')]"] by auto

lemma query_survives_address_witness:
  "existing_query ''q=a%26b%3Dc'' = Inr ([search_pair], ''q=a%26b%3Dc'')"
  by (rule query_survives_address [OF search_query])
    (simp_all add: default_query_codec_def plain_query_def search_slots_def wire_slot_def)

theorem no_header_injection_witness:
  "\<exists>r. prepare_request text_kit (\<lambda>_. None) (\<lambda>_. ''0'') search_plan search_values True [] None None False None None = Inr r \<and>
     list_all (\<lambda>f. clean_header f \<or> automatic_header (\<lambda>_. ''0'') search_plan (pr_body r) f) (pr_headers r)"
proof -
  have "\<exists>r. prepare_request text_kit (\<lambda>_. None) (\<lambda>_. ''0'') search_plan search_values True [] None None False None None = Inr r"
    using search_cookies search_headers search_query
    by (simp add: prepare_request_def search_plan_def existing_query_def body_stage_def ascii_bytes_def is_ascii_def)
  then obtain r where r: "prepare_request text_kit (\<lambda>_. None) (\<lambda>_. ''0'') search_plan search_values True [] None None False None None
      = Inr r" by blast
  from no_header_injection [OF r] r show ?thesis by blast
qed

end
