(* ===== verification/Signatures.thy ===== *)
theory Signatures
  imports Preparation Dependencies
begin

text \<open>
  Signing a prepared request (\<open>request/signatures.py\<close>): the components of a signature base and what
  they read, the compilation of a set of signatures to an order, and the loop that signs and puts the
  outputs into headers, query, cookies or body.

  Digests, \<open>json.dumps\<close>, base64 and the check of UTF-8 are parameters, and so are algorithms and custom
  signers. An output and a signature carry a number for their identity; a request slot reserved for an
  output is known by the identity of the output.
\<close>

section \<open>Components\<close>

record signing_kit =
  sk_hash :: "string \<Rightarrow> string \<Rightarrow> string option"
  sk_dump :: "bool option \<Rightarrow> pyval \<Rightarrow> sdk_error + string"
  sk_base64 :: "string \<Rightarrow> string"
  sk_utf8 :: "string \<Rightarrow> bool"
  sk_int :: "int \<Rightarrow> string"

datatype output_encoding = HexE | Base64E | RawE

datatype request_part = MethodP | SchemeP | AuthorityP | TargetP | PathP | BodyP

record signing_input =
  si_request :: request_view
  si_components :: "(nat, string) dict"
  si_stage :: nat

text \<open>An element of a read set; \<open>Previous\<close> is \<open>signature:\<close> with the identity of a signature.\<close>

datatype sig_read = Part string | Previous nat

datatype component =
    RequestC request_part
  | HeaderC string "int option" string
  | DigestC string output_encoding
  | QueryC "string list option" "string list" bool string
  | JsonC "string list option" bool bool
  | PreviousC nat string
  | LiteralC string
  | JoinC "component list" string string string
  | CustomC "signing_input \<Rightarrow> sdk_error + string" "sig_read list"

fun part_name :: "request_part \<Rightarrow> string" where
  "part_name MethodP = ''method''"
| "part_name SchemeP = ''scheme''"
| "part_name AuthorityP = ''authority''"
| "part_name TargetP = ''target''"
| "part_name PathP = ''path''"
| "part_name BodyP = ''body''"

text \<open>A frozen set of reads is a list without duplicates.\<close>

fun reads :: "component \<Rightarrow> sig_read list" where
  "reads (RequestC part) = [Part (part_name part)]"
| "reads (HeaderC name _ _) = [Part (''header:'' @ lower name)]"
| "reads (DigestC _ _) = [Part ''body'']"
| "reads (QueryC _ _ _ _) = [Part ''query'']"
| "reads (JsonC _ _ _) = [Part ''json'']"
| "reads (PreviousC i _) = [Previous i]"
| "reads (LiteralC _) = []"
| "reads (JoinC parts _ _ _) = remdups (concat (map reads parts))"
| "reads (CustomC _ rs) = remdups rs"

definition encode_hex :: "string \<Rightarrow> string" where
  "encode_hex v = concat (map (\<lambda>c. let n = of_char c :: nat in [lower_hex_digit (n div 16), lower_hex_digit (n mod 16)]) v)"

definition encode_output :: "signing_kit \<Rightarrow> string \<Rightarrow> output_encoding \<Rightarrow> string" where
  "encode_output kit v e = (case e of HexE \<Rightarrow> encode_hex v | Base64E \<Rightarrow> sk_base64 kit v | RawE \<Rightarrow> v)"

definition request_part_of :: "request_part \<Rightarrow> request_view \<Rightarrow> string" where
  "request_part_of part v =
     (case part of
        MethodP \<Rightarrow> rv_method v
      | SchemeP \<Rightarrow> rv_scheme v
      | AuthorityP \<Rightarrow> rv_authority v
      | TargetP \<Rightarrow> rv_target v
      | PathP \<Rightarrow> rv_path v
      | BodyP \<Rightarrow> bv_content (rv_body v))"

text \<open>\<open>values[i]\<close> on a Python list: negative positions count from the end.\<close>

definition list_at :: "'a list \<Rightarrow> int \<Rightarrow> 'a option" where
  "list_at xs i =
     (if 0 \<le> i \<and> i < int (length xs) then Some (xs ! nat i)
      else if i < 0 \<and> - int (length xs) \<le> i then Some (xs ! nat (int (length xs) + i))
      else None)"

definition header_values :: "string \<Rightarrow> request_view \<Rightarrow> string list" where
  "header_values name v = map hf_value (filter (\<lambda>f. lower (hf_name f) = lower name) (rv_headers v))"

definition build_header :: "string \<Rightarrow> int option \<Rightarrow> string \<Rightarrow> request_view \<Rightarrow> sdk_error + string" where
  "build_header name occurrence separator v =
     (case occurrence of
        None \<Rightarrow> Inr (join separator (header_values name v))
      | Some i \<Rightarrow>
          (case list_at (header_values name v) i of
             Some x \<Rightarrow> Inr x
           | None \<Rightarrow> Inl (PlanError (''missing header occurrence: '' @ name))))"

definition build_digest :: "signing_kit \<Rightarrow> string \<Rightarrow> output_encoding \<Rightarrow> request_view \<Rightarrow> sdk_error + string" where
  "build_digest kit algorithm e v =
     (case sk_hash kit algorithm (bv_content (rv_body v)) of
        None \<Rightarrow> Inl (PlanError (''unsupported digest algorithm: '' @ algorithm))
      | Some digest \<Rightarrow> Inr (encode_output kit digest e))"

text \<open>A name that is not UTF-8 cannot be decoded. Sorting by the value, then by the name, is the sort by both.\<close>

definition build_query ::
  "signing_kit \<Rightarrow> string list option \<Rightarrow> string list \<Rightarrow> bool \<Rightarrow> string \<Rightarrow> request_view \<Rightarrow> sdk_error + string" where
  "build_query kit incl excl canonical separator v =
     (if \<not> list_all (\<lambda>p. sk_utf8 kit (qr_name p)) (rv_query v) then Inl (PyError ''UnicodeDecodeError'')
      else let pairs = filter (\<lambda>p. (case incl of None \<Rightarrow> True | Some ns \<Rightarrow> qr_name p \<in> set ns) \<and> qr_name p \<notin> set excl)
                 (rv_query v);
               sorted_pairs = (if canonical then sort_key qr_encoded_name (sort_key qr_encoded_value pairs) else pairs)
           in Inr (join separator (map query_wire sorted_pairs)))"

definition build_json ::
  "signing_kit \<Rightarrow> string list option \<Rightarrow> bool \<Rightarrow> bool \<Rightarrow> request_view \<Rightarrow> sdk_error + string" where
  "build_json kit incl sort_keys omit_null v =
     (let semantic = (case bv_json (rv_body v) of None \<Rightarrow> PNone | Some f \<Rightarrow> thaw f) in
      if semantic = PNone then Inl (PlanError ''JSON projection requires a prepared JSON body'')
      else bindE (case incl of
             None \<Rightarrow> Inr semantic
           | Some ps \<Rightarrow> bindE (foldE (\<lambda>d p. bindE (json_pointer semantic p) (\<lambda>x. Inr (AList.update p x d))) [] ps)
               (\<lambda>d. Inr (PDict d))) (\<lambda>selected.
        let shown = (case selected of
               PDict d \<Rightarrow> if omit_null then PDict (filter (\<lambda>p. snd p \<noteq> PNone) d) else selected
             | _ \<Rightarrow> selected) in
        sk_dump kit (Some sort_keys) shown))"

lemma mapE_cong [fundef_cong]:
  "xs = ys \<Longrightarrow> (\<And>x. x \<in> set ys \<Longrightarrow> f x = g x) \<Longrightarrow> mapE f xs = mapE g ys"
  by (induction xs arbitrary: ys) auto

fun build :: "signing_kit \<Rightarrow> signing_input \<Rightarrow> component \<Rightarrow> sdk_error + string" where
  "build kit s (RequestC part) = Inr (request_part_of part (si_request s))"
| "build kit s (HeaderC name occurrence separator) = build_header name occurrence separator (si_request s)"
| "build kit s (DigestC algorithm e) = build_digest kit algorithm e (si_request s)"
| "build kit s (QueryC incl excl canonical separator) = build_query kit incl excl canonical separator (si_request s)"
| "build kit s (JsonC incl sort_keys omit_null) = build_json kit incl sort_keys omit_null (si_request s)"
| "build kit s (PreviousC i name) =
     (case map_of (si_components s) i of
        Some v \<Rightarrow> Inr v
      | None \<Rightarrow> Inl (PlanError (''signature '' @ py_repr name @ '' is not available'')))"
| "build kit s (LiteralC v) = Inr v"
| "build kit s (JoinC parts separator front back) =
     bindE (mapE (build kit s) parts) (\<lambda>texts. Inr (front @ join separator texts @ back))"
| "build kit s (CustomC f _) = f s"

section \<open>Signatures\<close>

datatype request_location = PathL | QueryL | HeaderL | CookieL | BodyL

record sig_output =
  so_id :: nat
  so_name :: string
  so_location :: request_location
  so_encoding :: output_encoding
  so_position :: "int option"
  so_pointer :: "string option"

text \<open>\<open>SignatureOutput.__post_init__\<close>, and the key under which outputs must not meet.\<close>

definition check_output :: "sig_output \<Rightarrow> sdk_error + sig_output" where
  "check_output out =
     (if so_name out = [] then Inl (PyValueError ''signature output name must not be empty'')
      else if so_pointer out = None then Inr out
      else if so_location out \<noteq> BodyL
      then Inl (PyValueError ''json_pointer is supported only for body signature outputs'')
      else bindE (body_output_path (so_name out) (so_pointer out)) (\<lambda>_. Inr out))"

definition output_key :: "sig_output \<Rightarrow> sdk_error + request_location \<times> string" where
  "output_key out =
     (if so_location out = BodyL
      then bindE (body_output_path (so_name out) (so_pointer out)) (\<lambda>path. Inr (BodyL, join ''/'' path))
      else Inr (so_location out, lower (so_name out)))"

text \<open>\<open>_output_conflicts_with_reads\<close>.\<close>

definition output_conflicts :: "sig_output \<Rightarrow> sig_read list \<Rightarrow> bool" where
  "output_conflicts out rs \<longleftrightarrow>
     (case so_location out of
        QueryL \<Rightarrow> Part ''target'' \<in> set rs \<or> Part ''query'' \<in> set rs
      | HeaderL \<Rightarrow> Part ''headers'' \<in> set rs \<or> Part (''header:'' @ lower (so_name out)) \<in> set rs
      | CookieL \<Rightarrow> Part ''headers'' \<in> set rs \<or> Part ''header:cookie'' \<in> set rs
      | _ \<Rightarrow> Part ''body'' \<in> set rs \<or> Part ''json'' \<in> set rs)"

text \<open>
  A declarative signature has an algorithm, a base and a key; a custom one a signer, its read set and
  perhaps a key. A key requirement is known by its identity.
\<close>

datatype signature_kind =
    Declarative "string \<Rightarrow> string \<Rightarrow> string" component nat
  | Custom "signing_input \<Rightarrow> string option \<Rightarrow> sdk_error + (sig_output \<times> string) list" "sig_read list" "nat option"

record signature =
  sg_id :: nat
  sg_identity :: nat
  sg_name :: string
  sg_outputs :: "sig_output list"
  sg_kind :: signature_kind

definition signature_reads :: "signature \<Rightarrow> sig_read list" where
  "signature_reads s = (case sg_kind s of Declarative _ base _ \<Rightarrow> reads base | Custom _ rs _ \<Rightarrow> remdups rs)"

section \<open>\<open>compile_signatures\<close>\<close>

type_synonym output_writers = "(request_location \<times> string, string) dict"

definition output_step ::
  "signature \<Rightarrow> output_writers \<times> nat list \<Rightarrow> sig_output \<Rightarrow> sdk_error + output_writers \<times> nat list" where
  "output_step s st out =
     bindE (output_key out) (\<lambda>key.
       case map_of (fst st) key of
         Some writer \<Rightarrow> Inl (WriterConflictError (''signature output '' @ py_repr (so_name out) @ '' has writers '' @
             py_repr writer @ '' and '' @ py_repr (sg_name s)))
       | None \<Rightarrow>
           (case sg_kind s of
              Declarative _ _ _ \<Rightarrow>
                if output_conflicts out (signature_reads s)
                then Inl (GraphError (''self-signing cycle: '' @ sg_name s @ '' -> '' @ so_name out @ '' -> '' @ sg_name s))
                else Inr (AList.update key (sg_name s) (fst st), snd st @ [so_id out])
            | Custom _ _ _ \<Rightarrow> Inr (AList.update key (sg_name s) (fst st), snd st @ [so_id out])))"

text \<open>\<open>{id(signature.identity): signature}\<close>: the last signature of an identity.\<close>

definition signature_of :: "signature list \<Rightarrow> nat \<Rightarrow> nat option" where
  "signature_of sigs i = map_of (rev (map (\<lambda>s. (sg_identity s, sg_id s)) sigs)) i"

definition previous_step ::
  "signature list \<Rightarrow> signature \<Rightarrow> nat edges \<times> (nat, int) dict \<Rightarrow> sig_read \<Rightarrow>
     sdk_error + nat edges \<times> (nat, int) dict" where
  "previous_step sigs s st r =
     (case r of
        Part _ \<Rightarrow> Inr st
      | Previous i \<Rightarrow>
          (case signature_of sigs i of
             None \<Rightarrow> Inl (GraphError (''signature '' @ py_repr (sg_name s) @ '' reads an unknown previous signature''))
           | Some src \<Rightarrow> Inr (add_edge src (sg_id s) (fst st), increment (sg_id s) (snd st))))"

definition signature_step ::
  "signature list \<Rightarrow> (output_writers \<times> nat list) \<times> nat edges \<times> (nat, int) dict \<Rightarrow> signature \<Rightarrow>
     sdk_error + (output_writers \<times> nat list) \<times> nat edges \<times> (nat, int) dict" where
  "signature_step sigs st s =
     bindE (foldE (output_step s) (fst st) (sg_outputs s)) (\<lambda>outs.
     bindE (foldE (previous_step sigs s) (snd st) (signature_reads s)) (\<lambda>graph. Inr (outs, graph)))"

definition signature_by_id :: "signature list \<Rightarrow> nat \<Rightarrow> signature" where
  "signature_by_id sigs i = the (map_of (rev (map (\<lambda>s. (sg_id s, s)) sigs)) i)"

text \<open>
  The queue holds signatures; here it holds their numbers. \<open>ord\<close> is the order in which a set of
  targets is walked. An empty list of names in the error message has no first item.
\<close>

definition compile_signatures ::
  "(nat \<Rightarrow> nat \<Rightarrow> nat) \<Rightarrow> signature list \<Rightarrow> sdk_error + signature list \<times> nat list" where
  "compile_signatures ord sigs =
     bindE (foldE (signature_step sigs) (([], []), [], fold (\<lambda>s d. AList.update (sg_id s) 0 d) sigs []) sigs)
       (\<lambda>(outs, es, indegree).
         case fifo_loop (iterate ord es) indegree
                (map sg_id (sort_key sg_name (filter (\<lambda>s. map_of indegree (sg_id s) = Some 0) sigs))) [] of
           (indegree', ordered) \<Rightarrow>
             if length ordered \<noteq> length sigs then
               (case map sg_name (filter (\<lambda>s. map_of indegree' (sg_id s) \<noteq> Some 0) sigs) of
                  [] \<Rightarrow> Inl (PyError ''IndexError'')
                | n # ns \<Rightarrow> Inl (GraphError (''signature graph cycle: '' @ join '' -> '' ((n # ns) @ [n]))))
             else Inr (map (signature_by_id sigs) ordered, snd outs))"

section \<open>Outputs in the request\<close>

definition insert_at :: "'a list \<Rightarrow> 'a \<Rightarrow> int option \<Rightarrow> sdk_error + 'a list" where
  "insert_at xs x position =
     (let i = (case position of None \<Rightarrow> int (length xs) | Some p \<Rightarrow> p) in
      if i < 0 \<or> int (length xs) < i then Inl (PlanError ''reserved output position is out of range'')
      else Inr (take (nat i) xs @ x # drop (nat i) xs))"

text \<open>A JSON body that is \<open>null\<close> has the same view as no JSON body.\<close>

definition json_view :: "body_view \<Rightarrow> pyval option" where
  "json_view v = (case bv_json v of Some PNone \<Rightarrow> None | f \<Rightarrow> f)"

definition apply_body_output ::
  "signing_kit \<Rightarrow> request_body \<Rightarrow> body_view \<Rightarrow> sig_output \<Rightarrow> string \<Rightarrow> sdk_error + request_body \<times> body_view" where
  "apply_body_output kit body view out v =
     (case body of
        StreamedBody _ \<Rightarrow> Inl (PlanError ''signature body output requires a buffered body'')
      | BufferedBody _ ct \<Rightarrow>
          (case json_view view of
             Some f \<Rightarrow>
               (case thaw f of
                  PDict d \<Rightarrow>
                    bindE (body_output_path (so_name out) (so_pointer out)) (\<lambda>path.
                      if \<not> sk_utf8 kit v then Inl (PyError ''UnicodeDecodeError'')
                      else bindE (insert_json_output d path v (so_position out)) (\<lambda>d'.
                        bindE (sk_dump kit None (PDict d')) (\<lambda>content.
                          Inr (BufferedBody content ct, view\<lparr>bv_content := content, bv_json := Some (freeze (PDict d'))\<rparr>))))
                | _ \<Rightarrow> Inl (PlanError ''JSON signature output requires an object body''))
           | None \<Rightarrow>
               (case bv_form view of
                  Some fs \<Rightarrow>
                    bindE (insert_at fs \<lparr>ff_name = so_name out, ff_value = v\<rparr> (so_position out)) (\<lambda>fs'.
                      let content = join ''&'' (map (\<lambda>f. quote unreserved (ff_name f) @ CHR ''='' # quote unreserved (ff_value f)) fs') in
                      Inr (BufferedBody content ct, view\<lparr>bv_content := content, bv_form := Some fs'\<rparr>))
                | None \<Rightarrow> Inl (PlanError ''body signature output requires JSON or form semantic view''))))"

definition without_header :: "string \<Rightarrow> header_field list \<Rightarrow> header_field list" where
  "without_header name hs = filter (\<lambda>f. lower (hf_name f) \<noteq> name) hs"

definition body_length :: "request_body \<Rightarrow> int" where
  "body_length b = (case b of BufferedBody content _ \<Rightarrow> int (length content) | StreamedBody _ \<Rightarrow> 0)"

definition query_pair_of :: "string \<Rightarrow> string \<Rightarrow> query_pair" where
  "query_pair_of name v =
     \<lparr>qr_name = name, qr_value = v, qr_encoded_name = quote unreserved name, qr_encoded_value = quote unreserved v\<rparr>"

definition secret_header :: "string \<Rightarrow> string \<Rightarrow> header_field" where
  "secret_header name v = \<lparr>hf_name = name, hf_value = v, hf_sensitive = True\<rparr>"

text \<open>\<open>_apply_output\<close>. A location that is none of the first three is the body.\<close>

definition apply_output ::
  "signing_kit \<Rightarrow> prepared_request \<Rightarrow> sig_output \<Rightarrow> string \<Rightarrow> sdk_error + prepared_request" where
  "apply_output kit r out v =
     (case pr_view r of
        None \<Rightarrow> Inl (PlanError ''signature output requires prepared request view'')
      | Some view \<Rightarrow>
          (case so_location out of
             HeaderL \<Rightarrow>
               bindE (ascii_bytes (so_name out)) (\<lambda>name.
               bindE (insert_at (pr_headers r) (secret_header name v) (so_position out)) (\<lambda>hs.
                 Inr (r\<lparr>pr_headers := hs, pr_view := Some (view\<lparr>rv_headers := hs\<rparr>)\<rparr>)))
           | QueryL \<Rightarrow>
               bindE (insert_at (rv_query view) (query_pair_of (so_name out) v) (so_position out)) (\<lambda>pairs.
                 let query = join ''&'' (map query_wire pairs);
                     target = rv_path view @ (if query = [] then [] else ''?'' @ query) in
                 Inr (r\<lparr>pr_target := target, pr_view := Some (view\<lparr>rv_target := target, rv_query := pairs\<rparr>)\<rparr>))
           | CookieL \<Rightarrow>
               bindE (insert_at (rv_cookies view) \<lparr>pc_name = so_name out, pc_value = v\<rparr> (so_position out)) (\<lambda>cs.
                 let hs = without_header ''cookie'' (pr_headers r) @ [secret_header ''Cookie'' (cookie_wire cs)] in
                 Inr (r\<lparr>pr_headers := hs, pr_view := Some (view\<lparr>rv_cookies := cs, rv_headers := hs\<rparr>)\<rparr>))
           | _ \<Rightarrow>
               bindE (apply_body_output kit (pr_body r) (rv_body view) out v) (\<lambda>(body, body_view).
                 let hs = without_header ''content-length'' (pr_headers r) @
                       [plain_header ''Content-Length'' (sk_int kit (body_length body))] in
                 Inr (r\<lparr>pr_body := body, pr_headers := hs,
                   pr_view := Some (view\<lparr>rv_body := body_view, rv_headers := hs\<rparr>)\<rparr>))))"

section \<open>\<open>sign_prepared\<close>\<close>

text \<open>The value of each output of a signature, in the order they are applied, and what later ones may read.\<close>

definition signature_values ::
  "signing_kit \<Rightarrow> (nat \<Rightarrow> string) \<Rightarrow> signature \<Rightarrow> signing_input \<Rightarrow> sdk_error + (sig_output \<times> string) list \<times> string" where
  "signature_values kit key_of s input =
     (case sg_kind s of
        Declarative algorithm base key \<Rightarrow>
          bindE (build kit input base) (\<lambda>text.
            let raw = algorithm text (key_of key) in
            Inr (map (\<lambda>out. (out, encode_output kit raw (so_encoding out))) (sg_outputs s), raw))
      | Custom signer _ key \<Rightarrow>
          bindE (signer input (map_option key_of key)) (\<lambda>result.
            if fst ` set result \<noteq> set (sg_outputs s)
            then Inl (PlanError (''custom signature '' @ py_repr (sg_name s) @ '' output mismatch''))
            else Inr (result, concat (map snd result))))"

definition fill_step ::
  "signing_kit \<Rightarrow> prepared_request \<times> nat list \<Rightarrow> sig_output \<times> string \<Rightarrow> sdk_error + prepared_request \<times> nat list" where
  "fill_step kit st v =
     bindE (apply_output kit (fst st) (fst v) (snd v)) (\<lambda>r. Inr (r, removeAll (so_id (fst v)) (snd st)))"

type_synonym signing_state = "(prepared_request \<times> nat list) \<times> (nat, string) dict \<times> nat"

definition sign_step ::
  "signing_kit \<Rightarrow> (nat \<Rightarrow> string) \<Rightarrow> signing_state \<Rightarrow> signature \<Rightarrow> sdk_error + signing_state" where
  "sign_step kit key_of st s =
     (case st of (req, completed, stage) \<Rightarrow>
       (case pr_view (fst req) of
          None \<Rightarrow> Inl (PlanError ''signing requires PreparedRequestView'')
        | Some view \<Rightarrow>
            bindE (signature_values kit key_of s \<lparr>si_request = view, si_components = completed, si_stage = stage\<rparr>)
              (\<lambda>(outputs, raw).
                bindE (foldE (fill_step kit) req outputs) (\<lambda>req'.
                  Inr (req', AList.update (sg_identity s) raw completed, Suc stage)))))"

definition sign_prepared ::
  "signing_kit \<Rightarrow> (nat \<Rightarrow> string) \<Rightarrow> signature list \<times> nat list \<Rightarrow> prepared_request \<Rightarrow> sdk_error + prepared_request" where
  "sign_prepared kit key_of plan r =
     (if set (pr_reserved r) \<noteq> set (snd plan)
      then Inl (PlanError ''unsigned request reserved outputs do not match signature plan'')
      else bindE (foldE (sign_step kit key_of) ((r, pr_reserved r), [], 0) (fst plan)) (\<lambda>((r', reserved), _).
        if reserved \<noteq> [] then Inl (PlanError ''not all reserved signature outputs were filled'')
        else finalize (r'\<lparr>pr_reserved := []\<rparr>)))"

section \<open>The view stays the request\<close>

definition mirrors :: "prepared_request \<Rightarrow> bool" where
  "mirrors r \<longleftrightarrow>
     (case pr_view r of
        None \<Rightarrow> False
      | Some v \<Rightarrow> rv_method v = pr_method r \<and> rv_scheme v = pr_scheme r \<and> rv_authority v = pr_authority r \<and>
          rv_target v = pr_target r \<and> rv_headers v = pr_headers r \<and>
          (case pr_body r of BufferedBody content _ \<Rightarrow> bv_content (rv_body v) = content | StreamedBody _ \<Rightarrow> True))"

lemma insert_at_Inr:
  assumes "insert_at xs x p = Inr ys"
  obtains i where "ys = take i xs @ x # drop i xs"
  using assms by (auto simp: insert_at_def Let_def split: if_splits)

lemma insert_at_set:
  assumes "insert_at xs x p = Inr ys"
  shows "set ys = insert x (set xs)"
proof -
  from assms obtain i where "ys = take i xs @ x # drop i xs" by (rule insert_at_Inr)
  moreover have "set xs = set (take i xs) \<union> set (drop i xs)" by (metis append_take_drop_id set_append)
  ultimately show ?thesis by auto
qed

lemma insert_at_filter:
  assumes "insert_at xs x p = Inr ys" and "\<not> P x"
  shows "filter P ys = filter P xs"
proof -
  from assms(1) obtain i where "ys = take i xs @ x # drop i xs" by (rule insert_at_Inr)
  moreover have "filter P xs = filter P (take i xs) @ filter P (drop i xs)" by (metis append_take_drop_id filter_append)
  ultimately show ?thesis using assms(2) by simp
qed

lemma apply_body_output_content:
  assumes "apply_body_output kit body view out v = Inr (body', view')"
  obtains content ct where "body' = BufferedBody content ct" and "bv_content view' = content"
  using assms
  by (auto simp: apply_body_output_def bindE_Inr_iff Let_def split: request_body.splits option.splits pyval.splits if_splits)

lemma apply_output_mirrors:
  assumes "apply_output kit r out v = Inr r'" and "mirrors r"
  shows "mirrors r' \<and> pr_reserved r' = pr_reserved r"
proof -
  obtain view where view: "pr_view r = Some view" using assms(2) by (auto simp: mirrors_def split: option.splits)
  show ?thesis
  proof (cases "so_location out = PathL \<or> so_location out = BodyL")
    case True
    then obtain body body_view where b: "apply_body_output kit (pr_body r) (rv_body view) out v = Inr (body, body_view)"
      and r': "r' = (let hs = without_header ''content-length'' (pr_headers r) @
            [plain_header ''Content-Length'' (sk_int kit (body_length body))] in
          r\<lparr>pr_body := body, pr_headers := hs, pr_view := Some (view\<lparr>rv_body := body_view, rv_headers := hs\<rparr>)\<rparr>)"
      using assms(1) view by (auto simp: apply_output_def bindE_Inr_iff Let_def)
    from b obtain content ct where "body = BufferedBody content ct" "bv_content body_view = content"
      by (rule apply_body_output_content)
    then show ?thesis using assms(2) view unfolding r' by (simp add: mirrors_def Let_def)
  next
    case False
    then show ?thesis
      using assms view
      by (cases "so_location out") (auto simp: apply_output_def bindE_Inr_iff Let_def mirrors_def split: request_body.splits)
  qed
qed

text \<open>Signing keeps what is kept by every output.\<close>

lemma fill_invariant:
  assumes "foldE (fill_step kit) (r, res) outs = Inr (r', res')" and "P r"
    and "\<And>r out v r'. (out, v) \<in> set outs \<Longrightarrow> P r \<Longrightarrow> apply_output kit r out v = Inr r' \<Longrightarrow> P r'"
  shows "P r'"
proof -
  have "P (fst (r', res'))"
    by (rule foldE_invariant [OF assms(1), where P = "\<lambda>st. P (fst st)"])
      (use assms(2,3) in \<open>auto simp: fill_step_def bindE_Inr_iff\<close>)
  then show ?thesis by simp
qed

lemma fill_step_Inr:
  "fill_step kit st x = Inr st' \<longleftrightarrow>
     (\<exists>r. apply_output kit (fst st) (fst x) (snd x) = Inr r \<and> st' = (r, removeAll (so_id (fst x)) (snd st)))"
  by (auto simp: fill_step_def bindE_Inr_iff)

lemma fill_removes:
  "foldE (fill_step kit) (r, res) outs = Inr (r', res') \<Longrightarrow> set res' = set res - so_id ` fst ` set outs"
proof (induction outs arbitrary: r res)
  case (Cons x outs)
  then obtain r1 where "foldE (fill_step kit) (r1, removeAll (so_id (fst x)) res) outs = Inr (r', res')"
    by (auto simp: bindE_Inr_iff fill_step_Inr)
  from Cons.IH [OF this] show ?case by auto
qed simp

lemma sign_step_Inr:
  assumes "sign_step kit key_of ((r, res), completed, stage) s = Inr st"
  obtains view outs raw r' res' where "pr_view r = Some view"
    and "signature_values kit key_of s \<lparr>si_request = view, si_components = completed, si_stage = stage\<rparr> = Inr (outs, raw)"
    and "foldE (fill_step kit) (r, res) outs = Inr (r', res')"
    and "st = ((r', res'), AList.update (sg_identity s) raw completed, Suc stage)"
  using assms by (fastforce simp: sign_step_def bindE_Inr_iff split: option.splits)

lemma signature_values_outputs:
  assumes "signature_values kit key_of s i = Inr (outs, raw)"
  shows "fst ` set outs = set (sg_outputs s)"
  using assms
  by (cases "sg_kind s") (auto simp: signature_values_def bindE_Inr_iff Let_def image_iff split: if_splits)

lemma sign_invariant:
  assumes "foldE (sign_step kit key_of) ((r, res), completed, stage) sigs = Inr ((r', res'), completed', stage')" and "P r"
    and "\<And>r out v r'. out \<in> (\<Union>s \<in> set sigs. set (sg_outputs s)) \<Longrightarrow> P r \<Longrightarrow> apply_output kit r out v = Inr r' \<Longrightarrow> P r'"
  shows "P r'"
proof -
  have step: "P (fst (fst st'))" if s: "s \<in> set sigs" and p: "P (fst (fst st))" and run: "sign_step kit key_of st s = Inr st'" for s st st'
  proof -
    obtain r res completed stage where st: "st = ((r, res), completed, stage)" by (metis surj_pair)
    from run [unfolded st] obtain view outs raw r' res' where
      v: "signature_values kit key_of s \<lparr>si_request = view, si_components = completed, si_stage = stage\<rparr> = Inr (outs, raw)" and
      f: "foldE (fill_step kit) (r, res) outs = Inr (r', res')" and
      st': "st' = ((r', res'), AList.update (sg_identity s) raw completed, Suc stage)"
      by (rule sign_step_Inr)
    have "P r'"
    proof (rule fill_invariant [OF f])
      show "P r" using p st by simp
      show "P r2" if "(out, x) \<in> set outs" "P r1" "apply_output kit r1 out x = Inr r2" for r1 out x r2
        using assms(3) that signature_values_outputs [OF v] s by force
    qed
    then show ?thesis by (simp add: st')
  qed
  have "P (fst (fst ((r', res'), completed', stage')))"
    by (rule foldE_invariant [OF assms(1), where P = "\<lambda>st. P (fst (fst st))"]) (use assms(2) step in auto)
  then show ?thesis by simp
qed

lemma sign_prepared_Inr:
  assumes "sign_prepared kit key_of plan r = Inr r'"
  obtains r1 completed stage where "set (pr_reserved r) = set (snd plan)"
    and "foldE (sign_step kit key_of) ((r, pr_reserved r), [], 0) (fst plan) = Inr ((r1, []), completed, stage)"
    and "r' = r1\<lparr>pr_reserved := []\<rparr>"
  using assms by (fastforce simp: sign_prepared_def bindE_Inr_iff finalize_def split: if_splits)

text \<open>What the encoders of a body put into the view are the bytes they send.\<close>

lemma encode_body_view:
  assumes "encode_body tk given boundary secret override layout d v = Inr (b, view)"
  shows "case b of BufferedBody content _ \<Rightarrow> bv_content view = content | StreamedBody _ \<Rightarrow> True"
proof (cases d)
  case (FormB ct)
  then show ?thesis using assms by (auto simp: encode_body_def bindE_Inr_iff Let_def simple_view_def split: if_splits)
next
  case (MultipartB ct declared)
  then show ?thesis using assms by (auto simp: encode_body_def bindE_Inr_iff Let_def simple_view_def split: if_splits)
next
  case (CodecB ct enc)
  from assms obtain e where "(case e of PBytes b \<Rightarrow> Inr (BufferedBody b (media_of ct), simple_view b ct secret)
      | _ \<Rightarrow> Inl (BindingError ''custom body codec must return bytes'')) = Inr (b, view)"
    unfolding encode_body_def CodecB by (auto simp: bindE_Inr_iff split: if_splits)
  then show ?thesis by (cases e) (auto simp: simple_view_def)
qed (use assms in \<open>auto simp: encode_body_def bindE_Inr_iff Let_def simple_view_def split: if_splits pyval.split_asm option.split_asm\<close>)

lemma body_stage_view:
  assumes "body_stage tk given ov layout boundary override = Inr (b, view)"
  shows "case b of BufferedBody content _ \<Rightarrow> bv_content view = content | StreamedBody _ \<Rightarrow> True"
proof (cases "bl_descriptor layout")
  case None
  then show ?thesis using assms by (auto simp: body_stage_def bindE_Inr_iff Let_def simple_view_def)
next
  case (Some d)
  then consider "b = BufferedBody [] None" "view = simple_view [] None (list_ex (\<lambda>s. slot_secret (ps_slot s)) (bl_slots layout))"
    | o2 v where "encode_body tk given boundary (list_ex (\<lambda>s. slot_secret (ps_slot s)) (bl_slots layout)) o2 layout d v = Inr (b, view)"
    using assms
    by (cases d; cases override)
      (auto simp: body_stage_def bindE_Inr_iff Let_def split: if_splits)
  then show ?thesis by cases (auto simp: simple_view_def dest: encode_body_view)
qed

lemma prepare_mirrors:
  assumes "prepare_request tk given int_text rq ov template reserved boundary m omit override jar = Inr r"
  shows "mirrors r \<and> pr_reserved r = reserved"
proof -
  from assms obtain path generated existing declared body hs where
    b: "(if omit then Inr (BufferedBody [] None, simple_view [] None False)
        else body_stage tk given ov (rq_body rq) boundary override) = Inr body" and
    r: "r = assemble_request int_text rq reserved m omit path generated existing
        (with_session_cookies rq jar path declared) body hs"
    unfolding prepare_request_Inr by blast
  obtain bb view where body: "body = (bb, view)" by fastforce
  have "case bb of BufferedBody content _ \<Rightarrow> bv_content view = content | StreamedBody _ \<Rightarrow> True"
    using b body_stage_view [of tk given ov "rq_body rq" boundary override bb view]
    by (auto simp: body simple_view_def split: if_splits)
  then show ?thesis by (simp add: r assemble_request_def Let_def mirrors_def body split: request_body.splits)
qed


section \<open>What a base reads\<close>

text \<open>A base without custom code.\<close>

fun declared :: "component \<Rightarrow> bool" where
  "declared (JoinC parts _ _ _) \<longleftrightarrow> list_all declared parts"
| "declared (CustomC _ _) \<longleftrightarrow> False"
| "declared _ \<longleftrightarrow> True"

text \<open>Two views agree on a set of reads.\<close>

definition agree :: "sig_read set \<Rightarrow> request_view \<Rightarrow> request_view \<Rightarrow> bool" where
  "agree rs v w \<longleftrightarrow>
     (\<forall>part. Part (part_name part) \<in> rs \<longrightarrow> request_part_of part w = request_part_of part v) \<and>
     (\<forall>name. Part (''header:'' @ lower name) \<in> rs \<longrightarrow> header_values name w = header_values name v) \<and>
     (Part ''query'' \<in> rs \<longrightarrow> rv_query w = rv_query v) \<and>
     (Part ''json'' \<in> rs \<longrightarrow> bv_json (rv_body w) = bv_json (rv_body v))"

lemma agree_refl: "agree rs v v"
  by (simp add: agree_def)

lemma agree_trans: "agree rs u v \<Longrightarrow> agree rs v w \<Longrightarrow> agree rs u w"
  by (simp add: agree_def)

lemma agree_mono: "agree rs v w \<Longrightarrow> rs' \<subseteq> rs \<Longrightarrow> agree rs' v w"
  by (auto simp: agree_def)

text \<open>A base is a function of what it says it reads.\<close>

lemma build_agree:
  assumes "declared c" and "agree (set (reads c)) (si_request s) (si_request s')"
    and "si_components s' = si_components s"
  shows "build kit s' c = build kit s c"
  using assms
proof (induction kit s c rule: build.induct)
  case (1 kit s part)
  then show ?case by (simp add: agree_def)
next
  case (2 kit s name occurrence separator)
  then have "header_values name (si_request s') = header_values name (si_request s)" by (simp add: agree_def)
  then show ?case by (simp add: build_header_def split: option.split)
next
  case (3 kit s algorithm e)
  then have "request_part_of BodyP (si_request s') = request_part_of BodyP (si_request s)"
    unfolding agree_def by (metis list.set_intros(1) part_name.simps(6) reads.simps(3))
  then show ?case by (simp add: build_digest_def request_part_of_def)
next
  case (4 kit s incl excl canonical separator)
  then show ?case by (simp add: agree_def build_query_def)
next
  case (5 kit s incl sort_keys omit_null)
  then show ?case by (simp add: agree_def build_json_def)
next
  case (8 kit s parts separator left right)
  have "build kit s' c = build kit s c" if "c \<in> set parts" for c
  proof (rule "8.IH" [OF that])
    show "declared c" using that "8.prems"(1) by (simp add: list_all_iff)
    show "agree (set (reads c)) (si_request s) (si_request s')"
      by (rule agree_mono [OF "8.prems"(2)]) (use that in auto)
  qed (rule "8.prems"(3))
  then have "mapE (build kit s') parts = mapE (build kit s) parts" by (intro mapE_cong) simp_all
  then show ?case by simp
qed simp_all

text \<open>
  An output that the compiler holds to be unread changes nothing that is read, but for one thing: a
  body output rewrites \<open>Content-Length\<close>.
\<close>

definition unread :: "sig_output \<Rightarrow> sig_read list \<Rightarrow> bool" where
  "unread out rs \<longleftrightarrow> \<not> output_conflicts out rs \<and>
     (so_location out = BodyL \<or> so_location out = PathL \<longrightarrow> Part ''header:content-length'' \<notin> set rs)"

lemma header_values_without:
  "lower name \<noteq> n \<Longrightarrow> map hf_value (filter (\<lambda>f. lower (hf_name f) = lower name) (without_header n hs)) =
     map hf_value (filter (\<lambda>f. lower (hf_name f) = lower name) hs)"
  by (auto simp: without_header_def intro!: arg_cong [where f = "map hf_value"] filter_cong)

lemma part_name_plain: "part_name p \<noteq> ''header:'' @ n" "part_name p \<noteq> ''query''" "part_name p \<noteq> ''json''"
  by (cases p; simp)+

lemma lower_names: "lower ''Cookie'' = ''cookie''" "lower ''Content-Length'' = ''content-length''"
  by code_simp+

lemma apply_body_agree:
  assumes "apply_output kit r out v = Inr r'" and "mirrors r" and "unread out rs"
    and "so_location out = PathL \<or> so_location out = BodyL"
  shows "agree (set rs) (the (pr_view r)) (the (pr_view r'))"
proof -
  obtain view where view: "pr_view r = Some view" and hs: "rv_headers view = pr_headers r"
    using assms(2) by (auto simp: mirrors_def split: option.splits)
  obtain body body_view where
    r': "r' = (let hs = without_header ''content-length'' (pr_headers r) @
          [plain_header ''Content-Length'' (sk_int kit (body_length body))] in
        r\<lparr>pr_body := body, pr_headers := hs, pr_view := Some (view\<lparr>rv_body := body_view, rv_headers := hs\<rparr>)\<rparr>)"
    using assms(1,4) view by (auto simp: apply_output_def bindE_Inr_iff Let_def)
  have no: "Part ''body'' \<notin> set rs" "Part ''json'' \<notin> set rs" "Part ''header:content-length'' \<notin> set rs"
    using assms(3,4) by (auto simp: unread_def output_conflicts_def)
  then have "lower n \<noteq> ''content-length''" if "Part (''header:'' @ lower n) \<in> set rs" for n using that by auto
  moreover have "request_part_of p (view\<lparr>rv_body := body_view, rv_headers := hs'\<rparr>) = request_part_of p view"
    if "Part (part_name p) \<in> set rs" for p hs'
    using that no by (cases p) (simp_all add: request_part_of_def)
  ultimately show ?thesis
    using no
    by (auto simp: agree_def view r' Let_def header_values_def hs header_values_without plain_header_def lower_names)
qed

lemma apply_agree:
  assumes "apply_output kit r out v = Inr r'" and "mirrors r" and "unread out rs"
  shows "agree (set rs) (the (pr_view r)) (the (pr_view r'))"
proof -
  obtain view where view: "pr_view r = Some view" and hs: "rv_headers view = pr_headers r"
    using assms(2) by (auto simp: mirrors_def split: option.splits)
  have header: "Part (''header:'' @ m) \<notin> set rs" if "so_location out = HeaderL" "m = lower (so_name out)" for m
    using assms(3) that by (auto simp: unread_def output_conflicts_def)
  show ?thesis
  proof (cases "so_location out")
    case HeaderL
    then obtain hs' where i: "insert_at (pr_headers r) (secret_header (so_name out) v) (so_position out) = Inr hs'"
      and r': "r' = r\<lparr>pr_headers := hs', pr_view := Some (view\<lparr>rv_headers := hs'\<rparr>)\<rparr>"
      using assms(1) view by (auto simp: apply_output_def bindE_Inr_iff ascii_bytes_def split: if_splits)
    have "header_values n (view\<lparr>rv_headers := hs'\<rparr>) = header_values n view" if "Part (''header:'' @ lower n) \<in> set rs" for n
      using insert_at_filter [OF i, of "\<lambda>f. lower (hf_name f) = lower n"] header [OF HeaderL refl] that
      by (cases "lower (so_name out) = lower n") (auto simp: header_values_def hs secret_header_def)
    moreover have "request_part_of p (view\<lparr>rv_headers := hs'\<rparr>) = request_part_of p view" for p
      by (cases p) (simp_all add: request_part_of_def)
    ultimately show ?thesis by (simp add: agree_def view r')
  next
    case QueryL
    then obtain pairs target where r': "r' = r\<lparr>pr_target := target, pr_view := Some (view\<lparr>rv_target := target, rv_query := pairs\<rparr>)\<rparr>"
      using assms(1) view by (auto simp: apply_output_def bindE_Inr_iff Let_def)
    have "Part ''target'' \<notin> set rs" "Part ''query'' \<notin> set rs"
      using assms(3) QueryL by (auto simp: unread_def output_conflicts_def)
    moreover have "request_part_of p (view\<lparr>rv_target := target, rv_query := pairs\<rparr>) = request_part_of p view"
      if "Part (part_name p) \<in> set rs" for p
      using that \<open>Part ''target'' \<notin> set rs\<close> by (cases p) (simp_all add: request_part_of_def)
    ultimately show ?thesis by (auto simp: agree_def view r' header_values_def)
  next
    case CookieL
    then obtain cs where r': "r' = (let hs = without_header ''cookie'' (pr_headers r) @ [secret_header ''Cookie'' (cookie_wire cs)] in
        r\<lparr>pr_headers := hs, pr_view := Some (view\<lparr>rv_cookies := cs, rv_headers := hs\<rparr>)\<rparr>)"
      using assms(1) view by (auto simp: apply_output_def bindE_Inr_iff Let_def)
    have "Part ''header:cookie'' \<notin> set rs" using assms(3) CookieL by (simp add: unread_def output_conflicts_def)
    then have "header_values n (view\<lparr>rv_cookies := cs, rv_headers := without_header ''cookie'' (pr_headers r) @
        [secret_header ''Cookie'' (cookie_wire cs)]\<rparr>) = header_values n view" if "Part (''header:'' @ lower n) \<in> set rs" for n
    proof -
      have "lower n \<noteq> ''cookie''" using that \<open>Part ''header:cookie'' \<notin> set rs\<close> by auto
      then show ?thesis by (auto simp: header_values_def hs header_values_without secret_header_def lower_names)
    qed
    moreover have "request_part_of p (view\<lparr>rv_cookies := cs, rv_headers := hs'\<rparr>) = request_part_of p view" for p hs'
      by (cases p) (simp_all add: request_part_of_def)
    ultimately show ?thesis by (simp add: agree_def view r' Let_def)
  next
    case body: PathL
    then show ?thesis using apply_body_agree [OF assms] by simp
  next
    case BodyL
    then show ?thesis using apply_body_agree [OF assms] by simp
  qed
qed

section \<open>The order of signing\<close>

definition previous_reads :: "signature \<Rightarrow> nat list" where
  "previous_reads s = concat (map (\<lambda>r. case r of Previous i \<Rightarrow> [i] | Part _ \<Rightarrow> []) (signature_reads s))"

definition signatures_ok :: "signature list \<Rightarrow> bool" where
  "signatures_ok sigs \<longleftrightarrow> distinct (map sg_id sigs) \<and> distinct (map sg_identity sigs)"

lemma previous_reads_iff: "i \<in> set (previous_reads s) \<longleftrightarrow> Previous i \<in> set (signature_reads s)"
  by (force simp: previous_reads_def split: sig_read.splits)

lemma distinct_reads: "distinct (signature_reads s)"
proof (cases "sg_kind s")
  case (Declarative algorithm base key)
  have "distinct (reads base)" by (cases base) auto
  then show ?thesis by (simp add: signature_reads_def Declarative)
qed (simp add: signature_reads_def)

lemma distinct_previous: "distinct (previous_reads s)"
proof -
  have "distinct (concat (map (\<lambda>r. case r of Previous i \<Rightarrow> [i] | Part _ \<Rightarrow> []) rs))" if "distinct rs" for rs
    using that by (induction rs) (auto split: sig_read.splits)
  then show ?thesis using distinct_reads by (simp add: previous_reads_def)
qed

lemma signature_of_member:
  assumes "distinct (map sg_identity sigs)"
  shows "signature_of sigs i = Some k \<longleftrightarrow> (\<exists>s \<in> set sigs. sg_identity s = i \<and> sg_id s = k)"
proof -
  have "distinct (map fst (rev (map (\<lambda>s. (sg_identity s, sg_id s)) sigs)))"
    using assms by (simp add: rev_map comp_def distinct_map)
  then have "signature_of sigs i = Some k \<longleftrightarrow> (i, k) \<in> set (rev (map (\<lambda>s. (sg_identity s, sg_id s)) sigs))"
    unfolding signature_of_def by (rule map_of_eq_Some_iff)
  then show ?thesis by auto
qed

lemma signature_by_id_member:
  assumes "distinct (map sg_id sigs)" and "s \<in> set sigs"
  shows "signature_by_id sigs (sg_id s) = s"
proof -
  have d: "distinct (map fst (rev (map (\<lambda>s. (sg_id s, s)) sigs)))"
    using assms(1) by (simp add: rev_map comp_def distinct_map)
  have "(sg_id s, s) \<in> set (rev (map (\<lambda>s. (sg_id s, s)) sigs))" using assms(2) by auto
  then show ?thesis unfolding signature_by_id_def by (simp only: map_of_eq_Some_iff [OF d, THEN iffD2] option.sel)
qed

text \<open>The edges one read adds, and the edges of a prefix of the walk.\<close>

definition read_edge :: "signature list \<Rightarrow> signature \<times> sig_read \<Rightarrow> nat edges" where
  "read_edge sigs p = (case snd p of Part _ \<Rightarrow> [] | Previous i \<Rightarrow> [(the (signature_of sigs i), sg_id (fst p))])"

definition read_pairs :: "signature list \<Rightarrow> (signature \<times> sig_read) list" where
  "read_pairs sigs = concat (map (\<lambda>s. map (Pair s) (signature_reads s)) sigs)"

definition sig_edges :: "signature list \<Rightarrow> (signature \<times> sig_read) list \<Rightarrow> nat edges" where
  "sig_edges sigs ps = concat (map (read_edge sigs) ps)"

lemma signature_step_Inr:
  "signature_step all st s = Inr st' \<longleftrightarrow>
     foldE (output_step s) (fst st) (sg_outputs s) = Inr (fst st') \<and>
     foldE (previous_step all s) (snd st) (signature_reads s) = Inr (snd st')"
  by (cases st') (auto simp: signature_step_def bindE_Inr_iff)

lemma split_steps:
  "foldE (signature_step all) (outs, graph) sigs = Inr (outs', graph') \<Longrightarrow>
    foldE (\<lambda>st s. foldE (output_step s) st (sg_outputs s)) outs sigs = Inr outs' \<and>
    foldE (\<lambda>st p. previous_step all (fst p) st (snd p)) graph (read_pairs sigs) = Inr graph'"
proof (induction sigs arbitrary: outs graph)
  case (Cons s sigs)
  then obtain st where "signature_step all (outs, graph) s = Inr st" "foldE (signature_step all) st sigs = Inr (outs', graph')"
    by (auto simp: bindE_Inr_iff)
  then obtain outs1 graph1 where 1: "foldE (output_step s) outs (sg_outputs s) = Inr outs1"
    "foldE (previous_step all s) graph (signature_reads s) = Inr graph1"
    "foldE (signature_step all) (outs1, graph1) sigs = Inr (outs', graph')"
    by (cases st) (auto simp: signature_step_Inr)
  have "foldE (\<lambda>st p. previous_step all (fst p) st (snd p)) g (map (Pair s) rs) = foldE (previous_step all s) g rs" for g rs
    by (induction rs arbitrary: g) (simp_all add: bindE_def split: sum.split)
  then show ?case using 1 Cons.IH [OF 1(3)] by (simp add: read_pairs_def foldE_append)
qed (simp add: read_pairs_def)

lemma in_count_snoc: "in_count (es @ [(a, b)]) n = in_count es n + (if n = b then 1 else 0)"
  by (simp add: in_count_def)

lemma previous_edges:
  assumes "foldE (\<lambda>st p. previous_step sigs (fst p) st (snd p)) ([], map (\<lambda>i. (i, in_count [] i)) ids) ps = Inr (es, indegree)"
    and "distinct (sig_edges sigs ps)"
  shows "es = sig_edges sigs ps \<and> indegree = map (\<lambda>i. (i, in_count es i)) ids \<and>
    (\<forall>p \<in> set ps. \<forall>i. snd p = Previous i \<longrightarrow> signature_of sigs i \<noteq> None)"
  using assms
proof (induction ps arbitrary: es indegree rule: rev_induct)
  case Nil
  then show ?case by (simp add: sig_edges_def)
next
  case (snoc p ps)
  obtain es1 ind1 where run: "foldE (\<lambda>st p. previous_step sigs (fst p) st (snd p)) ([], map (\<lambda>i. (i, in_count [] i)) ids) ps
      = Inr (es1, ind1)" and last: "previous_step sigs (fst p) (es1, ind1) (snd p) = Inr (es, indegree)"
    using snoc.prems(1) by (auto simp: foldE_append bindE_Inr_iff)
  have d: "distinct (sig_edges sigs ps)" using snoc.prems(2) by (simp add: sig_edges_def)
  note IH = snoc.IH [OF run d]
  show ?case
  proof (cases "snd p")
    case (Part n)
    then show ?thesis using IH last by (auto simp: previous_step_def sig_edges_def read_edge_def)
  next
    case (Previous i)
    then obtain src where src: "signature_of sigs i = Some src"
      and st: "es = add_edge src (sg_id (fst p)) es1" "indegree = increment (sg_id (fst p)) ind1"
      using last by (auto simp: previous_step_def split: option.splits)
    have new: "(src, sg_id (fst p)) \<notin> set es1"
      using snoc.prems(2) IH Previous src by (simp add: sig_edges_def read_edge_def)
    then have es: "es = es1 @ [(src, sg_id (fst p))]" by (simp add: st add_edge_def)
    moreover have "indegree = map (\<lambda>i. (i, in_count es i)) ids"
      using IH by (simp add: st(2) es in_count_snoc increment_def)
    ultimately show ?thesis using IH Previous src by (auto simp: sig_edges_def read_edge_def)
  qed
qed

lemma set_read_pairs: "(s, x) \<in> set (read_pairs sigs) \<longleftrightarrow> s \<in> set sigs \<and> x \<in> set (signature_reads s)"
  by (auto simp: read_pairs_def)

lemma sig_edges_iff:
  "e \<in> set (sig_edges all ps) \<longleftrightarrow>
     (\<exists>s i. (s, Previous i) \<in> set ps \<and> e = (the (signature_of all i), sg_id s))"
proof -
  have "e \<in> set (read_edge all p) \<longleftrightarrow> (\<exists>i. snd p = Previous i \<and> e = (the (signature_of all i), sg_id (fst p)))" for p
    by (cases "snd p") (auto simp: read_edge_def)
  then show ?thesis by (fastforce simp: sig_edges_def)
qed

text \<open>No edge twice: a signature reads an identity once, and an identity has one signature.\<close>

lemma distinct_sig_edges:
  assumes "signatures_ok all" and "set sigs \<subseteq> set all" and "distinct sigs"
    and "\<forall>p \<in> set (read_pairs sigs). \<forall>i. snd p = Previous i \<longrightarrow> signature_of all i \<noteq> None"
  shows "distinct (sig_edges all (read_pairs sigs))"
  using assms(2-4)
proof (induction sigs)
  case (Cons s sigs)
  have ids: "distinct (map sg_id all)" "distinct (map sg_identity all)" using assms(1) by (simp_all add: signatures_ok_def)
  have own: "distinct (concat (map (\<lambda>r. read_edge all (s, r)) rs))"
    if "distinct rs" "\<forall>r \<in> set rs. \<forall>i. r = Previous i \<longrightarrow> signature_of all i \<noteq> None" for rs
    using that
  proof (induction rs)
    case (Cons r rs)
    have "set (read_edge all (s, r)) \<inter> set (concat (map (\<lambda>r. read_edge all (s, r)) rs)) = {}"
    proof (cases r)
      case (Previous i)
      have "the (signature_of all i) \<noteq> the (signature_of all j)" if j: "Previous j \<in> set rs" for j
      proof
        assume eq: "the (signature_of all i) = the (signature_of all j)"
        obtain k where k: "signature_of all i = Some k" "signature_of all j = Some k"
          using eq Cons.prems(2) Previous j by fastforce
        then obtain a b where ab: "a \<in> set all" "sg_identity a = i" "sg_id a = k" "b \<in> set all" "sg_identity b = j" "sg_id b = k"
          using signature_of_member [OF ids(2)] by metis
        then have "a = b" using ids(1) by (metis distinct_map inj_on_def)
        then have "Previous i \<in> set rs" using ab j by simp
        then show False using Cons.prems(1) Previous by simp
      qed
      then show ?thesis by (fastforce simp: Previous read_edge_def split: sig_read.splits)
    qed (simp add: read_edge_def)
    moreover have "distinct (read_edge all (s, r))" by (simp add: read_edge_def split: sig_read.split)
    ultimately show ?case using Cons by simp
  qed simp
  have "distinct (concat (map (\<lambda>r. read_edge all (s, r)) (signature_reads s)))"
  proof (rule own [OF distinct_reads], intro ballI allI impI)
    fix r i assume "r \<in> set (signature_reads s)" "r = Previous i"
    then show "signature_of all i \<noteq> None"
      using Cons.prems(3) set_read_pairs [of s r "s # sigs"] by fastforce
  qed
  moreover have "distinct (sig_edges all (read_pairs sigs))"
  proof (rule Cons.IH)
    show "\<forall>p \<in> set (read_pairs sigs). \<forall>i. snd p = Previous i \<longrightarrow> signature_of all i \<noteq> None"
      using Cons.prems(3) set_read_pairs [of _ _ "s # sigs"] set_read_pairs [of _ _ sigs] by fastforce
  qed (use Cons.prems(1,2) in auto)
  moreover have "snd e = sg_id s" if "e \<in> set (concat (map (\<lambda>r. read_edge all (s, r)) (signature_reads s)))" for e
    using that by (auto simp: read_edge_def split: sig_read.splits)
  moreover have "snd e \<noteq> sg_id s" if "e \<in> set (sig_edges all (read_pairs sigs))" for e
  proof -
    obtain t where "t \<in> set sigs" "snd e = sg_id t" using \<open>e \<in> _\<close> by (auto simp: sig_edges_iff set_read_pairs)
    moreover from this have "t \<noteq> s" "t \<in> set all" "s \<in> set all" using Cons.prems(1,2) by auto
    ultimately show ?thesis using ids(1) by (metis distinct_map inj_on_def)
  qed
  moreover have "sig_edges all (read_pairs (s # sigs)) =
      concat (map (\<lambda>r. read_edge all (s, r)) (signature_reads s)) @ sig_edges all (read_pairs sigs)"
    by (simp add: sig_edges_def read_pairs_def comp_def)
  ultimately show ?case by auto
qed (simp add: sig_edges_def read_pairs_def)

text \<open>Whether every read is known can be seen from the walk itself.\<close>

lemma previous_known:
  "foldE (\<lambda>st p. previous_step all (fst p) st (snd p)) st ps = Inr st' \<Longrightarrow>
     \<forall>p \<in> set ps. \<forall>i. snd p = Previous i \<longrightarrow> signature_of all i \<noteq> None"
proof (induction ps arbitrary: st)
  case (Cons p ps)
  then obtain st1 where "previous_step all (fst p) st (snd p) = Inr st1"
    "foldE (\<lambda>st p. previous_step all (fst p) st (snd p)) st1 ps = Inr st'" by (auto simp: bindE_Inr_iff)
  then show ?case using Cons.IH by (auto simp: previous_step_def split: option.splits)
qed simp

lemma map_of_counts: "map_of (map (\<lambda>i. (i, c i)) js) i = (if i \<in> set js then Some (c i) else None)"
  by (induction js) auto

lemma compile_signatures_Inr:
  assumes "compile_signatures ord sigs = Inr (order, slots)" and ok: "signatures_ok sigs"
  shows "mset order = mset sigs"
    and "s \<in> set sigs \<Longrightarrow> Previous i \<in> set (signature_reads s) \<Longrightarrow>
      \<exists>t \<in> set sigs. sg_identity t = i \<and> before (map sg_id order) (sg_id t) (sg_id s)"
    and "\<exists>outs. foldE (\<lambda>st s. foldE (output_step s) st (sg_outputs s)) ([], []) sigs = Inr outs \<and> slots = snd outs"
proof -
  let ?ids = "map sg_id sigs" let ?es = "sig_edges sigs (read_pairs sigs)"
  have ids: "distinct ?ids" "distinct (map sg_identity sigs)" using ok by (simp_all add: signatures_ok_def)
  have start: "fold (\<lambda>s d. AList.update (sg_id s) 0 d) sigs [] = map (\<lambda>i. (i, in_count [] i)) ?ids"
    using ids by (simp add: fold_update_fresh in_count_def)
  obtain outs es indegree where
    run: "foldE (signature_step sigs) (([], []), [], map (\<lambda>i. (i, in_count [] i)) ?ids) sigs = Inr (outs, es, indegree)"
    and rest: "(case fifo_loop (iterate ord es) indegree
                (map sg_id (sort_key sg_name (filter (\<lambda>s. map_of indegree (sg_id s) = Some 0) sigs))) [] of
           (indegree', ordered) \<Rightarrow>
             if length ordered \<noteq> length sigs then
               (case map sg_name (filter (\<lambda>s. map_of indegree' (sg_id s) \<noteq> Some 0) sigs) of
                  [] \<Rightarrow> Inl (PyError ''IndexError'')
                | n # ns \<Rightarrow> Inl (GraphError (''signature graph cycle: '' @ join '' -> '' ((n # ns) @ [n]))))
             else Inr (map (signature_by_id sigs) ordered, snd outs)) = Inr (order, slots)"
    using assms(1) by (auto simp: compile_signatures_def bindE_Inr_iff start)
  from split_steps [OF run] have
    o: "foldE (\<lambda>st s. foldE (output_step s) st (sg_outputs s)) ([], []) sigs = Inr outs" and
    g: "foldE (\<lambda>st p. previous_step sigs (fst p) st (snd p)) ([], map (\<lambda>i. (i, in_count [] i)) ?ids) (read_pairs sigs)
      = Inr (es, indegree)" by auto
  note known = previous_known [OF g]
  have d: "distinct ?es" by (rule distinct_sig_edges [OF ok]) (use known ids in \<open>auto simp: distinct_map\<close>)
  have es: "es = ?es" and indegree: "indegree = map (\<lambda>i. (i, in_count ?es i)) ?ids"
    using previous_edges [OF g d] by auto
  have edge: "\<exists>t \<in> set sigs. sg_identity t = i \<and> the (signature_of sigs i) = sg_id t"
    if s: "s \<in> set sigs" "Previous i \<in> set (signature_reads s)" for s i
  proof -
    have "(s, Previous i) \<in> set (read_pairs sigs)" using s by (simp add: set_read_pairs)
    then obtain k where "signature_of sigs i = Some k" using known by fastforce
    then show ?thesis using signature_of_member [OF ids(2)] by force
  qed
  have graph: "graph_ok ?ids ?es"
    unfolding graph_ok_def
  proof (intro conjI ids d, clarify)
    fix a b assume "(a, b) \<in> set ?es"
    then obtain s i where si: "(s, Previous i) \<in> set (read_pairs sigs)" "a = the (signature_of sigs i)" "b = sg_id s"
      by (auto simp: sig_edges_iff)
    then show "a \<in> set ?ids \<and> b \<in> set ?ids" using edge [of s i] by (auto simp: set_read_pairs)
  qed
  obtain indegree' ordered where
    loop: "fifo_loop (iterate ord ?es) (map (\<lambda>i. (i, in_count ?es i)) ?ids)
      (map sg_id (sort_key sg_name (filter (\<lambda>s. map_of (map (\<lambda>i. (i, in_count ?es i)) ?ids) (sg_id s) = Some 0) sigs))) []
      = (indegree', ordered)" by fastforce
  have len: "length ordered = length sigs" and order: "order = map (signature_by_id sigs) ordered" and slots: "slots = snd outs"
    using rest loop by (auto simp: es indegree split: if_splits list.splits)
  have "filter (\<lambda>s. map_of (map (\<lambda>i. (i, in_count ?es i)) ?ids) (sg_id s) = Some 0) sigs =
      filter (\<lambda>s. in_count ?es (sg_id s) = 0) sigs"
    by (rule filter_cong [OF refl]) (simp only: map_of_counts list.set_map image_eqI if_True option.inject)
  then have "mset (map sg_id (sort_key sg_name (filter (\<lambda>s. map_of (map (\<lambda>i. (i, in_count ?es i)) ?ids) (sg_id s) = Some 0) sigs)))
      = mset (filter (\<lambda>n. in_count ?es n = 0) ?ids)"
    by (simp only: mset_map mset_sort filter_map comp_def)
  note inv0 = dep.inv_start [OF graph this]
  have inv: "kahn_inv ?ids ?es indegree' [] ordered"
    using dep.loop_result [OF graph inv0, where ord = ord] loop by simp
  have len': "length ordered = length ?ids" using len by simp
  note sound = dep.taken_sound [OF graph inv len']
  have same: "mset ordered = mset ?ids" using sound(1) by simp
  have "map (signature_by_id sigs) ?ids = sigs"
    using signature_by_id_member [OF ids(1)] by (intro map_idI [of sigs, THEN trans [rotated]]) auto
  then show "mset order = mset sigs" unfolding order by (metis mset_map same)
  have "map sg_id order = ordered"
  proof -
    have "sg_id (signature_by_id sigs i) = i" if "i \<in> set ordered" for i
      using that mset_eq_setD [OF same] signature_by_id_member [OF ids(1)] by auto
    then show ?thesis by (simp add: order map_idI)
  qed
  then show "\<exists>t \<in> set sigs. sg_identity t = i \<and> before (map sg_id order) (sg_id t) (sg_id s)"
    if s: "s \<in> set sigs" "Previous i \<in> set (signature_reads s)" for s i
  proof -
    obtain t where t: "t \<in> set sigs" "sg_identity t = i" "the (signature_of sigs i) = sg_id t" using edge [OF s] by blast
    have "(sg_id t, sg_id s) \<in> set ?es"
      unfolding sig_edges_iff using s t by (force simp: set_read_pairs)
    then show ?thesis using sound(2) t \<open>map sg_id order = ordered\<close> by auto
  qed
  show "\<exists>outs. foldE (\<lambda>st s. foldE (output_step s) st (sg_outputs s)) ([], []) sigs = Inr outs \<and> slots = snd outs"
    using o slots by blast
qed

lemma output_step_Inr:
  assumes "output_step s st out = Inr st'"
  obtains key where "output_key out = Inr key" and "key \<notin> set (keys (fst st))"
    and "st' = (AList.update key (sg_name s) (fst st), snd st @ [so_id out])"
    and "\<And>algorithm base k. sg_kind s = Declarative algorithm base k \<Longrightarrow> \<not> output_conflicts out (signature_reads s)"
proof -
  obtain key where k: "output_key out = Inr key" using assms by (auto simp: output_step_def bindE_Inr_iff)
  have new: "map_of (fst st) key = None" using assms k by (cases "map_of (fst st) key") (auto simp: output_step_def)
  show ?thesis
  proof (rule that [OF k])
    show "key \<notin> set (keys (fst st))" using new by (simp add: map_of_eq_None_iff)
  qed (use assms k new in \<open>auto simp: output_step_def split: signature_kind.splits if_splits\<close>)
qed

lemma outputs_steps:
  assumes "foldE (output_step s) st outs = Inr st'"
  shows "\<exists>ks. list_all2 (\<lambda>out k. output_key out = Inr k) outs ks \<and> keys (fst st') = keys (fst st) @ ks \<and>
    snd st' = snd st @ map so_id outs \<and> (distinct (keys (fst st)) \<longrightarrow> distinct (keys (fst st'))) \<and>
    (\<forall>algorithm base k. sg_kind s = Declarative algorithm base k \<longrightarrow> (\<forall>out \<in> set outs. \<not> output_conflicts out (signature_reads s)))"
  using assms
proof (induction outs arbitrary: st)
  case (Cons out outs)
  then obtain st1 where 1: "output_step s st out = Inr st1" "foldE (output_step s) st1 outs = Inr st'"
    by (auto simp: bindE_Inr_iff)
  from 1(1) obtain key where k: "output_key out = Inr key" "key \<notin> set (keys (fst st))"
    "st1 = (AList.update key (sg_name s) (fst st), snd st @ [so_id out])"
    "\<And>algorithm base k. sg_kind s = Declarative algorithm base k \<Longrightarrow> \<not> output_conflicts out (signature_reads s)"
    by (rule output_step_Inr) blast
  have keys1: "keys (fst st1) = keys (fst st) @ [key]" using k(2) by (simp add: k(3) keys_update_absent)
  from Cons.IH [OF 1(2)] obtain ks where ks: "list_all2 (\<lambda>out k. output_key out = Inr k) outs ks"
    "keys (fst st') = keys (fst st1) @ ks" "snd st' = snd st1 @ map so_id outs"
    "distinct (keys (fst st1)) \<longrightarrow> distinct (keys (fst st'))"
    "\<forall>algorithm base k. sg_kind s = Declarative algorithm base k \<longrightarrow> (\<forall>out \<in> set outs. \<not> output_conflicts out (signature_reads s))"
    by blast
  show ?case
    by (rule exI [of _ "key # ks"]) (use ks k keys1 in auto)
qed (auto intro: exI [of _ "[]"])

lemma all_outputs_steps:
  assumes "foldE (\<lambda>st s. foldE (output_step s) st (sg_outputs s)) st sigs = Inr st'"
  shows "\<exists>ks. list_all2 (\<lambda>out k. output_key out = Inr k) (concat (map sg_outputs sigs)) ks \<and>
    keys (fst st') = keys (fst st) @ ks \<and> snd st' = snd st @ map so_id (concat (map sg_outputs sigs)) \<and>
    (distinct (keys (fst st)) \<longrightarrow> distinct (keys (fst st'))) \<and>
    (\<forall>s \<in> set sigs. \<forall>algorithm base k. sg_kind s = Declarative algorithm base k \<longrightarrow>
      (\<forall>out \<in> set (sg_outputs s). \<not> output_conflicts out (signature_reads s)))"
  using assms
proof (induction sigs arbitrary: st)
  case (Cons s sigs)
  then obtain st1 where 1: "foldE (output_step s) st (sg_outputs s) = Inr st1"
    "foldE (\<lambda>st s. foldE (output_step s) st (sg_outputs s)) st1 sigs = Inr st'" by (auto simp: bindE_Inr_iff)
  from outputs_steps [OF 1(1)] obtain ks1 where k1: "list_all2 (\<lambda>out k. output_key out = Inr k) (sg_outputs s) ks1"
    "keys (fst st1) = keys (fst st) @ ks1" "snd st1 = snd st @ map so_id (sg_outputs s)"
    "distinct (keys (fst st)) \<longrightarrow> distinct (keys (fst st1))"
    "\<forall>algorithm base k. sg_kind s = Declarative algorithm base k \<longrightarrow> (\<forall>out \<in> set (sg_outputs s). \<not> output_conflicts out (signature_reads s))"
    by blast
  from Cons.IH [OF 1(2)] obtain ks2 where k2: "list_all2 (\<lambda>out k. output_key out = Inr k) (concat (map sg_outputs sigs)) ks2"
    "keys (fst st') = keys (fst st1) @ ks2" "snd st' = snd st1 @ map so_id (concat (map sg_outputs sigs))"
    "distinct (keys (fst st1)) \<longrightarrow> distinct (keys (fst st'))"
    "\<forall>s \<in> set sigs. \<forall>algorithm base k. sg_kind s = Declarative algorithm base k \<longrightarrow>
      (\<forall>out \<in> set (sg_outputs s). \<not> output_conflicts out (signature_reads s))"
    by blast
  show ?case
    by (rule exI [of _ "ks1 @ ks2"]) (use k1 k2 in \<open>auto intro: list_all2_appendI\<close>)
qed (auto intro: exI [of _ "[]"])

lemma compile_signatures_slots:
  "compile_signatures ord sigs = Inr (order, slots) \<Longrightarrow> signatures_ok sigs \<Longrightarrow>
     slots = map so_id (concat (map sg_outputs sigs))"
  using compile_signatures_Inr(3) all_outputs_steps by fastforce

text \<open>
  C23. A compiled set of signatures is signed in an order in which a signature comes after those it
  reads, every signature once; no two outputs of the set have the same place in the request, and each
  of them is reserved. Of the declarative signatures, none has an output that the compiler's own
  check relates to what its base reads: a header, cookie or body output of a read name or document,
  a query output where the query or the target is read. That check is all the compiler does: it does
  not see that an output into the body changes a Content-Length that is read
  (\<open>content_length_conflict_unseen\<close>), and a custom signature, whose reads are not compared with
  its outputs, may write what it reads.
\<close>

theorem compile_signatures_sound:
  assumes "compile_signatures ord sigs = Inr (order, slots)" and "signatures_ok sigs"
  shows "mset order = mset sigs \<and>
    (\<forall>s \<in> set sigs. \<forall>i. Previous i \<in> set (signature_reads s) \<longrightarrow>
      (\<exists>t \<in> set sigs. sg_identity t = i \<and> before (map sg_id order) (sg_id t) (sg_id s))) \<and>
    slots = map so_id (concat (map sg_outputs sigs)) \<and>
    (\<exists>places. list_all2 (\<lambda>out p. output_key out = Inr p) (concat (map sg_outputs sigs)) places \<and> distinct places) \<and>
    (\<forall>s \<in> set sigs. \<forall>algorithm base k. sg_kind s = Declarative algorithm base k \<longrightarrow>
      (\<forall>out \<in> set (sg_outputs s). \<not> output_conflicts out (reads base)))"
proof -
  note c = compile_signatures_Inr [OF assms]
  obtain outs where o: "foldE (\<lambda>st s. foldE (output_step s) st (sg_outputs s)) ([], []) sigs = Inr outs" "slots = snd outs"
    using c(3) by blast
  from all_outputs_steps [OF o(1)] obtain ks where
    "list_all2 (\<lambda>out k. output_key out = Inr k) (concat (map sg_outputs sigs)) ks" "keys (fst outs) = ks"
    "snd outs = map so_id (concat (map sg_outputs sigs))" "distinct (keys (fst outs))"
    "\<forall>s \<in> set sigs. \<forall>algorithm base k. sg_kind s = Declarative algorithm base k \<longrightarrow>
      (\<forall>out \<in> set (sg_outputs s). \<not> output_conflicts out (signature_reads s))" by auto
  then show ?thesis using c(1,2) o(2) by (auto simp: signature_reads_def)
qed

section \<open>What a signature covers\<close>

lemma kept_header:
  assumes "apply_output kit r out v = Inr r'" and "mirrors r" and "f \<in> set (pr_headers r)"
    and "lower (hf_name f) \<notin> {''cookie'', ''content-length''}"
  shows "f \<in> set (pr_headers r')"
proof -
  obtain view where "pr_view r = Some view" using assms(2) by (auto simp: mirrors_def split: option.splits)
  then show ?thesis
    using assms
    by (cases "so_location out") (auto simp: apply_output_def bindE_Inr_iff Let_def without_header_def insert_at_set)
qed

lemma written_header:
  assumes "apply_output kit r out v = Inr r'" and "mirrors r" and "so_location out = HeaderL"
  shows "secret_header (so_name out) v \<in> set (pr_headers r')"
  using assms
  by (auto simp: mirrors_def apply_output_def bindE_Inr_iff ascii_bytes_def insert_at_set split: option.splits if_splits)

definition lasting :: "sig_output \<Rightarrow> bool" where
  "lasting out \<longleftrightarrow> so_location out = HeaderL \<and> lower (so_name out) \<notin> {''cookie'', ''content-length''}"

lemma fill_carries:
  assumes "foldE (fill_step kit) (r, res) outs = Inr (r', res')" and "mirrors r"
    and "(out, v) \<in> set outs" and "lasting out"
  shows "secret_header (so_name out) v \<in> set (pr_headers r')"
proof -
  obtain xs ys where outs: "outs = xs @ (out, v) # ys" using assms(3) split_list by metis
  obtain r1 res1 r2 res2 where run: "foldE (fill_step kit) (r, res) xs = Inr (r1, res1)"
    "apply_output kit r1 out v = Inr r2" "foldE (fill_step kit) (r2, res2) ys = Inr (r', res')"
    using assms(1) unfolding outs by (auto simp: foldE_append bindE_Inr_iff fill_step_Inr)
  have r1: "mirrors r1" by (rule fill_invariant [where P = mirrors, OF run(1) assms(2)]) (use apply_output_mirrors in blast)
  have "mirrors r2 \<and> secret_header (so_name out) v \<in> set (pr_headers r2)"
    using apply_output_mirrors [OF run(2) r1] written_header [OF run(2) r1] assms(4) by (simp add: lasting_def)
  then have "mirrors r' \<and> secret_header (so_name out) v \<in> set (pr_headers r')"
  proof (rule fill_invariant [OF run(3), where P = "\<lambda>q. mirrors q \<and> secret_header (so_name out) v \<in> set (pr_headers q)"])
    show "mirrors q' \<and> secret_header (so_name out) v \<in> set (pr_headers q')"
      if "mirrors q \<and> secret_header (so_name out) v \<in> set (pr_headers q)" "apply_output kit q o2 x = Inr q'" for q o2 x q'
      using that apply_output_mirrors kept_header assms(4) by (auto simp: lasting_def secret_header_def)
  qed
  then show ?thesis by simp
qed

definition keeps :: "sig_read list \<Rightarrow> request_view \<Rightarrow> prepared_request \<Rightarrow> bool" where
  "keeps rs v r \<longleftrightarrow> mirrors r \<and> agree (set rs) v (the (pr_view r))"

lemma apply_keeps:
  assumes "apply_output kit r out v = Inr r'" and "keeps rs w r" and "unread out rs"
  shows "keeps rs w r'"
  using assms apply_output_mirrors [OF assms(1)] apply_agree [OF assms(1) _ assms(3)] agree_trans
  unfolding keeps_def by blast

lemma stage_count:
  "foldE (sign_step kit key_of) (req, completed, n) sigs = Inr (req', completed', n') \<Longrightarrow> n' = n + length sigs"
proof (induction sigs arbitrary: req completed n)
  case (Cons s sigs)
  obtain r res where req: "req = (r, res)" by fastforce
  from Cons.prems obtain st where st: "sign_step kit key_of (req, completed, n) s = Inr st"
    "foldE (sign_step kit key_of) st sigs = Inr (req', completed', n')" by (auto simp: bindE_Inr_iff)
  from st(1) [unfolded req] obtain req2 completed2 where "st = (req2, completed2, Suc n)" by (rule sign_step_Inr)
  then show ?case using Cons.IH st(2) by fastforce
qed simp


section \<open>What a signature does not cover\<close>

text \<open>A signed JSON body with one signature in a header and one in the body itself.\<close>

definition order_view :: request_view where
  "order_view = \<lparr>rv_method = ''POST'', rv_scheme = ''https'', rv_authority = ''x.io'', rv_path = ''/o'', rv_target = ''/o?a'',
     rv_query = [\<lparr>qr_name = ''a'', qr_value = [], qr_encoded_name = ''a'', qr_encoded_value = []\<rparr>],
     rv_headers = [plain_header ''Content-Length'' ''9''], rv_cookies = [],
     rv_body = \<lparr>bv_content = ''id=1'', bv_media_type = None, bv_json = None,
       bv_form = Some [\<lparr>ff_name = ''id'', ff_value = ''1''\<rparr>], bv_sensitive = False\<rparr>\<rparr>"

definition order_request :: "nat list \<Rightarrow> prepared_request" where
  "order_request reserved = \<lparr>pr_method = ''POST'', pr_scheme = ''https'', pr_authority = ''x.io'', pr_target = ''/o?a'',
     pr_headers = [plain_header ''Content-Length'' ''9''], pr_body = BufferedBody ''id=1'' None, pr_reserved = reserved,
     pr_view = Some order_view\<rparr>"

definition order_kit :: signing_kit where
  "order_kit = \<lparr>sk_hash = (\<lambda>_ _. None), sk_dump = (\<lambda>_ _. Inr []), sk_base64 = id, sk_utf8 = (\<lambda>_. True), sk_int = (\<lambda>_. ''8'')\<rparr>"

definition output_in :: "nat \<Rightarrow> string \<Rightarrow> request_location \<Rightarrow> sig_output" where
  "output_in i name place = \<lparr>so_id = i, so_name = name, so_location = place, so_encoding = RawE, so_position = None, so_pointer = None\<rparr>"

definition signs :: "nat \<Rightarrow> string \<Rightarrow> component \<Rightarrow> sig_output \<Rightarrow> signature" where
  "signs i name base out = \<lparr>sg_id = i, sg_identity = i, sg_name = name, sg_outputs = [out],
     sg_kind = Declarative (\<lambda>v key. v @ key) base 0\<rparr>"

lemmas order_defs = order_view_def order_request_def order_kit_def output_in_def signs_def plain_header_def secret_header_def

text \<open>
  Two signatures that do not name each other are signed in the order of their names, so one that
  writes into the body may come after one that has signed the body.
\<close>

definition body_signature :: signature where
  "body_signature = signs 1 ''a'' (RequestC BodyP) (output_in 1 ''X-Sig'' HeaderL)"

definition body_writer :: signature where
  "body_writer = signs 2 ''b'' (LiteralC ''t'') (output_in 2 ''mac'' BodyL)"

lemma later_output_breaks_signature:
  "map_sum id (\<lambda>r. (map (\<lambda>f. (hf_name f, hf_value f)) (pr_headers r), pr_body r))
     (bindE (compile_signatures (\<lambda>_ n. n) [body_signature, body_writer])
       (\<lambda>plan. sign_prepared order_kit (\<lambda>_. ''k'') plan (order_request [1, 2]))) =
   Inr ([(''X-Sig'', ''id=1k''), (''Content-Length'', ''8'')], BufferedBody ''id=1&mac=tk'' None)"
  by code_simp

text \<open>A query output renders the query from its pairs: \<open>?a\<close> becomes \<open>?a=\<close>, and a raw query is lost.\<close>

lemma query_output_rewrites_query:
  "map_sum id pr_target (apply_output order_kit (order_request []) (output_in 1 ''s'' QueryL) ''1'') = Inr ''/o?a=&s=1'' \<and>
   map_sum id pr_target (apply_output order_kit
     (order_request []\<lparr>pr_target := ''/o?raw'', pr_view := Some (order_view\<lparr>rv_target := ''/o?raw'', rv_query := []\<rparr>)\<rparr>)
     (output_in 1 ''s'' QueryL) ''1'') = Inr ''/o?s=1''"
  by code_simp

text \<open>A raw header output is not checked for line breaks.\<close>

lemma raw_output_breaks_header:
  "map_sum id (\<lambda>r. list_ex (\<lambda>f. list_ex line_break (hf_value f)) (pr_headers r))
     (apply_output order_kit (order_request []) (output_in 1 ''X-Sig'' HeaderL) (''a'' @ crlf @ ''X: b'')) = Inr True"
  by code_simp

text \<open>The compiler does not see that a body output writes the \<open>Content-Length\<close> its signature reads.\<close>

lemma content_length_conflict_unseen:
  "\<not> output_conflicts (output_in 1 ''mac'' BodyL) (reads (HeaderC ''Content-Length'' None [])) \<and>
   map_sum id (\<lambda>r. map_option (header_values ''Content-Length'') (pr_view r))
     (apply_output order_kit (order_request []) (output_in 1 ''mac'' BodyL) ''t'') = Inr (Some [''8'']) \<and>
   header_values ''Content-Length'' order_view = [''9'']"
  by code_simp

section \<open>Witnesses\<close>

definition chained :: "signature list" where
  "chained = [signs 2 ''b'' (PreviousC 1 ''a'') (output_in 2 ''X-Two'' HeaderL), body_signature]"

lemma chained_ok: "signatures_ok chained" "signatures_ok [body_signature]"
  by code_simp+

theorem compile_signatures_sound_witness:
  "\<exists>order slots. compile_signatures (\<lambda>_ n. n) chained = Inr (order, slots) \<and> mset order = mset chained \<and> slots = [2, 1]"
proof -
  have "(case compile_signatures (\<lambda>_ n. n) chained of Inr _ \<Rightarrow> True | Inl _ \<Rightarrow> False)" by code_simp
  then obtain order slots where c: "compile_signatures (\<lambda>_ n. n) chained = Inr (order, slots)"
    by (auto split: sum.splits)
  have "map so_id (concat (map sg_outputs chained)) = [2, 1]" by code_simp
  with compile_signatures_sound [OF c chained_ok(1)] c show ?thesis by auto
qed

definition sign_search :: "sdk_error + prepared_request" where
  "sign_search = prepare_request text_kit (\<lambda>_. None) (\<lambda>_. ''0'') search_plan search_values True [1] None None False None None"



end
