(* ===== verification/InputFields.thy ===== *)
theory InputFields
  imports Signatures
begin

text \<open>
  The fields of an operation class (\<open>compile/input.py\<close>): each model field with its markers becomes an
  input field with a place in the request, and the fields of one operation are checked together.

  What \<open>typing\<close> shows of an annotation is the datatype \<open>annot\<close>, with aliases unrolled; a marker object
  carries its identity. What a model adapter reports of a class (its fields, whether it is frozen)
  is given with the class.
\<close>

section \<open>Annotations\<close>

text \<open>
  A marker with its name where it has one. \<open>QueryString\<close> has one whether the author gives it or not:
  the default of the field is \<open>''querystring''\<close> (\<open>querystring_name\<close>), so it is never absent. A root
  body descriptor has none.
\<close>

datatype placement =
    QueryPl query_param "scalar_codec option"
  | QueryStringPl string querystring_media
  | PathPl path_param "scalar_codec option"
  | HeaderPl header_param "scalar_codec option"
  | CookiePl header_param "scalar_codec option"
  | JsonFieldPl "string option"
  | FormPl "string option" "scalar_codec option"
  | PartPl "string option"
  | RootPl body_descriptor

datatype marker_kind = PlacementM placement | LibraryM | UnknownM string

text \<open>A marker compares by identity; what it is, is looked up.\<close>

type_synonym markers = "nat \<Rightarrow> marker_kind"

datatype annot =
    ClassT string
  | GenericT string "annot list"
  | UnionT "annot list"
  | AnnotatedT annot "nat list"
  | UnsetT
  | LiteralT "string list"

definition nub :: "'a list \<Rightarrow> 'a list" where
  "nub xs = rev (fold (\<lambda>x seen. if x \<in> set seen then seen else x # seen) xs [])"

text \<open>\<open>Union[members]\<close>: unions within are flattened, repetitions dropped, one member is itself.\<close>

definition union_of :: "annot list \<Rightarrow> annot" where
  "union_of ts =
     (case nub (concat (map (\<lambda>t. case t of UnionT us \<Rightarrow> us | _ \<Rightarrow> [t]) ts)) of [t] \<Rightarrow> t | us \<Rightarrow> UnionT us)"

fun flatten_annotation :: "annot \<Rightarrow> annot \<times> nat list" where
  "flatten_annotation (AnnotatedT t ms) = (case flatten_annotation t of (u, ns) \<Rightarrow> (u, ms @ ns))"
| "flatten_annotation (UnionT ts) =
     (let parts = map flatten_annotation ts in (union_of (map fst parts), concat (map snd parts)))"
| "flatten_annotation t = (t, [])"

definition strip_unset :: "annot \<Rightarrow> sdk_error + annot \<times> bool" where
  "strip_unset t =
     (case t of
        UnionT ts \<Rightarrow>
          if UnsetT \<notin> set ts then Inr (t, False)
          else (case filter (\<lambda>u. u \<noteq> UnsetT) ts of
                  [] \<Rightarrow> Inl (PlanError ''a field cannot be only Unset'')
                | [u] \<Rightarrow> Inr (u, True)
                | us \<Rightarrow> Inr (UnionT us, True))
      | _ \<Rightarrow> Inr (t, False))"

definition unwrap_annotated :: "annot \<Rightarrow> annot" where
  "unwrap_annotated t = (case t of AnnotatedT u _ \<Rightarrow> u | _ \<Rightarrow> t)"

fun contains_array :: "annot \<Rightarrow> bool" where
  "contains_array (AnnotatedT t _) = contains_array t"
| "contains_array (UnionT ts) = list_ex contains_array ts"
| "contains_array (GenericT n _) \<longleftrightarrow> n \<in> {''list'', ''tuple'', ''set'', ''frozenset''}"
| "contains_array _ = False"

section \<open>Input fields\<close>

record model_field =
  mf_name :: string
  mf_wire :: string
  mf_validation :: "string option"
  mf_annotation :: annot
  mf_metadata :: "nat list"
  mf_required :: bool

record input_field =
  if_name :: string
  if_wire :: "string option"
  if_annotation :: annot
  if_required :: bool
  if_location :: "request_location option"
  if_placement :: "placement option"
  if_omittable :: bool

definition is_body_placement :: "placement \<Rightarrow> bool" where
  "is_body_placement p = (case p of JsonFieldPl _ \<Rightarrow> True | FormPl _ _ \<Rightarrow> True | PartPl _ \<Rightarrow> True | _ \<Rightarrow> False)"

definition is_body_field :: "input_field \<Rightarrow> bool" where
  "is_body_field f = (case if_placement f of None \<Rightarrow> False | Some p \<Rightarrow> is_body_placement p)"

definition is_root_body :: "input_field \<Rightarrow> bool" where
  "is_root_body f = (case if_placement f of Some (RootPl _) \<Rightarrow> True | _ \<Rightarrow> False)"

definition is_projection_source :: "input_field \<Rightarrow> bool" where
  "is_projection_source f \<longleftrightarrow> Option.is_none (if_placement f)"

definition placement_location :: "placement \<Rightarrow> request_location" where
  "placement_location p =
     (case p of
        PathPl _ _ \<Rightarrow> PathL | QueryPl _ _ \<Rightarrow> QueryL | QueryStringPl _ _ \<Rightarrow> QueryL
      | HeaderPl _ _ \<Rightarrow> HeaderL | CookiePl _ _ \<Rightarrow> CookieL | _ \<Rightarrow> BodyL)"

definition querystring_name :: string where
  "querystring_name = ''querystring''"

definition marker_name :: "placement \<Rightarrow> string option" where
  "marker_name p =
     (case p of
        QueryPl q _ \<Rightarrow> qy_name q | PathPl q _ \<Rightarrow> pp_name q | HeaderPl h _ \<Rightarrow> hd_name h
      | CookiePl h _ \<Rightarrow> hd_name h | JsonFieldPl n \<Rightarrow> n | FormPl n _ \<Rightarrow> n | PartPl n \<Rightarrow> n
      | QueryStringPl n _ \<Rightarrow> Some n | RootPl _ \<Rightarrow> None)"

definition plan_error :: "string \<Rightarrow> string \<Rightarrow> string \<Rightarrow> sdk_error" where
  "plan_error n operation detail = PlanError (''input field '' @ py_repr n @ '' in '' @ py_repr operation @ '' '' @ detail)"

text \<open>\<open>_wire_name\<close>: the marker or the model names the wire field, never both.\<close>

definition wire_name :: "placement \<Rightarrow> model_field \<Rightarrow> string \<Rightarrow> sdk_error + string" where
  "wire_name p mf operation =
     (let n = mf_name mf; w = mf_wire mf in
      if marker_name p = Some [] then Inl (PlanError (''invalid wire name for input field '' @ py_repr n))
      else if w = n \<and> mf_validation mf \<noteq> None \<and> mf_validation mf \<noteq> Some n
      then Inl (plan_error n operation ''has an alias that will not reach the wire'')
      else case marker_name p of
             None \<Rightarrow> Inr w
           | Some m \<Rightarrow>
               if w \<noteq> n
               then Inl (plan_error n operation (''names its wire field twice: model says '' @ py_repr w @
                      '', marker says '' @ py_repr m @ ''; keep one''))
               else Inr m)"

definition normalize_placement :: "placement \<Rightarrow> string \<Rightarrow> placement" where
  "normalize_placement p w =
     (case p of
        QueryPl q c \<Rightarrow> QueryPl (q\<lparr>qy_name := Some w\<rparr>) c
      | PathPl q c \<Rightarrow> PathPl (q\<lparr>pp_name := Some w\<rparr>) c
      | HeaderPl h c \<Rightarrow> HeaderPl (h\<lparr>hd_name := Some w\<rparr>) c
      | CookiePl h c \<Rightarrow> CookiePl (h\<lparr>hd_name := Some w\<rparr>) c
      | JsonFieldPl _ \<Rightarrow> JsonFieldPl (Some w)
      | FormPl _ c \<Rightarrow> FormPl (Some w) c
      | PartPl _ \<Rightarrow> PartPl (Some w)
      | _ \<Rightarrow> p)"

definition validate_query_cardinality :: "annot \<Rightarrow> placement \<Rightarrow> string \<Rightarrow> string \<Rightarrow> sdk_error + unit" where
  "validate_query_cardinality t p n operation =
     (case p of
        QueryPl q codec \<Rightarrow>
          if qy_style q = FormStyle \<and> qy_explode q \<and> Option.is_none codec \<and> contains_array t
          then Inl (PlanError (''query input '' @ py_repr n @ '' in '' @ py_repr operation @
                 '' would repeat wire name; use explode=False or an explicit single-value scalar codec''))
          else Inr ()
      | _ \<Rightarrow> Inr ())"

definition placements_in :: "markers \<Rightarrow> nat list \<Rightarrow> placement list" where
  "placements_in kinds ms = concat (map (\<lambda>i. case kinds i of PlacementM p \<Rightarrow> [p] | _ \<Rightarrow> []) ms)"

definition unknown_in :: "markers \<Rightarrow> nat list \<Rightarrow> string list" where
  "unknown_in kinds ms = concat (map (\<lambda>i. case kinds i of UnknownM n \<Rightarrow> [n] | _ \<Rightarrow> []) ms)"

text \<open>\<open>_input_field\<close>.\<close>

definition placed_field :: "model_field \<Rightarrow> annot \<Rightarrow> bool \<Rightarrow> placement \<Rightarrow> string \<Rightarrow> sdk_error + input_field" where
  "placed_field mf t omittable p operation =
     bindE (wire_name p mf operation) (\<lambda>w.
       let placed = normalize_placement p w in
       bindE (validate_query_cardinality t placed (mf_name mf) operation) (\<lambda>_.
         Inr \<lparr>if_name = mf_name mf, if_wire = Some w, if_annotation = t, if_required = mf_required mf,
              if_location = Some (placement_location p), if_placement = Some placed, if_omittable = omittable\<rparr>))"

definition input_field_of :: "markers \<Rightarrow> model_field \<Rightarrow> string \<Rightarrow> bool \<Rightarrow> sdk_error + input_field" where
  "input_field_of kinds mf operation allow_unplaced =
     (case flatten_annotation (mf_annotation mf) of (raw, extra) \<Rightarrow>
        let metadata = nub (mf_metadata mf @ extra) in
        bindE (strip_unset raw) (\<lambda>(t, omittable).
          if omittable \<and> mf_required mf
          then Inl (plan_error (mf_name mf) operation ''is Omittable but has no default; give it UNSET'')
          else if unknown_in kinds metadata \<noteq> []
          then Inl (plan_error (mf_name mf) operation (''has unknown markers: '' @ join '', '' (unknown_in kinds metadata)))
          else case placements_in kinds metadata of
                 [p] \<Rightarrow> placed_field mf t omittable p operation
               | [] \<Rightarrow>
                   if allow_unplaced
                   then Inr \<lparr>if_name = mf_name mf, if_wire = None, if_annotation = t, if_required = mf_required mf,
                             if_location = None, if_placement = None, if_omittable = omittable\<rparr>
                   else Inl (plan_error (mf_name mf) operation ''has no placement'')
               | _ \<Rightarrow> Inl (plan_error (mf_name mf) operation ''has multiple placements'')))"

section \<open>The fields of one operation together\<close>

record query_model =
  qm_target :: string
  qm_using :: "nat option"

record body_projection =
  bp_target :: string
  bp_source :: "string option"
  bp_encoding :: body_descriptor
  bp_arity :: nat

type_synonym models = "string \<Rightarrow> model_field list option"

datatype class_base = PydanticBase | OperationBase string | OtherBase

record operation_class =
  oc_name :: string
  oc_typed_dict :: bool
  oc_fields :: "model_field list option"
  oc_bases :: "class_base list"
  oc_frozen :: "bool option"

definition location_text :: "request_location \<Rightarrow> string" where
  "location_text l =
     (case l of PathL \<Rightarrow> ''path'' | QueryL \<Rightarrow> ''query'' | HeaderL \<Rightarrow> ''header'' | CookieL \<Rightarrow> ''cookie'' | BodyL \<Rightarrow> ''body'')"

text \<open>Header names are compared without case.\<close>

definition canonical :: "request_location \<Rightarrow> string \<Rightarrow> request_location \<times> string" where
  "canonical l n = (l, if l = HeaderL then lower n else n)"

definition destination :: "input_field \<Rightarrow> (request_location \<times> string) option" where
  "destination f = (case (if_location f, if_wire f) of (Some l, Some w) \<Rightarrow> Some (canonical l w) | _ \<Rightarrow> None)"

definition identity_step ::
  "string \<Rightarrow> (request_location \<times> string) list \<Rightarrow> input_field \<Rightarrow> sdk_error + (request_location \<times> string) list" where
  "identity_step operation seen f =
     (case destination f of
        None \<Rightarrow> Inr seen
      | Some d \<Rightarrow>
          if d \<in> set seen
          then Inl (PlanError (''duplicate '' @ location_text (fst d) @ '' input wire name '' @
                 py_repr (case if_wire f of Some w \<Rightarrow> w | None \<Rightarrow> []) @ '' in '' @ py_repr operation))
          else Inr (d # seen))"

definition validate_base_order :: "operation_class \<Rightarrow> sdk_error + unit" where
  "validate_base_order oc =
     (let before = takeWhile (\<lambda>b. b \<noteq> PydanticBase) (oc_bases oc) in
      if PydanticBase \<notin> set (oc_bases oc) then Inr ()
      else case find (\<lambda>b. case b of OperationBase _ \<Rightarrow> True | _ \<Rightarrow> False) before of
             Some (OperationBase n) \<Rightarrow>
               Inl (PlanError (''operation class '' @ oc_name oc @ '' must list BaseModel before '' @ n))
           | _ \<Rightarrow> Inr ())"

definition field_kind :: "placement \<Rightarrow> nat" where
  "field_kind p = (case p of JsonFieldPl _ \<Rightarrow> 0 | FormPl _ _ \<Rightarrow> 1 | PartPl _ \<Rightarrow> 2 | _ \<Rightarrow> 3)"

definition is_querystring :: "input_field \<Rightarrow> bool" where
  "is_querystring f = (case if_placement f of Some (QueryStringPl _ _) \<Rightarrow> True | _ \<Rightarrow> False)"

definition validate_body :: "input_field list \<Rightarrow> bool \<Rightarrow> string \<Rightarrow> sdk_error + unit" where
  "validate_body fs projected operation =
     (let flat = filter is_body_field fs; roots = filter is_root_body fs;
          some_root = list_ex is_root_body fs; some_flat = list_ex is_body_field fs;
          kinds = nub (concat (map (\<lambda>f. case if_placement f of Some p \<Rightarrow> [field_kind p] | None \<Rightarrow> []) flat));
          refuse = (\<lambda>m. Inl (PlanError (''operation '' @ py_repr operation @ '' '' @ m))) in
      if length roots > 1 then refuse ''declares multiple root request bodies''
      else if some_root \<and> some_flat then refuse ''mixes a root body with body fields''
      else if projected \<and> (some_root \<or> some_flat) then refuse ''mixes a body projection with flat or root body fields''
      else if length kinds > 1 then refuse ''mixes incompatible body field codecs''
      else if list_ex is_querystring fs \<and> list_ex (\<lambda>f. if_location f = Some QueryL \<and> \<not> is_querystring f) fs
      then refuse ''mixes QueryString with query fields''
      else Inr ())"

text \<open>\<open>_PATH_EXPRESSION.findall\<close>: braces around at least one character that is no brace.\<close>

definition not_brace :: "char \<Rightarrow> bool" where
  "not_brace c \<longleftrightarrow> c \<noteq> CHR ''{'' \<and> c \<noteq> CHR ''}''"

function path_expressions :: "string \<Rightarrow> string list" where
  "path_expressions [] = []"
| "path_expressions (c # cs) =
     (let name = takeWhile not_brace cs; after = dropWhile not_brace cs in
      if c = CHR ''{'' \<and> name \<noteq> [] \<and> after \<noteq> [] \<and> hd after = CHR ''}''
      then name # path_expressions (tl after) else path_expressions cs)"
  by pat_completeness auto
termination
proof (relation "measure length", goal_cases)
  case (2 c cs name after)
  then have "length after \<le> length cs" by (simp add: length_dropWhile_le)
  then show ?case using 2 by (auto simp: less_Suc_eq_le intro: le_trans [OF diff_le_self])
qed auto

definition path_names :: "input_field list \<Rightarrow> string list" where
  "path_names fs =
     concat (map (\<lambda>f. case (if_location f, if_wire f) of (Some PathL, Some w) \<Rightarrow> [w] | _ \<Rightarrow> []) fs)"

definition validate_path :: "input_field list \<Rightarrow> string \<Rightarrow> string \<Rightarrow> sdk_error + unit" where
  "validate_path fs path operation =
     (let declared = path_names fs; written = path_expressions path;
          missing = filter (\<lambda>n. n \<notin> set declared) (nub written);
          extra = filter (\<lambda>n. n \<notin> set written) (nub declared) in
      if missing = [] \<and> extra = [] then Inr ()
      else Inl (PlanError (''path inputs for operation '' @ py_repr operation @ '' do not match template: '' @
             join '', '' ((if missing = [] then [] else [''missing '' @ join '', '' (map py_repr (sort missing))]) @
                        (if extra = [] then [] else [''unknown '' @ join '', '' (map py_repr (sort extra))])))))"

definition unplaced_names :: "input_field list \<Rightarrow> string list" where
  "unplaced_names fs = map if_name (filter is_projection_source fs)"

definition validate_query_model ::
  "models \<Rightarrow> query_model option \<Rightarrow> input_field list \<Rightarrow> bool \<Rightarrow> string \<Rightarrow> sdk_error + unit" where
  "validate_query_model models q fs projected operation =
     (case q of
        None \<Rightarrow> Inr ()
      | Some qm \<Rightarrow>
          (case models (qm_target qm) of
             None \<Rightarrow> Inl (PlanError (''query model for '' @ py_repr operation @ '' is not a model any configured adapter supports''))
           | Some target \<Rightarrow>
               if qm_using qm \<noteq> None then Inr ()
               else case find (\<lambda>mf. mf_required mf \<and> mf_name mf \<notin> set (unplaced_names fs)) target of
                      Some mf \<Rightarrow> Inl (PlanError (''query model field '' @ py_repr (mf_name mf) @ '' in '' @ py_repr operation @
                                 '' has no default and no operation field of that name feeds it''))
                    | None \<Rightarrow>
                        if projected then Inr ()
                        else case sort (filter (\<lambda>n. n \<notin> mf_name ` set target) (nub (unplaced_names fs))) of
                               [] \<Rightarrow> Inr ()
                             | n # _ \<Rightarrow> Inl (plan_error n operation ''has no placement and is not a field of the query model'')))"

definition source_field_step ::
  "input_field list \<Rightarrow> string \<Rightarrow> unit \<Rightarrow> model_field \<Rightarrow> sdk_error + unit" where
  "source_field_step fs operation u mf =
     (case find (\<lambda>f. is_projection_source f \<and> if_name f = mf_name mf) (rev fs) of
        None \<Rightarrow> Inl (plan_error (mf_name mf) operation ''of the projection source is not present in the public input'')
      | Some f \<Rightarrow>
          bindE (strip_unset (unwrap_annotated (mf_annotation mf))) (\<lambda>(t, _).
            if if_annotation f \<noteq> t
            then Inl (plan_error (mf_name mf) operation ''of the projection source has an incompatible annotation'')
            else if mf_required mf \<and> if_omittable f
            then Inl (plan_error (mf_name mf) operation ''of the projection source has incompatible requiredness'')
            else Inr ()))"

definition validate_projection_source ::
  "models \<Rightarrow> string \<Rightarrow> body_projection option \<Rightarrow> input_field list \<Rightarrow> string \<Rightarrow> sdk_error + unit" where
  "validate_projection_source models class_name projection fs operation =
     (case projection of
        None \<Rightarrow> Inr ()
      | Some bp \<Rightarrow>
          (case bp_source bp of
             None \<Rightarrow> Inr ()
           | Some source \<Rightarrow>
               if source = class_name then Inr ()
               else case models source of
                      None \<Rightarrow> Inl (PlanError (''body projection source for '' @ py_repr operation @
                                 '' is not a model any configured adapter supports''))
                    | Some target \<Rightarrow>
                        (case find (\<lambda>f. is_projection_source f \<longleftrightarrow> if_name f \<notin> mf_name ` set target) fs of
                           Some f \<Rightarrow>
                             Inl (if is_projection_source f then plan_error (if_name f) operation ''has no placement''
                                  else plan_error (if_name f) operation ''of the projection source also declares a placement'')
                         | None \<Rightarrow> foldE (source_field_step fs operation) () target)))"

definition checked_fields :: "operation_class \<Rightarrow> sdk_error + model_field list" where
  "checked_fields oc =
     (case (oc_typed_dict oc, oc_fields oc) of
        (False, Some fs) \<Rightarrow>
          bindE (validate_base_order oc) (\<lambda>_.
            if oc_frozen oc = Some False then Inl (PlanError (''operation class '' @ oc_name oc @ '' must be frozen''))
            else Inr fs)
      | _ \<Rightarrow> Inl (PlanError (''operation class '' @ oc_name oc @ '' is not a model any configured adapter supports'')))"

definition class_field :: "markers \<Rightarrow> operation_class \<Rightarrow> string \<Rightarrow> bool \<Rightarrow> model_field \<Rightarrow> sdk_error + input_field" where
  "class_field kinds oc operation allow_unplaced mf =
     (if mf_name mf = ''options''
      then Inl (PlanError (''operation class '' @ oc_name oc @ '' declares field 'options', which is reserved for CallOptions''))
      else input_field_of kinds mf operation allow_unplaced)"

definition inspect_operation_input ::
  "markers \<Rightarrow> models \<Rightarrow> operation_class \<Rightarrow> string \<Rightarrow> string \<Rightarrow> body_projection option \<Rightarrow> query_model option \<Rightarrow>
     sdk_error + input_field list" where
  "inspect_operation_input kinds models oc operation path projection q =
     bindE (checked_fields oc) (\<lambda>mfs.
     bindE (mapE (class_field kinds oc operation (\<not> Option.is_none projection \<or> \<not> Option.is_none q)) mfs) (\<lambda>fs.
     bindE (foldE (identity_step operation) [] fs) (\<lambda>_.
     bindE (validate_projection_source models (oc_name oc) projection fs operation) (\<lambda>_.
     bindE (validate_query_model models q fs (\<not> Option.is_none projection) operation) (\<lambda>_.
     bindE (validate_body fs (\<not> Option.is_none projection) operation) (\<lambda>_.
     bindE (validate_path fs path operation) (\<lambda>_. Inr fs)))))))"

section \<open>Lemmas\<close>

lemma set_nub [simp]: "set (nub xs) = set xs"
proof -
  have "set (fold (\<lambda>x seen. if x \<in> set seen then seen else x # seen) xs ys) = set xs \<union> set ys" for ys
    by (induction xs arbitrary: ys) auto
  then show ?thesis by (simp add: nub_def)
qed

lemma distinct_nub [simp]: "distinct (nub xs)"
proof -
  have "distinct ys \<Longrightarrow> distinct (fold (\<lambda>x seen. if x \<in> set seen then seen else x # seen) xs ys)" for ys
    by (induction xs arbitrary: ys) auto
  then show ?thesis by (simp add: nub_def)
qed

text \<open>What a field with a place looks like.\<close>

definition placed_ok :: "input_field \<Rightarrow> bool" where
  "placed_ok f \<longleftrightarrow>
     (case if_placement f of
        None \<Rightarrow> if_location f = None \<and> if_wire f = None
      | Some p \<Rightarrow> if_location f = Some (placement_location p) \<and>
          (\<exists>w. if_wire f = Some w \<and> (marker_name p = Some w \<or> (\<exists>d. p = RootPl d))))"

lemma placement_location_normalized [simp]: "placement_location (normalize_placement p w) = placement_location p"
  by (cases p) (simp_all add: normalize_placement_def placement_location_def)

lemma marker_name_normalized:
  "wire_name p mf operation = Inr w \<Longrightarrow>
     marker_name (normalize_placement p w) = Some w \<or> (\<exists>d. normalize_placement p w = RootPl d)"
  by (cases p) (auto simp: normalize_placement_def marker_name_def wire_name_def Let_def split: if_splits)

lemma class_field_ok:
  assumes "class_field kinds oc operation unplaced mf = Inr f"
  shows "if_name f = mf_name mf \<and> mf_name mf \<noteq> ''options'' \<and> if_required f = mf_required mf \<and> placed_ok f"
proof -
  obtain raw extra where flat: "flatten_annotation (mf_annotation mf) = (raw, extra)" by fastforce
  have name: "mf_name mf \<noteq> ''options''" and field: "input_field_of kinds mf operation unplaced = Inr f"
    using assms by (simp_all add: class_field_def split: if_splits)
  obtain t om where t: "strip_unset raw = Inr (t, om)"
    using field flat by (cases "strip_unset raw") (auto simp: input_field_of_def Let_def)
  let ?ms = "nub (mf_metadata mf @ extra)"
  have field: "(case placements_in kinds ?ms of
        [p] \<Rightarrow> placed_field mf t om p operation
      | [] \<Rightarrow>
          if unplaced
          then Inr \<lparr>if_name = mf_name mf, if_wire = None, if_annotation = t, if_required = mf_required mf,
                    if_location = None, if_placement = None, if_omittable = om\<rparr>
          else Inl (plan_error (mf_name mf) operation ''has no placement'')
      | _ \<Rightarrow> Inl (plan_error (mf_name mf) operation ''has multiple placements'')) = Inr f"
    using field flat t by (simp add: input_field_of_def Let_def split: if_splits)
  consider "f = \<lparr>if_name = mf_name mf, if_wire = None, if_annotation = t, if_required = mf_required mf,
            if_location = None, if_placement = None, if_omittable = om\<rparr>"
    | p where "placed_field mf t om p operation = Inr f"
  proof (cases "placements_in kinds ?ms" rule: remdups_adj.cases)
    case 1
    then show ?thesis using field that(1) by (simp split: if_splits)
  next
    case (2 p)
    then show ?thesis using field that(2) by simp
  next
    case (3 p q ps)
    then show ?thesis using field by simp
  qed
  then show ?thesis
  proof cases
    case 1
    then show ?thesis using name by (simp add: placed_ok_def)
  next
    case (2 p)
    then show ?thesis
      using name marker_name_normalized [of p mf operation]
      by (auto simp: placed_field_def bindE_Inr_iff Let_def placed_ok_def)
  qed
qed

lemma identity_steps:
  "foldE (identity_step operation) seen fs = Inr out \<Longrightarrow> distinct seen \<Longrightarrow>
     distinct out \<and> out = rev (map the (filter (\<lambda>d. d \<noteq> None) (map destination fs))) @ seen"
  by (induction fs arbitrary: seen) (auto simp: identity_step_def bindE_Inr_iff split: option.splits if_splits)

text \<open>
  What holds of the fields of an operation: the places in the request are different (headers without
  case), the path parameters are those of the template, and the body is one thing.
\<close>

definition destinations :: "input_field list \<Rightarrow> (request_location \<times> string) list" where
  "destinations fs = map the (filter (\<lambda>d. d \<noteq> None) (map destination fs))"

definition one_body :: "input_field list \<Rightarrow> bool \<Rightarrow> bool" where
  "one_body fs projected \<longleftrightarrow>
     (projected \<longrightarrow> filter is_root_body fs = [] \<and> filter is_body_field fs = []) \<and>
     length (filter is_root_body fs) \<le> 1 \<and>
     (filter is_root_body fs = [] \<or> filter is_body_field fs = []) \<and>
     (\<forall>f \<in> set fs. \<forall>g \<in> set fs. is_body_field f \<and> is_body_field g \<longrightarrow>
        map_option field_kind (if_placement f) = map_option field_kind (if_placement g))"

lemma kinds_agree:
  assumes "length (nub (concat (map (\<lambda>f. case if_placement f of Some p \<Rightarrow> [field_kind p] | None \<Rightarrow> []) (filter is_body_field fs)))) \<le> 1"
    and "f \<in> set fs" "g \<in> set fs" "is_body_field f" "is_body_field g"
  shows "map_option field_kind (if_placement f) = map_option field_kind (if_placement g)"
proof -
  let ?ks = "concat (map (\<lambda>f. case if_placement f of Some p \<Rightarrow> [field_kind p] | None \<Rightarrow> []) (filter is_body_field fs))"
  obtain p q where p: "if_placement f = Some p" "if_placement g = Some q"
    using assms(4,5) by (auto simp: is_body_field_def split: option.splits)
  have "field_kind p \<in> set ?ks" using assms(2,4) p(1) by force
  moreover have "field_kind q \<in> set ?ks" using assms(3,5) p(2) by force
  ultimately have "field_kind p \<in> set (nub ?ks)" "field_kind q \<in> set (nub ?ks)" by simp_all
  then have "field_kind p = field_kind q" using assms(1) by (cases "nub ?ks") auto
  then show ?thesis using p by simp
qed

lemma five_guards:
  "(if a then Inl u else if b then Inl v else if c then Inl w else if d then Inl x else if e then Inl y else Inr z) = Inr z'
     \<longleftrightarrow> \<not> a \<and> \<not> b \<and> \<not> c \<and> \<not> d \<and> \<not> e \<and> z = z'"
  by simp

lemma validate_body_one:
  assumes "validate_body fs projected operation = Inr ()"
  shows "one_body fs projected \<and>
    \<not> (list_ex is_querystring fs \<and> list_ex (\<lambda>f. if_location f = Some QueryL \<and> \<not> is_querystring f) fs)"
proof -
  let ?ks = "concat (map (\<lambda>f. case if_placement f of Some p \<Rightarrow> [field_kind p] | None \<Rightarrow> []) (filter is_body_field fs))"
  have empty: "list_ex P fs \<longleftrightarrow> filter P fs \<noteq> []" for P :: "input_field \<Rightarrow> bool"
    by (auto simp: list_ex_iff filter_empty_conv)
  have "length (nub ?ks) \<le> 1"
    and rest: "\<not> length (filter is_root_body fs) > 1"
      "\<not> (list_ex is_root_body fs \<and> list_ex is_body_field fs)"
      "\<not> (projected \<and> (list_ex is_root_body fs \<or> list_ex is_body_field fs))"
      "\<not> (list_ex is_querystring fs \<and> list_ex (\<lambda>f. if_location f = Some QueryL \<and> \<not> is_querystring f) fs)"
    using assms unfolding validate_body_def Let_def five_guards by (metis not_less)+
  note agree = kinds_agree [OF this(1)]
  have "filter is_root_body fs = [] \<or> filter is_body_field fs = []"
    "projected \<longrightarrow> filter is_root_body fs = [] \<and> filter is_body_field fs = []"
    using rest(2,3) empty by metis+
  moreover have "\<forall>f \<in> set fs. \<forall>g \<in> set fs. is_body_field f \<and> is_body_field g \<longrightarrow>
      map_option field_kind (if_placement f) = map_option field_kind (if_placement g)"
    using agree by blast
  ultimately show ?thesis using rest(1,4) unfolding one_body_def not_less by blast
qed

lemma validate_path_iff:
  "validate_path fs path operation = Inr () \<longleftrightarrow> set (path_names fs) = set (path_expressions path)"
  by (auto simp: validate_path_def Let_def filter_empty_conv)

text \<open>
  C27. The compiled fields of an operation class name every place in the request once (header names
  compared without case); the path fields are exactly the expressions of the path template; there is
  at most one body, a root body, flat fields of one kind or a projection; the fields are those of the
  class, in its order, and each placed field carries its place and a marker of its wire name (a root
  body has no name).
\<close>

theorem inspect_operation_input_sound:
  assumes "inspect_operation_input kinds models oc operation path projection q = Inr fs"
  shows "map if_name fs = map mf_name (the (oc_fields oc)) \<and> list_all placed_ok fs \<and>
    distinct (destinations fs) \<and>
    set (path_names fs) = set (path_expressions path) \<and>
    one_body fs (\<not> Option.is_none projection)"
proof -
  obtain mfs seen where mfs: "checked_fields oc = Inr mfs"
    and fs: "mapE (class_field kinds oc operation (\<not> Option.is_none projection \<or> \<not> Option.is_none q)) mfs = Inr fs"
    and ids: "foldE (identity_step operation) [] fs = Inr seen"
    and body: "validate_body fs (\<not> Option.is_none projection) operation = Inr ()"
    and path: "validate_path fs path operation = Inr ()"
    using assms by (auto simp: inspect_operation_input_def bindE_Inr_iff)
  have all: "list_all2 (\<lambda>mf f. class_field kinds oc operation (\<not> Option.is_none projection \<or> \<not> Option.is_none q) mf = Inr f) mfs fs"
    using fs by (simp add: mapE_Inr_iff)
  have "list_all2 (\<lambda>mf f. if_name f = mf_name mf \<and> placed_ok f) mfs fs"
    by (rule list_all2_mono [OF all]) (use class_field_ok in blast)
  then have "map if_name fs = map mf_name mfs \<and> list_all placed_ok fs" by (induction rule: list_all2_induct) auto
  moreover have "oc_fields oc = Some mfs"
    using mfs by (auto simp: checked_fields_def bindE_Inr_iff split: bool.splits option.splits if_splits)
  moreover have "distinct (destinations fs)"
    using identity_steps [OF ids] by (metis append_Nil2 destinations_def distinct.simps(1) distinct_rev)
  ultimately show ?thesis using validate_body_one [OF body] path validate_path_iff by auto
qed

text \<open>Two fields that are the whole query string have the same name, also where none is given.\<close>

definition querystring_class :: operation_class where
  "querystring_class =
     \<lparr>oc_name = ''Find'', oc_typed_dict = False,
      oc_fields = Some (map (\<lambda>n. \<lparr>mf_name = n, mf_wire = n, mf_validation = None, mf_annotation = ClassT ''str'',
        mf_metadata = [1], mf_required = True\<rparr>) [''first'', ''second'']),
      oc_bases = [OperationBase ''HttpOperation''], oc_frozen = Some True\<rparr>"

lemma second_querystring_refused:
  "map_sum id (\<lambda>_. ()) (inspect_operation_input (\<lambda>_. PlacementM (QueryStringPl querystring_name FormUrlencoded))
     (\<lambda>_. None) querystring_class ''find'' ''/orders'' None None) =
   Inl (PlanError (''duplicate query input wire name '' @ py_repr querystring_name @ '' in '' @ py_repr ''find''))"
  by code_simp

definition order_markers :: markers where
  "order_markers i =
     (if i = 1 then PlacementM (PathPl \<lparr>pp_name = None, pp_style = SimpleStyle, pp_explode = False, pp_reserved = False\<rparr> None)
      else PlacementM (HeaderPl \<lparr>hd_name = Some ''X-Trace'', hd_explode = False\<rparr> None))"

definition order_class :: operation_class where
  "order_class =
     \<lparr>oc_name = ''GetOrder'', oc_typed_dict = False,
      oc_fields = Some
        [\<lparr>mf_name = ''id'', mf_wire = ''id'', mf_validation = None,
          mf_annotation = AnnotatedT (ClassT ''int'') [1],
          mf_metadata = [], mf_required = True\<rparr>,
         \<lparr>mf_name = ''trace'', mf_wire = ''trace'', mf_validation = None,
          mf_annotation = UnionT [AnnotatedT (ClassT ''str'') [2], ClassT ''NoneType''],
          mf_metadata = [], mf_required = False\<rparr>],
      oc_bases = [OperationBase ''HttpOperation''], oc_frozen = Some True\<rparr>"

theorem inspect_operation_input_sound_witness:
  "\<exists>fs. inspect_operation_input order_markers (\<lambda>_. None) order_class ''get'' ''/orders/{id}'' None None = Inr fs \<and>
     map if_name fs = [''id'', ''trace''] \<and> destinations fs = [(PathL, ''id''), (HeaderL, ''x-trace'')] \<and>
     set (path_names fs) = {''id''}"
proof -
  have run: "map_sum id (\<lambda>fs. (destinations fs, path_names fs))
      (inspect_operation_input order_markers (\<lambda>_. None) order_class ''get'' ''/orders/{id}'' None None) =
    Inr ([(PathL, ''id''), (HeaderL, ''x-trace'')], [''id''])"
    by code_simp
  then obtain fs where fs: "inspect_operation_input order_markers (\<lambda>_. None) order_class ''get'' ''/orders/{id}'' None None = Inr fs"
    "destinations fs = [(PathL, ''id''), (HeaderL, ''x-trace'')]" "path_names fs = [''id'']"
    by (cases "inspect_operation_input order_markers (\<lambda>_. None) order_class ''get'' ''/orders/{id}'' None None") auto
  then show ?thesis using inspect_operation_input_sound [OF fs(1)] by (auto simp: order_class_def)
qed

end
