(* ===== verification/Session.thy ===== *)
theory Session
  imports Cookies
begin

text \<open>
  The session lifecycle (\<open>eazy_sdk/auth/session.py\<close>, \<open>auth/lifecycle.py\<close>): one machine that
  loads, validates, refreshes, acquires and saves the session of a user, over any session store.

  A session is a value of type \<open>'s\<close>, credentials of type \<open>'c\<close>; acquiring and refreshing are code
  of the site, functions on the cookie jar and a world of their own. Every operation runs under
  the lifecycle's lock, so it is one function from the state to a result and the state it leaves.
  The store is the pair of operations \<open>ld\<close> and \<open>sv\<close>; the locale \<open>session_store\<close> states what the
  lifecycle expects of them, and \<open>MemorySessionStore\<close> interprets it.
\<close>

section \<open>Errors and the lifecycle graph\<close>

datatype session_error =
    CredentialsRequiredError string
  | SessionValidationError string
  | SessionRevisionError string
  | SessionLifecycleError string
  | SessionConfigurationError string
  | LifecycleCycleError string
  | Raised sdk_error

record lifecycle_node =
  lifecycle_identity :: nat
  node_operation :: string
  node_diagnostic :: string

type_synonym lifecycle_graph = "lifecycle_node list"

definition enter :: "lifecycle_graph \<Rightarrow> lifecycle_node \<Rightarrow> session_error + lifecycle_graph" where
  "enter active node =
     (if list_ex (\<lambda>item. lifecycle_identity item = lifecycle_identity node) active
      then Inl (LifecycleCycleError
             (''lifecycle cycle: '' @ join '' -> '' (map node_diagnostic (active @ [node]))))
      else Inr (active @ [node]))"

section \<open>Keys, revisions, stored sessions\<close>

definition session_key :: "string \<Rightarrow> sdk_error + string" where
  "session_key v =
     (let lowered = lower v in
      if v = [] \<or> sublist ''bearer '' lowered \<or> sublist ''password='' lowered
      then Inl (PyValueError ''session key must be a non-secret identity'')
      else Inr v)"

text \<open>\<open>SessionRevision\<close> refuses a negative value: a natural number.\<close>

record 's stored_session =
  stored_value :: 's
  stored_revision :: nat
  stored_cookies :: "stored_cookie list option"

record 's session_record =
  rec_value :: 's
  rec_key :: string
  rec_revision :: nat

text \<open>\<open>ExpiresAt.__post_init__\<close>, and \<open>_SessionSchema.is_valid\<close> for a session with one such field.\<close>

definition check_leeway :: "int \<Rightarrow> sdk_error + int" where
  "check_leeway leeway =
     (if leeway < 0 then Inl (PyValueError ''expiry leeway cannot be negative'') else Inr leeway)"

text \<open>
  The field of a session model: a time, a time without a zone, or something else. \<open>compile\<close> keeps
  the one marked field, if there is one.
\<close>

datatype moment = Aware int | Naive int | NoMoment

definition schema_compile :: "(string \<times> int) list \<Rightarrow> session_error + (string \<times> int) option" where
  "schema_compile marked =
     (case marked of
        [] \<Rightarrow> Inr None
      | [m] \<Rightarrow> Inr (Some m)
      | _ \<Rightarrow> Inl (SessionConfigurationError ''session model cannot declare multiple ExpiresAt fields''))"

definition schema_is_valid ::
  "(string \<times> int) option \<Rightarrow> ('s \<Rightarrow> string \<Rightarrow> moment) \<Rightarrow> moment \<Rightarrow> 's \<Rightarrow> sdk_error + bool" where
  "schema_is_valid schema fld clock v =
     (case schema of
        None \<Rightarrow> Inr True
      | Some (name, leeway) \<Rightarrow>
          (case (fld v name, clock) of
             (NoMoment, _) \<Rightarrow> Inl (PyTypeError ''ExpiresAt field must contain a datetime'')
           | (Aware t, Aware now) \<Rightarrow> Inr (now + leeway < t)
           | _ \<Rightarrow> Inl (PyTypeError ''ExpiresAt and clock values must be timezone-aware'')))"

section \<open>The lifecycle\<close>

type_synonym 'w world = "jar \<times> 'w"

record ('c, 's, 'w) life_config =
  life_key :: string
  life_id :: nat
  life_name :: string
  life_validate :: "'s \<Rightarrow> 'w \<Rightarrow> sdk_error + bool"
  life_parse :: "'s \<Rightarrow> sdk_error + 's"
  life_credentials :: "'c option"
  life_initial :: "'s option"
  life_acquire :: "('c \<Rightarrow> lifecycle_graph \<Rightarrow> 'w world \<Rightarrow> (sdk_error + 's) \<times> 'w world) option"
  life_refresh :: "('s \<Rightarrow> lifecycle_graph \<Rightarrow> 'w world \<Rightarrow> (sdk_error + 's) \<times> 'w world) option"
  life_clock :: "'w \<Rightarrow> int"
  life_declared :: "cookies_decl option"

record ('st, 'w) life_state =
  life_revision :: nat
  life_seeded :: bool
  life_store :: 'st
  life_jar :: jar
  life_world :: 'w

type_synonym ('s, 'st) load_op = "'st \<Rightarrow> string \<Rightarrow> 's stored_session option"

type_synonym ('s, 'st) save_op =
  "'st \<Rightarrow> string \<Rightarrow> 's \<Rightarrow> nat \<Rightarrow> stored_cookie list option \<Rightarrow> session_error + 'st"

text \<open>\<open>SessionLifecycleConfig.__post_init__\<close>.\<close>

definition check_config :: "('c, 's, 'w) life_config \<Rightarrow> sdk_error + ('c, 's, 'w) life_config" where
  "check_config cfg =
     (if life_credentials cfg \<noteq> None \<and> life_initial cfg \<noteq> None
      then Inl (PyValueError ''credentials and session are mutually exclusive'')
      else Inr cfg)"

text \<open>\<open>_seed\<close>: pour a saved snapshot into the jar, once.\<close>

definition seed :: "('c, 's, 'w) life_config \<Rightarrow> 's stored_session \<Rightarrow> ('st, 'w) life_state \<Rightarrow> ('st, 'w) life_state" where
  "seed cfg stored st =
     (if life_declared cfg = None \<or> life_seeded st then st
      else st\<lparr>life_seeded := True,
              life_jar := (case stored_cookies stored of
                 None \<Rightarrow> life_jar st
               | Some cs \<Rightarrow> load cs (life_clock cfg (life_world st)) (life_jar st))\<rparr>)"

definition missing_cookie :: "('c, 's, 'w) life_config \<Rightarrow> ('st, 'w) life_state \<Rightarrow> string option" where
  "missing_cookie cfg st =
     (case life_declared cfg of
        None \<Rightarrow> None
      | Some d \<Rightarrow> find (\<lambda>name. \<not> has_live name (cd_leeway d) (life_clock cfg (life_world st)) (life_jar st))
                    (cd_required d))"

definition life_valid ::
  "('c, 's, 'w) life_config \<Rightarrow> 's \<Rightarrow> ('st, 'w) life_state \<Rightarrow> session_error + bool" where
  "life_valid cfg v st =
     bindE (map_sum Raised id (life_validate cfg v (life_world st)))
       (\<lambda>ok. Inr (ok \<and> missing_cookie cfg st = None))"

definition refuse_incomplete ::
  "('c, 's, 'w) life_config \<Rightarrow> 's \<Rightarrow> string \<Rightarrow> ('st, 'w) life_state \<Rightarrow> session_error + unit" where
  "refuse_incomplete cfg v what st =
     bindE (map_sum Raised id (life_validate cfg v (life_world st))) (\<lambda>ok.
       if \<not> ok then Inl (SessionValidationError (what @ '' session failed validation''))
       else case missing_cookie cfg st of
         None \<Rightarrow> Inr ()
       | Some name \<Rightarrow> Inl (SessionValidationError
           (what @ '' session failed validation: the exchange finished, and the site did not set a '' @
            ''live cookie '' @ py_repr name)))"

definition life_record :: "('c, 's, 'w) life_config \<Rightarrow> 's \<Rightarrow> nat \<Rightarrow> 's session_record" where
  "life_record cfg v r = \<lparr>rec_value = v, rec_key = life_key cfg, rec_revision = r\<rparr>"

definition life_save ::
  "('s, 'st) save_op \<Rightarrow> ('c, 's, 'w) life_config \<Rightarrow> 's \<Rightarrow> nat \<Rightarrow> ('st, 'w) life_state
     \<Rightarrow> (session_error, unit, ('st, 'w) life_state) run" where
  "life_save sv cfg v r st =
     (let (cookies, st1) = (case life_declared cfg of
            None \<Rightarrow> (None, st)
          | Some _ \<Rightarrow> (case snapshot (life_clock cfg (life_world st)) (life_jar st) of
              (cs, j) \<Rightarrow> (Some cs, st\<lparr>life_jar := j\<rparr>))) in
      case sv (life_store st1) (life_key cfg) v r cookies of
        Inl e \<Rightarrow> (Inl e, st1)
      | Inr saved \<Rightarrow> (Inr (), st1\<lparr>life_store := saved\<rparr>))"

definition save_next ::
  "('s, 'st) save_op \<Rightarrow> ('c, 's, 'w) life_config \<Rightarrow> 's \<Rightarrow> ('st, 'w) life_state
     \<Rightarrow> (session_error, 's session_record, ('st, 'w) life_state) run" where
  "save_next sv cfg v st =
     (let r = Suc (life_revision st) in
      bindS (life_save sv cfg v r (st\<lparr>life_revision := r\<rparr>))
        (\<lambda>_ st1. (Inr (life_record cfg v r), st1)))"

text \<open>An exchange with the site, then \<open>parse\<close> and \<open>_refuse_incomplete\<close> on what it returned.\<close>

definition exchange ::
  "('c, 's, 'w) life_config \<Rightarrow> ('w world \<Rightarrow> (sdk_error + 's) \<times> 'w world) \<Rightarrow> string \<Rightarrow>
     ('st, 'w) life_state \<Rightarrow> (session_error, 's, ('st, 'w) life_state) run" where
  "exchange cfg f what st =
     (case f (life_jar st, life_world st) of
        (res, j, w) \<Rightarrow>
          (let st1 = st\<lparr>life_jar := j, life_world := w\<rparr> in
           (bindE (map_sum Raised id res) (\<lambda>v.
            bindE (map_sum Raised id (life_parse cfg v)) (\<lambda>parsed.
            bindE (refuse_incomplete cfg parsed what st1) (\<lambda>_. Inr parsed))), st1)))"

definition refresh_locked ::
  "('s, 'st) save_op \<Rightarrow> ('c, 's, 'w) life_config \<Rightarrow> 's stored_session \<Rightarrow> lifecycle_graph \<Rightarrow>
     ('st, 'w) life_state \<Rightarrow> (session_error, 's session_record, ('st, 'w) life_state) run" where
  "refresh_locked sv cfg current graph st =
     (case life_refresh cfg of
        None \<Rightarrow> (Inl (SessionLifecycleError ''session refresher is not configured''), st)
      | Some refresher \<Rightarrow>
          bindS (enter graph \<lparr>lifecycle_identity = life_id cfg, node_operation = ''refresh'',
                   node_diagnostic = ''refresh '' @ life_name cfg\<rparr>, st) (\<lambda>child st.
          bindS (exchange cfg (refresher (stored_value current) child) ''refreshed'' st) (\<lambda>parsed st.
          let r = Suc (stored_revision current) in
          bindS (life_save sv cfg parsed r (st\<lparr>life_revision := max (life_revision st) r\<rparr>))
            (\<lambda>_ st1. (Inr (life_record cfg parsed r), st1)))))"

text \<open>\<open>resolve\<close>, from the initial session or the credentials when no stored session answers.\<close>

definition resolve_fresh ::
  "('s, 'st) save_op \<Rightarrow> ('c, 's, 'w) life_config \<Rightarrow> lifecycle_graph \<Rightarrow>
     ('st, 'w) life_state \<Rightarrow> (session_error, 's session_record, ('st, 'w) life_state) run" where
  "resolve_fresh sv cfg child st =
     bindS (case life_initial cfg of
              None \<Rightarrow> Inr None
            | Some initial \<Rightarrow>
                bindE (map_sum Raised id (life_parse cfg initial)) (\<lambda>parsed.
                bindE (life_valid cfg parsed st) (\<lambda>ok. Inr (if ok then Some parsed else None))), st)
       (\<lambda>found st. case found of
          Some parsed \<Rightarrow> save_next sv cfg parsed st
        | None \<Rightarrow>
            (case (life_credentials cfg, life_acquire cfg) of
               (Some credentials, Some acquire) \<Rightarrow>
                 bindS (exchange cfg (acquire credentials child) ''acquired'' st) (save_next sv cfg)
             | _ \<Rightarrow> (Inl (CredentialsRequiredError (''credentials required for '' @ life_name cfg)), st)))"

definition resolve ::
  "('s, 'st) load_op \<Rightarrow> ('s, 'st) save_op \<Rightarrow> ('c, 's, 'w) life_config \<Rightarrow> lifecycle_graph \<Rightarrow> string \<Rightarrow>
     ('st, 'w) life_state \<Rightarrow> (session_error, 's session_record, ('st, 'w) life_state) run" where
  "resolve ld sv cfg parent operation st =
     bindS (enter parent \<lparr>lifecycle_identity = life_id cfg, node_operation = operation,
              node_diagnostic = ''acquire '' @ life_name cfg\<rparr>, st) (\<lambda>child st.
       case ld (life_store st) (life_key cfg) of
         None \<Rightarrow> resolve_fresh sv cfg child st
       | Some stored \<Rightarrow>
           (let st1 = seed cfg stored (st\<lparr>life_revision := max (life_revision st) (stored_revision stored)\<rparr>) in
            bindS (life_valid cfg (stored_value stored) st1, st1) (\<lambda>ok st1.
              if ok then (Inr (life_record cfg (stored_value stored) (stored_revision stored)), st1)
              else if life_refresh cfg \<noteq> None then refresh_locked sv cfg stored parent st1
              else resolve_fresh sv cfg child st1)))"

definition adopt ::
  "('s, 'st) load_op \<Rightarrow> ('s, 'st) save_op \<Rightarrow> ('c, 's, 'w) life_config \<Rightarrow> 's \<Rightarrow>
     ('st, 'w) life_state \<Rightarrow> (session_error, 's session_record, ('st, 'w) life_state) run" where
  "adopt ld sv cfg v st =
     bindS (bindE (map_sum Raised id (life_parse cfg v)) (\<lambda>parsed.
            bindE (refuse_incomplete cfg parsed ''adopted'' st) (\<lambda>_. Inr parsed)), st) (\<lambda>parsed st.
       save_next sv cfg parsed
         (case ld (life_store st) (life_key cfg) of
            None \<Rightarrow> st
          | Some stored \<Rightarrow> st\<lparr>life_revision := max (life_revision st) (stored_revision stored)\<rparr>))"

definition refresh_session ::
  "('s, 'st) save_op \<Rightarrow> ('c, 's, 'w) life_config \<Rightarrow> 's stored_session \<Rightarrow> lifecycle_graph \<Rightarrow>
     ('st, 'w) life_state \<Rightarrow> (session_error, 's session_record, ('st, 'w) life_state) run" where
  "refresh_session sv cfg current graph st = refresh_locked sv cfg current graph st"

definition refresh_revision ::
  "('s, 'st) load_op \<Rightarrow> ('s, 'st) save_op \<Rightarrow> ('c, 's, 'w) life_config \<Rightarrow> nat \<Rightarrow> lifecycle_graph \<Rightarrow>
     ('st, 'w) life_state \<Rightarrow> (session_error, 's session_record, ('st, 'w) life_state) run" where
  "refresh_revision ld sv cfg expected graph st =
     (case ld (life_store st) (life_key cfg) of
        None \<Rightarrow> (Inl (CredentialsRequiredError (''stored session required to refresh '' @ life_name cfg)), st)
      | Some current \<Rightarrow>
          (let st1 = seed cfg current (st\<lparr>life_revision := max (life_revision st) (stored_revision current)\<rparr>) in
           bindS (if expected < stored_revision current then life_valid cfg (stored_value current) st1
                  else Inr False, st1) (\<lambda>newer st1.
             if newer then (Inr (life_record cfg (stored_value current) (stored_revision current)), st1)
             else if stored_revision current < expected
               then (Inl (SessionRevisionError ''stored session revision is older than the selected revision''), st1)
             else refresh_locked sv cfg current graph st1)))"

section \<open>The memory store\<close>

type_synonym 's memory_store = "(string, 's stored_session) dict"

definition memory_load :: "('s, 's memory_store) load_op" where
  "memory_load st k = map_of st k"

definition memory_save :: "('s, 's memory_store) save_op" where
  "memory_save st k v r cookies =
     (if \<exists>current. map_of st k = Some current \<and> r < stored_revision current
      then Inl (SessionRevisionError ''session revision moved backwards'')
      else Inr (AList.update k \<lparr>stored_value = v, stored_revision = r, stored_cookies = cookies\<rparr> st))"

definition memory_invalidate :: "'s memory_store \<Rightarrow> string \<Rightarrow> nat option \<Rightarrow> 's memory_store" where
  "memory_invalidate st k expected =
     (case map_of st k of
        None \<Rightarrow> st
      | Some current \<Rightarrow>
          if expected = None \<or> expected = Some (stored_revision current) then AList.delete k st else st)"

section \<open>The interface: a session store\<close>

text \<open>
  What an operation of the lifecycle may do to a store: after an error it is as it was; after a
  success it holds exactly the session that was returned, and no key has lost a session or gone
  back a revision.
\<close>

definition session_outcome ::
  "('s, 'st) load_op \<Rightarrow> ('c, 's, 'w) life_config \<Rightarrow> 'st \<Rightarrow>
     (session_error, 's session_record, ('st, 'w) life_state) run \<Rightarrow> bool" where
  "session_outcome ld cfg before_store m =
     (case m of
        (Inl _, st') \<Rightarrow> life_store st' = before_store
      | (Inr r, st') \<Rightarrow>
          (\<exists>s. ld (life_store st') (life_key cfg) = Some s \<and> stored_value s = rec_value r \<and>
             stored_revision s = rec_revision r) \<and> rec_key r = life_key cfg \<and>
          (\<forall>k s. ld before_store k = Some s \<longrightarrow>
             (\<exists>s'. ld (life_store st') k = Some s' \<and> stored_revision s \<le> stored_revision s')))"

lemma session_outcome_error [simp]:
  "session_outcome ld cfg b (Inl e, st) \<longleftrightarrow> life_store st = b"
  by (simp add: session_outcome_def)

lemma session_outcome_bind:
  assumes "life_store (snd m) = before_store"
    and "\<And>x st1. m = (Inr x, st1) \<Longrightarrow> life_store st1 = before_store \<Longrightarrow> session_outcome ld cfg before_store (f x st1)"
  shows "session_outcome ld cfg before_store (bindS m f)"
proof (cases m)
  case (Pair r st1)
  then show ?thesis using assms by (cases r) (simp_all add: session_outcome_def)
qed

lemma seed_same [simp]:
  "life_store (seed cfg s st) = life_store st" "life_world (seed cfg s st) = life_world st"
  "life_revision (seed cfg s st) = life_revision st"
  by (simp_all add: seed_def)

lemma exchange_store [simp]: "life_store (snd (exchange cfg f what st)) = life_store st"
  by (simp add: exchange_def Let_def split: prod.split)

text \<open>What a returned session has passed.\<close>

definition accepted :: "('c, 's, 'w) life_config \<Rightarrow> 's \<Rightarrow> ('st, 'w) life_state \<Rightarrow> bool" where
  "accepted cfg v st \<longleftrightarrow>
     (\<exists>j. life_valid cfg v (st\<lparr>life_jar := j\<rparr>) = Inr True \<and>
        (life_jar st = j \<or> life_jar st = snd (snapshot (life_clock cfg (life_world st)) j)))"

definition run_accepts :: "('c, 's, 'w) life_config \<Rightarrow>
    (session_error, 's session_record, ('st, 'w) life_state) run \<Rightarrow> bool" where
  "run_accepts cfg m \<longleftrightarrow>
     (case m of (Inl _, _) \<Rightarrow> True | (Inr r, st') \<Rightarrow> accepted cfg (rec_value r) st')"

lemma life_valid_cong:
  "life_jar a = life_jar b \<Longrightarrow> life_world a = life_world b \<Longrightarrow> life_valid cfg v a = life_valid cfg v b"
  unfolding life_valid_def missing_cookie_def by (cases "life_declared cfg") simp_all

lemma valid_accepted: "life_valid cfg v st = Inr True \<Longrightarrow> accepted cfg v st"
  unfolding accepted_def by (intro exI [of _ "life_jar st"]) simp

lemma run_accepts_error [simp]: "run_accepts cfg (Inl e, st)"
  by (simp add: run_accepts_def)

lemma run_accepts_bind:
  "(\<And>x st1. m = (Inr x, st1) \<Longrightarrow> run_accepts cfg (f x st1)) \<Longrightarrow> run_accepts cfg (bindS m f)"
  by (cases m; cases "fst m") (auto simp: run_accepts_def)

lemma refuse_incomplete_valid:
  "refuse_incomplete cfg v what st = Inr u \<Longrightarrow> life_valid cfg v st = Inr True"
  by (auto simp: refuse_incomplete_def life_valid_def bindE_Inr_iff split: if_splits option.splits)

lemma exchange_accepts:
  assumes "exchange cfg f what st = (Inr v, st')"
  shows "life_valid cfg v st' = Inr True" "life_seeded st' = life_seeded st"
  using assms refuse_incomplete_valid
  by (auto simp: exchange_def Let_def bindE_Inr_iff split: prod.splits)

lemma life_save_accepted:
  assumes "life_save sv cfg w r st = (res, st')" and "life_valid cfg v st = Inr True"
  shows "accepted cfg v st'" "life_seeded st' = life_seeded st"
proof -
  have "life_world st' = life_world st \<and> (life_jar st' = life_jar st \<or>
      life_jar st' = snd (snapshot (life_clock cfg (life_world st)) (life_jar st)))"
    using assms(1) by (auto simp: life_save_def Let_def split: option.splits prod.splits sum.splits)
  moreover have "life_valid cfg v (st'\<lparr>life_jar := life_jar st\<rparr>) = Inr True"
    if "life_world st' = life_world st"
    using assms(2) that life_valid_cong [of "st'\<lparr>life_jar := life_jar st\<rparr>" st cfg v] by simp
  ultimately show "accepted cfg v st'"
    unfolding accepted_def by (intro exI [of _ "life_jar st"]) auto
  show "life_seeded st' = life_seeded st"
    using assms(1) by (auto simp: life_save_def Let_def split: option.splits prod.splits sum.splits)
qed

lemma saved_accepted:
  assumes "life_valid cfg v st = Inr True"
  shows "run_accepts cfg (bindS (life_save sv cfg v r (st\<lparr>life_revision := n\<rparr>))
    (\<lambda>_ st1. (Inr (life_record cfg v r), st1)))"
proof (rule run_accepts_bind)
  fix u st1 assume "life_save sv cfg v r (st\<lparr>life_revision := n\<rparr>) = (Inr u, st1)"
  then have "accepted cfg v st1"
    using life_save_accepted(1) assms life_valid_cong [of "st\<lparr>life_revision := n\<rparr>" st cfg v] by force
  then show "run_accepts cfg (Inr (life_record cfg v r), st1)"
    by (simp add: run_accepts_def life_record_def)
qed

lemma save_next_accepted:
  "life_valid cfg v st = Inr True \<Longrightarrow> run_accepts cfg (save_next sv cfg v st)"
  unfolding save_next_def Let_def by (rule saved_accepted)

lemma refresh_locked_accepted: "run_accepts cfg (refresh_locked sv cfg current graph st)"
  unfolding refresh_locked_def Let_def
  by (auto split: option.split intro!: run_accepts_bind saved_accepted dest: exchange_accepts)

lemma refresh_locked_success:
  assumes "refresh_locked sv cfg current graph st = (Inr r, st')"
  shows "rec_revision r = Suc (stored_revision current)" "life_seeded st' = life_seeded st"
proof -
  obtain f child v st1 u where f: "life_refresh cfg = Some f"
    and ex: "exchange cfg (f (stored_value current) child) ''refreshed'' st = (Inr v, st1)"
    and save: "life_save sv cfg v (Suc (stored_revision current))
        (st1\<lparr>life_revision := max (life_revision st1) (Suc (stored_revision current))\<rparr>) = (Inr u, st')"
    and r: "r = life_record cfg v (Suc (stored_revision current))"
    using assms by (auto simp: refresh_locked_def Let_def bindS_Inr_iff split: option.splits)
  show "rec_revision r = Suc (stored_revision current)" using r by (simp add: life_record_def)
  have "life_seeded st' = life_seeded st1"
    using save by (auto simp: life_save_def Let_def split: option.splits prod.splits sum.splits)
  then show "life_seeded st' = life_seeded st" using exchange_accepts(2) [OF ex] by simp
qed

locale session_store =
  fixes ld :: "('s, 'st) load_op" and sv :: "('s, 'st) save_op"
  assumes load_saved: "sv st k v r c = Inr st' \<Longrightarrow>
      ld st' k = Some \<lparr>stored_value = v, stored_revision = r, stored_cookies = c\<rparr>"
    and load_other: "sv st k v r c = Inr st' \<Longrightarrow> k' \<noteq> k \<Longrightarrow> ld st' k' = ld st k'"
    and save_forward: "sv st k v r c = Inr st' \<Longrightarrow> ld st k = Some s \<Longrightarrow> stored_revision s \<le> r"
begin

lemma life_save_outcome:
  assumes "life_save sv cfg v r st = (res, st')"
  shows "life_revision st' = life_revision st" "life_world st' = life_world st"
    "life_seeded st' = life_seeded st"
    "case res of Inl _ \<Rightarrow> life_store st' = life_store st
     | Inr _ \<Rightarrow> \<exists>c. sv (life_store st) (life_key cfg) v r c = Inr (life_store st')"
  using assms by (auto simp: life_save_def Let_def split: option.splits prod.splits sum.splits)

lemma saved_outcome:
  "session_outcome ld cfg (life_store st)
     (bindS (life_save sv cfg v r (st\<lparr>life_revision := n\<rparr>)) (\<lambda>_ st1. (Inr (life_record cfg v r), st1)))"
proof (cases "life_save sv cfg v r (st\<lparr>life_revision := n\<rparr>)")
  case (Pair res st')
  note spec = life_save_outcome(4) [OF Pair]
  show ?thesis
  proof (cases res)
    case (Inl e)
    then show ?thesis using spec Pair by (simp add: session_outcome_def)
  next
    case (Inr u)
    then obtain c where saved: "sv (life_store st) (life_key cfg) v r c = Inr (life_store st')"
      using spec by auto
    have "\<exists>s'. ld (life_store st') k = Some s' \<and> stored_revision s \<le> stored_revision s'"
      if "ld (life_store st) k = Some s" for k s
      using load_saved [OF saved] load_other [OF saved] save_forward [OF saved] that
      by (cases "k = life_key cfg") auto
    then show ?thesis
      using Pair Inr load_saved [OF saved] by (simp add: session_outcome_def life_record_def)
  qed
qed

lemma save_next_outcome: "session_outcome ld cfg (life_store st) (save_next sv cfg v st)"
  unfolding save_next_def Let_def by (rule saved_outcome)

lemma refresh_locked_outcome:
  fixes cfg :: "('c, 's, 'w) life_config" and st :: "('st, 'w) life_state"
  shows "session_outcome ld cfg (life_store st) (refresh_locked sv cfg current graph st)"
proof (cases "life_refresh cfg")
  case None
  then show ?thesis by (simp add: refresh_locked_def)
next
  case (Some f)
  show ?thesis
    unfolding refresh_locked_def Some option.case Let_def
  proof (rule session_outcome_bind)
    fix child and st1 :: "('st, 'w) life_state" assume st1: "life_store st1 = life_store st"
    show "session_outcome ld cfg (life_store st)
        (bindS (exchange cfg (f (stored_value current) child) ''refreshed'' st1) (\<lambda>parsed st.
          bindS (life_save sv cfg parsed (Suc (stored_revision current))
              (st\<lparr>life_revision := max (life_revision st) (Suc (stored_revision current))\<rparr>))
            (\<lambda>_ st1. (Inr (life_record cfg parsed (Suc (stored_revision current))), st1))))"
    proof (rule session_outcome_bind)
      show "life_store (snd (exchange cfg (f (stored_value current) child) ''refreshed'' st1)) = life_store st"
        using st1 by simp
      fix parsed and st2 :: "('st, 'w) life_state" assume st2: "life_store st2 = life_store st"
      show "session_outcome ld cfg (life_store st)
          (bindS (life_save sv cfg parsed (Suc (stored_revision current))
              (st2\<lparr>life_revision := max (life_revision st2) (Suc (stored_revision current))\<rparr>))
            (\<lambda>_ st1. (Inr (life_record cfg parsed (Suc (stored_revision current))), st1)))"
        unfolding st2 [symmetric] by (rule saved_outcome)
    qed
  qed simp
qed

lemma resolve_fresh_outcome:
  fixes cfg :: "('c, 's, 'w) life_config" and st :: "('st, 'w) life_state"
  shows "session_outcome ld cfg (life_store st) (resolve_fresh sv cfg child st)"
  unfolding resolve_fresh_def
proof (rule session_outcome_bind, simp)
  fix found and st1 :: "('st, 'w) life_state"
  assume st1: "life_store st1 = life_store st"
  show "session_outcome ld cfg (life_store st)
      (case found of Some parsed \<Rightarrow> save_next sv cfg parsed st1
       | None \<Rightarrow> (case (life_credentials cfg, life_acquire cfg) of
           (Some credentials, Some acquire) \<Rightarrow>
             bindS (exchange cfg (acquire credentials child) ''acquired'' st1) (save_next sv cfg)
         | _ \<Rightarrow> (Inl (CredentialsRequiredError (''credentials required for '' @ life_name cfg)), st1)))"
  proof (cases found)
    case (Some parsed)
    then show ?thesis using save_next_outcome [of cfg st1 parsed] st1 by simp
  next
    case None
    have "session_outcome ld cfg (life_store st)
        (bindS (exchange cfg (acquire credentials child) ''acquired'' st1) (save_next sv cfg))"
      for credentials :: 'c and acquire
      by (rule session_outcome_bind) (use st1 save_next_outcome in \<open>simp, metis\<close>)
    then show ?thesis using None st1 by (simp split: option.split)
  qed
qed

lemma loaded_outcome:
  "ld (life_store st) (life_key cfg) = Some s \<Longrightarrow>
     session_outcome ld cfg (life_store st)
       (Inr (life_record cfg (stored_value s) (stored_revision s)), st)"
  by (simp add: session_outcome_def life_record_def)

lemma resolve_outcome:
  fixes cfg :: "('c, 's, 'w) life_config" and st :: "('st, 'w) life_state"
  shows "session_outcome ld cfg (life_store st) (resolve ld sv cfg parent operation st)"
  unfolding resolve_def
proof (rule session_outcome_bind, simp)
  fix child and st1 :: "('st, 'w) life_state"
  assume st1: "life_store st1 = life_store st"
  show "session_outcome ld cfg (life_store st)
      (case ld (life_store st1) (life_key cfg) of None \<Rightarrow> resolve_fresh sv cfg child st1
       | Some stored \<Rightarrow>
          (let st1 = seed cfg stored (st1\<lparr>life_revision := max (life_revision st1) (stored_revision stored)\<rparr>) in
           bindS (life_valid cfg (stored_value stored) st1, st1) (\<lambda>ok st1.
             if ok then (Inr (life_record cfg (stored_value stored) (stored_revision stored)), st1)
             else if life_refresh cfg \<noteq> None then refresh_locked sv cfg stored parent st1
             else resolve_fresh sv cfg child st1)))"
  proof (cases "ld (life_store st1) (life_key cfg)")
    case None
    then show ?thesis using resolve_fresh_outcome [of cfg st1] st1 by simp
  next
    case (Some stored)
    let ?st = "seed cfg stored (st1\<lparr>life_revision := max (life_revision st1) (stored_revision stored)\<rparr>)"
    have same: "life_store ?st = life_store st" using st1 by simp
    show ?thesis
      unfolding Some option.case Let_def
      by (rule session_outcome_bind)
        (use same Some st1 loaded_outcome [of ?st cfg stored] refresh_locked_outcome [of cfg ?st]
           resolve_fresh_outcome [of cfg ?st] in auto)
  qed
qed

lemma adopt_outcome:
  fixes cfg :: "('c, 's, 'w) life_config" and st :: "('st, 'w) life_state"
  shows "session_outcome ld cfg (life_store st) (adopt ld sv cfg v st)"
  unfolding adopt_def
proof (rule session_outcome_bind, simp)
  fix parsed and st1 :: "('st, 'w) life_state"
  assume st1: "life_store st1 = life_store st"
  let ?st = "case ld (life_store st1) (life_key cfg) of None \<Rightarrow> st1
     | Some stored \<Rightarrow> st1\<lparr>life_revision := max (life_revision st1) (stored_revision stored)\<rparr>"
  have "life_store ?st = life_store st" using st1 by (simp split: option.split)
  then show "session_outcome ld cfg (life_store st) (save_next sv cfg parsed ?st)"
    using save_next_outcome [of cfg ?st parsed] by simp
qed

lemma refresh_revision_outcome:
  "session_outcome ld cfg (life_store st) (refresh_revision ld sv cfg expected graph st)"
proof (cases "ld (life_store st) (life_key cfg)")
  case None
  then show ?thesis by (simp add: refresh_revision_def)
next
  case (Some current)
  let ?st = "seed cfg current (st\<lparr>life_revision := max (life_revision st) (stored_revision current)\<rparr>)"
  have same: "life_store ?st = life_store st" by simp
  show ?thesis
    unfolding refresh_revision_def Some option.case Let_def
    by (rule session_outcome_bind)
      (use same Some loaded_outcome [of ?st cfg current] refresh_locked_outcome [of cfg ?st]
         in auto)
qed

text \<open>
  Two callers that saw the same revision fail refresh it once: the second finds the session the
  first one saved and takes it.
\<close>

lemma refresh_revision_once:
  fixes st :: "('st, 'w) life_state"
  assumes "refresh_revision ld sv cfg expected graph st = (Inr r, st1)"
    and "ld (life_store st) (life_key cfg) = Some cur" and "stored_revision cur = expected"
    and "life_valid cfg (rec_value r) st1 = Inr True"
  shows "\<exists>st2. refresh_revision ld sv cfg expected graph2 st1 = (Inr r, st2) \<and>
    life_world st2 = life_world st1 \<and> life_jar st2 = life_jar st1 \<and> life_store st2 = life_store st1"
proof -
  let ?st = "seed cfg cur (st\<lparr>life_revision := max (life_revision st) (stored_revision cur)\<rparr>)"
  have locked: "refresh_locked sv cfg cur graph ?st = (Inr r, st1)"
    using assms(1-3) by (simp add: refresh_revision_def Let_def)
  have rev: "rec_revision r = Suc expected" and seeded: "life_seeded st1 = life_seeded ?st"
    using refresh_locked_success [OF locked] assms(3) by simp_all
  obtain s where s: "ld (life_store st1) (life_key cfg) = Some s" "stored_value s = rec_value r"
    "stored_revision s = rec_revision r" "rec_key r = life_key cfg"
    using refresh_revision_outcome [of cfg st expected graph] assms(1)
    by (auto simp: session_outcome_def)
  let ?st1 = "st1\<lparr>life_revision := max (life_revision st1) (stored_revision s)\<rparr>"
  have "life_declared cfg = None \<or> life_seeded st1"
    unfolding seeded by (simp add: seed_def)
  then have noop: "seed cfg s ?st1 = ?st1" by (auto simp: seed_def)
  have "life_valid cfg (stored_value s) ?st1 = Inr True"
    using assms(4) s(2) life_valid_cong [of ?st1 st1 cfg] by simp
  then have "refresh_revision ld sv cfg expected graph2 st1 =
      (Inr (life_record cfg (stored_value s) (stored_revision s)), ?st1)"
    using s(1,3) rev noop by (simp add: refresh_revision_def Let_def)
  moreover have "life_record cfg (stored_value s) (stored_revision s) = r"
    using s by (simp add: life_record_def)
  ultimately show ?thesis by simp
qed

end

section \<open>What a returned session has passed\<close>

text \<open>
  A session that came out of an operation was accepted by the validator, with every required
  cookie alive in the jar, or in the jar whose snapshot was saved with it.
\<close>

lemma resolve_fresh_accepted: "run_accepts cfg (resolve_fresh sv cfg child st)"
proof -
  have found: "run_accepts cfg (case found of Some parsed \<Rightarrow> save_next sv cfg parsed st1
       | None \<Rightarrow> (case (life_credentials cfg, life_acquire cfg) of
           (Some credentials, Some acquire) \<Rightarrow>
             bindS (exchange cfg (acquire credentials child) ''acquired'' st1) (save_next sv cfg)
         | _ \<Rightarrow> (Inl (CredentialsRequiredError (''credentials required for '' @ life_name cfg)), st1)))"
    if "case found of None \<Rightarrow> True | Some parsed \<Rightarrow> life_valid cfg parsed st1 = Inr True" for found st1
    using that
    by (auto split: option.split intro!: run_accepts_bind save_next_accepted dest: exchange_accepts)
  show ?thesis
    unfolding resolve_fresh_def
    by (rule run_accepts_bind, rule found)
      (auto simp: bindE_Inr_iff split: option.splits if_splits)
qed

lemma resolve_accepted: "run_accepts cfg (resolve ld sv cfg parent operation st)"
proof -
  have loaded: "run_accepts cfg (bindS (life_valid cfg (stored_value stored) st1, st1) (\<lambda>ok st1.
        if ok then (Inr (life_record cfg (stored_value stored) (stored_revision stored)), st1)
        else if life_refresh cfg \<noteq> None then refresh_locked sv cfg stored parent st1
        else resolve_fresh sv cfg child st1))" for stored st1 child
    by (rule run_accepts_bind)
      (auto simp: run_accepts_def [of _ "(Inr _, _)"] life_record_def
        intro: valid_accepted refresh_locked_accepted resolve_fresh_accepted)
  show ?thesis
    unfolding resolve_def
    by (rule run_accepts_bind) (auto simp: Let_def split: option.split intro: loaded resolve_fresh_accepted)
qed

section \<open>The memory store provides the interface\<close>

interpretation memory: session_store memory_load memory_save
  by unfold_locales (auto simp: memory_load_def memory_save_def split: if_splits)

text \<open>
  C5. Over the memory store every lifecycle operation either fails and leaves the store as it
  was, or returns the session the store then holds, under the lifecycle's key; no stored session
  is lost and no revision goes back.
\<close>

theorem lifecycle_store_consistent:
  "session_outcome memory_load cfg (life_store st) (resolve memory_load memory_save cfg parent operation st) \<and>
   session_outcome memory_load cfg (life_store st) (adopt memory_load memory_save cfg v st) \<and>
   session_outcome memory_load cfg (life_store st) (refresh_session memory_save cfg current graph st) \<and>
   session_outcome memory_load cfg (life_store st)
     (refresh_revision memory_load memory_save cfg expected graph st)"
  unfolding refresh_session_def
  by (intro conjI memory.resolve_outcome memory.adopt_outcome memory.refresh_locked_outcome
      memory.refresh_revision_outcome)

text \<open>
  No operation returns a session that fails validation, or one for which a required cookie
  is not alive in the jar.
\<close>

lemma resolve_returns_accepted:
  assumes "resolve memory_load memory_save cfg parent operation st = (Inr r, st')"
  shows "accepted cfg (rec_value r) st'"
  using resolve_accepted [of cfg memory_load memory_save parent operation st] assms
  by (simp add: run_accepts_def)

text \<open>
  A stored session that is still valid is returned as it is: nothing is acquired, refreshed
  or saved.
\<close>

lemma resolve_reuses_valid:
  assumes "memory_load (life_store st) (life_key cfg) = Some s"
    and "life_id cfg \<notin> lifecycle_identity ` set parent"
    and "life_valid cfg (stored_value s) (seed cfg s st) = Inr True"
  shows "\<exists>st'. resolve memory_load memory_save cfg parent operation st =
      (Inr (life_record cfg (stored_value s) (stored_revision s)), st') \<and>
    life_world st' = life_world st \<and> life_store st' = life_store st"
proof -
  let ?st = "seed cfg s (st\<lparr>life_revision := max (life_revision st) (stored_revision s)\<rparr>)"
  have "\<not> list_ex (\<lambda>item. lifecycle_identity item = life_id cfg) parent"
    using assms(2) by (force simp: list_ex_iff)
  moreover have "life_valid cfg (stored_value s) ?st = Inr True"
  proof -
    have "life_jar ?st = life_jar (seed cfg s st)"
      by (cases "stored_cookies s") (simp_all add: seed_def)
    moreover have "life_world ?st = life_world (seed cfg s st)" by simp
    ultimately show ?thesis using assms(3) life_valid_cong [of ?st "seed cfg s st" cfg] by metis
  qed
  ultimately show ?thesis
    using assms(1) by (simp add: resolve_def enter_def Let_def)
qed

text \<open>
  Callers that saw the same revision fail refresh it once: after the first refresh, the next
  one takes its session and exchanges nothing, as long as that session is valid.
\<close>

lemma refresh_once_per_revision:
  assumes "refresh_revision memory_load memory_save cfg expected graph st = (Inr r, st1)"
    and "memory_load (life_store st) (life_key cfg) = Some cur" and "stored_revision cur = expected"
    and "life_valid cfg (rec_value r) st1 = Inr True"
  shows "\<exists>st2. refresh_revision memory_load memory_save cfg expected graph2 st1 = (Inr r, st2) \<and>
    life_world st2 = life_world st1 \<and> life_jar st2 = life_jar st1 \<and> life_store st2 = life_store st1"
  using memory.refresh_revision_once [OF assms] .

text \<open>A lifecycle that is entered again through its own exchange fails instead of waiting for itself.\<close>

lemma resolve_reentered:
  assumes "life_id cfg \<in> lifecycle_identity ` set parent"
  shows "\<exists>msg. resolve ld sv cfg parent operation st = (Inl (LifecycleCycleError msg), st)"
proof -
  have "list_ex (\<lambda>item. lifecycle_identity item = life_id cfg) parent"
    using assms by (auto simp: list_ex_iff)
  then show ?thesis by (simp add: resolve_def enter_def)
qed

section \<open>A concrete lifecycle\<close>

text \<open>
  Sessions are numbers, valid while the world's clock has not passed them; every exchange moves
  the world on by one and returns a session good for ten more.
\<close>

definition token_config :: "(nat, int, int) life_config" where
  "token_config = \<lparr>life_key = ''session:client'', life_id = 7, life_name = ''session'',
     life_validate = (\<lambda>v now. Inr (now \<le> v)), life_parse = Inr, life_credentials = Some 1,
     life_initial = None, life_acquire = Some (\<lambda>c g (j, w). (Inr (w + 10), j, w + 1)),
     life_refresh = Some (\<lambda>v g (j, w). (Inr (w + 10), j, w + 1)), life_clock = (\<lambda>w. w),
     life_declared = None\<rparr>"

definition token_start :: "(int memory_store, int) life_state" where
  "token_start = \<lparr>life_revision = 0, life_seeded = False, life_store = [], life_jar = empty_jar,
     life_world = 0\<rparr>"

definition token_acquired :: "(int memory_store, int) life_state" where
  "token_acquired = token_start\<lparr>life_revision := 1,
     life_store := [(''session:client'', \<lparr>stored_value = 10, stored_revision = 1, stored_cookies = None\<rparr>)],
     life_world := 1\<rparr>"

definition token_refreshed :: "(int memory_store, int) life_state" where
  "token_refreshed = token_acquired\<lparr>life_revision := 2,
     life_store := [(''session:client'', \<lparr>stored_value = 11, stored_revision = 2, stored_cookies = None\<rparr>)],
     life_world := 2\<rparr>"

lemmas token_simps = token_config_def token_start_def token_acquired_def token_refreshed_def
  resolve_def resolve_fresh_def refresh_revision_def refresh_locked_def enter_def exchange_def
  save_next_def life_save_def life_record_def memory_load_def memory_save_def seed_def
  refuse_incomplete_def missing_cookie_def life_valid_def

lemma token_resolve:
  "resolve memory_load memory_save token_config [] ''op'' token_start =
     (Inr \<lparr>rec_value = 10, rec_key = ''session:client'', rec_revision = 1\<rparr>, token_acquired)"
  by (simp add: token_simps Let_def)

lemma token_refresh:
  "refresh_revision memory_load memory_save token_config 1 [] token_acquired =
     (Inr \<lparr>rec_value = 11, rec_key = ''session:client'', rec_revision = 2\<rparr>, token_refreshed)"
  by (simp add: token_simps Let_def)

lemma resolve_returns_accepted_witness: "accepted token_config 10 token_acquired"
  using resolve_returns_accepted [OF token_resolve] by simp

lemma resolve_reuses_valid_witness:
  "\<exists>st'. resolve memory_load memory_save token_config [] ''op'' token_acquired =
     (Inr \<lparr>rec_value = 10, rec_key = ''session:client'', rec_revision = 1\<rparr>, st') \<and> life_world st' = 1"
proof -
  have "memory_load (life_store token_acquired) (life_key token_config) =
      Some \<lparr>stored_value = 10, stored_revision = 1, stored_cookies = None\<rparr>"
    and "life_valid token_config 10 (seed token_config
      \<lparr>stored_value = 10, stored_revision = 1, stored_cookies = None\<rparr> token_acquired) = Inr True"
    by (simp_all add: token_simps)
  from resolve_reuses_valid [OF this(1), of "[]" "''op''"] this(2)
  obtain st' where "resolve memory_load memory_save token_config [] ''op'' token_acquired =
      (Inr (life_record token_config 10 1), st')" "life_world st' = life_world token_acquired"
    by auto
  moreover have "life_record token_config 10 1 =
      \<lparr>rec_value = 10, rec_key = ''session:client'', rec_revision = 1\<rparr>"
    "life_world token_acquired = 1"
    by (simp_all add: life_record_def token_config_def token_acquired_def)
  ultimately show ?thesis by metis
qed

lemma refresh_once_per_revision_witness:
  "\<exists>st2. refresh_revision memory_load memory_save token_config 1 [] token_refreshed =
     (Inr \<lparr>rec_value = 11, rec_key = ''session:client'', rec_revision = 2\<rparr>, st2) \<and> life_world st2 = 2"
proof -
  have "memory_load (life_store token_acquired) (life_key token_config) =
      Some \<lparr>stored_value = 10, stored_revision = 1, stored_cookies = None\<rparr>"
    and "life_valid token_config 11 token_refreshed = Inr True"
    by (simp_all add: token_simps)
  moreover have "life_world token_refreshed = 2" by (simp add: token_refreshed_def)
  ultimately show ?thesis
    using refresh_once_per_revision [OF token_refresh, of _ "[]"] by fastforce
qed

end
