(* ===== verification/Security.thy ===== *)
theory Security
  imports InputFields Session
begin

text \<open>
  Security schemes, alternatives and placements (\<open>auth/core.py\<close>) and the session model that makes a scheme
  of a class (\<open>auth/session_runtime.py\<close>).

  Schemes and providers compare by identity. A provider is a function of the world that resolves to a
  session value; \<open>str\<close> of a value and base64 are parameters. A datetime of a session is an instant with
  whether it knows its zone.
\<close>

section \<open>Schemes\<close>

datatype session_field = Plain pyval | Secret pyval | Moment bool int

datatype session_value = WholeS pyval | ModelS "(string \<times> session_field) list"

datatype selector =
    IdentitySelector
  | AttributeSelector string
  | BasicSelector

record auth_place =
  ap_location :: request_location
  ap_name :: string
  ap_select :: selector
  ap_prefix :: string
  ap_secret :: bool

text \<open>A placement and its alternatives, in order.\<close>

type_synonym auth_placement = "auth_place \<times> auth_place list"

definition chain_of :: "auth_placement \<Rightarrow> auth_place list" where
  "chain_of p = fst p # snd p"

record auth_scheme =
  sc_id :: nat
  sc_name :: string
  sc_validate :: "session_value \<Rightarrow> sdk_error + session_value"
  sc_placements :: "auth_placement list"

record security_policy =
  sp_alternatives :: "auth_scheme list list"
  sp_optional :: bool

record texts =
  tx_str :: "session_field \<Rightarrow> string"
  tx_base64 :: "string \<Rightarrow> string"

definition non_empty_credential :: "session_value \<Rightarrow> sdk_error + session_value" where
  "non_empty_credential v =
     (case v of WholeS (PStr (c # s)) \<Rightarrow> Inr v | _ \<Rightarrow> Inl (PyTypeError ''credential must be a non-empty string''))"

definition basic_credential :: "session_value \<Rightarrow> sdk_error + session_value" where
  "basic_credential v =
     (case v of
        WholeS (PTuple [PStr _, PStr _]) \<Rightarrow> Inr v
      | _ \<Rightarrow> Inl (PyTypeError ''basic credentials must contain exactly two strings''))"

text \<open>The selectors; a model session is read by attribute.\<close>

definition select :: "texts \<Rightarrow> selector \<Rightarrow> session_value \<Rightarrow> sdk_error + session_field" where
  "select tx sel v =
     (case (sel, v) of
        (IdentitySelector, WholeS x) \<Rightarrow> Inr (Plain x)
      | (AttributeSelector n, ModelS fs) \<Rightarrow>
          (case map_of fs n of Some f \<Rightarrow> Inr f | None \<Rightarrow> Inl (PlanError (''session has no field '' @ py_repr n)))
      | (AttributeSelector n, _) \<Rightarrow> Inl (PlanError (''session has no field '' @ py_repr n))
      | (BasicSelector, WholeS (PTuple [PStr u, PStr p])) \<Rightarrow> Inr (Plain (PStr (tx_base64 tx (u @ '':'' @ p))))
      | _ \<Rightarrow> Inl (PyTypeError ''session value''))"

definition reveal :: "session_field \<Rightarrow> session_field" where
  "reveal f = (case f of Secret v \<Rightarrow> Plain v | _ \<Rightarrow> f)"

definition place_value :: "texts \<Rightarrow> auth_place \<Rightarrow> session_value \<Rightarrow> sdk_error + string" where
  "place_value tx p v = bindE (select tx (ap_select p) v) (\<lambda>f. Inr (ap_prefix p @ tx_str tx (reveal f)))"

definition simple_place :: "request_location \<Rightarrow> string \<Rightarrow> selector \<Rightarrow> string \<Rightarrow> auth_placement" where
  "simple_place l n sel p =
     (\<lparr>ap_location = l, ap_name = n, ap_select = sel, ap_prefix = p, ap_secret = True\<rparr>, [])"

definition bearer_scheme :: "nat \<Rightarrow> string \<Rightarrow> auth_scheme" where
  "bearer_scheme i name =
     \<lparr>sc_id = i, sc_name = name, sc_validate = non_empty_credential,
      sc_placements = [simple_place HeaderL ''Authorization'' IdentitySelector ''Bearer '']\<rparr>"

definition api_key_header :: "nat \<Rightarrow> string \<Rightarrow> string \<Rightarrow> auth_scheme" where
  "api_key_header i name header =
     \<lparr>sc_id = i, sc_name = name, sc_validate = non_empty_credential,
      sc_placements = [simple_place HeaderL header IdentitySelector []]\<rparr>"

definition api_key_query :: "nat \<Rightarrow> string \<Rightarrow> string \<Rightarrow> auth_scheme" where
  "api_key_query i name parameter =
     \<lparr>sc_id = i, sc_name = name, sc_validate = non_empty_credential,
      sc_placements = [simple_place QueryL parameter IdentitySelector []]\<rparr>"

definition basic_scheme :: "nat \<Rightarrow> string \<Rightarrow> auth_scheme" where
  "basic_scheme i name =
     \<lparr>sc_id = i, sc_name = name, sc_validate = basic_credential,
      sc_placements = [simple_place HeaderL ''Authorization'' BasicSelector ''Basic '']\<rparr>"

definition cookie_scheme :: "nat \<Rightarrow> string \<Rightarrow> string \<Rightarrow> auth_scheme" where
  "cookie_scheme i name cookie =
     \<lparr>sc_id = i, sc_name = name, sc_validate = non_empty_credential,
      sc_placements = [simple_place CookieL cookie IdentitySelector []]\<rparr>"

section \<open>Providers\<close>

record auth_execution =
  ae_scheme :: nat
  ae_provider :: nat
  ae_key :: string
  ae_revision :: nat
  ae_alternative :: int

type_synonym resolved = "session_value \<times> auth_execution"

record 'w auth_provider =
  av_identity :: nat
  av_resolve :: "'w \<Rightarrow> (sdk_error, resolved, 'w) run"
  av_can_refresh :: bool
  av_refresh :: "(auth_execution \<Rightarrow> 'w \<Rightarrow> (sdk_error, resolved, 'w) run) option"
  av_adopt :: "(session_value \<Rightarrow> 'w \<Rightarrow> (sdk_error, resolved, 'w) run) option"

type_synonym 'w providers = "(nat, auth_scheme \<times> 'w auth_provider) dict"

definition register_provider ::
  "auth_scheme \<Rightarrow> 'w auth_provider \<Rightarrow> 'w providers \<Rightarrow> sdk_error + 'w providers" where
  "register_provider s p ps =
     (if sc_id s \<in> set (keys ps) then Inl (PlanError (''auth scheme already registered: '' @ sc_name s))
      else Inr (ps @ [(sc_id s, (s, p))]))"

definition provider_of :: "'w providers \<Rightarrow> auth_scheme \<Rightarrow> 'w auth_provider option" where
  "provider_of ps s = map_option snd (map_of ps (sc_id s))"

definition static_provider :: "auth_scheme \<Rightarrow> session_value \<Rightarrow> nat \<Rightarrow> 'w auth_provider" where
  "static_provider s v identity =
     \<lparr>av_identity = identity,
      av_resolve = (\<lambda>w. (map_sum id (\<lambda>x. (x, \<lparr>ae_scheme = sc_id s, ae_provider = identity, ae_key = ''static'',
                                ae_revision = 0, ae_alternative = - 1\<rparr>)) (sc_validate s v), w)),
      av_can_refresh = False, av_refresh = None, av_adopt = None\<rparr>"

definition adopt :: "auth_scheme \<Rightarrow> session_value \<Rightarrow> 'w providers \<Rightarrow> 'w \<Rightarrow> (sdk_error, resolved, 'w) run" where
  "adopt s v ps w =
     (case provider_of ps s of
        None \<Rightarrow> (Inl (PlanError (''auth provider is not configured: '' @ sc_name s)), w)
      | Some p \<Rightarrow>
          (case av_adopt p of
             None \<Rightarrow> (Inl (PlanError (''auth provider cannot adopt sessions: '' @ sc_name s)), w)
           | Some f \<Rightarrow> f v w))"

section \<open>Resolving the security of a call\<close>

text \<open>The slots of a compiled operation, by location.\<close>

type_synonym slot_groups = "request_location \<Rightarrow> (string, value_slot) dict"

fun first_slot :: "slot_groups \<Rightarrow> auth_place list \<Rightarrow> (auth_place \<times> value_slot) option" where
  "first_slot g [] = None"
| "first_slot g (p # ps) =
     (case map_of (g (ap_location p)) (ap_name p) of Some s \<Rightarrow> Some (p, s) | None \<Rightarrow> first_slot g ps)"

definition binding_operation :: "texts \<Rightarrow> slot_groups \<Rightarrow> session_value \<Rightarrow> auth_placement \<Rightarrow> sdk_error + patch_op" where
  "binding_operation tx g v p =
     (case first_slot g (chain_of p) of
        None \<Rightarrow> Inl (PlanError (''auth target is not declared: '' @ location_text (ap_location (fst p)) @ ''.'' @ ap_name (fst p)))
      | Some (place, s) \<Rightarrow> bindE (place_value tx place v) (\<lambda>t. Inr (SetOp s (PStr t) CONFLICT_ERROR)))"

definition binding_operations :: "texts \<Rightarrow> slot_groups \<Rightarrow> auth_scheme \<Rightarrow> session_value \<Rightarrow> sdk_error + patch_op list" where
  "binding_operations tx g s v = mapE (binding_operation tx g v) (sc_placements s)"

fun resolve_schemes ::
  "texts \<Rightarrow> slot_groups \<Rightarrow> 'w providers \<Rightarrow> int \<Rightarrow> auth_scheme list \<Rightarrow> 'w \<Rightarrow>
     (sdk_error, auth_execution list \<times> patch_op list, 'w) run" where
  "resolve_schemes tx g ps i [] w = (Inr ([], []), w)"
| "resolve_schemes tx g ps i (s # ss) w =
     (case provider_of ps s of
        None \<Rightarrow> (Inl (PyError ''AssertionError''), w)
      | Some p \<Rightarrow>
          bindS (av_resolve p w) (\<lambda>(v, e) w.
            case binding_operations tx g s v of
              Inl err \<Rightarrow> (Inl err, w)
            | Inr ops \<Rightarrow>
                bindS (resolve_schemes tx g ps i ss w) (\<lambda>(es, rest) w.
                  (Inr (e\<lparr>ae_alternative := i\<rparr> # es, ops @ rest), w))))"

definition complete :: "'w providers \<Rightarrow> auth_scheme list \<Rightarrow> bool" where
  "complete ps alternative = list_all (\<lambda>s. \<not> Option.is_none (provider_of ps s)) alternative"

fun resolve_alternatives ::
  "texts \<Rightarrow> slot_groups \<Rightarrow> 'w providers \<Rightarrow> bool \<Rightarrow> int \<Rightarrow> auth_scheme list list \<Rightarrow> 'w \<Rightarrow>
     (sdk_error, auth_execution list \<times> patch_op list, 'w) run" where
  "resolve_alternatives tx g ps optional i [] w =
     (if optional then (Inr ([], []), w)
      else (Inl (PlanError ''no complete security alternative is available''), w))"
| "resolve_alternatives tx g ps optional i (a # as) w =
     (if complete ps a then resolve_schemes tx g ps i a w
      else resolve_alternatives tx g ps optional (i + 1) as w)"

definition resolve_security ::
  "texts \<Rightarrow> slot_groups \<Rightarrow> 'w providers \<Rightarrow> security_policy option \<Rightarrow> 'w \<Rightarrow>
     (sdk_error, auth_execution list \<times> patch_op list, 'w) run" where
  "resolve_security tx g ps policy w =
     (case policy of
        None \<Rightarrow> (Inr ([], []), w)
      | Some p \<Rightarrow> resolve_alternatives tx g ps (sp_optional p) 0 (sp_alternatives p) w)"

text \<open>\<open>_refresh_security\<close>: exactly one of the selected sessions can be refreshed.\<close>

definition refresh_callback ::
  "'w providers \<Rightarrow> auth_execution \<Rightarrow> ('w \<Rightarrow> (sdk_error, resolved, 'w) run) option" where
  "refresh_callback ps e =
     (case map_of ps (ae_scheme e) of
        None \<Rightarrow> None
      | Some (_, p) \<Rightarrow> if av_can_refresh p then map_option (\<lambda>f. f e) (av_refresh p) else None)"

definition refresh_callbacks ::
  "'w providers \<Rightarrow> auth_execution list \<Rightarrow> ('w \<Rightarrow> (sdk_error, resolved, 'w) run) list" where
  "refresh_callbacks ps es =
     concat (map (\<lambda>e. case refresh_callback ps e of None \<Rightarrow> [] | Some f \<Rightarrow> [f]) es)"

definition has_refreshable_security :: "auth_execution list \<Rightarrow> 'w providers \<Rightarrow> bool" where
  "has_refreshable_security es ps = list_ex (\<lambda>e. \<not> Option.is_none (refresh_callback ps e)) es"

definition refresh_security :: "auth_execution list \<Rightarrow> 'w providers \<Rightarrow> 'w \<Rightarrow> (sdk_error, resolved, 'w) run" where
  "refresh_security es ps w =
     (case refresh_callbacks ps es of
        [f] \<Rightarrow> f w
      | [] \<Rightarrow> (Inl (PlanError ''selected security alternative has no refreshable session''), w)
      | _ \<Rightarrow> (Inl (PlanError ''cannot unambiguously refresh multiple selected auth sessions''), w))"

section \<open>The session model\<close>

text \<open>\<open>Placed\<close>: one place and the places after it; \<open>A | B\<close> appends.\<close>

record placed =
  pl_location :: request_location
  pl_name :: string
  pl_prefix :: string
  pl_secret :: bool

type_synonym placed_chain = "placed \<times> placed list"

definition new_placed :: "request_location \<Rightarrow> string \<Rightarrow> string \<Rightarrow> bool \<Rightarrow> sdk_error + placed_chain" where
  "new_placed l n prefix_text secret =
     (if n = [] then Inl (PyValueError (''Placed.'' @ location_text l @ ''(...) requires a name''))
      else Inr (\<lparr>pl_location = l, pl_name = n, pl_prefix = prefix_text, pl_secret = secret\<rparr>, []))"

definition placed_or :: "placed_chain \<Rightarrow> placed_chain \<Rightarrow> placed_chain" where
  "placed_or a b = (fst a, snd a @ fst b # snd b)"

definition placed_items :: "placed_chain \<Rightarrow> placed list" where
  "placed_items c = fst c # snd c"

definition placed_destination :: "placed \<Rightarrow> request_location \<times> string" where
  "placed_destination p = canonical (pl_location p) (pl_name p)"

datatype session_marker =
    BearerMk string string
  | PlacedMk placed_chain
  | RefreshMk
  | ExpiresMk int

record session_attr =
  sa_name :: string
  sa_annotation :: annot
  sa_markers :: "session_marker list"

record session_model =
  sm_name :: string
  sm_placements :: "(string \<times> placed_chain) list"
  sm_refresh :: "string option"
  sm_expires :: "(string \<times> int) option"

definition configuration_error :: "string \<Rightarrow> sdk_error" where
  "configuration_error m = PlanError (''SessionConfigurationError: '' @ m)"

text \<open>\<open>_refuse_impossible_placement\<close>; the collections by name.\<close>

fun is_collection :: "annot \<Rightarrow> bool" where
  "is_collection (ClassT n) \<longleftrightarrow> n \<in> {''dict'', ''Mapping'', ''list'', ''tuple'', ''set'', ''frozenset''}"
| "is_collection (GenericT n _) \<longleftrightarrow> n \<in> {''dict'', ''Mapping'', ''list'', ''tuple'', ''set'', ''frozenset''}"
| "is_collection _ = False"

definition placed_collection :: "annot \<Rightarrow> bool" where
  "placed_collection t =
     (case unwrap_annotated t of
        UnionT ts \<Rightarrow> list_ex is_collection ts
      | u \<Rightarrow> is_collection u)"

record marker_state =
  ms_bearer :: "string list"
  ms_placements :: "(string \<times> placed_chain) list"
  ms_refresh :: "string list"
  ms_expires :: "(string \<times> int) list"

definition marker_step ::
  "string \<Rightarrow> session_attr \<Rightarrow> marker_state \<Rightarrow> session_marker \<Rightarrow> sdk_error + marker_state" where
  "marker_step model a st mk =
     (case mk of
        BearerMk header prefix_text \<Rightarrow>
          bindE (new_placed HeaderL header prefix_text True) (\<lambda>c.
            Inr (st\<lparr>ms_bearer := ms_bearer st @ [sa_name a], ms_placements := ms_placements st @ [(sa_name a, c)]\<rparr>))
      | PlacedMk c \<Rightarrow>
          if placed_collection (sa_annotation a)
          then Inl (configuration_error (''Placed.'' @ location_text (pl_location (fst c)) @ ''('' @ py_repr (pl_name (fst c)) @
                 '') on '' @ model @ ''.'' @ sa_name a @ '': one place in the request takes one value, not a collection''))
          else Inr (st\<lparr>ms_placements := ms_placements st @ [(sa_name a, c)]\<rparr>)
      | RefreshMk \<Rightarrow> Inr (st\<lparr>ms_refresh := ms_refresh st @ [sa_name a]\<rparr>)
      | ExpiresMk leeway \<Rightarrow> Inr (st\<lparr>ms_expires := ms_expires st @ [(sa_name a, leeway)]\<rparr>))"

definition attr_step :: "string \<Rightarrow> marker_state \<Rightarrow> session_attr \<Rightarrow> sdk_error + marker_state" where
  "attr_step model st a = foldE (marker_step model a) st (sa_markers a)"

text \<open>\<open>_refuse_colliding_placements\<close>: \<open>taken.setdefault\<close> along all the places of all the chains.\<close>

definition collision_step ::
  "string \<Rightarrow> (request_location \<times> string \<times> string) list \<Rightarrow> string \<times> placed \<Rightarrow>
     sdk_error + (request_location \<times> string \<times> string) list" where
  "collision_step model taken np =
     (let name = fst np; d = placed_destination (snd np) in
      case find (\<lambda>t. (fst t, fst (snd t)) = d) taken of
        None \<Rightarrow> Inr (taken @ [(fst d, snd d, name)])
      | Some (_, _, other) \<Rightarrow>
          if other = name then Inr taken
          else Inl (configuration_error (model @ ''.'' @ other @ '' and '' @ model @ ''.'' @ name @ '' are both placed as '' @
                 location_text (pl_location (snd np)) @ '' '' @ py_repr (pl_name (snd np)) @
                 ''; one place in the request takes one field'')))"

definition all_places :: "(string \<times> placed_chain) list \<Rightarrow> (string \<times> placed) list" where
  "all_places ps = concat (map (\<lambda>(n, c). map (Pair n) (placed_items c)) ps)"

definition compile_session_model :: "string \<Rightarrow> session_attr list \<Rightarrow> sdk_error + session_model" where
  "compile_session_model model as =
     bindE (foldE (attr_step model) \<lparr>ms_bearer = [], ms_placements = [], ms_refresh = [], ms_expires = []\<rparr> as) (\<lambda>st.
       if length (ms_bearer st) > 1
       then Inl (configuration_error ''session model must declare exactly one Bearer field'')
       else bindE (foldE (collision_step model) [] (all_places (ms_placements st))) (\<lambda>_.
         if length (ms_refresh st) > 1
         then Inl (configuration_error ''session model cannot declare multiple RefreshToken fields'')
         else if length (ms_expires st) > 1
         then Inl (configuration_error ''session model cannot declare multiple ExpiresAt fields'')
         else Inr \<lparr>sm_name = model, sm_placements = ms_placements st,
                   sm_refresh = (case ms_refresh st of [] \<Rightarrow> None | n # _ \<Rightarrow> Some n),
                   sm_expires = (case ms_expires st of [] \<Rightarrow> None | e # _ \<Rightarrow> Some e)\<rparr>))"

text \<open>\<open>_SessionModel.from_fields\<close>.\<close>

definition session_from_fields ::
  "string \<Rightarrow> string list \<Rightarrow> string \<Rightarrow> string option \<Rightarrow> string option \<Rightarrow> int \<Rightarrow> sdk_error + session_model" where
  "session_from_fields model names bearer refresh expires leeway =
     (let absent = (\<lambda>role n. Inl (configuration_error (''generated '' @ role @ '' field '' @ py_repr n @
            '' is absent from the session model''))) in
      if bearer \<notin> set names then absent ''Bearer'' bearer
      else case (refresh, expires) of
             (r, e) \<Rightarrow>
               (case (case r of Some n \<Rightarrow> if n \<in> set names then None else Some n | None \<Rightarrow> None) of
                  Some n \<Rightarrow> absent ''RefreshToken'' n
                | None \<Rightarrow>
                    (case (case e of Some n \<Rightarrow> if n \<in> set names then None else Some n | None \<Rightarrow> None) of
                       Some n \<Rightarrow> absent ''ExpiresAt'' n
                     | None \<Rightarrow>
                         Inr \<lparr>sm_name = model,
                              sm_placements = [(bearer, (\<lparr>pl_location = HeaderL, pl_name = ''Authorization'',
                                pl_prefix = ''Bearer '', pl_secret = True\<rparr>, []))],
                              sm_refresh = r, sm_expires = map_option (\<lambda>n. (n, leeway)) e\<rparr>)))"

definition is_empty_field :: "session_field option \<Rightarrow> bool" where
  "is_empty_field f =
     (case map_option reveal f of
        None \<Rightarrow> True
      | Some (Plain v) \<Rightarrow> (case v of PNone \<Rightarrow> True | PStr s \<Rightarrow> s = [] | PDict d \<Rightarrow> d = [] | _ \<Rightarrow> False)
      | Some _ \<Rightarrow> False)"

text \<open>\<open>is_valid\<close> at an instant the clock gives, with whether it knows its zone.\<close>

definition session_valid :: "session_model \<Rightarrow> bool \<times> int \<Rightarrow> (string \<times> session_field) list \<Rightarrow> sdk_error + bool" where
  "session_valid sm now fs =
     (if list_ex (\<lambda>(n, _). is_empty_field (map_of fs n)) (sm_placements sm) then Inr False
      else case sm_expires sm of
             None \<Rightarrow> Inr True
           | Some (n, leeway) \<Rightarrow>
               (case map_of fs n of
                  Some (Moment aware at) \<Rightarrow>
                    if \<not> aware \<or> \<not> fst now then Inl (PyTypeError ''ExpiresAt and clock values must be timezone-aware'')
                    else Inr (at > snd now + leeway)
                | _ \<Rightarrow> Inl (PyTypeError ''ExpiresAt field must contain a datetime'')))"

definition place_of :: "string \<Rightarrow> placed \<Rightarrow> auth_place" where
  "place_of n p =
     \<lparr>ap_location = pl_location p, ap_name = pl_name p, ap_select = AttributeSelector n, ap_prefix = pl_prefix p,
      ap_secret = pl_secret p\<rparr>"

definition session_scheme ::
  "session_model \<Rightarrow> nat \<Rightarrow> string \<Rightarrow> (session_value \<Rightarrow> sdk_error + session_value) \<Rightarrow> auth_scheme" where
  "session_scheme sm i name parse =
     \<lparr>sc_id = i, sc_name = name, sc_validate = parse,
      sc_placements = map (\<lambda>(n, c). (place_of n (fst c), map (place_of n) (snd c))) (sm_placements sm)\<rparr>"

text \<open>What configuring a session checks of the service the author gives.\<close>

record service_method =
  sv_callable :: bool
  sv_async :: bool
  sv_binds :: bool

definition validate_method :: "string \<Rightarrow> string \<Rightarrow> string \<Rightarrow> bool \<Rightarrow> service_method \<Rightarrow> sdk_error + unit" where
  "validate_method service name arguments optional mt =
     (if \<not> sv_callable mt
      then Inl (configuration_error (''auth service '' @ service @ ''.'' @ name @ '' must be callable'' @
             (if optional then '' or omitted'' else [])))
      else if \<not> sv_async mt
      then Inl (configuration_error (''auth service '' @ service @ ''.'' @ name @ '' must be declared with async def''))
      else if \<not> sv_binds mt
      then Inl (configuration_error (''auth service '' @ service @ ''.'' @ name @ '' must accept ('' @ arguments @
             '') as positional arguments''))
      else Inr ())"

definition validate_auth_service ::
  "string \<Rightarrow> service_method option \<Rightarrow> service_method option \<Rightarrow> sdk_error + bool" where
  "validate_auth_service service acquire refresh =
     (case acquire of
        None \<Rightarrow> Inl (configuration_error (''auth service '' @ service @ '' must define async acquire(credentials, context)''))
      | Some a \<Rightarrow>
          bindE (validate_method service ''acquire'' ''credentials, context'' False a) (\<lambda>_.
            case refresh of
              None \<Rightarrow> Inr False
            | Some r \<Rightarrow> bindE (validate_method service ''refresh'' ''session, context'' True r) (\<lambda>_. Inr True)))"

text \<open>\<open>_build_session_auth\<close>: which halves of the lifecycle are configured.\<close>

record session_auth =
  su_acquires :: bool
  su_refreshes :: bool
  su_key :: string

definition build_session_auth ::
  "bool \<Rightarrow> bool \<Rightarrow> string \<Rightarrow> service_method option \<Rightarrow> service_method option \<Rightarrow> string option \<Rightarrow> sdk_error + session_auth" where
  "build_session_auth credentials session service acquire refresh identity =
     (if credentials = session then Inl (PyValueError ''provide exactly one of credentials or session'')
      else bindE (validate_auth_service service acquire refresh) (\<lambda>has_refresh.
        Inr \<lparr>su_acquires = credentials, su_refreshes = has_refresh,
             su_key = ''session:'' @ (case identity of Some (c # s) \<Rightarrow> c # s | _ \<Rightarrow> ''client'')\<rparr>))"

text \<open>\<open>_session_provider\<close>: the named scheme, or the only session there is.\<close>

definition session_provider_of :: "(nat \<times> string) list \<Rightarrow> (nat \<times> string) option \<Rightarrow> sdk_error + nat" where
  "session_provider_of sessions scheme =
     (case scheme of
        Some (i, name) \<Rightarrow>
          if i \<in> set (map fst sessions) then Inr i
          else Inl (PlanError (py_repr name @ '' is not a session this SDK was given''))
      | None \<Rightarrow>
          (case sessions of
             [s] \<Rightarrow> Inr (fst s)
           | [] \<Rightarrow> Inl (PlanError ''this SDK was given no session: its Identity configures none'')
           | _ \<Rightarrow> Inl (PlanError (''this SDK keeps several sessions ('' @ join '', '' (sort (map (\<lambda>s. py_repr (snd s)) sessions)) @
                    ''); name one with scheme=''))))"

section \<open>Lemmas\<close>

lemma first_slot_Some:
  "first_slot g ps = Some (p, s) \<Longrightarrow>
     \<exists>us vs. ps = us @ p # vs \<and> map_of (g (ap_location p)) (ap_name p) = Some s \<and>
       (\<forall>u \<in> set us. map_of (g (ap_location u)) (ap_name u) = None)"
proof (induction ps)
  case (Cons q ps)
  show ?case
  proof (cases "map_of (g (ap_location q)) (ap_name q)")
    case None
    then obtain us vs where "ps = us @ p # vs" "map_of (g (ap_location p)) (ap_name p) = Some s"
      "\<forall>u \<in> set us. map_of (g (ap_location u)) (ap_name u) = None"
      using Cons by auto
    then have "q # ps = (q # us) @ p # vs" "\<forall>u \<in> set (q # us). map_of (g (ap_location u)) (ap_name u) = None"
      using None by auto
    then show ?thesis using \<open>map_of (g (ap_location p)) (ap_name p) = Some s\<close> by blast
  next
    case (Some t)
    then have "p = q" "s = t" using Cons.prems by auto
    then show ?thesis using Some by (intro exI [of _ "[]"] exI [of _ ps]) auto
  qed
qed simp

lemma first_slot_None: "first_slot g ps = None \<longleftrightarrow> (\<forall>p \<in> set ps. map_of (g (ap_location p)) (ap_name p) = None)"
  by (induction ps) (auto split: option.splits)

text \<open>A placement is written to the first of its places the operation has.\<close>

definition writes_placement :: "texts \<Rightarrow> slot_groups \<Rightarrow> session_value \<Rightarrow> auth_placement \<Rightarrow> patch_op \<Rightarrow> bool" where
  "writes_placement tx g v p op \<longleftrightarrow>
     (\<exists>us q vs s t. chain_of p = us @ q # vs \<and> (\<forall>u \<in> set us. map_of (g (ap_location u)) (ap_name u) = None) \<and>
        map_of (g (ap_location q)) (ap_name q) = Some s \<and> place_value tx q v = Inr t \<and>
        op = SetOp s (PStr t) CONFLICT_ERROR)"

lemma binding_operation_writes:
  assumes "binding_operation tx g v p = Inr op"
  shows "writes_placement tx g v p op"
proof -
  obtain q s where q: "first_slot g (chain_of p) = Some (q, s)"
    using assms by (cases "first_slot g (chain_of p)") (auto simp: binding_operation_def)
  then obtain t where "place_value tx q v = Inr t" "op = SetOp s (PStr t) CONFLICT_ERROR"
    using assms by (auto simp: binding_operation_def bindE_Inr_iff)
  then show ?thesis using first_slot_Some [OF q] unfolding writes_placement_def by blast
qed

lemma binding_operations_write:
  "binding_operations tx g s v = Inr ops \<Longrightarrow> list_all2 (writes_placement tx g v) (sc_placements s) ops"
  unfolding binding_operations_def mapE_Inr_iff
  by (auto elim!: list_all2_mono intro: binding_operation_writes)

lemma resolve_schemes_Inr:
  "resolve_schemes tx g ps i ss w = (Inr (es, ops), w') \<Longrightarrow>
     length es = length ss \<and> (\<forall>e \<in> set es. ae_alternative e = i) \<and>
     (\<exists>held. length held = length ss \<and>
        list_all2 (\<lambda>(v, p). writes_placement tx g v p)
          (concat (map (\<lambda>(s, v). map (Pair v) (sc_placements s)) (zip ss held))) ops)"
proof (induction ss arbitrary: w es ops)
  case Nil
  then show ?case by simp
next
  case (Cons s ss)
  obtain p where p: "provider_of ps s = Some p"
    using Cons.prems by (cases "provider_of ps s") auto
  obtain v e w1 where res: "av_resolve p w = (Inr (v, e), w1)"
    using Cons.prems p by (auto simp: bindS_Inr_iff)
  obtain here where here: "binding_operations tx g s v = Inr here"
    using Cons.prems p res by (cases "binding_operations tx g s v") auto
  obtain es' ops' where rest: "resolve_schemes tx g ps i ss w1 = (Inr (es', ops'), w')"
    and out: "es = e\<lparr>ae_alternative := i\<rparr> # es'" "ops = here @ ops'"
    using Cons.prems p res here by (auto simp: bindS_Inr_iff)
  obtain held where held: "length held = length ss" "list_all2 (\<lambda>(v, p). writes_placement tx g v p)
      (concat (map (\<lambda>(s, v). map (Pair v) (sc_placements s)) (zip ss held))) ops'"
    using Cons.IH [OF rest] by blast
  have "list_all2 (\<lambda>(v, p). writes_placement tx g v p) (map (Pair v) (sc_placements s)) here"
    using binding_operations_write [OF here] by (simp add: list_all2_map1)
  then have "list_all2 (\<lambda>(v, p). writes_placement tx g v p)
      (concat (map (\<lambda>(s, v). map (Pair v) (sc_placements s)) (zip (s # ss) (v # held)))) ops"
    using held(2) out(2) by (simp add: list_all2_appendI)
  then show ?case using Cons.IH [OF rest] out held(1) by (auto intro!: exI [of _ "v # held"])
qed

lemma resolve_alternatives_first:
  "resolve_alternatives tx g ps optional i as w =
     (case find (\<lambda>k. complete ps (as ! k)) [0..<length as] of
        Some k \<Rightarrow> resolve_schemes tx g ps (i + int k) (as ! k) w
      | None \<Rightarrow> if optional then (Inr ([], []), w)
          else (Inl (PlanError ''no complete security alternative is available''), w))"
proof (induction as arbitrary: i)
  case (Cons a as)
  have shift: "find (\<lambda>k. complete ps ((a # as) ! k)) (map Suc xs) = map_option Suc (find (\<lambda>k. complete ps (as ! k)) xs)" for xs
    by (induction xs) auto
  have "[0..<length (a # as)] = 0 # map Suc [0..<length as]"
    by (simp only: list.size(4) add_Suc_right add_0_right map_Suc_upt upt_conv_Cons [of 0 "Suc (length as)"])
  then have "find (\<lambda>k. complete ps ((a # as) ! k)) [0..<length (a # as)] =
      (if complete ps a then Some 0 else map_option Suc (find (\<lambda>k. complete ps (as ! k)) [0..<length as]))"
    by (simp only: find.simps shift nth_Cons_0)
  then show ?case
    using Cons.IH [of "i + 1"] by (auto split: option.splits simp: algebra_simps)
qed simp

text \<open>
  A call is protected by one alternative as a whole. It is the first one all of whose schemes have a
  provider; every scheme of it is resolved and recorded under its index, and every placement of every scheme is
  written, to the first of its places the operation has. Without a complete alternative an optional policy
  sends nothing and any other refuses the call.
\<close>

lemma security_uses_first_complete:
  assumes "resolve_security tx g ps (Some policy) w = (Inr (es, ops), w')"
  shows "(\<exists>k alternative. k < length (sp_alternatives policy) \<and> alternative = sp_alternatives policy ! k \<and>
      complete ps alternative \<and> (\<forall>j < k. \<not> complete ps (sp_alternatives policy ! j)) \<and>
      length es = length alternative \<and> (\<forall>e \<in> set es. ae_alternative e = int k) \<and>
      (\<exists>held. length held = length alternative \<and>
        list_all2 (\<lambda>(v, p). writes_placement tx g v p)
          (concat (map (\<lambda>(s, v). map (Pair v) (sc_placements s)) (zip alternative held))) ops)) \<or>
    (sp_optional policy \<and> es = [] \<and> ops = [] \<and> w' = w \<and> (\<forall>a \<in> set (sp_alternatives policy). \<not> complete ps a))"
proof (cases "find (\<lambda>k. complete ps (sp_alternatives policy ! k)) [0..<length (sp_alternatives policy)]")
  case None
  then have "\<forall>a \<in> set (sp_alternatives policy). \<not> complete ps a"
    by (auto simp: find_None_iff in_set_conv_nth)
  then show ?thesis
    using assms None by (auto simp: resolve_security_def resolve_alternatives_first split: if_splits)
next
  case (Some k)
  then have k: "k < length (sp_alternatives policy)" "complete ps (sp_alternatives policy ! k)"
    "\<forall>j < k. \<not> complete ps (sp_alternatives policy ! j)"
    by (auto simp: find_Some_iff)
  have "resolve_schemes tx g ps (int k) (sp_alternatives policy ! k) w = (Inr (es, ops), w')"
    using assms Some by (simp add: resolve_security_def resolve_alternatives_first)
  from resolve_schemes_Inr [OF this] show ?thesis using k by blast
qed

section \<open>Sessions: lemmas\<close>

definition taken_by :: "(request_location \<times> string \<times> string) list \<Rightarrow> request_location \<times> string \<Rightarrow> string \<Rightarrow> bool" where
  "taken_by taken d n \<longleftrightarrow> (fst d, snd d, n) \<in> set taken"

lemma find_in: "find P xs = Some x \<Longrightarrow> x \<in> set xs \<and> P x"
  by (induction xs) (auto split: if_splits)

lemma find_destination:
  "find (\<lambda>t. (fst t, fst (snd t)) = d) taken = Some (a, b, n) \<Longrightarrow> (a, b) = d \<and> taken_by taken d n"
  "find (\<lambda>t. (fst t, fst (snd t)) = d) taken = None \<longleftrightarrow> (\<forall>n. \<not> taken_by taken d n)"
  by (auto dest!: find_in simp: taken_by_def find_None_iff) (cases d, force)

text \<open>Every destination has one field.\<close>

definition one_field :: "(request_location \<times> string \<times> string) list \<Rightarrow> bool" where
  "one_field taken \<longleftrightarrow> (\<forall>d n n'. taken_by taken d n \<and> taken_by taken d n' \<longrightarrow> n = n')"

lemma collision_step_ok:
  assumes "collision_step model taken (n, p) = Inr taken'" "one_field taken"
  shows "one_field taken' \<and> taken_by taken' (placed_destination p) n \<and>
    (\<forall>d m. taken_by taken d m \<longrightarrow> taken_by taken' d m)"
proof (cases "find (\<lambda>t. (fst t, fst (snd t)) = placed_destination p) taken")
  case None
  then have "taken' = taken @ [(fst (placed_destination p), snd (placed_destination p), n)]"
    using assms(1) by (simp add: collision_step_def Let_def)
  moreover have "\<forall>m. \<not> taken_by taken (placed_destination p) m" using None by (simp add: find_destination(2))
  ultimately show ?thesis using assms(2) by (auto simp: one_field_def taken_by_def prod_eq_iff)
next
  case (Some t)
  obtain a b m where t: "t = (a, b, m)" by (metis prod.exhaust)
  then have "m = n" "taken' = taken" using assms(1) Some by (auto simp: collision_step_def split: if_splits)
  then show ?thesis using find_destination(1) Some t assms(2) by blast
qed

lemma collision_steps:
  "foldE (collision_step model) taken ps = Inr taken' \<Longrightarrow> one_field taken \<Longrightarrow>
     one_field taken' \<and> (\<forall>(n, p) \<in> set ps. taken_by taken' (placed_destination p) n) \<and>
     (\<forall>d m. taken_by taken d m \<longrightarrow> taken_by taken' d m)"
proof (induction ps arbitrary: taken)
  case (Cons np ps)
  obtain n p where np: "np = (n, p)" by fastforce
  obtain mid where step: "collision_step model taken (n, p) = Inr mid" and rest: "foldE (collision_step model) mid ps = Inr taken'"
    using Cons.prems(1) np by (auto simp: bindE_Inr_iff)
  show ?case
    using collision_step_ok [OF step Cons.prems(2)] Cons.IH [OF rest] unfolding np by (simp del: split_paired_All)
qed simp

lemma compiled_places_apart:
  assumes "compile_session_model model as = Inr sm"
    and "(n, p) \<in> set (all_places (sm_placements sm))" "(n', p') \<in> set (all_places (sm_placements sm))"
    and "placed_destination p = placed_destination p'"
  shows "n = n'"
proof -
  obtain taken where "foldE (collision_step model) [] (all_places (sm_placements sm)) = Inr taken"
    using assms(1) by (auto simp: compile_session_model_def bindE_Inr_iff split: if_splits)
  from collision_steps [OF this] show ?thesis
    using assms(2-4) by (fastforce simp: one_field_def taken_by_def)
qed

text \<open>
  C28. What a session model sends. A session is valid only when every placed field holds something and it
  has not expired, leeway included; binding it writes, for every placed field, the prefix and the
  revealed value of that field to the first place the operation has; and two fields never share a place
  in the request.
\<close>

theorem session_sends_its_fields:
  assumes "compile_session_model model as = Inr sm" "session_valid sm now fs = Inr True"
    and "binding_operations tx g (session_scheme sm i name parse) (ModelS fs) = Inr ops"
  shows "list_all2 (\<lambda>(n, c) op. \<exists>f p s. map_of fs n = Some f \<and> \<not> is_empty_field (Some f) \<and> p \<in> set (placed_items c) \<and>
        map_of (g (pl_location p)) (pl_name p) = Some s \<and>
        op = SetOp s (PStr (pl_prefix p @ tx_str tx (reveal f))) CONFLICT_ERROR) (sm_placements sm) ops \<and>
    (\<forall>n leeway. sm_expires sm = Some (n, leeway) \<longrightarrow> (\<exists>at. map_of fs n = Some (Moment True at) \<and> at > snd now + leeway)) \<and>
    (\<forall>(n, p) \<in> set (all_places (sm_placements sm)). \<forall>(n', p') \<in> set (all_places (sm_placements sm)).
        placed_destination p = placed_destination p' \<longrightarrow> n = n')"
proof -
  have full: "\<not> is_empty_field (map_of fs n)" if "(n, c) \<in> set (sm_placements sm)" for n c
    using assms(2) that by (auto simp: session_valid_def list_ex_iff split: if_splits)
  have written: "\<exists>f p s. map_of fs n = Some f \<and> \<not> is_empty_field (Some f) \<and> p \<in> set (placed_items c) \<and>
      map_of (g (pl_location p)) (pl_name p) = Some s \<and>
      op = SetOp s (PStr (pl_prefix p @ tx_str tx (reveal f))) CONFLICT_ERROR"
    if mem: "(n, c) \<in> set (sm_placements sm)"
      and op: "writes_placement tx g (ModelS fs) (place_of n (fst c), map (place_of n) (snd c)) op" for n c op
  proof -
    obtain f where f: "map_of fs n = Some f" using full [OF mem] by (cases "map_of fs n") (auto simp: is_empty_field_def)
    obtain q s t where q: "q \<in> set (map (place_of n) (placed_items c))" "map_of (g (ap_location q)) (ap_name q) = Some s"
      "place_value tx q (ModelS fs) = Inr t" "op = SetOp s (PStr t) CONFLICT_ERROR"
    proof -
      obtain us q vs s t where w: "chain_of (place_of n (fst c), map (place_of n) (snd c)) = us @ q # vs"
        "map_of (g (ap_location q)) (ap_name q) = Some s" "place_value tx q (ModelS fs) = Inr t"
        "op = SetOp s (PStr t) CONFLICT_ERROR"
        using op unfolding writes_placement_def by blast
      moreover have "chain_of (place_of n (fst c), map (place_of n) (snd c)) = map (place_of n) (placed_items c)"
        by (simp add: chain_of_def placed_items_def)
      ultimately show ?thesis using that by (metis in_set_conv_decomp)
    qed
    obtain p where p: "q = place_of n p" "p \<in> set (placed_items c)" using q(1) by auto
    have "t = pl_prefix p @ tx_str tx (reveal f)"
      using q(3) f by (simp add: p place_value_def place_of_def select_def)
    then show ?thesis using f full [OF mem] p q by (auto simp: place_of_def)
  qed
  have "list_all2 (\<lambda>nc op. writes_placement tx g (ModelS fs) (place_of (fst nc) (fst (snd nc)), map (place_of (fst nc)) (snd (snd nc))) op)
      (sm_placements sm) ops"
    using binding_operations_write [OF assms(3)]
    by (simp add: session_scheme_def list_all2_map1 case_prod_beta)
  then have "list_all2 (\<lambda>(n, c) op. \<exists>f p s. map_of fs n = Some f \<and> \<not> is_empty_field (Some f) \<and> p \<in> set (placed_items c) \<and>
      map_of (g (pl_location p)) (pl_name p) = Some s \<and>
      op = SetOp s (PStr (pl_prefix p @ tx_str tx (reveal f))) CONFLICT_ERROR) (sm_placements sm) ops"
  proof (rule list.rel_mono_strong)
    fix nc op
    assume "nc \<in> set (sm_placements sm)"
      "writes_placement tx g (ModelS fs) (place_of (fst nc) (fst (snd nc)), map (place_of (fst nc)) (snd (snd nc))) op"
    then show "(case nc of (n, c) \<Rightarrow> \<lambda>op. \<exists>f p s. map_of fs n = Some f \<and> \<not> is_empty_field (Some f) \<and> p \<in> set (placed_items c) \<and>
        map_of (g (pl_location p)) (pl_name p) = Some s \<and>
        op = SetOp s (PStr (pl_prefix p @ tx_str tx (reveal f))) CONFLICT_ERROR) op"
      using written [of "fst nc" "snd nc" op] unfolding case_prod_beta by simp
  qed
  moreover have "\<exists>at. map_of fs n = Some (Moment True at) \<and> at > snd now + leeway" if "sm_expires sm = Some (n, leeway)" for n leeway
    using assms(2) that by (auto simp: session_valid_def split: if_splits option.splits session_field.splits)
  moreover have "\<forall>(n, p) \<in> set (all_places (sm_placements sm)). \<forall>(n', p') \<in> set (all_places (sm_placements sm)).
        placed_destination p = placed_destination p' \<longrightarrow> n = n'"
    using compiled_places_apart [OF assms(1)] by blast
  ultimately show ?thesis by blast
qed

section \<open>Concrete inputs\<close>

definition plain_texts :: texts where
  "plain_texts = \<lparr>tx_str = (\<lambda>f. case f of Plain (PStr s) \<Rightarrow> s | _ \<Rightarrow> ''?''), tx_base64 = id\<rparr>"

definition header_slot :: value_slot where
  "header_slot =
     \<lparr>slot_id = 7, diagnostic_name = ''auth.bearer.Authorization'', slot_validator = Inr, slot_required = False,
      slot_secret = True, slot_card = ONE\<rparr>"

definition header_groups :: slot_groups where
  "header_groups l = (if l = HeaderL then [(''Authorization'', header_slot)] else [])"

definition bearer_providers :: "unit providers" where
  "bearer_providers = [(2, (bearer_scheme 2 ''bearer'', static_provider (bearer_scheme 2 ''bearer'') (WholeS (PStr ''t'')) 9))]"

definition key_or_bearer :: security_policy where
  "key_or_bearer = \<lparr>sp_alternatives = [[api_key_header 1 ''key'' ''X-Key''], [bearer_scheme 2 ''bearer'']], sp_optional = False\<rparr>"

lemmas security_eval =
  resolve_security_def complete_def provider_of_def bearer_providers_def bearer_scheme_def api_key_header_def
  static_provider_def non_empty_credential_def binding_operations_def binding_operation_def chain_of_def simple_place_def
  header_groups_def place_value_def select_def reveal_def plain_texts_def

lemma security_uses_first_complete_witness:
  "\<exists>es ops. resolve_security plain_texts header_groups bearer_providers (Some key_or_bearer) () = (Inr (es, ops), ()) \<and>
     length es = 1 \<and> ae_alternative (hd es) = 1"
proof -
  obtain es ops where run: "resolve_security plain_texts header_groups bearer_providers (Some key_or_bearer) () = (Inr (es, ops), ())"
    by (simp add: security_eval key_or_bearer_def)
  have "\<not> complete bearer_providers (sp_alternatives key_or_bearer ! 0)" "sp_optional key_or_bearer = False"
    "length (sp_alternatives key_or_bearer) = 2" "length (sp_alternatives key_or_bearer ! Suc 0) = 1"
    by (simp_all add: security_eval key_or_bearer_def)
  with security_uses_first_complete [OF run] obtain k where
    "k < 2" "complete bearer_providers (sp_alternatives key_or_bearer ! k)"
    "length es = length (sp_alternatives key_or_bearer ! k)" "\<forall>e \<in> set es. ae_alternative e = int k"
    by auto
  moreover from this have "k = 1"
    using \<open>\<not> complete bearer_providers (sp_alternatives key_or_bearer ! 0)\<close> by (cases k) auto
  ultimately show ?thesis
    using run \<open>length (sp_alternatives key_or_bearer ! Suc 0) = 1\<close> by (cases es) auto
qed

definition token_attrs :: "session_attr list" where
  "token_attrs =
     [\<lparr>sa_name = ''token'', sa_annotation = ClassT ''str'', sa_markers = [BearerMk ''Authorization'' ''Bearer '']\<rparr>,
      \<lparr>sa_name = ''until'', sa_annotation = ClassT ''datetime'', sa_markers = [ExpiresMk 5]\<rparr>]"

theorem session_sends_its_fields_witness:
  "\<exists>sm ops. compile_session_model ''MailSession'' token_attrs = Inr sm \<and>
     session_valid sm (True, 10) [(''token'', Plain (PStr ''t'')), (''until'', Moment True 16)] = Inr True \<and>
     binding_operations plain_texts header_groups (session_scheme sm 1 ''mail'' Inr)
       (ModelS [(''token'', Plain (PStr ''t'')), (''until'', Moment True 16)]) = Inr ops \<and>
     length ops = 1 \<and> op_slot (hd ops) = header_slot"
proof -
  let ?fs = "[(''token'', Plain (PStr ''t'')), (''until'', Moment True 16)]"
  let ?sm = "\<lparr>sm_name = ''MailSession'', sm_placements = [(''token'', (\<lparr>pl_location = HeaderL, pl_name = ''Authorization'',
      pl_prefix = ''Bearer '', pl_secret = True\<rparr>, []))], sm_refresh = None, sm_expires = Some (''until'', 5)\<rparr>"
  have sm: "compile_session_model ''MailSession'' token_attrs = Inr ?sm"
    by (simp add: compile_session_model_def token_attrs_def attr_step_def marker_step_def new_placed_def all_places_def
        placed_items_def collision_step_def Let_def)
  have valid: "session_valid ?sm (True, 10) ?fs = Inr True"
    by (simp add: session_valid_def is_empty_field_def reveal_def)
  have ops: "binding_operations plain_texts header_groups (session_scheme ?sm 1 ''mail'' Inr) (ModelS ?fs) =
      Inr [SetOp header_slot (PStr ''Bearer t'') CONFLICT_ERROR]"
    by (simp add: security_eval session_scheme_def place_of_def)
  from session_sends_its_fields [OF sm valid ops] show ?thesis
    using sm valid ops by (auto simp: header_groups_def)
qed

text \<open>
  A field marked twice for one place is accepted, because the place is taken by that field already; every call then
  writes one slot twice, which a patch refuses.
\<close>

definition doubled_attr :: session_attr where
  "doubled_attr =
     \<lparr>sa_name = ''token'', sa_annotation = ClassT ''str'',
      sa_markers = [BearerMk ''Authorization'' ''Bearer '', PlacedMk (\<lparr>pl_location = HeaderL, pl_name = ''Authorization'',
        pl_prefix = [], pl_secret = True\<rparr>, [])]\<rparr>"

lemma doubled_placement_fails_every_call:
  "\<exists>sm ops. compile_session_model ''MailSession'' [doubled_attr] = Inr sm \<and>
     binding_operations plain_texts header_groups (session_scheme sm 1 ''mail'' Inr) (ModelS [(''token'', Plain (PStr ''t''))]) = Inr ops \<and>
     apply_patch_atomic \<lparr>val_shape = [header_slot], vals = [None]\<rparr> ops =
       Inl (PatchError (''multiple writes in one patch: '' @ diagnostic_name header_slot))"
  by (simp add: compile_session_model_def doubled_attr_def attr_step_def marker_step_def new_placed_def all_places_def
      placed_items_def collision_step_def Let_def placed_collection_def unwrap_annotated_def placed_destination_def canonical_def
      security_eval session_scheme_def place_of_def apply_patch_atomic_def header_slot_def)

end
