(* ===== verification/Compiler.thy ===== *)
theory Compiler
  imports Security Plan
begin

text \<open>
  The compiler of HTTP operations (\<open>compile/http_compiler.py\<close>): the slots of the input, of injected values,
  of the session and of managed protections; the writers of the body; the graph of the phases; and the
  binding of a call's arguments.

  A slot is numbered by its position in the shape. The check of a value against an annotation, the
  adapters' view of a model and digests are parameters.
\<close>

section \<open>Declarations\<close>

datatype slot_descriptor =
    PlacedBy placement
  | AuthBy auth_place
  | ManagedCookies

record inject =
  ij_placement :: placement
  ij_secret :: bool

datatype security_declaration =
    PolicyS security_policy
  | AlternativeS "auth_scheme list"
  | SchemeS auth_scheme
  | UnsupportedS string

record query_target =
  qt_fields :: "model_field list"
  qt_codecs :: "(string \<times> scalar_codec option) list"
  qt_arity :: nat

record contract =
  ct_operation :: string
  ct_method :: string
  ct_fields :: "input_field list"
  ct_query_model :: "query_target option"
  ct_projection :: "body_projection option"
  ct_inject :: "inject list"
  ct_security :: "security_declaration option"
  ct_protections :: "nat list"
  ct_signing :: "signature list"

section \<open>The input layout\<close>

record layout =
  ly_groups :: slot_groups
  ly_slots :: "value_slot list"
  ly_descriptors :: "(nat, slot_descriptor) dict"
  ly_names :: "(nat, string) dict"
  ly_places :: "(nat, request_location option) dict"
  ly_input :: "(string, value_slot) dict"
  ly_projection :: "(string, value_slot) dict"
  ly_taken :: "(request_location \<times> string) list"
  ly_query_model :: "(string, value_slot) dict"
  ly_session_body :: "string list"

definition empty_layout :: layout where
  "empty_layout =
     \<lparr>ly_groups = (\<lambda>_. []), ly_slots = [], ly_descriptors = [], ly_names = [], ly_places = [], ly_input = [],
      ly_projection = [], ly_taken = [], ly_query_model = [], ly_session_body = []\<rparr>"

definition any_value :: validator where
  "any_value v = Inr v"

definition new_slot :: "layout \<Rightarrow> string \<Rightarrow> validator \<Rightarrow> bool \<Rightarrow> bool \<Rightarrow> value_slot" where
  "new_slot ly n check needed hidden =
     \<lparr>slot_id = length (ly_slots ly), diagnostic_name = n, slot_validator = check, slot_required = needed,
      slot_secret = hidden, slot_card = ONE\<rparr>"

text \<open>A slot with a place: into its group, the shape, the descriptors and the names.\<close>

definition add_slot :: "request_location \<Rightarrow> string \<Rightarrow> slot_descriptor \<Rightarrow> value_slot \<Rightarrow> layout \<Rightarrow> layout" where
  "add_slot l n d s ly =
     ly\<lparr>ly_groups := (ly_groups ly)(l := AList.update n s (ly_groups ly l)),
        ly_slots := ly_slots ly @ [s],
        ly_descriptors := AList.update (slot_id s) d (ly_descriptors ly),
        ly_names := AList.update (slot_id s) n (ly_names ly),
        ly_places := AList.update (slot_id s) (Some l) (ly_places ly)\<rparr>"

fun query_scalar :: "annot \<Rightarrow> bool" where
  "query_scalar (UnionT ts) \<longleftrightarrow> list_all (\<lambda>t. t = ClassT ''NoneType'' \<or> query_scalar t) ts"
| "query_scalar (LiteralT _) = True"
| "query_scalar (ClassT n) \<longleftrightarrow> n \<in> {''str'', ''int'', ''float'', ''bool'', ''Enum''}"
| "query_scalar _ = False"

definition query_model_step :: "query_target \<Rightarrow> string \<Rightarrow> layout \<Rightarrow> model_field \<Rightarrow> sdk_error + layout" where
  "query_model_step qt operation ly mf =
     (let n = mf_wire mf;
          codec = (case map_of (qt_codecs qt) (mf_name mf) of Some c \<Rightarrow> c | None \<Rightarrow> None) in
      if (QueryL, n) \<in> set (ly_taken ly)
      then Inl (PlanError (''query model of '' @ py_repr operation @ '' names '' @ py_repr n @ '' twice''))
      else if Option.is_none codec \<and> \<not> query_scalar (mf_annotation mf)
      then Inl (PlanError (''query model field '' @ py_repr (mf_name mf) @ '' in '' @ py_repr operation @ '' is not a scalar''))
      else let s = new_slot ly (''query-model.'' @ n) any_value False False;
               q = \<lparr>qy_name = Some n, qy_style = FormStyle, qy_explode = True, qy_reserved = False\<rparr> in
           Inr ((add_slot QueryL n (PlacedBy (QueryPl q codec)) s ly)
             \<lparr>ly_taken := (QueryL, n) # ly_taken ly,
              ly_query_model := AList.update (mf_name mf) s (ly_query_model ly)\<rparr>))"

definition source_slot :: "(annot \<Rightarrow> validator) \<Rightarrow> input_field \<Rightarrow> layout \<Rightarrow> layout" where
  "source_slot checks f ly =
     (let s = new_slot ly (''body-projection.source.'' @ if_name f) (checks (if_annotation f)) (if_required f) False in
      ly\<lparr>ly_input := AList.update (if_name f) s (ly_input ly),
         ly_projection := AList.update (if_name f) s (ly_projection ly),
         ly_slots := ly_slots ly @ [s],
         ly_places := AList.update (slot_id s) None (ly_places ly)\<rparr>)"

definition input_step :: "(annot \<Rightarrow> validator) \<Rightarrow> string \<Rightarrow> layout \<Rightarrow> input_field \<Rightarrow> sdk_error + layout" where
  "input_step checks operation ly f =
     (case if_placement f of
        None \<Rightarrow> Inr (source_slot checks f ly)
      | Some p \<Rightarrow>
          (case (if_location f, if_wire f) of
             (Some l, Some n) \<Rightarrow>
               if canonical l n \<in> set (ly_taken ly)
               then Inl (PlanError (''duplicate '' @ location_text l @ '' input wire name '' @ py_repr n @ '' in '' @ py_repr operation))
               else bindE (validate_query_cardinality (if_annotation f) p (if_name f) operation) (\<lambda>_.
                 let s = new_slot ly (location_text l @ ''.'' @ if_name f) (checks (if_annotation f)) (if_required f) False in
                 Inr ((add_slot l n (PlacedBy p) s ly)
                   \<lparr>ly_taken := canonical l n # ly_taken ly, ly_input := AList.update (if_name f) s (ly_input ly)\<rparr>))
           | _ \<Rightarrow> Inl (plan_error (if_name f) operation ''has incomplete placement metadata'')))"

definition inject_step :: "layout \<Rightarrow> inject \<Rightarrow> sdk_error + layout" where
  "inject_step ly ij =
     (let l = placement_location (ij_placement ij) in
      case marker_name (ij_placement ij) of
        Some (c # cs) \<Rightarrow>
          (let n = c # cs in
           if canonical l n \<in> set (ly_taken ly)
           then Inl (PlanError (''injected '' @ location_text l @ '' wire name collides with another slot: '' @ py_repr n))
           else let s = new_slot ly (''inject.'' @ location_text l @ ''.'' @ n) any_value False (ij_secret ij) in
                Inr ((add_slot l n (PlacedBy (ij_placement ij)) s ly)\<lparr>ly_taken := canonical l n # ly_taken ly\<rparr>))
      | _ \<Rightarrow> Inl (PlanError ''Inject placement requires an explicit wire name''))"

section \<open>The places of the session\<close>

definition security_schemes :: "security_declaration option \<Rightarrow> sdk_error + auth_scheme list" where
  "security_schemes sec =
     (case sec of
        None \<Rightarrow> Inr []
      | Some (PolicyS p) \<Rightarrow> Inr (concat (sp_alternatives p))
      | Some (AlternativeS ss) \<Rightarrow> Inr ss
      | Some (SchemeS s) \<Rightarrow> Inr [s]
      | Some (UnsupportedS n) \<Rightarrow> Inl (PlanError (''unsupported security declaration: '' @ n)))"

definition body_inject :: "inject \<Rightarrow> bool" where
  "body_inject ij \<longleftrightarrow> placement_location (ij_placement ij) = BodyL"

definition flat_body_sample :: "contract \<Rightarrow> placement option" where
  "flat_body_sample ct =
     (if \<not> Option.is_none (ct_projection ct) then None
      else case find is_body_field (ct_fields ct) of
             Some f \<Rightarrow> if_placement f
           | None \<Rightarrow> map_option ij_placement (find body_inject (ct_inject ct)))"

definition placement_for :: "contract \<Rightarrow> auth_placement \<Rightarrow> sdk_error + auth_place" where
  "placement_for ct pl =
     (case find (\<lambda>c. ap_location c \<noteq> BodyL \<or> \<not> Option.is_none (flat_body_sample ct)) (chain_of pl) of
        Some c \<Rightarrow> Inr c
      | None \<Rightarrow> Inl (PlanError (''the session places '' @ py_repr (ap_name (fst pl)) @ '' in the request body, and '' @
                 py_repr (ct_operation ct) @ '' declares no flat body fields (Form, JsonField) to put it beside'')))"

definition body_field_like :: "contract \<Rightarrow> string \<Rightarrow> sdk_error + placement" where
  "body_field_like ct n =
     (case flat_body_sample ct of
        Some (FormPl _ _) \<Rightarrow> Inr (FormPl (Some n) None)
      | Some (JsonFieldPl _) \<Rightarrow> Inr (JsonFieldPl (Some n))
      | _ \<Rightarrow> Inl (PlanError (''the session places '' @ py_repr n @ '' in the request body, and the body of '' @
               py_repr (ct_operation ct) @ '' is multipart: only form and JSON fields are supported'')))"

definition text_value :: validator where
  "text_value v = (case v of PStr _ \<Rightarrow> Inr v | _ \<Rightarrow> Inl (PyTypeError ''expected the annotation''))"

definition auth_descriptor :: "contract \<Rightarrow> auth_place \<Rightarrow> sdk_error + slot_descriptor" where
  "auth_descriptor ct p =
     (if ap_location p = BodyL then map_sum id PlacedBy (body_field_like ct (ap_name p)) else Inr (AuthBy p))"

definition auth_step :: "contract \<Rightarrow> layout \<Rightarrow> auth_scheme \<times> auth_placement \<Rightarrow> sdk_error + layout" where
  "auth_step ct ly sp =
     bindE (placement_for ct (snd sp)) (\<lambda>p.
       let l = ap_location p; n = ap_name p in
       if n = [] then Inl (PlanError ''auth placement requires a wire name'')
       else if l = QueryL \<and> n \<in> set (map (\<lambda>(_, s). the (map_of (ly_names ly) (slot_id s))) (ly_query_model ly))
       then Inl (PlanError (''the session places '' @ py_repr n @ '' in the query, and the query model of '' @
              py_repr (ct_operation ct) @ '' declares a field of that name''))
       else if n \<in> set (keys (ly_groups ly l)) then Inr ly
       else let s = new_slot ly (''auth.'' @ sc_name (fst sp) @ ''.'' @ n) text_value False (ap_secret p) in
            bindE (auth_descriptor ct p) (\<lambda>d.
              Inr ((add_slot l n d s ly)
                \<lparr>ly_session_body := ly_session_body ly @ (if l = BodyL then [n] else [])\<rparr>)))"

definition compile_input_layout :: "(annot \<Rightarrow> validator) \<Rightarrow> contract \<Rightarrow> sdk_error + layout" where
  "compile_input_layout checks ct =
     bindE (case ct_query_model ct of
              None \<Rightarrow> Inr empty_layout
            | Some qt \<Rightarrow> foldE (query_model_step qt (ct_operation ct)) empty_layout (qt_fields qt)) (\<lambda>ly.
     bindE (foldE (input_step checks (ct_operation ct)) ly (ct_fields ct)) (\<lambda>ly.
     bindE (foldE inject_step ly (ct_inject ct)) (\<lambda>ly.
     bindE (security_schemes (ct_security ct)) (\<lambda>schemes.
       foldE (auth_step ct) ly (concat (map (\<lambda>s. map (Pair s) (sc_placements s)) schemes))))))"

text \<open>The root body, and the flat fields: the operation's own, the injected ones, those of the session.\<close>

definition body_slot_of :: "contract \<Rightarrow> layout \<Rightarrow> value_slot option" where
  "body_slot_of ct ly =
     (case find is_root_body (ct_fields ct) of Some f \<Rightarrow> map_of (ly_input ly) (if_name f) | None \<Rightarrow> None)"

definition body_field_step ::
  "layout \<Rightarrow> (string, value_slot) dict \<Rightarrow> string \<Rightarrow> (string, value_slot) dict" where
  "body_field_step ly d n = (case map_of (ly_groups ly BodyL) n of Some s \<Rightarrow> AList.update n s d | None \<Rightarrow> d)"

definition flat_body_slots :: "contract \<Rightarrow> layout \<Rightarrow> (string, value_slot) dict" where
  "flat_body_slots ct ly =
     (let own = fold (\<lambda>f d. case (if_wire f, map_of (ly_input ly) (if_name f)) of
                        (Some n, Some s) \<Rightarrow> AList.update n s d | _ \<Rightarrow> d)
                  (filter is_body_field (ct_fields ct)) [];
          injected = foldl (body_field_step ly) own
            (concat (map (\<lambda>ij. case marker_name (ij_placement ij) of Some n \<Rightarrow> [n] | None \<Rightarrow> []) (filter body_inject (ct_inject ct)))) in
      foldl (body_field_step ly) injected (ly_session_body ly))"

section \<open>Managed protections\<close>

datatype private_target =
    PrivateBinding request_location string "string option"
  | PrivateCookieSet string string string

record reserved =
  rv_layout :: layout
  rv_output :: "(private_target \<times> value_slot) list"
  rv_writers :: "private_body_writer list"
  rv_destinations :: "(request_location \<times> string) list"
  rv_cookie_sets :: nat

definition json_placement :: "slot_descriptor option \<Rightarrow> bool" where
  "json_placement d =
     (case d of Some (PlacedBy (JsonFieldPl _)) \<Rightarrow> True | Some (PlacedBy (RootPl (JsonB _))) \<Rightarrow> True | _ \<Rightarrow> False)"

text \<open>A body binding needs a JSON body to write into, or a projection.\<close>

definition private_body_ok :: "contract \<Rightarrow> layout \<Rightarrow> string \<Rightarrow> sdk_error + unit" where
  "private_body_ok ct ly n =
     (let body = body_slot_of ct ly; flat = flat_body_slots ct ly;
          descriptors = (case body of Some s \<Rightarrow> [map_of (ly_descriptors ly) (slot_id s)]
                         | None \<Rightarrow> map (\<lambda>(_, s). map_of (ly_descriptors ly) (slot_id s)) flat) in
      if [] \<in> set (split_on (CHR ''.'') n) then Inl (PlanError ''private body binding path contains an empty component'')
      else if \<not> Option.is_none (ct_projection ct) then Inr ()
      else if descriptors = [] then Inl (PlanError ''private body binding requires a semantic request body'')
      else if \<not> list_all json_placement descriptors then Inl (PlanError ''private body bindings currently require a JSON body'')
      else Inr ())"

definition private_placement :: "request_location \<Rightarrow> string \<Rightarrow> placement" where
  "private_placement l n =
     (case l of
        HeaderL \<Rightarrow> HeaderPl \<lparr>hd_name = Some n, hd_explode = False\<rparr> None
      | QueryL \<Rightarrow> QueryPl \<lparr>qy_name = Some n, qy_style = FormStyle, qy_explode = True, qy_reserved = False\<rparr> None
      | _ \<Rightarrow> CookiePl \<lparr>hd_name = Some n, hd_explode = True\<rparr> None)"

definition reserve_step :: "contract \<Rightarrow> layout \<Rightarrow> reserved \<Rightarrow> private_target \<Rightarrow> sdk_error + reserved" where
  "reserve_step ct base rv target =
     (if target \<in> set (map fst (rv_output rv)) then Inr rv
      else let ly = rv_layout rv in
        case target of
          PrivateCookieSet _ _ _ \<Rightarrow>
            (let k = Suc (rv_cookie_sets rv); n = ''<managed-cookie-set:'' @ digits_of k @ ''>'';
                 s = new_slot ly (''protection.private.cookie-set.'' @ digits_of k) any_value False True in
             Inr (rv\<lparr>rv_layout := add_slot CookieL n ManagedCookies s ly,
                     rv_output := rv_output rv @ [(target, s)], rv_cookie_sets := k\<rparr>))
        | PrivateBinding l n _ \<Rightarrow>
            if canonical l n \<in> set (rv_destinations rv)
            then Inl (PlanError (''private binding destination is declared more than once: '' @ location_text l @ ''.'' @ n))
            else if l = BodyL then
              (let s = new_slot ly (''protection.private.body.'' @ n) any_value False True in
               bindE (private_body_ok ct base n) (\<lambda>_.
                 Inr (rv\<lparr>rv_layout := ly\<lparr>ly_slots := ly_slots ly @ [s],
                                          ly_places := AList.update (slot_id s) (Some BodyL) (ly_places ly)\<rparr>,
                         rv_output := rv_output rv @ [(target, s)],
                         rv_writers := rv_writers rv @ [\<lparr>pb_path = split_on (CHR ''.'') n, pb_slot = s\<rparr>],
                         rv_destinations := canonical l n # rv_destinations rv\<rparr>)))
            else if canonical l n \<in> set (map (canonical l) (keys (ly_groups ly l)))
            then Inl (PlanError (''private binding conflicts with an existing writer: '' @ location_text l @ ''.'' @ n))
            else let s = new_slot ly (''protection.private.'' @ location_text l @ ''.'' @ n) any_value False True in
              Inr (rv\<lparr>rv_layout := add_slot l n (PlacedBy (private_placement l n)) s ly,
                      rv_output := rv_output rv @ [(target, s)],
                      rv_destinations := canonical l n # rv_destinations rv\<rparr>))"

text \<open>\<open>_reserve_private_bindings\<close>; a collection that is no \<open>PrivateBindings\<close> is \<open>None\<close>.\<close>

definition collection_step ::
  "contract \<Rightarrow> layout \<Rightarrow> reserved \<Rightarrow> private_target list option \<Rightarrow> sdk_error + reserved" where
  "collection_step ct base rv collection =
     (case collection of
        None \<Rightarrow> Inl (PlanError ''managed protection apply must be PrivateBindings'')
      | Some ts \<Rightarrow> foldE (reserve_step ct base) rv ts)"

definition reserve_private_bindings ::
  "contract \<Rightarrow> layout \<Rightarrow> private_target list option list \<Rightarrow> sdk_error + reserved" where
  "reserve_private_bindings ct ly collections =
     foldE (collection_step ct ly)
       \<lparr>rv_layout = ly, rv_output = [], rv_writers = [], rv_destinations = [], rv_cookie_sets = 0\<rparr> collections"

section \<open>Writers of the body\<close>

lemma only_member_smaller: "filter P ts = [t] \<Longrightarrow> size t < Suc (size_list size ts)"
proof -
  assume "filter P ts = [t]"
  then have "t \<in> set (filter P ts)" by simp
  then show ?thesis by (auto intro!: le_imp_less_Suc size_list_estimation')
qed

function (sequential) writer_model_type :: "annot \<Rightarrow> annot" where
  "writer_model_type (UnionT ts) =
     (case filter (\<lambda>t. t \<noteq> ClassT ''NoneType'') ts of [t] \<Rightarrow> writer_model_type t | _ \<Rightarrow> UnionT ts)"
| "writer_model_type t = t"
  by pat_completeness auto

termination
  by (relation "measure size") (simp_all add: only_member_smaller)

text \<open>
  \<open>_compile_private_wire_writers\<close>: the models an annotation leads to, each entered once on a path. What
  the adapters know is a finite table; \<open>protects\<close> reads a marker as the requirement and result field of a
  \<open>FromProtection\<close>.
\<close>

type_synonym model_table = "(annot, model_field list) dict"

definition unvisited :: "model_table \<Rightarrow> annot list \<Rightarrow> nat" where
  "unvisited known active = length (filter (\<lambda>t. t \<notin> set active) (keys known))"

definition protection_sources :: "(nat \<Rightarrow> (nat \<times> string) option) \<Rightarrow> model_field \<Rightarrow> (nat \<times> string) list" where
  "protection_sources protects f = List.map_filter protects (mf_metadata f)"

definition validation_name :: "model_field \<Rightarrow> string" where
  "validation_name f = (case mf_validation f of Some (c # cs) \<Rightarrow> c # cs | _ \<Rightarrow> mf_name f)"

definition wire_writers_of ::
  "(nat \<Rightarrow> (nat \<times> string) option) \<Rightarrow> model_field \<Rightarrow> string list \<Rightarrow> string list \<Rightarrow> private_wire_writer list" where
  "wire_writers_of protects f path vpath =
     map (\<lambda>(r, n). \<lparr>pw_path = path, pw_validation_path = vpath, pw_requirement = r, pw_result_field = n\<rparr>)
       (protection_sources protects f)"

lemma entering_a_model:
  assumes "map_of known t = Some fs" "t \<notin> set active"
  shows "unvisited known (t # active) < unvisited known active"
proof -
  have "t \<in> set (filter (\<lambda>u. u \<notin> set active) (keys known))"
    using assms by (auto dest: map_of_SomeD intro: rev_image_eqI)
  then have "length (filter (\<lambda>u. u \<noteq> t) (filter (\<lambda>u. u \<notin> set active) (keys known)))
      < length (filter (\<lambda>u. u \<notin> set active) (keys known))"
    by (intro length_filter_less) auto
  then show ?thesis by (simp add: unvisited_def conj_commute)
qed

function (sequential)
  visit_model :: "model_table \<Rightarrow> (nat \<Rightarrow> (nat \<times> string) option) \<Rightarrow> annot \<Rightarrow> string list \<Rightarrow> string list \<Rightarrow>
    annot list \<Rightarrow> sdk_error + private_wire_writer list" and
  visit_fields :: "model_table \<Rightarrow> (nat \<Rightarrow> (nat \<times> string) option) \<Rightarrow> model_field list \<Rightarrow> string list \<Rightarrow> string list \<Rightarrow>
    annot list \<Rightarrow> sdk_error + private_wire_writer list" where
  "visit_model known protects annotation path vpath active =
     (let nested = writer_model_type annotation in
      if nested \<in> set active then Inr []
      else case map_of known nested of
        None \<Rightarrow> Inr []
      | Some fs \<Rightarrow> visit_fields known protects fs path vpath (nested # active))"
| "visit_fields known protects [] path vpath active = Inr []"
| "visit_fields known protects (f # fs) path vpath active =
     (let field_path = path @ [mf_wire f]; field_vpath = vpath @ [validation_name f] in
      if 1 < length (protection_sources protects f)
      then Inl (PlanError (dotted field_path @ '': multiple FromProtection writers''))
      else bindE (visit_model known protects (mf_annotation f) field_path field_vpath active) (\<lambda>deep.
           bindE (visit_fields known protects fs path vpath active) (\<lambda>others.
             Inr (wire_writers_of protects f field_path field_vpath @ deep @ others))))"
  by pat_completeness auto

termination
  by (relation "measures
        [case_sum (\<lambda>(known, _, _, _, _, active). unvisited known active) (\<lambda>(known, _, _, _, _, active). unvisited known active),
         case_sum (\<lambda>_. 0) (\<lambda>(_, _, fs, _). length fs)]")
    (auto simp: entering_a_model)

definition compile_private_wire_writers ::
  "model_table \<Rightarrow> (nat \<Rightarrow> (nat \<times> string) option) \<Rightarrow> annot \<Rightarrow> sdk_error + private_wire_writer list" where
  "compile_private_wire_writers known protects target =
     bindE (visit_model known protects target [] [] []) (\<lambda>ws.
     bindE (validate_overlapping_paths ''private wire writer'' (map pw_path ws)) (\<lambda>_. Inr ws))"

section \<open>Signatures of the body\<close>

definition unknown_pointer :: "string list \<Rightarrow> string list \<Rightarrow> string \<Rightarrow> sdk_error" where
  "unknown_pointer path available operation = PlanError
     (''signature pointer '' @ py_repr (CHR ''/'' # join ''/'' path) @ '' is not a field of the request body of '' @
      py_repr operation @ ''; available: '' @ join '', '' (map (Cons (CHR ''/'')) (filter (\<lambda>n. n \<noteq> []) available)))"

fun validate_wire_target_path ::
  "model_table \<Rightarrow> string list \<Rightarrow> string \<Rightarrow> annot \<Rightarrow> string list \<Rightarrow> sdk_error + unit" where
  "validate_wire_target_path known path operation current [] = Inr ()"
| "validate_wire_target_path known path operation current (c # cs) =
     (case map_of known (writer_model_type current) of
        None \<Rightarrow> Inl (PlanError (''body signature output cannot traverse target path '' @ py_repr (dotted path)))
      | Some fs \<Rightarrow>
          (case find (\<lambda>f. mf_wire f = c) fs of
             None \<Rightarrow> Inl (unknown_pointer path (map mf_wire fs) operation)
           | Some f \<Rightarrow> validate_wire_target_path known path operation (mf_annotation f) cs))"

definition body_outputs :: "signature list \<Rightarrow> sig_output list" where
  "body_outputs sigs = filter (\<lambda>out. so_location out = BodyL) (concat (map sg_outputs sigs))"

definition output_path :: "sig_output \<Rightarrow> sdk_error + string list" where
  "output_path out = body_output_path (so_name out) (so_pointer out)"

definition compile_body_signature_paths ::
  "model_table \<Rightarrow> body_projection \<Rightarrow> signature list \<Rightarrow> string \<Rightarrow> sdk_error + string list list" where
  "compile_body_signature_paths known bp sigs operation =
     (let outs = body_outputs sigs in
      if outs = [] then Inr []
      else if \<not> (case bp_encoding bp of JsonB _ \<Rightarrow> True | FormB _ \<Rightarrow> True | _ \<Rightarrow> False)
      then Inl (PlanError ''projected body signature outputs require JsonBody or FormBody encoding'')
      else bindE (mapE output_path outs) (\<lambda>paths.
        if (case bp_encoding bp of FormB _ \<Rightarrow> True | _ \<Rightarrow> False) \<and> list_ex (\<lambda>p. length p \<noteq> 1) paths
        then Inl (PlanError ''form body signature outputs must select one top-level target field'')
        else bindE (mapE (\<lambda>p. validate_wire_target_path known p operation (ClassT (bp_target bp)) p) paths) (\<lambda>_.
             bindE (validate_overlapping_paths ''body signature output'' paths) (\<lambda>_. Inr paths))))"

fun read_pointers :: "component \<Rightarrow> string list" where
  "read_pointers (JsonC included _ _) = (case included of Some ps \<Rightarrow> ps | None \<Rightarrow> [])"
| "read_pointers (JoinC parts _ _ _) = concat (map read_pointers parts)"
| "read_pointers _ = []"

definition base_pointers :: "signature \<Rightarrow> string list" where
  "base_pointers s = (case sg_kind s of Declarative _ base _ \<Rightarrow> read_pointers base | Custom _ _ _ \<Rightarrow> [])"

definition validate_signature_pointers ::
  "model_table \<Rightarrow> contract \<Rightarrow> layout \<Rightarrow> signature list \<Rightarrow> sdk_error + unit" where
  "validate_signature_pointers known ct ly sigs =
     bindE (mapE output_path (body_outputs sigs)) (\<lambda>written.
     bindE (mapE pointer_tokens (concat (map base_pointers sigs))) (\<lambda>read.
       let pointers = written @ read in
       if pointers = [] then Inr ()
       else case find is_root_body (ct_fields ct) of
         Some f \<Rightarrow>
           (if Option.is_none (map_of known (writer_model_type (if_annotation f))) then Inr ()
            else bindE (mapE (\<lambda>p. validate_wire_target_path known p (ct_operation ct) (if_annotation f) p) pointers) (\<lambda>_. Inr ()))
       | None \<Rightarrow>
           if \<not> Option.is_none (ct_projection ct) then Inr ()
           else let available = List.map_filter (\<lambda>(_, s). map_of (ly_names ly) (slot_id s)) (flat_body_slots ct ly) in
             (case find (\<lambda>p. length p \<noteq> 1 \<or> hd p \<notin> set available) pointers of
                Some p \<Rightarrow> Inl (unknown_pointer p available (ct_operation ct))
              | None \<Rightarrow> Inr ())))"

record writer_pass =
  wp_layout :: layout
  wp_private :: "(private_target \<times> value_slot) list"
  wp_body :: "private_body_writer list"
  wp_wire :: "private_wire_writer list"
  wp_signatures :: "signature list"
  wp_paths :: "string list list"

definition finish_writer_pass ::
  "model_table \<Rightarrow> (nat \<Rightarrow> nat \<Rightarrow> nat) \<Rightarrow> contract \<Rightarrow> layout \<Rightarrow> reserved \<Rightarrow> private_wire_writer list \<Rightarrow>
     sdk_error + writer_pass" where
  "finish_writer_pass known ord ct ly rv wire =
     (let protections = ct_protections ct in
      if wire \<noteq> [] \<and> protections = [] then Inl (PlanError ''FromProtection target fields require operation protections'')
      else if protections \<noteq> [] \<and> Option.is_none (ct_projection ct)
      then Inl (PlanError ''mandatory protections require a body projection'')
      else if protections \<noteq> [] \<and> set (map pw_requirement wire) \<noteq> set protections
      then Inl (PlanError ''body projection protection writers do not match operation protections'')
      else bindE (compile_signatures ord (ct_signing ct)) (\<lambda>(sigs, _).
           bindE (case ct_projection ct of
                    None \<Rightarrow> Inr []
                  | Some bp \<Rightarrow> compile_body_signature_paths known bp sigs (ct_operation ct)) (\<lambda>paths.
           bindE (validate_signature_pointers known ct ly sigs) (\<lambda>_.
           bindE (validate_body_writer_paths (map pw_path wire) paths) (\<lambda>_.
           bindE (validate_managed_body_writer_paths (map pb_path (rv_writers rv)) (map pw_path wire) paths
                    (keys (flat_body_slots ct ly))) (\<lambda>_.
             Inr \<lparr>wp_layout = rv_layout rv, wp_private = rv_output rv, wp_body = rv_writers rv, wp_wire = wire,
                  wp_signatures = sigs, wp_paths = paths\<rparr>))))))"

definition compile_writer_pass ::
  "model_table \<Rightarrow> (nat \<Rightarrow> (nat \<times> string) option) \<Rightarrow> (nat \<Rightarrow> nat \<Rightarrow> nat) \<Rightarrow> contract \<Rightarrow> layout \<Rightarrow>
     private_target list option list \<Rightarrow> sdk_error + writer_pass" where
  "compile_writer_pass known protects ord ct ly collections =
     bindE (reserve_private_bindings ct ly collections) (\<lambda>rv.
     bindE (case ct_projection ct of
              None \<Rightarrow> Inr []
            | Some bp \<Rightarrow> compile_private_wire_writers known protects (ClassT (bp_target bp))) (\<lambda>wire.
       finish_writer_pass known ord ct ly rv wire))"

section \<open>The graph of the phases\<close>

record crypto_side =
  cs_fields :: "string list list"
  cs_encoded :: bool

record crypto_profile =
  cp_name :: string
  cp_outbound :: "crypto_side option"
  cp_inbound :: "crypto_side option"

text \<open>
  \<open>_compile_graph_pass\<close>. A node compares by identity; the eight nodes made here take the first eight
  numbers, so nodes of the registry carry larger ones.
\<close>

definition side_fields :: "crypto_side option \<Rightarrow> bool" where
  "side_fields side = (case side of None \<Rightarrow> False | Some s \<Rightarrow> cs_fields s \<noteq> [])"

definition side_encoded :: "crypto_side option \<Rightarrow> bool" where
  "side_encoded side = (case side of None \<Rightarrow> False | Some s \<Rightarrow> cs_encoded s)"

definition outbound_of :: "crypto_profile option \<Rightarrow> crypto_side option" where
  "outbound_of crypto = Option.bind crypto cp_outbound"

definition inbound_of :: "crypto_profile option \<Rightarrow> crypto_side option" where
  "inbound_of crypto = Option.bind crypto cp_inbound"

definition only_if :: "bool \<Rightarrow> 'a \<Rightarrow> 'a option" where
  "only_if b x = (if b then Some x else None)"

fun first_some :: "'a option list \<Rightarrow> 'a \<Rightarrow> 'a" where
  "first_some [] d = d"
| "first_some (Some x # _) d = x"
| "first_some (None # os) d = first_some os d"

definition phase :: "nat \<Rightarrow> string \<Rightarrow> plan_kind \<Rightarrow> plan_node \<Rightarrow> plan_node" where
  "phase i n k previous = PlanNode i n k [] [] [previous]"

definition graph_nodes :: "contract \<Rightarrow> layout \<Rightarrow> writer_pass \<Rightarrow> crypto_profile option \<Rightarrow> plan_node list \<Rightarrow> plan_node list" where
  "graph_nodes ct ly wp crypto registry =
     (let first = PlanNode 0 ''bind'' BIND [] [] [];
          projection = only_if (\<not> Option.is_none (ct_projection ct))
            (PlanNode 1 ''body.projection'' BODY_PROJECTION (map snd (ly_projection ly)) [] [first]);
          wire = (case projection of
                    Some p \<Rightarrow> only_if (wp_wire wp \<noteq> []) (phase 2 ''body.private-wire'' PRIVATE_WIRE p)
                  | None \<Rightarrow> None);
          out_document = only_if (side_fields (outbound_of crypto))
            (PlanNode 3 ''crypto.outbound.document'' OUTBOUND_DOCUMENT_CRYPTO
              (case body_slot_of ct ly of Some s \<Rightarrow> [s] | None \<Rightarrow> []) [] [first_some [wire, projection] first]);
          prepare = phase 4 ''prepare'' PREPARE (first_some [out_document, wire, projection] first);
          out_encoded = only_if (side_encoded (outbound_of crypto))
            (phase 5 ''crypto.outbound.encoded'' OUTBOUND_ENCODED_CRYPTO prepare);
          sign = only_if (wp_signatures wp \<noteq> []) (phase 6 ''sign'' SIGN (first_some [out_encoded] prepare));
          in_encoded = only_if (side_encoded (inbound_of crypto))
            (phase 7 ''crypto.inbound.encoded'' INBOUND_ENCODED_CRYPTO (first_some [out_encoded] prepare));
          in_document = only_if (side_fields (inbound_of crypto))
            (phase 8 ''crypto.inbound.document'' INBOUND_DOCUMENT_CRYPTO (first_some [in_encoded, out_encoded] prepare)) in
      first # registry @ List.map_filter id
        [projection, wire, Some prepare, sign, out_document, out_encoded, in_encoded, in_document])"

definition idempotent_method :: "string \<Rightarrow> bool" where
  "idempotent_method m \<longleftrightarrow> map upper_char m \<in> {''GET'', ''HEAD'', ''OPTIONS'', ''PUT'', ''DELETE''}"

definition response_replay :: "contract \<Rightarrow> replay_policy" where
  "response_replay ct = \<lparr>replay_max_attempts = 1, replay_idempotent = idempotent_method (ct_method ct)\<rparr>"

text \<open>What the fingerprint holds beside the plan; \<open>identity\<close> is the text of the projection's types.\<close>

record fingerprint_texts =
  ft_projection :: "body_projection \<Rightarrow> sdk_error + string list"
  ft_requirement :: "nat \<Rightarrow> string"
  ft_encrypted :: string

definition wire_text :: "fingerprint_texts \<Rightarrow> private_wire_writer \<Rightarrow> string" where
  "wire_text ft w =
     ''private-wire:'' @ dotted (pw_path w) @ '':'' @ ft_requirement ft (pw_requirement w) @ '':'' @ pw_result_field w"

definition fingerprint_context ::
  "fingerprint_texts \<Rightarrow> contract \<Rightarrow> writer_pass \<Rightarrow> crypto_profile option \<Rightarrow> string list \<Rightarrow> sdk_error + string list" where
  "fingerprint_context ft ct wp crypto base =
     bindE (case ct_projection ct of None \<Rightarrow> Inr [] | Some bp \<Rightarrow> ft_projection ft bp) (\<lambda>projection.
       Inr (base @ projection @ map (wire_text ft) (wp_wire wp) @
            map (\<lambda>w. ''managed-private:'' @ dotted (pb_path w)) (wp_body wp) @
            map (\<lambda>p. ''body-signature:'' @ dotted p) (wp_paths wp) @
            (case crypto of None \<Rightarrow> [] | Some c \<Rightarrow> [''crypto:'' @ cp_name c, ''crypto-wire:'' @ ft_encrypted ft])))"

definition location_name :: "request_location option \<Rightarrow> string" where
  "location_name l = (case l of None \<Rightarrow> ''projection'' | Some p \<Rightarrow> location_text p)"

definition slot_fingerprints :: "layout \<Rightarrow> (string \<times> string option \<times> bool \<times> slot_cardinality) list" where
  "slot_fingerprints ly =
     map (\<lambda>s. (diagnostic_name s, Some (location_name (the (map_of (ly_places ly) (slot_id s)))), slot_required s, slot_card s))
       (ly_slots ly)"

section \<open>\<open>compile_endpoint\<close>\<close>

record compiled_contract =
  cc_contract :: contract
  cc_plan :: execution_plan
  cc_groups :: slot_groups
  cc_body_slot :: "value_slot option"
  cc_body_fields :: "(string, value_slot) dict"
  cc_layout :: layout
  cc_writers :: writer_pass

definition compile_endpoint ::
  "(annot \<Rightarrow> validator) \<Rightarrow> model_table \<Rightarrow> (nat \<Rightarrow> (nat \<times> string) option) \<Rightarrow> (nat \<Rightarrow> nat \<Rightarrow> nat) \<Rightarrow>
   (plan_payload \<Rightarrow> string) \<Rightarrow> fingerprint_texts \<Rightarrow> contract \<Rightarrow> crypto_profile option \<Rightarrow> plan_node list \<Rightarrow>
   request_scope option \<Rightarrow> (string \<times> string) list \<Rightarrow> string list \<Rightarrow> private_target list option list \<Rightarrow>
   sdk_error + compiled_contract" where
  "compile_endpoint checks known protects ord digest ft ct crypto registry scope reqs context collections =
     (if ct_operation ct = [] then Inl (PlanError ''operation_id must not be empty'')
      else bindE (compile_input_layout checks ct) (\<lambda>ly.
           bindE (compile_writer_pass known protects ord ct ly collections) (\<lambda>wp.
           bindE (operation_shape (ly_slots (wp_layout wp))) (\<lambda>sh.
           bindE (fingerprint_context ft ct wp crypto context) (\<lambda>full.
           bindE (compile_plan digest ord (ct_operation ct) sh (graph_nodes ct ly wp crypto registry)
                    scope reqs (Some (response_replay ct)) full (Some (slot_fingerprints (wp_layout wp)))) (\<lambda>plan.
             Inr \<lparr>cc_contract = ct, cc_plan = plan, cc_groups = ly_groups (wp_layout wp),
                  cc_body_slot = body_slot_of ct ly, cc_body_fields = flat_body_slots ct ly,
                  cc_layout = ly, cc_writers = wp\<rparr>))))))"

text \<open>\<open>bind_input\<close>: the values of a call, in the order of the mapping.\<close>

definition field_of_slot :: "layout \<Rightarrow> nat \<Rightarrow> string option" where
  "field_of_slot ly i = map_option fst (find (\<lambda>(_, s). slot_id s = i) (ly_input ly))"

definition binding_failure :: "string \<Rightarrow> layout \<Rightarrow> sdk_error \<Rightarrow> sdk_error" where
  "binding_failure operation ly e =
     (case e of
        SlotValueError i _ path \<Rightarrow>
          operation_binding_error ''invalid_value'' operation
            (case field_of_slot ly i of
               Some n \<Rightarrow> (case path of Some p \<Rightarrow> Some (n @ ''.'' @ p) | None \<Rightarrow> Some n)
             | None \<Rightarrow> None) BindPhase ''input value is invalid''
      | SlotBindingError i reason \<Rightarrow>
          operation_binding_error reason operation (field_of_slot ly i) BindPhase ''required input value is missing''
      | _ \<Rightarrow> if is_binding_error e
            then operation_binding_error ''binding_failed'' operation None BindPhase ''operation input binding failed''
            else e)"

definition bind_input :: "compiled_contract \<Rightarrow> (string, pyval) dict \<Rightarrow> sdk_error + (value_slot \<times> pyval) list" where
  "bind_input cc request =
     (let ly = cc_layout cc; operation = ct_operation (cc_contract cc);
          unknown = filter (\<lambda>n. n \<notin> set (keys (ly_input ly))) (keys request) in
      if unknown \<noteq> []
      then Inl (operation_binding_error ''unknown_input'' operation
             (case unknown of [n] \<Rightarrow> Some n | _ \<Rightarrow> None) BindPhase ''unknown input value'')
      else let arguments = map (\<lambda>(n, v). (the (map_of (ly_input ly) n), v)) request in
        (case from_bound (plan_shape (cc_plan cc)) arguments of
           Inr _ \<Rightarrow> Inr arguments
         | Inl e \<Rightarrow> Inl (binding_failure operation ly e)))"

text \<open>\<open>_slots\<close> of \<open>auth/core.py\<close>: the groups a session value is written into.\<close>

definition auth_groups :: "compiled_contract \<Rightarrow> slot_groups" where
  "auth_groups cc l = (if l = BodyL then cc_body_fields cc else cc_groups cc l)"

section \<open>What every layout keeps\<close>

text \<open>
  Slots are numbered as the shape has them; a group names a slot once, and the slot of a group has its
  name, its place and a descriptor.
\<close>

definition placed_slot_ok :: "layout \<Rightarrow> request_location \<Rightarrow> string \<Rightarrow> value_slot \<Rightarrow> bool" where
  "placed_slot_ok ly l n s \<longleftrightarrow>
     s \<in> set (ly_slots ly) \<and> map_of (ly_names ly) (slot_id s) = Some n \<and>
     map_of (ly_places ly) (slot_id s) = Some (Some l) \<and> map_of (ly_descriptors ly) (slot_id s) \<noteq> None"

definition layout_ok :: "layout \<Rightarrow> bool" where
  "layout_ok ly \<longleftrightarrow>
     map slot_id (ly_slots ly) = [0..<length (ly_slots ly)] \<and>
     (\<forall>l. distinct (keys (ly_groups ly l)) \<and> (\<forall>(n, s) \<in> set (ly_groups ly l). placed_slot_ok ly l n s)) \<and>
     (\<forall>s \<in> set (ly_slots ly). map_of (ly_places ly) (slot_id s) \<noteq> None) \<and>
     snd ` set (ly_input ly) \<subseteq> set (ly_slots ly)"

lemma layout_ok_empty: "layout_ok empty_layout"
  by (simp add: layout_ok_def empty_layout_def)

lemma layout_ids: "layout_ok ly \<Longrightarrow> s \<in> set (ly_slots ly) \<Longrightarrow> slot_id s < length (ly_slots ly)"
proof -
  assume "layout_ok ly" "s \<in> set (ly_slots ly)"
  then have "slot_id s \<in> set [0..<length (ly_slots ly)]"
    by (metis (no_types, lifting) image_eqI layout_ok_def set_map)
  then show ?thesis by simp
qed

lemma layout_slots_inj: "layout_ok ly \<Longrightarrow> inj_on slot_id (set (ly_slots ly)) \<and> distinct (ly_slots ly)"
  unfolding layout_ok_def by (metis distinct_map distinct_upt)

lemma placed_slot_ok_later:
  assumes "placed_slot_ok ly l n s" and "layout_ok ly" and "ly_slots ly' = ly_slots ly @ [t]"
    and "slot_id t = length (ly_slots ly)"
    and "\<And>i. i \<noteq> slot_id t \<Longrightarrow> map_of (ly_names ly') i = map_of (ly_names ly) i \<and>
      map_of (ly_places ly') i = map_of (ly_places ly) i \<and> map_of (ly_descriptors ly') i = map_of (ly_descriptors ly) i"
  shows "placed_slot_ok ly' l n s"
proof -
  have "slot_id s \<noteq> slot_id t"
    using layout_ids [OF assms(2), of s] assms(1,4) by (simp add: placed_slot_ok_def)
  then show ?thesis using assms by (simp add: placed_slot_ok_def)
qed

lemma extended_ok:
  assumes ly: "layout_ok ly" and s: "slot_id s = length (ly_slots ly)" and slots: "ly_slots ly' = ly_slots ly @ [s]"
    and same: "\<And>i. i \<noteq> slot_id s \<Longrightarrow> map_of (ly_names ly') i = map_of (ly_names ly) i \<and>
      map_of (ly_places ly') i = map_of (ly_places ly) i \<and> map_of (ly_descriptors ly') i = map_of (ly_descriptors ly) i"
    and place: "map_of (ly_places ly') (slot_id s) \<noteq> None"
    and grown: "\<And>k. distinct (keys (ly_groups ly' k))"
      "\<And>k m t. (m, t) \<in> set (ly_groups ly' k) \<Longrightarrow> (m, t) \<in> set (ly_groups ly k) \<or> placed_slot_ok ly' k m t"
    and given: "snd ` set (ly_input ly') \<subseteq> insert s (set (ly_slots ly))"
  shows "layout_ok ly'"
proof -
  have "placed_slot_ok ly' k m t" if "(m, t) \<in> set (ly_groups ly' k)" for k m t
    using grown(2) [OF that] placed_slot_ok_later [OF _ ly slots s same] ly by (fastforce simp: layout_ok_def)
  moreover have "map_of (ly_places ly') (slot_id t) \<noteq> None" if "t \<in> set (ly_slots ly')" for t
    using that ly place same [of "slot_id t"] slots by (cases "slot_id t = slot_id s") (auto simp: layout_ok_def)
  moreover have "map slot_id (ly_slots ly') = [0..<length (ly_slots ly')]" "snd ` set (ly_input ly') \<subseteq> set (ly_slots ly')"
    using ly s slots given by (auto simp: layout_ok_def)
  ultimately show ?thesis using grown(1) unfolding layout_ok_def by blast
qed

lemma add_slot_ok:
  assumes ly: "layout_ok ly" and s: "slot_id s = length (ly_slots ly)"
  shows "layout_ok (add_slot l n d s ly)"
proof (rule extended_ok [OF ly s])
  fix k m t assume "(m, t) \<in> set (ly_groups (add_slot l n d s ly) k)"
  moreover have "distinct (keys (ly_groups ly l))" using ly by (simp add: layout_ok_def)
  ultimately show "(m, t) \<in> set (ly_groups ly k) \<or> placed_slot_ok (add_slot l n d s ly) k m t"
    by (auto simp: add_slot_def set_dict_update placed_slot_ok_def split: if_splits)
qed (use ly in \<open>auto simp: add_slot_def layout_ok_def\<close>)

lemma value_of_update: "(a, b) \<in> set (AList.update k v d) \<Longrightarrow> b = v \<or> (a, b) \<in> set d"
  by (induction d) (auto split: if_splits)

lemma layout_ok_update [simp]:
  "layout_ok (ly\<lparr>ly_taken := a\<rparr>) = layout_ok ly" "layout_ok (ly\<lparr>ly_query_model := b\<rparr>) = layout_ok ly"
  "layout_ok (ly\<lparr>ly_session_body := c\<rparr>) = layout_ok ly" "layout_ok (ly\<lparr>ly_projection := e\<rparr>) = layout_ok ly"
  by (simp_all add: layout_ok_def placed_slot_ok_def)

lemma slot_id_new [simp]: "slot_id (new_slot ly n c r h) = length (ly_slots ly)"
  "slot_required (new_slot ly n c r h) = r" "slot_card (new_slot ly n c r h) = ONE"
  "slot_validator (new_slot ly n c r h) = c"
  by (simp_all add: new_slot_def)

lemmas layout_steps = query_model_step_def input_step_def source_slot_def inject_step_def auth_step_def

lemma query_model_step_ok: "query_model_step qt operation ly f = Inr ly' \<Longrightarrow> layout_ok ly \<Longrightarrow> layout_ok ly'"
  by (auto simp: query_model_step_def Let_def add_slot_ok split: if_splits option.splits)

lemma in_added [simp]: "s \<in> set (ly_slots (add_slot l n d s ly))"
  by (simp add: add_slot_def)

lemma source_slot_ok: "layout_ok ly \<Longrightarrow> layout_ok (source_slot checks f ly)"
  by (rule extended_ok) (auto simp: source_slot_def Let_def layout_ok_def dest!: value_of_update)

lemma placed_input_ok:
  assumes ly: "layout_ok ly" and s: "slot_id s = length (ly_slots ly)"
  shows "layout_ok ((add_slot l n d s ly)\<lparr>ly_taken := x, ly_input := AList.update m s (ly_input ly)\<rparr>)" (is "layout_ok ?ly")
proof (rule extended_ok [OF ly s])
  fix k m t assume "(m, t) \<in> set (ly_groups ?ly k)"
  moreover have "distinct (keys (ly_groups ly l))" using ly by (simp add: layout_ok_def)
  ultimately show "(m, t) \<in> set (ly_groups ly k) \<or> placed_slot_ok ?ly k m t"
    by (auto simp: add_slot_def set_dict_update placed_slot_ok_def split: if_splits)
qed (use ly in \<open>auto simp: add_slot_def layout_ok_def dest!: value_of_update\<close>)

lemma input_step_ok: "input_step checks operation ly f = Inr ly' \<Longrightarrow> layout_ok ly \<Longrightarrow> layout_ok ly'"
  by (auto simp: input_step_def Let_def bindE_Inr_iff source_slot_ok placed_input_ok split: if_splits option.splits)

lemma inject_step_ok: "inject_step ly ij = Inr ly' \<Longrightarrow> layout_ok ly \<Longrightarrow> layout_ok ly'"
  by (auto simp: inject_step_def Let_def add_slot_ok split: if_splits option.splits list.splits)

lemma auth_step_ok: "auth_step ct ly sp = Inr ly' \<Longrightarrow> layout_ok ly \<Longrightarrow> layout_ok ly'"
  by (auto simp: auth_step_def Let_def bindE_Inr_iff add_slot_ok split: if_splits)

text \<open>A compiled layout went through the four loops.\<close>

definition auth_pairs :: "auth_scheme list \<Rightarrow> (auth_scheme \<times> auth_placement) list" where
  "auth_pairs ss = concat (map (\<lambda>s. map (Pair s) (sc_placements s)) ss)"

lemma layout_passes:
  assumes "compile_input_layout checks ct = Inr ly"
  obtains ly1 ly2 ly3 ss where
    "(case ct_query_model ct of None \<Rightarrow> ly1 = empty_layout
      | Some qt \<Rightarrow> foldE (query_model_step qt (ct_operation ct)) empty_layout (qt_fields qt) = Inr ly1)"
    "foldE (input_step checks (ct_operation ct)) ly1 (ct_fields ct) = Inr ly2"
    "foldE inject_step ly2 (ct_inject ct) = Inr ly3"
    "security_schemes (ct_security ct) = Inr ss" "foldE (auth_step ct) ly3 (auth_pairs ss) = Inr ly"
  using assms by (auto simp: compile_input_layout_def bindE_Inr_iff auth_pairs_def split: option.splits)

text \<open>What all steps keep, the layout has.\<close>

lemma layout_invariant:
  assumes "compile_input_layout checks ct = Inr ly" and "P empty_layout"
    and "\<And>qt f a b. ct_query_model ct = Some qt \<Longrightarrow> P a \<Longrightarrow> query_model_step qt (ct_operation ct) a f = Inr b \<Longrightarrow> P b"
    and "\<And>f a b. f \<in> set (ct_fields ct) \<Longrightarrow> P a \<Longrightarrow> input_step checks (ct_operation ct) a f = Inr b \<Longrightarrow> P b"
    and "\<And>ij a b. ij \<in> set (ct_inject ct) \<Longrightarrow> P a \<Longrightarrow> inject_step a ij = Inr b \<Longrightarrow> P b"
    and "\<And>sp a b. P a \<Longrightarrow> auth_step ct a sp = Inr b \<Longrightarrow> P b"
  shows "P ly"
proof -
  from layout_passes [OF assms(1)] obtain ly1 ly2 ly3 ss where passes:
    "(case ct_query_model ct of None \<Rightarrow> ly1 = empty_layout
      | Some qt \<Rightarrow> foldE (query_model_step qt (ct_operation ct)) empty_layout (qt_fields qt) = Inr ly1)"
    "foldE (input_step checks (ct_operation ct)) ly1 (ct_fields ct) = Inr ly2"
    "foldE inject_step ly2 (ct_inject ct) = Inr ly3"
    "security_schemes (ct_security ct) = Inr ss" "foldE (auth_step ct) ly3 (auth_pairs ss) = Inr ly" .
  have "P ly1"
  proof (cases "ct_query_model ct")
    case (Some qt)
    with passes(1) have "foldE (query_model_step qt (ct_operation ct)) empty_layout (qt_fields qt) = Inr ly1" by simp
    then show ?thesis using foldE_invariant [of _ empty_layout _ ly1 P] assms(2,3) Some by blast
  qed (use passes(1) assms(2) in simp)
  then have "P ly2" using foldE_invariant [OF passes(2), of P] assms(4) by blast
  then have "P ly3" using foldE_invariant [OF passes(3), of P] assms(5) by blast
  then show ?thesis using foldE_invariant [OF passes(5), of P] assms(6) by blast
qed

lemma input_layout_ok: "compile_input_layout checks ct = Inr ly \<Longrightarrow> layout_ok ly"
  by (erule layout_invariant [where P = layout_ok])
    (blast intro: layout_ok_empty query_model_step_ok input_step_ok inject_step_ok auth_step_ok)+

text \<open>Managed protections extend a layout.\<close>

lemma reserve_step_cases:
  assumes "reserve_step ct base rv t = Inr rv'"
  obtains (same) "rv' = rv" "t \<in> fst ` set (rv_output rv)"
    | (managed) n s where "rv_layout rv' = add_slot CookieL n ManagedCookies s (rv_layout rv)"
        "slot_id s = length (ly_slots (rv_layout rv))" "\<not> slot_required s" "rv_output rv' = rv_output rv @ [(t, s)]"
        "n = ''<managed-cookie-set:'' @ digits_of (Suc (rv_cookie_sets rv)) @ ''>''" "rv_destinations rv' = rv_destinations rv"
    | (body) n p s where "t = PrivateBinding BodyL n p" "canonical BodyL n \<notin> set (rv_destinations rv)"
        "rv_layout rv' = rv_layout rv\<lparr>ly_slots := ly_slots (rv_layout rv) @ [s],
           ly_places := AList.update (slot_id s) (Some BodyL) (ly_places (rv_layout rv))\<rparr>"
        "slot_id s = length (ly_slots (rv_layout rv))" "\<not> slot_required s" "rv_output rv' = rv_output rv @ [(t, s)]"
        "rv_destinations rv' = canonical BodyL n # rv_destinations rv"
    | (placed) l n p s where "t = PrivateBinding l n p" "l \<noteq> BodyL" "canonical l n \<notin> set (rv_destinations rv)"
        "canonical l n \<notin> set (map (canonical l) (keys (ly_groups (rv_layout rv) l)))"
        "rv_layout rv' = add_slot l n (PlacedBy (private_placement l n)) s (rv_layout rv)"
        "slot_id s = length (ly_slots (rv_layout rv))" "\<not> slot_required s" "rv_output rv' = rv_output rv @ [(t, s)]"
        "rv_destinations rv' = canonical l n # rv_destinations rv"
proof (cases "t \<in> set (map fst (rv_output rv))")
  case True
  then show ?thesis using assms same by (simp add: reserve_step_def)
next
  case new: False
  show ?thesis
  proof (cases t)
    case (PrivateCookieSet a b c)
    with assms new show ?thesis by (intro managed) (auto simp: reserve_step_def Let_def)
  next
    case (PrivateBinding l n p)
    show ?thesis
    proof (cases "l = BodyL")
      case True
      with assms new PrivateBinding show ?thesis
        by (intro body [OF PrivateBinding [unfolded True]]) (auto simp: reserve_step_def Let_def bindE_Inr_iff split: if_splits)
    next
      case False
      with assms new PrivateBinding show ?thesis
        by (intro placed [OF PrivateBinding False]) (auto simp: reserve_step_def Let_def split: if_splits)
    qed
  qed
qed

lemma reserve_step_ok:
  assumes "reserve_step ct base rv t = Inr rv'" and "layout_ok (rv_layout rv)"
  shows "layout_ok (rv_layout rv')"
  using assms(1)
proof (cases rule: reserve_step_cases)
  case (body n p s)
  show ?thesis unfolding body(3)
    by (rule extended_ok [OF assms(2) body(4)]) (use assms(2) in \<open>auto simp: layout_ok_def\<close>)
qed (use assms(2) in \<open>simp_all add: add_slot_ok\<close>)

lemma foldE_collections:
  "foldE (collection_step ct base) rv cs = Inr rv' \<Longrightarrow>
     \<exists>ts. map Some ts = cs \<and> foldE (reserve_step ct base) rv (concat ts) = Inr rv'"
proof (induction cs arbitrary: rv)
  case (Cons c cs)
  then obtain rv1 where "collection_step ct base rv c = Inr rv1" and "foldE (collection_step ct base) rv1 cs = Inr rv'"
    by (auto simp: bindE_Inr_iff)
  moreover obtain t where "c = Some t" "foldE (reserve_step ct base) rv t = Inr rv1"
    using \<open>collection_step ct base rv c = Inr rv1\<close> by (cases c) (simp_all add: collection_step_def)
  moreover obtain ts where "map Some ts = cs" "foldE (reserve_step ct base) rv1 (concat ts) = Inr rv'"
    using Cons.IH \<open>foldE (collection_step ct base) rv1 cs = Inr rv'\<close> by blast
  ultimately have "map Some (t # ts) = c # cs" "foldE (reserve_step ct base) rv (concat (t # ts)) = Inr rv'"
    by (simp_all add: foldE_append)
  then show ?case by (intro exI [where x = "t # ts"] conjI)
qed simp

lemma reserve_invariant:
  assumes "reserve_private_bindings ct ly cs = Inr rv"
    and "P \<lparr>rv_layout = ly, rv_output = [], rv_writers = [], rv_destinations = [], rv_cookie_sets = 0\<rparr>"
    and "\<And>t a b. P a \<Longrightarrow> reserve_step ct ly a t = Inr b \<Longrightarrow> P b"
  shows "P rv"
  using foldE_collections [of ct ly _ cs rv] assms foldE_invariant [of "reserve_step ct ly" _ _ rv P]
  unfolding reserve_private_bindings_def by metis

text \<open>The layout of a compiled operation.\<close>

lemma endpoint_passes:
  assumes "compile_endpoint checks known protects ord digest ft ct crypto registry scope reqs context collections = Inr cc"
  obtains ly rv wp plan where "compile_input_layout checks ct = Inr ly"
    "reserve_private_bindings ct ly collections = Inr rv"
    "cc_contract cc = ct" "cc_layout cc = ly" "cc_writers cc = wp" "wp_layout wp = rv_layout rv"
    "cc_groups cc = ly_groups (rv_layout rv)" "wp_private wp = rv_output rv"
    "cc_body_fields cc = flat_body_slots ct ly" "cc_plan cc = plan" "plan_shape plan = ly_slots (rv_layout rv)"
    "compile_graph ord (graph_nodes ct ly wp crypto registry) = Inr (phases plan)"
proof -
  from assms obtain ly wp sh full plan where ly: "compile_input_layout checks ct = Inr ly"
    and wp: "compile_writer_pass known protects ord ct ly collections = Inr wp"
    and sh: "operation_shape (ly_slots (wp_layout wp)) = Inr sh"
    and plan: "compile_plan digest ord (ct_operation ct) sh (graph_nodes ct ly wp crypto registry) scope reqs
        (Some (response_replay ct)) full (Some (slot_fingerprints (wp_layout wp))) = Inr plan"
    and cc: "cc = \<lparr>cc_contract = ct, cc_plan = plan, cc_groups = ly_groups (wp_layout wp), cc_body_slot = body_slot_of ct ly,
        cc_body_fields = flat_body_slots ct ly, cc_layout = ly, cc_writers = wp\<rparr>"
    unfolding compile_endpoint_def
    by (cases "ct_operation ct = []") (simp_all add: bindE_Inr_iff, elim exE conjE, rule that, (assumption | rule sym, assumption)+)
  from wp obtain rv where rv: "reserve_private_bindings ct ly collections = Inr rv"
    and "wp_layout wp = rv_layout rv" "wp_private wp = rv_output rv"
    by (auto simp: compile_writer_pass_def finish_writer_pass_def Let_def bindE_Inr_iff split: if_splits)
  moreover from sh have "sh = ly_slots (wp_layout wp)" by (simp add: operation_shape_ok)
  ultimately show ?thesis
    using cc plan by (intro that [OF ly rv, of wp plan]) (auto simp: compile_plan_def Let_def bindE_Inr_iff)
qed

lemma reserved_layout_ok: "reserve_private_bindings ct ly cs = Inr rv \<Longrightarrow> layout_ok ly \<Longrightarrow> layout_ok (rv_layout rv)"
  by (erule reserve_invariant [where P = "\<lambda>rv. layout_ok (rv_layout rv)"]) (simp_all add: reserve_step_ok)

text \<open>Only inputs are required.\<close>

definition required_inputs :: "layout \<Rightarrow> bool" where
  "required_inputs ly \<longleftrightarrow> (\<forall>s \<in> set (ly_slots ly). slot_required s \<longrightarrow> s \<in> snd ` set (ly_input ly))"

definition grown :: "layout \<Rightarrow> layout \<Rightarrow> bool" where
  "grown a b \<longleftrightarrow>
     ly_input b = ly_input a \<and> (\<exists>ss. ly_slots b = ly_slots a @ ss \<and> (\<forall>s \<in> set ss. \<not> slot_required s)) \<and>
     (\<forall>l. set (keys (ly_groups a l)) \<subseteq> set (keys (ly_groups b l)))"

lemma grown_refl [simp]: "grown a a"
  by (simp add: grown_def)

lemma grown_trans:
  assumes "grown a b" "grown b c"
  shows "grown a c"
proof -
  from assms(1) obtain ss where "ly_slots b = ly_slots a @ ss" "\<forall>s \<in> set ss. \<not> slot_required s"
    unfolding grown_def by blast
  moreover from assms(2) obtain ts where "ly_slots c = ly_slots b @ ts" "\<forall>s \<in> set ts. \<not> slot_required s"
    unfolding grown_def by blast
  ultimately have "\<exists>ss. ly_slots c = ly_slots a @ ss \<and> (\<forall>s \<in> set ss. \<not> slot_required s)"
    by (intro exI [where x = "ss @ ts"]) auto
  moreover have "set (keys (ly_groups a l)) \<subseteq> set (keys (ly_groups c l))" for l
    using assms unfolding grown_def by (meson subset_trans)
  ultimately show ?thesis using assms unfolding grown_def by simp
qed

lemma grown_steps:
  "foldE f a xs = Inr b \<Longrightarrow> (\<And>s x t. f s x = Inr t \<Longrightarrow> grown s t) \<Longrightarrow> grown a b"
proof (induction xs arbitrary: a)
  case (Cons x xs)
  then obtain m where "f a x = Inr m" "foldE f m xs = Inr b" by (auto simp: bindE_Inr_iff)
  with Cons show ?case by (blast intro: grown_trans)
qed simp

lemma grown_add: "\<not> slot_required s \<Longrightarrow> grown a (add_slot l n d s a)"
  by (auto simp: grown_def add_slot_def)

lemma grown_update [simp]:
  "grown a (b\<lparr>ly_taken := t\<rparr>) = grown a b" "grown a (b\<lparr>ly_session_body := n\<rparr>) = grown a b"
  "grown a (b\<lparr>ly_taken := t, ly_query_model := q\<rparr>) = grown a b"
  by (simp_all add: grown_def)

lemma grown_unplaced: "\<not> slot_required s \<Longrightarrow> grown a (a\<lparr>ly_slots := ly_slots a @ [s], ly_places := p\<rparr>)"
  by (simp add: grown_def)

lemma reserve_step_grown: "reserve_step ct ly a t = Inr b \<Longrightarrow> grown (rv_layout a) (rv_layout b)"
  by (erule reserve_step_cases) (simp_all add: grown_add grown_unplaced)

lemma reserved_grown: "reserve_private_bindings ct ly cs = Inr rv \<Longrightarrow> grown ly (rv_layout rv)"
  by (erule reserve_invariant [where P = "\<lambda>rv. grown ly (rv_layout rv)"])
    (auto dest: reserve_step_grown intro: grown_trans)

lemma auth_step_grown: "auth_step ct a sp = Inr b \<Longrightarrow> grown a b"
  by (auto simp: auth_step_def Let_def bindE_Inr_iff grown_add split: if_splits)

text \<open>Every required slot is an input, when no two fields share a name.\<close>

lemma input_step_extends:
  "input_step checks operation a f = Inr b \<Longrightarrow>
     \<exists>s. ly_slots b = ly_slots a @ [s] \<and> ly_input b = AList.update (if_name f) s (ly_input a)"
  by (auto simp: input_step_def source_slot_def add_slot_def Let_def bindE_Inr_iff split: if_splits option.splits)

lemma input_step_required:
  assumes step: "input_step checks operation a f = Inr b" and a: "required_inputs a" and new: "if_name f \<notin> set (keys (ly_input a))"
  shows "required_inputs b \<and> set (keys (ly_input b)) = insert (if_name f) (set (keys (ly_input a)))"
proof -
  from input_step_extends [OF step] obtain s
    where s: "ly_slots b = ly_slots a @ [s]" "ly_input b = AList.update (if_name f) s (ly_input a)" by blast
  with new have "ly_input b = ly_input a @ [(if_name f, s)]" by (simp add: keys_update_absent)
  then show ?thesis using a s(1) by (auto simp: required_inputs_def)
qed

lemma not_required_step: "grown a b \<Longrightarrow> required_inputs a \<Longrightarrow> required_inputs b"
  by (auto simp: grown_def required_inputs_def)

lemma query_model_step_grown: "query_model_step qt operation a f = Inr b \<Longrightarrow> grown a b"
  by (auto simp: query_model_step_def grown_add Let_def split: if_splits option.splits)

lemma inject_step_grown: "inject_step a ij = Inr b \<Longrightarrow> grown a b"
  by (auto simp: inject_step_def grown_add Let_def split: if_splits option.splits list.splits)

lemma input_layout_required:
  assumes ly: "compile_input_layout checks ct = Inr ly" and names: "distinct (map if_name (ct_fields ct))"
  shows "required_inputs ly"
proof -
  from layout_passes [OF ly] obtain ly1 ly2 ly3 ss where passes:
    "(case ct_query_model ct of None \<Rightarrow> ly1 = empty_layout
      | Some qt \<Rightarrow> foldE (query_model_step qt (ct_operation ct)) empty_layout (qt_fields qt) = Inr ly1)"
    "foldE (input_step checks (ct_operation ct)) ly1 (ct_fields ct) = Inr ly2"
    "foldE inject_step ly2 (ct_inject ct) = Inr ly3"
    "security_schemes (ct_security ct) = Inr ss" "foldE (auth_step ct) ly3 (auth_pairs ss) = Inr ly" .
  have start: "grown empty_layout ly1"
    using passes(1) by (cases "ct_query_model ct") (auto elim!: grown_steps dest: query_model_step_grown)
  have "required_inputs ly2 \<and> set (keys (ly_input ly2)) = set (map if_name (ct_fields ct))"
  proof (rule foldE_prefix_invariant [OF passes(2), where P = "\<lambda>fs a. required_inputs a \<and> set (keys (ly_input a)) = set (map if_name fs)"])
    show "required_inputs ly1 \<and> set (keys (ly_input ly1)) = set (map if_name [])"
      using start by (auto simp: grown_def required_inputs_def empty_layout_def)
  next
    fix ys x zs a b
    assume "ct_fields ct = ys @ x # zs" "required_inputs a \<and> set (keys (ly_input a)) = set (map if_name ys)"
      "input_step checks (ct_operation ct) a x = Inr b"
    then show "required_inputs b \<and> set (keys (ly_input b)) = set (map if_name (ys @ [x]))"
      using input_step_required [of checks "ct_operation ct" a x b] names by auto
  qed
  then have "required_inputs ly3"
    using foldE_invariant [OF passes(3), of required_inputs] inject_step_grown not_required_step by blast
  then show ?thesis
    using foldE_invariant [OF passes(5), of required_inputs] auth_step_grown not_required_step by blast
qed

text \<open>Each place of the session has a slot.\<close>

lemma first_slot_chosen:
  assumes "p \<in> set ps" "ap_name p \<in> set (keys (g (ap_location p)))"
  shows "first_slot g ps \<noteq> None"
  using assms by (induction ps) (auto split: option.splits simp: map_of_eq_None_iff)

lemma auth_step_name:
  assumes "auth_step ct a (s, pl) = Inr b"
  obtains p where "p \<in> set (chain_of pl)" "ap_name p \<in> set (keys (ly_groups b (ap_location p)))"
proof -
  from assms obtain p where p: "placement_for ct pl = Inr p" and "ap_name p \<in> set (keys (ly_groups b (ap_location p)))"
    by (auto simp: auth_step_def add_slot_def Let_def bindE_Inr_iff split: if_splits)
  moreover from p have "p \<in> set (chain_of pl)"
    by (auto simp: placement_for_def find_Some_iff split: option.splits)
  ultimately show ?thesis using that by blast
qed

lemma auth_steps_name:
  assumes "foldE (auth_step ct) a sps = Inr b" and "(s, pl) \<in> set sps"
  obtains p where "p \<in> set (chain_of pl)" "ap_name p \<in> set (keys (ly_groups b (ap_location p)))"
proof -
  from assms(2) obtain xs ys where sps: "sps = xs @ (s, pl) # ys" by (auto dest: split_list)
  with assms(1) obtain m1 m2 where m1: "auth_step ct m1 (s, pl) = Inr m2" and m2: "foldE (auth_step ct) m2 ys = Inr b"
    by (auto simp: foldE_append bindE_Inr_iff)
  from auth_step_name [OF m1] obtain p
    where "p \<in> set (chain_of pl)" "ap_name p \<in> set (keys (ly_groups m2 (ap_location p)))" .
  moreover have "grown m2 b" by (rule grown_steps [OF m2 auth_step_grown])
  ultimately show ?thesis by (intro that [of p]) (auto simp: grown_def)
qed

text \<open>A name of the body is a field's, an injected one or one of the session.\<close>

definition body_names_known :: "contract \<Rightarrow> layout \<Rightarrow> bool" where
  "body_names_known ct ly \<longleftrightarrow>
     (\<forall>n \<in> set (keys (ly_groups ly BodyL)).
        (\<exists>f \<in> set (ct_fields ct). if_location f = Some BodyL \<and> if_wire f = Some n \<and> if_name f \<in> set (keys (ly_input ly))) \<or>
        (\<exists>ij \<in> set (ct_inject ct). body_inject ij \<and> marker_name (ij_placement ij) = Some n) \<or>
        n \<in> set (ly_session_body ly))"

lemma body_names_step:
  assumes "body_names_known ct a" and "set (keys (ly_input a)) \<subseteq> set (keys (ly_input b))"
    and "set (ly_session_body a) \<subseteq> set (ly_session_body b)"
    and "\<And>n. n \<in> set (keys (ly_groups b BodyL)) \<Longrightarrow> n \<notin> set (keys (ly_groups a BodyL)) \<Longrightarrow>
      (\<exists>f \<in> set (ct_fields ct). if_location f = Some BodyL \<and> if_wire f = Some n \<and> if_name f \<in> set (keys (ly_input b))) \<or>
      (\<exists>ij \<in> set (ct_inject ct). body_inject ij \<and> marker_name (ij_placement ij) = Some n) \<or> n \<in> set (ly_session_body b)"
  shows "body_names_known ct b"
  unfolding body_names_known_def
proof
  fix n assume n: "n \<in> set (keys (ly_groups b BodyL))"
  show "(\<exists>f \<in> set (ct_fields ct). if_location f = Some BodyL \<and> if_wire f = Some n \<and> if_name f \<in> set (keys (ly_input b))) \<or>
      (\<exists>ij \<in> set (ct_inject ct). body_inject ij \<and> marker_name (ij_placement ij) = Some n) \<or> n \<in> set (ly_session_body b)"
  proof (cases "n \<in> set (keys (ly_groups a BodyL))")
    case True
    with assms(1) have "(\<exists>f \<in> set (ct_fields ct). if_location f = Some BodyL \<and> if_wire f = Some n \<and> if_name f \<in> set (keys (ly_input a))) \<or>
      (\<exists>ij \<in> set (ct_inject ct). body_inject ij \<and> marker_name (ij_placement ij) = Some n) \<or> n \<in> set (ly_session_body a)"
      unfolding body_names_known_def by blast
    then show ?thesis using assms(2,3) by blast
  qed (use assms(4) [OF n] in blast)
qed

text \<open>What a step adds to the body's names.\<close>

definition body_names_added :: "contract \<Rightarrow> layout \<Rightarrow> layout \<Rightarrow> string list \<Rightarrow> bool" where
  "body_names_added ct a b ns \<longleftrightarrow>
     set (keys (ly_groups b BodyL)) \<subseteq> set (keys (ly_groups a BodyL)) \<union> set ns \<and>
     set (keys (ly_input a)) \<subseteq> set (keys (ly_input b)) \<and> set (ly_session_body a) \<subseteq> set (ly_session_body b)"

lemma body_names_addedI:
  "ly_groups b BodyL = ly_groups a BodyL \<or> (\<exists>n \<in> set ns. \<exists>s. ly_groups b BodyL = AList.update n s (ly_groups a BodyL)) \<Longrightarrow>
     fst ` set (ly_input a) \<subseteq> fst ` set (ly_input b) \<Longrightarrow>
     set (ly_session_body a) \<subseteq> set (ly_session_body b) \<Longrightarrow> body_names_added ct a b ns"
  unfolding body_names_added_def list.set_map by (elim disjE bexE exE) simp_all

lemma query_model_step_body: "query_model_step qt operation a f = Inr b \<Longrightarrow> body_names_added ct a b []"
  by (rule body_names_addedI) (auto simp: query_model_step_def add_slot_def Let_def split: if_splits option.splits)

lemma input_step_body:
  assumes step: "input_step checks operation a f = Inr b"
  shows "body_names_added ct a b (if if_location f = Some BodyL then [the (if_wire f)] else []) \<and> if_name f \<in> set (keys (ly_input b)) \<and>
     (if_location f = Some BodyL \<and> set (keys (ly_groups b BodyL)) \<noteq> set (keys (ly_groups a BodyL)) \<longrightarrow> if_wire f \<noteq> None)"
proof -
  from input_step_extends [OF step] obtain s where "ly_input b = AList.update (if_name f) s (ly_input a)" by blast
  then have given: "fst ` set (ly_input b) = insert (if_name f) (fst ` set (ly_input a))" by simp
  have "ly_session_body b = ly_session_body a" and "ly_groups b BodyL = ly_groups a BodyL \<or>
      (\<exists>n s. if_location f = Some BodyL \<and> if_wire f = Some n \<and> ly_groups b BodyL = AList.update n s (ly_groups a BodyL))"
    using step by (auto simp: input_step_def source_slot_def add_slot_def Let_def bindE_Inr_iff split: if_splits option.splits)
  then show ?thesis
    using given by (intro conjI body_names_addedI) auto
qed

lemma inject_step_body:
  "inject_step a ij = Inr b \<Longrightarrow>
     body_names_added ct a b (if body_inject ij then [the (marker_name (ij_placement ij))] else []) \<and> marker_name (ij_placement ij) \<noteq> None"
  by (intro conjI body_names_addedI)
    (auto simp: inject_step_def body_inject_def add_slot_def Let_def split: if_splits option.splits list.splits)

lemma auth_step_body: "auth_step ct a sp = Inr b \<Longrightarrow> body_names_added ct a b (ly_session_body b)"
  by (rule body_names_addedI) (auto simp: auth_step_def add_slot_def Let_def bindE_Inr_iff split: if_splits)

lemma input_layout_body_names: "compile_input_layout checks ct = Inr ly \<Longrightarrow> body_names_known ct ly"
proof (erule layout_invariant [where P = "body_names_known ct"])
  fix qt f a b assume a: "body_names_known ct a" and step: "query_model_step qt (ct_operation ct) a f = Inr b"
  note added = query_model_step_body [OF step, of ct, unfolded body_names_added_def]
  show "body_names_known ct b"
    by (rule body_names_step [OF a]) (use added in auto)
next
  fix f a b assume f: "f \<in> set (ct_fields ct)" and a: "body_names_known ct a" and step: "input_step checks (ct_operation ct) a f = Inr b"
  note added = input_step_body [OF step, of ct]
  show "body_names_known ct b"
  proof (rule body_names_step [OF a])
    fix n assume "n \<in> set (keys (ly_groups b BodyL))" "n \<notin> set (keys (ly_groups a BodyL))"
    then have "if_location f = Some BodyL \<and> if_wire f = Some n \<and> if_name f \<in> set (keys (ly_input b))"
      using added unfolding body_names_added_def by (auto split: if_splits)
    then show "(\<exists>f \<in> set (ct_fields ct). if_location f = Some BodyL \<and> if_wire f = Some n \<and> if_name f \<in> set (keys (ly_input b))) \<or>
        (\<exists>ij \<in> set (ct_inject ct). body_inject ij \<and> marker_name (ij_placement ij) = Some n) \<or> n \<in> set (ly_session_body b)"
      using f by blast
  qed (use added in \<open>simp_all add: body_names_added_def\<close>)
next
  fix ij a b assume ij: "ij \<in> set (ct_inject ct)" and a: "body_names_known ct a" and step: "inject_step a ij = Inr b"
  note added = inject_step_body [OF step, of ct]
  show "body_names_known ct b"
  proof (rule body_names_step [OF a])
    fix n assume "n \<in> set (keys (ly_groups b BodyL))" "n \<notin> set (keys (ly_groups a BodyL))"
    then have "body_inject ij \<and> marker_name (ij_placement ij) = Some n"
      using added unfolding body_names_added_def by (auto split: if_splits)
    then show "(\<exists>f \<in> set (ct_fields ct). if_location f = Some BodyL \<and> if_wire f = Some n \<and> if_name f \<in> set (keys (ly_input b))) \<or>
        (\<exists>ij \<in> set (ct_inject ct). body_inject ij \<and> marker_name (ij_placement ij) = Some n) \<or> n \<in> set (ly_session_body b)"
      using ij by blast
  qed (use added in \<open>simp_all add: body_names_added_def\<close>)
next
  fix sp a b assume a: "body_names_known ct a" and step: "auth_step ct a sp = Inr b"
  show "body_names_known ct b"
    using auth_step_body [OF step] by (intro body_names_step [OF a]) (auto simp: body_names_added_def)
qed (simp add: body_names_known_def empty_layout_def)

lemma flat_field_kept:
  "n \<in> set (keys d) \<Longrightarrow>
     n \<in> set (keys (fold (\<lambda>f d. case (w f, g f) of (Some n, Some s) \<Rightarrow> AList.update n s d | _ \<Rightarrow> d) fs d))"
  by (induction fs arbitrary: d) (auto split: option.splits)

lemma flat_field_added:
  "f \<in> set fs \<Longrightarrow> w f = Some n \<Longrightarrow> g f \<noteq> None \<Longrightarrow>
     n \<in> set (keys (fold (\<lambda>f d. case (w f, g f) of (Some n, Some s) \<Rightarrow> AList.update n s d | _ \<Rightarrow> d) fs d))"
proof (induction fs arbitrary: d)
  case (Cons x fs)
  show ?case
  proof (cases "f = x")
    case True
    with Cons.prems obtain s where "w x = Some n" "g x = Some s" by auto
    then show ?thesis using flat_field_kept [of n "AList.update n s d" w g fs] by simp
  qed (use Cons in simp)
qed simp

lemma body_field_step_keys:
  "fst ` set (body_field_step ly d n) = fst ` set d \<union> ({n} \<inter> fst ` set (ly_groups ly BodyL))"
proof (cases "map_of (ly_groups ly BodyL) n")
  case (Some s)
  then have "n \<in> fst ` set (ly_groups ly BodyL)" by (force dest: map_of_SomeD)
  with Some show ?thesis by (auto simp: body_field_step_def)
next
  case None
  then have "n \<notin> fst ` set (ly_groups ly BodyL)" by (simp add: map_of_eq_None_iff)
  with None show ?thesis by (simp add: body_field_step_def)
qed

lemma body_field_steps_keys:
  "fst ` set (foldl (body_field_step ly) d ns) = fst ` set d \<union> (set ns \<inter> fst ` set (ly_groups ly BodyL))"
  by (induction ns arbitrary: d) (auto simp: body_field_step_keys)

text \<open>A body name that is no root body's is among the flat fields.\<close>

lemma flat_body_names:
  assumes known: "body_names_known ct ly" and n: "n \<in> set (keys (ly_groups ly BodyL))"
    and placed: "\<forall>f \<in> set (ct_fields ct). if_location f = Some BodyL \<longrightarrow> is_body_field f \<or> is_root_body f"
    and root: "\<forall>f \<in> set (ct_fields ct). is_root_body f \<longrightarrow> if_wire f \<noteq> Some n"
  shows "n \<in> set (keys (flat_body_slots ct ly))"
proof -
  have "(\<exists>f \<in> set (filter is_body_field (ct_fields ct)). if_wire f = Some n \<and> map_of (ly_input ly) (if_name f) \<noteq> None) \<or>
      (\<exists>ij \<in> set (filter body_inject (ct_inject ct)). marker_name (ij_placement ij) = Some n) \<or> n \<in> set (ly_session_body ly)"
    using known n placed root unfolding body_names_known_def by (fastforce simp: map_of_eq_None_iff)
  then show ?thesis
  proof (elim disjE bexE conjE)
    fix f assume "f \<in> set (filter is_body_field (ct_fields ct))" "if_wire f = Some n" "map_of (ly_input ly) (if_name f) \<noteq> None"
    from flat_field_added [where w = if_wire and g = "\<lambda>f. map_of (ly_input ly) (if_name f)", OF this]
    show ?thesis by (simp add: flat_body_slots_def body_field_steps_keys)
  next
    fix ij assume "ij \<in> set (filter body_inject (ct_inject ct))" "marker_name (ij_placement ij) = Some n"
    then show ?thesis using n by (force simp: flat_body_slots_def body_field_steps_keys)
  next
    assume "n \<in> set (ly_session_body ly)"
    then show ?thesis using n by (simp add: flat_body_slots_def body_field_steps_keys)
  qed
qed

section \<open>Compiled operations\<close>

text \<open>The nodes made here, whatever the operation has of projection, writers, crypto and signatures.\<close>

lemma first_some_in: "first_some os d = d \<or> Some (first_some os d) \<in> set os"
  by (induction os d rule: first_some.induct) auto

definition follows :: "plan_node list \<Rightarrow> plan_node \<Rightarrow> bool" where
  "follows nodes n \<longleftrightarrow> writes n = [] \<and> (\<forall>d \<in> set (after n). d \<in> set nodes \<and> node_kind d < node_kind n)"

lemma only_if_Some [simp]: "only_if b x = Some y \<longleftrightarrow> b \<and> y = x"
  by (auto simp: only_if_def)

lemma phase_sel [simp]: "node_id (phase i n k p) = i" "node_kind (phase i n k p) = k" "after (phase i n k p) = [p]"
  "writes (phase i n k p) = []"
  by (simp_all add: phase_def)

lemma set_map_filter: "x \<in> set (List.map_filter id os) \<longleftrightarrow> Some x \<in> set os"
  by (force simp: List.map_filter_def)

lemma numbered_options:
  "list_all2 (\<lambda>k o'. \<forall>x. o' = Some x \<longrightarrow> f x = k) ks os \<Longrightarrow>
     set (map f (List.map_filter id os)) \<subseteq> set ks \<and> (distinct ks \<longrightarrow> distinct (map f (List.map_filter id os)))"
  by (induction rule: list_all2_induct) (auto simp: map_filter_simps split: option.splits)

lemma graph_nodes_facts:
  "list_all (follows (graph_nodes ct ly wp crypto [])) (graph_nodes ct ly wp crypto []) \<and>
   distinct (node_ids (graph_nodes ct ly wp crypto []))"
proof -
  define bind where "bind = PlanNode 0 ''bind'' BIND [] [] []"
  define projection where "projection = only_if (\<not> Option.is_none (ct_projection ct))
    (PlanNode 1 ''body.projection'' BODY_PROJECTION (map snd (ly_projection ly)) [] [bind])"
  define wire where "wire = (case projection of
      Some p \<Rightarrow> only_if (wp_wire wp \<noteq> []) (phase 2 ''body.private-wire'' PRIVATE_WIRE p) | None \<Rightarrow> None)"
  define out_document where "out_document = only_if (side_fields (outbound_of crypto))
    (PlanNode 3 ''crypto.outbound.document'' OUTBOUND_DOCUMENT_CRYPTO
      (case body_slot_of ct ly of Some s \<Rightarrow> [s] | None \<Rightarrow> []) [] [first_some [wire, projection] bind])"
  define prepare where "prepare = phase 4 ''prepare'' PREPARE (first_some [out_document, wire, projection] bind)"
  define out_encoded where "out_encoded = only_if (side_encoded (outbound_of crypto))
    (phase 5 ''crypto.outbound.encoded'' OUTBOUND_ENCODED_CRYPTO prepare)"
  define sign where "sign = only_if (wp_signatures wp \<noteq> []) (phase 6 ''sign'' SIGN (first_some [out_encoded] prepare))"
  define in_encoded where "in_encoded = only_if (side_encoded (inbound_of crypto))
    (phase 7 ''crypto.inbound.encoded'' INBOUND_ENCODED_CRYPTO (first_some [out_encoded] prepare))"
  define in_document where "in_document = only_if (side_fields (inbound_of crypto))
    (phase 8 ''crypto.inbound.document'' INBOUND_DOCUMENT_CRYPTO (first_some [in_encoded, out_encoded] prepare))"
  let ?os = "[projection, wire, Some prepare, sign, out_document, out_encoded, in_encoded, in_document]"
  have nodes: "graph_nodes ct ly wp crypto [] = bind # List.map_filter id ?os"
    by (simp add: graph_nodes_def Let_def bind_def projection_def wire_def out_document_def prepare_def
        out_encoded_def sign_def in_encoded_def in_document_def)
  have p: "node_id x = 1 \<and> node_kind x = BODY_PROJECTION \<and> writes x = [] \<and> after x = [bind]"
    if "projection = Some x" for x using that by (simp add: projection_def)
  have w: "\<exists>p. projection = Some p \<and> node_id x = 2 \<and> node_kind x = PRIVATE_WIRE \<and> writes x = [] \<and> after x = [p]"
    if "wire = Some x" for x using that by (auto simp: wire_def split: option.splits)
  then have wk: "node_id x = 2 \<and> node_kind x = PRIVATE_WIRE" if "wire = Some x" for x using that by blast
  have od: "node_id x = 3 \<and> node_kind x = OUTBOUND_DOCUMENT_CRYPTO \<and> writes x = [] \<and> after x = [first_some [wire, projection] bind]"
    if "out_document = Some x" for x using that by (simp add: out_document_def)
  have oe: "node_id x = 5 \<and> node_kind x = OUTBOUND_ENCODED_CRYPTO \<and> writes x = [] \<and> after x = [prepare]"
    if "out_encoded = Some x" for x using that by (simp add: out_encoded_def)
  have sg: "node_id x = 6 \<and> node_kind x = SIGN \<and> writes x = [] \<and> after x = [first_some [out_encoded] prepare]"
    if "sign = Some x" for x using that by (simp add: sign_def)
  have ie: "node_id x = 7 \<and> node_kind x = INBOUND_ENCODED_CRYPTO \<and> writes x = [] \<and> after x = [first_some [out_encoded] prepare]"
    if "in_encoded = Some x" for x using that by (simp add: in_encoded_def)
  have idoc: "node_id x = 8 \<and> node_kind x = INBOUND_DOCUMENT_CRYPTO \<and> writes x = [] \<and> after x = [first_some [in_encoded, out_encoded] prepare]"
    if "in_document = Some x" for x using that by (simp add: in_document_def)
  note kinds = less_plan_kind_def bind_def prepare_def
  have mem: "x \<in> set (graph_nodes ct ly wp crypto []) \<longleftrightarrow> x = bind \<or> Some x \<in> set ?os" for x
    unfolding nodes list.set(2) [of bind "List.map_filter id ?os"] insert_iff set_map_filter by (rule refl)
  have "follows (graph_nodes ct ly wp crypto []) bind" by (simp add: follows_def bind_def)
  moreover have "follows (graph_nodes ct ly wp crypto []) x" if "projection = Some x" for x
    using p [OF that] by (auto simp: follows_def mem kinds)
  moreover have "follows (graph_nodes ct ly wp crypto []) x" if "wire = Some x" for x
    using w [OF that] p by (auto simp: follows_def mem kinds)
  moreover have "follows (graph_nodes ct ly wp crypto []) x" if "out_document = Some x" for x
    using od [OF that] first_some_in [of "[wire, projection]" bind] wk p by (auto simp: follows_def mem kinds)
  moreover have "follows (graph_nodes ct ly wp crypto []) prepare"
    using first_some_in [of "[out_document, wire, projection]" bind] od wk p by (auto simp: follows_def mem kinds)
  moreover have "follows (graph_nodes ct ly wp crypto []) x" if "out_encoded = Some x" for x
    using oe [OF that] by (auto simp: follows_def mem kinds)
  moreover have "follows (graph_nodes ct ly wp crypto []) x" if "sign = Some x" for x
    using sg [OF that] first_some_in [of "[out_encoded]" prepare] oe by (auto simp: follows_def mem kinds)
  moreover have "follows (graph_nodes ct ly wp crypto []) x" if "in_encoded = Some x" for x
    using ie [OF that] first_some_in [of "[out_encoded]" prepare] oe by (auto simp: follows_def mem kinds)
  moreover have "follows (graph_nodes ct ly wp crypto []) x" if "in_document = Some x" for x
    using idoc [OF that] first_some_in [of "[in_encoded, out_encoded]" prepare] oe ie by (auto simp: follows_def mem kinds)
  ultimately have "follows (graph_nodes ct ly wp crypto []) x" if "x = bind \<or> Some x \<in> set ?os" for x
    using that by (auto dest: sym)
  then have "list_all (follows (graph_nodes ct ly wp crypto [])) (graph_nodes ct ly wp crypto [])"
    unfolding list_all_iff using mem by blast
  moreover have "distinct (node_ids (graph_nodes ct ly wp crypto []))"
  proof -
    have "list_all2 (\<lambda>k o'. \<forall>x. o' = Some x \<longrightarrow> node_id x = k) [1, 2, 4, 6, 3, 5, 7, 8] ?os"
      using p wk od oe sg ie idoc by (simp add: prepare_def)
    from numbered_options [OF this] show ?thesis by (auto simp: nodes bind_def)
  qed
  ultimately show ?thesis by blast
qed

text \<open>A node that only follows nodes of the plan of earlier phases has no part in a cycle.\<close>

lemma earlier_phases_acyclic:
  assumes "list_all (follows nodes) nodes"
    and "distinct (node_ids nodes)"
  shows "declared_ok nodes \<and> acyclic (plan_edges nodes)"
proof -
  let ?kind = "\<lambda>i. kind_value (node_kind (by_id nodes i))"
  have edges: "plan_edges nodes = after_edges nodes"
    using assms(1) by (auto simp: plan_edges_def read_edges_def list_all_iff follows_def)
  have "?kind a < ?kind b" if "(a, b) \<in> after_edges nodes" for a b
    using that assms by (auto simp: after_edges_def less_plan_kind_def list_all_iff follows_def)
  then have "acyclic (plan_edges nodes)"
    unfolding edges by (intro acyclicI_order [where f = "\<lambda>i. - ?kind i"]) simp
  moreover have "written_slots nodes = []" using assms(1) by (simp add: written_slots_def list_all_iff follows_def)
  ultimately show ?thesis
    using assms by (auto simp: declared_ok_def reads_ok_def after_ok_def list_all_iff follows_def intro: less_imp_le)
qed

text \<open>
  C32. The graph of an operation always compiles: with or without a projection, private writers,
  outbound and inbound transformations and signatures, the plan holds every node once and the phases
  run in their order.
\<close>

theorem operation_graph_compiles:
  "\<exists>out. compile_graph ord (graph_nodes ct ly wp crypto []) = Inr out \<and>
     mset out = mset (graph_nodes ct ly wp crypto []) \<and> sorted (map node_kind out)"
proof -
  let ?nodes = "graph_nodes ct ly wp crypto []"
  have "declared_ok ?nodes \<and> acyclic (plan_edges ?nodes)"
    by (rule earlier_phases_acyclic [OF graph_nodes_facts [THEN conjunct1] graph_nodes_facts [THEN conjunct2]])
  then obtain out where out: "compile_graph ord ?nodes = Inr out"
    using compile_graph_succeeds_iff by blast
  have "one_object ?nodes"
    using graph_nodes_facts [of ct ly wp crypto]
    by (auto simp: one_object_def distinct_map inj_on_def list_all_iff follows_def)
  then show ?thesis using out compile_graph_mset [OF out] compile_graph_phases_sorted [OF out] by blast
qed

text \<open>
  C30. For an operation as inspection gives its fields (the location of a field is that of its marker),
  and without a root body whose wire name is a place of the session: every place of every scheme of
  its session has a slot in the compiled contract, whether it is in the headers, the query, the
  cookies or beside the flat fields of the body, so a call never fails because the target of a
  credential is not declared. With a root body of that name the operation compiles and the place has
  no slot (\<open>root_body_hides_session_place\<close>).
\<close>

theorem session_places_have_slots:
  assumes "compile_endpoint checks known protects ord digest ft ct crypto registry scope reqs context collections = Inr cc"
    and "security_schemes (ct_security ct) = Inr ss" and "s \<in> set ss" and "pl \<in> set (sc_placements s)"
    and "\<forall>f \<in> set (ct_fields ct). if_location f = map_option placement_location (if_placement f)"
    and "\<forall>f \<in> set (ct_fields ct). is_root_body f \<longrightarrow> if_wire f \<notin> (Some \<circ> ap_name) ` set (chain_of pl)"
  shows "first_slot (auth_groups cc) (chain_of pl) \<noteq> None \<and>
    binding_operation tx (auth_groups cc) v pl \<noteq>
      Inl (PlanError (''auth target is not declared: '' @ location_text (ap_location (fst pl)) @ ''.'' @ ap_name (fst pl)))"
proof -
  from endpoint_passes [OF assms(1)] obtain ly rv where ly: "compile_input_layout checks ct = Inr ly"
    and rv: "reserve_private_bindings ct ly collections = Inr rv"
    and cc: "cc_groups cc = ly_groups (rv_layout rv)" "cc_body_fields cc = flat_body_slots ct ly" by blast
  from layout_passes [OF ly] assms(2) obtain ly3 where loop: "foldE (auth_step ct) ly3 (auth_pairs ss) = Inr ly" by auto
  have "(s, pl) \<in> set (auth_pairs ss)" using assms(3,4) by (auto simp: auth_pairs_def)
  from auth_steps_name [OF loop this] obtain p
    where p: "p \<in> set (chain_of pl)" "ap_name p \<in> set (keys (ly_groups ly (ap_location p)))" .
  have "ap_name p \<in> set (keys (auth_groups cc (ap_location p)))"
  proof (cases "ap_location p = BodyL")
    case True
    have "is_body_field f \<or> is_root_body f" if "f \<in> set (ct_fields ct)" "if_location f = Some BodyL" for f
      using that assms(5) by (cases "if_placement f")
        (auto simp: placement_location_def is_body_field_def is_body_placement_def is_root_body_def split: placement.splits)
    moreover have "if_wire f \<noteq> Some (ap_name p)" if "f \<in> set (ct_fields ct)" "is_root_body f" for f
      using that assms(6) p(1) by force
    ultimately show ?thesis
      using flat_body_names [OF input_layout_body_names [OF ly]] p(2) True by (simp add: auth_groups_def cc)
  next
    case False
    then show ?thesis using p(2) reserved_grown [OF rv] by (auto simp: auth_groups_def cc grown_def)
  qed
  then have slot: "first_slot (auth_groups cc) (chain_of pl) \<noteq> None" by (rule first_slot_chosen [OF p(1)])
  then obtain q t where q: "first_slot (auth_groups cc) (chain_of pl) = Some (q, t)" by auto
  have "place_value tx q v \<noteq> Inl (PlanError (''auth target is not declared: '' @ x))" for x
    by (auto simp: place_value_def select_def bindE_Inl_iff split: selector.splits session_value.splits option.splits pyval.splits list.splits)
  with slot q show ?thesis by (auto simp: binding_operation_def bindE_def split: sum.splits)
qed

text \<open>Private bindings keep clear of each other and of the names the operation has.\<close>

definition names_distinct :: "layout \<Rightarrow> bool" where
  "names_distinct ly \<longleftrightarrow> (\<forall>l. distinct (map (canonical l) (keys (ly_groups ly l))))"

lemma names_distinct_add:
  "names_distinct ly \<Longrightarrow> canonical l n \<notin> set (map (canonical l) (keys (ly_groups ly l))) \<Longrightarrow>
     names_distinct (add_slot l n d s ly)"
proof -
  assume ly: "names_distinct ly" and new: "canonical l n \<notin> set (map (canonical l) (keys (ly_groups ly l)))"
  then have "n \<notin> fst ` set (ly_groups ly l)" by auto
  then show ?thesis using ly new by (auto simp: names_distinct_def add_slot_def keys_update_absent)
qed

lemma names_distinct_update [simp]:
  "names_distinct (ly\<lparr>ly_taken := a\<rparr>) = names_distinct ly" "names_distinct (ly\<lparr>ly_session_body := c\<rparr>) = names_distinct ly"
  "names_distinct (ly\<lparr>ly_taken := a, ly_query_model := b\<rparr>) = names_distinct ly"
  "names_distinct (ly\<lparr>ly_taken := a, ly_input := e\<rparr>) = names_distinct ly"
  "names_distinct (ly\<lparr>ly_slots := f, ly_places := g\<rparr>) = names_distinct ly"
  by (simp_all add: names_distinct_def)

text \<open>Before the session, the taken destinations are those of the groups.\<close>

definition taken_known :: "layout \<Rightarrow> bool" where
  "taken_known ly \<longleftrightarrow> (\<forall>l n. n \<in> set (keys (ly_groups ly l)) \<longrightarrow> canonical l n \<in> set (ly_taken ly))"

lemma taken_known_new:
  "taken_known ly \<Longrightarrow> canonical l n \<notin> set (ly_taken ly) \<Longrightarrow> canonical l n \<notin> set (map (canonical l) (keys (ly_groups ly l)))"
  by (force simp: taken_known_def)

definition clear_names :: "layout \<Rightarrow> bool" where
  "clear_names ly \<longleftrightarrow> names_distinct ly \<and> taken_known ly"

lemma clear_names_add:
  assumes "clear_names ly" "canonical l n \<notin> set (ly_taken ly)"
  shows "clear_names ((add_slot l n d s ly)\<lparr>ly_taken := canonical l n # ly_taken ly\<rparr>)"
    and "clear_names ((add_slot l n d s ly)\<lparr>ly_taken := canonical l n # ly_taken ly, ly_query_model := q\<rparr>)"
    and "clear_names ((add_slot l n d s ly)\<lparr>ly_taken := canonical l n # ly_taken ly, ly_input := i\<rparr>)"
proof -
  have "names_distinct (add_slot l n d s ly)"
    using assms by (intro names_distinct_add taken_known_new) (simp_all add: clear_names_def)
  moreover have "\<forall>k m. m \<in> set (keys (ly_groups (add_slot l n d s ly) k)) \<longrightarrow> canonical k m \<in> insert (canonical l n) (set (ly_taken ly))"
    using assms by (auto simp: clear_names_def taken_known_def add_slot_def)
  ultimately show "clear_names ((add_slot l n d s ly)\<lparr>ly_taken := canonical l n # ly_taken ly\<rparr>)"
    "clear_names ((add_slot l n d s ly)\<lparr>ly_taken := canonical l n # ly_taken ly, ly_query_model := q\<rparr>)"
    "clear_names ((add_slot l n d s ly)\<lparr>ly_taken := canonical l n # ly_taken ly, ly_input := i\<rparr>)"
    by (simp_all add: clear_names_def taken_known_def)
qed

lemma canonical_query [simp]: "canonical QueryL n = (QueryL, n)"
  by (simp add: canonical_def)

lemma query_model_step_clear: "query_model_step qt operation a f = Inr b \<Longrightarrow> clear_names a \<Longrightarrow> clear_names b"
  using clear_names_add [of a QueryL "mf_wire f"]
  by (auto simp: query_model_step_def Let_def split: if_splits)

lemma input_step_clear: "input_step checks operation a f = Inr b \<Longrightarrow> clear_names a \<Longrightarrow> clear_names b"
  by (auto simp: input_step_def Let_def bindE_Inr_iff clear_names_add source_slot_def split: if_splits option.splits)
    (simp add: clear_names_def names_distinct_def taken_known_def)

lemma inject_step_clear: "inject_step a ij = Inr b \<Longrightarrow> clear_names a \<Longrightarrow> clear_names b"
  by (auto simp: inject_step_def Let_def clear_names_add split: if_splits option.splits list.splits)

text \<open>
  The names of an operation without a session are distinct, headers without regard to case; with one,
  the check of \<open>_compile_input_layout\<close> is exact, see \<open>session_header_in_another_case\<close>.
\<close>

lemma sessionless_names_distinct:
  assumes ly: "compile_input_layout checks ct = Inr ly" and "ct_security ct = None"
  shows "names_distinct ly"
proof -
  have "clear_names empty_layout"
    by (simp add: clear_names_def names_distinct_def taken_known_def empty_layout_def)
  from layout_passes [OF ly] obtain ly1 ly2 ly3 ss where passes:
    "(case ct_query_model ct of None \<Rightarrow> ly1 = empty_layout
      | Some qt \<Rightarrow> foldE (query_model_step qt (ct_operation ct)) empty_layout (qt_fields qt) = Inr ly1)"
    "foldE (input_step checks (ct_operation ct)) ly1 (ct_fields ct) = Inr ly2"
    "foldE inject_step ly2 (ct_inject ct) = Inr ly3"
    "security_schemes (ct_security ct) = Inr ss" "foldE (auth_step ct) ly3 (auth_pairs ss) = Inr ly" .
  have "clear_names ly1"
  proof (cases "ct_query_model ct")
    case (Some qt)
    with passes(1) have "foldE (query_model_step qt (ct_operation ct)) empty_layout (qt_fields qt) = Inr ly1" by simp
    then show ?thesis
      using foldE_invariant [of _ empty_layout _ ly1 clear_names] query_model_step_clear \<open>clear_names empty_layout\<close> by blast
  qed (use passes(1) \<open>clear_names empty_layout\<close> in simp)
  then have "clear_names ly2" using foldE_invariant [OF passes(2), of clear_names] input_step_clear by blast
  then have "clear_names ly3" using foldE_invariant [OF passes(3), of clear_names] inject_step_clear by blast
  moreover have "ly = ly3" using passes(4,5) assms(2) by (simp add: security_schemes_def auth_pairs_def)
  ultimately show ?thesis by (simp add: clear_names_def)
qed

text \<open>A managed cookie set may take the name of a declared cookie: then its slot replaces the other in the group.\<close>

lemma names_distinct_cookie: "names_distinct ly \<Longrightarrow> names_distinct (add_slot CookieL n d s ly)"
proof -
  have "distinct (map (canonical CookieL) (keys g)) \<longleftrightarrow> distinct (keys g)" for g :: "(string, value_slot) dict"
    by (simp add: distinct_map inj_on_def canonical_def)
  moreover assume "names_distinct ly"
  ultimately show ?thesis unfolding names_distinct_def by (auto simp: add_slot_def simp del: map_map)
qed

lemma reserve_step_names: "reserve_step ct base a t = Inr b \<Longrightarrow> names_distinct (rv_layout a) \<Longrightarrow> names_distinct (rv_layout b)"
  by (erule reserve_step_cases) (auto intro!: names_distinct_add names_distinct_cookie)

section \<open>The layout of a compiled operation\<close>

text \<open>
  C31. The shape of a compiled operation numbers its slots in order; a location names each slot once, by a
  slot of the shape that has this name, this place and a descriptor; every required slot is an input of
  the operation; and without a session no two names of a location are one, headers compared without case.
\<close>

theorem compiled_layout_sound:
  assumes "compile_endpoint checks known protects ord digest ft ct crypto registry scope reqs context collections = Inr cc"
    and "distinct (map if_name (ct_fields ct))"
  shows "layout_ok (wp_layout (cc_writers cc)) \<and> cc_groups cc = ly_groups (wp_layout (cc_writers cc)) \<and>
    plan_shape (cc_plan cc) = ly_slots (wp_layout (cc_writers cc)) \<and>
    (\<forall>s \<in> set (plan_shape (cc_plan cc)). slot_required s \<longrightarrow> s \<in> snd ` set (ly_input (cc_layout cc))) \<and>
    (ct_security ct = None \<longrightarrow> (\<forall>l. distinct (map (canonical l) (keys (cc_groups cc l)))))"
proof -
  from endpoint_passes [OF assms(1)] obtain ly rv where ly: "compile_input_layout checks ct = Inr ly"
    and rv: "reserve_private_bindings ct ly collections = Inr rv"
    and cc: "cc_layout cc = ly" "wp_layout (cc_writers cc) = rv_layout rv" "cc_groups cc = ly_groups (rv_layout rv)"
      "plan_shape (cc_plan cc) = ly_slots (rv_layout rv)" by blast
  have grown: "grown ly (rv_layout rv)" by (rule reserved_grown [OF rv])
  have "required_inputs ly" by (rule input_layout_required [OF ly assms(2)])
  then have "\<forall>s \<in> set (ly_slots (rv_layout rv)). slot_required s \<longrightarrow> s \<in> snd ` set (ly_input ly)"
    using not_required_step [OF grown] grown by (simp add: required_inputs_def grown_def)
  moreover have "names_distinct (rv_layout rv)" if "ct_security ct = None"
    by (rule reserve_invariant [OF rv, where P = "\<lambda>rv. names_distinct (rv_layout rv)"])
      (simp_all add: sessionless_names_distinct [OF ly that] reserve_step_names)
  ultimately show ?thesis
    using reserved_layout_ok [OF rv input_layout_ok [OF ly]] by (simp add: cc names_distinct_def)
qed

section \<open>Binding a call\<close>

text \<open>What a call may bind: names of inputs, valid values, and every required input.\<close>

definition call_ok :: "compiled_contract \<Rightarrow> (string, pyval) dict \<Rightarrow> bool" where
  "call_ok cc request \<longleftrightarrow>
     (\<forall>(n, v) \<in> set request. \<exists>s x. map_of (ly_input (cc_layout cc)) n = Some s \<and> bind_value s v = Inr x) \<and>
     (\<forall>(n, s) \<in> set (ly_input (cc_layout cc)). slot_required s \<longrightarrow> n \<in> set (keys request))"

text \<open>Different inputs have different slots.\<close>

definition inputs_apart :: "layout \<Rightarrow> bool" where
  "inputs_apart ly \<longleftrightarrow> distinct (keys (ly_input ly)) \<and> distinct (map snd (ly_input ly))"

lemma input_layout_apart:
  assumes ly: "compile_input_layout checks ct = Inr ly" and names: "distinct (map if_name (ct_fields ct))"
  shows "inputs_apart ly"
proof -
  from layout_passes [OF ly] obtain ly1 ly2 ly3 ss where passes:
    "(case ct_query_model ct of None \<Rightarrow> ly1 = empty_layout
      | Some qt \<Rightarrow> foldE (query_model_step qt (ct_operation ct)) empty_layout (qt_fields qt) = Inr ly1)"
    "foldE (input_step checks (ct_operation ct)) ly1 (ct_fields ct) = Inr ly2"
    "foldE inject_step ly2 (ct_inject ct) = Inr ly3"
    "security_schemes (ct_security ct) = Inr ss" "foldE (auth_step ct) ly3 (auth_pairs ss) = Inr ly" .
  have "layout_ok ly1 \<and> ly_input ly1 = []"
  proof (cases "ct_query_model ct")
    case (Some qt)
    with passes(1) have loop: "foldE (query_model_step qt (ct_operation ct)) empty_layout (qt_fields qt) = Inr ly1" by simp
    have "grown empty_layout ly1" by (rule grown_steps [OF loop]) (rule query_model_step_grown)
    moreover have "layout_ok ly1"
      by (rule foldE_invariant [OF loop, of layout_ok]) (auto simp: layout_ok_empty intro: query_model_step_ok)
    ultimately show ?thesis by (simp add: grown_def empty_layout_def)
  qed (use passes(1) layout_ok_empty in \<open>simp add: empty_layout_def\<close>)
  then have "layout_ok ly2 \<and> inputs_apart ly2 \<and> set (keys (ly_input ly2)) = set (map if_name (ct_fields ct))"
  proof (intro foldE_prefix_invariant [OF passes(2),
        where P = "\<lambda>fs a. layout_ok a \<and> inputs_apart a \<and> set (keys (ly_input a)) = set (map if_name fs)"])
    fix ys x zs a b
    assume fields: "ct_fields ct = ys @ x # zs"
      and a: "layout_ok a \<and> inputs_apart a \<and> set (keys (ly_input a)) = set (map if_name ys)"
      and step: "input_step checks (ct_operation ct) a x = Inr b"
    have b: "layout_ok b" using input_step_ok [OF step] a by blast
    from input_step_extends [OF step] obtain s
      where s: "ly_slots b = ly_slots a @ [s]" "ly_input b = AList.update (if_name x) s (ly_input a)" by blast
    have new: "if_name x \<notin> fst ` set (ly_input a)" using names fields a by auto
    have "s \<notin> set (ly_slots a)" using layout_slots_inj [OF b] s(1) by auto
    then have "s \<notin> snd ` set (ly_input a)" using a by (auto simp: layout_ok_def)
    then show "layout_ok b \<and> inputs_apart b \<and> set (keys (ly_input b)) = set (map if_name (ys @ [x]))"
      using a b new s(2) by (auto simp: inputs_apart_def keys_update_absent)
  qed (simp add: inputs_apart_def)
  moreover have "ly_input ly = ly_input ly2"
    using grown_steps [OF passes(3) inject_step_grown] grown_steps [OF passes(5) auth_step_grown] by (simp add: grown_def)
  ultimately show ?thesis by (simp add: inputs_apart_def)
qed

lemma layout_shape_ok: "layout_ok ly \<Longrightarrow> shape_ok (ly_slots ly)"
  by (simp add: layout_ok_def)

lemma layout_coherent: "layout_ok ly \<Longrightarrow> S \<subseteq> set (ly_slots ly) \<Longrightarrow> coherent (ly_slots ly) S"
  using layout_slots_inj [of ly] by (auto simp: coherent_def inj_on_def)

text \<open>The bindings of a call, and what binding them needs.\<close>

definition bindings :: "layout \<Rightarrow> (string, pyval) dict \<Rightarrow> (value_slot \<times> pyval) list" where
  "bindings ly request = map (\<lambda>(n, v). (the (map_of (ly_input ly) n), v)) request"

lemma bindable_bindings:
  assumes apart: "inputs_apart ly" and known: "set (keys request) \<subseteq> set (keys (ly_input ly))" and "dict_ok request"
    and slots: "snd ` set (ly_input ly) \<subseteq> set sh" and ids: "inj_on slot_id (set sh)"
    and required: "\<forall>s \<in> set sh. slot_required s \<longrightarrow> s \<in> snd ` set (ly_input ly)"
  shows "bindable sh (bindings ly request) \<longleftrightarrow>
    (\<forall>(n, v) \<in> set request. \<exists>x. bind_value (the (map_of (ly_input ly) n)) v = Inr x) \<and>
    (\<forall>(n, s) \<in> set (ly_input ly). slot_required s \<longrightarrow> n \<in> set (keys request))"
    (is "_ \<longleftrightarrow> ?valid \<and> ?full")
proof -
  let ?slot = "\<lambda>n. the (map_of (ly_input ly) n)"
  have slot: "?slot n = s" if "(n, s) \<in> set (ly_input ly)" for n s
    using that apart by (simp add: inputs_apart_def)
  have get: "(n, ?slot n) \<in> set (ly_input ly)" if "n \<in> set (keys request)" for n
  proof -
    from that known obtain s where "(n, s) \<in> set (ly_input ly)" by auto
    then show ?thesis using slot by simp
  qed
  have inj: "inj_on snd (set (ly_input ly))" using apart by (simp add: inputs_apart_def distinct_map)
  have one: "n = m" if "(n, s) \<in> set (ly_input ly)" "(m, s) \<in> set (ly_input ly)" for n m s
    using inj_onD [OF inj _ that] by simp
  have in_shape: "?slot n \<in> set sh" if "n \<in> set (keys request)" for n
    using get [OF that] slots by (auto simp: image_subset_iff)
  have "inj_on (slot_id \<circ> ?slot) (set (keys request))"
  proof (rule inj_onI)
    fix n m assume nm: "n \<in> set (keys request)" "m \<in> set (keys request)" "(slot_id \<circ> ?slot) n = (slot_id \<circ> ?slot) m"
    then have "?slot n = ?slot m" using ids in_shape by (simp add: inj_onD)
    then show "n = m" using one get nm(1,2) by metis
  qed
  then have "distinct (map (slot_id \<circ> ?slot) (keys request))"
    unfolding distinct_map [of "slot_id \<circ> ?slot"] using assms(3) by blast
  then have "distinct (map (slot_id \<circ> fst) (bindings ly request))"
    by (simp add: bindings_def case_prod_unfold comp_def)
  moreover have "(\<forall>(s, v) \<in> set (bindings ly request). s \<in> set sh \<and> (\<exists>x. bind_value s v = Inr x)) \<longleftrightarrow> ?valid"
    using in_shape by (fastforce simp: bindings_def)
  moreover have "fst ` set (bindings ly request) = ?slot ` set (keys request)"
    by (force simp: bindings_def)
  moreover have "(\<forall>s \<in> set sh. slot_required s \<longrightarrow> s \<in> ?slot ` set (keys request)) \<longleftrightarrow> ?full"
  proof safe
    fix n s assume "\<forall>s \<in> set sh. slot_required s \<longrightarrow> s \<in> ?slot ` set (keys request)"
      and ns: "(n, s) \<in> set (ly_input ly)" "slot_required s"
    moreover have "s \<in> set sh" using ns(1) slots by (auto simp: image_subset_iff)
    ultimately obtain m where m: "m \<in> set (keys request)" "s = ?slot m" by blast
    then show "n \<in> set (keys request)" using one [OF ns(1)] get [OF m(1)] by metis
  next
    fix s assume ?full "s \<in> set sh" "slot_required s"
    moreover obtain n where "(n, s) \<in> set (ly_input ly)" using required calculation(2,3) by force
    ultimately show "s \<in> ?slot ` set (keys request)" using slot by force
  qed
  ultimately show ?thesis unfolding bindable_def by simp
qed

text \<open>
  C29. A call of a compiled operation is accepted exactly when it names inputs only, every value passes the
  check of its slot and every required input is given; its bindings then hold each value at the slot of
  its name.
\<close>

theorem bind_input_accepts_iff:
  assumes "compile_endpoint checks known protects ord digest ft ct crypto registry scope reqs context collections = Inr cc"
    and "distinct (map if_name (ct_fields ct))" and "dict_ok request"
  shows "((\<exists>args. bind_input cc request = Inr args) \<longleftrightarrow> call_ok cc request) \<and>
    (\<forall>args. bind_input cc request = Inr args \<longrightarrow> args = bindings (cc_layout cc) request)"
proof -
  from endpoint_passes [OF assms(1)] obtain ly rv where ly: "compile_input_layout checks ct = Inr ly"
    and rv: "reserve_private_bindings ct ly collections = Inr rv"
    and cc: "cc_layout cc = ly" "plan_shape (cc_plan cc) = ly_slots (rv_layout rv)" by blast
  have ok: "layout_ok (rv_layout rv)" by (rule reserved_layout_ok [OF rv input_layout_ok [OF ly]])
  have grown: "grown ly (rv_layout rv)" by (rule reserved_grown [OF rv])
  have apart: "inputs_apart ly" by (rule input_layout_apart [OF ly assms(2)])
  have slots: "snd ` set (ly_input ly) \<subseteq> set (ly_slots (rv_layout rv))" using ok grown by (simp add: layout_ok_def grown_def)
  have "required_inputs (rv_layout rv)" by (rule not_required_step [OF grown input_layout_required [OF ly assms(2)]])
  then have required: "\<forall>s \<in> set (ly_slots (rv_layout rv)). slot_required s \<longrightarrow> s \<in> snd ` set (ly_input ly)"
    using grown by (simp add: required_inputs_def grown_def)
  let ?known = "set (keys request) \<subseteq> set (keys (ly_input ly))"
  have unknown: "filter (\<lambda>n. n \<notin> set (keys (ly_input ly))) (keys request) = [] \<longleftrightarrow> ?known"
    by (auto simp: filter_empty_conv)
  have bind: "bind_input cc request =
      (if ?known then (case from_bound (ly_slots (rv_layout rv)) (bindings ly request) of
         Inr _ \<Rightarrow> Inr (bindings ly request) | Inl e \<Rightarrow> Inl (binding_failure (ct_operation (cc_contract cc)) ly e))
       else Inl (operation_binding_error ''unknown_input'' (ct_operation (cc_contract cc))
         (case filter (\<lambda>n. n \<notin> set (keys (ly_input ly))) (keys request) of [n] \<Rightarrow> Some n | _ \<Rightarrow> None) BindPhase ''unknown input value''))"
    unfolding bind_input_def Let_def cc bindings_def using unknown by simp
  then have same: "\<forall>args. bind_input cc request = Inr args \<longrightarrow> args = bindings (cc_layout cc) request"
    by (auto simp: cc split: if_splits sum.splits)
  have valid: "(\<exists>s x. map_of (ly_input ly) n = Some s \<and> bind_value s v = Inr x) \<longleftrightarrow>
      (\<exists>x. bind_value (the (map_of (ly_input ly) n)) v = Inr x)" if ?known "(n, v) \<in> set request" for n v
  proof -
    have "n \<in> set (keys (ly_input ly))" using that by force
    then obtain s where "map_of (ly_input ly) n = Some s" by (metis map_of_eq_None_iff not_None_eq list.set_map)
    then show ?thesis by simp
  qed
  have "(\<exists>args. bind_input cc request = Inr args) \<longleftrightarrow> call_ok cc request"
  proof (cases ?known)
    case True
    have "fst ` set (bindings ly request) \<subseteq> set (ly_slots (rv_layout rv))"
    proof
      fix s assume "s \<in> fst ` set (bindings ly request)"
      then obtain n v where nv: "(n, v) \<in> set request" "s = the (map_of (ly_input ly) n)"
        by (auto simp: bindings_def)
      then have n: "n \<in> set (keys request)" "s = the (map_of (ly_input ly) n)" by force+
      then obtain t where "map_of (ly_input ly) n = Some t"
        using True by (metis map_of_eq_None_iff not_None_eq list.set_map subsetD)
      then show "s \<in> set (ly_slots (rv_layout rv))" using n(2) slots by (auto dest!: map_of_SomeD)
    qed
    then have "(\<exists>ov. from_bound (ly_slots (rv_layout rv)) (bindings ly request) = Inr ov) \<longleftrightarrow>
        bindable (ly_slots (rv_layout rv)) (bindings ly request)"
      by (rule from_bound_succeeds_iff [OF layout_shape_ok [OF ok] layout_coherent [OF ok]])
    moreover have "(\<exists>args. bind_input cc request = Inr args) \<longleftrightarrow>
        (\<exists>ov. from_bound (ly_slots (rv_layout rv)) (bindings ly request) = Inr ov)"
      unfolding bind using True by (auto split: sum.splits)
    ultimately show ?thesis
      unfolding bindable_bindings [OF apart True assms(3) slots layout_slots_inj [OF ok, THEN conjunct1] required]
        call_ok_def cc using valid [OF True] by fastforce
  next
    case False
    then obtain n where n: "n \<in> set (keys request)" "n \<notin> set (keys (ly_input ly))" by blast
    then obtain v where "(n, v) \<in> set request" by auto
    moreover have "map_of (ly_input ly) n = None" using n(2) by (simp add: map_of_eq_None_iff)
    ultimately have "\<not> call_ok cc request" by (auto simp: call_ok_def cc intro!: bexI [where x = "(n, v)"])
    with False show ?thesis unfolding bind by simp
  qed
  with same show ?thesis by blast
qed

section \<open>A concrete operation\<close>

definition kind_checks :: "annot \<Rightarrow> validator" where
  "kind_checks t v =
     (case v of
        PStr _ \<Rightarrow> (if t = ClassT ''str'' then Inr v else Inl (PyTypeError ''expected the annotation''))
      | PInt _ \<Rightarrow> (if t = ClassT ''int'' then Inr v else Inl (PyTypeError ''expected the annotation''))
      | _ \<Rightarrow> Inl (PyTypeError ''expected the annotation''))"

definition query_field :: "string \<Rightarrow> string \<Rightarrow> bool \<Rightarrow> input_field" where
  "query_field n t needed =
     \<lparr>if_name = n, if_wire = Some n, if_annotation = ClassT t, if_required = needed, if_location = Some QueryL,
      if_placement = Some (QueryPl \<lparr>qy_name = Some n, qy_style = FormStyle, qy_explode = True, qy_reserved = False\<rparr> None),
      if_omittable = False\<rparr>"

definition header_field_of :: "string \<Rightarrow> string \<Rightarrow> input_field" where
  "header_field_of n wire =
     \<lparr>if_name = n, if_wire = Some wire, if_annotation = ClassT ''str'', if_required = False, if_location = Some HeaderL,
      if_placement = Some (HeaderPl \<lparr>hd_name = Some wire, hd_explode = False\<rparr> None), if_omittable = False\<rparr>"

definition search_contract :: "input_field list \<Rightarrow> security_declaration option \<Rightarrow> contract" where
  "search_contract fs sec =
     \<lparr>ct_operation = ''search'', ct_method = ''get'', ct_fields = fs, ct_query_model = None, ct_projection = None,
      ct_inject = [], ct_security = sec, ct_protections = [], ct_signing = []\<rparr>"

definition search_endpoint :: "input_field list \<Rightarrow> security_declaration option \<Rightarrow> sdk_error + compiled_contract" where
  "search_endpoint fs sec =
     compile_endpoint kind_checks [] (\<lambda>_. None) (\<lambda>_ _. 0) (\<lambda>_. ''digest'')
       \<lparr>ft_projection = (\<lambda>_. Inr []), ft_requirement = (\<lambda>_. []), ft_encrypted = []\<rparr> (search_contract fs sec) None []
       None [] [] [Some [PrivateBinding HeaderL ''X-Guard'' None, PrivateCookieSet ''a'' ''b'' ''c'']]"

definition search_fields :: "input_field list" where
  "search_fields = [query_field ''q'' ''str'' True, query_field ''page'' ''int'' False]"

definition endpoint_view :: "sdk_error + compiled_contract \<Rightarrow> sdk_error + string list \<times> string list \<times> nat \<times> bool" where
  "endpoint_view r = map_sum id (\<lambda>cc. (keys (cc_groups cc HeaderL), keys (cc_groups cc QueryL), length (plan_shape (cc_plan cc)),
     replay_idempotent (replay (cc_plan cc)))) r"

lemma search_compiles:
  "\<exists>cc. search_endpoint search_fields (Some (SchemeS (bearer_scheme 1 ''bearer''))) = Inr cc \<and>
     keys (cc_groups cc HeaderL) = [''Authorization'', ''X-Guard''] \<and> length (plan_shape (cc_plan cc)) = 5"
proof -
  have "endpoint_view (search_endpoint search_fields (Some (SchemeS (bearer_scheme 1 ''bearer'')))) =
      Inr ([''Authorization'', ''X-Guard''], [''q'', ''page''], 5, True)"
    by code_simp
  then show ?thesis
    by (cases "search_endpoint search_fields (Some (SchemeS (bearer_scheme 1 ''bearer'')))") (auto simp: endpoint_view_def)
qed

lemma search_compiles_without_session:
  "\<exists>cc. search_endpoint search_fields None = Inr cc \<and> keys (cc_groups cc HeaderL) = [''X-Guard'']"
proof -
  have "endpoint_view (search_endpoint search_fields None) = Inr ([''X-Guard''], [''q'', ''page''], 4, True)"
    by code_simp
  then show ?thesis by (cases "search_endpoint search_fields None") (auto simp: endpoint_view_def)
qed

lemma search_fields_names: "distinct (map if_name (ct_fields (search_contract search_fields sec)))"
  by (simp add: search_contract_def search_fields_def query_field_def)

text \<open>
  An operation with a root body \<open>payload\<close> and an injected JSON field compiles with a session that puts
  its token at \<open>body.payload\<close>: the name is taken by the root body, whose slot is not among the flat
  fields a credential is written to.
\<close>

definition payload_scheme :: auth_scheme where
  "payload_scheme = (bearer_scheme 1 ''form'')\<lparr>sc_placements := [simple_place BodyL ''payload'' IdentitySelector []]\<rparr>"

definition payload_contract :: contract where
  "payload_contract =
     (search_contract [\<lparr>if_name = ''payload'', if_wire = Some ''payload'', if_annotation = ClassT ''str'', if_required = True,
        if_location = Some BodyL, if_placement = Some (RootPl (JsonB ''application/json'')), if_omittable = False\<rparr>]
       (Some (SchemeS payload_scheme)))
       \<lparr>ct_inject := [\<lparr>ij_placement = JsonFieldPl (Some ''extra''), ij_secret = False\<rparr>]\<rparr>"

lemma root_body_hides_session_place:
  "\<exists>cc. compile_endpoint kind_checks [] (\<lambda>_. None) (\<lambda>_ _. 0) (\<lambda>_. ''digest'')
       \<lparr>ft_projection = (\<lambda>_. Inr []), ft_requirement = (\<lambda>_. []), ft_encrypted = []\<rparr> payload_contract None [] None [] [] [] = Inr cc \<and>
     keys (cc_groups cc BodyL) = [''payload'', ''extra''] \<and>
     first_slot (auth_groups cc) (chain_of (simple_place BodyL ''payload'' IdentitySelector [])) = None"
proof -
  let ?r = "compile_endpoint kind_checks [] (\<lambda>_. None) (\<lambda>_ _. 0) (\<lambda>_. ''digest'')
       \<lparr>ft_projection = (\<lambda>_. Inr []), ft_requirement = (\<lambda>_. []), ft_encrypted = []\<rparr> payload_contract None [] None [] [] []"
  have "map_sum id (\<lambda>cc. (keys (cc_groups cc BodyL),
      Option.is_none (first_slot (auth_groups cc) (chain_of (simple_place BodyL ''payload'' IdentitySelector []))))) ?r =
    Inr ([''payload'', ''extra''], True)"
    by code_simp
  then show ?thesis by (cases ?r) (auto simp: Option.is_none_def)
qed

theorem session_places_have_slots_witness:
  "\<exists>cc pl. search_endpoint search_fields (Some (SchemeS (bearer_scheme 1 ''bearer''))) = Inr cc \<and>
     pl \<in> set (sc_placements (bearer_scheme 1 ''bearer'')) \<and> first_slot (auth_groups cc) (chain_of pl) \<noteq> None"
proof -
  let ?s = "bearer_scheme 1 ''bearer''" and ?pl = "simple_place HeaderL ''Authorization'' IdentitySelector ''Bearer ''"
  obtain cc where cc: "search_endpoint search_fields (Some (SchemeS ?s)) = Inr cc" using search_compiles by blast
  have ss: "security_schemes (ct_security (search_contract search_fields (Some (SchemeS ?s)))) = Inr [?s]"
    by (simp add: security_schemes_def search_contract_def)
  have pl: "?pl \<in> set (sc_placements ?s)" by (simp add: bearer_scheme_def)
  have "first_slot (auth_groups cc) (chain_of ?pl) \<noteq> None"
    using session_places_have_slots [OF cc [unfolded search_endpoint_def] ss _ pl]
    by (simp add: search_contract_def search_fields_def query_field_def placement_location_def is_root_body_def)
  with cc pl show ?thesis by blast
qed

theorem compiled_layout_sound_witness:
  "\<exists>cc. search_endpoint search_fields None = Inr cc \<and> layout_ok (wp_layout (cc_writers cc)) \<and>
     distinct (map (canonical HeaderL) (keys (cc_groups cc HeaderL)))"
proof -
  obtain cc where cc: "search_endpoint search_fields None = Inr cc" using search_compiles_without_session by blast
  show ?thesis
    using compiled_layout_sound [OF cc [unfolded search_endpoint_def] search_fields_names] cc by (auto simp: search_contract_def)
qed

theorem bind_input_accepts_iff_witness:
  "\<exists>cc args. search_endpoint search_fields None = Inr cc \<and> bind_input cc [(''q'', PStr ''tea'')] = Inr args \<and>
     map snd args = [PStr ''tea''] \<and> Option.is_none (find (\<lambda>r. call_ok cc r) [[(''q'', PInt 1)], [(''page'', PInt 2)], [(''x'', PInt 3)]])"
proof -
  obtain cc where cc: "search_endpoint search_fields None = Inr cc" using search_compiles_without_session by blast
  note iff = bind_input_accepts_iff [OF cc [unfolded search_endpoint_def] search_fields_names]
  let ?fails = "\<lambda>r. case search_endpoint search_fields None of Inl _ \<Rightarrow> False | Inr cc \<Rightarrow> (case bind_input cc r of Inl _ \<Rightarrow> True | Inr _ \<Rightarrow> False)"
  have "list_all ?fails [[(''q'', PInt 1)], [(''page'', PInt 2)], [(''x'', PInt 3)]]" by code_simp
  then have fails: "\<not> call_ok cc r" if "r \<in> {[(''q'', PInt 1)], [(''page'', PInt 2)], [(''x'', PInt 3)]}" for r
    using iff [of r] that cc by (auto split: sum.splits)
  have "(case search_endpoint search_fields None of Inl _ \<Rightarrow> False | Inr cc \<Rightarrow>
      (case bind_input cc [(''q'', PStr ''tea'')] of Inl _ \<Rightarrow> False | Inr _ \<Rightarrow> True))" by code_simp
  then obtain args where args: "bind_input cc [(''q'', PStr ''tea'')] = Inr args" using cc by (auto split: sum.splits)
  with iff [of "[(''q'', PStr ''tea'')]"] have "map snd args = [PStr ''tea'']" by (auto simp: bindings_def)
  with cc args show ?thesis using fails by simp
qed

text \<open>
  A header of the operation and one of the session that differ in case are two slots: the check of the
  compiler is by the exact name.
\<close>

lemma session_header_in_another_case:
  "\<exists>cc. search_endpoint [header_field_of ''token'' ''authorization''] (Some (SchemeS (bearer_scheme 1 ''bearer''))) = Inr cc \<and>
     keys (cc_groups cc HeaderL) = [''authorization'', ''Authorization'', ''X-Guard'']"
proof -
  have "endpoint_view (search_endpoint [header_field_of ''token'' ''authorization''] (Some (SchemeS (bearer_scheme 1 ''bearer'')))) =
      Inr ([''authorization'', ''Authorization'', ''X-Guard''], [], 4, True)"
    by code_simp
  then show ?thesis
    by (cases "search_endpoint [header_field_of ''token'' ''authorization''] (Some (SchemeS (bearer_scheme 1 ''bearer'')))")
      (auto simp: endpoint_view_def)
qed

end
