(* ===== verification/Crypto.thy ===== *)
theory Crypto
  imports InputFields Cookies
begin

text \<open>
  Payload crypto (\<open>crypto/core.py\<close>, \<open>crypto/_compiler.py\<close>, \<open>crypto/_inputs.py\<close>): frozen documents, the
  paths of fields, profiles and the rules that select them, the compilation of a profile against
  models, and the two document stages and two byte stages, which run the algorithms of the application.

  Algorithms, outputs, inputs and models compare by identity, which a number stands for (the name, for a
  class). An algorithm is any function on the world that may raise. Floats are left out of the values,
  as in the rest of the development; where a message quotes a type, the text stops before it.
\<close>

section \<open>Frozen values\<close>

datatype crypto_error =
    CryptoConfigurationError string
  | PayloadEncryptionError string
  | PayloadDecryptionError string
  | EncryptedMediaTypeMismatchError string
  | CryptoLimitError string
  | CryptoStreamingUnsupportedError string
  | CryptoRuntimeMismatchError string
  | OtherError sdk_error

datatype frozen =
    FNone
  | FBool bool
  | FInt int
  | FStr string
  | FArray "frozen list"
  | FObject "(string \<times> frozen) list"

text \<open>\<open>sorted(value.items())\<close>: the keys of a dictionary differ, so values are never compared.\<close>

fun freeze_value :: "pyval \<Rightarrow> sdk_error + frozen" where
  "freeze_value PNone = Inr FNone"
| "freeze_value (PBool b) = Inr (FBool b)"
| "freeze_value (PInt i) = Inr (FInt i)"
| "freeze_value (PStr s) = Inr (FStr s)"
| "freeze_value (PBytes s) = Inl (PyTypeError ''unsupported crypto document value: bytes'')"
| "freeze_value (PTuple xs) = bindE (mapE freeze_value xs) (\<lambda>ys. Inr (FArray ys))"
| "freeze_value (PList xs) = bindE (mapE freeze_value xs) (\<lambda>ys. Inr (FArray ys))"
| "freeze_value (PDict d) =
     bindE (mapE (\<lambda>p. bindE (freeze_value (snd p)) (\<lambda>v. Inr (fst p, v))) (sort_key fst d)) (\<lambda>ys. Inr (FObject ys))"

text \<open>A dictionary display with repeated keys keeps the place of the first and the value of the last.\<close>

definition dict_of :: "('k \<times> 'v) list \<Rightarrow> ('k, 'v) dict" where
  "dict_of ps = fold (\<lambda>p. AList.update (fst p) (snd p)) ps []"

fun thaw_value :: "frozen \<Rightarrow> pyval" where
  "thaw_value FNone = PNone"
| "thaw_value (FBool b) = PBool b"
| "thaw_value (FInt i) = PInt i"
| "thaw_value (FStr s) = PStr s"
| "thaw_value (FArray xs) = PList (map thaw_value xs)"
| "thaw_value (FObject ps) = PDict (dict_of (map (\<lambda>p. (fst p, thaw_value (snd p))) ps))"

section \<open>Paths\<close>

datatype path_key = Key string | Index int

type_synonym json_path = "path_key list"

definition key_name :: "path_key \<Rightarrow> string" where
  "key_name c = (case c of Key s \<Rightarrow> s | Index i \<Rightarrow> str_int i)"

definition path_name :: "json_path \<Rightarrow> string" where
  "path_name path = join ''.'' (map key_name path)"

definition missing_path :: "json_path \<Rightarrow> crypto_error" where
  "missing_path path = CryptoConfigurationError (''crypto document path is missing: '' @ path_name path)"

definition no_traversal :: "json_path \<Rightarrow> crypto_error" where
  "no_traversal path = CryptoConfigurationError (''crypto document path cannot traverse '' @ path_name path)"

text \<open>\<open>_read_path\<close>. A key that a hand-made object repeats is read at its first place.\<close>

fun read_from :: "json_path \<Rightarrow> frozen \<Rightarrow> json_path \<Rightarrow> crypto_error + frozen" where
  "read_from path v [] = Inr v"
| "read_from path (FObject ps) (Key k # cs) =
     (case map_of ps k of None \<Rightarrow> Inl (missing_path path) | Some v \<Rightarrow> read_from path v cs)"
| "read_from path (FArray xs) (Index i # cs) =
     (case list_at xs i of None \<Rightarrow> Inl (missing_path path) | Some v \<Rightarrow> read_from path v cs)"
| "read_from path v (c # cs) = Inl (no_traversal path)"

definition read_path :: "frozen \<Rightarrow> json_path \<Rightarrow> crypto_error + frozen" where
  "read_path root path = read_from path root path"

text \<open>
  \<open>current[i] = x\<close> on a list and the nested writes of \<open>_set_path\<close>, on the thawed copy. The empty path has
  no last component.
\<close>

definition list_put :: "'a list \<Rightarrow> int \<Rightarrow> 'a \<Rightarrow> 'a list" where
  "list_put xs i x = (if 0 \<le> i then xs[nat i := x] else xs[nat (int (length xs) + i) := x])"

fun write_at :: "json_path \<Rightarrow> pyval \<Rightarrow> json_path \<Rightarrow> pyval \<Rightarrow> crypto_error + pyval" where
  "write_at path v [] x = Inl (OtherError (PyError ''IndexError''))"
| "write_at path (PDict d) [Key k] x = Inr (PDict (AList.update k x d))"
| "write_at path (PList ys) [Index i] x =
     (if list_at ys i = None then Inl (OtherError (PyError ''IndexError'')) else Inr (PList (list_put ys i x)))"
| "write_at path v [c] x = Inl (CryptoConfigurationError (''crypto document path cannot write '' @ path_name path))"
| "write_at path (PDict d) (Key k # cs) x =
     (case map_of d k of
        None \<Rightarrow> Inl (OtherError (PyError ''KeyError''))
      | Some v \<Rightarrow> bindE (write_at path v cs x) (\<lambda>v'. Inr (PDict (AList.update k v' d))))"
| "write_at path (PList ys) (Index i # cs) x =
     (case list_at ys i of
        None \<Rightarrow> Inl (OtherError (PyError ''IndexError''))
      | Some v \<Rightarrow> bindE (write_at path v cs x) (\<lambda>v'. Inr (PList (list_put ys i v'))))"
| "write_at path v (c # cs) x = Inl (no_traversal path)"

definition set_path :: "frozen \<Rightarrow> json_path \<Rightarrow> frozen \<Rightarrow> crypto_error + frozen" where
  "set_path root path v =
     bindE (write_at path (thaw_value root) path (thaw_value v)) (\<lambda>raw. map_sum OtherError id (freeze_value raw))"

text \<open>
  The comparison of \<open>_validate_paths\<close>, \<open>_validate_resolved_paths\<close> and \<open>_validate_binding_outputs\<close>: equal
  up to the shorter one. The loops report the first pair.
\<close>

definition meet :: "'a list \<Rightarrow> 'a list \<Rightarrow> bool" where
  "meet a b \<longleftrightarrow> (let common = min (length a) (length b) in take common a = take common b)"

fun first_meeting :: "'a list list \<Rightarrow> ('a list \<times> 'a list) option" where
  "first_meeting [] = None"
| "first_meeting (p # ps) = (case find (meet p) ps of Some q \<Rightarrow> Some (p, q) | None \<Rightarrow> first_meeting ps)"

definition validate_paths :: "json_path list \<Rightarrow> string \<Rightarrow> crypto_error + unit" where
  "validate_paths paths owner =
     (case first_meeting paths of
        None \<Rightarrow> Inr ()
      | Some (p, q) \<Rightarrow> Inl (CryptoConfigurationError
          (owner @ '' paths overlap: '' @ path_name p @ '' and '' @ path_name q)))"

definition validate_resolved_paths :: "json_path list \<Rightarrow> string \<Rightarrow> crypto_error + unit" where
  "validate_resolved_paths paths direction =
     (case first_meeting paths of
        None \<Rightarrow> Inr ()
      | Some _ \<Rightarrow> Inl (CryptoConfigurationError (''resolved '' @ direction @ '' crypto paths overlap'')))"

text \<open>What a selector does with the recorder it is given, and what \<open>_PathRecorder\<close> makes of it.\<close>

datatype traversal =
    Given
  | Attr traversal string
  | Item traversal path_key
  | OtherItem traversal
  | Called traversal
  | AnotherValue
  | Raising

datatype recorded = Recorder json_path | NotARecorder | Refused string | Failed

fun record_path :: "traversal \<Rightarrow> recorded" where
  "record_path Given = Recorder []"
| "record_path (Attr t n) =
     (case record_path t of
        Recorder path \<Rightarrow>
          if n = ''_recorder_path'' then NotARecorder
          else if prefix ''_recorder_'' n then Failed
          else if prefix ''__'' n then Refused ''dunder traversal is not a crypto field path''
          else Recorder (path @ [Key n])
      | r \<Rightarrow> r)"
| "record_path (Item t k) = (case record_path t of Recorder path \<Rightarrow> Recorder (path @ [k]) | r \<Rightarrow> r)"
| "record_path (OtherItem t) =
     (case record_path t of
        Recorder path \<Rightarrow> Refused ''crypto path indexes must be literal strings or ints''
      | r \<Rightarrow> r)"
| "record_path (Called t) =
     (case record_path t of
        Recorder path \<Rightarrow> Refused ''method calls are not allowed in crypto field selectors''
      | r \<Rightarrow> r)"
| "record_path AnotherValue = NotARecorder"
| "record_path Raising = Failed"

definition selected_path :: "bool \<Rightarrow> traversal \<Rightarrow> crypto_error + json_path" where
  "selected_path model_is_type t =
     (if \<not> model_is_type then Inl (CryptoConfigurationError ''crypto field selector requires a model type'')
      else case record_path t of
             Refused msg \<Rightarrow> Inl (CryptoConfigurationError msg)
           | Failed \<Rightarrow> Inl (CryptoConfigurationError ''crypto field selector is not pure path traversal'')
           | NotARecorder \<Rightarrow> Inl (CryptoConfigurationError ''crypto field selector must return one model path'')
           | Recorder path \<Rightarrow>
               if path = [] then Inl (CryptoConfigurationError ''crypto field selector path cannot be empty'')
               else Inr path)"

section \<open>From attributes of a model to the wire\<close>

definition traversed_text :: "string list \<Rightarrow> string" where
  "traversed_text traversed = (if join ''.'' traversed = [] then ''<root>'' else join ''.'' traversed)"

fun unwrapped :: "annot \<Rightarrow> annot" where
  "unwrapped (AnnotatedT t ms) = unwrapped t"
| "unwrapped t = t"

lemma unwrapped_size: "size (unwrapped t) \<le> size t"
  by (induction t rule: unwrapped.induct) auto

lemma union_member_size:
  assumes "unwrapped t = UnionT ts" and "filter P ts = [u]"
  shows "size u < size t"
proof -
  have "u \<in> set ts" using assms(2) by (metis filter_is_subset list.set_intros(1) subset_iff)
  then have "size u < size (UnionT ts)" by (simp add: size_list_estimation' less_Suc_eq_le)
  then show ?thesis using unwrapped_size [of t] assms(1) by simp
qed

function unambiguous_type :: "annot \<Rightarrow> string list \<Rightarrow> crypto_error + annot" where
  "unambiguous_type t traversed =
     (case unwrapped t of
        UnionT ts \<Rightarrow>
          (case filter (\<lambda>u. u \<noteq> ClassT ''NoneType'') ts of
             [u] \<Rightarrow> unambiguous_type u traversed
           | _ \<Rightarrow> Inl (CryptoConfigurationError (''ambiguous union in crypto selector at '' @ traversed_text traversed)))
      | u \<Rightarrow> Inr u)"
  by pat_completeness auto
termination
  by (relation "measure (\<lambda>(t, traversed). size t)") (auto intro: union_member_size)

declare unambiguous_type.simps [simp del]

text \<open>
  One component of \<open>resolve_wire_path\<close>: the type it stands in, the component on the wire, the type it
  leads to and the text for messages. \<open>fields_of\<close> is \<open>ModelAdapterRegistry.fields\<close>, with \<open>None\<close> where it raises.
\<close>

definition wire_step ::
  "(annot \<Rightarrow> model_field list option) \<Rightarrow> annot \<times> json_path \<times> string list \<Rightarrow> path_key \<Rightarrow>
     crypto_error + annot \<times> json_path \<times> string list" where
  "wire_step fields_of st c =
     (case st of (t, output, traversed) \<Rightarrow>
        bindE (unambiguous_type t traversed) (\<lambda>u.
          case c of
            Index i \<Rightarrow>
              (case u of
                 GenericT origin args \<Rightarrow>
                   if origin \<notin> {''list'', ''tuple''}
                   then Inl (CryptoConfigurationError
                     (''crypto selector index requires a sequence at '' @ traversed_text traversed))
                   else if i < 0 then Inl (CryptoConfigurationError ''negative crypto selector indexes are unsupported'')
                   else Inr (case args of a # _ \<Rightarrow> a | [] \<Rightarrow> ClassT ''object'', output @ [c],
                             traversed @ [''['' @ str_int i @ '']''])
               | _ \<Rightarrow> Inl (CryptoConfigurationError
                   (''crypto selector index requires a sequence at '' @ traversed_text traversed)))
          | Key k \<Rightarrow>
              (case (case u of GenericT origin args \<Rightarrow> if origin = ''dict'' then Some args else None | _ \<Rightarrow> None) of
                Some args \<Rightarrow> Inr (if args = [] then ClassT ''object'' else last args, output @ [c], traversed @ [k])
              | None \<Rightarrow>
                  (case fields_of u of
                     None \<Rightarrow> Inl (CryptoConfigurationError
                       (''crypto selector cannot traverse '' @ py_repr k @ '' on unsupported type''))
                   | Some fs \<Rightarrow>
                       (case find (\<lambda>f. mf_name f = k) fs of
                          None \<Rightarrow> Inl (CryptoConfigurationError (''unknown crypto selector field '' @ py_repr k))
                        | Some f \<Rightarrow> Inr (mf_annotation f, output @ [Key (mf_wire f)], traversed @ [k]))))))"

definition resolve_wire_path ::
  "(annot \<Rightarrow> model_field list option) \<Rightarrow> annot \<Rightarrow> json_path \<Rightarrow> crypto_error + json_path" where
  "resolve_wire_path fields_of model path =
     map_sum id (fst \<circ> snd) (foldE (wire_step fields_of) (model, [], []) path)"

section \<open>Declarations\<close>

datatype crypto_direction = OUTBOUND | INBOUND

datatype crypto_stage = DOCUMENT | ENCODED

datatype crypto_input_scope = OPERATION_SCOPE | CONNECTION_SCOPE

datatype output_annotation = StrOutput | BoolOutput | IntOutput | FloatOutput | OtherOutput

record crypto_input =
  ci_id :: nat
  ci_name :: string
  ci_dependency :: dependency
  ci_scope :: crypto_input_scope
  ci_aad :: bool

definition new_crypto_input :: "crypto_input \<Rightarrow> crypto_error + crypto_input" where
  "new_crypto_input i =
     (if ci_name i = [] then Inl (CryptoConfigurationError ''crypto input name must not be empty'') else Inr i)"

definition crypto_input_for ::
  "nat \<Rightarrow> dependency \<Rightarrow> string option \<Rightarrow> crypto_input_scope \<Rightarrow> bool \<Rightarrow> crypto_error + crypto_input" where
  "crypto_input_for i d name scope aad =
     new_crypto_input \<lparr>ci_id = i, ci_name = (case name of Some (c # cs) \<Rightarrow> c # cs | _ \<Rightarrow> dep_name d),
       ci_dependency = d, ci_scope = scope, ci_aad = aad\<rparr>"

record crypto_output =
  ou_id :: nat
  ou_name :: string
  ou_annotation :: output_annotation
  ou_validator :: "pyval \<Rightarrow> sdk_error + pyval"
  ou_secret :: bool

definition new_crypto_output :: "crypto_output \<Rightarrow> crypto_error + crypto_output" where
  "new_crypto_output out =
     (if ou_name out = [] then Inl (CryptoConfigurationError ''crypto output name must not be empty'') else Inr out)"

record output_value =
  ov_output :: crypto_output
  ov_value :: pyval

datatype alg_value = FrozenV frozen | BytesV string | OtherV

datatype alg_result = PlainResult alg_value | CryptoResult alg_value "output_value list"

text \<open>The descriptors a \<open>CryptoValues\<close> is asked for.\<close>

datatype descriptor_id = InputId nat | OutputId nat

record crypto_context =
  xc_operation_id :: string
  xc_profile :: string
  xc_algorithm :: string
  xc_direction :: crypto_direction
  xc_stage :: crypto_stage
  xc_attempt :: int
  xc_path :: "json_path option"
  xc_aad :: "(string \<times> frozen) list"
  xc_values :: "(descriptor_id \<times> pyval) list"

record http_crypto_context = crypto_context +
  xh_method :: string
  xh_authority :: string
  xh_clear_content_type :: "string option"
  xh_outer_content_type :: "string option"

definition values_require :: "(descriptor_id \<times> pyval) list \<Rightarrow> descriptor_id \<Rightarrow> string \<Rightarrow> string \<Rightarrow> crypto_error + pyval" where
  "values_require items descriptor kind name =
     (case map_of items descriptor of
        Some v \<Rightarrow> Inr v
      | None \<Rightarrow> Inl (CryptoConfigurationError
          (''crypto '' @ kind @ '' '' @ py_repr name @ '' is unavailable at this stage'')))"

definition context_input :: "'x crypto_context_scheme \<Rightarrow> crypto_input \<Rightarrow> crypto_error + pyval" where
  "context_input ctx i = values_require (xc_values ctx) (InputId (ci_id i)) ''input'' (ci_name i)"

definition context_metadata :: "'x crypto_context_scheme \<Rightarrow> crypto_output \<Rightarrow> crypto_error + pyval" where
  "context_metadata ctx out = values_require (xc_values ctx) (OutputId (ou_id out)) ''metadata'' (ou_name out)"

text \<open>
  An algorithm: a name, when it has a text for it, and the methods it has. A method sees the context and the
  value; \<open>None\<close> is an exception. Whether it is a coroutine function is all a runtime asks of it besides.
\<close>

type_synonym 'w alg_call = "http_crypto_context \<Rightarrow> alg_value \<Rightarrow> 'w \<Rightarrow> alg_result option \<times> 'w"

record 'w algorithm =
  al_id :: nat
  al_name :: "string option"
  al_encrypt :: "'w alg_call option"
  al_decrypt :: "'w alg_call option"
  al_encrypt_async :: bool
  al_decrypt_async :: bool

record 'w encrypt_field =
  ef_model :: annot
  ef_path :: json_path
  ef_using :: "'w algorithm"
  ef_outputs :: "crypto_output list"

record 'w decrypt_field =
  df_model :: annot
  df_path :: json_path
  df_using :: "'w algorithm"
  df_metadata :: "crypto_output list"

record 'w encrypt_encoded =
  ee_using :: "'w algorithm"
  ee_max_input :: "int option"
  ee_max_output :: "int option"
  ee_outputs :: "crypto_output list"

record 'w decrypt_encoded =
  de_using :: "'w algorithm"
  de_max_input :: "int option"
  de_max_output :: "int option"
  de_metadata :: "crypto_output list"

definition encrypt_field_of ::
  "annot \<Rightarrow> bool \<Rightarrow> traversal \<Rightarrow> 'w algorithm \<Rightarrow> crypto_output list \<Rightarrow> crypto_error + 'w encrypt_field" where
  "encrypt_field_of model model_is_type chosen alg outs =
     bindE (selected_path model_is_type chosen) (\<lambda>path.
       Inr \<lparr>ef_model = model, ef_path = path, ef_using = alg, ef_outputs = outs\<rparr>)"

definition decrypt_field_of ::
  "annot \<Rightarrow> bool \<Rightarrow> traversal \<Rightarrow> 'w algorithm \<Rightarrow> crypto_output list \<Rightarrow> crypto_error + 'w decrypt_field" where
  "decrypt_field_of model model_is_type chosen alg metadata =
     bindE (selected_path model_is_type chosen) (\<lambda>path.
       Inr \<lparr>df_model = model, df_path = path, df_using = alg, df_metadata = metadata\<rparr>)"

text \<open>The \<open>__eq__\<close> of the four: models, algorithms and outputs by identity.\<close>

definition same_encrypt_field :: "'w encrypt_field \<Rightarrow> 'w encrypt_field \<Rightarrow> bool" where
  "same_encrypt_field a b \<longleftrightarrow>
     ef_model a = ef_model b \<and> ef_path a = ef_path b \<and> al_id (ef_using a) = al_id (ef_using b) \<and>
     map ou_id (ef_outputs a) = map ou_id (ef_outputs b)"

definition same_decrypt_field :: "'w decrypt_field \<Rightarrow> 'w decrypt_field \<Rightarrow> bool" where
  "same_decrypt_field a b \<longleftrightarrow>
     df_model a = df_model b \<and> df_path a = df_path b \<and> al_id (df_using a) = al_id (df_using b) \<and>
     map ou_id (df_metadata a) = map ou_id (df_metadata b)"

definition same_encrypt_encoded :: "'w encrypt_encoded \<Rightarrow> 'w encrypt_encoded \<Rightarrow> bool" where
  "same_encrypt_encoded a b \<longleftrightarrow>
     al_id (ee_using a) = al_id (ee_using b) \<and> ee_max_input a = ee_max_input b \<and>
     ee_max_output a = ee_max_output b \<and> map ou_id (ee_outputs a) = map ou_id (ee_outputs b)"

definition same_decrypt_encoded :: "'w decrypt_encoded \<Rightarrow> 'w decrypt_encoded \<Rightarrow> bool" where
  "same_decrypt_encoded a b \<longleftrightarrow>
     al_id (de_using a) = al_id (de_using b) \<and> de_max_input a = de_max_input b \<and>
     de_max_output a = de_max_output b \<and> map ou_id (de_metadata a) = map ou_id (de_metadata b)"

definition validate_limits :: "int option list \<Rightarrow> crypto_error + unit" where
  "validate_limits limits =
     (if list_ex (\<lambda>l. case l of Some n \<Rightarrow> n \<le> 0 | None \<Rightarrow> False) limits
      then Inl (CryptoConfigurationError ''crypto byte limits must be positive'') else Inr ())"

definition new_encrypt_encoded :: "'w encrypt_encoded \<Rightarrow> crypto_error + 'w encrypt_encoded" where
  "new_encrypt_encoded e = bindE (validate_limits [ee_max_input e, ee_max_output e]) (\<lambda>_. Inr e)"

definition new_decrypt_encoded :: "'w decrypt_encoded \<Rightarrow> crypto_error + 'w decrypt_encoded" where
  "new_decrypt_encoded e = bindE (validate_limits [de_max_input e, de_max_output e]) (\<lambda>_. Inr e)"

record 'w outbound_crypto =
  ob_fields :: "'w encrypt_field list"
  ob_encoded :: "'w encrypt_encoded option"

record 'w inbound_crypto =
  ib_fields :: "'w decrypt_field list"
  ib_encoded :: "'w decrypt_encoded option"

definition new_outbound :: "'w outbound_crypto \<Rightarrow> crypto_error + 'w outbound_crypto" where
  "new_outbound out =
     bindE (validate_paths (map ef_path (ob_fields out)) ''outbound crypto'') (\<lambda>_.
       if ob_fields out = [] \<and> Option.is_none (ob_encoded out)
       then Inl (CryptoConfigurationError ''outbound crypto must declare a transform'') else Inr out)"

definition new_inbound :: "'w inbound_crypto \<Rightarrow> crypto_error + 'w inbound_crypto" where
  "new_inbound inb =
     bindE (validate_paths (map df_path (ib_fields inb)) ''inbound crypto'') (\<lambda>_.
       if ib_fields inb = [] \<and> Option.is_none (ib_encoded inb)
       then Inl (CryptoConfigurationError ''inbound crypto must declare a transform'') else Inr inb)"

record 'w payload_crypto =
  pf_name :: string
  pf_outbound :: "'w outbound_crypto option"
  pf_inbound :: "'w inbound_crypto option"
  pf_inputs :: "crypto_input list"

text \<open>\<open>_validate_identities\<close> on the identities and names of the values.\<close>

fun validate_identities :: "nat list \<Rightarrow> string list \<Rightarrow> (nat \<times> string) list \<Rightarrow> string \<Rightarrow> crypto_error + unit" where
  "validate_identities ids names [] owner = Inr ()"
| "validate_identities ids names ((i, n) # rest) owner =
     (if i \<in> set ids \<or> n \<in> set names
      then Inl (CryptoConfigurationError (''duplicate '' @ owner @ '': '' @ py_repr n))
      else validate_identities (i # ids) (n # names) rest owner)"

definition new_payload_crypto :: "'w payload_crypto \<Rightarrow> crypto_error + 'w payload_crypto" where
  "new_payload_crypto p =
     (if pf_name p = [] then Inl (CryptoConfigurationError ''payload crypto profile name must not be empty'')
      else if Option.is_none (pf_outbound p) \<and> Option.is_none (pf_inbound p)
      then Inl (CryptoConfigurationError ''payload crypto profile must declare a direction'')
      else bindE (validate_identities [] [] (map (\<lambda>i. (ci_id i, ci_name i)) (pf_inputs p)) ''crypto inputs'') (\<lambda>_. Inr p))"

definition same_option :: "('a \<Rightarrow> 'a \<Rightarrow> bool) \<Rightarrow> 'a option \<Rightarrow> 'a option \<Rightarrow> bool" where
  "same_option eq a b = (case (a, b) of (None, None) \<Rightarrow> True | (Some x, Some y) \<Rightarrow> eq x y | _ \<Rightarrow> False)"

definition same_profile :: "'w payload_crypto \<Rightarrow> 'w payload_crypto \<Rightarrow> bool" where
  "same_profile a b \<longleftrightarrow>
     pf_name a = pf_name b \<and>
     same_option (\<lambda>x y. list_all2 same_encrypt_field (ob_fields x) (ob_fields y) \<and>
        same_option same_encrypt_encoded (ob_encoded x) (ob_encoded y)) (pf_outbound a) (pf_outbound b) \<and>
     same_option (\<lambda>x y. list_all2 same_decrypt_field (ib_fields x) (ib_fields y) \<and>
        same_option same_decrypt_encoded (ib_encoded x) (ib_encoded y)) (pf_inbound a) (pf_inbound b) \<and>
     map ci_id (pf_inputs a) = map ci_id (pf_inputs b)"

section \<open>How a profile shows on the wire\<close>

record http_crypto_header =
  hh_output :: crypto_output
  hh_name :: string

record websocket_crypto_field =
  wf_output :: crypto_output
  wf_path :: "string list"

definition new_http_crypto_header :: "http_crypto_header \<Rightarrow> crypto_error + http_crypto_header" where
  "new_http_crypto_header h =
     (if hh_name h = [] \<or> list_ex (\<lambda>c. c \<in> {CHR 13, CHR 10, CHR '':''}) (hh_name h)
      then Inl (CryptoConfigurationError (''invalid crypto metadata header '' @ py_repr (hh_name h))) else Inr h)"

definition new_websocket_crypto_field :: "websocket_crypto_field \<Rightarrow> crypto_error + websocket_crypto_field" where
  "new_websocket_crypto_field f =
     (if wf_path f = [] \<or> [] \<in> set (wf_path f)
      then Inl (CryptoConfigurationError ''WebSocket crypto metadata path must not be empty'') else Inr f)"

record http_encrypted =
  he_content_type :: string
  he_clear_content_type :: string
  he_plaintext_statuses :: "int list"
  he_metadata :: "http_crypto_header list"

record websocket_encrypted =
  we_text_frame :: bool
  we_text_safe :: bool
  we_clear_text_frame :: bool
  we_metadata :: "websocket_crypto_field list"

datatype encrypted = HttpEnc http_encrypted | WebSocketEnc websocket_encrypted

definition validate_media_type :: "string \<Rightarrow> string \<Rightarrow> crypto_error + unit" where
  "validate_media_type v label =
     (if v = [] \<or> CHR ''/'' \<notin> set v \<or> list_ex is_space v
      then Inl (CryptoConfigurationError (label @ '' is invalid: '' @ py_repr v)) else Inr ())"

text \<open>
  \<open>_validate_binding_outputs\<close>: the outputs are different ones, the slots too. A header name folds its case;
  \<open>str.casefold\<close> is \<open>lower\<close> on ASCII.
\<close>

fun validate_slots :: "'a list \<Rightarrow> ('a \<times> string) list \<Rightarrow> crypto_error + unit" where
  "validate_slots seen [] = Inr ()"
| "validate_slots seen ((slot, raw) # rest) =
     (if slot \<in> set seen then Inl (CryptoConfigurationError (''duplicate crypto metadata slot: '' @ raw))
      else validate_slots (slot # seen) rest)"

definition output_identity :: "crypto_output \<Rightarrow> nat \<times> string" where
  "output_identity out = (ou_id out, ou_name out)"

definition validate_http_bindings :: "http_crypto_header list \<Rightarrow> crypto_error + unit" where
  "validate_http_bindings bs =
     bindE (validate_identities [] [] (map (output_identity \<circ> hh_output) bs) ''crypto metadata bindings'') (\<lambda>_.
       validate_slots [] (map (\<lambda>b. (lower (hh_name b), py_repr (hh_name b))) bs))"

definition validate_websocket_bindings :: "websocket_crypto_field list \<Rightarrow> crypto_error + unit" where
  "validate_websocket_bindings bs =
     bindE (validate_identities [] [] (map (output_identity \<circ> wf_output) bs) ''crypto metadata bindings'') (\<lambda>_.
     bindE (validate_slots [] (map (\<lambda>b. (wf_path b, join ''.'' (wf_path b))) bs)) (\<lambda>_.
       case first_meeting (map wf_path bs) of
         None \<Rightarrow> Inr ()
       | Some (p, q) \<Rightarrow> Inl (CryptoConfigurationError
           (''overlapping WebSocket crypto metadata slots: '' @ join ''.'' p @ '' and '' @ join ''.'' q))))"

definition new_http_encrypted :: "http_encrypted \<Rightarrow> crypto_error + http_encrypted" where
  "new_http_encrypted h =
     bindE (validate_media_type (he_content_type h) ''encrypted content type'') (\<lambda>_.
     bindE (validate_media_type (he_clear_content_type h) ''clear content type'') (\<lambda>_.
       if list_ex (\<lambda>s. s < 100 \<or> 599 < s) (he_plaintext_statuses h)
       then Inl (CryptoConfigurationError ''plaintext response statuses must be valid HTTP codes'')
       else bindE (validate_http_bindings (he_metadata h)) (\<lambda>_. Inr h)))"

definition new_websocket_encrypted :: "websocket_encrypted \<Rightarrow> crypto_error + websocket_encrypted" where
  "new_websocket_encrypted w =
     (if we_text_frame w \<and> \<not> we_text_safe w
      then Inl (CryptoConfigurationError ''text encrypted frames require text_safe=True'')
      else bindE (validate_websocket_bindings (we_metadata w)) (\<lambda>_. Inr w))"

section \<open>Rules\<close>

text \<open>A frozenset is a list read by membership.\<close>

record http_crypto_scope =
  hs_hosts :: "string list"
  hs_path_prefixes :: "string list"
  hs_methods :: "string list"
  hs_operation_ids :: "string list"

record websocket_crypto_scope =
  kw_endpoint_prefixes :: "string list"
  kw_operation_ids :: "string list"
  kw_channels :: "string list"
  kw_events :: "string list"
  kw_directions :: "crypto_direction list"

definition http_crypto_scope_of :: "string list \<Rightarrow> string list \<Rightarrow> string list \<Rightarrow> string list \<Rightarrow> http_crypto_scope" where
  "http_crypto_scope_of hs ps ms ids =
     \<lparr>hs_hosts = map lower hs, hs_path_prefixes = ps, hs_methods = map (map upper_char) ms, hs_operation_ids = ids\<rparr>"

definition websocket_crypto_scope_of ::
  "string list \<Rightarrow> string list \<Rightarrow> string list \<Rightarrow> string list \<Rightarrow> crypto_direction list \<Rightarrow> websocket_crypto_scope" where
  "websocket_crypto_scope_of ps ids cs es ds =
     \<lparr>kw_endpoint_prefixes = ps, kw_operation_ids = ids, kw_channels = cs, kw_events = es, kw_directions = ds\<rparr>"

datatype crypto_scope = HttpScope http_crypto_scope | WebSocketScope websocket_crypto_scope

record 'w crypto_rule =
  ru_profile :: "'w payload_crypto"
  ru_scope :: crypto_scope
  ru_priority :: int
  ru_encrypted :: "encrypted option"
  ru_directions :: "crypto_direction list"

definition new_crypto_rule :: "'w crypto_rule \<Rightarrow> crypto_error + 'w crypto_rule" where
  "new_crypto_rule r =
     (if ru_directions r = [] then Inl (CryptoConfigurationError ''crypto rule directions cannot be empty'') else Inr r)"

text \<open>\<open>CryptoRegistry.__post_init__\<close>: one name, one profile.\<close>

fun registry_check :: "(string, 'w payload_crypto) dict \<Rightarrow> 'w crypto_rule list \<Rightarrow> crypto_error + unit" where
  "registry_check names [] = Inr ()"
| "registry_check names (r # rs) =
     (let n = pf_name (ru_profile r) in
      case map_of names n of
        Some p \<Rightarrow>
          if \<not> same_profile p (ru_profile r)
          then Inl (CryptoConfigurationError (''crypto profile name '' @ py_repr n @ '' has conflicting definitions''))
          else registry_check (AList.update n (ru_profile r) names) rs
      | None \<Rightarrow> registry_check (AList.update n (ru_profile r) names) rs)"

definition new_crypto_registry :: "'w crypto_rule list \<Rightarrow> crypto_error + 'w crypto_rule list" where
  "new_crypto_registry rs = bindE (registry_check [] rs) (\<lambda>_. Inr rs)"

definition starts_with_any :: "string list \<Rightarrow> string \<Rightarrow> bool" where
  "starts_with_any ps s = list_ex (\<lambda>p. prefix p s) ps"

definition matches_http :: "http_crypto_scope \<Rightarrow> string \<Rightarrow> string \<Rightarrow> string \<Rightarrow> string \<Rightarrow> bool" where
  "matches_http s host path method operation_id \<longleftrightarrow>
     (hs_hosts s = [] \<or> lower host \<in> set (hs_hosts s)) \<and>
     (hs_path_prefixes s = [] \<or> starts_with_any (hs_path_prefixes s) path) \<and>
     (hs_methods s = [] \<or> map upper_char method \<in> set (hs_methods s)) \<and>
     (hs_operation_ids s = [] \<or> operation_id \<in> set (hs_operation_ids s))"

definition matches_websocket ::
  "websocket_crypto_scope \<Rightarrow> string \<Rightarrow> string \<Rightarrow> string option \<Rightarrow> string option \<Rightarrow> crypto_direction \<Rightarrow> bool" where
  "matches_websocket s endpoint operation_id channel event direction \<longleftrightarrow>
     (kw_endpoint_prefixes s = [] \<or> starts_with_any (kw_endpoint_prefixes s) endpoint) \<and>
     (kw_operation_ids s = [] \<or> operation_id \<in> set (kw_operation_ids s)) \<and>
     (kw_channels s = [] \<or> channel \<in> Some ` set (kw_channels s)) \<and>
     (kw_events s = [] \<or> event \<in> Some ` set (kw_events s)) \<and>
     (kw_directions s = [] \<or> direction \<in> set (kw_directions s))"

text \<open>\<open>_select_rule\<close>: the one match of the highest priority, with the directions of the rule.\<close>

definition masked_profile :: "'w crypto_rule \<Rightarrow> 'w payload_crypto" where
  "masked_profile r =
     \<lparr>pf_name = pf_name (ru_profile r),
      pf_outbound = (if OUTBOUND \<in> set (ru_directions r) then pf_outbound (ru_profile r) else None),
      pf_inbound = (if INBOUND \<in> set (ru_directions r) then pf_inbound (ru_profile r) else None),
      pf_inputs = pf_inputs (ru_profile r)\<rparr>"

definition top_priority :: "'w crypto_rule list \<Rightarrow> int" where
  "top_priority matches = Max (set (map ru_priority matches))"

definition ambiguous_rules :: "'w crypto_rule list \<Rightarrow> string \<Rightarrow> int \<Rightarrow> crypto_error" where
  "ambiguous_rules selected protocol priority =
     CryptoConfigurationError (''ambiguous '' @ protocol @ '' crypto rules at priority '' @ str_int priority @ '': ['' @
       join '', '' (map py_repr (sort (map (pf_name \<circ> ru_profile) selected))) @ '']'')"

definition select_rule ::
  "'w crypto_rule list \<Rightarrow> string \<Rightarrow> crypto_error + ('w payload_crypto \<times> encrypted option) option" where
  "select_rule matches protocol =
     (if matches = [] then Inr None
      else case filter (\<lambda>r. ru_priority r = top_priority matches) matches of
             [r] \<Rightarrow> bindE (new_payload_crypto (masked_profile r)) (\<lambda>p. Inr (Some (p, ru_encrypted r)))
           | selected \<Rightarrow> Inl (ambiguous_rules selected protocol (top_priority matches)))"

definition http_match :: "string \<Rightarrow> string \<Rightarrow> string \<Rightarrow> string \<Rightarrow> 'w crypto_rule \<Rightarrow> bool" where
  "http_match host path method operation_id r =
     (case ru_scope r of HttpScope s \<Rightarrow> matches_http s host path method operation_id | WebSocketScope _ \<Rightarrow> False)"

definition resolve_http ::
  "'w crypto_rule list \<Rightarrow> string \<Rightarrow> string \<Rightarrow> string \<Rightarrow> string \<Rightarrow>
     crypto_error + ('w payload_crypto \<times> encrypted option) option" where
  "resolve_http rs host path method operation_id =
     select_rule (filter (http_match host path method operation_id) rs) ''HTTP''"

definition websocket_match ::
  "string \<Rightarrow> string \<Rightarrow> string option \<Rightarrow> string option \<Rightarrow> crypto_direction \<Rightarrow> 'w crypto_rule \<Rightarrow> bool" where
  "websocket_match endpoint operation_id channel event direction r =
     (case ru_scope r of
        HttpScope _ \<Rightarrow> False
      | WebSocketScope s \<Rightarrow> direction \<in> set (ru_directions r) \<and>
          matches_websocket s endpoint operation_id channel event direction)"

definition resolve_websocket ::
  "'w crypto_rule list \<Rightarrow> string \<Rightarrow> string \<Rightarrow> string option \<Rightarrow> string option \<Rightarrow> crypto_direction \<Rightarrow>
     crypto_error + ('w payload_crypto \<times> encrypted option) option" where
  "resolve_websocket rs endpoint operation_id channel event direction =
     select_rule (filter (websocket_match endpoint operation_id channel event direction) rs) ''WebSocket''"

section \<open>Compiling a profile\<close>

definition algorithm_name :: "'w algorithm \<Rightarrow> crypto_error + string" where
  "algorithm_name a =
     (case al_name a of
        Some (c # cs) \<Rightarrow> Inr (c # cs)
      | _ \<Rightarrow> Inl (CryptoConfigurationError ''crypto algorithm requires a non-empty name''))"

definition validate_algorithm :: "'w algorithm \<Rightarrow> 'w alg_call option \<Rightarrow> string \<Rightarrow> crypto_error + unit" where
  "validate_algorithm a m method_name =
     bindE (algorithm_name a) (\<lambda>n.
       if Option.is_none m
       then Inl (CryptoConfigurationError (''crypto algorithm '' @ py_repr n @ '' has no callable '' @ method_name @ '' method''))
       else Inr ())"

text \<open>\<open>declared is expected or expected is object\<close>.\<close>

definition models_compatible :: "annot \<Rightarrow> annot \<Rightarrow> bool" where
  "models_compatible wanted expected \<longleftrightarrow> wanted = expected \<or> expected = ClassT ''object''"

definition validate_model :: "annot \<Rightarrow> annot option \<Rightarrow> string \<Rightarrow> crypto_error + unit" where
  "validate_model wanted expected direction =
     (case expected of
        Some e \<Rightarrow>
          if models_compatible wanted e then Inr ()
          else Inl (CryptoConfigurationError (direction @ '' crypto model does not match operation model''))
      | None \<Rightarrow> Inr ())"

record 'w compiled_encrypt_field =
  ef_decl :: "'w encrypt_field"
  ef_wire :: json_path

record 'w compiled_decrypt_field =
  df_decl :: "'w decrypt_field"
  df_wire :: json_path

record 'w compiled_crypto =
  kc_profile :: "'w payload_crypto"
  kc_outbound :: "'w compiled_encrypt_field list"
  kc_inbound :: "'w compiled_decrypt_field list"

fun distinct_writers :: "nat list \<Rightarrow> string list \<Rightarrow> crypto_output list \<Rightarrow> crypto_error + unit" where
  "distinct_writers ids names [] = Inr ()"
| "distinct_writers ids names (out # rest) =
     (if ou_id out \<in> set ids \<or> ou_name out \<in> set names
      then Inl (CryptoConfigurationError (''crypto output '' @ py_repr (ou_name out) @ '' has multiple writers''))
      else distinct_writers (ou_id out # ids) (ou_name out # names) rest)"

definition declared_outputs :: "'w outbound_crypto \<Rightarrow> crypto_output list" where
  "declared_outputs out =
     concat (map ef_outputs (ob_fields out)) @ (case ob_encoded out of Some e \<Rightarrow> ee_outputs e | None \<Rightarrow> [])"

definition validate_declared_outputs :: "'w payload_crypto \<Rightarrow> crypto_error + unit" where
  "validate_declared_outputs p =
     (case pf_outbound p of None \<Rightarrow> Inr () | Some out \<Rightarrow> distinct_writers [] [] (declared_outputs out))"

definition compile_encrypt_field ::
  "(annot \<Rightarrow> model_field list option) \<Rightarrow> annot option \<Rightarrow> 'w encrypt_field \<Rightarrow> crypto_error + 'w compiled_encrypt_field" where
  "compile_encrypt_field fields_of outbound_model d =
     bindE (validate_algorithm (ef_using d) (al_encrypt (ef_using d)) ''encrypt'') (\<lambda>_.
     bindE (validate_model (ef_model d) outbound_model ''outbound'') (\<lambda>_.
     bindE (resolve_wire_path fields_of (ef_model d) (ef_path d)) (\<lambda>w. Inr \<lparr>ef_decl = d, ef_wire = w\<rparr>)))"

definition compile_decrypt_field ::
  "(annot \<Rightarrow> model_field list option) \<Rightarrow> annot list \<Rightarrow> 'w decrypt_field \<Rightarrow> crypto_error + 'w compiled_decrypt_field" where
  "compile_decrypt_field fields_of inbound_models d =
     bindE (validate_algorithm (df_using d) (al_decrypt (df_using d)) ''decrypt'') (\<lambda>_.
       if inbound_models \<noteq> [] \<and> \<not> list_ex (models_compatible (df_model d)) inbound_models
       then Inl (CryptoConfigurationError ''inbound crypto model does not match operation models'')
       else bindE (resolve_wire_path fields_of (df_model d) (df_path d)) (\<lambda>w. Inr \<lparr>df_decl = d, df_wire = w\<rparr>))"

definition compile_outbound ::
  "(annot \<Rightarrow> model_field list option) \<Rightarrow> annot option \<Rightarrow> 'w outbound_crypto option \<Rightarrow>
     crypto_error + 'w compiled_encrypt_field list" where
  "compile_outbound fields_of outbound_model out =
     (case out of
        None \<Rightarrow> Inr []
      | Some b \<Rightarrow>
          bindE (mapE (compile_encrypt_field fields_of outbound_model) (ob_fields b)) (\<lambda>fs.
            case ob_encoded b of
              Some e \<Rightarrow> bindE (validate_algorithm (ee_using e) (al_encrypt (ee_using e)) ''encrypt'') (\<lambda>_. Inr fs)
            | None \<Rightarrow> Inr fs))"

definition compile_inbound ::
  "(annot \<Rightarrow> model_field list option) \<Rightarrow> annot list \<Rightarrow> 'w inbound_crypto option \<Rightarrow>
     crypto_error + 'w compiled_decrypt_field list" where
  "compile_inbound fields_of inbound_models inb =
     (case inb of
        None \<Rightarrow> Inr []
      | Some b \<Rightarrow>
          bindE (mapE (compile_decrypt_field fields_of inbound_models) (ib_fields b)) (\<lambda>fs.
            case ib_encoded b of
              Some e \<Rightarrow> bindE (validate_algorithm (de_using e) (al_decrypt (de_using e)) ''decrypt'') (\<lambda>_. Inr fs)
            | None \<Rightarrow> Inr fs))"

definition compile_payload_crypto ::
  "(annot \<Rightarrow> model_field list option) \<Rightarrow> 'w payload_crypto \<Rightarrow> annot option \<Rightarrow> annot list \<Rightarrow>
     crypto_error + 'w compiled_crypto" where
  "compile_payload_crypto fields_of p outbound_model inbound_models =
     bindE (compile_outbound fields_of outbound_model (pf_outbound p)) (\<lambda>outs.
     bindE (compile_inbound fields_of inbound_models (pf_inbound p)) (\<lambda>ins.
     bindE (validate_resolved_paths (map ef_wire outs) ''outbound'') (\<lambda>_.
     bindE (validate_resolved_paths (map df_wire ins) ''inbound'') (\<lambda>_.
     bindE (validate_declared_outputs p) (\<lambda>_.
       Inr \<lparr>kc_profile = p, kc_outbound = outs, kc_inbound = ins\<rparr>)))))"

text \<open>A synchronous runtime runs no coroutine.\<close>

definition runtime_calls :: "'w payload_crypto \<Rightarrow> ('w algorithm \<times> bool) list" where
  "runtime_calls p =
     (case pf_outbound p of
        None \<Rightarrow> []
      | Some b \<Rightarrow> map (\<lambda>f. (ef_using f, al_encrypt_async (ef_using f))) (ob_fields b) @
          (case ob_encoded b of Some e \<Rightarrow> [(ee_using e, al_encrypt_async (ee_using e))] | None \<Rightarrow> [])) @
     (case pf_inbound p of
        None \<Rightarrow> []
      | Some b \<Rightarrow> map (\<lambda>f. (df_using f, al_decrypt_async (df_using f))) (ib_fields b) @
          (case ib_encoded b of Some e \<Rightarrow> [(de_using e, al_decrypt_async (de_using e))] | None \<Rightarrow> []))"

definition validate_crypto_runtime :: "'w payload_crypto \<Rightarrow> bool \<Rightarrow> crypto_error + unit" where
  "validate_crypto_runtime p allow_async =
     (if allow_async then Inr ()
      else case find snd (runtime_calls p) of
             None \<Rightarrow> Inr ()
           | Some (a, _) \<Rightarrow> bindE (algorithm_name a) (\<lambda>n. Inl (CryptoRuntimeMismatchError
               (''sync HTTP runtime cannot use async crypto algorithm '' @ py_repr n))))"

section \<open>Running the algorithms\<close>

text \<open>
  \<open>_collect_result\<close>: the transformed value, and the outputs the collector has afterwards. A collector is
  absent or a list that grows; every failure here is a \<open>TypeError\<close> or comes from a validator.
\<close>

definition check_alg_output :: "crypto_output list \<Rightarrow> nat list \<Rightarrow> output_value \<Rightarrow> sdk_error + nat list" where
  "check_alg_output wanted ids item =
     (case find (\<lambda>out. ou_id out = ou_id (ov_output item)) wanted of
        None \<Rightarrow> Inl (PyTypeError (''crypto algorithm returned undeclared output '' @ py_repr (ou_name (ov_output item))))
      | Some out \<Rightarrow>
          if ou_id (ov_output item) \<in> set ids
          then Inl (PyTypeError (''crypto algorithm returned duplicate output '' @ py_repr (ou_name (ov_output item))))
          else bindE (ou_validator out (ov_value item)) (\<lambda>_. Inr (ou_id (ov_output item) # ids)))"

fun result_value :: "alg_result \<Rightarrow> alg_value" where
  "result_value (PlainResult v) = v"
| "result_value (CryptoResult v outs) = v"

fun result_outputs :: "alg_result \<Rightarrow> output_value list" where
  "result_outputs (PlainResult v) = []"
| "result_outputs (CryptoResult v outs) = outs"

definition output_ids :: "output_value list \<Rightarrow> nat list" where
  "output_ids items = map (ou_id \<circ> ov_output) items"

definition collect_result ::
  "alg_result \<Rightarrow> crypto_output list \<Rightarrow> output_value list option \<Rightarrow> sdk_error + alg_value \<times> output_value list option" where
  "collect_result r wanted collector =
     bindE (foldE (check_alg_output wanted) [] (result_outputs r)) (\<lambda>ids.
       let missing = map ou_name (filter (\<lambda>out. ou_id out \<notin> set ids) wanted) in
       if missing \<noteq> [] then Inl (PyTypeError (''crypto algorithm omitted declared outputs: '' @ join '', '' missing))
       else case collector of
              None \<Rightarrow> Inr (result_value r, None)
            | Some items \<Rightarrow>
                if list_ex (\<lambda>i. i \<in> set ids) (output_ids items)
                then Inl (PyTypeError ''crypto output has multiple runtime writers'')
                else Inr (result_value r, Some (items @ result_outputs r)))"

text \<open>What a stage carries along: the collector and the world of the algorithms.\<close>

type_synonym 'w stage = "output_value list option \<times> 'w"

text \<open>The part of a stage inside \<open>try\<close>: a method that is missing or raises, and the result it gives.\<close>

definition call_algorithm ::
  "'w alg_call option \<Rightarrow> http_crypto_context \<Rightarrow> alg_value \<Rightarrow> crypto_output list \<Rightarrow> 'w stage \<Rightarrow>
     (sdk_error, alg_value, 'w stage) run" where
  "call_algorithm m ctx v wanted st =
     (case m of
        None \<Rightarrow> (Inl (PyError ''AttributeError''), st)
      | Some f \<Rightarrow>
          (case f ctx v (snd st) of
             (None, w) \<Rightarrow> (Inl (PyError ''Exception''), (fst st, w))
           | (Some r, w) \<Rightarrow>
               (case collect_result r wanted (fst st) of
                  Inl e \<Rightarrow> (Inl e, (fst st, w))
                | Inr (v', collector) \<Rightarrow> (Inr v', (collector, w)))))"

definition at_path :: "http_crypto_context \<Rightarrow> string \<Rightarrow> json_path option \<Rightarrow> http_crypto_context" where
  "at_path ctx algorithm path = ctx\<lparr>xc_algorithm := algorithm, xc_path := path\<rparr>"

definition liftS :: "'e + 'a \<Rightarrow> 's \<Rightarrow> ('e, 'a, 's) run" where
  "liftS r st = (r, st)"

text \<open>
  One round of \<open>encrypt_document\<close> or \<open>decrypt_document\<close>: read the field, run the algorithm, check that a frozen
  value came back, write it. The two loops differ in the method, in the outputs a result may carry and in the
  error they raise.
\<close>

definition frozen_result :: "(string \<Rightarrow> crypto_error) \<Rightarrow> string \<Rightarrow> (sdk_error, alg_value, 's) run \<Rightarrow> (crypto_error, frozen, 's) run" where
  "frozen_result failure name r =
     (case r of
        (Inr (FrozenV v), st) \<Rightarrow> (Inr v, st)
      | (_, st) \<Rightarrow> (Inl (failure name), st))"

definition document_step ::
  "(string \<Rightarrow> crypto_error) \<Rightarrow> http_crypto_context \<Rightarrow> 'w algorithm \<Rightarrow> 'w alg_call option \<Rightarrow> crypto_output list \<Rightarrow>
     json_path \<Rightarrow> frozen \<Rightarrow> 'w stage \<Rightarrow> (crypto_error, frozen, 'w stage) run" where
  "document_step failure ctx a m wanted path current st =
     bindS (liftS (read_path current path) st) (\<lambda>selected st.
     bindS (liftS (algorithm_name a) st) (\<lambda>name st.
     bindS (frozen_result failure name (call_algorithm m (at_path ctx name (Some path)) (FrozenV selected) wanted st))
       (\<lambda>v st. liftS (set_path current path v) st)))"

definition encryption_failed :: "string \<Rightarrow> string \<Rightarrow> crypto_error" where
  "encryption_failed stage name =
     PayloadEncryptionError (''payload encryption failed in algorithm '' @ py_repr name @ '' at '' @ stage @ '' stage'')"

definition decryption_failed :: "string \<Rightarrow> string \<Rightarrow> crypto_error" where
  "decryption_failed stage name =
     PayloadDecryptionError (''payload decryption failed in algorithm '' @ py_repr name @ '' at '' @ stage @ '' stage'')"

fun encrypt_document ::
  "http_crypto_context \<Rightarrow> frozen \<Rightarrow> 'w compiled_encrypt_field list \<Rightarrow> 'w stage \<Rightarrow> (crypto_error, frozen, 'w stage) run" where
  "encrypt_document ctx current [] st = (Inr current, st)"
| "encrypt_document ctx current (f # fs) st =
     (let d = ef_decl f in
      bindS (document_step (encryption_failed ''document'') ctx (ef_using d) (al_encrypt (ef_using d)) (ef_outputs d)
               (ef_wire f) current st)
        (\<lambda>current st. encrypt_document ctx current fs st))"

fun decrypt_document ::
  "http_crypto_context \<Rightarrow> frozen \<Rightarrow> 'w compiled_decrypt_field list \<Rightarrow> 'w stage \<Rightarrow> (crypto_error, frozen, 'w stage) run" where
  "decrypt_document ctx current [] st = (Inr current, st)"
| "decrypt_document ctx current (f # fs) st =
     (let d = df_decl f in
      bindS (document_step (decryption_failed ''document'') ctx (df_using d) (al_decrypt (df_using d)) []
               (df_wire f) current st)
        (\<lambda>current st. decrypt_document ctx current fs st))"

definition check_limit :: "string \<Rightarrow> int option \<Rightarrow> string \<Rightarrow> crypto_error + unit" where
  "check_limit v limit stage =
     (case limit of
        Some n \<Rightarrow>
          if n < int (length v) then Inl (CryptoLimitError (stage @ '' exceeds configured limit '' @ str_int n)) else Inr ()
      | None \<Rightarrow> Inr ())"

definition bytes_result :: "(string \<Rightarrow> crypto_error) \<Rightarrow> string \<Rightarrow> (sdk_error, alg_value, 's) run \<Rightarrow> (crypto_error, string, 's) run" where
  "bytes_result failure name r =
     (case r of
        (Inr (BytesV v), st) \<Rightarrow> (Inr v, st)
      | (_, st) \<Rightarrow> (Inl (failure name), st))"

definition encrypt_bytes ::
  "http_crypto_context \<Rightarrow> string \<Rightarrow> 'w encrypt_encoded \<Rightarrow> 'w stage \<Rightarrow> (crypto_error, string, 'w stage) run" where
  "encrypt_bytes ctx v d st =
     bindS (liftS (check_limit v (ee_max_input d) ''encoded encryption input'') st) (\<lambda>_ st.
     bindS (liftS (algorithm_name (ee_using d)) st) (\<lambda>name st.
     bindS (bytes_result (encryption_failed ''encoded'') name
              (call_algorithm (al_encrypt (ee_using d)) (at_path ctx name None) (BytesV v) (ee_outputs d) st)) (\<lambda>out st.
     bindS (liftS (check_limit out (ee_max_output d) ''encoded encryption output'') st) (\<lambda>_ st. (Inr out, st)))))"

definition decrypt_bytes ::
  "http_crypto_context \<Rightarrow> string \<Rightarrow> 'w decrypt_encoded \<Rightarrow> 'w stage \<Rightarrow> (crypto_error, string, 'w stage) run" where
  "decrypt_bytes ctx v d st =
     bindS (liftS (check_limit v (de_max_input d) ''encoded decryption input'') st) (\<lambda>_ st.
     bindS (liftS (algorithm_name (de_using d)) st) (\<lambda>name st.
     bindS (bytes_result (decryption_failed ''encoded'') name
              (call_algorithm (al_decrypt (de_using d)) (at_path ctx name None) (BytesV v) [] st)) (\<lambda>out st.
     bindS (liftS (check_limit out (de_max_output d) ''encoded decryption output'') st) (\<lambda>_ st. (Inr out, st)))))"

section \<open>Crypto inputs\<close>

text \<open>
  \<open>resolve_crypto_inputs\<close>: a cache, when there is one, is read and filled by the identity of the input; the
  providers see what was resolved before.
\<close>

record 'w input_state =
  is_cache :: "(nat, pyval) dict option"
  is_resolved :: "(nat, pyval) dict"
  is_values :: "(descriptor_id \<times> pyval) list"
  is_aad :: "(string \<times> frozen) list"
  is_world :: 'w

definition provided_input :: "dependency \<Rightarrow> provider_outcome \<Rightarrow> sdk_error + pyval" where
  "provided_input d outcome =
     (case outcome of
        Provided v \<Rightarrow> dep_validator d v
      | ProviderUnavailable _ \<Rightarrow> Inl (PlanError (''required dependency unavailable: '' @ dep_name d))
      | ProviderRaised e \<Rightarrow> Inl e)"

definition input_value ::
  "'w registry \<Rightarrow> dep_context \<Rightarrow> crypto_input \<Rightarrow> 'w input_state \<Rightarrow> (sdk_error, pyval, 'w input_state) run" where
  "input_value reg ctx i st =
     (case Option.bind (is_cache st) (\<lambda>c. map_of c (ci_id i)) of
        Some v \<Rightarrow> (Inr v, st)
      | None \<Rightarrow>
          (case registered (ci_dependency i) reg of
             None \<Rightarrow> (Inl (PlanError (''missing provider: '' @ dep_name (ci_dependency i))), st)
           | Some NoResolveMethod \<Rightarrow>
               (Inl (PlanError (''provider has no resolve method: '' @ dep_name (ci_dependency i))), st)
           | Some (Provider f) \<Rightarrow>
               (case f (ctx\<lparr>ctx_resolved := is_resolved st\<rparr>) (is_world st) of
                  (outcome, w) \<Rightarrow>
                    bindS (provided_input (ci_dependency i) outcome, st\<lparr>is_world := w\<rparr>) (\<lambda>v st.
                      (Inr v, st\<lparr>is_cache := map_option (AList.update (ci_id i) v) (is_cache st)\<rparr>)))))"

definition crypto_input_step ::
  "'w registry \<Rightarrow> dep_context \<Rightarrow> crypto_input \<Rightarrow> 'w input_state \<Rightarrow> (sdk_error, unit, 'w input_state) run" where
  "crypto_input_step reg ctx i st =
     bindS (input_value reg ctx i st) (\<lambda>v st.
       let st' = st\<lparr>is_resolved := AList.update (dep_id (ci_dependency i)) v (is_resolved st),
                    is_values := is_values st @ [(InputId (ci_id i), v)]\<rparr> in
       if ci_aad i
       then bindS (freeze_value v, st') (\<lambda>f st. (Inr (), st\<lparr>is_aad := is_aad st @ [(ci_name i, f)]\<rparr>))
       else (Inr (), st'))"

fun input_loop ::
  "'w registry \<Rightarrow> dep_context \<Rightarrow> crypto_input list \<Rightarrow> 'w input_state \<Rightarrow> (sdk_error, unit, 'w input_state) run" where
  "input_loop reg ctx [] st = (Inr (), st)"
| "input_loop reg ctx (i # rest) st = bindS (crypto_input_step reg ctx i st) (\<lambda>_ st. input_loop reg ctx rest st)"

definition resolve_crypto_inputs ::
  "crypto_input list \<Rightarrow> 'w registry \<Rightarrow> string \<Rightarrow> int \<Rightarrow> (nat, pyval) dict option \<Rightarrow> 'w \<Rightarrow>
     (sdk_error, (descriptor_id \<times> pyval) list \<times> (string \<times> frozen) list, 'w input_state) run" where
  "resolve_crypto_inputs inputs reg operation_id attempt cache w =
     bindS (input_loop reg \<lparr>ctx_operation = operation_id, ctx_attempt = attempt, ctx_resolved = [], ctx_base_url = [],
              ctx_services = []\<rparr> inputs \<lparr>is_cache = cache, is_resolved = [], is_values = [], is_aad = [], is_world = w\<rparr>)
       (\<lambda>_ st. (Inr (is_values st, is_aad st), st))"

section \<open>Frozen documents in order\<close>

text \<open>A document as \<open>freeze_value\<close> makes it: the keys of an object are sorted and differ.\<close>

fun canonical_frozen :: "frozen \<Rightarrow> bool" where
  "canonical_frozen (FArray xs) = list_all canonical_frozen xs"
| "canonical_frozen (FObject ps) =
     (sorted (map fst ps) \<and> distinct (map fst ps) \<and> list_all (\<lambda>p. canonical_frozen (snd p)) ps)"
| "canonical_frozen v = True"

definition norm_frozen :: "frozen \<Rightarrow> frozen" where
  "norm_frozen v = projr (freeze_value (thaw_value v))"

lemma dict_of_distinct: "distinct (map fst ps) \<Longrightarrow> dict_of ps = ps"
  unfolding dict_of_def using fold_update_fresh [of "[]" fst ps snd] by simp

lemma dict_of_ok: "dict_ok (dict_of ps)"
proof -
  have "dict_ok d \<Longrightarrow> dict_ok (fold (\<lambda>p. AList.update (fst p) (snd p)) ps d)" for d :: "('a, 'b) dict"
    by (induction ps arbitrary: d) auto
  then show ?thesis by (simp add: dict_of_def)
qed

lemma dict_of_subset: "set (dict_of ps) \<subseteq> set ps"
proof -
  have step: "set (AList.update k v d) \<subseteq> insert (k, v) (set d)" for k v and d :: "('a, 'b) dict"
    by (induction d) auto
  have "set (fold (\<lambda>p. AList.update (fst p) (snd p)) ps d) \<subseteq> set ps \<union> set d" for d :: "('a, 'b) dict"
  proof (induction ps arbitrary: d)
    case (Cons p ps)
    have "set (fold (\<lambda>p. AList.update (fst p) (snd p)) ps (AList.update (fst p) (snd p) d)) \<subseteq>
        set ps \<union> set (AList.update (fst p) (snd p) d)" by (rule Cons)
    also have "\<dots> \<subseteq> set ps \<union> insert p (set d)" using step [of "fst p" "snd p" d] by auto
    finally show ?case by auto
  qed simp
  from this [of "[]"] show ?thesis unfolding dict_of_def by simp
qed

lemma mapE_exists:
  assumes "\<And>x. x \<in> set xs \<Longrightarrow> \<exists>y. f x = Inr y \<and> P x y"
  shows "\<exists>ys. mapE f xs = Inr ys \<and> list_all2 P xs ys"
  using assms by (induction xs) (fastforce)+

lemma list_all2_Ball2: "list_all2 (\<lambda>x y. P y) xs ys \<Longrightarrow> list_all P ys"
  by (induction rule: list_all2_induct) auto

lemma freeze_thaw_exists: "\<exists>u. freeze_value (thaw_value v) = Inr u \<and> canonical_frozen u"
proof (induction v rule: thaw_value.induct)
  case (5 xs)
  then have "\<exists>ys. mapE (\<lambda>x. freeze_value (thaw_value x)) xs = Inr ys \<and> list_all2 (\<lambda>x y. canonical_frozen y) xs ys"
    by (intro mapE_exists) auto
  then obtain ys where ys: "mapE (\<lambda>x. freeze_value (thaw_value x)) xs = Inr ys" "list_all canonical_frozen ys"
    using list_all2_Ball2 by blast
  have "mapE freeze_value (map thaw_value xs) = mapE (\<lambda>x. freeze_value (thaw_value x)) xs"
    by (induction xs) auto
  then show ?case using ys by simp
next
  case (6 ps)
  let ?d = "sort_key fst (dict_of (map (\<lambda>p. (fst p, thaw_value (snd p))) ps))"
  let ?P = "\<lambda>x y. fst y = fst x \<and> canonical_frozen (snd y)"
  have "\<exists>y. bindE (freeze_value (snd x)) (\<lambda>v. Inr (fst x, v)) = Inr y \<and> ?P x y" if "x \<in> set ?d" for x
  proof -
    have "x \<in> set (map (\<lambda>p. (fst p, thaw_value (snd p))) ps)"
      using that dict_of_subset by fastforce
    then obtain p where p: "p \<in> set ps" "snd x = thaw_value (snd p)" by auto
    obtain u where "freeze_value (thaw_value (snd p)) = Inr u" "canonical_frozen u" using 6 [OF p(1)] by blast
    then show ?thesis using p(2) by simp
  qed
  then have "\<exists>ys. mapE (\<lambda>p. bindE (freeze_value (snd p)) (\<lambda>v. Inr (fst p, v))) ?d = Inr ys \<and> list_all2 ?P ?d ys"
    by (rule mapE_exists)
  then obtain ys where ys: "mapE (\<lambda>p. bindE (freeze_value (snd p)) (\<lambda>v. Inr (fst p, v))) ?d = Inr ys" "list_all2 ?P ?d ys"
    by blast
  have keys_eq: "map fst ys = map fst ?d"
    using ys(2) by (induction rule: list_all2_induct) auto
  have "list_all (\<lambda>p. canonical_frozen (snd p)) ys"
    using ys(2) by (induction rule: list_all2_induct) auto
  moreover have "sorted (map fst ys)" unfolding keys_eq by (rule sorted_sort_key)
  moreover have "distinct (map fst ys)"
    unfolding keys_eq using dict_of_ok [of "map (\<lambda>p. (fst p, thaw_value (snd p))) ps"]
    by (simp add: mset_eq_imp_distinct_iff [of "map fst ?d" "map fst (dict_of (map (\<lambda>p. (fst p, thaw_value (snd p))) ps))"])
  ultimately have "canonical_frozen (FObject ys)" by (simp only: canonical_frozen.simps)
  moreover have "freeze_value (thaw_value (FObject ps)) = Inr (FObject ys)"
    using ys(1) by (simp only: thaw_value.simps freeze_value.simps bindE_simps)
  ultimately show ?case by blast
qed auto

lemma freeze_thaw_norm: "freeze_value (thaw_value v) = Inr (norm_frozen v)"
  using freeze_thaw_exists [of v] by (auto simp: norm_frozen_def)

lemma canonical_norm [simp]: "canonical_frozen (norm_frozen v)"
  using freeze_thaw_exists [of v] by (auto simp: norm_frozen_def)

lemma mapE_identity: "(\<And>x. x \<in> set xs \<Longrightarrow> f x = Inr x) \<Longrightarrow> mapE f xs = Inr xs"
  by (induction xs) auto

lemma thaw_object:
  "distinct (map fst ps) \<Longrightarrow> thaw_value (FObject ps) = PDict (map (\<lambda>p. (fst p, thaw_value (snd p))) ps)"
  using dict_of_distinct [of "map (\<lambda>p. (fst p, thaw_value (snd p))) ps"] by (simp add: comp_def)

lemma freeze_thaw_canonical: "canonical_frozen v \<Longrightarrow> freeze_value (thaw_value v) = Inr v"
proof (induction v rule: thaw_value.induct)
  case (5 xs)
  have "mapE freeze_value (map thaw_value xs) = mapE (\<lambda>x. freeze_value (thaw_value x)) xs"
    by (induction xs) auto
  also have "\<dots> = Inr xs" using 5 by (intro mapE_identity) (auto simp: list_all_iff)
  finally show ?case by simp
next
  case (6 ps)
  let ?g = "\<lambda>p. (fst p, thaw_value (snd p))"
  let ?f = "\<lambda>p. bindE (freeze_value (snd p)) (\<lambda>v. Inr (fst p, v))"
  have distinct: "distinct (map fst ps)" and sorted: "sorted (map fst ps)" using 6(2) by auto
  have "sort_key fst (map ?g ps) = map ?g ps"
    using sorted by (intro sort_key_id_if_sorted) (simp add: comp_def)
  moreover have "mapE ?f (map ?g ps) = mapE (\<lambda>p. ?f (?g p)) ps"
    by (induction ps) auto
  moreover have "mapE (\<lambda>p. ?f (?g p)) ps = Inr ps"
    using 6 by (intro mapE_identity) (auto simp: list_all_iff)
  ultimately show ?case using thaw_object [OF distinct] by simp
qed auto

lemma norm_canonical: "canonical_frozen v \<Longrightarrow> norm_frozen v = v"
  using freeze_thaw_canonical freeze_thaw_norm by fastforce

section \<open>Reading and writing one place\<close>

text \<open>What a write does to a document whose place exists, without the copy.\<close>

fun put :: "frozen \<Rightarrow> json_path \<Rightarrow> frozen \<Rightarrow> frozen" where
  "put v [] x = x"
| "put (FObject ps) (Key k # cs) x =
     (case map_of ps k of None \<Rightarrow> FObject ps | Some v \<Rightarrow> FObject (AList.update k (put v cs x) ps))"
| "put (FArray xs) (Index i # cs) x =
     (case list_at xs i of None \<Rightarrow> FArray xs | Some v \<Rightarrow> FArray (list_put xs i (put v cs x)))"
| "put v (c # cs) x = v"

definition forward_path :: "json_path \<Rightarrow> bool" where
  "forward_path path = list_all (\<lambda>c. case c of Index i \<Rightarrow> 0 \<le> i | Key _ \<Rightarrow> True) path"

definition places_apart :: "json_path \<Rightarrow> json_path \<Rightarrow> bool" where
  "places_apart p q \<longleftrightarrow> forward_path p \<and> forward_path q \<and> \<not> meet p q"

lemma apart_sym: "places_apart p q \<Longrightarrow> places_apart q p"
  unfolding places_apart_def meet_def by (auto simp: min.commute Let_def)

lemma meet_Nil [simp]: "meet [] q" "meet p []"
  by (simp_all add: meet_def)

lemma meet_Cons [simp]: "meet (a # p) (b # q) \<longleftrightarrow> a = b \<and> meet p q"
  by (simp add: meet_def Let_def)

lemma forward_Cons: "forward_path (c # p) \<longleftrightarrow> (case c of Index i \<Rightarrow> 0 \<le> i | Key _ \<Rightarrow> True) \<and> forward_path p"
  by (simp add: forward_path_def)

lemma apart_Cons: "places_apart (a # p) (b # q) \<Longrightarrow> a \<noteq> b \<or> places_apart p q"
  by (auto simp: places_apart_def forward_Cons)

lemma list_at_put_same [simp]: "list_at xs i = Some y \<Longrightarrow> list_at (list_put xs i x) i = Some x"
  by (auto simp: list_at_def list_put_def split: if_splits)

lemma list_at_put_other: "0 \<le> i \<Longrightarrow> 0 \<le> j \<Longrightarrow> i \<noteq> j \<Longrightarrow> list_at (list_put xs i x) j = list_at xs j"
  by (auto simp: list_at_def list_put_def)

lemma list_put_same: "list_at xs i = Some x \<Longrightarrow> list_put xs i x = xs"
  by (auto simp: list_at_def list_put_def split: if_splits)

lemma list_put_put: "list_put (list_put xs i x) i y = list_put xs i y"
  by (simp add: list_put_def)

lemma list_put_swap: "0 \<le> i \<Longrightarrow> 0 \<le> j \<Longrightarrow> i \<noteq> j \<Longrightarrow> list_put (list_put xs i x) j y = list_put (list_put xs j y) i x"
  by (simp add: list_put_def list_update_swap)

lemma update_same: "map_of d k = Some v \<Longrightarrow> AList.update k v d = d"
  by (induction d) (auto split: if_splits)

lemma update_update: "AList.update k w (AList.update k v d) = AList.update k w d"
  by (induction d) auto

lemma update_swap_present:
  "k \<noteq> l \<Longrightarrow> k \<in> fst ` set d \<Longrightarrow> l \<in> fst ` set d \<Longrightarrow>
     AList.update k v (AList.update l w d) = AList.update l w (AList.update k v d)"
  by (induction d) auto

lemma map_of_key: "map_of d k = Some v \<Longrightarrow> k \<in> fst ` set d"
  by (metis domI dom_map_of_conv_image_fst)

lemma read_put: "read_from t root p = Inr y \<Longrightarrow> read_from t (put root p x) p = Inr x"
  by (induction t root p rule: read_from.induct) (auto split: option.splits)

lemma read_put_other: "places_apart p q \<Longrightarrow> read_from t (put root p x) q = read_from t root q"
proof (induction root p x arbitrary: q rule: put.induct)
  case (1 v x)
  then show ?case by (simp add: places_apart_def)
next
  case (2 ps k cs x)
  then obtain c q' where q: "q = c # q'" by (cases q) (auto simp: places_apart_def)
  show ?case
  proof (cases "c = Key k")
    case True
    then have "places_apart cs q'" using 2(2) q apart_Cons by blast
    then show ?thesis using 2(1) q True by (auto split: option.splits)
  next
    case False
    then show ?thesis using q by (cases c) (auto split: option.splits)
  qed
next
  case (3 xs i cs x)
  then obtain c q' where q: "q = c # q'" by (cases q) (auto simp: places_apart_def)
  show ?case
  proof (cases "c = Index i")
    case True
    then have "places_apart cs q'" using 3(2) q apart_Cons by blast
    then show ?thesis using 3(1) q True by (auto split: option.splits)
  next
    case False
    then show ?thesis using 3(2) q
      by (cases c) (auto simp: places_apart_def forward_Cons list_at_put_other split: option.splits)
  qed
qed auto

lemma put_same: "read_from t root p = Inr y \<Longrightarrow> put root p y = root"
  by (induction t root p rule: read_from.induct) (auto simp: update_same list_put_same split: option.splits)

lemma put_put: "put (put root p x) p y = put root p y"
  by (induction root p x rule: put.induct) (auto simp: update_update list_put_put split: option.splits)

lemma put_swap: "places_apart p q \<Longrightarrow> put (put root p x) q y = put (put root q y) p x"
proof (induction p arbitrary: root q)
  case Nil
  then show ?case by (simp add: places_apart_def)
next
  case (Cons c p)
  then obtain d q' where q: "q = d # q'" by (cases q) (auto simp: places_apart_def)
  show ?case
  proof (cases "c = d")
    case True
    then have "places_apart p q'" using Cons.prems q apart_Cons by blast
    then show ?thesis using Cons.IH q True
      by (cases root; cases d) (auto simp: update_update list_put_put split: option.splits)
  next
    case False
    moreover have "forward_path (c # p)" "forward_path (d # q')" using Cons.prems q by (auto simp: places_apart_def)
    ultimately show ?thesis using q
      by (cases root; cases c; cases d)
        (auto simp: forward_Cons update_swap_present map_of_key list_at_put_other list_put_swap split: option.splits)
  qed
qed

lemma canonical_read: "read_from t root p = Inr y \<Longrightarrow> canonical_frozen root \<Longrightarrow> canonical_frozen y"
proof (induction t root p rule: read_from.induct)
  case (2 t ps k cs)
  then show ?case by (fastforce simp: list_all_iff dest: map_of_SomeD split: option.splits)
next
  case (3 t xs i cs)
  then show ?case by (auto simp: list_all_iff list_at_def split: option.splits if_splits)
qed auto

lemma canonical_put: "canonical_frozen root \<Longrightarrow> canonical_frozen x \<Longrightarrow> canonical_frozen (put root p x)"
proof (induction root p x rule: put.induct)
  case (2 ps k cs x)
  show ?case
  proof (cases "map_of ps k")
    case None then show ?thesis using 2 by simp
  next
    case (Some v)
    then have v: "canonical_frozen v" using 2 by (auto simp: list_all_iff dest: map_of_SomeD)
    have "keys (AList.update k (put v cs x) ps) = keys ps"
      using Some by (intro keys_update_present) (rule map_of_key)
    moreover have "set (AList.update k (put v cs x) ps) \<subseteq> insert (k, put v cs x) (set ps)"
      using 2 by (subst set_dict_update) auto
    ultimately show ?thesis using 2 Some v by (auto simp: list_all_iff)
  qed
next
  case (3 xs i cs x)
  show ?case
  proof (cases "list_at xs i")
    case None then show ?thesis using 3 by simp
  next
    case (Some v)
    then have "canonical_frozen v" using 3 by (auto simp: list_all_iff list_at_def split: if_splits)
    then have "canonical_frozen (put v cs x)" using 3 Some by simp
    then show ?thesis using 3 Some
      by (auto simp: list_all_iff list_put_def dest: set_update_subset_insert [THEN subsetD])
  qed
qed auto

text \<open>The write of the code, on a document in order and a place that is there.\<close>

lemma mapE_map_identity: "(\<And>x. x \<in> set xs \<Longrightarrow> h (g x) = Inr x) \<Longrightarrow> mapE h (map g xs) = Inr xs"
  by (induction xs) auto

lemma mapE_update:
  assumes "\<And>p. p \<in> set ps \<Longrightarrow> h (g p) = Inr p" and "h (k, r) = Inr (k, f)" and "\<And>p. fst (g p) = fst p"
  shows "mapE h (AList.update k r (map g ps)) = Inr (AList.update k f ps)"
  using assms(1)
proof (induction ps)
  case Nil
  then show ?case using assms(2) by simp
next
  case (Cons p ps)
  obtain a b where p: "p = (a, b)" by fastforce
  have "fst (g p) = a" using assms(3) p by simp
  then obtain c where c: "g p = (a, c)" by (cases "g p") auto
  have "mapE h (map g ps) = Inr ps" using Cons.prems by (intro mapE_map_identity) simp
  moreover have "h (a, c) = Inr (a, b)" using Cons.prems [of p] p c by simp
  ultimately show ?case using Cons assms(2) p c by auto
qed

lemma mapE_list_put:
  assumes "\<And>x. x \<in> set xs \<Longrightarrow> h (g x) = Inr x" and "h r = Inr f"
  shows "mapE h (list_put (map g xs) i r) = Inr (list_put xs i f)"
proof -
  have "mapE h ((map g xs)[n := r]) = Inr (xs[n := f])" for n
    using assms(1)
  proof (induction xs arbitrary: n)
    case (Cons x xs)
    have "mapE h (map g xs) = Inr xs" using Cons.prems by (intro mapE_map_identity) simp
    then show ?case using Cons assms(2) by (cases n) auto
  qed simp
  then show ?thesis by (simp add: list_put_def)
qed

lemma list_at_map [simp]: "list_at (map g xs) i = map_option g (list_at xs i)"
  by (auto simp: list_at_def)

lemma map_of_thawed: "map_of (map (\<lambda>p. (fst p, thaw_value (snd p))) ps) k = map_option thaw_value (map_of ps k)"
  by (induction ps) auto

lemma write_at_put:
  assumes "canonical_frozen root" and "read_from t root p = Inr y" and "p \<noteq> []" and "freeze_value x = Inr f"
  shows "\<exists>raw. write_at t (thaw_value root) p x = Inr raw \<and> freeze_value raw = Inr (put root p f)"
  using assms
proof (induction t root p rule: read_from.induct)
  case (2 t ps k cs)
  from "2.prems"(2) obtain v where v: "map_of ps k = Some v" "read_from t v cs = Inr y"
    by (auto split: option.splits)
  have order: "sorted (map fst ps)" "distinct (map fst ps)" and all: "\<forall>p \<in> set ps. canonical_frozen (snd p)"
    using "2.prems"(1) by (auto simp: list_all_iff)
  have "canonical_frozen v" using bspec [OF all map_of_SomeD [OF v(1)]] by simp
  let ?g = "\<lambda>p. (fst p, thaw_value (snd p))"
  have "\<exists>raw. (if cs = [] then raw = x else write_at t (thaw_value v) cs x = Inr raw) \<and> freeze_value raw = Inr (put v cs f)"
    using "2.IH" [OF v(1) \<open>canonical_frozen v\<close> v(2)] "2.prems"(4) by (cases "cs = []") auto
  then obtain raw where raw: "if cs = [] then raw = x else write_at t (thaw_value v) cs x = Inr raw"
    "freeze_value raw = Inr (put v cs f)" by blast
  have thawed: "thaw_value (FObject ps) = PDict (map ?g ps)" by (rule thaw_object [OF order(2)])
  have written: "write_at t (thaw_value (FObject ps)) (Key k # cs) x = Inr (PDict (AList.update k raw (map ?g ps)))"
    unfolding thawed using raw(1) v(1) by (cases cs) (simp_all add: map_of_thawed)
  have "keys (AList.update k raw (map ?g ps)) = keys (map ?g ps)"
    using map_of_key [OF v(1)] by (intro keys_update_present) (simp add: image_image)
  then have "sorted (map fst (AList.update k raw (map ?g ps)))" using order(1) by (simp add: comp_def)
  then have sorted: "sort_key fst (AList.update k raw (map ?g ps)) = AList.update k raw (map ?g ps)"
    by (rule sort_key_id_if_sorted)
  have "mapE (\<lambda>p. bindE (freeze_value (snd p)) (\<lambda>v. Inr (fst p, v))) (AList.update k raw (map ?g ps)) =
      Inr (AList.update k (put v cs f) ps)"
    using all raw(2) by (intro mapE_update) (auto simp: freeze_thaw_canonical)
  then have "freeze_value (PDict (AList.update k raw (map ?g ps))) = Inr (put (FObject ps) (Key k # cs) f)"
    using sorted v(1) by simp
  then show ?case using written by blast
next
  case (3 t xs i cs)
  from "3.prems"(2) obtain v where v: "list_at xs i = Some v" "read_from t v cs = Inr y"
    by (auto split: option.splits)
  have all: "\<forall>x \<in> set xs. canonical_frozen x" using "3.prems"(1) by (auto simp: list_all_iff)
  then have "canonical_frozen v" using v(1) by (auto simp: list_at_def split: if_splits)
  have "\<exists>raw. (if cs = [] then raw = x else write_at t (thaw_value v) cs x = Inr raw) \<and> freeze_value raw = Inr (put v cs f)"
    using "3.IH" [OF v(1) \<open>canonical_frozen v\<close> v(2)] "3.prems"(4) by (cases "cs = []") auto
  then obtain raw where raw: "if cs = [] then raw = x else write_at t (thaw_value v) cs x = Inr raw"
    "freeze_value raw = Inr (put v cs f)" by blast
  have written: "write_at t (thaw_value (FArray xs)) (Index i # cs) x = Inr (PList (list_put (map thaw_value xs) i raw))"
    using raw(1) v(1) by (cases cs) simp_all
  have "mapE freeze_value (list_put (map thaw_value xs) i raw) = Inr (list_put xs i (put v cs f))"
    using all raw(2) by (intro mapE_list_put) (auto simp: freeze_thaw_canonical)
  then have "freeze_value (PList (list_put (map thaw_value xs) i raw)) = Inr (put (FArray xs) (Index i # cs) f)"
    using v(1) by simp
  then show ?case using written by blast
qed auto

lemma set_path_put:
  assumes "canonical_frozen root" and "read_path root p = Inr y" and "p \<noteq> []"
  shows "set_path root p v = Inr (put root p (norm_frozen v))"
proof -
  obtain raw where "write_at p (thaw_value root) p (thaw_value v) = Inr raw" "freeze_value raw = Inr (put root p (norm_frozen v))"
    using write_at_put [OF assms(1) assms(2) [unfolded read_path_def] assms(3) freeze_thaw_norm] by blast
  then show ?thesis by (simp add: set_path_def)
qed

section \<open>Documents as a store of places\<close>

text \<open>
  What a document promises about places that stand apart: a write is seen at its place and nowhere else,
  the last write wins, writing what is there changes nothing, and writes apart commute.
\<close>

locale place_store =
  fixes look :: "'d \<Rightarrow> 'p \<Rightarrow> 'e + 'v" and store :: "'d \<Rightarrow> 'p \<Rightarrow> 'v \<Rightarrow> 'd" and separate :: "'p \<Rightarrow> 'p \<Rightarrow> bool"
  assumes separate_sym: "separate p q \<Longrightarrow> separate q p"
    and look_stored: "look d p = Inr y \<Longrightarrow> look (store d p x) p = Inr x"
    and look_separate: "separate p q \<Longrightarrow> look (store d p x) q = look d q"
    and store_same: "look d p = Inr y \<Longrightarrow> store d p y = d"
    and store_twice: "store (store d p x) p y = store d p y"
    and store_swap: "separate p q \<Longrightarrow> store (store d p x) q y = store (store d q y) p x"
begin

text \<open>Writes apart from a place leave it as it was, and a write there can be moved past them.\<close>

lemma look_after:
  "list_all (\<lambda>w. separate (fst w) q) ws \<Longrightarrow> look (foldl (\<lambda>d w. store d (fst w) (snd w)) d ws) q = look d q"
  by (induction ws arbitrary: d) (auto simp: look_separate)

lemma store_after:
  "list_all (\<lambda>w. separate (fst w) q) ws \<Longrightarrow>
     foldl (\<lambda>d w. store d (fst w) (snd w)) (store d q y) ws = store (foldl (\<lambda>d w. store d (fst w) (snd w)) d ws) q y"
  by (induction ws arbitrary: d) (auto simp: store_swap [symmetric])

text \<open>A place that was written once holds what was written.\<close>

lemma look_all:
  assumes "sorted_wrt separate (map fst ws)" and "list_all (\<lambda>w. \<exists>y. look d (fst w) = Inr y) ws" and "w \<in> set ws"
  shows "look (foldl (\<lambda>d w. store d (fst w) (snd w)) d ws) (fst w) = Inr (snd w)"
  using assms
proof (induction ws arbitrary: d)
  case (Cons v ws)
  let ?d = "store d (fst v) (snd v)"
  have sep: "\<forall>u \<in> set ws. separate (fst v) (fst u)" using Cons.prems(1) by simp
  have rest: "list_all (\<lambda>w. \<exists>y. look ?d (fst w) = Inr y) ws"
    using Cons.prems(2) sep by (auto simp: list_all_iff look_separate)
  show ?case
  proof (cases "w \<in> set ws")
    case True
    then show ?thesis using Cons.IH [OF _ rest] Cons.prems(1) by simp
  next
    case False
    then have "w = v" using Cons.prems(3) by simp
    moreover have "look ?d (fst v) = Inr (snd v)" using Cons.prems(2) by (auto intro: look_stored)
    ultimately show ?thesis
      using look_after [of "fst v" ws ?d] sep by (auto simp: list_all_iff intro: separate_sym)
  qed
qed simp

text \<open>Writing the old contents back, place by place, restores the document.\<close>

lemma restored:
  assumes "sorted_wrt separate (map fst ws)" and "list_all2 (\<lambda>w y. look d (fst w) = Inr y) ws ys"
  shows "foldl (\<lambda>d w. store d (fst w) (snd w)) (foldl (\<lambda>d w. store d (fst w) (snd w)) d ws) (zip (map fst ws) ys) = d"
  using assms
proof (induction ws arbitrary: d ys)
  case Nil
  then show ?case by simp
next
  case (Cons w ws)
  from Cons.prems(2) obtain y zs where ys: "ys = y # zs" "look d (fst w) = Inr y"
      and rest: "list_all2 (\<lambda>w y. look d (fst w) = Inr y) ws zs"
    by (auto simp: list_all2_Cons1)
  have places_apart: "separate (fst v) (fst w)" if "v \<in> set ws" for v
    using Cons.prems(1) that by (auto intro: separate_sym)
  have pw: "sorted_wrt separate (map fst ws)" using Cons.prems(1) by simp
  let ?run = "foldl (\<lambda>d w. store d (fst w) (snd w))"
  have "?run (store d (fst w) (snd w)) ws = store (?run d ws) (fst w) (snd w)"
    by (rule store_after) (auto simp: list_all_iff places_apart)
  then have "store (?run (store d (fst w) (snd w)) ws) (fst w) y = store (?run d ws) (fst w) y"
    by (simp add: store_twice)
  also have "\<dots> = ?run d ws"
    using look_after [of "fst w" ws d] ys(2) by (intro store_same [of _ _ y]) (simp add: list_all_iff places_apart)
  finally have "?run (?run d (w # ws)) (zip (map fst (w # ws)) ys) = ?run (?run d ws) (zip (map fst ws) zs)"
    using ys(1) by simp
  also have "\<dots> = d" by (rule Cons.IH [OF pw rest])
  finally show ?case .
qed

end

interpretation doc: place_store read_path put places_apart
  by unfold_locales (auto simp: read_path_def intro: apart_sym read_put read_put_other put_same put_put put_swap)

section \<open>What the compiler keeps\<close>

lemma find_None_all: "find P xs = None \<longleftrightarrow> (\<forall>x \<in> set xs. \<not> P x)"
  by (auto simp: find_None_iff)

lemma first_meeting_None: "first_meeting ps = None \<longleftrightarrow> sorted_wrt (\<lambda>p q. \<not> meet p q) ps"
proof (induction ps)
  case (Cons p ps)
  then show ?case using find_None_all [of "meet p" ps] by (cases "find (meet p) ps") auto
qed simp

lemma wire_step_forward:
  assumes "wire_step fields_of (t, output, tr) c = Inr (t', output', tr')" and "forward_path output"
  shows "forward_path output'"
proof -
  obtain u where "unambiguous_type t tr = Inr u" using assms(1) by (auto simp: wire_step_def bindE_Inr_iff)
  then show ?thesis using assms
    by (cases c; cases u) (auto simp: wire_step_def forward_path_def split: if_splits option.splits)
qed

lemma resolved_forward:
  assumes "resolve_wire_path fields_of model path = Inr wire"
  shows "forward_path wire"
proof -
  obtain s where s: "foldE (wire_step fields_of) (model, [], []) path = Inr s" "wire = fst (snd s)"
    using assms by (cases "foldE (wire_step fields_of) (model, [], []) path") (auto simp: resolve_wire_path_def)
  have "forward_path (fst (snd s))"
  proof (rule foldE_invariant [OF s(1)])
    show "forward_path (fst (snd (model, [] :: json_path, [] :: string list)))" by (simp add: forward_path_def)
  next
    fix s c s' assume "forward_path (fst (snd s))" "wire_step fields_of s c = Inr s'"
    then show "forward_path (fst (snd s'))"
      by (cases s; cases s') (auto intro: wire_step_forward)
  qed
  then show ?thesis using s(2) by simp
qed

lemma compiled_parts:
  assumes "compile_payload_crypto fields_of p om ims = Inr k"
  shows "kc_profile k = p" and "compile_outbound fields_of om (pf_outbound p) = Inr (kc_outbound k)"
    and "compile_inbound fields_of ims (pf_inbound p) = Inr (kc_inbound k)"
    and "sorted_wrt (\<lambda>p q. \<not> meet p q) (map ef_wire (kc_outbound k))"
    and "sorted_wrt (\<lambda>p q. \<not> meet p q) (map df_wire (kc_inbound k))"
    and "validate_declared_outputs p = Inr ()"
proof -
  from assms obtain outs ins where parts: "k = \<lparr>kc_profile = p, kc_outbound = outs, kc_inbound = ins\<rparr>"
    "compile_outbound fields_of om (pf_outbound p) = Inr outs" "compile_inbound fields_of ims (pf_inbound p) = Inr ins"
    "validate_resolved_paths (map ef_wire outs) ''outbound'' = Inr ()"
    "validate_resolved_paths (map df_wire ins) ''inbound'' = Inr ()" "validate_declared_outputs p = Inr ()"
    by (auto simp: compile_payload_crypto_def bindE_Inr_iff)
  then have "first_meeting (map ef_wire outs) = None" "first_meeting (map df_wire ins) = None"
    by (simp_all add: validate_resolved_paths_def split: option.splits)
  then show "kc_profile k = p" "compile_outbound fields_of om (pf_outbound p) = Inr (kc_outbound k)"
    "compile_inbound fields_of ims (pf_inbound p) = Inr (kc_inbound k)"
    "sorted_wrt (\<lambda>p q. \<not> meet p q) (map ef_wire (kc_outbound k))"
    "sorted_wrt (\<lambda>p q. \<not> meet p q) (map df_wire (kc_inbound k))"
    "validate_declared_outputs p = Inr ()"
    using parts by (simp_all add: first_meeting_None)
qed

lemma compiled_outbound:
  assumes "compile_outbound fields_of om out = Inr fs"
  shows "case out of None \<Rightarrow> fs = []
    | Some b \<Rightarrow> list_all2 (\<lambda>d f. ef_decl f = d \<and> resolve_wire_path fields_of (ef_model d) (ef_path d) = Inr (ef_wire f))
                  (ob_fields b) fs"
proof (cases out)
  case None
  then show ?thesis using assms by (simp add: compile_outbound_def)
next
  case (Some b)
  then have "mapE (compile_encrypt_field fields_of om) (ob_fields b) = Inr fs"
    using assms by (auto simp: compile_outbound_def bindE_Inr_iff split: option.splits)
  then have "list_all2 (\<lambda>d f. compile_encrypt_field fields_of om d = Inr f) (ob_fields b) fs"
    by (simp add: mapE_Inr_iff)
  then have "list_all2 (\<lambda>d f. ef_decl f = d \<and> resolve_wire_path fields_of (ef_model d) (ef_path d) = Inr (ef_wire f))
      (ob_fields b) fs"
    by (rule list_all2_mono) (auto simp: compile_encrypt_field_def bindE_Inr_iff)
  then show ?thesis using Some by simp
qed

lemma compiled_apart:
  assumes "compile_payload_crypto fields_of p om ims = Inr k"
  shows "sorted_wrt places_apart (map ef_wire (kc_outbound k))"
proof -
  have "forward_path (ef_wire f)" if "f \<in> set (kc_outbound k)" for f
    using compiled_outbound [OF compiled_parts(2) [OF assms]] that
    by (cases "pf_outbound p") (auto simp: list_all2_conv_all_nth in_set_conv_nth intro: resolved_forward)
  then show ?thesis
    using compiled_parts(4) [OF assms] by (auto simp: places_apart_def sorted_wrt_map elim!: sorted_wrt_mono_rel [rotated])
qed

section \<open>The document stages\<close>

lemma document_step_Inr:
  assumes "document_step failure ctx a m wanted path current st = (Inr e, st')"
  obtains x name c where "read_path current path = Inr x" "algorithm_name a = Inr name"
    "call_algorithm m (at_path ctx name (Some path)) (FrozenV x) wanted st = (Inr (FrozenV c), st')"
    "set_path current path c = Inr e" "path \<noteq> []"
proof -
  from assms obtain x name c s where *: "read_path current path = Inr x" "algorithm_name a = Inr name"
    "frozen_result failure name (call_algorithm m (at_path ctx name (Some path)) (FrozenV x) wanted st) = (Inr c, s)"
    "set_path current path c = Inr e" "st' = s"
    by (auto simp: document_step_def liftS_def bindS_Inr_iff)
  from *(3) have "call_algorithm m (at_path ctx name (Some path)) (FrozenV x) wanted st = (Inr (FrozenV c), st')"
    using *(5) by (auto simp: frozen_result_def split: prod.splits sum.splits alg_value.splits)
  moreover have "path \<noteq> []" using *(4) by (auto simp: set_path_def)
  ultimately show ?thesis using that * by blast
qed

text \<open>What one field became: the algorithm was called on what stood there, and its answer is written.\<close>

definition encrypted_as ::
  "http_crypto_context \<Rightarrow> frozen \<Rightarrow> 'w compiled_encrypt_field \<Rightarrow> json_path \<times> frozen \<Rightarrow> bool" where
  "encrypted_as ctx d f w \<longleftrightarrow> fst w = ef_wire f \<and>
     (\<exists>x name c st st'. read_path d (ef_wire f) = Inr x \<and> algorithm_name (ef_using (ef_decl f)) = Inr name \<and>
        call_algorithm (al_encrypt (ef_using (ef_decl f))) (at_path ctx name (Some (ef_wire f))) (FrozenV x)
          (ef_outputs (ef_decl f)) st = (Inr (FrozenV c), st') \<and> snd w = norm_frozen c)"

abbreviation write_all :: "frozen \<Rightarrow> (json_path \<times> frozen) list \<Rightarrow> frozen" where
  "write_all d ws \<equiv> foldl (\<lambda>d w. put d (fst w) (snd w)) d ws"

lemma encrypt_writes:
  assumes "encrypt_document ctx d fs st = (Inr e, st')" and "canonical_frozen d" and "sorted_wrt places_apart (map ef_wire fs)"
  shows "\<exists>ws. e = write_all d ws \<and> list_all2 (encrypted_as ctx d) fs ws \<and> list_all (\<lambda>w. fst w \<noteq> [] \<and> canonical_frozen (snd w)) ws"
  using assms
proof (induction fs arbitrary: d st)
  case Nil
  then show ?case by (intro exI [of _ "[]"]) simp
next
  case (Cons f fs)
  let ?a = "ef_using (ef_decl f)"
  from Cons.prems(1) obtain d1 st1 where
    step: "document_step (encryption_failed ''document'') ctx ?a (al_encrypt ?a) (ef_outputs (ef_decl f)) (ef_wire f) d st = (Inr d1, st1)"
    and rest: "encrypt_document ctx d1 fs st1 = (Inr e, st')"
    by (auto simp: Let_def bindS_Inr_iff)
  from step obtain x name c where *: "read_path d (ef_wire f) = Inr x" "algorithm_name ?a = Inr name"
    "call_algorithm (al_encrypt ?a) (at_path ctx name (Some (ef_wire f))) (FrozenV x) (ef_outputs (ef_decl f)) st = (Inr (FrozenV c), st1)"
    "set_path d (ef_wire f) c = Inr d1" "ef_wire f \<noteq> []"
    by (rule document_step_Inr)
  have d1: "d1 = put d (ef_wire f) (norm_frozen c)"
    using set_path_put [OF Cons.prems(2) *(1,5), of c] *(4) by simp
  then have "canonical_frozen d1" using Cons.prems(2) by (simp add: canonical_put)
  moreover have "sorted_wrt places_apart (map ef_wire fs)" using Cons.prems(3) by simp
  ultimately obtain ws where ws: "e = write_all d1 ws" "list_all2 (encrypted_as ctx d1) fs ws"
      "list_all (\<lambda>w. fst w \<noteq> [] \<and> canonical_frozen (snd w)) ws"
    using Cons.IH [OF rest] by blast
  have "list_all2 (encrypted_as ctx d) fs ws"
    using ws(2)
  proof (rule list.rel_mono_strong)
    fix g w assume "g \<in> set fs" and as1: "encrypted_as ctx d1 g w"
    have "places_apart (ef_wire f) (ef_wire g)" using Cons.prems(3) \<open>g \<in> set fs\<close> by simp
    then have "read_path d1 (ef_wire g) = read_path d (ef_wire g)" unfolding d1 by (rule doc.look_separate)
    then show "encrypted_as ctx d g w" using as1 by (simp add: encrypted_as_def)
  qed
  moreover have "encrypted_as ctx d f (ef_wire f, norm_frozen c)"
    unfolding encrypted_as_def fst_conv snd_conv using *(1-3) by blast
  ultimately show ?case
    using ws *(5) d1 by (intro exI [of _ "(ef_wire f, norm_frozen c) # ws"]) simp
qed

text \<open>
  What the application promises of a pair of fields: they stand at one place, and decryption, in whatever state,
  gives back what was encrypted from the form the document keeps it in.
\<close>

definition decrypts_to :: "http_crypto_context \<Rightarrow> 'w compiled_decrypt_field \<Rightarrow> frozen \<Rightarrow> frozen \<Rightarrow> bool" where
  "decrypts_to ctx g v x \<longleftrightarrow>
     (\<exists>n. algorithm_name (df_using (df_decl g)) = Inr n \<and>
        (\<forall>u. \<exists>y u'. norm_frozen y = x \<and>
           call_algorithm (al_decrypt (df_using (df_decl g))) (at_path ctx n (Some (df_wire g))) (FrozenV v) [] u =
             (Inr (FrozenV y), u')))"

definition inverse_fields ::
  "http_crypto_context \<Rightarrow> http_crypto_context \<Rightarrow> 'w compiled_encrypt_field \<Rightarrow> 'w compiled_decrypt_field \<Rightarrow> bool" where
  "inverse_fields c1 c2 f g \<longleftrightarrow> ef_wire f = df_wire g \<and>
     (\<forall>name x st c st'. canonical_frozen x \<longrightarrow>
        call_algorithm (al_encrypt (ef_using (ef_decl f))) (at_path c1 name (Some (ef_wire f))) (FrozenV x)
          (ef_outputs (ef_decl f)) st = (Inr (FrozenV c), st') \<longrightarrow>
        decrypts_to c2 g (norm_frozen c) x)"

lemma decrypt_writes:
  assumes "list_all2 (\<lambda>g w. df_wire g = fst w \<and> fst w \<noteq> [] \<and> (\<exists>v. read_path e (fst w) = Inr v \<and> decrypts_to ctx g v (snd w))) gs ws"
    and "canonical_frozen e" and "sorted_wrt places_apart (map fst ws)" and "list_all (\<lambda>w. canonical_frozen (snd w)) ws"
  shows "\<exists>u'. decrypt_document ctx e gs u = (Inr (write_all e ws), u')"
  using assms
proof (induction gs arbitrary: e ws u)
  case Nil
  then show ?case by simp
next
  case (Cons g gs)
  let ?a = "df_using (df_decl g)"
  from Cons.prems(1) obtain w ws' v where ws: "ws = w # ws'" and w: "df_wire g = fst w" "fst w \<noteq> []"
    "read_path e (fst w) = Inr v" "decrypts_to ctx g v (snd w)"
    unfolding list_all2_Cons1 by blast
  from w(4) obtain n y u1 where g: "algorithm_name ?a = Inr n" "norm_frozen y = snd w"
    "call_algorithm (al_decrypt ?a) (at_path ctx n (Some (df_wire g))) (FrozenV v) [] u = (Inr (FrozenV y), u1)"
    unfolding decrypts_to_def by blast
  have set: "set_path e (fst w) y = Inr (put e (fst w) (snd w))"
    using set_path_put [OF Cons.prems(2) w(3,2), of y] g(2) by simp
  have step: "document_step (decryption_failed ''document'') ctx ?a (al_decrypt ?a) [] (df_wire g) e u =
      (Inr (put e (fst w) (snd w)), u1)"
    using g w set by (simp add: document_step_def liftS_def frozen_result_def)
  have places_apart: "places_apart (fst w) (fst v)" if "v \<in> set ws'" for v using Cons.prems(3) ws that by auto
  have "list_all2 (\<lambda>g w. df_wire g = fst w \<and> fst w \<noteq> [] \<and> (\<exists>v. read_path e (fst w) = Inr v \<and> decrypts_to ctx g v (snd w))) gs ws'"
    using Cons.prems(1) ws by simp
  then have rest: "list_all2 (\<lambda>g' w'. df_wire g' = fst w' \<and> fst w' \<noteq> [] \<and>
       (\<exists>v. read_path (put e (fst w) (snd w)) (fst w') = Inr v \<and> decrypts_to ctx g' v (snd w'))) gs ws'"
    by (rule list.rel_mono_strong) (simp add: doc.look_separate [OF places_apart])
  have "canonical_frozen (put e (fst w) (snd w))" using Cons.prems(2,4) ws by (simp add: canonical_put)
  moreover have "sorted_wrt places_apart (map fst ws')" "list_all (\<lambda>w. canonical_frozen (snd w)) ws'" using Cons.prems(3,4) ws by simp_all
  ultimately obtain u' where "decrypt_document ctx (put e (fst w) (snd w)) gs u1 = (Inr (write_all (put e (fst w) (snd w)) ws'), u')"
    using Cons.IH [OF rest] by blast
  then show ?case using step ws by (simp add: Let_def)
qed

section \<open>Round trip\<close>

lemma list_all2_meet: "list_all2 P xs ys \<Longrightarrow> list_all2 Q xs zs \<Longrightarrow> list_all2 (\<lambda>z y. \<exists>x. Q x z \<and> P x y) zs ys"
proof (induction arbitrary: zs rule: list_all2_induct)
  case (Cons x xs y ys)
  then obtain z zs' where "zs = z # zs'" "Q x z" "list_all2 Q xs zs'" by (auto simp: list_all2_Cons1)
  then show ?case using Cons by auto
qed simp

lemma writes_reversed:
  assumes "list_all2 (encrypted_as c1 d) fs ws" and "list_all2 (inverse_fields c1 c2) fs gs"
    and "sorted_wrt places_apart (map ef_wire fs)" and "canonical_frozen d"
    and "list_all (\<lambda>w. fst w \<noteq> [] \<and> canonical_frozen (snd w)) ws"
  shows "\<exists>u'. decrypt_document c2 (write_all d ws) gs u = (Inr d, u')"
proof -
  let ?e = "write_all d ws"
  have fst_ws: "map fst ws = map ef_wire fs"
    using assms(1) by (induction rule: list_all2_induct) (auto simp: encrypted_as_def)
  have "\<forall>w \<in> set ws. \<exists>y. read_path d (fst w) = Inr y"
    using assms(1) by (induction rule: list_all2_induct) (auto simp: encrypted_as_def)
  then obtain y where readable: "\<And>w. w \<in> set ws \<Longrightarrow> read_path d (fst w) = Inr (y w)" by metis
  let ?old = "map (\<lambda>w. (fst w, y w)) ws"
  have sorted: "sorted_wrt places_apart (map fst ws)" using assms(3) fst_ws by simp
  have at_e: "read_path ?e (fst w) = Inr (snd w)" if "w \<in> set ws" for w
    using that by (intro doc.look_all [OF sorted]) (auto simp: list_all_iff readable)
  have canonical_frozen: "canonical_frozen (y w)" if "w \<in> set ws" for w
    using readable [OF that, unfolded read_path_def] assms(4) by (rule canonical_read)
  have "list_all2 (\<lambda>g w. \<exists>f. inverse_fields c1 c2 f g \<and> encrypted_as c1 d f w) gs ws"
    by (rule list_all2_meet [OF assms(1,2)])
  then have "list_all2 (\<lambda>g w. df_wire g = fst w \<and> fst w \<noteq> [] \<and>
      (\<exists>v. read_path ?e (fst w) = Inr v \<and> decrypts_to c2 g v (y w))) gs ws"
  proof (rule list.rel_mono_strong)
    fix g w assume "w \<in> set ws" "\<exists>f. inverse_fields c1 c2 f g \<and> encrypted_as c1 d f w"
    then obtain f where f: "inverse_fields c1 c2 f g" "encrypted_as c1 d f w" by blast
    from f(2) obtain x name c st st' where *: "fst w = ef_wire f" "read_path d (ef_wire f) = Inr x" "snd w = norm_frozen c"
      "call_algorithm (al_encrypt (ef_using (ef_decl f))) (at_path c1 name (Some (ef_wire f))) (FrozenV x)
         (ef_outputs (ef_decl f)) st = (Inr (FrozenV c), st')"
      unfolding encrypted_as_def by blast
    have "y w = x" using * readable [OF \<open>w \<in> set ws\<close>] by simp
    then have "canonical_frozen x" using canonical_frozen [OF \<open>w \<in> set ws\<close>] by simp
    then have "decrypts_to c2 g (norm_frozen c) x" using f(1) *(4) unfolding inverse_fields_def by blast
    then have "decrypts_to c2 g (snd w) (y w)" using \<open>y w = x\<close> *(3) by simp
    moreover have "df_wire g = fst w" using f(1) * by (simp add: inverse_fields_def)
    ultimately show "df_wire g = fst w \<and> fst w \<noteq> [] \<and>
        (\<exists>v. read_path ?e (fst w) = Inr v \<and> decrypts_to c2 g v (y w))"
      using at_e \<open>w \<in> set ws\<close> assms(5) by (auto simp: list_all_iff)
  qed
  then have "list_all2 (\<lambda>g w. df_wire g = fst w \<and> fst w \<noteq> [] \<and>
      (\<exists>v. read_path ?e (fst w) = Inr v \<and> decrypts_to c2 g v (snd w))) gs ?old"
    by (simp add: list_all2_conv_all_nth)
  moreover have "canonical_frozen ?e"
    using assms(4,5) by (induction ws arbitrary: d) (auto simp: canonical_put)
  moreover have "sorted_wrt places_apart (map fst ?old)" using sorted by (simp add: comp_def)
  moreover have "list_all (\<lambda>w. canonical_frozen (snd w)) ?old" using canonical_frozen by (simp add: list_all_iff)
  ultimately obtain u' where "decrypt_document c2 ?e gs u = (Inr (write_all ?e ?old), u')"
    using decrypt_writes by blast
  moreover have "write_all ?e (zip (map fst ws) (map y ws)) = d"
    by (intro doc.restored [OF sorted]) (simp add: list_all2_conv_all_nth readable)
  moreover have "zip (map fst ws) (map y ws) = ?old" by (simp add: zip_map_map zip_same_conv_map comp_def)
  ultimately show ?thesis by simp
qed

text \<open>
  C33. Field crypto loses nothing. When a compiled profile declares decryptors that undo its encryptors, place by
  place, decrypting the encrypted document gives back the document, whatever the state of the algorithms is by then.
\<close>

theorem document_roundtrip:
  assumes "compile_payload_crypto fields_of p om ims = Inr k"
    and "list_all2 (inverse_fields c1 c2) (kc_outbound k) (kc_inbound k)"
    and "canonical_frozen d"
    and "encrypt_document c1 d (kc_outbound k) st = (Inr e, st')"
  shows "\<exists>u'. decrypt_document c2 e (kc_inbound k) u = (Inr d, u')"
proof -
  obtain ws where "e = write_all d ws" "list_all2 (encrypted_as c1 d) (kc_outbound k) ws"
      "list_all (\<lambda>w. fst w \<noteq> [] \<and> canonical_frozen (snd w)) ws"
    using encrypt_writes [OF assms(4,3) compiled_apart [OF assms(1)]] by blast
  then show ?thesis using writes_reversed [OF _ assms(2) compiled_apart [OF assms(1)] assms(3)] by blast
qed

text \<open>A place that no field of the profile covers reads the same after the document was encrypted.\<close>

theorem encryption_keeps_the_rest:
  assumes "compile_payload_crypto fields_of p om ims = Inr k" and "canonical_frozen d"
    and "encrypt_document ctx d (kc_outbound k) st = (Inr e, st')"
    and "list_all (\<lambda>f. places_apart (ef_wire f) q) (kc_outbound k)"
  shows "read_path e q = read_path d q"
proof -
  obtain ws where ws: "e = write_all d ws" "list_all2 (encrypted_as ctx d) (kc_outbound k) ws"
    using encrypt_writes [OF assms(3,2) compiled_apart [OF assms(1)]] by blast
  have "list_all (\<lambda>w. places_apart (fst w) q) ws"
    using ws(2) assms(4) by (induction rule: list_all2_induct) (auto simp: encrypted_as_def)
  then show ?thesis unfolding ws(1) by (rule doc.look_after)
qed

section \<open>Metadata outputs\<close>

lemma check_output_loop:
  assumes "foldE (check_alg_output wanted) ids outs = Inr ids'" and "distinct ids" and "set ids \<subseteq> set (map ou_id wanted)"
  shows "ids' = rev (output_ids outs) @ ids \<and> distinct ids' \<and> set ids' \<subseteq> set (map ou_id wanted)"
  using assms
proof (induction outs arbitrary: ids)
  case Nil
  then show ?case by (simp add: output_ids_def)
next
  case (Cons x outs)
  from Cons.prems(1) obtain ids1 where "check_alg_output wanted ids x = Inr ids1"
      and rest: "foldE (check_alg_output wanted) ids1 outs = Inr ids'"
    by (auto simp: bindE_Inr_iff)
  then obtain out where out: "find (\<lambda>out. ou_id out = ou_id (ov_output x)) wanted = Some out"
      and ids1: "ids1 = ou_id (ov_output x) # ids" "ou_id (ov_output x) \<notin> set ids"
    by (auto simp: check_alg_output_def bindE_Inr_iff split: option.splits if_splits)
  have "out \<in> set wanted" "ou_id out = ou_id (ov_output x)" using out by (auto simp: find_Some_iff)
  then have "ou_id (ov_output x) \<in> set (map ou_id wanted)" by (metis image_eqI list.set_map)
  then have "distinct ids1" "set ids1 \<subseteq> set (map ou_id wanted)" using ids1 Cons.prems(2,3) by auto
  then have "ids' = rev (output_ids outs) @ ids1 \<and> distinct ids' \<and> set ids' \<subseteq> set (map ou_id wanted)"
    by (rule Cons.IH [OF rest])
  moreover have "rev (output_ids outs) @ ids1 = rev (output_ids (x # outs)) @ ids"
    using ids1 by (simp add: output_ids_def)
  ultimately show ?case by metis
qed

lemma distinct_sets_mset: "distinct xs \<Longrightarrow> distinct ys \<Longrightarrow> set xs = set ys \<Longrightarrow> mset xs = mset ys"
  by (simp add: set_eq_iff_mset_eq_distinct)

lemma collected_once:
  assumes "collect_result r wanted collector = Inr (v, collector')" and "distinct (map ou_id wanted)"
  shows "mset (output_ids (result_outputs r)) = mset (map ou_id wanted)"
    and "collector' = map_option (\<lambda>items. items @ result_outputs r) collector"
proof -
  from assms(1) obtain ids where ids: "foldE (check_alg_output wanted) [] (result_outputs r) = Inr ids"
    by (auto simp: collect_result_def bindE_Inr_iff)
  then have loop: "ids = rev (output_ids (result_outputs r))" "distinct ids" "set ids \<subseteq> set (map ou_id wanted)"
    using check_output_loop [OF ids] by auto
  have none_missing: "filter (\<lambda>out. ou_id out \<notin> set ids) wanted = []"
    using assms(1) ids by (auto simp: collect_result_def Let_def split: if_splits)
  then have "set (map ou_id wanted) \<subseteq> set ids" by (auto simp: filter_empty_conv)
  then have "set ids = set (map ou_id wanted)" using loop(3) by blast
  then have "mset ids = mset (map ou_id wanted)" using loop(2) assms(2) by (intro distinct_sets_mset) auto
  then show "mset (output_ids (result_outputs r)) = mset (map ou_id wanted)" using loop(1) by simp
  show "collector' = map_option (\<lambda>items. items @ result_outputs r) collector"
    using assms(1) ids none_missing by (auto simp: collect_result_def Let_def split: option.splits if_splits)
qed

lemma call_collects:
  assumes "call_algorithm m ctx v wanted (Some items, w) = (Inr c, st')" and "distinct (map ou_id wanted)"
  shows "\<exists>outs. fst st' = Some (items @ outs) \<and> mset (output_ids outs) = mset (map ou_id wanted)"
proof -
  from assms(1) obtain f r w' where "m = Some f" "f ctx v w = (Some r, w')"
    by (auto simp: call_algorithm_def split: option.splits prod.splits)
  then obtain col where "collect_result r wanted (Some items) = Inr (c, col)" "fst st' = col"
    using assms(1) by (auto simp: call_algorithm_def split: sum.splits)
  then show ?thesis using collected_once assms(2) by fastforce
qed

lemma fields_collect:
  assumes "encrypt_document ctx d fs (Some items, w) = (Inr e, st')"
    and "list_all (\<lambda>f. distinct (map ou_id (ef_outputs (ef_decl f)))) fs"
  shows "\<exists>outs. fst st' = Some (items @ outs) \<and>
    mset (output_ids outs) = mset (map ou_id (concat (map (\<lambda>f. ef_outputs (ef_decl f)) fs)))"
  using assms
proof (induction fs arbitrary: d items w)
  case Nil
  then show ?case by (auto simp: output_ids_def)
next
  case (Cons f fs)
  let ?a = "ef_using (ef_decl f)"
  from Cons.prems(1) obtain d1 st1 where
    step: "document_step (encryption_failed ''document'') ctx ?a (al_encrypt ?a) (ef_outputs (ef_decl f)) (ef_wire f) d
             (Some items, w) = (Inr d1, st1)"
    and rest: "encrypt_document ctx d1 fs st1 = (Inr e, st')"
    by (auto simp: Let_def bindS_Inr_iff)
  from step obtain x name c where
    "call_algorithm (al_encrypt ?a) (at_path ctx name (Some (ef_wire f))) (FrozenV x) (ef_outputs (ef_decl f)) (Some items, w)
       = (Inr (FrozenV c), st1)"
    by (rule document_step_Inr)
  then obtain outs1 where 1: "fst st1 = Some (items @ outs1)" "mset (output_ids outs1) = mset (map ou_id (ef_outputs (ef_decl f)))"
    using call_collects Cons.prems(2) by fastforce
  then obtain w1 where "st1 = (Some (items @ outs1), w1)" by (cases st1) auto
  then obtain outs where "fst st' = Some ((items @ outs1) @ outs)"
      "mset (output_ids outs) = mset (map ou_id (concat (map (\<lambda>f. ef_outputs (ef_decl f)) fs)))"
    using Cons.IH [of d1 "items @ outs1" w1] rest Cons.prems(2) by auto
  then show ?case using 1(2) by (intro exI [of _ "outs1 @ outs"]) (simp add: output_ids_def)
qed

lemma distinct_writers_Inr:
  "distinct_writers ids names outs = Inr () \<Longrightarrow> distinct (map ou_id outs) \<and> set ids \<inter> set (map ou_id outs) = {}"
  by (induction outs arbitrary: ids names) (fastforce split: if_splits)+

lemma compiled_outputs:
  assumes "compile_payload_crypto fields_of p om ims = Inr k" and "pf_outbound p = Some b"
  shows "map (\<lambda>f. ef_outputs (ef_decl f)) (kc_outbound k) = map ef_outputs (ob_fields b)"
    and "distinct (map ou_id (declared_outputs b))"
proof -
  have "list_all2 (\<lambda>d f. ef_decl f = d) (ob_fields b) (kc_outbound k)"
    using compiled_outbound [OF compiled_parts(2) [OF assms(1)]] assms(2) by (auto elim: list.rel_mono_strong)
  then show "map (\<lambda>f. ef_outputs (ef_decl f)) (kc_outbound k) = map ef_outputs (ob_fields b)"
    by (induction rule: list_all2_induct) auto
  show "distinct (map ou_id (declared_outputs b))"
    using compiled_parts(6) [OF assms(1)] assms(2) distinct_writers_Inr
    by (fastforce simp: validate_declared_outputs_def)
qed

lemma distinct_parts: "distinct (concat xss) \<Longrightarrow> list_all distinct xss"
  by (induction xss) auto

text \<open>
  When the document stage of a compiled profile succeeds, the collector holds every output its fields declare
  exactly once, and nothing else.
\<close>

theorem declared_outputs_collected_once:
  assumes "compile_payload_crypto fields_of p om ims = Inr k" and "pf_outbound p = Some b"
    and "encrypt_document ctx d (kc_outbound k) (Some [], w) = (Inr e, st')"
  shows "map_option (\<lambda>outs. mset (output_ids outs)) (fst st') =
    Some (mset (map ou_id (concat (map ef_outputs (ob_fields b)))))"
proof -
  have "distinct (map ou_id (concat (map ef_outputs (ob_fields b))))"
    using compiled_outputs(2) [OF assms(1,2)] by (simp add: declared_outputs_def)
  then have "list_all (\<lambda>d. distinct (map ou_id (ef_outputs d))) (ob_fields b)"
    using distinct_parts [of "map (\<lambda>d. map ou_id (ef_outputs d)) (ob_fields b)"] by (simp add: map_concat comp_def list_all_iff)
  then have "list_all (\<lambda>outs. distinct (map ou_id outs)) (map ef_outputs (ob_fields b))" by (simp add: list_all_iff)
  then have "list_all (\<lambda>f. distinct (map ou_id (ef_outputs (ef_decl f)))) (kc_outbound k)"
    unfolding compiled_outputs(1) [OF assms(1,2), symmetric] by (simp add: list_all_iff)
  then show ?thesis
    using fields_collect [OF assms(3)] compiled_outputs(1) [OF assms(1,2)] by auto
qed

section \<open>Limits and rules\<close>

definition within_limit :: "string \<Rightarrow> int option \<Rightarrow> bool" where
  "within_limit v limit = (case limit of None \<Rightarrow> True | Some n \<Rightarrow> int (length v) \<le> n)"

lemma check_limit_Inr: "check_limit v limit stage = Inr () \<longleftrightarrow> within_limit v limit"
  by (auto simp: check_limit_def within_limit_def split: option.splits)

lemma bytes_result_Inr: "bytes_result failure name r = (Inr v, st) \<longleftrightarrow> r = (Inr (BytesV v), st)"
  by (auto simp: bytes_result_def split: prod.splits sum.splits alg_value.splits)

lemma encrypt_bytes_Inr:
  assumes "encrypt_bytes ctx v d st = (Inr out, st')"
  obtains name where "algorithm_name (ee_using d) = Inr name" "within_limit v (ee_max_input d)"
    "within_limit out (ee_max_output d)"
    "call_algorithm (al_encrypt (ee_using d)) (at_path ctx name None) (BytesV v) (ee_outputs d) st = (Inr (BytesV out), st')"
  using assms
  by (auto simp: encrypt_bytes_def liftS_def bindS_Inr_iff bytes_result_Inr check_limit_Inr)

lemma decrypt_bytes_Inr:
  assumes "decrypt_bytes ctx v d st = (Inr out, st')"
  obtains name where "algorithm_name (de_using d) = Inr name" "within_limit v (de_max_input d)"
    "within_limit out (de_max_output d)"
    "call_algorithm (al_decrypt (de_using d)) (at_path ctx name None) (BytesV v) [] st = (Inr (BytesV out), st')"
  using assms
  by (auto simp: decrypt_bytes_def liftS_def bindS_Inr_iff bytes_result_Inr check_limit_Inr)

lemma select_rule_mset:
  assumes "mset ms = mset ms'"
  shows "select_rule ms protocol = select_rule ms' protocol"
proof -
  have top: "top_priority ms = top_priority ms'"
    using mset_eq_setD [OF assms] by (simp add: top_priority_def)
  let ?s = "filter (\<lambda>r. ru_priority r = top_priority ms') ms" and ?s' = "filter (\<lambda>r. ru_priority r = top_priority ms') ms'"
  have same: "mset ?s = mset ?s'" using assms by (simp add: mset_filter)
  then have sorted: "sort (map (pf_name \<circ> ru_profile) ?s) = sort (map (pf_name \<circ> ru_profile) ?s')"
  proof (intro properties_for_sort)
    show "mset (sort (map (pf_name \<circ> ru_profile) ?s')) = mset (map (pf_name \<circ> ru_profile) ?s)"
      using same by (simp only: mset_sort mset_map)
  qed simp
  have "ms = [] \<longleftrightarrow> ms' = []" using assms by (metis mset_zero_iff)
  moreover have "length ?s = length ?s'" using same by (rule mset_eq_length)
  moreover have "?s = [r] \<Longrightarrow> ?s' = [r]" for r using same by (metis mset_single_iff_right mset.simps(1,2))
  moreover have "ambiguous_rules ?s protocol t = ambiguous_rules ?s' protocol t" for t
    unfolding ambiguous_rules_def sorted ..
  ultimately show ?thesis unfolding select_rule_def top
    by (cases ?s rule: remdups_adj.cases; cases ?s' rule: remdups_adj.cases) simp_all
qed

text \<open>Which profile a request gets does not depend on the order the rules were registered in; neither does the refusal.\<close>

theorem rule_order_is_irrelevant:
  assumes "mset rs = mset rs'"
  shows "resolve_http rs host path method operation_id = resolve_http rs' host path method operation_id"
  unfolding resolve_http_def using assms by (intro select_rule_mset) (simp add: mset_filter)

lemma chosen_rule:
  assumes "select_rule ms protocol = Inr (Some (p, enc))"
  shows "\<exists>r \<in> set ms. p = masked_profile r \<and> enc = ru_encrypted r \<and> (\<forall>s \<in> set ms. s = r \<or> ru_priority s < ru_priority r)"
proof -
  from assms obtain r where r: "filter (\<lambda>r. ru_priority r = top_priority ms) ms = [r]"
      "new_payload_crypto (masked_profile r) = Inr p" "enc = ru_encrypted r"
    by (auto simp: select_rule_def bindE_Inr_iff split: if_splits list.splits)
  have "p = masked_profile r" using r(2) by (auto simp: new_payload_crypto_def bindE_Inr_iff split: if_splits)
  have mem: "r \<in> set ms" "ru_priority r = top_priority ms" using r(1) by (auto simp: filter_eq_Cons_iff)
  have "s = r \<or> ru_priority s < ru_priority r" if "s \<in> set ms" for s
  proof (cases "ru_priority s = top_priority ms")
    case True
    then have "s \<in> set (filter (\<lambda>r. ru_priority r = top_priority ms) ms)" using that by simp
    then show ?thesis using r(1) by simp
  next
    case False
    then show ?thesis using that mem(2) by (auto simp: top_priority_def order.strict_iff_order)
  qed
  then show ?thesis using \<open>p = masked_profile r\<close> r(3) mem(1) by blast
qed

section \<open>A profile\<close>

text \<open>An order whose card number and first amount are shifted by seven; encryption counts its calls and reports the count.\<close>

definition shift_output :: crypto_output where
  "shift_output = \<lparr>ou_id = 1, ou_name = ''count'', ou_annotation = IntOutput, ou_validator = Inr, ou_secret = False\<rparr>"

definition shift_encrypt :: "bool \<Rightarrow> nat alg_call" where
  "shift_encrypt reports ctx v n =
     (case v of
        FrozenV (FInt i) \<Rightarrow>
          (Some (if reports then CryptoResult (FrozenV (FInt (i + 7))) [\<lparr>ov_output = shift_output, ov_value = PInt (int n)\<rparr>]
                 else PlainResult (FrozenV (FInt (i + 7)))), Suc n)
      | BytesV s \<Rightarrow> (Some (PlainResult (BytesV (CHR ''#'' # s))), Suc n)
      | _ \<Rightarrow> (None, n))"

definition shift_decrypt :: "nat alg_call" where
  "shift_decrypt ctx v n =
     (case v of
        FrozenV (FInt i) \<Rightarrow> (Some (PlainResult (FrozenV (FInt (i - 7)))), n)
      | BytesV (c # s) \<Rightarrow> (Some (PlainResult (BytesV s)), n)
      | _ \<Rightarrow> (None, n))"

definition shift :: "bool \<Rightarrow> nat algorithm" where
  "shift reports = \<lparr>al_id = (if reports then 1 else 2), al_name = Some ''shift'', al_encrypt = Some (shift_encrypt reports),
     al_decrypt = Some shift_decrypt, al_encrypt_async = False, al_decrypt_async = False\<rparr>"

definition order_fields :: "annot \<Rightarrow> model_field list option" where
  "order_fields t =
     (if t = ClassT ''Order'' then Some
        [\<lparr>mf_name = ''card'', mf_wire = ''paymentCard'', mf_validation = None,
          mf_annotation = UnionT [ClassT ''Card'', ClassT ''NoneType''], mf_metadata = [], mf_required = True\<rparr>,
         \<lparr>mf_name = ''amounts'', mf_wire = ''amounts'', mf_validation = None,
          mf_annotation = GenericT ''list'' [ClassT ''int''], mf_metadata = [], mf_required = True\<rparr>]
      else if t = ClassT ''Card'' then Some
        [\<lparr>mf_name = ''number'', mf_wire = ''no'', mf_validation = None, mf_annotation = ClassT ''int'', mf_metadata = [],
          mf_required = True\<rparr>]
      else None)"

definition order_profile :: "nat payload_crypto" where
  "order_profile =
     \<lparr>pf_name = ''orders'',
      pf_outbound = Some \<lparr>ob_fields =
        [\<lparr>ef_model = ClassT ''Order'', ef_path = [Key ''card'', Key ''number''], ef_using = shift True, ef_outputs = [shift_output]\<rparr>,
         \<lparr>ef_model = ClassT ''Order'', ef_path = [Key ''amounts'', Index 0], ef_using = shift False, ef_outputs = []\<rparr>],
        ob_encoded = None\<rparr>,
      pf_inbound = Some \<lparr>ib_fields =
        [\<lparr>df_model = ClassT ''Order'', df_path = [Key ''card'', Key ''number''], df_using = shift True, df_metadata = []\<rparr>,
         \<lparr>df_model = ClassT ''Order'', df_path = [Key ''amounts'', Index 0], df_using = shift False, df_metadata = []\<rparr>],
        ib_encoded = None\<rparr>,
      pf_inputs = []\<rparr>"

definition order_context :: http_crypto_context where
  "order_context =
     \<lparr>xc_operation_id = ''op'', xc_profile = ''orders'', xc_algorithm = '''', xc_direction = OUTBOUND, xc_stage = DOCUMENT,
      xc_attempt = 1, xc_path = None, xc_aad = [], xc_values = [], xh_method = ''POST'', xh_authority = ''a.b'',
      xh_clear_content_type = None, xh_outer_content_type = None\<rparr>"

definition order_document :: "int \<Rightarrow> int \<Rightarrow> frozen" where
  "order_document number amount =
     FObject [(''amounts'', FArray [FInt amount, FInt 5]), (''paymentCard'', FObject [(''no'', FInt number), (''owner'', FStr ''Ada'')])]"

definition order_compiled :: "nat compiled_crypto" where
  "order_compiled =
     (let out = the (pf_outbound order_profile); inb = the (pf_inbound order_profile) in
      \<lparr>kc_profile = order_profile,
       kc_outbound = map2 (\<lambda>d w. \<lparr>ef_decl = d, ef_wire = w\<rparr>) (ob_fields out) [[Key ''paymentCard'', Key ''no''], [Key ''amounts'', Index 0]],
       kc_inbound = map2 (\<lambda>d w. \<lparr>df_decl = d, df_wire = w\<rparr>) (ib_fields inb) [[Key ''paymentCard'', Key ''no''], [Key ''amounts'', Index 0]]\<rparr>)"

lemma unambiguous_class [simp]: "unambiguous_type (ClassT n) tr = Inr (ClassT n)"
  by (subst unambiguous_type.simps) simp

lemma unambiguous_generic [simp]: "unambiguous_type (GenericT n args) tr = Inr (GenericT n args)"
  by (subst unambiguous_type.simps) simp

lemma unambiguous_optional [simp]: "n \<noteq> ''NoneType'' \<Longrightarrow> unambiguous_type (UnionT [ClassT n, ClassT ''NoneType'']) tr = Inr (ClassT n)"
  by (subst unambiguous_type.simps) simp

lemma order_card: "resolve_wire_path order_fields (ClassT ''Order'') [Key ''card'', Key ''number''] = Inr [Key ''paymentCard'', Key ''no'']"
  by (simp add: resolve_wire_path_def wire_step_def order_fields_def)

lemma order_amount: "resolve_wire_path order_fields (ClassT ''Order'') [Key ''amounts'', Index 0] = Inr [Key ''amounts'', Index 0]"
  by (simp add: resolve_wire_path_def wire_step_def order_fields_def)

lemma order_compiles: "compile_payload_crypto order_fields order_profile (Some (ClassT ''Order'')) [ClassT ''Order''] = Inr order_compiled"
  by (simp add: compile_payload_crypto_def compile_outbound_def compile_inbound_def compile_encrypt_field_def
      compile_decrypt_field_def order_profile_def order_compiled_def order_card order_amount validate_algorithm_def
      algorithm_name_def shift_def validate_model_def models_compatible_def validate_resolved_paths_def
      validate_declared_outputs_def declared_outputs_def shift_output_def)

lemma shift_call:
  "call_algorithm (al_encrypt (shift reports)) ctx (FrozenV x) (if reports then [shift_output] else []) st = (Inr (FrozenV c), st') \<Longrightarrow>
     \<exists>i. x = FInt i \<and> c = FInt (i + 7)"
  by (cases x; cases reports) (auto simp: call_algorithm_def shift_def shift_encrypt_def collect_result_def Let_def bindE_Inr_iff
      split: prod.splits sum.splits option.splits if_splits)

lemma norm_int [simp]: "norm_frozen (FInt i) = FInt i"
  by (rule norm_canonical) simp

lemma shift_back: "decrypts_to ctx \<lparr>df_decl = \<lparr>df_model = m, df_path = p, df_using = shift reports, df_metadata = ms\<rparr>, df_wire = w\<rparr> (FInt (i + 7)) (FInt i)"
  by (auto simp: decrypts_to_def algorithm_name_def shift_def shift_decrypt_def call_algorithm_def collect_result_def list_ex_iff split: option.splits)

lemma order_inverse: "list_all2 (inverse_fields c1 c2) (kc_outbound order_compiled) (kc_inbound order_compiled)"
proof -
  have "inverse_fields c1 c2
      \<lparr>ef_decl = \<lparr>ef_model = m, ef_path = p, ef_using = shift reports, ef_outputs = if reports then [shift_output] else []\<rparr>, ef_wire = w\<rparr>
      \<lparr>df_decl = \<lparr>df_model = m', df_path = p', df_using = shift reports, df_metadata = ms\<rparr>, df_wire = w\<rparr>"
    for m m' p p' reports w ms
    unfolding inverse_fields_def
  proof (intro conjI allI impI)
    fix name x st c st'
    assume "call_algorithm (al_encrypt (ef_using (ef_decl \<lparr>ef_decl = \<lparr>ef_model = m, ef_path = p, ef_using = shift reports,
        ef_outputs = if reports then [shift_output] else []\<rparr>, ef_wire = w\<rparr>))) (at_path c1 name (Some (ef_wire
        \<lparr>ef_decl = \<lparr>ef_model = m, ef_path = p, ef_using = shift reports, ef_outputs = if reports then [shift_output] else []\<rparr>,
        ef_wire = w\<rparr>))) (FrozenV x) (ef_outputs (ef_decl \<lparr>ef_decl = \<lparr>ef_model = m, ef_path = p, ef_using = shift reports,
        ef_outputs = if reports then [shift_output] else []\<rparr>, ef_wire = w\<rparr>)) st = (Inr (FrozenV c), st')"
    then obtain i where "x = FInt i" "c = FInt (i + 7)"
      using shift_call [of reports "at_path c1 name (Some w)" x st c st'] by auto
    then show "decrypts_to c2 \<lparr>df_decl = \<lparr>df_model = m', df_path = p', df_using = shift reports, df_metadata = ms\<rparr>, df_wire = w\<rparr>
        (norm_frozen c) x" by (simp add: shift_back)
  qed simp
  from this [of _ _ True] this [of _ _ False] show ?thesis by (simp add: order_compiled_def order_profile_def)
qed

lemma order_encrypted:
  "encrypt_document order_context (order_document 4111 30) (kc_outbound order_compiled) (Some [], 0) =
     (Inr (order_document 4118 37), (Some [\<lparr>ov_output = shift_output, ov_value = PInt 0\<rparr>], 2))"
  by (simp add: order_compiled_def order_profile_def document_step_def liftS_def frozen_result_def call_algorithm_def
      read_path_def order_document_def list_at_def algorithm_name_def shift_def shift_encrypt_def collect_result_def
      check_alg_output_def shift_output_def set_path_def dict_of_def list_put_def output_ids_def Let_def)

lemma document_roundtrip_witness:
  "\<exists>u'. decrypt_document order_context (order_document 4118 37) (kc_inbound order_compiled) (None, 9) =
     (Inr (order_document 4111 30), u')"
  by (rule document_roundtrip [OF order_compiles order_inverse _ order_encrypted]) (simp add: order_document_def)

lemma encryption_keeps_the_rest_witness:
  "read_path (order_document 4118 37) [Key ''paymentCard'', Key ''owner''] =
     read_path (order_document 4111 30) [Key ''paymentCard'', Key ''owner'']"
  by (rule encryption_keeps_the_rest [OF order_compiles _ order_encrypted])
    (simp_all add: order_document_def order_compiled_def order_profile_def places_apart_def forward_path_def)

lemma declared_outputs_collected_once_witness:
  "map_option (\<lambda>outs. mset (output_ids outs)) (Some [\<lparr>ov_output = shift_output, ov_value = PInt 0\<rparr>]) =
     Some {#1#}"
proof -
  have out: "pf_outbound order_profile = Some (the (pf_outbound order_profile))" by (simp add: order_profile_def)
  from declared_outputs_collected_once [OF order_compiles out order_encrypted]
  show ?thesis by (simp add: order_profile_def shift_output_def)
qed

definition order_rule :: "int \<Rightarrow> string \<Rightarrow> nat crypto_rule" where
  "order_rule priority method =
     \<lparr>ru_profile = order_profile, ru_scope = HttpScope (http_crypto_scope_of [''api.shop''] [''/orders''] [method] []),
      ru_priority = priority, ru_encrypted = None, ru_directions = [INBOUND, OUTBOUND]\<rparr>"

lemma rule_order_is_irrelevant_witness:
  "resolve_http [order_rule 1 ''post'', order_rule 2 ''post''] ''api.shop'' ''/orders/1'' ''POST'' ''op'' =
     resolve_http [order_rule 2 ''post'', order_rule 1 ''post''] ''api.shop'' ''/orders/1'' ''POST'' ''op''"
  by (rule rule_order_is_irrelevant) simp

text \<open>An index into a tuple of two types is resolved with the fields of the first.\<close>

lemma tuple_item_resolved_as_the_first:
  "resolve_wire_path order_fields (GenericT ''tuple'' [ClassT ''str'', ClassT ''Card'']) [Index 1, Key ''number''] =
     Inl (CryptoConfigurationError (''crypto selector cannot traverse '' @ py_repr ''number'' @ '' on unsupported type''))"
  by (simp add: resolve_wire_path_def wire_step_def order_fields_def)

end
