(* ===== verification/CryptoHttp.thy ===== *)
theory CryptoHttp
  imports Crypto Responses
begin

text \<open>
  Payload crypto on HTTP (\<open>crypto/_http.py\<close>): a request is protected after it was prepared, a response is
  unprotected before its cases see it, and metadata travels in headers.

  \<open>float\<close> of a text and the JSON encoder with its policy are parameters. Texts are lists of bytes;
  \<open>str.casefold\<close> and \<open>str.lower\<close> are \<open>lower\<close>, which agrees with them on ASCII.
\<close>

section \<open>Scalars in headers\<close>

definition encode_ascii :: "string \<Rightarrow> crypto_error + string" where
  "encode_ascii s =
     (if list_all (\<lambda>c. (of_char c :: nat) < 128) s then Inr s else Inl (OtherError (PyError ''UnicodeEncodeError'')))"

definition decode_ascii :: "string \<Rightarrow> crypto_error + string" where
  "decode_ascii s =
     (if list_all (\<lambda>c. (of_char c :: nat) < 128) s then Inr s else Inl (OtherError (PyError ''UnicodeDecodeError'')))"

text \<open>\<open>str\<close> and \<open>int\<close> refuse more than 4300 digits; \<open>int\<close> allows one underscore between digits.\<close>

definition scalar_text :: "pyval \<Rightarrow> crypto_error + string" where
  "scalar_text v =
     (case v of
        PStr s \<Rightarrow> Inr s
      | PBool b \<Rightarrow> Inr (if b then ''true'' else ''false'')
      | PInt i \<Rightarrow>
          if int_max_str_digits < length (digits_of (nat \<bar>i\<bar>))
          then Inl (OtherError (PyValueError ''Exceeds the limit (4300 digits) for integer string conversion''))
          else Inr (str_int i)
      | _ \<Rightarrow> Inl (CryptoConfigurationError ''HTTP crypto metadata must be a scalar value''))"

definition is_line_break :: "char \<Rightarrow> bool" where
  "is_line_break c \<longleftrightarrow> c = CHR 13 \<or> c = CHR 10"

definition encode_http_metadata :: "pyval \<Rightarrow> crypto_error + string" where
  "encode_http_metadata v =
     bindE (scalar_text v) (\<lambda>s.
       if list_ex is_line_break s then Inl (CryptoConfigurationError ''HTTP crypto metadata contains a line break'')
       else Inr s)"

definition int_text :: "string \<Rightarrow> int option" where
  "int_text s =
     (let t = strip s;
          neg = (t \<noteq> [] \<and> hd t = CHR ''-'');
          body = (if t \<noteq> [] \<and> (hd t = CHR ''-'' \<or> hd t = CHR ''+'') then tl t else t);
          groups = split_on (CHR ''_'') body in
      if \<not> list_all (\<lambda>g. g \<noteq> [] \<and> list_all is_digit g) groups \<or> int_max_str_digits < length (concat groups) then None
      else Some (if neg then - digits_value (concat groups) else digits_value (concat groups)))"

text \<open>
  \<open>_decode_http_metadata\<close>. A \<open>CryptoConfigurationError\<close> is a \<open>ValueError\<close>: what the block raises for a type it
  does not support is caught by its own \<open>except\<close>.
\<close>

definition parsed_metadata :: "(string \<Rightarrow> pyval option) \<Rightarrow> output_annotation \<Rightarrow> string \<Rightarrow> pyval option" where
  "parsed_metadata float_of a raw =
     (case a of
        StrOutput \<Rightarrow> Some (PStr raw)
      | BoolOutput \<Rightarrow> if raw = ''true'' then Some (PBool True) else if raw = ''false'' then Some (PBool False) else None
      | IntOutput \<Rightarrow> map_option PInt (int_text raw)
      | FloatOutput \<Rightarrow> float_of raw
      | OtherOutput \<Rightarrow> None)"

definition invalid_metadata :: "crypto_output \<Rightarrow> crypto_error" where
  "invalid_metadata out = CryptoConfigurationError (''invalid HTTP crypto metadata '' @ py_repr (ou_name out))"

definition decode_http_metadata :: "(string \<Rightarrow> pyval option) \<Rightarrow> crypto_output \<Rightarrow> string \<Rightarrow> crypto_error + pyval" where
  "decode_http_metadata float_of out raw =
     (case parsed_metadata float_of (ou_annotation out) raw of
        None \<Rightarrow> Inl (invalid_metadata out)
      | Some v \<Rightarrow>
          (case ou_validator out v of
             Inr v' \<Rightarrow> Inr v'
           | Inl e \<Rightarrow> if is_type_error e \<or> is_value_error e then Inl (invalid_metadata out) else Inl (OtherError e)))"

section \<open>Protecting a request\<close>

datatype body_input = ExactInput string "string option" | OtherInput

record crypto_request = prepared_request +
  cq_input :: body_input

definition wire_header :: "string \<Rightarrow> string \<Rightarrow> header_field" where
  "wire_header n v = \<lparr>hf_name = n, hf_value = v, hf_sensitive = False\<rparr>"

definition representation_names :: "string list" where
  "representation_names = [''content-type'', ''content-length'']"

definition replace_representation_headers :: "header_field list \<Rightarrow> string \<Rightarrow> nat \<Rightarrow> crypto_error + header_field list" where
  "replace_representation_headers hs content_type n =
     bindE (encode_ascii content_type) (\<lambda>t.
       Inr (filter (\<lambda>h. lower (hf_name h) \<notin> set representation_names) hs @
            [wire_header ''Content-Type'' t, wire_header ''Content-Length'' (str_int (int n))]))"

text \<open>\<open>{id(item.output): item.value for item in outputs}\<close>: the last value of an output.\<close>

definition output_values :: "output_value list \<Rightarrow> (nat, pyval) dict" where
  "output_values outs = dict_of (map (\<lambda>i. (ou_id (ov_output i), ov_value i)) outs)"

definition retained_header :: "http_encrypted \<Rightarrow> header_field \<Rightarrow> crypto_error + header_field list" where
  "retained_header wire h =
     bindE (decode_ascii (hf_name h)) (\<lambda>n.
       Inr (if lower n \<in> set (map (lower \<circ> hh_name) (he_metadata wire)) then [] else [h]))"

definition metadata_header :: "(nat, pyval) dict \<Rightarrow> http_crypto_header \<Rightarrow> crypto_error + header_field list" where
  "metadata_header known b =
     (case map_of known (ou_id (hh_output b)) of
        None \<Rightarrow> Inr []
      | Some v \<Rightarrow>
          bindE (encode_ascii (hh_name b)) (\<lambda>n.
          bindE (encode_http_metadata v) (\<lambda>s.
          bindE (encode_ascii s) (\<lambda>t. Inr [wire_header n t]))))"

definition apply_metadata_headers ::
  "header_field list \<Rightarrow> http_encrypted \<Rightarrow> output_value list \<Rightarrow> crypto_error + header_field list" where
  "apply_metadata_headers hs wire outs =
     bindE (mapE (retained_header wire) hs) (\<lambda>retained.
     bindE (mapE (metadata_header (output_values outs)) (he_metadata wire)) (\<lambda>applied.
       Inr (concat retained @ concat applied)))"

definition collected :: "'w stage \<Rightarrow> output_value list" where
  "collected st = (case fst st of None \<Rightarrow> [] | Some outs \<Rightarrow> outs)"

definition with_headers :: "header_field list \<Rightarrow> crypto_request \<Rightarrow> crypto_request" where
  "with_headers hs r =
     r\<lparr>pr_headers := hs, pr_view := map_option (\<lambda>v. v\<lparr>rv_headers := hs\<rparr>) (pr_view r)\<rparr>"

definition with_content :: "string \<Rightarrow> string \<Rightarrow> header_field list \<Rightarrow> crypto_request \<Rightarrow> crypto_request" where
  "with_content content content_type hs r =
     r\<lparr>pr_headers := hs, pr_body := BufferedBody content (Some content_type),
       pr_view := map_option (\<lambda>v. v\<lparr>rv_headers := hs, rv_body :=
          \<lparr>bv_content = content, bv_media_type = Some content_type, bv_json = None, bv_form = None,
           bv_sensitive = bv_sensitive (rv_body v)\<rparr>\<rparr>) (pr_view r),
       cq_input := ExactInput content (Some content_type)\<rparr>"

definition protect_encoded ::
  "http_crypto_context \<Rightarrow> 'w encrypt_encoded \<Rightarrow> http_encrypted \<Rightarrow> crypto_request \<Rightarrow> string \<Rightarrow> 'w stage \<Rightarrow>
     (crypto_error, crypto_request, 'w stage) run" where
  "protect_encoded ctx e wire r plain st =
     bindS (encrypt_bytes ctx plain e st) (\<lambda>content st.
     bindS (liftS (encode_ascii (he_content_type wire)) st) (\<lambda>_ st.
     bindS (liftS (replace_representation_headers (pr_headers r) (he_content_type wire) (length content)) st) (\<lambda>hs st.
     bindS (liftS (apply_metadata_headers hs wire (collected st)) st) (\<lambda>hs st.
       (Inr (with_content content (he_content_type wire) hs r), st)))))"

definition protect_http_request ::
  "http_crypto_context \<Rightarrow> 'w compiled_crypto \<Rightarrow> http_encrypted \<Rightarrow> crypto_request \<Rightarrow> 'w stage \<Rightarrow>
     (crypto_error, crypto_request, 'w stage) run" where
  "protect_http_request ctx k wire r st =
     (case pf_outbound (kc_profile k) of
        None \<Rightarrow> (Inr r, st)
      | Some b \<Rightarrow>
          (case ob_encoded b of
             None \<Rightarrow>
               bindS (liftS (apply_metadata_headers (pr_headers r) wire (collected st)) st) (\<lambda>hs st.
                 (Inr (with_headers hs r), st))
           | Some e \<Rightarrow>
               (case pr_body r of
                  StreamedBody _ \<Rightarrow>
                    (Inl (CryptoStreamingUnsupportedError ''whole-payload crypto does not support streaming bodies''), st)
                | BufferedBody plain _ \<Rightarrow> protect_encoded ctx e wire r plain st)))"

text \<open>The document of a request, before it is encoded.\<close>

definition prepare_http_document ::
  "http_crypto_context \<Rightarrow> 'w compiled_crypto \<Rightarrow> pyval \<Rightarrow> 'w stage \<Rightarrow> (crypto_error, pyval, 'w stage) run" where
  "prepare_http_document ctx k v st =
     (if kc_outbound k = [] then (Inr v, st)
      else bindS (liftS (map_sum OtherError id (freeze_value v)) st) (\<lambda>d st.
           bindS (encrypt_document ctx d (kc_outbound k) st) (\<lambda>e st. (Inr (thaw_value e), st))))"

section \<open>Unprotecting a response\<close>

record crypto_response =
  px_response :: resp_context
  px_wire_body :: "string option"
  px_wire_headers :: "header_lines option"

definition required_metadata :: "'w compiled_crypto \<Rightarrow> nat list" where
  "required_metadata k =
     (case pf_inbound (kc_profile k) of
        None \<Rightarrow> []
      | Some b \<Rightarrow> concat (map (\<lambda>f. map ou_id (df_metadata f)) (ib_fields b)) @
          (case ib_encoded b of None \<Rightarrow> [] | Some d \<Rightarrow> map ou_id (de_metadata d)))"

definition metadata_step ::
  "(string \<Rightarrow> pyval option) \<Rightarrow> nat list \<Rightarrow> header_lines \<Rightarrow> (descriptor_id \<times> pyval) list \<Rightarrow> http_crypto_header \<Rightarrow>
     crypto_error + (descriptor_id \<times> pyval) list" where
  "metadata_step float_of required hs items b =
     (if ou_id (hh_output b) \<notin> set required then Inr items
      else case header_get hs (hh_name b) of
             None \<Rightarrow> Inl (CryptoConfigurationError (''missing crypto metadata header '' @ py_repr (hh_name b)))
           | Some raw \<Rightarrow> bindE (decode_http_metadata float_of (hh_output b) raw) (\<lambda>v.
               Inr (items @ [(OutputId (ou_id (hh_output b)), v)])))"

definition context_with_http_metadata ::
  "(string \<Rightarrow> pyval option) \<Rightarrow> http_crypto_context \<Rightarrow> header_lines \<Rightarrow> 'w compiled_crypto \<Rightarrow> http_encrypted \<Rightarrow>
     crypto_error + http_crypto_context" where
  "context_with_http_metadata float_of ctx hs k wire =
     bindE (foldE (metadata_step float_of (required_metadata k) hs) (xc_values ctx) (he_metadata wire)) (\<lambda>items.
       Inr (ctx\<lparr>xc_values := items\<rparr>))"

definition json_suffix :: "string" where
  "json_suffix = ''+json''"

definition is_json_media_type :: "string option \<Rightarrow> crypto_error + bool" where
  "is_json_media_type v =
     (case v of
        None \<Rightarrow> Inr False
      | Some s \<Rightarrow>
          if CHR ''/'' \<notin> set s then Inr False
          else (case py_partition (bare_media s) ''/'' of (_, separator, subtype) \<Rightarrow>
                  if separator = [] then Inl (OtherError (PyError ''IndexError''))
                  else Inr (subtype = ''json'' \<or> suffix json_suffix subtype)))"

definition effective_or :: "string option \<Rightarrow> string option \<Rightarrow> string option" where
  "effective_or effective actual = (case effective of Some (c # cs) \<Rightarrow> Some (c # cs) | _ \<Rightarrow> actual)"

definition text_of_type :: "string option \<Rightarrow> string" where
  "text_of_type t = (case t of None \<Rightarrow> ''None'' | Some s \<Rightarrow> py_repr s)"

text \<open>The encoded part: the bytes and the media type they have now, and whether anything was done.\<close>

definition unprotect_encoded ::
  "http_crypto_context \<Rightarrow> 'w decrypt_encoded option \<Rightarrow> http_encrypted \<Rightarrow> resp_context \<Rightarrow> 'w stage \<Rightarrow>
     (crypto_error, string \<times> string option \<times> bool, 'w stage) run" where
  "unprotect_encoded ctx encoded wire resp st =
     (case encoded of
        None \<Rightarrow> (Inr (cx_body resp, cx_effective resp, False), st)
      | Some d \<Rightarrow>
          (let expected = bare_media (he_content_type wire) in
           if content_type_of resp \<noteq> Some expected
           then (Inl (EncryptedMediaTypeMismatchError (''expected encrypted Content-Type '' @ py_repr expected @
                   '', got '' @ text_of_type (content_type_of resp))), st)
           else bindS (decrypt_bytes ctx (cx_body resp) d st) (\<lambda>content st.
                  (Inr (content, Some (he_clear_content_type wire), True), st))))"

definition decoded_document :: "resp_context \<Rightarrow> string \<Rightarrow> crypto_error + frozen" where
  "decoded_document resp content =
     (case bindE (cx_loads resp content) freeze_value of
        Inr d \<Rightarrow> Inr d
      | Inl _ \<Rightarrow> Inl (EncryptedMediaTypeMismatchError ''decrypted payload is not a valid JSON document''))"

definition unprotect_fields ::
  "(pyval \<Rightarrow> sdk_error + string) \<Rightarrow> http_crypto_context \<Rightarrow> 'w compiled_decrypt_field list \<Rightarrow> resp_context \<Rightarrow>
     string \<times> string option \<times> bool \<Rightarrow> 'w stage \<Rightarrow> (crypto_error, string \<times> string option \<times> bool, 'w stage) run" where
  "unprotect_fields dump ctx fs resp part st =
     (case part of (content, effective, transformed) \<Rightarrow>
        if fs = [] then (Inr part, st)
        else (let clear_type = effective_or effective (content_type_of resp) in
          bindS (liftS (is_json_media_type clear_type) st) (\<lambda>json st.
            if \<not> json
            then (Inl (EncryptedMediaTypeMismatchError (''field decryption requires a JSON media type, got '' @
                    text_of_type clear_type)), st)
            else bindS (liftS (decoded_document resp content) st) (\<lambda>document st.
                 bindS (decrypt_document ctx document fs st) (\<lambda>decrypted st.
                 bindS (liftS (map_sum OtherError id (dump (thaw_value decrypted))) st) (\<lambda>bytes st.
                   (Inr (bytes, effective, True), st)))))))"

definition unprotect_http_response ::
  "(string \<Rightarrow> pyval option) \<Rightarrow> (pyval \<Rightarrow> sdk_error + string) \<Rightarrow> http_crypto_context \<Rightarrow> 'w compiled_crypto \<Rightarrow>
     http_encrypted \<Rightarrow> crypto_response \<Rightarrow> 'w \<Rightarrow> (crypto_error, crypto_response, 'w stage) run" where
  "unprotect_http_response float_of dump ctx k wire r w =
     (let resp = px_response r in
      case pf_inbound (kc_profile k) of
        None \<Rightarrow> (Inr r, (None, w))
      | Some b \<Rightarrow>
          if cx_status resp \<in> set (he_plaintext_statuses wire) \<and>
             content_type_of resp \<noteq> Some (bare_media (he_content_type wire))
          then (Inr r, (None, w))
          else bindS (liftS (context_with_http_metadata float_of ctx (cx_headers resp) k wire) (None, w)) (\<lambda>ctx st.
               bindS (unprotect_encoded ctx (ib_encoded b) wire resp st) (\<lambda>part st.
               bindS (unprotect_fields dump ctx (kc_inbound k) resp part st) (\<lambda>(content, effective, transformed) st.
                 if \<not> transformed then (Inr r, st)
                 else (Inr (r\<lparr>px_response := resp\<lparr>cx_body := content, cx_effective := effective\<rparr>,
                              px_wire_body := Some (case px_wire_body r of Some x \<Rightarrow> x | None \<Rightarrow> cx_body resp),
                              px_wire_headers := Some (case px_wire_headers r of Some x \<Rightarrow> x | None \<Rightarrow> cx_headers resp)\<rparr>), st)))))"

section \<open>Numbers as text\<close>

lemma digits_value_snoc: "digits_value (ds @ [c]) = 10 * digits_value ds + (of_char c - 48)"
  by (simp add: digits_value_def)

lemma digit_char:
  assumes "n < 10"
  shows "(of_char (char_of (48 + n :: nat)) :: int) = 48 + int n" and "is_digit (char_of (48 + n))"
proof -
  have small: "(48 + n) mod 256 = 48 + n" using assms by simp
  then have code: "(of_char (char_of (48 + n) :: char) :: nat) = 48 + n" by (simp only: of_char_of)
  have "(of_char (char_of (48 + n) :: char) :: int) = int (of_char (char_of (48 + n) :: char))" by (simp only: of_nat_of_char)
  also have "\<dots> = 48 + int n" unfolding code by simp
  finally show "(of_char (char_of (48 + n :: nat)) :: int) = 48 + int n" .
  show "is_digit (char_of (48 + n))" unfolding is_digit_def code using assms by simp
qed

lemma digits_of_value: "digits_value (digits_of n) = int n \<and> list_all is_digit (digits_of n) \<and> digits_of n \<noteq> []"
proof (induction n rule: digits_of.induct)
  case (1 n)
  show ?case
  proof (cases "n < 10")
    case True
    then show ?thesis using digit_char [OF True] by (simp add: digits_of.simps [of n] digits_value_def del: of_char_of)
  next
    case False
    have "n mod 10 < 10" by simp
    then have d: "(of_char (char_of (48 + n mod 10 :: nat)) :: int) = 48 + int (n mod 10)" "is_digit (char_of (48 + n mod 10))"
      by (rule digit_char)+
    have "10 * int (n div 10) + int (n mod 10) = int n" by presburger
    moreover have "digits_of n = digits_of (n div 10) @ [char_of (48 + n mod 10)]" using False by (simp add: digits_of.simps [of n])
    ultimately show ?thesis using 1 [OF False] d by (simp only: digits_value_snoc list_all_append) simp
  qed
qed

lemma digit_not_space: "is_digit c \<Longrightarrow> \<not> is_space c"
  by (auto simp: is_digit_def is_space_def)

lemma strip_solid: "s \<noteq> [] \<Longrightarrow> \<not> is_space (hd s) \<Longrightarrow> \<not> is_space (last s) \<Longrightarrow> strip s = s"
proof -
  assume s: "s \<noteq> []" "\<not> is_space (hd s)" "\<not> is_space (last s)"
  then have "dropWhile is_space s = s" by (cases s) auto
  moreover have "dropWhile is_space (rev s) = rev s" using s by (cases s rule: rev_cases) auto
  ultimately show ?thesis by (simp add: strip_def lstrip_if_def rstrip_if_def)
qed

lemma split_on_absent: "d \<notin> set s \<Longrightarrow> split_on d s = [s]"
  by (induction s) auto

lemma digit_plain: "is_digit c \<Longrightarrow> c \<noteq> CHR ''_'' \<and> c \<noteq> CHR ''-'' \<and> c \<noteq> CHR ''+''"
  by (auto simp: is_digit_def)

lemma int_text_str:
  assumes "length (digits_of (nat \<bar>i\<bar>)) \<le> int_max_str_digits"
  shows "int_text (str_int i) = Some i"
proof -
  let ?ds = "digits_of (nat \<bar>i\<bar>)"
  have ds: "digits_value ?ds = \<bar>i\<bar>" "list_all is_digit ?ds" "?ds \<noteq> []" using digits_of_value [of "nat \<bar>i\<bar>"] by auto
  have hd: "is_digit (hd ?ds)" and last: "is_digit (last ?ds)" using ds(2,3) by (auto simp: list_all_iff)
  have str: "str_int i = (if i < 0 then CHR ''-'' # ?ds else ?ds)" by (simp add: str_int_def)
  have "strip (str_int i) = str_int i"
    unfolding str using ds(3) hd last digit_not_space
    by (intro strip_solid) (auto simp: is_space_def [of "CHR ''-''"])
  moreover have "split_on (CHR ''_'') ?ds = [?ds]"
    using ds(2) digit_plain by (intro split_on_absent) (auto simp: list_all_iff)
  moreover have "hd ?ds \<noteq> CHR ''-'' \<and> hd ?ds \<noteq> CHR ''+''" using hd digit_plain by blast
  ultimately show ?thesis using ds assms unfolding str by (auto simp: int_text_def Let_def)
qed

section \<open>Metadata crosses the wire\<close>

definition fits_annotation :: "output_annotation \<Rightarrow> pyval \<Rightarrow> bool" where
  "fits_annotation a v =
     (case (a, v) of (StrOutput, PStr _) \<Rightarrow> True | (BoolOutput, PBool _) \<Rightarrow> True | (IntOutput, PInt _) \<Rightarrow> True | _ \<Rightarrow> False)"

lemma metadata_decoded:
  assumes "encode_http_metadata v = Inr s" and "fits_annotation (ou_annotation out) v" and "ou_validator out v = Inr v"
  shows "decode_http_metadata float_of out s = Inr v"
proof -
  have s: "scalar_text v = Inr s" using assms(1) by (auto simp: encode_http_metadata_def bindE_Inr_iff split: if_splits)
  have "parsed_metadata float_of (ou_annotation out) s = Some v"
    using s assms(2) by (cases v; cases "ou_annotation out")
      (auto simp: scalar_text_def parsed_metadata_def fits_annotation_def int_text_str split: if_splits)
  then show ?thesis using assms(3) by (simp add: decode_http_metadata_def)
qed

text \<open>
  A boolean is an \<open>int\<close> for the validator of an \<open>int\<close> output, is written as \<open>true\<close> or \<open>false\<close>, and is
  no integer on its return.
\<close>

lemma boolean_for_int_refused:
  assumes "ou_annotation out = IntOutput"
  shows "\<exists>s. encode_http_metadata (PBool b) = Inr s \<and> Option.is_none (parsed_metadata float_of IntOutput s) \<and>
    isl (decode_http_metadata float_of out s)"
proof -
  let ?s = "if b then ''true'' else ''false''"
  have "encode_http_metadata (PBool b) = Inr ?s" by (simp add: encode_http_metadata_def scalar_text_def is_line_break_def)
  moreover have "int_text ''true'' = None" "int_text ''false'' = None" by code_simp+
  then have "parsed_metadata float_of IntOutput ?s = None" by (simp add: parsed_metadata_def)
  ultimately show ?thesis using assms by (auto simp: decode_http_metadata_def)
qed

definition lines_of :: "header_field list \<Rightarrow> header_lines" where
  "lines_of hs = response_headers (map (\<lambda>h. (hf_name h, hf_value h)) hs)"

lemma getall_lines: "getall (lines_of hs) name = map hf_value (filter (\<lambda>h. lower (hf_name h) = lower name) hs)"
  by (induction hs) (auto simp: lines_of_def getall_def response_headers_def)

lemma retained_Inr:
  "retained_header wire h = Inr hs \<Longrightarrow>
     hs = (if lower (hf_name h) \<in> set (map (lower \<circ> hh_name) (he_metadata wire)) then [] else [h])"
  by (auto simp: retained_header_def bindE_Inr_iff decode_ascii_def split: if_splits)

lemma retained_apart:
  assumes "mapE (retained_header wire) hs = Inr retained"
  shows "concat retained = filter (\<lambda>h. lower (hf_name h) \<notin> set (map (lower \<circ> hh_name) (he_metadata wire))) hs"
  using assms by (induction hs arbitrary: retained) (auto simp: bindE_Inr_iff dest!: retained_Inr)

lemma metadata_header_Inr:
  assumes "metadata_header known b = Inr hs"
  shows "case map_of known (ou_id (hh_output b)) of None \<Rightarrow> hs = []
    | Some v \<Rightarrow> \<exists>s. encode_http_metadata v = Inr s \<and> hs = [wire_header (hh_name b) s]"
  using assms by (auto simp: metadata_header_def bindE_Inr_iff encode_ascii_def split: option.splits if_splits)

lemma applied_names:
  assumes "mapE (metadata_header known) bs = Inr applied"
  shows "(lower \<circ> hf_name) ` set (concat applied) \<subseteq> set (map (lower \<circ> hh_name) bs)"
  using assms
proof (induction bs arbitrary: applied)
  case (Cons b bs)
  then obtain h hs where "metadata_header known b = Inr h" "mapE (metadata_header known) bs = Inr hs" "applied = h # hs"
    by (auto simp: bindE_Inr_iff)
  moreover have "(lower \<circ> hf_name) ` set h \<subseteq> {lower (hh_name b)}"
    using metadata_header_Inr [OF \<open>metadata_header known b = Inr h\<close>] by (auto simp: wire_header_def split: option.splits)
  moreover have "(lower \<circ> hf_name) ` set (concat hs) \<subseteq> set (map (lower \<circ> hh_name) bs)"
    by (rule Cons.IH) fact
  ultimately have "(lower \<circ> hf_name) ` (set h \<union> set (concat hs)) \<subseteq> insert (lower (hh_name b)) (set (map (lower \<circ> hh_name) bs))"
    unfolding image_Un by blast
  then show ?case using \<open>applied = h # hs\<close> by simp
qed simp

lemma filter_absent: "x \<notin> f ` set hs \<Longrightarrow> filter (\<lambda>h. f h = x) hs = []"
  by (induction hs) auto

lemma applied_values:
  assumes "mapE (metadata_header known) bs = Inr applied" and "distinct (map (lower \<circ> hh_name) bs)" and "b \<in> set bs"
    and "map_of known (ou_id (hh_output b)) = Some v"
  shows "\<exists>s. encode_http_metadata v = Inr s \<and>
    map hf_value (filter (\<lambda>h. lower (hf_name h) = lower (hh_name b)) (concat applied)) = [s]"
  using assms(1-3)
proof (induction bs arbitrary: applied)
  case (Cons c bs)
  then obtain h hs where *: "metadata_header known c = Inr h" "mapE (metadata_header known) bs = Inr hs" "applied = h # hs"
    by (auto simp: bindE_Inr_iff)
  show ?case
  proof (cases "b = c")
    case True
    then obtain s where s: "encode_http_metadata v = Inr s" "h = [wire_header (hh_name b) s]"
      using metadata_header_Inr [OF *(1)] assms(4) by auto
    have "lower (hh_name b) \<notin> (lower \<circ> hf_name) ` set (concat hs)"
      using applied_names [OF *(2)] Cons.prems(2) True by auto
    then have "filter (\<lambda>h. (lower \<circ> hf_name) h = lower (hh_name b)) (concat hs) = []" by (rule filter_absent)
    then show ?thesis using s *(3) by (simp add: wire_header_def)
  next
    case False
    then have mem: "b \<in> set bs" using Cons.prems(3) by simp
    then have differ: "lower (hh_name c) \<noteq> lower (hh_name b)" using Cons.prems(2) by force
    have "filter (\<lambda>h. lower (hf_name h) = lower (hh_name b)) h = []"
      using metadata_header_Inr [OF *(1)] differ by (auto simp: wire_header_def split: option.splits)
    then show ?thesis using Cons.IH [OF *(2)] Cons.prems(2) mem *(3) by simp
  qed
qed simp

lemma header_reads_metadata:
  assumes "apply_metadata_headers hs wire outs = Inr hs'" and "distinct (map (lower \<circ> hh_name) (he_metadata wire))"
    and "b \<in> set (he_metadata wire)" and "map_of (output_values outs) (ou_id (hh_output b)) = Some v"
  shows "\<exists>s. encode_http_metadata v = Inr s \<and> header_get (lines_of hs') (hh_name b) = Some s"
proof -
  from assms(1) obtain retained applied where *: "mapE (retained_header wire) hs = Inr retained"
    "mapE (metadata_header (output_values outs)) (he_metadata wire) = Inr applied" "hs' = concat retained @ concat applied"
    by (auto simp: apply_metadata_headers_def bindE_Inr_iff)
  have "filter (\<lambda>h. lower (hf_name h) = lower (hh_name b)) (concat retained) = []"
    unfolding retained_apart [OF *(1)] using assms(3) by (auto simp: filter_empty_conv)
  moreover from applied_values [OF *(2) assms(2-4)] obtain s where s: "encode_http_metadata v = Inr s"
    "map hf_value (filter (\<lambda>h. lower (hf_name h) = lower (hh_name b)) (concat applied)) = [s]"
    by (elim exE conjE)
  ultimately have "getall (lines_of hs') (hh_name b) = [s]"
    unfolding getall_lines *(3) filter_append map_append by simp
  then show ?thesis using s(1) by (simp add: header_get_def getitem_def)
qed

lemma validate_slots_distinct: "validate_slots seen ps = Inr () \<Longrightarrow> distinct (map fst ps) \<and> set seen \<inter> set (map fst ps) = {}"
  by (induction seen ps rule: validate_slots.induct) (auto split: if_splits)

lemma checked_names:
  assumes "new_http_encrypted wire = Inr wire'"
  shows "distinct (map (lower \<circ> hh_name) (he_metadata wire))"
proof -
  have "validate_slots [] (map (\<lambda>b. (lower (hh_name b), py_repr (hh_name b))) (he_metadata wire)) = Inr ()"
    using assms by (auto simp: new_http_encrypted_def validate_http_bindings_def bindE_Inr_iff split: if_splits)
  then show ?thesis using validate_slots_distinct by (fastforce simp: comp_def)
qed

lemma metadata_loop:
  assumes "list_all (\<lambda>b. ou_id (hh_output b) \<in> set required \<longrightarrow>
      (\<exists>s. header_get hs (hh_name b) = Some s \<and> decode_http_metadata float_of (hh_output b) s = Inr (v b))) bs"
  shows "foldE (metadata_step float_of required hs) items bs =
    Inr (items @ map (\<lambda>b. (OutputId (ou_id (hh_output b)), v b)) (filter (\<lambda>b. ou_id (hh_output b) \<in> set required) bs))"
  using assms by (induction bs arbitrary: items) (auto simp: metadata_step_def)

definition carried_value :: "output_value list \<Rightarrow> http_crypto_header \<Rightarrow> pyval" where
  "carried_value outs b = the (map_of (output_values outs) (ou_id (hh_output b)))"

text \<open>An output that was collected, of a type the headers can carry, with a value its validator keeps.\<close>

definition carried :: "output_value list \<Rightarrow> http_crypto_header \<Rightarrow> bool" where
  "carried outs b \<longleftrightarrow>
     (case map_of (output_values outs) (ou_id (hh_output b)) of
        None \<Rightarrow> False
      | Some v \<Rightarrow> fits_annotation (ou_annotation (hh_output b)) v \<and>
          (case ou_validator (hh_output b) v of Inl _ \<Rightarrow> False | Inr v' \<Rightarrow> v' = v))"

lemma protected_applies:
  assumes "protect_http_request ctx k wire r st = (Inr r', st')" and "pf_outbound (kc_profile k) = Some b"
  shows "\<exists>hs. apply_metadata_headers hs wire (collected st') = Inr (pr_headers r')"
proof (cases "ob_encoded b")
  case None
  then show ?thesis using assms
    by (auto simp: protect_http_request_def liftS_def bindS_Inr_iff with_headers_def)
next
  case (Some e)
  then show ?thesis using assms
    by (auto simp: protect_http_request_def protect_encoded_def liftS_def bindS_Inr_iff with_content_def
        split: request_body.splits)
qed

text \<open>
  C35. What encryption reports reaches decryption, for text, booleans and integers. When the headers of a
  protected request come back, and each output decryption requires was reported with a value of exactly
  its annotation's type (\<open>str\<close>, \<open>bool\<close>, or \<open>int\<close> and no boolean) that its validator keeps as it is, then
  decryption finds for each of them exactly the value the encrypting algorithms reported, in the order
  of the bindings. A float depends on \<open>float\<close> and \<open>str\<close> of the standard library and is left out; a
  boolean reported for an \<open>int\<close> output is sent and then refused (\<open>boolean_for_int_refused\<close>).
\<close>

theorem metadata_crosses_the_wire:
  assumes "protect_http_request ctx k wire r st = (Inr r', st')" and "pf_outbound (kc_profile k) = Some b"
    and "new_http_encrypted wire = Inr wire"
    and "list_all (\<lambda>m. ou_id (hh_output m) \<in> set (required_metadata k) \<longrightarrow> carried (collected st') m) (he_metadata wire)"
  shows "context_with_http_metadata float_of c (lines_of (pr_headers r')) k wire =
    Inr (c\<lparr>xc_values := xc_values c @ map (\<lambda>m. (OutputId (ou_id (hh_output m)), carried_value (collected st') m))
      (filter (\<lambda>m. ou_id (hh_output m) \<in> set (required_metadata k)) (he_metadata wire))\<rparr>)"
proof -
  obtain hs where applied: "apply_metadata_headers hs wire (collected st') = Inr (pr_headers r')"
    using protected_applies [OF assms(1,2)] by blast
  have "list_all (\<lambda>m. ou_id (hh_output m) \<in> set (required_metadata k) \<longrightarrow>
      (\<exists>s. header_get (lines_of (pr_headers r')) (hh_name m) = Some s \<and>
           decode_http_metadata float_of (hh_output m) s = Inr (carried_value (collected st') m))) (he_metadata wire)"
    unfolding list_all_iff
  proof (intro ballI impI)
    fix m assume m: "m \<in> set (he_metadata wire)" "ou_id (hh_output m) \<in> set (required_metadata k)"
    then have "carried (collected st') m" using assms(4) by (simp add: list_all_iff)
    then obtain v where v: "map_of (output_values (collected st')) (ou_id (hh_output m)) = Some v"
      "fits_annotation (ou_annotation (hh_output m)) v" "ou_validator (hh_output m) v = Inr v"
      by (auto simp: carried_def split: option.splits sum.splits)
    obtain s where s: "encode_http_metadata v = Inr s" "header_get (lines_of (pr_headers r')) (hh_name m) = Some s"
      using header_reads_metadata [OF applied checked_names [OF assms(3)] m(1) v(1)] by blast
    then show "\<exists>s. header_get (lines_of (pr_headers r')) (hh_name m) = Some s \<and>
        decode_http_metadata float_of (hh_output m) s = Inr (carried_value (collected st') m)"
      using metadata_decoded [OF s(1) v(2,3)] v(1) by (auto simp: carried_value_def)
  qed
  then show ?thesis by (simp add: context_with_http_metadata_def metadata_loop)
qed

section \<open>Framing and downgrade\<close>

lemma lowered:
  "lower ''Content-Type'' = ''content-type''" "lower ''Content-Length'' = ''content-length''"
  "lower ''content-type'' = ''content-type''" "lower ''X-Count'' = ''x-count''" "lower ''x-count'' = ''x-count''"
  "lower ''application/seal'' = ''application/seal''"
  by code_simp+

lemma applied_plain:
  assumes "mapE (metadata_header known) bs = Inr applied" and "list_all (\<lambda>b. lower (hh_name b) \<notin> set ns) bs"
  shows "filter (\<lambda>h. lower (hf_name h) \<in> set ns) (concat applied) = []"
proof -
  have "lower (hf_name h) \<notin> set ns" if "h \<in> set (concat applied)" for h
  proof -
    have "lower (hf_name h) \<in> set (map (lower \<circ> hh_name) bs)" using applied_names [OF assms(1)] that by fastforce
    then show ?thesis using assms(2) by (auto simp: list_all_iff)
  qed
  then show ?thesis by (auto simp: filter_empty_conv)
qed

lemma representation_kept:
  assumes "apply_metadata_headers hs wire outs = Inr hs'"
    and "list_all (\<lambda>b. lower (hh_name b) \<notin> set ns) (he_metadata wire)"
  shows "filter (\<lambda>h. lower (hf_name h) \<in> set ns) hs' = filter (\<lambda>h. lower (hf_name h) \<in> set ns) hs"
proof -
  from assms(1) obtain retained applied where *: "mapE (retained_header wire) hs = Inr retained"
    "mapE (metadata_header (output_values outs)) (he_metadata wire) = Inr applied" "hs' = concat retained @ concat applied"
    by (auto simp: apply_metadata_headers_def bindE_Inr_iff)
  have "filter (\<lambda>h. lower (hf_name h) \<in> set ns) (concat retained) = filter (\<lambda>h. lower (hf_name h) \<in> set ns) hs"
    unfolding retained_apart [OF *(1)] using assms(2) by (auto simp: list_all_iff intro!: filter_cong)
  then show ?thesis using applied_plain [OF *(2) assms(2)] by (simp add: *(3))
qed

text \<open>
  A request whose payload is encrypted as a whole leaves with the bytes the algorithm returned, within its limits,
  and with exactly one \<open>Content-Type\<close> and one \<open>Content-Length\<close>, which describe those bytes.
\<close>

lemma protected_request_is_framed:
  assumes "protect_http_request ctx k wire r st = (Inr r', st')"
    and "pf_outbound (kc_profile k) = Some b" and "ob_encoded b = Some e"
    and "list_all (\<lambda>m. lower (hh_name m) \<notin> set representation_names) (he_metadata wire)"
  shows "\<exists>name content. pr_body r' = BufferedBody content (Some (he_content_type wire)) \<and>
     call_algorithm (al_encrypt (ee_using e)) (at_path ctx name None) (BytesV (bb_content (pr_body r))) (ee_outputs e) st =
       (Inr (BytesV content), st') \<and>
     within_limit content (ee_max_output e) \<and>
     filter (\<lambda>h. lower (hf_name h) \<in> set representation_names) (pr_headers r') =
       [wire_header ''Content-Type'' (he_content_type wire),
        wire_header ''Content-Length'' (str_int (int (length content)))]"
proof -
  from assms(1-3) obtain plain t where body: "pr_body r = BufferedBody plain t"
    and enc: "protect_encoded ctx e wire r plain st = (Inr r', st')"
    by (auto simp: protect_http_request_def split: request_body.splits)
  from enc obtain content hs hs' where *: "encrypt_bytes ctx plain e st = (Inr content, st')"
    "replace_representation_headers (pr_headers r) (he_content_type wire) (length content) = Inr hs"
    "apply_metadata_headers hs wire (collected st') = Inr hs'" "r' = with_content content (he_content_type wire) hs' r"
    by (auto simp: protect_encoded_def liftS_def bindS_Inr_iff)
  from *(1) obtain name where name:
    "call_algorithm (al_encrypt (ee_using e)) (at_path ctx name None) (BytesV plain) (ee_outputs e) st = (Inr (BytesV content), st')"
    "within_limit content (ee_max_output e)"
    by (rule encrypt_bytes_Inr)
  have hs: "hs = filter (\<lambda>h. lower (hf_name h) \<notin> set representation_names) (pr_headers r) @
      [wire_header ''Content-Type'' (he_content_type wire), wire_header ''Content-Length'' (str_int (int (length content)))]"
    using *(2) by (auto simp: replace_representation_headers_def encode_ascii_def bindE_Inr_iff split: if_splits)
  have "filter (\<lambda>h. lower (hf_name h) \<in> set representation_names) hs' =
      [wire_header ''Content-Type'' (he_content_type wire), wire_header ''Content-Length'' (str_int (int (length content)))]"
    unfolding representation_kept [OF *(3) assms(4)] hs
    by (auto simp: lowered wire_header_def representation_names_def filter_empty_conv)
  then show ?thesis using name body *(4) by (auto simp: with_content_def)
qed

lemma unprotect_fields_Inr:
  assumes "unprotect_fields dump ctx fs resp (content, effective, True) st = (Inr (out, effective', t), st')"
  shows "effective' = effective \<and> t \<and>
    (if fs = [] then out = content \<and> st' = st
     else is_json_media_type (effective_or effective (content_type_of resp)) = Inr True \<and>
       (\<exists>document clear. decoded_document resp content = Inr document \<and>
          decrypt_document ctx document fs st = (Inr clear, st') \<and> dump (thaw_value clear) = Inr out))"
  using assms
  by (auto simp: unprotect_fields_def liftS_def bindS_Inr_iff Let_def map_sum_Inr_iff split: if_splits)

text \<open>
  C34. No downgrade. Under a profile that decrypts whole payloads, with or without fields to decrypt inside,
  a response whose status is not one that may be plain is only accepted as the encrypted type, and its
  bytes went through the decryptor, within its limits. The body handed on is what the decryptor returned,
  or, where the profile decrypts fields too, the JSON document of that with its fields decrypted after it;
  the bytes on the wire are kept.
\<close>

theorem no_plaintext_accepted:
  assumes "unprotect_http_response float_of dump ctx k wire r w = (Inr r', st')"
    and "pf_inbound (kc_profile k) = Some b" and "ib_encoded b = Some d"
    and "cx_status (px_response r) \<notin> set (he_plaintext_statuses wire)"
  shows "content_type_of (px_response r) = Some (bare_media (he_content_type wire)) \<and>
    (\<exists>ctx' name content st.
       context_with_http_metadata float_of ctx (cx_headers (px_response r)) k wire = Inr ctx' \<and>
       call_algorithm (al_decrypt (de_using d)) (at_path ctx' name None) (BytesV (cx_body (px_response r))) [] (None, w) =
         (Inr (BytesV content), st) \<and>
       within_limit (cx_body (px_response r)) (de_max_input d) \<and> within_limit content (de_max_output d) \<and>
       (if kc_inbound k = [] then cx_body (px_response r') = content \<and> st' = st
        else \<exists>document clear. decoded_document (px_response r) content = Inr document \<and>
          decrypt_document ctx' document (kc_inbound k) st = (Inr clear, st') \<and>
          dump (thaw_value clear) = Inr (cx_body (px_response r')))) \<and>
    cx_effective (px_response r') = Some (he_clear_content_type wire) \<and>
    px_wire_body r' = Some (case px_wire_body r of Some x \<Rightarrow> x | None \<Rightarrow> cx_body (px_response r))"
proof -
  let ?resp = "px_response r"
  from assms obtain ctx' content st out effective t where
    type: "content_type_of ?resp = Some (bare_media (he_content_type wire))"
    and ctx: "context_with_http_metadata float_of ctx (cx_headers ?resp) k wire = Inr ctx'"
    and bytes: "decrypt_bytes ctx' (cx_body ?resp) d (None, w) = (Inr content, st)"
    and fs: "unprotect_fields dump ctx' (kc_inbound k) ?resp (content, Some (he_clear_content_type wire), True) st =
      (Inr (out, effective, t), st')"
    and r': "(if \<not> t then r else r\<lparr>px_response := ?resp\<lparr>cx_body := out, cx_effective := effective\<rparr>,
            px_wire_body := Some (case px_wire_body r of Some x \<Rightarrow> x | None \<Rightarrow> cx_body ?resp),
            px_wire_headers := Some (case px_wire_headers r of Some x \<Rightarrow> x | None \<Rightarrow> cx_headers ?resp)\<rparr>) = r'"
    by (auto simp: unprotect_http_response_def unprotect_encoded_def liftS_def bindS_Inr_iff Let_def split: if_splits)
  note field = unprotect_fields_Inr [OF fs]
  from bytes obtain name where call: "within_limit (cx_body ?resp) (de_max_input d)" "within_limit content (de_max_output d)"
    "call_algorithm (al_decrypt (de_using d)) (at_path ctx' name None) (BytesV (cx_body ?resp)) [] (None, w) =
      (Inr (BytesV content), st)"
    by (rule decrypt_bytes_Inr)
  from r' field have out: "cx_body (px_response r') = out" "cx_effective (px_response r') = Some (he_clear_content_type wire)"
    "px_wire_body r' = Some (case px_wire_body r of Some x \<Rightarrow> x | None \<Rightarrow> cx_body ?resp)" by auto
  show ?thesis
    by (rule conjI [OF type], rule conjI, rule exI [of _ ctx'], rule exI [of _ name], rule exI [of _ content], rule exI [of _ st])
      (use call out ctx field in \<open>simp_all split: if_splits\<close>)
qed

section \<open>Examples\<close>

definition sealed_output :: crypto_output where
  "sealed_output = \<lparr>ou_id = 4, ou_name = ''count'', ou_annotation = IntOutput, ou_validator = Inr, ou_secret = False\<rparr>"

definition seal :: "nat algorithm" where
  "seal = \<lparr>al_id = 3, al_name = Some ''seal'',
     al_encrypt = Some (\<lambda>ctx v n. case v of
        BytesV s \<Rightarrow> (Some (CryptoResult (BytesV (CHR ''#'' # s)) [\<lparr>ov_output = sealed_output, ov_value = PInt (int n)\<rparr>]), Suc n)
      | _ \<Rightarrow> (None, n)),
     al_decrypt = Some shift_decrypt, al_encrypt_async = False, al_decrypt_async = False\<rparr>"

definition seal_encoded :: "nat encrypt_encoded" where
  "seal_encoded = \<lparr>ee_using = seal, ee_max_input = None, ee_max_output = Some 10, ee_outputs = [sealed_output]\<rparr>"

definition unseal_encoded :: "nat decrypt_encoded" where
  "unseal_encoded = \<lparr>de_using = seal, de_max_input = Some 10, de_max_output = None, de_metadata = [sealed_output]\<rparr>"

definition sealed_compiled :: "nat compiled_crypto" where
  "sealed_compiled =
     \<lparr>kc_profile = \<lparr>pf_name = ''sealed'', pf_outbound = Some \<lparr>ob_fields = [], ob_encoded = Some seal_encoded\<rparr>,
        pf_inbound = Some \<lparr>ib_fields = [], ib_encoded = Some unseal_encoded\<rparr>, pf_inputs = []\<rparr>,
      kc_outbound = [], kc_inbound = []\<rparr>"

definition sealed_wire :: http_encrypted where
  "sealed_wire =
     \<lparr>he_content_type = ''application/seal'', he_clear_content_type = ''application/json'', he_plaintext_statuses = [502],
      he_metadata = [\<lparr>hh_output = sealed_output, hh_name = ''X-Count''\<rparr>]\<rparr>"

definition clear_request :: crypto_request where
  "clear_request =
     \<lparr>pr_method = ''POST'', pr_scheme = ''https'', pr_authority = ''a.b'', pr_target = ''/'',
      pr_headers = [wire_header ''content-type'' ''application/json'', wire_header ''x-count'' ''forged''],
      pr_body = BufferedBody ''{}'' (Some ''application/json''), pr_reserved = [], pr_view = None, cq_input = OtherInput\<rparr>"

definition sealed_request :: crypto_request where
  "sealed_request = clear_request\<lparr>pr_headers := [wire_header ''Content-Type'' ''application/seal'',
       wire_header ''Content-Length'' ''3'', wire_header ''X-Count'' ''7''],
     pr_body := BufferedBody ''#{}'' (Some ''application/seal''), cq_input := ExactInput ''#{}'' (Some ''application/seal'')\<rparr>"

definition sealed_state :: "nat stage" where
  "sealed_state = (Some [\<lparr>ov_output = sealed_output, ov_value = PInt 7\<rparr>], 8)"

lemma sealed_call:
  "call_algorithm (al_encrypt seal) ctx (BytesV ''{}'') [sealed_output] (Some [], 7) = (Inr (BytesV ''#{}''), sealed_state)"
  by (simp add: call_algorithm_def seal_def collect_result_def check_alg_output_def sealed_output_def output_ids_def sealed_state_def)

lemma small_digits: "digits_of 7 = ''7''" "digits_of 3 = ''3''"
  by code_simp+

lemma sealed_protects:
  "protect_http_request order_context sealed_compiled sealed_wire clear_request (Some [], 7) = (Inr sealed_request, sealed_state)"
proof -
  have bytes: "encrypt_bytes order_context ''{}'' seal_encoded (Some [], 7) = (Inr ''#{}'', sealed_state)"
  proof -
    have name: "algorithm_name seal = Inr ''seal''" by (simp add: algorithm_name_def seal_def)
    show ?thesis
      by (simp add: encrypt_bytes_def liftS_def check_limit_def seal_encoded_def name bytes_result_def sealed_call)
  qed
  have headers: "replace_representation_headers (pr_headers clear_request) ''application/seal'' 3 =
      Inr [wire_header ''x-count'' ''forged'', wire_header ''Content-Type'' ''application/seal'', wire_header ''Content-Length'' ''3'']"
    by (simp add: replace_representation_headers_def clear_request_def wire_header_def representation_names_def
        encode_ascii_def lowered str_int_def small_digits)
  have applied: "apply_metadata_headers [wire_header ''x-count'' ''forged'', wire_header ''Content-Type'' ''application/seal'',
      wire_header ''Content-Length'' ''3''] sealed_wire (collected sealed_state) =
      Inr [wire_header ''Content-Type'' ''application/seal'', wire_header ''Content-Length'' ''3'', wire_header ''X-Count'' ''7'']"
    by (simp add: apply_metadata_headers_def retained_header_def metadata_header_def wire_header_def sealed_wire_def
        sealed_state_def collected_def output_values_def dict_of_def sealed_output_def encode_ascii_def decode_ascii_def
        encode_http_metadata_def scalar_text_def str_int_def small_digits int_max_str_digits_def is_line_break_def lowered)
  have "protect_encoded order_context seal_encoded sealed_wire clear_request ''{}'' (Some [], 7) = (Inr sealed_request, sealed_state)"
    using headers applied bytes
  proof -
    have type: "he_content_type sealed_wire = ''application/seal''" by (simp add: sealed_wire_def)
    have ascii: "encode_ascii ''application/seal'' = Inr ''application/seal''" by (simp add: encode_ascii_def)
    have written: "with_content ''#{}'' ''application/seal'' (pr_headers sealed_request) clear_request = sealed_request"
      by (simp add: with_content_def sealed_request_def clear_request_def)
    show ?thesis using headers [unfolded numeral_3_eq_3] applied bytes written
      by (simp add: protect_encoded_def liftS_def type ascii sealed_request_def)
  qed
  then show ?thesis by (simp add: protect_http_request_def sealed_compiled_def clear_request_def)
qed

lemma sealed_wire_accepted: "new_http_encrypted sealed_wire = Inr sealed_wire"
  by (simp add: new_http_encrypted_def sealed_wire_def validate_media_type_def validate_http_bindings_def output_identity_def is_space_def)

lemma metadata_crosses_the_wire_witness:
  "context_with_http_metadata (\<lambda>_. None) order_context (lines_of (pr_headers sealed_request)) sealed_compiled sealed_wire =
     Inr (order_context\<lparr>xc_values := [(OutputId 4, PInt 7)]\<rparr>)"
proof -
  have "list_all (\<lambda>m. ou_id (hh_output m) \<in> set (required_metadata sealed_compiled) \<longrightarrow> carried (collected sealed_state) m)
      (he_metadata sealed_wire)"
    by (simp add: sealed_wire_def carried_def collected_def sealed_state_def output_values_def dict_of_def sealed_output_def
        fits_annotation_def)
  from metadata_crosses_the_wire [OF sealed_protects _ sealed_wire_accepted this, of _ "\<lambda>_. None" order_context] show ?thesis
    by (simp add: sealed_compiled_def required_metadata_def unseal_encoded_def sealed_wire_def carried_value_def collected_def
        sealed_state_def output_values_def dict_of_def sealed_output_def order_context_def)
qed

lemma protected_request_is_framed_witness:
  "\<exists>name content. pr_body sealed_request = BufferedBody content (Some (he_content_type sealed_wire)) \<and>
     call_algorithm (al_encrypt seal) (at_path order_context name None) (BytesV ''{}'') [sealed_output] (Some [], 7) =
       (Inr (BytesV content), sealed_state) \<and>
     within_limit content (Some 10) \<and>
     filter (\<lambda>h. lower (hf_name h) \<in> set representation_names) (pr_headers sealed_request) =
       [wire_header ''Content-Type'' (he_content_type sealed_wire),
        wire_header ''Content-Length'' (str_int (int (length content)))]"
proof -
  have "list_all (\<lambda>m. lower (hh_name m) \<notin> set representation_names) (he_metadata sealed_wire)"
    by (simp add: sealed_wire_def representation_names_def lowered)
  from protected_request_is_framed [OF sealed_protects _ _ this, of "\<lparr>ob_fields = [], ob_encoded = Some seal_encoded\<rparr>" seal_encoded]
  show ?thesis by (simp add: sealed_compiled_def seal_encoded_def clear_request_def)
qed

definition sealed_response :: crypto_response where
  "sealed_response =
     \<lparr>px_response = \<lparr>cx_status = 200, cx_url = '''', cx_headers = lines_of (pr_headers sealed_request), cx_body = ''#{}'',
        cx_effective = None, cx_decode = \<lambda>_. Inr, cx_loads = \<lambda>_. Inr PNone, cx_morsels = \<lambda>_. Inr [], cx_resolve = \<lambda>_ _. None\<rparr>,
      px_wire_body = None, px_wire_headers = None\<rparr>"

definition opened_response :: crypto_response where
  "opened_response = sealed_response\<lparr>px_response := (px_response sealed_response)\<lparr>cx_body := ''{}'', cx_effective := Some ''application/json''\<rparr>,
     px_wire_body := Some ''#{}'', px_wire_headers := Some (lines_of (pr_headers sealed_request))\<rparr>"

lemma sealed_type: "content_type_of (px_response sealed_response) = Some ''application/seal''"
  by (simp add: content_type_of_def sealed_response_def header_get_def getitem_def getall_lines sealed_request_def
      wire_header_def lowered bare_media_def strip_def lstrip_if_def rstrip_if_def is_space_def)

lemma sealed_opens:
  "unprotect_http_response (\<lambda>_. None) (\<lambda>_. Inr []) order_context sealed_compiled sealed_wire sealed_response 8 =
     (Inr opened_response, (None, 8))"
proof -
  have resp: "cx_headers (px_response sealed_response) = lines_of (pr_headers sealed_request)"
    "cx_body (px_response sealed_response) = ''#{}''" "cx_status (px_response sealed_response) = 200"
    by (simp_all add: sealed_response_def)
  have type: "bare_media (he_content_type sealed_wire) = ''application/seal''"
    by (simp add: sealed_wire_def bare_media_def strip_def lstrip_if_def rstrip_if_def is_space_def lowered)
  have ctx: "context_with_http_metadata (\<lambda>_. None) order_context (lines_of (pr_headers sealed_request)) sealed_compiled sealed_wire =
      Inr (order_context\<lparr>xc_values := [(OutputId 4, PInt 7)]\<rparr>)"
    by (simp add: context_with_http_metadata_def required_metadata_def sealed_compiled_def unseal_encoded_def sealed_wire_def
        metadata_step_def header_get_def getitem_def getall_lines sealed_request_def wire_header_def lowered
        decode_http_metadata_def parsed_metadata_def sealed_output_def int_text_def strip_def lstrip_if_def rstrip_if_def
        is_space_def is_digit_def digits_value_def int_max_str_digits_def order_context_def)
  have bytes: "decrypt_bytes c ''#{}'' unseal_encoded (None, 8) = (Inr ''{}'', (None, 8))" for c
    by (simp add: decrypt_bytes_def liftS_def check_limit_def unseal_encoded_def algorithm_name_def bytes_result_def
        call_algorithm_def seal_def shift_decrypt_def collect_result_def)
  show ?thesis
    using resp type ctx bytes sealed_type
    by (simp add: unprotect_http_response_def liftS_def unprotect_encoded_def unprotect_fields_def sealed_compiled_def
        opened_response_def sealed_wire_def)
      (simp add: sealed_response_def)
qed

lemma no_plaintext_accepted_witness:
  "content_type_of (px_response sealed_response) = Some (bare_media (he_content_type sealed_wire)) \<and>
    (\<exists>c. call_algorithm (al_decrypt seal) c (BytesV ''#{}'') [] (None, 8) = (Inr (BytesV ''{}''), (None, 8))) \<and>
    within_limit ''#{}'' (Some 10) \<and> within_limit ''{}'' None \<and> px_wire_body opened_response = Some ''#{}''"
  using no_plaintext_accepted [OF sealed_opens, of "\<lparr>ib_fields = [], ib_encoded = Some unseal_encoded\<rparr>" unseal_encoded]
  by (auto simp: sealed_compiled_def unseal_encoded_def sealed_wire_def sealed_response_def opened_response_def)

end
