(* ===== verification/Protection.thy ===== *)
theory Protection
  imports Compiler Attempts Crypto
begin

text \<open>
  What a protection declares and what its solution writes (\<open>protection/advanced.py\<close>,
  \<open>protection/guard.py\<close>): transport identities, solvers, managed targets, policies and bundles,
  guards and the solutions they build, and the patch a solution becomes.

  Requirements, solvers, signals and operations compare by identity, which a number stands for. A
  solution is of any type; what can be read of it is a parameter. The type checks of the constructors
  are the types here.
\<close>

section \<open>Transport identity\<close>

record transport_identity =
  ti_user_agent :: "string option"
  ti_proxy :: "string option"
  ti_impersonation :: "string option"

text \<open>\<open>fingerprint\<close>: what is digested, component by component; the digest is a parameter.\<close>

definition identity_component :: "(string \<Rightarrow> string) \<Rightarrow> string option \<Rightarrow> string" where
  "identity_component utf8 c = (case c of None \<Rightarrow> [CHR 0x00] | Some s \<Rightarrow> CHR 0x01 # utf8 s) @ [CHR 0x1F]"

definition identity_bytes :: "(string \<Rightarrow> string) \<Rightarrow> transport_identity \<Rightarrow> string" where
  "identity_bytes utf8 t =
     concat (map (identity_component utf8) [ti_user_agent t, ti_proxy t, ti_impersonation t])"

definition fingerprint_of :: "(string \<Rightarrow> string) \<Rightarrow> (string \<Rightarrow> string) \<Rightarrow> transport_identity \<Rightarrow> string" where
  "fingerprint_of utf8 sha256 t = sha256 (identity_bytes utf8 t)"

text \<open>\<open>_transport_identity\<close>: the first header called \<open>User-Agent\<close>, and what the handler declares.\<close>

definition transport_identity_of ::
  "string option \<Rightarrow> string option \<Rightarrow> (string, string) dict \<Rightarrow> transport_identity" where
  "transport_identity_of proxy impersonation hs =
     \<lparr>ti_user_agent = map_option snd (find (\<lambda>(n, _). lower n = ''user-agent'') hs), ti_proxy = proxy,
      ti_impersonation = impersonation\<rparr>"

text \<open>\<open>_slot_headers\<close>: the header values bound so far, as text.\<close>

definition slot_header :: "(pyval \<Rightarrow> string) \<Rightarrow> op_values \<Rightarrow> string \<times> value_slot \<Rightarrow> sdk_error + (string \<times> string) list" where
  "slot_header str ov ns =
     bindE (contains_slot ov (snd ns)) (\<lambda>present.
       if \<not> present then Inr []
       else bindE (require_slot ov (snd ns)) (\<lambda>v.
         Inr (case v of
                PTuple xs \<Rightarrow> [(fst ns, join '', '' (map str xs))]
              | PNone \<Rightarrow> []
              | _ \<Rightarrow> [(fst ns, str v)])))"

definition slot_headers :: "(pyval \<Rightarrow> string) \<Rightarrow> (string, value_slot) dict \<Rightarrow> op_values \<Rightarrow> sdk_error + (string, string) dict" where
  "slot_headers str slots ov = map_sum id concat (mapE (slot_header str ov) slots)"

text \<open>\<open>SolveContext.remaining\<close>, in microseconds.\<close>

definition remaining_budget :: "int option \<Rightarrow> int \<Rightarrow> int option" where
  "remaining_budget deadline now = map_option (\<lambda>d. max (d - now) 0) deadline"

section \<open>Solvers and flows\<close>

record solver_requirement =
  sr_id :: nat
  sr_name :: string

definition new_requirement :: "solver_requirement \<Rightarrow> sdk_error + solver_requirement" where
  "new_requirement r =
     (if sr_name r = [] then Inl (PyValueError ''solver requirement name must not be empty'') else Inr r)"

text \<open>\<open>SolverBindings\<close>: the bound solvers by the identity of their requirement.\<close>

type_synonym solver_bindings = "(solver_requirement \<times> nat) list"

definition new_solver_bindings :: "solver_bindings \<Rightarrow> sdk_error + solver_bindings" where
  "new_solver_bindings bs =
     (if distinct (map (sr_id \<circ> fst) bs) then Inr bs
      else Inl (PyValueError ''a solver requirement can be bound only once''))"

definition solver_for :: "solver_bindings \<Rightarrow> solver_requirement \<Rightarrow> nat option" where
  "solver_for bs r = map_option snd (find (\<lambda>b. sr_id (fst b) = sr_id r) bs)"

record protection_flow =
  fl_requirement :: solver_requirement
  fl_acquire :: nat
  fl_solve :: bool
  fl_verify :: "nat option"

section \<open>Managed targets\<close>

definition new_private_target :: "private_target \<Rightarrow> sdk_error + private_target" where
  "new_private_target t =
     (case t of
        PrivateBinding l n f \<Rightarrow>
          if n = [] then Inl (PyValueError ''private binding target name must not be empty'')
          else if f = Some [] then Inl (PyValueError ''private binding source field must not be empty'')
          else Inr t
      | PrivateCookieSet f nf vf \<Rightarrow>
          if f = [] \<or> nf = [] \<or> vf = [] then Inl (PyValueError ''private cookie-set fields must not be empty'') else Inr t)"

definition new_private_bindings :: "private_target list \<Rightarrow> sdk_error + private_target list" where
  "new_private_bindings ts =
     (if ts = [] then Inl (PyValueError ''private bindings require at least one target'')
      else if \<not> distinct ts then Inl (PyValueError ''private binding targets must be unique'')
      else Inr ts)"

text \<open>
  \<open>solution_fields\<close>: public destination names to the fields of a solution. The error of an application
  without targets is a \<open>PlanError\<close>.
\<close>

definition destination_targets ::
  "request_location \<Rightarrow> (string, string option) dict option \<Rightarrow> sdk_error + private_target list" where
  "destination_targets l wanted =
     (case wanted of
        None \<Rightarrow> Inr []
      | Some d \<Rightarrow> mapE (\<lambda>(n, f). new_private_target (PrivateBinding l n f)) d)"

definition solution_fields ::
  "(string, string option) dict option \<Rightarrow> (string, string option) dict option \<Rightarrow> (string, string option) dict option \<Rightarrow>
     (string, string option) dict option \<Rightarrow> private_target option \<Rightarrow> sdk_error + private_target list" where
  "solution_fields hs qs cs bs cookie_set =
     bindE (destination_targets HeaderL hs) (\<lambda>a.
     bindE (destination_targets QueryL qs) (\<lambda>b.
     bindE (destination_targets CookieL cs) (\<lambda>c.
     bindE (destination_targets BodyL bs) (\<lambda>d.
       let ts = a @ b @ c @ d @ (case cookie_set of Some t \<Rightarrow> [t] | None \<Rightarrow> []) in
       if ts = [] then Inl (PlanError ''solution_fields requires at least one declared destination'')
       else new_private_bindings ts))))"

section \<open>What a solution writes\<close>

text \<open>\<open>_select_solution\<close> on a value: the key of a mapping, or an attribute.\<close>

definition select_solution :: "(pyval \<Rightarrow> string \<Rightarrow> pyval option) \<Rightarrow> pyval \<Rightarrow> string option \<Rightarrow> sdk_error + pyval" where
  "select_solution attr solution field_name =
     (case field_name of
        None \<Rightarrow> Inr solution
      | Some f \<Rightarrow>
          (case (case solution of PDict d \<Rightarrow> map_of d f | _ \<Rightarrow> attr solution f) of
             Some v \<Rightarrow> Inr v
           | None \<Rightarrow> Inl (PlanError (''solution field is missing: '' @ f))))"

text \<open>The items of an iterable that is no text; a mapping is iterated by its keys.\<close>

definition iterable_items :: "pyval \<Rightarrow> pyval list option" where
  "iterable_items v =
     (case v of PTuple xs \<Rightarrow> Some xs | PList xs \<Rightarrow> Some xs | PDict d \<Rightarrow> Some (map (PStr \<circ> fst) d) | _ \<Rightarrow> None)"

definition header_break :: "char \<Rightarrow> bool" where
  "header_break c \<longleftrightarrow> c = CHR 13 \<or> c = CHR 10 \<or> c = CHR 0x00"

definition name_break :: "char \<Rightarrow> bool" where
  "name_break c \<longleftrightarrow> header_break c \<or> c = CHR '';'' \<or> c = CHR ''='' \<or> c = CHR '' ''"

text \<open>
  What the patch reads of the compiled operation: the names of its cookies but the managed sets (by the
  descriptors after the writers' pass, which hold the managed ones), and the slots reserved for managed
  targets.
\<close>

record private_places =
  pv_fixed_cookies :: "string list"
  pv_slots :: "(private_target, value_slot) dict"

definition private_places_of :: "compiled_contract \<Rightarrow> private_places" where
  "private_places_of cc =
     \<lparr>pv_fixed_cookies = map fst (filter (\<lambda>(n, s).
        case map_of (ly_descriptors (wp_layout (cc_writers cc))) (slot_id s) of Some ManagedCookies \<Rightarrow> False | _ \<Rightarrow> True)
        (cc_groups cc CookieL)),
      pv_slots = wp_private (cc_writers cc)\<rparr>"

definition cookie_item ::
  "(pyval \<Rightarrow> string \<Rightarrow> pyval option) \<Rightarrow> string list \<Rightarrow> string \<Rightarrow> string \<Rightarrow> (string \<times> string) list \<Rightarrow> pyval \<Rightarrow>
     sdk_error + (string \<times> string) list" where
  "cookie_item attr taken name_field value_field found item =
     bindE (select_solution attr item (Some name_field)) (\<lambda>n.
     bindE (select_solution attr item (Some value_field)) (\<lambda>v.
       case n of
         PStr (c # cs) \<Rightarrow>
           (let name = c # cs in
            case v of
              PStr x \<Rightarrow>
                if list_ex name_break name then Inl (PlanError ''private cookie-set item has an invalid name'')
                else if list_ex header_break x
                then Inl (PlanError (''private cookie '' @ py_repr name @ '' has an invalid value''))
                else if name \<in> set taken \<or> name \<in> fst ` set found
                then Inl (PlanError (''private cookie destination conflicts: '' @ py_repr name))
                else Inr (found @ [(name, x)])
            | _ \<Rightarrow> Inl (PlanError (''private cookie '' @ py_repr name @ '' value must be a string'')))
       | _ \<Rightarrow> Inl (PlanError ''private cookie-set item has an invalid name'')))"

definition cookie_pair :: "string \<times> string \<Rightarrow> pyval" where
  "cookie_pair c = PTuple [PStr (fst c), PStr (snd c)]"

text \<open>
  One target of \<open>_private_bindings_patch\<close>, with the names that dynamic sets took so far. \<open>chosen\<close> reads the
  solution, \<open>attr\<close> an item of a set, \<open>str\<close> is \<open>str\<close>.
\<close>

definition target_step ::
  "(string option \<Rightarrow> sdk_error + pyval) \<Rightarrow> (pyval \<Rightarrow> string \<Rightarrow> pyval option) \<Rightarrow> (pyval \<Rightarrow> string) \<Rightarrow> private_places \<Rightarrow>
     patch_op list \<times> string list \<Rightarrow> private_target \<Rightarrow> sdk_error + patch_op list \<times> string list" where
  "target_step chosen attr str places st target =
     (case map_of (pv_slots places) target of
        None \<Rightarrow> Inl (PlanError ''private binding target was not reserved by the compiler'')
      | Some slot \<Rightarrow>
          (case target of
             PrivateCookieSet f nf vf \<Rightarrow>
               bindE (chosen (Some f)) (\<lambda>raw.
                 case iterable_items raw of
                   None \<Rightarrow> Inl (PlanError ''private cookie-set source must be an iterable'')
                 | Some items \<Rightarrow>
                     bindE (foldE (cookie_item attr (pv_fixed_cookies places @ snd st) nf vf) [] items) (\<lambda>found.
                       Inr (fst st @ [SetOp slot (PTuple (map cookie_pair found)) CONFLICT_ERROR], snd st @ map fst found)))
           | PrivateBinding l n f \<Rightarrow>
               bindE (chosen f) (\<lambda>v.
                 if (l = HeaderL \<or> l = CookieL) \<and> list_ex header_break (str v)
                 then Inl (PlanError (''private '' @ location_text l @ '' '' @ py_repr n @ '' has an invalid value''))
                 else Inr (fst st @ [SetOp slot v CONFLICT_ERROR], snd st))))"

definition private_bindings_patch ::
  "(string option \<Rightarrow> sdk_error + pyval) \<Rightarrow> (pyval \<Rightarrow> string \<Rightarrow> pyval option) \<Rightarrow> (pyval \<Rightarrow> string) \<Rightarrow> private_places \<Rightarrow>
     private_target list \<Rightarrow> sdk_error + value_patch" where
  "private_bindings_patch chosen attr str places ts =
     map_sum id fst (foldE (target_step chosen attr str places) ([], []) ts)"

section \<open>Policies and bundles\<close>

datatype persistence_mode = PER_MATCH | PER_CALL | PER_ATTEMPT | UNTIL_EXPIRY | UNTIL_REJECTED

datatype state_scope = CLIENT_STATE | SESSION_STATE

record guard_signal =
  gs_id :: nat
  gs_name :: string
  gs_scope :: request_scope
  gs_priority :: int
  gs_definitive :: bool

record challenge_declaration =
  cd_identity :: string
  cd_revision :: int
  cd_scope :: request_scope
  cd_signal :: guard_signal
  cd_solver :: solver_requirement
  cd_apply :: "private_target list"
  cd_mode :: persistence_mode
  cd_state_scope :: state_scope
  cd_replay :: replay_rule
  cd_challenge_identity :: "(pyval \<Rightarrow> pyval) option"

definition new_challenge_policy :: "challenge_declaration \<Rightarrow> sdk_error + challenge_declaration" where
  "new_challenge_policy p =
     (if cd_identity p = [] then Inl (PyValueError ''challenge policy identity must not be empty'')
      else if cd_revision p < 1 then Inl (PyValueError ''challenge policy revision must be positive'')
      else if gs_scope (cd_signal p) \<noteq> cd_scope p then Inl (PyValueError ''challenge policy and signal scopes must match'')
      else Inr p)"

record before_declaration =
  bd_identity :: string
  bd_revision :: int
  bd_scope :: request_scope
  bd_acquire :: "nat option"
  bd_challenge :: "pyval option"
  bd_solver :: "solver_requirement option"
  bd_apply :: "private_target list"
  bd_mode :: persistence_mode
  bd_state_scope :: state_scope

definition new_before_policy :: "before_declaration \<Rightarrow> sdk_error + before_declaration" where
  "new_before_policy p =
     (if bd_identity p = [] then Inl (PyValueError ''before-call policy identity must not be empty'')
      else if bd_revision p < 1 then Inl (PyValueError ''before-call policy revision must be positive'')
      else let has_acquire = \<not> Option.is_none (bd_acquire p);
               has_solver = (\<not> Option.is_none (bd_challenge p) \<and> \<not> Option.is_none (bd_solver p)) in
        if has_acquire = has_solver
        then Inl (PyValueError ''before-call policy requires exactly one of acquire or challenge+solver'')
        else Inr p)"

record protection_bundle =
  bu_flows :: "protection_flow list"
  bu_before :: "before_declaration list"
  bu_challenges :: "challenge_declaration list"
  bu_solvers :: solver_bindings

definition bundle_identities :: "protection_bundle \<Rightarrow> string list" where
  "bundle_identities b = map bd_identity (bu_before b) @ map cd_identity (bu_challenges b)"

definition new_bundle :: "protection_bundle \<Rightarrow> sdk_error + protection_bundle" where
  "new_bundle b =
     bindE (new_solver_bindings (bu_solvers b)) (\<lambda>_.
       let duplicates = sort (remdups (filter (\<lambda>i. 1 < count_list (bundle_identities b) i) (bundle_identities b))) in
       if duplicates \<noteq> [] then Inl (PyValueError (''duplicate protection policy identity: '' @ join '', '' duplicates))
       else if \<not> distinct (map (sr_id \<circ> fl_requirement) (bu_flows b))
       then Inl (PyValueError ''duplicate operation protection requirement'')
       else Inr b)"

definition bundle_active :: "protection_bundle \<Rightarrow> bool" where
  "bundle_active b \<longleftrightarrow> bu_flows b \<noteq> [] \<or> bu_before b \<noteq> [] \<or> bu_challenges b \<noteq> []"

definition merge_bundles :: "protection_bundle list \<Rightarrow> sdk_error + protection_bundle" where
  "merge_bundles bs =
     new_bundle \<lparr>bu_flows = concat (map bu_flows bs), bu_before = concat (map bu_before bs),
       bu_challenges = concat (map bu_challenges bs), bu_solvers = concat (map bu_solvers bs)\<rparr>"

text \<open>\<open>_protection_identities\<close>: the policies named by guards, which are bundles here, and by names.\<close>

fun protection_identities :: "(protection_bundle + string) list \<Rightarrow> sdk_error + string list" where
  "protection_identities [] = Inr []"
| "protection_identities (Inr n # rest) =
     (if n = [] then Inl (PyValueError ''protection identity must not be empty'')
      else bindE (protection_identities rest) (\<lambda>ns. Inr (n # ns)))"
| "protection_identities (Inl b # rest) =
     bindE (protection_identities rest) (\<lambda>ns. Inr (map cd_identity (bu_challenges b) @ map bd_identity (bu_before b) @ ns))"

definition protection_targets :: "(protection_bundle + string) list \<Rightarrow> sdk_error + string list option" where
  "protection_targets ts = (if ts = [] then Inr None else map_sum id Some (protection_identities ts))"

section \<open>Guards\<close>

datatype guard_cache = CacheNone | CacheCall | CacheSession

definition cache_persistence :: "guard_cache \<Rightarrow> persistence_mode \<times> state_scope" where
  "cache_persistence c =
     (case c of
        CacheNone \<Rightarrow> (PER_MATCH, CLIENT_STATE)
      | CacheCall \<Rightarrow> (PER_CALL, CLIENT_STATE)
      | CacheSession \<Rightarrow> (UNTIL_REJECTED, SESSION_STATE))"

text \<open>
  \<open>_SimpleDetectorParser\<close>: what a detector of the caller answers, and what the signal makes of it. An error
  other than \<open>MalformedChallengeError\<close> ends the call.
\<close>

datatype 'v detection = Detected 'v | NotDetected | DetectorMalformed string | DetectorRaised

definition detector_probe :: "'v detection \<Rightarrow> unit + 'v probe" where
  "detector_probe d =
     (case d of
        Detected v \<Rightarrow> Inr (Parsed v)
      | NotDetected \<Rightarrow> Inr NoMatchProbe
      | DetectorMalformed cause \<Rightarrow> Inr (MalformedProbe cause)
      | DetectorRaised \<Rightarrow> Inl ())"

definition safe_method_rule :: replay_rule where
  "safe_method_rule = \<lparr>rr_max_replays = 1, rr_safety = SAFE_METHOD, rr_proof_name = None, rr_body = REQUIRE_REPLAYABLE\<rparr>"

text \<open>\<open>challenge_guard\<close>, for a name that is known: \<open>ids\<close> are the identities of the new requirement, signal and solver.\<close>

definition challenge_guard ::
  "nat \<times> nat \<times> nat \<Rightarrow> string \<Rightarrow> private_target list \<Rightarrow> request_scope option \<Rightarrow> guard_cache \<Rightarrow> replay_rule option \<Rightarrow> int \<Rightarrow>
     sdk_error + challenge_declaration \<times> solver_requirement \<times> nat" where
  "challenge_guard ids name targets_of sc cache rule revision =
     (case ids of (requirement, signal, solver) \<Rightarrow>
        if name = [] then Inl (PlanError ''challenge guard name must not be empty'')
        else let selected = (case sc of Some s \<Rightarrow> s | None \<Rightarrow> empty_scope) in
          bindE (new_requirement \<lparr>sr_id = requirement, sr_name = name\<rparr>) (\<lambda>r.
          bindE (new_challenge_policy
            \<lparr>cd_identity = name, cd_revision = revision, cd_scope = selected,
             cd_signal = \<lparr>gs_id = signal, gs_name = name @ ''.response'', gs_scope = selected, gs_priority = 0, gs_definitive = True\<rparr>,
             cd_solver = r, cd_apply = targets_of, cd_mode = fst (cache_persistence cache),
             cd_state_scope = snd (cache_persistence cache),
             cd_replay = (case rule of Some x \<Rightarrow> x | None \<Rightarrow> safe_method_rule), cd_challenge_identity = None\<rparr>) (\<lambda>p.
            Inr (p, r, solver))))"

definition guard_bundle :: "challenge_declaration \<times> solver_requirement \<times> nat \<Rightarrow> sdk_error + protection_bundle" where
  "guard_bundle g =
     (case g of (p, r, solver) \<Rightarrow>
        new_bundle \<lparr>bu_flows = [], bu_before = [], bu_challenges = [p], bu_solvers = [(r, solver)]\<rparr>)"

text \<open>The solution of a \<open>Guard\<close>. An expiry is an instant.\<close>

record guard_solution =
  gu_cookies :: "(string \<times> string) list"
  gu_headers :: "(string \<times> string) list"
  gu_query :: "(string \<times> string) list"
  gu_body :: "(string \<times> pyval) list"
  gu_expires :: "int option"

record guard_class =
  gc_identity :: string
  gc_headers :: "string list"
  gc_query :: "string list"
  gc_body :: "string list"

definition undeclared :: "string \<Rightarrow> (string, 'v) dict \<Rightarrow> string list \<Rightarrow> sdk_error + (string, 'v) dict" where
  "undeclared kind given names =
     (let unknown = sort (remdups (filter (\<lambda>n. n \<notin> set names) (keys given))) in
      if unknown \<noteq> []
      then Inl (PlanError (''guard solution sets undeclared '' @ kind @ '' destination(s): '' @ join '', '' unknown))
      else Inr given)"

text \<open>Expiry: after some microseconds, or at an instant that must know its zone.\<close>

datatype expiry_request = NoExpiry | ExpiresIn int | ExpiresAt int bool | BothExpiries

definition guard_expiry :: "int \<Rightarrow> expiry_request \<Rightarrow> sdk_error + int option" where
  "guard_expiry now e =
     (case e of
        NoExpiry \<Rightarrow> Inr None
      | BothExpiries \<Rightarrow> Inl (PyValueError ''pass either expires_in or expires_at, not both'')
      | ExpiresIn d \<Rightarrow>
          if d \<le> 0 then Inl (PyValueError ''expires_in must be positive'')
          else if datetime_max < now + d then Inl (PyError ''OverflowError'')
          else Inr (Some (now + d))
      | ExpiresAt t aware \<Rightarrow>
          if \<not> aware then Inl (PyValueError ''expires_at must be timezone-aware'') else Inr (Some t))"

definition new_solution ::
  "guard_class \<Rightarrow> int \<Rightarrow> (string, string) dict \<Rightarrow> (string, string) dict \<Rightarrow> (string, string) dict \<Rightarrow> (string, pyval) dict \<Rightarrow>
     expiry_request \<Rightarrow> sdk_error + guard_solution" where
  "new_solution g now cs hs qs bs e =
     bindE (guard_expiry now e) (\<lambda>expires.
     bindE (undeclared ''header'' hs (gc_headers g)) (\<lambda>h.
     bindE (undeclared ''query'' qs (gc_query g)) (\<lambda>q.
     bindE (undeclared ''body'' bs (gc_body g)) (\<lambda>b.
       Inr \<lparr>gu_cookies = cs, gu_headers = h, gu_query = q, gu_body = b, gu_expires = expires\<rparr>))))"

text \<open>
  \<open>_select_solution\<close> on a guard's solution: its attributes, and through \<open>__getattr__\<close> the synthetic ones. A cookie
  item is an object with a name and a value, shown as the dictionary of them.
\<close>

definition cookie_object :: "string \<times> string \<Rightarrow> pyval" where
  "cookie_object c = PDict [(''name'', PStr (fst c)), (''value'', PStr (snd c))]"

definition synthetic_value :: "guard_solution \<Rightarrow> string \<Rightarrow> pyval option" where
  "synthetic_value sol item =
     (case py_partition item '':'' of (kind, separator, name) \<Rightarrow>
        if separator = [] then None
        else if kind = ''header'' then map_option PStr (map_of (gu_headers sol) name)
        else if kind = ''query'' then map_option PStr (map_of (gu_query sol) name)
        else if kind = ''body'' then map_of (gu_body sol) name
        else None)"

definition solution_pair :: "('v \<Rightarrow> pyval) \<Rightarrow> string \<times> 'v \<Rightarrow> pyval" where
  "solution_pair f p = PTuple [PStr (fst p), f (snd p)]"

definition guard_attribute :: "guard_solution \<Rightarrow> string \<Rightarrow> pyval option" where
  "guard_attribute sol item =
     (if item = ''cookies'' then Some (PTuple (map cookie_object (gu_cookies sol)))
      else if item = ''headers'' then Some (PTuple (map (solution_pair PStr) (gu_headers sol)))
      else if item = ''query'' then Some (PTuple (map (solution_pair PStr) (gu_query sol)))
      else if item = ''body'' then Some (PTuple (map (solution_pair id) (gu_body sol)))
      else synthetic_value sol item)"

definition guard_select :: "guard_solution \<Rightarrow> string option \<Rightarrow> sdk_error + pyval" where
  "guard_select sol field_name =
     (case field_name of
        None \<Rightarrow> Inl (PyError ''GuardSolution'')
      | Some f \<Rightarrow>
          (case guard_attribute sol f of
             Some v \<Rightarrow> Inr v
           | None \<Rightarrow> Inl (PlanError (''solution field is missing: '' @ f))))"

text \<open>\<open>Guard.to_bundle\<close>: a destination for each declared name, read through its synthetic field.\<close>

definition synthetic_fields :: "string \<Rightarrow> string list \<Rightarrow> (string, string option) dict option" where
  "synthetic_fields kind names =
     (if names = [] then None else Some (dict_of (map (\<lambda>n. (n, Some (kind @ '':'' @ n))) names)))"

definition guard_targets :: "guard_class \<Rightarrow> sdk_error + private_target list" where
  "guard_targets g =
     bindE (new_private_target (PrivateCookieSet ''cookies'' ''name'' ''value'')) (\<lambda>cookies.
       solution_fields (synthetic_fields ''header'' (gc_headers g)) (synthetic_fields ''query'' (gc_query g)) None
         (synthetic_fields ''body'' (gc_body g)) (Some cookies))"

section \<open>Lemmas: the patch of a solution\<close>

text \<open>The cookie an item of a set gives: the values of its two fields.\<close>

definition cookie_of :: "(pyval \<Rightarrow> string \<Rightarrow> pyval option) \<Rightarrow> string \<Rightarrow> string \<Rightarrow> pyval \<Rightarrow> string \<times> string \<Rightarrow> bool" where
  "cookie_of attr nf vf item c \<longleftrightarrow>
     select_solution attr item (Some nf) = Inr (PStr (fst c)) \<and> select_solution attr item (Some vf) = Inr (PStr (snd c))"

text \<open>
  What a write of a target is: one write of the target's slot, of the value the solution has for the
  target, or of the cookies its items give, in their order.
\<close>

fun target_written ::
  "(string option \<Rightarrow> sdk_error + pyval) \<Rightarrow> (pyval \<Rightarrow> string \<Rightarrow> pyval option) \<Rightarrow> (pyval \<Rightarrow> string) \<Rightarrow> private_places \<Rightarrow>
     private_target \<Rightarrow> patch_op \<Rightarrow> bool" where
  "target_written chosen attr str places t (SetOp slot v c) \<longleftrightarrow>
     map_of (pv_slots places) t = Some slot \<and> c = CONFLICT_ERROR \<and>
     (case t of
        PrivateBinding l n f \<Rightarrow> chosen f = Inr v \<and> (l \<in> {HeaderL, CookieL} \<longrightarrow> \<not> list_ex header_break (str v))
      | PrivateCookieSet f nf vf \<Rightarrow>
          (\<exists>raw items cs. chosen (Some f) = Inr raw \<and> iterable_items raw = Some items \<and>
             list_all2 (cookie_of attr nf vf) items cs \<and> v = PTuple (map cookie_pair cs)))"
| "target_written chosen attr str places t _ \<longleftrightarrow> False"

text \<open>The cookies a patch sets through managed sets.\<close>

fun pair_cookie :: "pyval \<Rightarrow> string \<times> string" where
  "pair_cookie (PTuple [PStr n, PStr v]) = (n, v)"
| "pair_cookie _ = ([], [])"

fun set_cookies :: "private_target \<Rightarrow> patch_op \<Rightarrow> (string \<times> string) list" where
  "set_cookies (PrivateCookieSet f nf vf) (SetOp slot (PTuple xs) c) =
     map pair_cookie xs"
| "set_cookies t op = []"

definition dynamic_cookies :: "private_target list \<Rightarrow> value_patch \<Rightarrow> (string \<times> string) list" where
  "dynamic_cookies ts patch = concat (map2 set_cookies ts patch)"

definition proper_cookie :: "string \<times> string \<Rightarrow> bool" where
  "proper_cookie c \<longleftrightarrow> fst c \<noteq> [] \<and> \<not> list_ex name_break (fst c) \<and> \<not> list_ex header_break (snd c)"

lemma disjoint_keyD: "fst ` set xs \<inter> S = {} \<Longrightarrow> (a, b) \<in> set xs \<Longrightarrow> a \<notin> S"
  by force

lemma cookie_item_Inr:
  assumes "cookie_item attr taken nf vf found item = Inr found'"
  shows "\<exists>c. found' = found @ [c] \<and> cookie_of attr nf vf item c \<and> proper_cookie c \<and> fst c \<notin> set taken \<and> fst c \<notin> fst ` set found"
proof -
  obtain n v where chosen: "select_solution attr item (Some nf) = Inr n" "select_solution attr item (Some vf) = Inr v"
    using assms by (auto simp: cookie_item_def bindE_Inr_iff)
  obtain c cs where n: "n = PStr (c # cs)"
    using assms chosen by (cases n) (auto simp: cookie_item_def split: list.splits)
  obtain x where v: "v = PStr x"
    using assms chosen n by (cases v) (simp_all add: cookie_item_def)
  from assms show ?thesis
    by (simp add: cookie_item_def chosen n v Let_def proper_cookie_def cookie_of_def split: if_splits)
qed

lemma cookie_items_Inr:
  assumes "foldE (cookie_item attr taken nf vf) [] items = Inr found"
  shows "list_all2 (cookie_of attr nf vf) items found \<and>
    list_all proper_cookie found \<and> distinct (map fst found) \<and> set (map fst found) \<inter> set taken = {}"
proof (rule foldE_prefix_invariant [OF assms])
  fix ys x zs s s'
  assume P: "list_all2 (cookie_of attr nf vf) ys s \<and>
      list_all proper_cookie s \<and> distinct (map fst s) \<and> set (map fst s) \<inter> set taken = {}"
    and step: "cookie_item attr taken nf vf s x = Inr s'"
  then show "list_all2 (cookie_of attr nf vf) (ys @ [x]) s' \<and>
      list_all proper_cookie s' \<and> distinct (map fst s') \<and> set (map fst s') \<inter> set taken = {}"
    using cookie_item_Inr [of attr taken nf vf s x s'] by (auto dest: disjoint_keyD intro: list_all2_appendI)
qed simp

lemma pair_cookie_pair [simp]: "pair_cookie (cookie_pair c) = c"
  by (cases c) (simp add: cookie_pair_def)

lemma set_cookies_pairs: "set_cookies (PrivateCookieSet f nf vf) (SetOp slot (PTuple (map cookie_pair cs)) c) = cs"
  by (induction cs) auto

lemma target_step_Inr:
  assumes "target_step chosen attr str places (ops, names) t = Inr (ops', names')"
  shows "\<exists>op. ops' = ops @ [op] \<and> target_written chosen attr str places t op \<and> names' = names @ map fst (set_cookies t op) \<and>
    list_all proper_cookie (set_cookies t op) \<and> distinct (map fst (set_cookies t op)) \<and>
    set (map fst (set_cookies t op)) \<inter> set (pv_fixed_cookies places @ names) = {}"
proof (cases t)
  case (PrivateBinding l n f)
  then show ?thesis using assms
    by (auto simp: target_step_def bindE_Inr_iff split: option.splits if_splits)
next
  case (PrivateCookieSet f nf vf)
  from assms obtain slot raw items found where *: "map_of (pv_slots places) t = Some slot" "chosen (Some f) = Inr raw"
    "iterable_items raw = Some items" "foldE (cookie_item attr (pv_fixed_cookies places @ names) nf vf) [] items = Inr found"
    "ops' = ops @ [SetOp slot (PTuple (map cookie_pair found)) CONFLICT_ERROR]" "names' = names @ map fst found"
    by (auto simp: target_step_def bindE_Inr_iff PrivateCookieSet split: option.splits)
  then show ?thesis using cookie_items_Inr [OF *(4)]
    by (intro exI [of _ "SetOp slot (PTuple (map cookie_pair found)) CONFLICT_ERROR"])
      (auto simp: set_cookies_pairs PrivateCookieSet comp_def dest: disjoint_keyD)
qed

lemma map2_snoc: "length xs = length ys \<Longrightarrow> map2 f (xs @ [x]) (ys @ [y]) = map2 f xs ys @ [f x y]"
  by simp

lemma patch_written:
  assumes "foldE (target_step chosen attr str places) ([], []) ts = Inr (ops, names)"
  shows "list_all2 (target_written chosen attr str places) ts ops \<and> names = map fst (dynamic_cookies ts ops) \<and>
    list_all proper_cookie (dynamic_cookies ts ops) \<and> distinct names \<and> set names \<inter> set (pv_fixed_cookies places) = {}"
proof -
  let ?P = "\<lambda>ts st. list_all2 (target_written chosen attr str places) ts (fst st) \<and> snd st = map fst (dynamic_cookies ts (fst st)) \<and>
    list_all proper_cookie (dynamic_cookies ts (fst st)) \<and> distinct (snd st) \<and> set (snd st) \<inter> set (pv_fixed_cookies places) = {}"
  have "?P ts (ops, names)"
  proof (rule foldE_prefix_invariant [OF assms])
    show "?P [] ([], [])" by (simp add: dynamic_cookies_def)
  next
    fix ys x zs s s' assume P: "?P ys s" and step: "target_step chosen attr str places s x = Inr s'"
    obtain a b a' b' where s: "s = (a, b)" "s' = (a', b')" by (cases s; cases s') auto
    from target_step_Inr [OF step [unfolded s]] obtain p where p: "a' = a @ [p]" "target_written chosen attr str places x p"
      "b' = b @ map fst (set_cookies x p)" "list_all proper_cookie (set_cookies x p)" "distinct (map fst (set_cookies x p))"
      "set (map fst (set_cookies x p)) \<inter> set (pv_fixed_cookies places @ b) = {}"
      by blast
    have len: "length ys = length a" using P s by (auto dest: list_all2_lengthD)
    have dyn: "dynamic_cookies (ys @ [x]) a' = dynamic_cookies ys a @ set_cookies x p"
      using p(1) len by (simp add: dynamic_cookies_def)
    have "list_all2 (target_written chosen attr str places) (ys @ [x]) a'" using P s p(1,2) by (simp add: list_all2_appendI)
    then show "?P (ys @ [x]) s'" using P s p dyn by (auto dest: disjoint_keyD)
  qed
  then show ?thesis by (auto dest: disjoint_keyD)
qed

text \<open>
  C36. A solution writes its reserved places and nothing else. Each target becomes one write of its own slot, of
  the value the solution has for that target; the text of a header or cookie target has no line break (values of
  query and body targets are not checked). A cookie set writes one cookie for each item of its source, in their
  order, with the name and value the item has; the names are proper, different from each other and from every
  cookie of the operation, and the values have no line break.
\<close>

theorem solution_writes_its_places:
  assumes "private_bindings_patch chosen attr str places ts = Inr patch"
  shows "list_all2 (target_written chosen attr str places) ts patch \<and> list_all proper_cookie (dynamic_cookies ts patch) \<and>
    distinct (pv_fixed_cookies places @ map fst (dynamic_cookies ts patch)) = distinct (pv_fixed_cookies places)"
proof -
  obtain names where "foldE (target_step chosen attr str places) ([], []) ts = Inr (patch, names)"
    using assms by (auto simp: private_bindings_patch_def map_sum_def split: sum.splits)
  from patch_written [OF this] show ?thesis by (auto dest: disjoint_keyD)
qed

section \<open>Lemmas: guards and identities\<close>

lemma partition_head: "CHR '':'' \<notin> set k \<Longrightarrow> py_partition (k @ CHR '':'' # n) '':'' = (k, '':'', n)"
  by (induction k) (auto simp: py_partition_def split: option.splits prod.splits)

lemma guard_attribute_kind:
  "guard_attribute sol (''header'' @ '':'' @ n) = map_option PStr (map_of (gu_headers sol) n)"
  "guard_attribute sol (''query'' @ '':'' @ n) = map_option PStr (map_of (gu_query sol) n)"
  "guard_attribute sol (''body'' @ '':'' @ n) = map_of (gu_body sol) n"
  using partition_head [of "''header''" n] partition_head [of "''query''" n] partition_head [of "''body''" n]
  by (simp_all add: guard_attribute_def synthetic_value_def)

text \<open>Whatever name a header has, a declared one is read back with the value the solution was given for it.\<close>

lemma guard_header_read_back:
  assumes "new_solution g now cs hs qs bs e = Inr sol" and "map_of hs n = Some v"
  shows "guard_select sol (Some (''header'' @ '':'' @ n)) = Inr (PStr v)"
proof -
  have "gu_headers sol = hs" using assms(1) by (auto simp: new_solution_def undeclared_def bindE_Inr_iff Let_def split: if_splits)
  then show ?thesis using assms(2) unfolding guard_select_def option.case guard_attribute_kind by simp
qed

lemma component_parse:
  assumes "CHR 0x1F \<notin> set a" and "CHR 0x1F \<notin> set b" and "a @ CHR 0x1F # r = b @ CHR 0x1F # s"
  shows "a = b \<and> r = s"
  using assms by (induction a arbitrary: b) (auto simp: Cons_eq_append_conv append_eq_Cons_conv)

definition solid_component :: "(string \<Rightarrow> string) \<Rightarrow> string option \<Rightarrow> bool" where
  "solid_component utf8 c = (case c of None \<Rightarrow> True | Some s \<Rightarrow> CHR 0x1F \<notin> set (utf8 s))"

lemma identity_component_parse:
  assumes "solid_component utf8 a" "solid_component utf8 b" "inj utf8"
    and "identity_component utf8 a @ r = identity_component utf8 b @ s"
  shows "a = b \<and> r = s"
proof -
  let ?f = "\<lambda>c. case c of None \<Rightarrow> [CHR 0x00] | Some s \<Rightarrow> CHR 0x01 # utf8 s"
  have "?f a = ?f b \<and> r = s"
    using assms(1,2,4) by (intro component_parse) (auto simp: solid_component_def identity_component_def split: option.splits)
  then show ?thesis using assms(3) by (auto split: option.splits dest: injD)
qed

text \<open>Without the separator in a component, different identities are digested from different bytes.\<close>

lemma identity_bytes_apart:
  assumes "list_all (solid_component utf8) [ti_user_agent a, ti_proxy a, ti_impersonation a,
      ti_user_agent b, ti_proxy b, ti_impersonation b]"
    and "inj utf8" and "identity_bytes utf8 a = identity_bytes utf8 b"
  shows "a = b"
proof -
  have solid: "solid_component utf8 (ti_user_agent a)" "solid_component utf8 (ti_proxy a)" "solid_component utf8 (ti_impersonation a)"
    "solid_component utf8 (ti_user_agent b)" "solid_component utf8 (ti_proxy b)" "solid_component utf8 (ti_impersonation b)"
    using assms(1) by simp_all
  have bytes: "identity_component utf8 (ti_user_agent a) @ identity_component utf8 (ti_proxy a) @ identity_component utf8 (ti_impersonation a) @ [] =
    identity_component utf8 (ti_user_agent b) @ identity_component utf8 (ti_proxy b) @ identity_component utf8 (ti_impersonation b) @ []"
    using assms(3) by (simp add: identity_bytes_def)
  note first = identity_component_parse [OF solid(1,4) assms(2) bytes]
  note second = identity_component_parse [OF solid(2,5) assms(2) conjunct2 [OF first]]
  note third = identity_component_parse [OF solid(3,6) assms(2) conjunct2 [OF second]]
  show ?thesis using first second third by (cases a; cases b) simp
qed

text \<open>With it, two identities can be digested from the same bytes.\<close>

lemma identity_bytes_collide:
  "identity_bytes id \<lparr>ti_user_agent = Some ''x'', ti_proxy = Some [CHR ''p'', CHR 0x1F, CHR 0x00], ti_impersonation = None\<rparr> =
   identity_bytes id \<lparr>ti_user_agent = Some [CHR ''x'', CHR 0x1F, CHR 0x01, CHR ''p''], ti_proxy = None, ti_impersonation = None\<rparr>"
  by (simp add: identity_bytes_def identity_component_def)

text \<open>In a bundle that is accepted, a policy is known by its identity and a requirement has one solver.\<close>

lemma count_list_distinct: "(\<forall>i \<in> set xs. count_list xs i \<le> 1) \<Longrightarrow> distinct xs"
proof (induction xs)
  case (Cons x xs)
  have "count_list xs x = 0" using Cons.prems by simp
  moreover have "\<forall>i \<in> set xs. count_list xs i \<le> 1"
  proof
    fix i assume "i \<in> set xs"
    then have "count_list (x # xs) i \<le> 1" using Cons.prems by (metis list.set_intros(2))
    then show "count_list xs i \<le> 1" by (simp split: if_splits)
  qed
  ultimately show ?case using Cons.IH by (auto simp: count_list_0_iff)
qed simp

lemma sort_remdups_Nil: "sort (remdups (xs :: 'a :: linorder list)) = [] \<longleftrightarrow> xs = []"
  by (metis set_empty set_remdups set_sort)

lemma bundle_identities_distinct:
  assumes "new_bundle b = Inr b'"
  shows "b' = b \<and> distinct (bundle_identities b) \<and> distinct (map (sr_id \<circ> fst) (bu_solvers b)) \<and>
    distinct (map (sr_id \<circ> fl_requirement) (bu_flows b))"
proof -
  have none: "filter (\<lambda>i. 1 < count_list (bundle_identities b) i) (bundle_identities b) = []"
    using assms by (auto simp: new_bundle_def Let_def bindE_Inr_iff sort_remdups_Nil split: if_splits)
  have "distinct (bundle_identities b)"
    using none by (intro count_list_distinct) (auto simp: filter_empty_conv not_less)
  then show ?thesis using assms
    by (auto simp: new_bundle_def new_solver_bindings_def Let_def bindE_Inr_iff split: if_splits)
qed

text \<open>A managed cookie set is no fixed cookie of the operation it is reserved for.\<close>

lemma managed_set_not_fixed:
  "\<exists>cc. search_endpoint search_fields None = Inr cc \<and>
     keys (cc_groups cc CookieL) = [''<managed-cookie-set:1>''] \<and> pv_fixed_cookies (private_places_of cc) = []"
proof -
  have "map_sum id (\<lambda>cc. (keys (cc_groups cc CookieL), pv_fixed_cookies (private_places_of cc)))
      (search_endpoint search_fields None) = Inr ([''<managed-cookie-set:1>''], [])"
    by code_simp
  then show ?thesis by (cases "search_endpoint search_fields None") auto
qed

lemma solution_writes_its_places_witness:
  "\<exists>patch. list_all2 (target_written
      (select_solution (\<lambda>_ _. None) (PDict [(''token'', PStr ''abc''),
        (''cookies'', PList [PDict [(''name'', PStr ''clear''), (''value'', PStr ''1'')]])])) (\<lambda>_ _. None)
      (\<lambda>v. case v of PStr s \<Rightarrow> s | _ \<Rightarrow> [])
      \<lparr>pv_fixed_cookies = [''lang''], pv_slots =
        [(PrivateBinding HeaderL ''X-Token'' (Some ''token''), \<lparr>slot_id = 0, diagnostic_name = ''t'', slot_validator = Inr,
            slot_required = False, slot_secret = True, slot_card = ONE\<rparr>),
         (PrivateCookieSet ''cookies'' ''name'' ''value'', \<lparr>slot_id = 1, diagnostic_name = ''c'', slot_validator = Inr,
            slot_required = False, slot_secret = True, slot_card = ONE\<rparr>)]\<rparr>)
      [PrivateBinding HeaderL ''X-Token'' (Some ''token''), PrivateCookieSet ''cookies'' ''name'' ''value''] patch \<and>
    list_all proper_cookie (dynamic_cookies
      [PrivateBinding HeaderL ''X-Token'' (Some ''token''), PrivateCookieSet ''cookies'' ''name'' ''value''] patch) \<and>
    distinct ([''lang''] @ map fst (dynamic_cookies
      [PrivateBinding HeaderL ''X-Token'' (Some ''token''), PrivateCookieSet ''cookies'' ''name'' ''value''] patch)) =
    distinct [''lang'']"
proof -
  let ?slot = "\<lambda>i n. \<lparr>slot_id = i, diagnostic_name = n, slot_validator = Inr, slot_required = False, slot_secret = True, slot_card = ONE\<rparr>"
  let ?ts = "[PrivateBinding HeaderL ''X-Token'' (Some ''token''), PrivateCookieSet ''cookies'' ''name'' ''value'']"
  let ?places = "\<lparr>pv_fixed_cookies = [''lang''], pv_slots = [(?ts ! 0, ?slot 0 ''t''), (?ts ! 1, ?slot 1 ''c'')]\<rparr>"
  let ?str = "\<lambda>v. case v of PStr s \<Rightarrow> s | _ \<Rightarrow> []"
  let ?attr = "\<lambda>_ _. None"
  let ?sol = "PDict [(''token'', PStr ''abc''), (''cookies'', PList [PDict [(''name'', PStr ''clear''), (''value'', PStr ''1'')]])]"
  let ?patch = "[SetOp (?slot 0 ''t'') (PStr ''abc'') CONFLICT_ERROR,
           SetOp (?slot 1 ''c'') (PTuple [PTuple [PStr ''clear'', PStr ''1'']]) CONFLICT_ERROR]"
  have "private_bindings_patch (select_solution ?attr ?sol) ?attr ?str ?places ?ts = Inr ?patch"
    by (simp add: private_bindings_patch_def target_step_def select_solution_def iterable_items_def cookie_item_def
        header_break_def name_break_def cookie_pair_def)
  then show ?thesis using solution_writes_its_places [of "select_solution ?attr ?sol" ?attr ?str ?places ?ts ?patch]
    by (intro exI [of _ ?patch]) simp
qed

end
