(* ===== verification/ProtectionState.thy ===== *)
theory ProtectionState
  imports Protection
begin

text \<open>
  The managed protection state of a runtime (\<open>clients/executor.py\<close>): what a solution is cached under, when
  a cached one may be used, the section under the lock in which one task solves for the others, and the
  application of managed states to an attempt.

  A solution is of any type \<open>'s\<close>; what is read of it is a \<open>solution_reader\<close>. Awaiting an acquisition lets
  other tasks change the runtime, so an acquisition is a function from the runtime to a runtime and an
  outcome. Objects compared by identity are numbers; a managed state is one object per generation. Between
  two awaits a task runs alone, as on one event loop.
\<close>

section \<open>Managed states and their cache\<close>

record 's managed =
  ms_solution :: 's
  ms_generation :: int
  ms_identity :: "string option"

record cache_prefix =
  kp_policy :: string
  kp_revision :: int
  kp_requirement :: nat
  kp_solver :: nat
  kp_scope :: state_scope
  kp_owner :: nat

type_synonym cache_key = "cache_prefix \<times> pyval"

record 's protection_runtime =
  pr_id :: nat
  pr_owner :: "nat option"
  pr_solvers :: solver_bindings
  pr_state :: "(cache_key, 's managed) dict"
  pr_generation :: int

datatype managed_error =
    ChallengeSolveError string int
  | ChallengeApplicationError string
  | OperationRaised sdk_error

text \<open>An expiry is an instant; a naive one is read as UTC. \<open>None\<close>: the solution has no \<open>datetime\<close> there.\<close>

record 's solution_reader =
  rd_select :: "'s \<Rightarrow> string option \<Rightarrow> sdk_error + pyval"
  rd_attr :: "pyval \<Rightarrow> string \<Rightarrow> pyval option"
  rd_str :: "pyval \<Rightarrow> string"
  rd_expires :: "'s \<Rightarrow> int option"

definition not_expired :: "'s solution_reader \<Rightarrow> int \<Rightarrow> 's \<Rightarrow> bool" where
  "not_expired rd now s = (case rd_expires rd s of None \<Rightarrow> False | Some t \<Rightarrow> now < t)"

definition has_future_expiry :: "'s solution_reader \<Rightarrow> int \<Rightarrow> 's \<Rightarrow> bool" where
  "has_future_expiry rd now s \<longleftrightarrow> not_expired rd now s \<and> \<not> Option.is_none (rd_expires rd s)"

definition identity_matches :: "'s managed \<Rightarrow> string option \<Rightarrow> bool" where
  "identity_matches st fp \<longleftrightarrow>
     ms_identity st = None \<or> fp = None \<or> ms_identity st = fp"

definition is_shared :: "persistence_mode \<Rightarrow> bool" where
  "is_shared mode \<longleftrightarrow> mode = UNTIL_EXPIRY \<or> mode = UNTIL_REJECTED"

definition solution_is_shareable :: "'s solution_reader \<Rightarrow> int \<Rightarrow> 's \<Rightarrow> persistence_mode \<Rightarrow> bool" where
  "solution_is_shareable rd now s mode =
     (if mode = UNTIL_EXPIRY then has_future_expiry rd now s
      else if mode = UNTIL_REJECTED then rd_expires rd s = None \<or> not_expired rd now s
      else False)"

definition managed_state_valid ::
  "'s solution_reader \<Rightarrow> int \<Rightarrow> 's managed \<Rightarrow> persistence_mode \<Rightarrow> string option \<Rightarrow> bool" where
  "managed_state_valid rd now st mode fp \<longleftrightarrow>
     identity_matches st fp \<and> solution_is_shareable rd now (ms_solution st) mode"

definition new_managed_state ::
  "'s \<Rightarrow> string option \<Rightarrow> 's protection_runtime \<Rightarrow> 's managed \<times> 's protection_runtime" where
  "new_managed_state s fp rt =
     (let g = pr_generation rt + 1 in
      (\<lparr>ms_solution = s, ms_generation = g, ms_identity = fp\<rparr>, rt\<lparr>pr_generation := g\<rparr>))"

definition apply_managed_state ::
  "'s solution_reader \<Rightarrow> private_places \<Rightarrow> string \<Rightarrow> private_target list \<Rightarrow> 's managed \<Rightarrow> op_values \<Rightarrow>
     managed_error + op_values" where
  "apply_managed_state rd places policy ts st values_in =
     (case bindE (private_bindings_patch (rd_select rd (ms_solution st)) (rd_attr rd) (rd_str rd) places ts)
             (apply_patch_atomic values_in) of
        Inl _ \<Rightarrow> Inl (ChallengeApplicationError policy)
      | Inr ov \<Rightarrow> Inr ov)"

section \<open>Policies and cache keys\<close>

datatype managed_policy = ChallengeP challenge_declaration | BeforeP before_declaration

fun policy_mode :: "managed_policy \<Rightarrow> persistence_mode" where
  "policy_mode (ChallengeP c) = cd_mode c"
| "policy_mode (BeforeP b) = bd_mode b"

fun policy_solver :: "managed_policy \<Rightarrow> solver_requirement option" where
  "policy_solver (ChallengeP c) = Some (cd_solver c)"
| "policy_solver (BeforeP b) = bd_solver b"

text \<open>The solver requirement, or the acquire operation; the identity of nothing is \<open>0\<close>.\<close>

fun provider_identity :: "managed_policy \<Rightarrow> nat" where
  "provider_identity (ChallengeP c) = sr_id (cd_solver c)"
| "provider_identity (BeforeP b) =
     (case bd_solver b of
        Some r \<Rightarrow> sr_id r
      | None \<Rightarrow> (case bd_acquire b of Some a \<Rightarrow> a | None \<Rightarrow> 0))"

fun policy_place :: "managed_policy \<Rightarrow> string \<times> int \<times> state_scope" where
  "policy_place (ChallengeP c) = (cd_identity c, cd_revision c, cd_state_scope c)"
| "policy_place (BeforeP b) = (bd_identity b, bd_revision b, bd_state_scope b)"

definition protection_cache_prefix :: "'s protection_runtime \<Rightarrow> managed_policy \<Rightarrow> nat option \<Rightarrow> cache_prefix" where
  "protection_cache_prefix rt p solver =
     (case policy_place p of (name, revision, sc) \<Rightarrow>
        \<lparr>kp_policy = name, kp_revision = revision, kp_requirement = provider_identity p,
         kp_solver = (case solver of Some s \<Rightarrow> s | None \<Rightarrow> provider_identity p), kp_scope = sc,
         kp_owner = (case sc of
                       CLIENT_STATE \<Rightarrow> pr_id rt
                     | SESSION_STATE \<Rightarrow> (case pr_owner rt of None \<Rightarrow> pr_id rt | Some owner \<Rightarrow> owner))\<rparr>)"

fun hashable_value :: "pyval \<Rightarrow> bool" where
  "hashable_value (PList _) = False"
| "hashable_value (PDict _) = False"
| "hashable_value (PTuple xs) = list_all hashable_value xs"
| "hashable_value _ = True"

fun challenge_part :: "managed_policy \<Rightarrow> pyval \<Rightarrow> pyval" where
  "challenge_part (ChallengeP c) challenge =
     (case cd_challenge_identity c of Some f \<Rightarrow> f challenge | None \<Rightarrow> PNone)"
| "challenge_part (BeforeP b) challenge = PNone"

definition protection_cache_key ::
  "'s protection_runtime \<Rightarrow> managed_policy \<Rightarrow> nat option \<Rightarrow> pyval \<Rightarrow> sdk_error + cache_key" where
  "protection_cache_key rt p solver challenge =
     (if hashable_value (challenge_part p challenge)
      then Inr (protection_cache_prefix rt p solver, challenge_part p challenge)
      else Inl (PyTypeError ''protection challenge identity must be hashable''))"

definition bound_solver :: "'s protection_runtime \<Rightarrow> managed_policy \<Rightarrow> nat option" where
  "bound_solver rt p = Option.bind (policy_solver p) (solver_for (pr_solvers rt))"

text \<open>\<open>max\<close> by generation: the first of the greatest.\<close>

definition newer :: "(cache_key \<times> 's managed) option \<Rightarrow> cache_key \<times> 's managed \<Rightarrow> (cache_key \<times> 's managed) option" where
  "newer best e =
     (case best of
        None \<Rightarrow> Some e
      | Some b \<Rightarrow> if ms_generation (snd b) < ms_generation (snd e) then Some e else Some b)"

definition newest :: "(cache_key \<times> 's managed) list \<Rightarrow> (cache_key \<times> 's managed) option" where
  "newest es = foldl newer None es"

text \<open>\<open>_find_shared_state\<close>: \<open>now k\<close> is the time at which the entry \<open>k\<close> is looked at.\<close>

definition find_shared_state ::
  "'s solution_reader \<Rightarrow> (cache_key \<Rightarrow> int) \<Rightarrow> managed_policy \<Rightarrow> string option \<Rightarrow> 's protection_runtime \<Rightarrow>
     (cache_key \<times> 's managed) option \<times> 's protection_runtime" where
  "find_shared_state rd now p fp rt =
     (if \<not> is_shared (policy_mode p) then (None, rt)
      else let prefix_wanted = protection_cache_prefix rt p (bound_solver rt p);
               mine = (\<lambda>e. fst (fst e) = prefix_wanted);
               valid = (\<lambda>e. managed_state_valid rd (now (fst e)) (snd e) (policy_mode p) fp) in
        (newest (filter (\<lambda>e. mine e \<and> valid e) (pr_state rt)),
         rt\<lparr>pr_state := filter (\<lambda>e. \<not> mine e \<or> valid e) (pr_state rt)\<rparr>))"

text \<open>\<open>invalidate_protection\<close> and \<open>close_protection_session\<close>; the locks are in \<open>ProtectionLocks\<close>.\<close>

definition invalidate_protection :: "string list option \<Rightarrow> 's protection_runtime \<Rightarrow> nat \<times> 's protection_runtime" where
  "invalidate_protection identities rt =
     (let gone = (\<lambda>e. case identities of None \<Rightarrow> True | Some names \<Rightarrow> kp_policy (fst (fst e)) \<in> set names) in
      (length (filter gone (pr_state rt)), rt\<lparr>pr_state := filter (\<lambda>e. \<not> gone e) (pr_state rt)\<rparr>))"

definition clear_states :: "'s protection_runtime \<Rightarrow> 's protection_runtime" where
  "clear_states rt = rt\<lparr>pr_state := []\<rparr>"

section \<open>Solving\<close>

type_synonym 's acquire = "'s protection_runtime \<Rightarrow> (managed_error + 's) \<times> 's protection_runtime"

text \<open>
  \<open>solve\<close> of a challenge policy, and \<open>_before_call_acquirer\<close>: \<open>call\<close> executes an operation, \<open>solver\<close> is the
  bound solver. Any error of a solver is a \<open>ChallengeSolveError\<close>.
\<close>

definition solve_with :: "string \<Rightarrow> int \<Rightarrow> ('s protection_runtime \<Rightarrow> 's option \<times> 's protection_runtime) \<Rightarrow> 's acquire" where
  "solve_with policy attempt solver rt =
     (case solver rt of
        (None, rt') \<Rightarrow> (Inl (ChallengeSolveError policy attempt), rt')
      | (Some s, rt') \<Rightarrow> (Inr s, rt'))"

definition before_acquirer ::
  "(nat \<Rightarrow> 's protection_runtime \<Rightarrow> (sdk_error + 's) \<times> 's protection_runtime) \<Rightarrow>
   (nat \<Rightarrow> pyval \<Rightarrow> 's protection_runtime \<Rightarrow> 's option \<times> 's protection_runtime) \<Rightarrow>
   before_declaration \<Rightarrow> nat option \<Rightarrow> int \<Rightarrow> 's acquire" where
  "before_acquirer call solve p solver attempt rt =
     (case bd_acquire p of
        Some a \<Rightarrow> (case call a rt of (Inl e, rt') \<Rightarrow> (Inl (OperationRaised e), rt') | (Inr v, rt') \<Rightarrow> (Inr v, rt'))
      | None \<Rightarrow>
          (case (solver, bd_challenge p) of
             (Some s, Some challenge) \<Rightarrow> solve_with (bd_identity p) attempt (solve s challenge) rt
           | _ \<Rightarrow> (Inl (OperationRaised (PyError ''AssertionError'')), rt)))"

text \<open>The clock of one lookup: at each entry, at the check under the lock, at publication.\<close>

record clock =
  ck_find :: "cache_key \<Rightarrow> int"
  ck_check :: int
  ck_share :: int

type_synonym 's application = "string \<Rightarrow> private_target list \<Rightarrow> 's managed \<Rightarrow> op_values \<Rightarrow> managed_error + op_values"

text \<open>\<open>_shared_state\<close>, while the lock of its key is held.\<close>

definition drop_rejected :: "(cache_key \<times> 's managed) option \<Rightarrow> 's protection_runtime \<Rightarrow> 's protection_runtime" where
  "drop_rejected rejected rt =
     (case rejected of
        None \<Rightarrow> rt
      | Some (k, st) \<Rightarrow>
          if map_of (pr_state rt) k = Some st then rt\<lparr>pr_state := AList.delete k (pr_state rt)\<rparr> else rt)"

definition publish_state ::
  "'s solution_reader \<Rightarrow> int \<Rightarrow> cache_key \<Rightarrow> persistence_mode \<Rightarrow> ('s managed \<Rightarrow> managed_error + op_values) \<Rightarrow> string option \<Rightarrow>
     (managed_error + 's) \<times> 's protection_runtime \<Rightarrow>
     (managed_error + 's managed \<times> cache_key option) \<times> 's protection_runtime" where
  "publish_state rd now key mode apply_to fp acquired =
     (case acquired of
        (Inl e, rt) \<Rightarrow> (Inl e, rt)
      | (Inr s, rt) \<Rightarrow>
          (case new_managed_state s fp rt of (st, rt') \<Rightarrow>
             (case apply_to st of
                Inl e \<Rightarrow> (Inl e, rt')
              | Inr _ \<Rightarrow>
                  if solution_is_shareable rd now s mode
                  then (Inr (st, Some key), rt'\<lparr>pr_state := AList.update key st (pr_state rt')\<rparr>)
                  else (Inr (st, None), rt'))))"

definition shared_state ::
  "'s solution_reader \<Rightarrow> clock \<Rightarrow> cache_key \<Rightarrow> persistence_mode \<Rightarrow> ('s managed \<Rightarrow> managed_error + op_values) \<Rightarrow> 's acquire \<Rightarrow>
     string option \<Rightarrow> (cache_key \<times> 's managed) option \<Rightarrow> 's protection_runtime \<Rightarrow>
     (managed_error + 's managed \<times> cache_key option) \<times> 's protection_runtime" where
  "shared_state rd ck key mode apply_to acquire fp rejected rt =
     (let rt1 = drop_rejected rejected rt;
          solve_anew = publish_state rd (ck_share ck) key mode apply_to fp
                         (acquire (rt1\<lparr>pr_state := AList.delete key (pr_state rt1)\<rparr>)) in
      case map_of (pr_state rt1) key of
        Some st \<Rightarrow> if managed_state_valid rd (ck_check ck) st mode fp then (Inr (st, Some key), rt1) else solve_anew
      | None \<Rightarrow> solve_anew)"

text \<open>A state that stays in the call: solved, numbered, and applied once to see that it can be.\<close>

definition private_state ::
  "('s managed \<Rightarrow> managed_error + op_values) \<Rightarrow> 's acquire \<Rightarrow> string option \<Rightarrow> 's protection_runtime \<Rightarrow>
     (managed_error + 's managed) \<times> 's protection_runtime" where
  "private_state apply_to acquire fp rt =
     (case acquire rt of
        (Inl e, rt') \<Rightarrow> (Inl e, rt')
      | (Inr s, rt') \<Rightarrow>
          (case new_managed_state s fp rt' of (st, rt'') \<Rightarrow>
             (case apply_to st of Inl e \<Rightarrow> (Inl e, rt'') | Inr _ \<Rightarrow> (Inr st, rt''))))"

definition assertion_failed :: managed_error where
  "assertion_failed = OperationRaised (PyError ''AssertionError'')"

text \<open>The states of one call, by policy.\<close>

type_synonym 's locals = "(string, 's managed) dict"

type_synonym 's found = "'s managed \<times> (cache_key \<times> 's managed) option"

text \<open>\<open>_before_call_state\<close>.\<close>

definition local_before ::
  "before_declaration \<Rightarrow> string option \<Rightarrow> 's locals \<Rightarrow> 's managed option \<times> 's locals" where
  "local_before p fp cs =
     (case (if bd_mode p = PER_CALL then map_of cs (bd_identity p) else None) of
        None \<Rightarrow> (None, cs)
      | Some st \<Rightarrow>
          if identity_matches st fp then (Some st, cs) else (None, AList.delete (bd_identity p) cs))"

definition obtain_before ::
  "'s solution_reader \<Rightarrow> clock \<Rightarrow> ('s managed \<Rightarrow> managed_error + op_values) \<Rightarrow> 's acquire \<Rightarrow> before_declaration \<Rightarrow>
     string option \<Rightarrow> nat option \<Rightarrow> 's protection_runtime \<Rightarrow> (managed_error + 's found) \<times> 's protection_runtime" where
  "obtain_before rd ck apply_to acquire p fp solver rt =
     (if is_shared (bd_mode p)
      then (case shared_state rd ck (protection_cache_prefix rt (BeforeP p) solver, PNone) (bd_mode p) apply_to acquire
                   fp None rt of
              (Inl e, rt') \<Rightarrow> (Inl e, rt')
            | (Inr (st, committed), rt') \<Rightarrow> (Inr (st, map_option (\<lambda>k. (k, st)) committed), rt'))
      else (case private_state apply_to acquire fp rt of
              (Inl e, rt') \<Rightarrow> (Inl e, rt')
            | (Inr st, rt') \<Rightarrow> (Inr (st, None), rt')))"

definition before_call_state ::
  "'s solution_reader \<Rightarrow> clock \<Rightarrow> ('s managed \<Rightarrow> managed_error + op_values) \<Rightarrow> (nat option \<Rightarrow> 's acquire) \<Rightarrow>
     before_declaration \<Rightarrow> string option \<Rightarrow> 's locals \<Rightarrow> 's protection_runtime \<Rightarrow>
     (managed_error + 's found) \<times> 's locals \<times> 's protection_runtime" where
  "before_call_state rd ck apply_to acquirer p fp cs rt =
     (case local_before p fp cs of
        (Some st, cs1) \<Rightarrow> (Inr (st, None), cs1, rt)
      | (None, cs1) \<Rightarrow>
          (case find_shared_state rd (ck_find ck) (BeforeP p) fp rt of
             (Some e, rt1) \<Rightarrow> (Inr (snd e, Some e), cs1, rt1)
           | (None, rt1) \<Rightarrow>
               let solver = bound_solver rt1 (BeforeP p) in
               if bd_solver p \<noteq> None \<and> solver = None then (Inl assertion_failed, cs1, rt1)
               else case obtain_before rd ck apply_to (acquirer solver) p fp solver rt1 of
                      (Inl e, rt2) \<Rightarrow> (Inl e, cs1, rt2)
                    | (Inr f, rt2) \<Rightarrow>
                        (Inr f, if bd_mode p = PER_CALL then AList.update (bd_identity p) (fst f) cs1 else cs1, rt2)))"

text \<open>\<open>_challenge_state\<close>, and the \<open>_solve\<close> that records what it returns.\<close>

definition challenge_state ::
  "'s solution_reader \<Rightarrow> clock \<Rightarrow> ('s managed \<Rightarrow> managed_error + op_values) \<Rightarrow> (nat \<Rightarrow> 's acquire) \<Rightarrow>
     challenge_declaration \<Rightarrow> pyval \<Rightarrow> string option \<Rightarrow> (cache_key \<times> 's managed) option \<Rightarrow> 's locals \<Rightarrow> 's protection_runtime \<Rightarrow>
     (managed_error + 's found) \<times> 's locals \<times> 's protection_runtime" where
  "challenge_state rd ck apply_to solve p challenge fp rejected cs rt =
     (case bound_solver rt (ChallengeP p) of
        None \<Rightarrow> (Inl assertion_failed, cs, rt)
      | Some solver \<Rightarrow>
          (case protection_cache_key rt (ChallengeP p) (Some solver) challenge of
             Inl e \<Rightarrow> (Inl (OperationRaised e), cs, rt)
           | Inr key \<Rightarrow>
               if is_shared (cd_mode p)
               then (case shared_state rd ck key (cd_mode p) apply_to (solve solver) fp rejected rt of
                       (Inl e, rt') \<Rightarrow> (Inl e, cs, rt')
                     | (Inr (st, committed), rt') \<Rightarrow> (Inr (st, map_option (\<lambda>k. (k, st)) committed), cs, rt'))
               else (case private_state apply_to (solve solver) fp rt of
                       (Inl e, rt') \<Rightarrow> (Inl e, AList.delete (cd_identity p) cs, rt')
                     | (Inr st, rt') \<Rightarrow> (Inr (st, None), AList.delete (cd_identity p) cs, rt'))))"

record 's managed_call =
  mc_runtime :: "'s protection_runtime"
  mc_local :: "'s locals"
  mc_shared :: "(string, cache_key \<times> 's managed) dict"
  mc_values :: op_values

definition note_shared :: "string \<Rightarrow> (cache_key \<times> 's managed) option \<Rightarrow> 's managed_call \<Rightarrow> 's managed_call" where
  "note_shared name shared mc =
     (case shared of None \<Rightarrow> mc | Some e \<Rightarrow> mc\<lparr>mc_shared := AList.update name e (mc_shared mc)\<rparr>)"

definition solve_challenge ::
  "'s solution_reader \<Rightarrow> clock \<Rightarrow> 's application \<Rightarrow> (nat \<Rightarrow> 's acquire) \<Rightarrow> challenge_declaration \<Rightarrow> pyval \<Rightarrow>
     string option \<Rightarrow> op_values \<Rightarrow> 's managed_call \<Rightarrow> (managed_error + unit) \<times> 's managed_call" where
  "solve_challenge rd ck application solve p challenge fp attempt_values mc =
     (case challenge_state rd ck (\<lambda>st. application (cd_identity p) (cd_apply p) st attempt_values) solve p challenge fp
             (map_of (mc_shared mc) (cd_identity p)) (mc_local mc) (mc_runtime mc) of
        (Inl e, cs, rt) \<Rightarrow> (Inl e, mc\<lparr>mc_local := cs, mc_runtime := rt\<rparr>)
      | (Inr (st, shared), cs, rt) \<Rightarrow>
          (Inr (), note_shared (cd_identity p) shared
             (mc\<lparr>mc_local := AList.update (cd_identity p) st cs, mc_runtime := rt\<rparr>)))"

section \<open>Applying managed states to an attempt\<close>

text \<open>\<open>_managed_values\<close>: its two loops, each ending at the first error.\<close>

fun each :: "('p \<Rightarrow> 'c \<Rightarrow> ('e + unit) \<times> 'c) \<Rightarrow> 'p list \<Rightarrow> 'c \<Rightarrow> ('e + unit) \<times> 'c" where
  "each step [] c = (Inr (), c)"
| "each step (p # ps) c = (case step p c of (Inl e, c') \<Rightarrow> (Inl e, c') | (Inr _, c') \<Rightarrow> each step ps c')"

definition apply_into ::
  "'s application \<Rightarrow> string \<Rightarrow> private_target list \<Rightarrow> 's managed \<Rightarrow> 's managed_call \<Rightarrow> (managed_error + unit) \<times> 's managed_call" where
  "apply_into application name ts st mc =
     (case application name ts st (mc_values mc) of
        Inl e \<Rightarrow> (Inl e, mc)
      | Inr ov \<Rightarrow> (Inr (), mc\<lparr>mc_values := ov\<rparr>))"

definition before_step ::
  "'s solution_reader \<Rightarrow> (string \<Rightarrow> clock) \<Rightarrow> 's application \<Rightarrow> (before_declaration \<Rightarrow> nat option \<Rightarrow> 's acquire) \<Rightarrow>
     string option \<Rightarrow> before_declaration \<Rightarrow> 's managed_call \<Rightarrow> (managed_error + unit) \<times> 's managed_call" where
  "before_step rd ck application acquirer fp p mc =
     (case before_call_state rd (ck (bd_identity p)) (\<lambda>st. application (bd_identity p) (bd_apply p) st (mc_values mc))
             (acquirer p) p fp (mc_local mc) (mc_runtime mc) of
        (Inl e, cs, rt) \<Rightarrow> (Inl e, mc\<lparr>mc_local := cs, mc_runtime := rt\<rparr>)
      | (Inr (st, shared), cs, rt) \<Rightarrow>
          (case apply_into application (bd_identity p) (bd_apply p) st (mc\<lparr>mc_local := cs, mc_runtime := rt\<rparr>) of
             (Inl e, mc') \<Rightarrow> (Inl e, mc')
           | (Inr _, mc') \<Rightarrow> (Inr (), note_shared (bd_identity p) shared mc')))"

definition kept_local :: "string \<Rightarrow> string option \<Rightarrow> 's locals \<Rightarrow> 's managed option \<times> 's locals" where
  "kept_local name fp cs =
     (case map_of cs name of
        None \<Rightarrow> (None, cs)
      | Some st \<Rightarrow> if identity_matches st fp then (Some st, cs) else (None, AList.delete name cs))"

definition challenge_step ::
  "'s solution_reader \<Rightarrow> (string \<Rightarrow> clock) \<Rightarrow> 's application \<Rightarrow> string option \<Rightarrow> challenge_declaration \<Rightarrow> 's managed_call \<Rightarrow>
     (managed_error + unit) \<times> 's managed_call" where
  "challenge_step rd ck application fp p mc =
     (case kept_local (cd_identity p) fp (mc_local mc) of (kept, cs) \<Rightarrow>
      case find_shared_state rd (ck_find (ck (cd_identity p))) (ChallengeP p) fp (mc_runtime mc) of (shared, rt) \<Rightarrow>
        let mc1 = mc\<lparr>mc_local := cs, mc_runtime := rt\<rparr> in
        (case (case kept of Some st \<Rightarrow> Some st | None \<Rightarrow> map_option snd shared) of
           None \<Rightarrow> (Inr (), mc1)
         | Some st \<Rightarrow>
             (case apply_into application (cd_identity p) (cd_apply p) st mc1 of
                (Inl e, mc2) \<Rightarrow> (Inl e, mc2)
              | (Inr _, mc2) \<Rightarrow>
                  let mc3 = (if kept = None \<or> kept = map_option snd shared then note_shared (cd_identity p) shared mc2 else mc2) in
                  (Inr (), if cd_mode p = PER_MATCH \<or> cd_mode p = PER_ATTEMPT
                           then mc3\<lparr>mc_local := AList.delete (cd_identity p) (mc_local mc3)\<rparr> else mc3))))"

definition managed_values ::
  "'s solution_reader \<Rightarrow> (string \<Rightarrow> clock) \<Rightarrow> (string \<Rightarrow> clock) \<Rightarrow> 's application \<Rightarrow>
     (before_declaration \<Rightarrow> nat option \<Rightarrow> 's acquire) \<Rightarrow> before_declaration list \<Rightarrow> challenge_declaration list \<Rightarrow> string option \<Rightarrow>
     's managed_call \<Rightarrow> (managed_error + unit) \<times> 's managed_call" where
  "managed_values rd ck ck' application acquirer befores challenges fp mc =
     (case each (before_step rd ck application acquirer fp) befores mc of
        (Inl e, mc') \<Rightarrow> (Inl e, mc')
      | (Inr _, mc') \<Rightarrow> each (challenge_step rd ck' application fp) challenges mc')"

text \<open>\<open>_acquire_mandatory_protections\<close>: the flows with their acquire and verify operations, resolved.\<close>

definition mandatory_flow ::
  "(nat \<Rightarrow> 'v option \<Rightarrow> 'w \<Rightarrow> (managed_error + 'v) \<times> 'w) \<Rightarrow> (nat \<Rightarrow> 'v \<Rightarrow> 'w \<Rightarrow> 'v option \<times> 'w) \<Rightarrow> solver_bindings \<Rightarrow>
     protection_flow \<Rightarrow> 'w \<Rightarrow> (managed_error + 'v) \<times> 'w" where
  "mandatory_flow call solve solvers flow w =
     (case call (fl_acquire flow) None w of
        (Inl e, w1) \<Rightarrow> (Inl e, w1)
      | (Inr acquired, w1) \<Rightarrow>
          (case (if fl_solve flow
                 then (case solver_for solvers (fl_requirement flow) of
                         None \<Rightarrow> (Inl assertion_failed, w1)
                       | Some s \<Rightarrow>
                           (case solve s acquired w1 of
                              (None, w2) \<Rightarrow> (Inl (ChallengeSolveError (sr_name (fl_requirement flow)) 0), w2)
                            | (Some v, w2) \<Rightarrow> (Inr v, w2)))
                 else (Inr acquired, w1)) of
             (Inl e, w2) \<Rightarrow> (Inl e, w2)
           | (Inr current, w2) \<Rightarrow>
               (case fl_verify flow of
                  None \<Rightarrow> (Inr current, w2)
                | Some verify \<Rightarrow> call verify (Some current) w2)))"

fun acquire_mandatory ::
  "(nat \<Rightarrow> 'v option \<Rightarrow> 'w \<Rightarrow> (managed_error + 'v) \<times> 'w) \<Rightarrow> (nat \<Rightarrow> 'v \<Rightarrow> 'w \<Rightarrow> 'v option \<times> 'w) \<Rightarrow> solver_bindings \<Rightarrow>
     (nat, 'v) dict \<Rightarrow> protection_flow list \<Rightarrow> 'w \<Rightarrow> (managed_error + (nat, 'v) dict) \<times> 'w" where
  "acquire_mandatory call solve solvers results [] w = (Inr results, w)"
| "acquire_mandatory call solve solvers results (flow # flows) w =
     (case mandatory_flow call solve solvers flow w of
        (Inl e, w') \<Rightarrow> (Inl e, w')
      | (Inr v, w') \<Rightarrow>
          acquire_mandatory call solve solvers (AList.update (sr_id (fl_requirement flow)) v results) flows w')"

section \<open>Lemmas: what may be applied\<close>

lemma newer_cases: "newer b e = b \<or> newer b e = Some e"
  by (auto simp: newer_def split: option.splits)

lemma newest_mem:
  assumes "newest es = Some e"
  shows "e \<in> set es"
proof -
  have "foldl newer b es = Some e \<Longrightarrow> b = Some e \<or> e \<in> set es" for b
  proof (induction es arbitrary: b)
    case (Cons y es)
    show ?case using Cons.IH [of "newer b y"] Cons.prems newer_cases [of b y] by auto
  qed simp
  from this [of None] show ?thesis using assms by (simp add: newest_def)
qed

lemma newest_greatest:
  assumes "newest es = Some e" and "x \<in> set es"
  shows "ms_generation (snd x) \<le> ms_generation (snd e)"
proof -
  have "foldl newer b es = Some e \<Longrightarrow> x \<in> set es \<or> b = Some x \<Longrightarrow> ms_generation (snd x) \<le> ms_generation (snd e)" for b
  proof (induction es arbitrary: b)
    case (Cons y es)
    show ?case
    proof (cases "x \<in> set es \<or> newer b y = Some x")
      case True
      then show ?thesis using Cons.IH [of "newer b y"] Cons.prems(1) by simp
    next
      case False
      then obtain z where z: "newer b y = Some z" "ms_generation (snd x) \<le> ms_generation (snd z)"
        using Cons.prems(2) by (auto simp: newer_def split: option.splits if_splits)
      have "ms_generation (snd z) \<le> ms_generation (snd e)" if "foldl newer (Some z) es = Some e" for e z
        using that by (induction es arbitrary: z) (force simp: newer_def split: if_splits)+
      then show ?thesis using Cons.prems(1) z by fastforce
    qed
  qed simp
  from this [of None] show ?thesis using assms by (simp add: newest_def)
qed

lemma find_shared_state_Some:
  assumes "find_shared_state rd now p fp rt = (Some e, rt')"
  shows "e \<in> set (pr_state rt) \<and> is_shared (policy_mode p) \<and> fst (fst e) = protection_cache_prefix rt p (bound_solver rt p) \<and>
    managed_state_valid rd (now (fst e)) (snd e) (policy_mode p) fp"
proof -
  have "newest (filter (\<lambda>e. fst (fst e) = protection_cache_prefix rt p (bound_solver rt p) \<and>
      managed_state_valid rd (now (fst e)) (snd e) (policy_mode p) fp) (pr_state rt)) = Some e"
    and "is_shared (policy_mode p)"
    using assms by (simp_all add: find_shared_state_def Let_def split: if_splits)
  then show ?thesis using newest_mem by fastforce
qed

lemma find_shared_state_matches: "find_shared_state rd now p fp rt = (Some e, rt') \<Longrightarrow> identity_matches (snd e) fp"
  by (drule find_shared_state_Some) (simp add: managed_state_valid_def)

text \<open>The guard the theorem adds to every application.\<close>

definition guarded :: "string option \<Rightarrow> 's application \<Rightarrow> 's application" where
  "guarded fp application name ts st ov =
     (if identity_matches st fp then application name ts st ov else Inl (ChallengeApplicationError name))"

lemma guarded_matches [simp]: "identity_matches st fp \<Longrightarrow> guarded fp application name ts st ov = application name ts st ov"
  by (simp add: guarded_def)

lemma new_managed_state_matches [simp]: "new_managed_state s fp rt = (st, rt') \<Longrightarrow> identity_matches st fp"
  by (auto simp: new_managed_state_def identity_matches_def Let_def)

lemma publish_state_guarded:
  "publish_state rd now key mode (\<lambda>st. guarded fp application name ts st ov) fp acquired =
   publish_state rd now key mode (\<lambda>st. application name ts st ov) fp acquired"
  by (auto simp: publish_state_def split: prod.split sum.split)

lemma shared_state_guarded:
  "shared_state rd ck key mode (\<lambda>st. guarded fp application name ts st ov) acquire fp rejected rt =
   shared_state rd ck key mode (\<lambda>st. application name ts st ov) acquire fp rejected rt"
  by (simp add: shared_state_def publish_state_guarded)

lemma private_state_guarded:
  "private_state (\<lambda>st. guarded fp application name ts st ov) acquire fp rt =
   private_state (\<lambda>st. application name ts st ov) acquire fp rt"
  by (auto simp: private_state_def split: prod.split sum.split)

lemma publish_state_matches: "publish_state rd now key mode apply_to fp acquired = (Inr (st, c), rt) \<Longrightarrow> identity_matches st fp"
  by (auto simp: publish_state_def split: prod.splits sum.splits if_splits)

lemma shared_state_matches:
  "shared_state rd ck key mode apply_to acquire fp rejected rt = (Inr (st, c), rt') \<Longrightarrow> identity_matches st fp"
  by (auto simp: shared_state_def Let_def managed_state_valid_def dest: publish_state_matches split: option.splits if_splits)

lemma private_state_matches: "private_state apply_to acquire fp rt = (Inr st, rt') \<Longrightarrow> identity_matches st fp"
  by (auto simp: private_state_def split: prod.splits sum.splits)

lemma local_before_matches: "local_before p fp cs = (Some st, cs') \<Longrightarrow> identity_matches st fp"
  by (auto simp: local_before_def split: option.splits if_splits)

lemma kept_local_matches: "kept_local name fp cs = (Some st, cs') \<Longrightarrow> identity_matches st fp"
  by (auto simp: kept_local_def split: option.splits if_splits)

lemma obtain_before_matches: "obtain_before rd ck apply_to acquire p fp solver rt = (Inr f, rt') \<Longrightarrow> identity_matches (fst f) fp"
  by (auto simp: obtain_before_def dest: shared_state_matches private_state_matches split: if_splits prod.splits sum.splits)

lemma before_call_state_matches:
  assumes "before_call_state rd ck apply_to acquirer p fp cs rt = (Inr f, cs', rt')"
  shows "identity_matches (fst f) fp"
  using assms
  by (auto simp: before_call_state_def Let_def dest: local_before_matches find_shared_state_matches obtain_before_matches
      split: prod.splits option.splits sum.splits if_splits)

lemma obtain_before_guarded:
  "obtain_before rd ck (\<lambda>st. guarded fp application name ts st ov) acquire p fp solver rt =
   obtain_before rd ck (\<lambda>st. application name ts st ov) acquire p fp solver rt"
  unfolding obtain_before_def shared_state_guarded private_state_guarded ..

lemma before_call_state_guarded:
  "before_call_state rd ck (\<lambda>st. guarded fp application name ts st ov) acquirer p fp cs rt =
   before_call_state rd ck (\<lambda>st. application name ts st ov) acquirer p fp cs rt"
  unfolding before_call_state_def obtain_before_guarded ..

lemma apply_into_guarded [simp]:
  "identity_matches st fp \<Longrightarrow> apply_into (guarded fp application) name ts st mc = apply_into application name ts st mc"
  by (simp add: apply_into_def)

lemma before_step_guarded:
  "before_step rd ck (guarded fp application) acquirer fp p mc = before_step rd ck application acquirer fp p mc"
proof -
  have "apply_into (guarded fp application) (bd_identity p) (bd_apply p) st m = apply_into application (bd_identity p) (bd_apply p) st m"
    if "before_call_state rd c f a p fp cs rt = (Inr (st, sh), cs', rt')" for c f a cs rt st sh cs' rt' m
    using before_call_state_matches [OF that] by simp
  then show ?thesis
    by (auto simp: before_step_def before_call_state_guarded split: prod.split sum.split)
qed

lemma challenge_step_guarded:
  "challenge_step rd ck (guarded fp application) fp p mc = challenge_step rd ck application fp p mc"
proof -
  obtain kept cs shared rt where *: "kept_local (cd_identity p) fp (mc_local mc) = (kept, cs)"
    "find_shared_state rd (ck_find (ck (cd_identity p))) (ChallengeP p) fp (mc_runtime mc) = (shared, rt)"
    by (metis surj_pair)
  have "identity_matches st fp" if "(case kept of Some st \<Rightarrow> Some st | None \<Rightarrow> map_option snd shared) = Some st" for st
    using that * kept_local_matches find_shared_state_matches by (fastforce split: option.splits)
  then show ?thesis
    by (simp add: challenge_step_def * Let_def split: option.split)
qed

text \<open>
  C37. A clearance acquired under one fingerprint is never applied to an attempt with another: an attempt goes exactly
  as if every application first checked that the state carries no fingerprint, the attempt has none, or the two
  are equal. What is compared are the fingerprints of the transport identities. They are digests of bytes that two
  identities with the separator in a component can share (\<open>Protection.identity_bytes_collide\<close>), and then the
  clearance of one is applied under the other; without it the bytes differ (\<open>identity_bytes_apart\<close>).
\<close>

theorem only_matching_states_applied:
  "managed_values rd ck ck' (apply_managed_state rd places) acquirer befores challenges fp mc =
   managed_values rd ck ck' (guarded fp (apply_managed_state rd places)) acquirer befores challenges fp mc"
proof -
  have steps: "before_step rd ck (guarded fp (apply_managed_state rd places)) acquirer fp = before_step rd ck (apply_managed_state rd places) acquirer fp"
    "challenge_step rd ck' (guarded fp (apply_managed_state rd places)) fp = challenge_step rd ck' (apply_managed_state rd places) fp"
    by (intro ext before_step_guarded challenge_step_guarded)+
  show ?thesis unfolding managed_values_def steps ..
qed

section \<open>Lemmas: lookup and invalidation\<close>

lemma filter_none: "(\<And>x. x \<in> set xs \<Longrightarrow> \<not> P x) \<Longrightarrow> filter P xs = []"
  by (simp add: filter_empty_conv)

text \<open>
  Invalidation is exact: after it no shared state of a named policy is found, and every other policy finds what it
  would have found before.
\<close>

lemma invalidation_is_exact:
  "fst (find_shared_state rd now p fp (snd (invalidate_protection identities rt))) =
   (if (case identities of None \<Rightarrow> True | Some names \<Rightarrow> fst (policy_place p) \<in> set names) then None
    else fst (find_shared_state rd now p fp rt))"
proof -
  let ?gone = "\<lambda>e. case identities of None \<Rightarrow> True | Some names \<Rightarrow> kp_policy (fst (fst e)) \<in> set names"
  let ?px = "protection_cache_prefix rt p (bound_solver rt p)"
  have same: "protection_cache_prefix (rt\<lparr>pr_state := xs\<rparr>) p (bound_solver (rt\<lparr>pr_state := xs\<rparr>) p) = ?px" for xs
    by (simp add: protection_cache_prefix_def bound_solver_def split: prod.split state_scope.split option.split)
  have name: "kp_policy ?px = fst (policy_place p)"
    by (simp add: protection_cache_prefix_def split: prod.split)
  have found: "fst (find_shared_state rd now p fp (rt\<lparr>pr_state := xs\<rparr>)) =
      (if is_shared (policy_mode p)
       then newest (filter (\<lambda>e. fst (fst e) = ?px \<and> managed_state_valid rd (now (fst e)) (snd e) (policy_mode p) fp) xs) else None)"
    for xs by (simp add: find_shared_state_def Let_def same)
  have left: "filter (\<lambda>e. fst (fst e) = ?px \<and> V e) (filter (\<lambda>e. \<not> ?gone e) (pr_state rt)) =
      (if case identities of None \<Rightarrow> True | Some names \<Rightarrow> fst (policy_place p) \<in> set names then []
       else filter (\<lambda>e. fst (fst e) = ?px \<and> V e) (pr_state rt))" for V
    by (cases identities) (auto simp: name filter_empty_conv intro!: filter_cong)
  show ?thesis
    using found [of "filter (\<lambda>e. \<not> ?gone e) (pr_state rt)"] found [of "pr_state rt"]
    by (simp add: invalidate_protection_def Let_def left [simplified] newest_def)
qed

section \<open>Lemmas: one solve for all who wait\<close>

lemma map_of_drop_rejected:
  assumes "map_of (pr_state rt) key = Some st" and "\<And>k. rejected \<noteq> Some (k, st)"
  shows "map_of (pr_state (drop_rejected rejected rt)) key = Some st"
  using assms(1) assms(2) [of key] by (auto simp: drop_rejected_def split: option.split)

lemma shared_state_hit:
  assumes "map_of (pr_state rt) key = Some st" and "\<And>k. rejected \<noteq> Some (k, st)"
    and "managed_state_valid rd (ck_check ck) st mode fp"
  shows "shared_state rd ck key mode apply_to acquire fp rejected rt = (Inr (st, Some key), drop_rejected rejected rt)"
  using map_of_drop_rejected [OF assms(1,2)] assms(3) by (simp add: shared_state_def)

lemma shared_state_cached:
  assumes "shared_state rd ck key mode apply_to acquire fp rejected rt = (Inr (st, Some k), rt')"
  shows "k = key \<and> map_of (pr_state rt') key = Some st"
  using assms
  by (auto simp: shared_state_def publish_state_def Let_def split: option.splits if_splits prod.splits sum.splits)

text \<open>
  Those who wait for the lock of a key, in the order in which they get it: what happens before a turn, and what
  the turn is given.
\<close>

record 's waiter =
  wt_meanwhile :: "'s protection_runtime \<Rightarrow> 's protection_runtime"
  wt_clock :: clock
  wt_apply :: "'s managed \<Rightarrow> managed_error + op_values"
  wt_acquire :: "'s acquire"
  wt_fp :: "string option"
  wt_rejected :: "(cache_key \<times> 's managed) option"

fun serve ::
  "'s solution_reader \<Rightarrow> cache_key \<Rightarrow> persistence_mode \<Rightarrow> 's waiter list \<Rightarrow> 's protection_runtime \<Rightarrow>
     (managed_error + 's managed \<times> cache_key option) list \<times> 's protection_runtime" where
  "serve rd key mode [] rt = ([], rt)"
| "serve rd key mode (w # ws) rt =
     (case shared_state rd (wt_clock w) key mode (wt_apply w) (wt_acquire w) (wt_fp w) (wt_rejected w) (wt_meanwhile w rt) of
        (outcome, rt1) \<Rightarrow> (case serve rd key mode ws rt1 of (outcomes, rt2) \<Rightarrow> (outcome # outcomes, rt2)))"

text \<open>A waiter that can use \<open>st\<close>: the others leave the entry alone, it did not reject \<open>st\<close> itself, and \<open>st\<close> is valid for it.\<close>

definition can_share :: "'s solution_reader \<Rightarrow> cache_key \<Rightarrow> persistence_mode \<Rightarrow> 's managed \<Rightarrow> 's waiter \<Rightarrow> bool" where
  "can_share rd key mode st w \<longleftrightarrow>
     (\<forall>rt. map_of (pr_state rt) key = Some st \<longrightarrow> map_of (pr_state (wt_meanwhile w rt)) key = Some st) \<and>
     (case wt_rejected w of None \<Rightarrow> True | Some (k, old) \<Rightarrow> old \<noteq> st) \<and>
     managed_state_valid rd (ck_check (wt_clock w)) st mode (wt_fp w)"

lemma served_hit:
  assumes "map_of (pr_state rt) key = Some st" and "can_share rd key mode st w"
  shows "\<exists>rt'. map_of (pr_state rt') key = Some st \<and>
    fst (serve rd key mode (w # ws) rt) = Inr (st, Some key) # fst (serve rd key mode ws rt')"
proof -
  have cached: "map_of (pr_state (wt_meanwhile w rt)) key = Some st" using assms by (simp add: can_share_def)
  have rejected: "wt_rejected w \<noteq> Some (k, st)" for k using assms(2) by (auto simp: can_share_def)
  have "managed_state_valid rd (ck_check (wt_clock w)) st mode (wt_fp w)" using assms(2) by (simp add: can_share_def)
  from shared_state_hit [OF cached rejected this] show ?thesis
    using map_of_drop_rejected [OF cached rejected]
    by (intro exI [of _ "drop_rejected (wt_rejected w) (wt_meanwhile w rt)"]) (simp add: case_prod_beta)
qed

lemma serve_shared:
  assumes "map_of (pr_state rt) key = Some st"
  shows "take (length (takeWhile (can_share rd key mode st) ws)) (fst (serve rd key mode ws rt)) =
    replicate (length (takeWhile (can_share rd key mode st) ws)) (Inr (st, Some key))"
  using assms
proof (induction ws arbitrary: rt)
  case (Cons w ws)
  show ?case
  proof (cases "can_share rd key mode st w")
    case True
    from served_hit [OF Cons.prems True] obtain rt' where "map_of (pr_state rt') key = Some st"
      and "fst (serve rd key mode (w # ws) rt) = Inr (st, Some key) # fst (serve rd key mode ws rt')" by blast
    then show ?thesis using Cons.IH True by simp
  qed simp
qed simp

text \<open>
  C39. Single flight: once one task holding the lock of a key has got a state it may share, the waiters of that key that
  follow get the same one in their turns, whatever their own acquisitions would do and even if their own earlier
  state was rejected, up to the first waiter that cannot use it: for whom it is not valid (another fingerprint, or
  expired by its turn), who rejected this very state, or before whose turn someone changed the entry. None of those
  before it solves again. That first waiter takes the state out and may replace it, so nothing is said of the
  waiters after it.
\<close>

theorem waiters_share_one_solve:
  assumes "shared_state rd ck key mode apply_to acquire fp rejected rt = (Inr (st, Some k), rt')"
  shows "take (length (takeWhile (can_share rd key mode st) ws)) (fst (serve rd key mode ws rt')) =
    replicate (length (takeWhile (can_share rd key mode st) ws)) (Inr (st, Some key))"
  using serve_shared shared_state_cached [OF assms] by blast

section \<open>Lemmas: the runtime's invariant\<close>

text \<open>
  A generation names one state: cached states have different generations, none beyond the counter. This is what
  makes "the same state" a matter of its generation, and the newest state unique.
\<close>

definition runtime_ok :: "'s protection_runtime \<Rightarrow> bool" where
  "runtime_ok rt \<longleftrightarrow> dict_ok (pr_state rt) \<and> (\<forall>e \<in> set (pr_state rt). ms_generation (snd e) \<le> pr_generation rt) \<and>
     (\<forall>e \<in> set (pr_state rt). \<forall>e' \<in> set (pr_state rt). ms_generation (snd e) = ms_generation (snd e') \<longrightarrow> e = e')"

text \<open>
  What happens to a runtime: entries leave the cache, states are numbered, and a numbered state enters under
  its key. These are the only writes of \<open>clients/executor.py\<close> to the cache and the counter; while a task waits
  for an operation or a solver, the others do any number of them.
\<close>

inductive evolves :: "'s protection_runtime \<Rightarrow> 's protection_runtime \<Rightarrow> bool" where
  unchanged: "evolves rt rt"
| left: "evolves rt rt1 \<Longrightarrow> evolves rt (rt1\<lparr>pr_state := filter P (pr_state rt1)\<rparr>)"
| numbered: "evolves rt rt1 \<Longrightarrow> new_managed_state s fp rt1 = (st, rt2) \<Longrightarrow> evolves rt rt2"
| entered: "evolves rt rt1 \<Longrightarrow> new_managed_state s fp rt1 = (st, rt2) \<Longrightarrow>
    evolves rt (rt2\<lparr>pr_state := AList.update k st (pr_state rt2)\<rparr>)"

lemma evolves_trans: "evolves b c \<Longrightarrow> evolves a b \<Longrightarrow> evolves a c"
  by (induction rule: evolves.induct) (auto intro: evolves.intros)

lemma evolves_delete: "evolves rt (rt\<lparr>pr_state := AList.delete k (pr_state rt)\<rparr>)"
  unfolding AList.delete_eq by (rule left [OF unchanged])

lemma evolves_drop_rejected: "evolves rt (drop_rejected rejected rt)"
  by (auto simp: drop_rejected_def evolves_delete unchanged split: option.split)

lemma evolves_find: "find_shared_state rd now p fp rt = (found, rt') \<Longrightarrow> evolves rt rt'"
  by (auto simp: find_shared_state_def Let_def unchanged intro: left [OF unchanged] split: if_splits)

lemma evolves_invalidate: "evolves rt (snd (invalidate_protection ids rt))"
  by (simp add: invalidate_protection_def Let_def left [OF unchanged])

lemma evolves_clear: "evolves rt (clear_states rt)"
  using left [OF unchanged, of _ "\<lambda>_. False"] by (simp add: clear_states_def)

text \<open>
  Along it the invariant is kept, the counter does not go back, and every cached state is one that was cached
  before or has a generation beyond the counter as it was: a state that left does not come back.
\<close>

definition proceeds :: "'s protection_runtime \<Rightarrow> 's protection_runtime \<Rightarrow> bool" where
  "proceeds rt rt' \<longleftrightarrow> runtime_ok rt' \<and> pr_generation rt \<le> pr_generation rt' \<and>
     (\<forall>e \<in> set (pr_state rt'). e \<in> set (pr_state rt) \<or> pr_generation rt < ms_generation (snd e))"

lemma proceeds_filter: "proceeds rt rt1 \<Longrightarrow> proceeds rt (rt1\<lparr>pr_state := filter P (pr_state rt1)\<rparr>)"
  by (simp add: proceeds_def runtime_ok_def distinct_map_filter)

lemma proceeds_new_state:
  assumes "proceeds rt rt1" and "new_managed_state s fp rt1 = (st, rt2)"
  shows "proceeds rt rt2 \<and> proceeds rt (rt2\<lparr>pr_state := AList.update k st (pr_state rt2)\<rparr>)"
proof -
  have rt2: "rt2 = rt1\<lparr>pr_generation := pr_generation rt1 + 1\<rparr>" and st: "ms_generation st = pr_generation rt1 + 1"
    using assms(2) by (auto simp: new_managed_state_def Let_def)
  have ok: "runtime_ok rt1" using assms(1) by (simp add: proceeds_def)
  have below: "\<And>e. e \<in> set (pr_state rt1) \<Longrightarrow> ms_generation (snd e) < pr_generation rt1 + 1"
    using ok by (force simp: runtime_ok_def)
  have "set (AList.update k st (pr_state rt1)) = insert (k, st) {e \<in> set (pr_state rt1). fst e \<noteq> k}"
    by (rule set_dict_update) (use ok in \<open>simp add: runtime_ok_def\<close>)
  then show ?thesis
    using assms(1) below st unfolding rt2 proceeds_def runtime_ok_def by (auto dest: less_imp_le)
qed

lemma evolves_proceeds: "evolves rt rt' \<Longrightarrow> runtime_ok rt \<Longrightarrow> proceeds rt rt'"
proof (induction rule: evolves.induct)
  case (unchanged rt)
  then show ?case by (simp add: proceeds_def)
next
  case (left rt rt1 P)
  then show ?case by (simp add: proceeds_filter)
next
  case (numbered rt rt1 s fp st rt2)
  then show ?case using proceeds_new_state [OF _ numbered.hyps(2)] by blast
next
  case (entered rt rt1 s fp st rt2 k)
  then show ?case using proceeds_new_state [OF _ entered.hyps(2)] by blast
qed

text \<open>
  An acquisition that does no more to the runtime than that: the locale states it, and its lemmas show that
  the sections around the acquisition do no more either.
\<close>

locale acquisition =
  fixes acquire :: "'s acquire"
  assumes acquire_evolves: "evolves rt (snd (acquire rt))"
begin

lemma private_evolves: "evolves rt (snd (private_state apply_to acquire fp rt))"
proof -
  obtain outcome rt1 where a: "acquire rt = (outcome, rt1)" by (cases "acquire rt")
  then have "evolves rt rt1" using acquire_evolves [of rt] by simp
  then show ?thesis by (auto simp: private_state_def a intro: numbered split: sum.split prod.split)
qed

lemma publish_evolves: "evolves rt (snd (publish_state rd now key mode apply_to fp (acquire rt)))"
proof -
  obtain outcome rt1 where a: "acquire rt = (outcome, rt1)" by (cases "acquire rt")
  then have "evolves rt rt1" using acquire_evolves [of rt] by simp
  then show ?thesis by (auto simp: publish_state_def a intro: numbered entered split: sum.split prod.split)
qed

lemma shared_evolves: "evolves rt (snd (shared_state rd ck key mode apply_to acquire fp rejected rt))"
proof -
  let ?one = "drop_rejected rejected rt"
  have one: "evolves rt ?one" by (rule evolves_drop_rejected)
  have "evolves rt (snd (publish_state rd now key mode apply_to fp (acquire (?one\<lparr>pr_state := AList.delete key (pr_state ?one)\<rparr>))))"
    for now
    by (rule evolves_trans [OF publish_evolves evolves_trans [OF evolves_delete one]])
  then show ?thesis using one by (simp add: shared_state_def Let_def split: option.split)
qed

lemma obtain_evolves: "evolves rt (snd (obtain_before rd ck apply_to acquire p fp solver rt))"
  using shared_evolves [of rt] private_evolves [of rt]
  by (auto simp: obtain_before_def split: prod.split sum.split) (metis snd_conv)+

end

text \<open>
  The environment of an attempt: the operations it calls to acquire, and the solvers. While they are awaited
  the runtime evolves, whoever does it.
\<close>

locale environment =
  fixes call :: "nat \<Rightarrow> 's protection_runtime \<Rightarrow> (sdk_error + 's) \<times> 's protection_runtime"
    and solve :: "nat \<Rightarrow> pyval \<Rightarrow> 's protection_runtime \<Rightarrow> 's option \<times> 's protection_runtime"
  assumes call_evolves: "evolves rt (snd (call a rt))"
    and solve_evolves: "evolves rt (snd (solve i challenge rt))"

sublocale environment < solving: acquisition "solve_with policy attempt (solve i challenge)" for policy attempt i challenge
proof
  fix rt :: "'s protection_runtime"
  obtain x rt' where "solve i challenge rt = (x, rt')" by (cases "solve i challenge rt")
  then show "evolves rt (snd (solve_with policy attempt (solve i challenge) rt))"
    using solve_evolves [of rt i challenge] by (simp add: solve_with_def split: option.split)
qed

sublocale environment < acquiring: acquisition "before_acquirer call solve p solver attempt" for p solver attempt
proof
  fix rt :: "'s protection_runtime"
  have "evolves rt rt'" if "call a rt = (x, rt')" for a x rt'
    using call_evolves [of rt a] that by simp
  then show "evolves rt (snd (before_acquirer call solve p solver attempt rt))"
    using solving.acquire_evolves
    by (auto simp: before_acquirer_def unchanged split: option.split sum.split prod.split)
qed

lemma apply_into_runtime [simp]: "mc_runtime (snd (apply_into application name ts st mc)) = mc_runtime mc"
  by (simp add: apply_into_def split: sum.split)

lemma apply_into_runtime_eq: "apply_into application name ts st mc = (x, m) \<Longrightarrow> mc_runtime m = mc_runtime mc"
  using apply_into_runtime [of application name ts st mc] by simp

lemma note_shared_runtime [simp]: "mc_runtime (note_shared name shared mc) = mc_runtime mc"
  by (simp add: note_shared_def split: option.split)

lemma challenge_step_evolves: "evolves (mc_runtime mc) (mc_runtime (snd (challenge_step rd ck application fp p mc)))"
proof -
  obtain kept cs where k: "kept_local (cd_identity p) fp (mc_local mc) = (kept, cs)" by (metis surj_pair)
  obtain shared rt where s: "find_shared_state rd (ck_find (ck (cd_identity p))) (ChallengeP p) fp (mc_runtime mc) = (shared, rt)"
    by (metis surj_pair)
  show ?thesis using evolves_find [OF s]
    by (auto simp: challenge_step_def k s Let_def dest: apply_into_runtime_eq split: sum.split prod.split option.split)
qed

lemma each_evolves:
  assumes "\<And>p c. evolves (mc_runtime c) (mc_runtime (snd (f p c)))"
  shows "evolves (mc_runtime c) (mc_runtime (snd (each f ps c)))"
proof (induction ps arbitrary: c)
  case (Cons p ps)
  obtain x c' where f: "f p c = (x, c')" by (cases "f p c")
  have one: "evolves (mc_runtime c) (mc_runtime c')" using assms [of c p] f by simp
  then show ?case using evolves_trans [OF Cons.IH one] by (simp add: f split: sum.split)
qed (simp add: unchanged)

context environment begin

lemma before_call_state_evolves:
  "evolves rt (snd (snd (before_call_state rd ck apply_to (\<lambda>solver. before_acquirer call solve p solver attempt) p fp cs rt)))"
proof -
  obtain found rt1 where f: "find_shared_state rd (ck_find ck) (BeforeP p) fp rt = (found, rt1)"
    by (cases "find_shared_state rd (ck_find ck) (BeforeP p) fp rt")
  note one = evolves_find [OF f]
  have "evolves rt rt2" if "obtain_before rd ck apply_to (before_acquirer call solve p solver attempt) p fp solver rt1 = (x, rt2)"
    for solver x rt2
    using evolves_trans [OF acquiring.obtain_evolves one] that by (metis snd_conv)
  then show ?thesis using one
    by (auto simp: before_call_state_def f Let_def unchanged split: prod.split option.split sum.split)
qed

lemma before_step_evolves:
  "evolves (mc_runtime mc) (mc_runtime (snd (before_step rd ck application
     (\<lambda>p solver. before_acquirer call solve p solver attempt) fp p mc)))"
proof -
  obtain outcome cs rt where b: "before_call_state rd (ck (bd_identity p))
      (\<lambda>st. application (bd_identity p) (bd_apply p) st (mc_values mc))
      (\<lambda>solver. before_acquirer call solve p solver attempt) p fp (mc_local mc) (mc_runtime mc) = (outcome, cs, rt)"
    by (metis surj_pair)
  have "evolves (mc_runtime mc) rt" using before_call_state_evolves [of "mc_runtime mc"] b by (metis snd_conv)
  then show ?thesis
    by (auto simp: before_step_def b dest: apply_into_runtime_eq split: sum.split prod.split)
qed

lemma attempt_evolves:
  "evolves (mc_runtime mc) (mc_runtime (snd (managed_values rd ck ck' application
     (\<lambda>p solver. before_acquirer call solve p solver attempt) befores challenges fp mc)))"
proof -
  let ?first = "each (before_step rd ck application (\<lambda>p solver. before_acquirer call solve p solver attempt) fp) befores mc"
  obtain x c where f: "?first = (x, c)" by (cases ?first)
  have one: "evolves (mc_runtime mc) (mc_runtime (snd ?first))" by (rule each_evolves [OF before_step_evolves])
  have "evolves (mc_runtime c) (mc_runtime (snd (each (challenge_step rd ck' application fp) challenges c)))"
    by (rule each_evolves [OF challenge_step_evolves])
  then show ?thesis using evolves_trans one by (auto simp: managed_values_def f split: sum.split)
qed

lemma solve_challenge_evolves:
  "evolves (mc_runtime mc) (mc_runtime (snd (solve_challenge rd ck application
     (\<lambda>i. solve_with (cd_identity p) attempt (solve i challenge)) p challenge fp attempt_values mc)))"
proof -
  let ?solve = "\<lambda>i. solve_with (cd_identity p) attempt (solve i challenge)"
  have shared: "evolves rt rt'" if "shared_state rd ck key mode apply_to (?solve i) fp rejected rt = (x, rt')"
    for rt key mode apply_to i rejected x rt'
    using solving.shared_evolves that by (metis snd_conv)
  have own: "evolves rt rt'" if "private_state apply_to (?solve i) fp rt = (x, rt')" for rt apply_to i x rt'
    using solving.private_evolves that by (metis snd_conv)
  have "evolves rt (snd (snd (challenge_state rd ck apply_to ?solve p challenge fp rejected cs rt)))" for rt apply_to rejected cs
    by (auto simp: challenge_state_def unchanged shared own split: option.split sum.split prod.split)
  then have "evolves rt rt'" if "challenge_state rd ck apply_to ?solve p challenge fp rejected cs rt = (x, cs', rt')"
    for rt apply_to rejected cs x cs' rt'
    using that by (metis snd_conv)
  then show ?thesis by (auto simp: solve_challenge_def split: prod.split sum.split)
qed

text \<open>An acquire operation is a call like any other: its own attempt goes through the same runtime.\<close>

lemma nested:
  "environment (\<lambda>a rt. case managed_values rd ck ck' application (\<lambda>p solver. before_acquirer call solve p solver attempt)
       (befores a) (challenges a) fp \<lparr>mc_runtime = rt, mc_local = [], mc_shared = [], mc_values = values_of a\<rparr> of
     (outcome, mc) \<Rightarrow> (answer a outcome (mc_values mc), mc_runtime mc)) solve"
proof
  fix rt :: "'s protection_runtime" and a
  show "evolves rt (snd (case managed_values rd ck ck' application (\<lambda>p solver. before_acquirer call solve p solver attempt)
       (befores a) (challenges a) fp \<lparr>mc_runtime = rt, mc_local = [], mc_shared = [], mc_values = values_of a\<rparr> of
     (outcome, mc) \<Rightarrow> (answer a outcome (mc_values mc), mc_runtime mc)))"
    using attempt_evolves [of "\<lparr>mc_runtime = rt, mc_local = [], mc_shared = [], mc_values = values_of a\<rparr>"]
    by (simp add: case_prod_beta)
qed (rule solve_evolves)

end

text \<open>
  Environments of the code: operations and solvers that leave the runtime alone, while another task invalidates
  policies, and acquire operations that are attempts under protections of their own.
\<close>

interpretation alone: environment "\<lambda>a rt. (answer a, rt)" "\<lambda>i challenge rt. (solution i challenge, rt)" for answer solution
  by unfold_locales (simp_all add: unchanged)

interpretation invalidating: environment
    "\<lambda>a rt. (answer a, snd (invalidate_protection (names a) rt))" "\<lambda>i challenge rt. (solution i challenge, clear_states rt)"
  for answer names solution
  by unfold_locales (simp_all add: evolves_invalidate evolves_clear)

interpretation protected: environment
    "\<lambda>a rt. case managed_values rd ck ck' application
         (\<lambda>p solver. before_acquirer (\<lambda>b rt. (answer b, rt)) (\<lambda>i challenge rt. (solution i challenge, rt)) p solver attempt)
         (befores a) (challenges a) fp \<lparr>mc_runtime = rt, mc_local = [], mc_shared = [], mc_values = values_of a\<rparr> of
       (outcome, mc) \<Rightarrow> (read_answer a outcome (mc_values mc), mc_runtime mc)"
    "\<lambda>i challenge rt. (solution i challenge, rt)"
  for rd ck ck' application answer solution attempt befores challenges fp values_of read_answer
  by (rule alone.nested)

text \<open>
  C40. The cache keeps its invariant through an attempt and through the reaction to a challenge, whatever policies apply:
  if the operations they call and the solvers do nothing to the runtime but what the runtime's own steps do (entries
  leave, states are numbered and enter; other tasks may do any of it meanwhile), then neither do they. So cached
  states keep different generations within a counter that never goes back, and every state in the cache was there
  before or is newer than all that were numbered before.
\<close>

theorem attempt_keeps_runtime:
  assumes calls: "\<And>a rt. evolves rt (snd (call a rt))"
    and solvers: "\<And>i challenge rt. evolves rt (snd (solve i challenge rt))"
    and ok: "runtime_ok (mc_runtime mc)"
    and after: "mc' \<in> {snd (managed_values rd ck ck' application (\<lambda>p solver. before_acquirer call solve p solver attempt)
        befores challenges fp mc),
      snd (solve_challenge rd ck'' application (\<lambda>i. solve_with (cd_identity c) attempt (solve i challenge)) c challenge fp
        attempt_values mc)}"
  shows "evolves (mc_runtime mc) (mc_runtime mc') \<and> runtime_ok (mc_runtime mc') \<and>
    pr_generation (mc_runtime mc) \<le> pr_generation (mc_runtime mc') \<and>
    (\<forall>e \<in> set (pr_state (mc_runtime mc')).
       e \<in> set (pr_state (mc_runtime mc)) \<or> pr_generation (mc_runtime mc) < ms_generation (snd e))"
proof -
  have env: "environment call solve" by (unfold_locales; rule calls solvers)
  have "evolves (mc_runtime mc) (mc_runtime mc')"
    using after environment.attempt_evolves [OF env] environment.solve_challenge_evolves [OF env] by auto
  then show ?thesis using evolves_proceeds [OF _ ok] by (simp add: proceeds_def)
qed

section \<open>Witnesses\<close>

definition clearance_reader :: "int solution_reader" where
  "clearance_reader = \<lparr>rd_select = \<lambda>s _. Inr (PInt s), rd_attr = \<lambda>_ _. None, rd_str = \<lambda>_. [], rd_expires = \<lambda>s. Some (1000 + s)\<rparr>"

definition clearance_key :: cache_key where
  "clearance_key = (\<lparr>kp_policy = ''waf'', kp_revision = 1, kp_requirement = 5, kp_solver = 6, kp_scope = CLIENT_STATE, kp_owner = 1\<rparr>, PNone)"

definition stale_clearance :: "int managed" where
  "stale_clearance = \<lparr>ms_solution = 40, ms_generation = 1, ms_identity = Some ''ua''\<rparr>"

definition clearance_runtime :: "int protection_runtime" where
  "clearance_runtime = \<lparr>pr_id = 1, pr_owner = None, pr_solvers = [], pr_state = [(clearance_key, stale_clearance)], pr_generation = 1\<rparr>"

definition one_clock :: clock where
  "one_clock = \<lparr>ck_find = \<lambda>_. 100, ck_check = 100, ck_share = 100\<rparr>"

definition accepts_all :: "int managed \<Rightarrow> managed_error + op_values" where
  "accepts_all st = Inr \<lparr>val_shape = [], vals = []\<rparr>"

definition refused_waiter :: "int waiter" where
  "refused_waiter = \<lparr>wt_meanwhile = id, wt_clock = one_clock, wt_apply = accepts_all,
     wt_acquire = solve_with ''waf'' 1 (\<lambda>rt. (None, rt)), wt_fp = Some ''ua'',
     wt_rejected = Some (clearance_key, stale_clearance)\<rparr>"

definition other_waiter :: "int waiter" where
  "other_waiter = refused_waiter\<lparr>wt_fp := Some ''other''\<rparr>"

lemmas clearance_defs = clearance_reader_def clearance_key_def stale_clearance_def clearance_runtime_def one_clock_def
  accepts_all_def refused_waiter_def other_waiter_def

theorem waiters_share_one_solve_witness:
  "\<exists>st rt'. shared_state clearance_reader one_clock clearance_key UNTIL_REJECTED accepts_all
      (solve_with ''waf'' 1 (\<lambda>rt. (Some 41, rt))) (Some ''ua'') (Some (clearance_key, stale_clearance)) clearance_runtime =
      (Inr (st, Some clearance_key), rt') \<and>
    take 2 (fst (serve clearance_reader clearance_key UNTIL_REJECTED [refused_waiter, refused_waiter, other_waiter] rt')) =
      [Inr (st, Some clearance_key), Inr (st, Some clearance_key)]"
proof -
  let ?st = "\<lparr>ms_solution = 41, ms_generation = 2, ms_identity = Some ''ua''\<rparr> :: int managed"
  let ?rt = "clearance_runtime\<lparr>pr_generation := 2, pr_state := [(clearance_key, ?st)]\<rparr>"
  have first: "shared_state clearance_reader one_clock clearance_key UNTIL_REJECTED accepts_all
      (solve_with ''waf'' 1 (\<lambda>rt. (Some 41, rt))) (Some ''ua'') (Some (clearance_key, stale_clearance)) clearance_runtime =
      (Inr (?st, Some clearance_key), ?rt)"
    by (simp add: shared_state_def drop_rejected_def publish_state_def solve_with_def new_managed_state_def
        solution_is_shareable_def not_expired_def clearance_defs)
  let ?ws = "[refused_waiter, refused_waiter, other_waiter]"
  have "takeWhile (can_share clearance_reader clearance_key UNTIL_REJECTED ?st) ?ws = [refused_waiter, refused_waiter]"
    by (simp add: can_share_def managed_state_valid_def identity_matches_def solution_is_shareable_def not_expired_def clearance_defs)
  then have "take 2 (fst (serve clearance_reader clearance_key UNTIL_REJECTED ?ws ?rt)) =
      [Inr (?st, Some clearance_key), Inr (?st, Some clearance_key)]"
    using waiters_share_one_solve [OF first, of ?ws] by (simp only:) (simp add: numeral_2_eq_2)
  with first show ?thesis by blast
qed

definition clearance_policy :: before_declaration where
  "clearance_policy = \<lparr>bd_identity = ''waf'', bd_revision = 1, bd_scope = empty_scope, bd_acquire = Some 5, bd_challenge = None,
     bd_solver = None, bd_apply = [], bd_mode = UNTIL_REJECTED, bd_state_scope = CLIENT_STATE\<rparr>"

definition clearance_call :: "int managed_call" where
  "clearance_call = \<lparr>mc_runtime = clearance_runtime, mc_local = [], mc_shared = [], mc_values = \<lparr>val_shape = [], vals = []\<rparr>\<rparr>"

text \<open>The acquire operation succeeds; meanwhile another task has invalidated the policy.\<close>

definition clearance_acquire :: "nat \<Rightarrow> int protection_runtime \<Rightarrow> (sdk_error + int) \<times> int protection_runtime" where
  "clearance_acquire a rt = (Inr 41, snd (invalidate_protection (Some [''waf'']) rt))"

definition no_solver :: "nat \<Rightarrow> pyval \<Rightarrow> int protection_runtime \<Rightarrow> int option \<times> int protection_runtime" where
  "no_solver i challenge rt = (None, clear_states rt)"

theorem attempt_keeps_runtime_witness:
  "\<exists>mc'. managed_values clearance_reader (\<lambda>_. one_clock) (\<lambda>_. one_clock) (\<lambda>_ _ st _. accepts_all st)
      (\<lambda>p solver. before_acquirer clearance_acquire no_solver p solver 1) [clearance_policy] [] (Some ''ua'') clearance_call =
      (Inr (), mc') \<and>
    runtime_ok (mc_runtime mc') \<and> pr_generation clearance_runtime \<le> pr_generation (mc_runtime mc') \<and>
    evolves clearance_runtime (mc_runtime mc') \<and> map (ms_generation \<circ> snd) (pr_state (mc_runtime mc')) = [2]"
proof -
  let ?key = "(\<lparr>kp_policy = ''waf'', kp_revision = 1, kp_requirement = 5, kp_solver = 5, kp_scope = CLIENT_STATE, kp_owner = 1\<rparr>, PNone)"
  let ?st = "\<lparr>ms_solution = 41, ms_generation = 2, ms_identity = Some ''ua''\<rparr> :: int managed"
  let ?rt = "clearance_runtime\<lparr>pr_generation := 2, pr_state := [(?key, ?st)]\<rparr>"
  let ?mc = "clearance_call\<lparr>mc_runtime := ?rt, mc_shared := [(''waf'', ?key, ?st)]\<rparr>"
  let ?run = "managed_values clearance_reader (\<lambda>_. one_clock) (\<lambda>_. one_clock) (\<lambda>_ _ st _. accepts_all st)
      (\<lambda>p solver. before_acquirer clearance_acquire no_solver p solver 1) [clearance_policy] [] (Some ''ua'') clearance_call"
  have run: "?run = (Inr (), ?mc)"
    by (simp add: managed_values_def before_step_def before_call_state_def local_before_def find_shared_state_def is_shared_def
        bound_solver_def protection_cache_prefix_def newest_def obtain_before_def shared_state_def drop_rejected_def publish_state_def
        before_acquirer_def clearance_acquire_def invalidate_protection_def
        new_managed_state_def solution_is_shareable_def not_expired_def apply_into_def note_shared_def
        clearance_policy_def clearance_call_def clearance_defs)
  have ok: "runtime_ok (mc_runtime clearance_call)"
    by (simp add: runtime_ok_def clearance_call_def clearance_defs)
  have calls: "evolves rt (snd (clearance_acquire a rt))" and solvers: "evolves rt (snd (no_solver i challenge rt))"
    for a rt i challenge
    by (simp_all add: clearance_acquire_def no_solver_def evolves_invalidate evolves_clear)
  note kept = attempt_keeps_runtime [OF calls solvers ok, of "snd ?run"]
  show ?thesis using kept [OF insertI1] run
    by (intro exI [of _ ?mc]) (simp add: clearance_call_def)
qed

end
