(* ===== verification/ProtectionLocks.thy ===== *)
theory ProtectionLocks
  imports Prelude Complex_Main
begin

text \<open>
  The lock registry behind shared protection states (\<open>_ProtectionLockRegistry\<close> of \<open>clients/executor.py\<close>):
  one lock per key, created by the first task that wants it and dropped by the last that leaves. Tasks of
  several threads interleave: what a task does under the registry's own guard is one step, and so are taking and
  releasing a lock. A task that is cancelled while it polls leaves as one that is done.

  Entries are objects, numbered as they are created.
\<close>

section \<open>The registry and its tasks\<close>

datatype 'k lock_pc = Outside | Waiting 'k nat | Holding 'k nat | Released 'k nat

record 'k lock_registry =
  lr_entries :: "('k, nat) dict"
  lr_users :: "nat \<Rightarrow> nat"
  lr_locked :: "nat \<Rightarrow> bool"
  lr_next :: nat
  lr_pc :: "nat \<Rightarrow> 'k lock_pc"

definition fresh_registry :: "'k lock_registry" where
  "fresh_registry = \<lparr>lr_entries = [], lr_users = \<lambda>_. 0, lr_locked = \<lambda>_. False, lr_next = 0, lr_pc = \<lambda>_. Outside\<rparr>"

text \<open>\<open>hold\<close>, up to the poll: the entry of the key, or a new one, with one more user.\<close>

definition lock_entry :: "'k \<Rightarrow> 'k lock_registry \<Rightarrow> nat \<times> 'k lock_registry" where
  "lock_entry k r =
     (case map_of (lr_entries r) k of
        Some e \<Rightarrow> (e, r)
      | None \<Rightarrow> (lr_next r,
          r\<lparr>lr_entries := AList.update k (lr_next r) (lr_entries r), lr_users := (lr_users r)(lr_next r := 0),
            lr_locked := (lr_locked r)(lr_next r := False), lr_next := Suc (lr_next r)\<rparr>))"

definition lock_enter :: "nat \<Rightarrow> 'k \<Rightarrow> 'k lock_registry \<Rightarrow> 'k lock_registry" where
  "lock_enter t k r =
     (case lock_entry k r of (e, r') \<Rightarrow>
        r'\<lparr>lr_users := (lr_users r')(e := Suc (lr_users r' e)), lr_pc := (lr_pc r')(t := Waiting k e)\<rparr>)"

definition lock_take :: "nat \<Rightarrow> 'k \<Rightarrow> nat \<Rightarrow> 'k lock_registry \<Rightarrow> 'k lock_registry" where
  "lock_take t k e r = r\<lparr>lr_locked := (lr_locked r)(e := True), lr_pc := (lr_pc r)(t := Holding k e)\<rparr>"

definition lock_release :: "nat \<Rightarrow> 'k \<Rightarrow> nat \<Rightarrow> 'k lock_registry \<Rightarrow> 'k lock_registry" where
  "lock_release t k e r = r\<lparr>lr_locked := (lr_locked r)(e := False), lr_pc := (lr_pc r)(t := Released k e)\<rparr>"

definition lock_leave :: "nat \<Rightarrow> 'k \<Rightarrow> nat \<Rightarrow> 'k lock_registry \<Rightarrow> 'k lock_registry" where
  "lock_leave t k e r =
     (let n = lr_users r e - 1;
          r' = r\<lparr>lr_users := (lr_users r)(e := n), lr_pc := (lr_pc r)(t := Outside)\<rparr> in
      if n = 0 \<and> map_of (lr_entries r) k = Some e then r'\<lparr>lr_entries := AList.delete k (lr_entries r)\<rparr> else r')"

text \<open>\<open>close_protection_session\<close> drops the entries, held or not.\<close>

definition lock_close :: "'k lock_registry \<Rightarrow> 'k lock_registry" where
  "lock_close r = r\<lparr>lr_entries := []\<rparr>"

inductive lock_step :: "'k lock_registry \<Rightarrow> 'k lock_registry \<Rightarrow> bool" where
  enter: "lr_pc r t = Outside \<Longrightarrow> lock_step r (lock_enter t k r)"
| take: "lr_pc r t = Waiting k e \<Longrightarrow> \<not> lr_locked r e \<Longrightarrow> lock_step r (lock_take t k e r)"
| release: "lr_pc r t = Holding k e \<Longrightarrow> lock_step r (lock_release t k e r)"
| leave: "lr_pc r t = Released k e \<Longrightarrow> lock_step r (lock_leave t k e r)"
| cancel: "lr_pc r t = Waiting k e \<Longrightarrow> lock_step r (lock_leave t k e r)"

inductive lock_reachable :: "bool \<Rightarrow> 'k lock_registry \<Rightarrow> bool" for closing where
  start: "lock_reachable closing fresh_registry"
| step: "lock_reachable closing r \<Longrightarrow> lock_step r r' \<Longrightarrow> lock_reachable closing r'"
| close: "lock_reachable closing r \<Longrightarrow> closing \<Longrightarrow> lock_reachable closing (lock_close r)"

text \<open>The delays of a waiter between its polls, in seconds.\<close>

definition next_delay :: "rat \<Rightarrow> rat" where
  "next_delay d = min (d * 2) (1 / 100)"

fun poll_delay :: "nat \<Rightarrow> rat" where
  "poll_delay 0 = 1 / 1000"
| "poll_delay (Suc n) = next_delay (poll_delay n)"

section \<open>Lemmas: who refers to an entry\<close>

fun pc_entry :: "'k lock_pc \<Rightarrow> ('k \<times> nat) option" where
  "pc_entry Outside = None"
| "pc_entry (Waiting k e) = Some (k, e)"
| "pc_entry (Holding k e) = Some (k, e)"
| "pc_entry (Released k e) = Some (k, e)"

fun pc_holds :: "'k lock_pc \<Rightarrow> nat option" where
  "pc_holds (Holding k e) = Some e"
| "pc_holds _ = None"

lemma pc_holds_entry: "pc_holds p = Some e \<Longrightarrow> \<exists>k. pc_entry p = Some (k, e)"
  by (cases p) auto

definition referers :: "(nat \<Rightarrow> 'k lock_pc) \<Rightarrow> nat \<Rightarrow> nat set" where
  "referers pc e = {t. \<exists>k. pc_entry (pc t) = Some (k, e)}"

lemma referers_update:
  "referers (pc(t := p)) e =
     (if \<exists>k. pc_entry p = Some (k, e) then insert t (referers pc e) else referers pc e - {t})"
  by (auto simp: referers_def)

definition holders :: "(nat \<Rightarrow> 'k lock_pc) \<Rightarrow> nat \<Rightarrow> nat set" where
  "holders pc e = {t. pc_holds (pc t) = Some e}"

lemma holders_update:
  "holders (pc(t := p)) e = (if pc_holds p = Some e then insert t (holders pc e) else holders pc e - {t})"
  by (auto simp: holders_def)

lemma holders_absent: "pc_holds (pc t) \<noteq> Some e \<Longrightarrow> holders pc e - {t} = holders pc e"
  by (auto simp: holders_def)

lemma holders_referers: "holders pc e \<subseteq> referers pc e"
  using pc_holds_entry by (force simp: holders_def referers_def)

lemma referers_mem: "pc_entry (pc t) = Some (k, e) \<Longrightarrow> t \<in> referers pc e"
  by (auto simp: referers_def)

text \<open>
  The invariant that holds even when the registry is closed in between: the users of an entry are the tasks
  that refer to it, no entry is kept without one, an entry serves one key, and it is locked exactly while one task holds it.
\<close>

definition users_counted :: "'k lock_registry \<Rightarrow> bool" where
  "users_counted r \<longleftrightarrow> (\<forall>e. finite (referers (lr_pc r) e) \<and> lr_users r e = card (referers (lr_pc r) e))"

definition entries_used :: "'k lock_registry \<Rightarrow> bool" where
  "entries_used r \<longleftrightarrow> dict_ok (lr_entries r) \<and>
     (\<forall>k e. map_of (lr_entries r) k = Some e \<longrightarrow> (\<exists>t. pc_entry (lr_pc r t) = Some (k, e)))"

definition keys_agree :: "'k lock_registry \<Rightarrow> bool" where
  "keys_agree r \<longleftrightarrow> (\<forall>t k e. pc_entry (lr_pc r t) = Some (k, e) \<longrightarrow> e < lr_next r) \<and>
     (\<forall>t t' k k' e. pc_entry (lr_pc r t) = Some (k, e) \<and> pc_entry (lr_pc r t') = Some (k', e) \<longrightarrow> k = k')"

definition locks_held :: "'k lock_registry \<Rightarrow> bool" where
  "locks_held r \<longleftrightarrow> (\<forall>e. if lr_locked r e then \<exists>t. holders (lr_pc r) e = {t} else holders (lr_pc r) e = {})"

definition registry_ok :: "'k lock_registry \<Rightarrow> bool" where
  "registry_ok r \<longleftrightarrow> users_counted r \<and> entries_used r \<and> keys_agree r \<and> locks_held r"

text \<open>Until the first close, a task's entry is the one in the registry.\<close>

definition linked :: "'k lock_registry \<Rightarrow> bool" where
  "linked r \<longleftrightarrow> (\<forall>t k e. pc_entry (lr_pc r t) = Some (k, e) \<longrightarrow> map_of (lr_entries r) k = Some e)"

lemma fresh_unreferred: "keys_agree r \<Longrightarrow> referers (lr_pc r) (lr_next r) = {}"
  by (auto simp: keys_agree_def referers_def)

lemma fresh_ok: "registry_ok fresh_registry" "linked fresh_registry"
  by (simp_all add: registry_ok_def users_counted_def entries_used_def keys_agree_def locks_held_def linked_def
      fresh_registry_def referers_def holders_def)

lemma entry_below: "registry_ok r \<Longrightarrow> map_of (lr_entries r) k = Some e \<Longrightarrow> e < lr_next r"
  unfolding registry_ok_def entries_used_def keys_agree_def by blast

lemma lock_enter_ok:
  assumes ok: "registry_ok r" and out: "lr_pc r t = Outside"
  shows "registry_ok (lock_enter t k r)"
proof -
  have fresh: "referers (lr_pc r) (lr_next r) = {}" using ok by (simp add: registry_ok_def fresh_unreferred)
  have free: "t \<notin> referers (lr_pc r) e" for e using out by (simp add: referers_def)
  obtain e r' where e: "lock_entry k r = (e, r')" by (metis surj_pair)
  have pc: "lr_pc r' = lr_pc r" using e by (auto simp: lock_entry_def split: option.splits)
  have users: "lr_users r' = lr_users r"
    using e ok fresh by (auto simp: lock_entry_def registry_ok_def users_counted_def fun_eq_iff split: option.splits)
  have locked: "lr_locked r' = lr_locked r"
  proof -
    have "\<not> lr_locked r (lr_next r)"
      using ok fresh holders_referers [of "lr_pc r" "lr_next r"] unfolding registry_ok_def locks_held_def
      by (metis insert_not_empty subset_empty)
    then show ?thesis using e by (auto simp: lock_entry_def fun_upd_idem split: option.splits)
  qed
  have entries: "dict_ok (lr_entries r')" "map_of (lr_entries r') k = Some e"
    "\<And>k'. k' \<noteq> k \<Longrightarrow> map_of (lr_entries r') k' = map_of (lr_entries r) k'"
    using e ok by (auto simp: lock_entry_def registry_ok_def entries_used_def split: option.splits)
  have bound: "e < lr_next r'" "lr_next r \<le> lr_next r'"
    using e entry_below [OF ok, of k] by (auto simp: lock_entry_def split: option.splits)
  have own: "k' = k" if "pc_entry (lr_pc r t') = Some (k', e)" for t' k'
  proof (cases "map_of (lr_entries r) k")
    case None
    then show ?thesis using e fresh that by (auto simp: lock_entry_def referers_def)
  next
    case (Some e')
    then show ?thesis using e ok that
      unfolding registry_ok_def entries_used_def keys_agree_def by (fastforce simp: lock_entry_def)
  qed
  have u: "users_counted (lock_enter t k r)"
    using ok free by (auto simp: lock_enter_def e pc users users_counted_def referers_update registry_ok_def)
  have "\<exists>t'. pc_entry (((lr_pc r)(t := Waiting k e)) t') = Some (k', e')" if m: "map_of (lr_entries r') k' = Some e'" for k' e'
  proof (cases "k' = k")
    case True
    then show ?thesis using m entries(2) by (intro exI [of _ t]) simp
  next
    case False
    then obtain t' where t': "pc_entry (lr_pc r t') = Some (k', e')"
      using m entries(3) [OF False] ok unfolding registry_ok_def entries_used_def by metis
    then have "t' \<noteq> t" using out by auto
    then show ?thesis using t' by (intro exI [of _ t']) simp
  qed
  then have "entries_used (lock_enter t k r)"
    using entries(1) unfolding entries_used_def by (simp add: lock_enter_def e pc del: fun_upd_apply)
  moreover have "keys_agree (lock_enter t k r)"
    using ok bound own unfolding registry_ok_def keys_agree_def
    by (auto simp: lock_enter_def e pc split: if_splits) (meson order.strict_trans2)+
  moreover have "locks_held (lock_enter t k r)"
    using ok out unfolding registry_ok_def locks_held_def by (simp add: lock_enter_def e pc locked holders_update holders_absent)
  ultimately show ?thesis using u by (simp add: registry_ok_def)
qed

text \<open>A task that keeps its entry, or drops it, and does not change the registry's tables otherwise.\<close>

lemma referers_same:
  "pc_entry p = pc_entry (pc t) \<Longrightarrow> referers (pc(t := p)) e = referers pc e"
  by (auto simp: referers_def)

lemma pc_entry_same: "pc_entry p = pc_entry (pc t) \<Longrightarrow> pc_entry ((pc(t := p)) t') = pc_entry (pc t')"
  by simp

lemma lock_take_ok:
  assumes ok: "registry_ok r" and pc: "lr_pc r t = Waiting k e" and free: "\<not> lr_locked r e"
  shows "registry_ok (lock_take t k e r)"
proof -
  have same: "pc_entry (Holding k e) = pc_entry (lr_pc r t)" using pc by simp
  have "users_counted (lock_take t k e r)" "entries_used (lock_take t k e r)" "keys_agree (lock_take t k e r)"
    using ok unfolding registry_ok_def users_counted_def entries_used_def keys_agree_def lock_take_def
    by (simp_all add: referers_same [where pc = "lr_pc r" and t = t, OF same] pc_entry_same [where pc = "lr_pc r" and t = t, OF same] del: fun_upd_apply)
  moreover have "locks_held (lock_take t k e r)"
    using ok pc free unfolding registry_ok_def locks_held_def by (simp add: lock_take_def holders_update holders_absent)
  ultimately show ?thesis by (simp add: registry_ok_def)
qed

lemma lock_release_ok:
  assumes ok: "registry_ok r" and pc: "lr_pc r t = Holding k e"
  shows "registry_ok (lock_release t k e r)"
proof -
  have same: "pc_entry (Released k e) = pc_entry (lr_pc r t)" using pc by simp
  have "users_counted (lock_release t k e r)" "entries_used (lock_release t k e r)" "keys_agree (lock_release t k e r)"
    using ok unfolding registry_ok_def users_counted_def entries_used_def keys_agree_def lock_release_def
    by (simp_all add: referers_same [where pc = "lr_pc r" and t = t, OF same] pc_entry_same [where pc = "lr_pc r" and t = t, OF same] del: fun_upd_apply)
  moreover have "t \<in> holders (lr_pc r) e" using pc by (simp add: holders_def)
  then have "holders (lr_pc r) e - {t} = {}"
    using ok unfolding registry_ok_def locks_held_def by (metis Diff_cancel empty_iff singletonD)
  then have "locks_held (lock_release t k e r)"
    using ok pc unfolding registry_ok_def locks_held_def by (simp add: lock_release_def holders_update holders_absent)
  ultimately show ?thesis by (simp add: registry_ok_def)
qed

lemma lock_leave_ok:
  assumes ok: "registry_ok r" and pc: "lr_pc r t = Waiting k e \<or> lr_pc r t = Released k e"
  shows "registry_ok (lock_leave t k e r)"
proof -
  have entry: "pc_entry (lr_pc r t) = Some (k, e)" and holds: "pc_holds (lr_pc r t) = None" using pc by auto
  have fin: "finite (referers (lr_pc r) e')" and count: "lr_users r e' = card (referers (lr_pc r) e')" for e'
    using ok by (simp_all add: registry_ok_def users_counted_def)
  have mine: "t \<in> referers (lr_pc r) e" using entry by (auto simp: referers_def)
  have after: "lr_pc (lock_leave t k e r) = (lr_pc r)(t := Outside)" "lr_locked (lock_leave t k e r) = lr_locked r"
    "lr_users (lock_leave t k e r) = (lr_users r)(e := lr_users r e - 1)" "lr_next (lock_leave t k e r) = lr_next r"
    by (simp_all add: lock_leave_def Let_def)
  have refs: "referers ((lr_pc r)(t := Outside)) e' = referers (lr_pc r) e' - {t}" for e' by (simp add: referers_update)
  have other: "t \<notin> referers (lr_pc r) e'" if "e' \<noteq> e" for e' using entry that by (auto simp: referers_def)
  have "users_counted (lock_leave t k e r)"
    using fin count mine other unfolding users_counted_def after refs by simp
  moreover have "entries_used (lock_leave t k e r)"
  proof -
    have used: "\<exists>t'. pc_entry (((lr_pc r)(t := Outside)) t') = Some (k', e')"
      if m: "map_of (lr_entries r) k' = Some e'" and left: "e' = e \<Longrightarrow> lr_users r e - 1 \<noteq> 0" for k' e'
    proof -
      have key: "k'' = k'" if "pc_entry (lr_pc r t') = Some (k'', e')" for t' k''
        using ok m that unfolding registry_ok_def entries_used_def keys_agree_def by blast
      have "referers (lr_pc r) e' - {t} \<noteq> {}"
      proof (cases "e' = e")
        case True
        then have "card (referers (lr_pc r) e - {t}) \<noteq> 0" using left count mine fin by simp
        then show ?thesis using True by (metis card.empty)
      next
        case False
        obtain t' where "pc_entry (lr_pc r t') = Some (k', e')"
          using ok m unfolding registry_ok_def entries_used_def by blast
        then show ?thesis using other [OF False] referers_mem by fastforce
      qed
      then obtain t' k'' where "t' \<noteq> t" "pc_entry (lr_pc r t') = Some (k'', e')" by (auto simp: referers_def)
      then show ?thesis using key by (metis fun_upd_other)
    qed
    have keyed: "k' = k" if "map_of (lr_entries r) k' = Some e" for k'
      using ok entry that unfolding registry_ok_def entries_used_def keys_agree_def by blast
    have ok': "dict_ok (lr_entries r)" using ok by (simp add: registry_ok_def entries_used_def)
    show ?thesis
    proof (cases "lr_users r e - 1 = 0 \<and> map_of (lr_entries r) k = Some e")
      case True
      then have "lr_entries (lock_leave t k e r) = AList.delete k (lr_entries r)" by (simp add: lock_leave_def)
      moreover have "e' \<noteq> e" if "map_of (lr_entries r) k' = Some e'" "k' \<noteq> k" for k' e' using that keyed by auto
      ultimately show ?thesis unfolding entries_used_def after using ok' by (auto intro!: used simp del: fun_upd_apply split: if_splits)
    next
      case False
      then have same: "lr_entries (lock_leave t k e r) = lr_entries r" by (simp only: lock_leave_def Let_def if_False) simp
      have "lr_users r e - 1 \<noteq> 0" if "map_of (lr_entries r) k' = Some e" for k' using False keyed that by auto
      then show ?thesis unfolding entries_used_def after same using ok' by (auto intro!: used simp: not_le simp del: fun_upd_apply)
    qed
  qed
  moreover have "keys_agree (lock_leave t k e r)"
    using ok unfolding registry_ok_def keys_agree_def after by auto
  moreover have "locks_held (lock_leave t k e r)"
    using ok holds unfolding registry_ok_def locks_held_def after by (simp add: holders_update holders_absent)
  ultimately show ?thesis by (simp add: registry_ok_def)
qed

lemma lock_step_ok: "lock_step r r' \<Longrightarrow> registry_ok r \<Longrightarrow> registry_ok r'"
  by (induction rule: lock_step.induct) (auto intro: lock_enter_ok lock_take_ok lock_release_ok lock_leave_ok)

lemma lock_close_ok: "registry_ok r \<Longrightarrow> registry_ok (lock_close r)"
  by (simp add: registry_ok_def users_counted_def entries_used_def keys_agree_def locks_held_def lock_close_def)

lemma lock_reachable_ok: "lock_reachable closing r \<Longrightarrow> registry_ok r"
  by (induction rule: lock_reachable.induct) (auto intro: fresh_ok lock_step_ok lock_close_ok)

lemma linked_entry: "linked r \<Longrightarrow> pc_entry (lr_pc r t) = Some (k, e) \<Longrightarrow> map_of (lr_entries r) k = Some e"
  unfolding linked_def by blast

lemma lock_leave_linked:
  assumes ok: "registry_ok r" and linked: "linked r" and entry: "pc_entry (lr_pc r t) = Some (k, e)"
  shows "linked (lock_leave t k e r)"
proof -
  have kept: "lr_users r e - 1 \<noteq> 0" if "pc_entry (lr_pc r t') = Some (k, e')" "t' \<noteq> t" for t' e'
  proof -
    have "e' = e" using linked_entry [OF linked that(1)] linked_entry [OF linked entry] by simp
    then have "{t, t'} \<subseteq> referers (lr_pc r) e" using entry that(1) by (auto simp: referers_def)
    moreover have "finite (referers (lr_pc r) e)" "lr_users r e = card (referers (lr_pc r) e)"
      using ok by (simp_all add: registry_ok_def users_counted_def)
    ultimately have "card {t, t'} \<le> lr_users r e" by (metis card_mono)
    then show ?thesis using that(2) by simp
  qed
  have "map_of (lr_entries (lock_leave t k e r)) k' = Some e'"
    if "pc_entry (lr_pc r t') = Some (k', e')" "t' \<noteq> t" for t' k' e'
    using linked_entry [OF linked that(1)] kept [of t' e'] that by (auto simp: lock_leave_def Let_def)
  moreover have "lr_pc (lock_leave t k e r) = (lr_pc r)(t := Outside)" by (simp add: lock_leave_def Let_def)
  ultimately show ?thesis unfolding linked_def by (metis fun_upd_apply option.distinct(1) pc_entry.simps(1))
qed

lemma lock_step_linked:
  assumes "lock_step r r'" and ok: "registry_ok r" and linked: "linked r"
  shows "linked r'"
  using assms(1)
proof cases
  case (enter t k)
  then show ?thesis using linked
    by (auto simp: linked_def lock_enter_def lock_entry_def split: option.splits)
next
  case (take t k e)
  then show ?thesis using linked linked_entry [OF linked, of t k e] by (auto simp: linked_def lock_take_def)
next
  case (release t k e)
  then show ?thesis using linked linked_entry [OF linked, of t k e] by (auto simp: linked_def lock_release_def)
next
  case (leave t k e)
  then show ?thesis using lock_leave_linked [OF ok linked, of t k e] by simp
next
  case (cancel t k e)
  then show ?thesis using lock_leave_linked [OF ok linked, of t k e] by simp
qed

lemma lock_reachable_linked: "lock_reachable False r \<Longrightarrow> linked r"
  by (induction rule: lock_reachable.induct) (auto intro: fresh_ok lock_step_linked lock_reachable_ok)

lemma holders_one:
  assumes "locks_held r" "pc_holds (lr_pc r t) = Some e" "pc_holds (lr_pc r t') = Some e"
  shows "t = t'"
proof -
  have "t \<in> holders (lr_pc r) e" "t' \<in> holders (lr_pc r) e" using assms(2,3) by (simp_all add: holders_def)
  then show ?thesis using assms(1) unfolding locks_held_def by (metis empty_iff singletonD)
qed

lemma locked_holder:
  assumes "locks_held r"
  shows "lr_locked r e \<longleftrightarrow> (\<exists>t. pc_holds (lr_pc r t) = Some e)"
proof -
  have "lr_locked r e \<longleftrightarrow> holders (lr_pc r) e \<noteq> {}" using assms unfolding locks_held_def by (metis insert_not_empty)
  then show ?thesis by (simp add: holders_def)
qed

text \<open>
  C38. Mutual exclusion: however the tasks interleave, are cancelled or come back, two tasks are never inside the section
  of one key, as long as the registry is not closed meanwhile.
\<close>

theorem one_holder_per_key:
  assumes "lock_reachable False r" and "lr_pc r t = Holding k e" and "lr_pc r t' = Holding k e'"
  shows "t = t'"
proof -
  have "e = e'"
    using linked_entry [OF lock_reachable_linked [OF assms(1)], of t k e] linked_entry [OF lock_reachable_linked [OF assms(1)], of t' k e']
      assms(2,3) by simp
  then show ?thesis
    using lock_reachable_ok [OF assms(1)] assms(2,3) holders_one [of r t e t'] by (simp add: registry_ok_def)
qed

text \<open>
  No entry leaks and no lock is lost: at any moment, closed or not, the registry has an entry only for a key some task
  is at, and a lock that is taken is held by a task that has not left.
\<close>

lemma entries_have_users:
  assumes "lock_reachable closing r"
  shows "(\<forall>k e. map_of (lr_entries r) k = Some e \<longrightarrow> (\<exists>t. pc_entry (lr_pc r t) = Some (k, e)) \<and> 0 < lr_users r e) \<and>
    (\<forall>e. lr_locked r e \<longleftrightarrow> (\<exists>t k. lr_pc r t = Holding k e))"
proof -
  note ok = lock_reachable_ok [OF assms]
  have holds: "pc_holds p = Some e \<longleftrightarrow> (\<exists>k. p = Holding k e)" for p :: "'a lock_pc" and e by (cases p) auto
  have "0 < lr_users r e" if "pc_entry (lr_pc r t) = Some (k, e)" for t k e
    using ok that unfolding registry_ok_def users_counted_def by (metis card_gt_0_iff referers_mem empty_iff)
  moreover have "\<exists>t. pc_entry (lr_pc r t) = Some (k, e)" if "map_of (lr_entries r) k = Some e" for k e
    using ok that unfolding registry_ok_def entries_used_def by blast
  moreover have "lr_locked r e \<longleftrightarrow> (\<exists>t k. lr_pc r t = Holding k e)" for e
    using ok holds by (simp add: registry_ok_def locked_holder)
  ultimately show ?thesis by blast
qed

text \<open>Closed while a task holds the lock of a key, the registry gives the next one a lock of its own.\<close>

lemma closing_breaks_exclusion:
  "\<exists>r. lock_reachable True r \<and> lr_pc r 0 = Holding () 0 \<and> lr_pc r 1 = Holding () 1"
proof -
  let ?a = "lock_enter 0 () fresh_registry" let ?b = "lock_take 0 () 0 ?a" let ?c = "lock_enter 1 () (lock_close ?b)"
  note defs = lock_enter_def lock_entry_def lock_take_def lock_close_def fresh_registry_def
  have "lock_reachable True ?a" by (rule lock_reachable.step [OF lock_reachable.start], rule lock_step.enter) (simp add: fresh_registry_def)
  then have "lock_reachable True ?b" by (rule lock_reachable.step, intro lock_step.take) (simp_all add: defs)
  then have "lock_reachable True (lock_close ?b)" by (rule lock_reachable.close) simp
  then have "lock_reachable True ?c" by (rule lock_reachable.step, intro lock_step.enter) (simp add: defs)
  then have "lock_reachable True (lock_take 1 () 1 ?c)" by (rule lock_reachable.step, intro lock_step.take) (simp_all add: defs)
  then show ?thesis by (intro exI conjI) (assumption, simp_all add: defs)
qed

text \<open>A waiter polls at delays that double up to a hundredth of a second.\<close>

lemma poll_delay_value: "poll_delay n = min (2 ^ n / 1000) (1 / 100)"
  by (induction n) (auto simp: next_delay_def min_def field_simps)

section \<open>Witnesses\<close>

definition two_tasks :: "string lock_registry" where
  "two_tasks = lock_enter 1 ''waf'' (lock_take 0 ''waf'' 0 (lock_enter 0 ''waf'' fresh_registry))"

lemma two_tasks_reachable: "lock_reachable False two_tasks"
proof -
  let ?a = "lock_enter 0 ''waf'' fresh_registry :: string lock_registry"
  note defs = lock_enter_def lock_entry_def lock_take_def fresh_registry_def
  have "lock_reachable False ?a" by (rule lock_reachable.step [OF lock_reachable.start], rule lock_step.enter) (simp add: fresh_registry_def)
  then have "lock_reachable False (lock_take 0 ''waf'' 0 ?a)" by (rule lock_reachable.step, intro lock_step.take) (simp_all add: defs)
  then show ?thesis unfolding two_tasks_def by (rule lock_reachable.step, intro lock_step.enter) (simp add: defs)
qed

theorem one_holder_per_key_witness: "lr_pc two_tasks 0 = Holding ''waf'' 0 \<and> (lr_pc two_tasks 1 = Holding ''waf'' 0) = ((0 :: nat) = 1)"
proof -
  have zero: "lr_pc two_tasks 0 = Holding ''waf'' 0"
    by (simp add: two_tasks_def lock_enter_def lock_entry_def lock_take_def fresh_registry_def)
  show ?thesis using one_holder_per_key [OF two_tasks_reachable zero, of 1 0] zero by auto
qed

lemma entries_have_users_witness: "0 < lr_users two_tasks 0 \<and> lr_locked two_tasks 0"
  using entries_have_users [OF two_tasks_reachable]
  by (auto simp: two_tasks_def lock_enter_def lock_entry_def lock_take_def fresh_registry_def)

end
