(* ===== verification/Spec2Isabelle.thy ===== *)
theory Spec2Isabelle
  imports Dependencies Attempts WsDelivery Pagination Cases Compiler CryptoHttp ProtectionState ProtectionLocks
begin

text \<open>
  eazy-sdk is a Python library on which typed SDKs for foreign HTTP and WebSocket services are
  written. An operation is declared as a class; compiling it gives a plan, a set of slots and the
  cases of its responses; calling it binds the arguments to the slots, resolves dependencies and the
  session, emits attempts until a policy stops, and reads the response. This development models the
  logic of that path, component by component, and proves what makes each component correct. Paths
  below are relative to \<open>src/eazy_sdk/\<close>.

  \<^bold>\<open>Theories.\<close>

  \<^item> \<open>Prelude\<close>: the Python values the library passes around (\<open>pyval\<close>), dictionaries as association
    lists in insertion order, results \<open>error + 'a\<close> with \<open>bindE\<close> and \<open>mapE\<close>, and generic lemmas.
  \<^item> \<open>Errors\<close>: the exceptions of \<open>core/errors.py\<close> with their class hierarchy.
  \<^item> \<open>Kernel\<close> (\<open>core/kernel.py\<close>): slots, shapes, binding a call, patches, arbitration of parsed cases.
    Lemmas: when binding succeeds and with what values, patches act slot by slot and keep types,
    what arbitration selects.
  \<^item> \<open>Graph\<close>: the queue-driven topological sort both schedulers share, as the locale \<open>kahn\<close>;
    \<open>Plan\<close> (\<open>core/http_plan.py\<close>, \<open>compile_graph\<close>) and \<open>Dependencies\<close>
    (\<open>dependencies/__init__.py\<close>, whose loop \<open>Signatures\<close> shares) interpret it. Lemmas: a compiled order is a permutation that respects
    every edge and the phases, and it exists exactly for sound acyclic declarations.
  \<^item> \<open>Dependencies\<close> also has the resolution of requirements with its three caches.
  \<^item> \<open>Cookies\<close> (\<open>cookies.py\<close>): \<open>Set-Cookie\<close> lines, scope and expiry, the jar and its limits, snapshots
    and their primitive form. Lemmas: the jar invariant and its bounds, what a request carries, the
    scope of a cookie, eviction order, two round trips.
  \<^item> \<open>Session\<close> (\<open>auth/session.py\<close>): the lifecycle that loads, validates, refreshes, acquires and saves
    a session over any store; the locale \<open>session_store\<close> is what it asks of one, the memory store
    interprets it.
  \<^item> \<open>Attempts\<close> (\<open>clients/attempts.py\<close>, \<open>clients/_decisions.py\<close>, \<open>policies.py\<close>, the coordinator of
    \<open>clients/executor.py\<close>, the replay guard of \<open>protection/advanced.py\<close>): budgets, policies, the
    decision a response leads to, the loop of attempts. The locale \<open>attempt_policy\<close> is what the loop
    relies on in a policy.
  \<^item> \<open>Subscriptions\<close> (\<open>websocket/subscriptions.py\<close>, \<open>websocket/policies.py\<close>): the bounded queue of a
    subscription, as operations and a step relation over its runs.
  \<^item> \<open>WsSession\<close> (\<open>websocket/_decisions.py\<close>, \<open>_state.py\<close>, \<open>_connection.py\<close>, \<open>_outbound.py\<close>,
    \<open>_reconnect.py\<close>): the WebSocket client, one operation per section of a coroutine between two
    awaits. \<open>WsRuns\<close> has the step relation and the write queue, \<open>WsRoutes\<close> the registries, \<open>WsDelivery\<close>
    what a client owes its callers and the runs in which it falls short.
  \<^item> \<open>Pagination\<close> (\<open>pagination.py\<close>, the iteration of \<open>api.py\<close>, \<open>Url.allows\<close> of \<open>request/params.py\<close>): the
    strategies, the next request, \<open>pages()\<close>, \<open>items()\<close>, \<open>first()\<close> and the address of a request.
  \<^item> \<open>Documents\<close> (\<open>clients/_decisions.py\<close>, the path checks of \<open>compile/http_compiler.py\<close>, the JSON
    pointers of \<open>response/cases.py\<close> and \<open>request/signatures.py\<close>): how the document of a request body is
    built from the caller's fields and the managed ones, and the readers of a place in it. Lemmas:
    the checks of the compiler keep the writers apart, the readers agree with RFC 6901.
  \<^item> \<open>Parameters\<close> (\<open>request/params.py\<close>, \<open>request/wire.py\<close>): the query multimap, the OpenAPI styles,
    percent-encoding. Lemmas: decoding undoes encoding, what a parameter can put into a path.
  \<^item> \<open>Preparation\<close> (\<open>request/prepared.py\<close>, \<open>request/descriptors.py\<close>): query, headers, cookies and body
    of an attempt become a request and the view signatures read. Lemmas: no declared value adds a
    header line, which cookies are sent, a generated query can be read back.
  \<^item> \<open>Signatures\<close> (\<open>request/signatures.py\<close>): the components of a signature base and what they read,
    the order of signing (a use of \<open>kahn\<close>), the loop that signs and puts outputs into the request.
    Lemmas: a base is a function of what it reads, outputs that are not read leave it alone, so a
    signature covers the message that is sent; the view stays equal to the request.
  \<^item> \<open>Responses\<close> (\<open>response/\<close>): header lines, the parts of a \<open>Location\<close>, predicates, where a field of a
    response model comes from; \<open>Markers\<close>: what a model states about itself; \<open>Cases\<close>
    (\<open>response/cases.py\<close>): the choice among the declared cases. Lemmas: the most specific claim decides,
    the order of declaration decides nothing.
  \<^item> \<open>InputFields\<close> (\<open>compile/input.py\<close>): the fields of an operation class, their places and conflicts.
  \<^item> \<open>Security\<close> (\<open>auth/core.py\<close>, \<open>auth/session_runtime.py\<close>): schemes, alternatives, the declared session.
    Lemmas: which alternative a call uses, that a valid session sends each field to a place of its own.
  \<^item> \<open>Compiler\<close> (\<open>compile/http_compiler.py\<close>): slots of an operation, writers of its body, the graph of its
    phases, the binding of a call. Lemmas: the layout is sound, the graph always compiles, exactly which
    calls are accepted.
  \<^item> \<open>Crypto\<close> (\<open>crypto/core.py\<close>, \<open>crypto/_compiler.py\<close>, \<open>crypto/_inputs.py\<close>) and \<open>CryptoHttp\<close>
    (\<open>crypto/_http.py\<close>): profiles, rules, paths of encrypted fields, the stages that run the algorithms, and
    their lowering to HTTP. The locale \<open>place_store\<close> is what a document promises about reads and writes at
    places that stand apart. Lemmas: decryption undoes encryption, metadata crosses the wire, no downgrade.
  \<^item> \<open>Protection\<close> (\<open>protection/advanced.py\<close>, \<open>protection/guard.py\<close>): identities, policies, guards, the patch
    a solution becomes. \<open>ProtectionState\<close> and \<open>ProtectionLocks\<close> (\<open>clients/executor.py\<close>): cached clearances, the
    section in which one task solves for the others, and its locks as a step relation over interleaved tasks. The
    locale \<open>acquisition\<close> is what an acquisition may do to the cache, \<open>environment\<close> the same of the operations
    and solvers of an attempt. Lemmas: no clearance crosses fingerprints, the waiters share one solve up to the
    first that cannot use it, the cache keeps its invariant, one holder per key.
\<close>

text \<open>
  \<^bold>\<open>Conventions.\<close> An object that compares by identity carries a natural number for its \<open>id()\<close>. A
  \<open>raise\<close> is \<open>Inl\<close> of an error. Code of the caller (providers, validators, strategies' callables, the
  session exchange, the transport) and of the standard library beyond lists and dictionaries
  (\<open>urlsplit\<close>, \<open>fnmatch\<close>, date parsing) is a parameter: a function of the arguments and, where it may
  keep state, of a world \<open>'w\<close> that it returns updated. Sections of code under a lock, or between two
  awaits, are one operation.

  \<^bold>\<open>Loops.\<close> The schedulers, the dependency resolution and the replay loop of the WebSocket client
  terminate by a measure. The loop of attempts takes fuel, and \<open>Attempts\<close> shows that the hard limit of
  a call is enough. The pagination loops can run for ever on a server that never ends; they take fuel
  and \<open>items_terminates\<close> says how much is enough when one of the bounds is given.

  \<^bold>\<open>Not modelled.\<close> Reading declaration classes through \<open>inspect\<close> and \<open>typing\<close> (the compiler starts from the
  fields they give), codecs and model adapters over third-party libraries, handlers over HTTP clients and the
  plugins, whose inputs are Python classes, annotations and third-party objects rather than data; and, so
  far, JSON-RPC and the operations, crypto and clearance of the WebSocket client. The manifest lists them.
\<close>

end
